(* ===== verification/Prelude.thy ===== *)
theory Prelude
  imports Main "HOL-Library.Word" "HOL-Library.Multiset"
begin

text \<open>
  Shared vocabulary of the development: names for the machine integers of the C++ sources,
  the list operations of the standard library that several components use
  (\<open>std::ranges::lower_bound\<close>, \<open>vector::insert\<close>, reverse search), and the generic lemmas and
  rule collections about them.
\<close>

section \<open>Machine integers\<close>

type_synonym u8 = "8 word"
type_synonym u16 = "16 word"
type_synonym u32 = "32 word"
type_synonym u64 = "64 word"

text \<open>The last address of a non-empty half-open interval.\<close>

lemma word_interval_last:
  fixes e :: u64
  assumes "b < e"
  shows "b \<le> e - 1" "e - 1 < e" "e - 1 < x \<Longrightarrow> e \<le> x"
proof -
  show "b \<le> e - 1" using assms by unat_arith
  show "e - 1 < e" using assms measure_unat by (metis word_less_nat_alt word_not_simps(1))
  show "e - 1 < x \<Longrightarrow> e \<le> x" using assms by unat_arith
qed

section \<open>Rule collections\<close>

named_theorems wf_intros \<open>preservation of a component's well-formedness by its operations\<close>
named_theorems range_simps \<open>index and partition lemmas for lists split by \<open>takeWhile\<close>\<close>

section \<open>Partition points\<close>

text \<open>
  \<open>std::ranges::lower_bound(r, v, std::less, proj)\<close> on a range that is partitioned by
  \<open>proj x < v\<close> (which the standard requires) is the index of the first element that does not
  satisfy \<open>proj x < v\<close>; \<open>upper_bound\<close> likewise with \<open>proj x \<le> v\<close>.
\<close>

definition lower_bound_index :: "('a \<Rightarrow> 'k::linorder) \<Rightarrow> 'a list \<Rightarrow> 'k \<Rightarrow> nat" where
  "lower_bound_index proj xs v = length (takeWhile (\<lambda>x. proj x < v) xs)"

definition upper_bound_index :: "('a \<Rightarrow> 'k::linorder) \<Rightarrow> 'a list \<Rightarrow> 'k \<Rightarrow> nat" where
  "upper_bound_index proj xs v = length (takeWhile (\<lambda>x. proj x \<le> v) xs)"

lemma take_length_takeWhile [range_simps]:
  "take (length (takeWhile P xs)) xs = takeWhile P xs"
  by (induction xs) auto

lemma drop_length_takeWhile [range_simps]:
  "drop (length (takeWhile P xs)) xs = dropWhile P xs"
  by (induction xs) auto

lemma takeWhile_rev_partition:
  assumes "\<And>i j. i \<le> j \<Longrightarrow> j < length xs \<Longrightarrow> P (xs ! i) \<Longrightarrow> P (xs ! j)"
  shows "length xs - length (takeWhile P (rev xs)) = length (takeWhile (\<lambda>x. \<not> P x) xs)"
  using assms
proof (induction xs)
  case Nil
  then show ?case by simp
next
  case (Cons x xs)
  have mono: "\<And>i j. i \<le> j \<Longrightarrow> j < length xs \<Longrightarrow> P (xs ! i) \<Longrightarrow> P (xs ! j)"
  proof -
    fix i j assume "i \<le> j" "j < length xs" "P (xs ! i)"
    then show "P (xs ! j)" using Cons.prems [of "Suc i" "Suc j"] by simp
  qed
  show ?case
  proof (cases "P x")
    case True
    then have "\<forall>y \<in> set xs. P y"
      using Cons.prems [of 0 "Suc j" for j] by (fastforce simp: in_set_conv_nth)
    with True have "takeWhile P (rev (x # xs)) = rev (x # xs)"
      by simp
    then have "length (takeWhile P (rev (x # xs))) = length (x # xs)"
      by (simp only: length_rev)
    with True show ?thesis by (simp only: takeWhile.simps diff_self_eq_0 list.size(3) if_False simp_thms)
  next
    case False
    have "length (takeWhile P (rev xs @ [x])) = length (takeWhile P (rev xs))"
      using False by (simp add: takeWhile_tail)
    moreover have "length (takeWhile P (rev xs)) \<le> length xs"
      using length_takeWhile_le [of P "rev xs"] by simp
    ultimately show ?thesis using False Cons.IH [OF mono] by (simp add: Suc_diff_le)
  qed
qed

section \<open>Sequence insertion\<close>

lemma list_two_ends: "xs \<noteq> [] \<Longrightarrow> length xs \<noteq> 1 \<Longrightarrow> \<exists>x ys z. xs = x # ys @ [z]"
  by (cases xs; cases "tl xs" rule: rev_cases) auto

lemma sort_key_eq_Nil_iff [simp]: "sort_key f xs = [] \<longleftrightarrow> xs = []"
  by (metis set_empty set_sort)


definition insert_at :: "nat \<Rightarrow> 'a \<Rightarrow> 'a list \<Rightarrow> 'a list" where
  "insert_at i x xs = take i xs @ x # drop i xs"

lemma length_insert_at [simp]: "length (insert_at i x xs) = Suc (length xs)"
  by (simp add: insert_at_def)

lemma set_insert_at [simp]: "set (insert_at i x xs) = insert x (set xs)"
proof -
  have "set xs = set (take i xs) \<union> set (drop i xs)"
    by (metis append_take_drop_id set_append)
  then show ?thesis by (auto simp: insert_at_def)
qed

lemma length_filter_remove:
  assumes "i < length xs"
  shows "length (filter P xs) =
    length (filter P (take i xs @ drop (Suc i) xs)) + (if P (xs ! i) then 1 else 0)"
proof -
  have "xs = take i xs @ xs ! i # drop (Suc i) xs" by (rule id_take_nth_drop [OF assms])
  then have "filter P xs = filter P (take i xs @ xs ! i # drop (Suc i) xs)" by simp
  then show ?thesis by simp
qed

lemma set_remove_subset: "set (take i xs @ drop (Suc i) xs) \<subseteq> set xs"
  by (auto dest: in_set_takeD in_set_dropD)

section \<open>Sums\<close>

lemma sum_list_zero: "\<forall>x \<in> set xs. g x \<noteq> k \<Longrightarrow> sum_list (map (\<lambda>x. if g x = k then 1 else 0 :: nat) xs) = 0"
  by (induction xs) auto

lemma sum_list_one:
  "distinct (map g xs) \<Longrightarrow> c \<in> set xs \<Longrightarrow> sum_list (map (\<lambda>x. if g x = g c then 1 else 0 :: nat) xs) = 1"
proof (induction xs)
  case (Cons a xs)
  show ?case
  proof (cases "c = a")
    case True
    have "\<forall>x \<in> set xs. g x \<noteq> g a" using Cons.prems(1) by (auto simp: image_iff)
    with True show ?thesis using sum_list_zero [of xs g "g a"] by simp
  next
    case False
    with Cons.prems have "g a \<noteq> g c" by auto
    with Cons False show ?thesis by simp
  qed
qed simp

section \<open>Search\<close>

lemma find_append:
  "List.find P (xs @ ys) = (case List.find P xs of Some x \<Rightarrow> Some x | None \<Rightarrow> List.find P ys)"
  by (induction xs) auto


text \<open>The last element of a list that satisfies a predicate, as a reverse loop finds it.\<close>

definition find_last :: "('a \<Rightarrow> bool) \<Rightarrow> 'a list \<Rightarrow> 'a option" where
  "find_last P xs = List.find P (rev xs)"

lemma find_last_simps [simp]:
  "find_last P [] = None"
  "find_last P [x] = (if P x then Some x else None)"
  "find_last P (xs @ [x]) = (if P x then Some x else find_last P xs)"
  by (simp_all add: find_last_def)

lemma find_last_None_iff: "find_last P xs = None \<longleftrightarrow> (\<forall>x \<in> set xs. \<not> P x)"
  by (auto simp: find_last_def find_None_iff)

lemma find_last_SomeD: "find_last P xs = Some x \<Longrightarrow> x \<in> set xs \<and> P x"
  by (auto simp: find_last_def find_Some_iff) (metis nth_mem set_rev length_rev)

lemma find_last_split:
  "find_last P xs = Some x \<Longrightarrow> \<exists>ys zs. xs = ys @ x # zs \<and> P x \<and> (\<forall>z \<in> set zs. \<not> P z)"
proof (induction xs rule: rev_induct)
  case Nil
  then show ?case by simp
next
  case (snoc a xs)
  show ?case
  proof (cases "P a")
    case True
    with snoc.prems show ?thesis by (intro exI [of _ xs] exI [of _ "[]"]) simp
  next
    case False
    with snoc obtain ys zs where "xs = ys @ x # zs" "P x" "\<forall>z \<in> set zs. \<not> P z" by auto
    with False show ?thesis by (intro exI [of _ ys] exI [of _ "zs @ [a]"]) auto
  qed
qed

lemma find_last_append [simp]:
  "find_last P (xs @ ys) = (case find_last P ys of Some y \<Rightarrow> Some y | None \<Rightarrow> find_last P xs)"
  by (induction ys rule: rev_induct) (auto simp flip: append_assoc split: option.splits)

text \<open>\<open>lower_bound\<close> over a reversed view finds the last element that passes.\<close>

lemma find_last_rev_takeWhile:
  "find_last P xs =
     (let i = length (takeWhile (\<lambda>x. \<not> P x) (rev xs))
      in if i = length xs then None else Some (rev xs ! i))"
proof (induction xs rule: rev_induct)
  case Nil
  then show ?case by simp
next
  case (snoc x xs)
  then show ?case by (auto simp: Let_def)
qed

end
