(* ===== verification/Timeline.thy ===== *)
theory Timeline
  imports Prelude
begin

text \<open>
  Looking things up in time. The module index, the process and the thread histories all keep
  entries sorted by a time stamp and search them backwards for the latest entry that is not
  after a given time; a lenient search falls back to the oldest entry. This theory holds that
  search and, as a locale, the contract the three share.
\<close>

definition latest_of :: "('e \<Rightarrow> 'ts::linorder) \<Rightarrow> 'e list \<Rightarrow> 'ts \<Rightarrow> bool \<Rightarrow> 'e option" where
  "latest_of stamp es ts strict =
     (case find_last (\<lambda>e. stamp e \<le> ts) es of
        Some e \<Rightarrow> Some e
      | None \<Rightarrow> if strict \<or> es = [] then None else Some (hd es))"

lemma latest_of_Nil [simp]: "latest_of stamp [] ts strict = None"
  by (simp add: latest_of_def)

lemma latest_of_mem:
  "latest_of stamp es ts strict = Some e \<Longrightarrow> e \<in> set es \<and> (strict \<longrightarrow> stamp e \<le> ts)"
  by (auto simp: latest_of_def dest: find_last_SomeD split: option.splits if_splits)

lemma latest_of_strict: "latest_of stamp es ts True = find_last (\<lambda>e. stamp e \<le> ts) es"
  by (simp add: latest_of_def split: option.splits)

lemma latest_of_strict_None: "latest_of stamp es ts True = None \<longleftrightarrow> (\<forall>e \<in> set es. ts < stamp e)"
  by (simp add: latest_of_strict find_last_None_iff not_le)

lemma latest_of_lenient_None: "latest_of stamp es ts False = None \<longleftrightarrow> es = []"
  by (auto simp: latest_of_def split: option.splits)

lemma latest_of_max:
  assumes "sorted (map stamp es)" "latest_of stamp es ts strict = Some e" "x \<in> set es" "stamp x \<le> ts"
  shows "stamp x \<le> stamp e"
proof -
  have last: "find_last (\<lambda>e. stamp e \<le> ts) es = Some e"
    using assms(2-4) by (auto simp: latest_of_def find_last_None_iff split: option.splits)
  obtain ys zs where es: "es = ys @ e # zs" "\<forall>z \<in> set zs. \<not> stamp z \<le> ts"
    using find_last_split [OF last] by auto
  then show ?thesis using assms(1,3,4) by (auto simp: sorted_append)
qed

lemma latest_of_snoc [simp]: "stamp n \<le> ts \<Longrightarrow> latest_of stamp (es @ [n]) ts strict = Some n"
  by (simp add: latest_of_def)

lemma latest_of_snoc_earlier:
  "\<not> stamp n \<le> ts \<Longrightarrow> es \<noteq> [] \<or> strict \<Longrightarrow>
   latest_of stamp (es @ [n]) ts strict = latest_of stamp es ts strict"
  by (auto simp: latest_of_def split: option.splits)

lemma latest_of_single: "stamp n \<le> ts \<Longrightarrow> latest_of stamp [n] ts strict = Some n"
  by (simp add: latest_of_def)

lemma latest_of_appended:
  assumes "sorted (map stamp es)" "\<forall>e \<in> set es. stamp e \<le> stamp n" "stamp n \<le> ts"
  shows "latest_of stamp (sort_key stamp (es @ [n])) ts strict = Some n"
proof -
  have "sorted (map stamp (es @ [n]))" using assms(1,2) by (simp add: sorted_append)
  then have "sort_key stamp (es @ [n]) = es @ [n]" by (rule sort_key_id_if_sorted)
  with assms(3) show ?thesis by simp
qed

section \<open>The contract\<close>

text \<open>
  \<open>tl_entries m k\<close> are the entries a structure \<open>m\<close> keeps for a key (an address, a process id),
  \<open>tl_view m e\<close> is what a lookup returns of an entry.
\<close>

locale timeline =
  fixes tl_wf :: "'m \<Rightarrow> bool"
    and tl_entries :: "'m \<Rightarrow> 'k \<Rightarrow> 'e list"
    and tl_stamp :: "'e \<Rightarrow> 'ts::linorder"
    and tl_view :: "'m \<Rightarrow> 'e \<Rightarrow> 'r"
    and tl_find :: "'m \<Rightarrow> 'k \<Rightarrow> 'ts \<Rightarrow> bool \<Rightarrow> 'r option"
  assumes entries_sorted: "tl_wf m \<Longrightarrow> sorted (map tl_stamp (tl_entries m k))"
    and find_latest: "tl_wf m \<Longrightarrow>
      tl_find m k t strict = map_option (tl_view m) (latest_of tl_stamp (tl_entries m k) t strict)"
begin

lemma find_Some:
  assumes "tl_wf m" "tl_find m k t strict = Some r"
  shows "\<exists>e \<in> set (tl_entries m k). r = tl_view m e \<and> (strict \<longrightarrow> tl_stamp e \<le> t) \<and>
    (\<forall>x \<in> set (tl_entries m k). tl_stamp x \<le> t \<longrightarrow> tl_stamp x \<le> tl_stamp e)"
proof -
  obtain e where e: "latest_of tl_stamp (tl_entries m k) t strict = Some e" "r = tl_view m e"
    using assms find_latest by auto
  then show ?thesis
    using latest_of_mem [OF e(1)] latest_of_max [OF entries_sorted [OF assms(1)] e(1)] by blast
qed

lemma find_strict_None:
  "tl_wf m \<Longrightarrow> tl_find m k t True = None \<longleftrightarrow> (\<forall>e \<in> set (tl_entries m k). t < tl_stamp e)"
  by (simp add: find_latest latest_of_strict_None)

lemma find_lenient_None: "tl_wf m \<Longrightarrow> tl_find m k t False = None \<longleftrightarrow> tl_entries m k = []"
  by (simp add: find_latest latest_of_lenient_None)

text \<open>A lenient search refines a strict one.\<close>

lemma find_strict_lenient:
  "tl_wf m \<Longrightarrow> tl_find m k t True = Some r \<Longrightarrow> tl_find m k t False = Some r"
  by (auto simp: find_latest latest_of_def split: option.splits if_splits)

end

end
