(* ===== verification/ModuleMap.thy ===== *)
theory ModuleMap
  imports Timeline
begin

text \<open>
  The address-to-module index of \<open>snail/analysis/detail/module_map.hpp\<close>. Every process keeps
  one: the image-load and mmap events insert modules, and every stack frame is attributed by a
  lookup of its instruction pointer at the time of the sample. The index is a sorted vector of
  disjoint half-open address ranges, each with the modules that were mapped there in load
  order; inserting a module splits the ranges it only partly covers.

  Addresses are 64-bit words, so \<open>base + size\<close> wraps as in the code. Operations of the
  standard library whose precondition fails (\<open>std::prev\<close> of the first iterator, a loop from
  \<open>first\<close> to a position before it) have no defined result in the code; the model returns
  \<open>None\<close> there, and the lemmas below show when that cannot happen.
\<close>

section \<open>Data\<close>

record 'd module_info =
  mi_base :: u64
  mi_size :: u64
  mi_payload :: 'd

record 'ts module_entry =
  load_timestamp :: 'ts
  module_index :: nat

record 'ts address_range =
  begin_address :: u64
  end_address :: u64
  active_modules :: "'ts module_entry list"

record ('d, 'ts) module_map =
  mm_modules :: "'d module_info list"
  mm_ranges :: "'ts address_range list"

definition mm_empty :: "('d, 'ts) module_map" where
  "mm_empty = \<lparr>mm_modules = [], mm_ranges = []\<rparr>"

definition contains :: "'ts address_range \<Rightarrow> u64 \<Rightarrow> bool" where
  "contains r address \<longleftrightarrow> address \<ge> begin_address r \<and> address < end_address r"

text \<open>
  \<open>add_active_module\<close>: append, and sort by load time unless the new entry is the latest.
  \<open>std::ranges::sort\<close> leaves the order of equal load times open; the model keeps it
  (\<open>sort_key\<close> is stable). The code reads \<open>active_modules.back()\<close>, so the list must not be
  empty; every range the map builds has an active module (\<open>range_wf\<close>).
\<close>

definition add_active_module ::
  "'ts::linorder module_entry \<Rightarrow> 'ts address_range \<Rightarrow> 'ts address_range" where
  "add_active_module new_module r =
     (let simple_append = load_timestamp new_module \<ge> load_timestamp (last (active_modules r));
          appended = active_modules r @ [new_module]
      in r\<lparr>active_modules :=
             if simple_append then appended else sort_key load_timestamp appended\<rparr>)"

definition new_range :: "u64 \<Rightarrow> u64 \<Rightarrow> 'ts module_entry \<Rightarrow> 'ts address_range" where
  "new_range b e entry = \<lparr>begin_address = b, end_address = e, active_modules = [entry]\<rparr>"

section \<open>Insertion\<close>

text \<open>
  \<open>lower_bound(views::reverse(ranges), v, greater, &end_address).base()\<close>: the index of the
  first range whose end lies above \<open>v\<close>.
\<close>

definition first_range_ending_after :: "'ts address_range list \<Rightarrow> u64 \<Rightarrow> nat" where
  "first_range_ending_after rs v =
     length rs - length (takeWhile (\<lambda>r. end_address r > v) (rev rs))"

text \<open>The three steps that resolve overlaps: split the range that sticks out at the front,
  split the one that sticks out at the back, add the module to all ranges in between. The
  indices play the part of the code's two iterators.\<close>

definition split_front ::
  "'ts address_range list \<Rightarrow> nat \<Rightarrow> nat \<Rightarrow> u64 \<Rightarrow> 'ts address_range list \<times> nat \<times> nat" where
  "split_front rs first last_i b =
     (if begin_address (rs ! first) < b
      then (let nr = \<lparr>begin_address = b, end_address = end_address (rs ! first),
                       active_modules = active_modules (rs ! first)\<rparr>;
                rs' = rs[first := (rs ! first)\<lparr>end_address := begin_address nr\<rparr>]
            in (insert_at (Suc first) nr rs', Suc first, last_i + 1))
      else (rs, first, last_i))"

definition split_back ::
  "'ts address_range list \<Rightarrow> nat \<Rightarrow> nat \<Rightarrow> u64 \<Rightarrow> 'ts address_range list \<times> nat \<times> nat" where
  "split_back rs first last_i e =
     (if end_address (rs ! last_i) > e
      then (let nr = \<lparr>begin_address = begin_address (rs ! last_i), end_address = e,
                       active_modules = active_modules (rs ! last_i)\<rparr>;
                rs' = rs[last_i := (rs ! last_i)\<lparr>begin_address := end_address nr\<rparr>]
            in (insert_at last_i nr rs', first, last_i))
      else (rs, first, last_i))"

definition add_to_ranges ::
  "'ts::linorder module_entry \<Rightarrow> 'ts address_range list \<Rightarrow> nat \<Rightarrow> nat \<Rightarrow> 'ts address_range list" where
  "add_to_ranges entry rs first last_i =
     take first rs @ map (add_active_module entry) (drop first (take (Suc last_i) rs)) @
     drop (Suc last_i) rs"

definition exact_match ::
  "('d \<Rightarrow> 'd \<Rightarrow> bool) \<Rightarrow> 'd module_info list \<Rightarrow> 'ts::linorder address_range list \<Rightarrow>
   nat \<Rightarrow> nat \<Rightarrow> 'ts \<Rightarrow> bool" where
  "exact_match eq mods rs first last_i ts \<longleftrightarrow>
     first = last_i \<and>
     begin_address (rs ! first) = mi_base (last mods) \<and>
     end_address (rs ! first) = mi_base (last mods) + mi_size (last mods) \<and>
     load_timestamp (last (active_modules (rs ! first))) \<le> ts \<and>
     eq (mi_payload (mods ! module_index (last (active_modules (rs ! first))))) (mi_payload (last mods))"

definition insert_inner ::
  "('d \<Rightarrow> 'd \<Rightarrow> bool) \<Rightarrow> 'd module_info list \<Rightarrow> 'ts::linorder address_range list \<Rightarrow>
   u64 \<Rightarrow> u64 \<Rightarrow> 'ts module_entry \<Rightarrow> ('d, 'ts) module_map option" where
  "insert_inner eq mods rs b e entry =
     (let first_after = lower_bound_index begin_address rs e in
      if first_after = 0 then None
      else let last_i = first_after - 1 in
        if end_address (rs ! last_i) \<le> b
        then Some \<lparr>mm_modules = mods, mm_ranges = insert_at first_after (new_range b e entry) rs\<rparr>
        else let first = (if begin_address (rs ! last_i) \<le> b then last_i
                          else first_range_ending_after rs b) in
          if exact_match eq mods rs first last_i (load_timestamp entry)
          then Some \<lparr>mm_modules = butlast mods, mm_ranges = rs\<rparr>
          else if last_i < first then None
          else (case split_front rs first last_i b of (rs1, first1, last1) \<Rightarrow>
                case split_back rs1 first1 last1 e of (rs2, first2, last2) \<Rightarrow>
                  Some \<lparr>mm_modules = mods, mm_ranges = add_to_ranges entry rs2 first2 last2\<rparr>))"

definition insert_back ::
  "('d \<Rightarrow> 'd \<Rightarrow> bool) \<Rightarrow> 'd module_info list \<Rightarrow> 'ts::linorder address_range list \<Rightarrow>
   u64 \<Rightarrow> u64 \<Rightarrow> 'ts module_entry \<Rightarrow> ('d, 'ts) module_map option" where
  "insert_back eq mods rs b e entry =
     (if end_address (last rs) < e
      then (let current_total_end = end_address (last rs);
                rs' = rs @ [new_range (max current_total_end b) e entry];
                e' = current_total_end
            in if e' \<le> b then Some \<lparr>mm_modules = mods, mm_ranges = rs'\<rparr>
               else insert_inner eq mods rs' b e' entry)
      else insert_inner eq mods rs b e entry)"

definition mm_insert ::
  "('d \<Rightarrow> 'd \<Rightarrow> bool) \<Rightarrow> ('d, 'ts::linorder) module_map \<Rightarrow> 'd module_info \<Rightarrow> 'ts \<Rightarrow>
   ('d, 'ts) module_map option" where
  "mm_insert eq m md ts =
     (let new_module_index = length (mm_modules m);
          mods = mm_modules m @ [md];
          b = mi_base md;
          e = mi_base md + mi_size md;
          entry = \<lparr>load_timestamp = ts, module_index = new_module_index\<rparr>;
          rs = mm_ranges m
      in if rs = [] then Some \<lparr>mm_modules = mods, mm_ranges = [new_range b e entry]\<rparr>
         else if begin_address (hd rs) > b
         then (let current_total_begin = begin_address (hd rs);
                   rs' = new_range b (min current_total_begin e) entry # rs;
                   b' = current_total_begin
               in if b' \<ge> e then Some \<lparr>mm_modules = mods, mm_ranges = rs'\<rparr>
                  else insert_back eq mods rs' b' e entry)
         else insert_back eq mods rs b e entry)"

section \<open>Lookup\<close>

text \<open>
  The range is the last one whose begin is not above the address. Among its modules the
  search walks back from the latest load to the first one not after the timestamp, and stops
  at the oldest. A null module pointer is \<open>None\<close>.
\<close>

definition walk_back :: "'ts::linorder module_entry list \<Rightarrow> 'ts \<Rightarrow> 'ts module_entry" where
  "walk_back es ts =
     (case find_last (\<lambda>e. \<not> load_timestamp e > ts) es of Some e \<Rightarrow> e | None \<Rightarrow> hd es)"

definition mm_find ::
  "('d, 'ts::linorder) module_map \<Rightarrow> u64 \<Rightarrow> 'ts \<Rightarrow> bool \<Rightarrow> ('d module_info \<times> 'ts) option" where
  "mm_find m address ts strict =
     (let reversed_ranges = rev (mm_ranges m);
          i = length (takeWhile (\<lambda>r. begin_address r > address) reversed_ranges)
      in if i = length reversed_ranges then None
         else let r = reversed_ranges ! i in
           if \<not> contains r address then None
           else let latest = walk_back (active_modules r) ts in
             if strict \<and> load_timestamp latest > ts then None
             else Some (mm_modules m ! module_index latest, load_timestamp latest))"

section \<open>The invariant\<close>

text \<open>
  A range is well formed when it is not empty, has an active module, its modules are in load
  order, and each of them exists. The ranges are ascending and do not overlap.
\<close>

definition range_wf :: "'ts::linorder address_range \<Rightarrow> bool" where
  "range_wf r \<longleftrightarrow> begin_address r < end_address r \<and> active_modules r \<noteq> [] \<and>
     sorted (map load_timestamp (active_modules r))"

definition ascending :: "'ts address_range list \<Rightarrow> bool" where
  "ascending rs \<longleftrightarrow> sorted_wrt (\<lambda>r s. end_address r \<le> begin_address s) rs"

definition ranges_wf :: "'ts::linorder address_range list \<Rightarrow> bool" where
  "ranges_wf rs \<longleftrightarrow> (\<forall>r \<in> set rs. range_wf r) \<and> ascending rs"

text \<open>A module covers a range when the range lies inside \<open>[base, base + size)\<close>.\<close>

definition covered_by :: "'d module_info \<Rightarrow> 'ts address_range \<Rightarrow> bool" where
  "covered_by md r \<longleftrightarrow> mi_base md \<le> begin_address r \<and> end_address r \<le> mi_base md + mi_size md"

definition entries_ok :: "'d module_info list \<Rightarrow> 'ts address_range \<Rightarrow> bool" where
  "entries_ok mods r \<longleftrightarrow>
     (\<forall>e \<in> set (active_modules r). module_index e < length mods \<and>
        covered_by (mods ! module_index e) r)"

definition map_wf :: "('d, 'ts::linorder) module_map \<Rightarrow> bool" where
  "map_wf m \<longleftrightarrow> ranges_wf (mm_ranges m) \<and> (\<forall>r \<in> set (mm_ranges m). entries_ok (mm_modules m) r)"

text \<open>What the map means: the modules active at an address, oldest first.\<close>

definition active_at :: "'ts address_range list \<Rightarrow> u64 \<Rightarrow> 'ts module_entry list" where
  "active_at rs a = concat (map (\<lambda>r. if contains r a then active_modules r else []) rs)"

lemma active_at_simps [simp]:
  "active_at [] a = []"
  "active_at (r # rs) a = (if contains r a then active_modules r else []) @ active_at rs a"
  "active_at (rs @ qs) a = active_at rs a @ active_at qs a"
  by (simp_all add: active_at_def)

lemma active_at_None: "\<forall>r \<in> set rs. \<not> contains r a \<Longrightarrow> active_at rs a = []"
  by (induction rs) auto

lemma ascending_simps [simp]:
  "ascending []"
  "ascending (r # rs) \<longleftrightarrow> (\<forall>s \<in> set rs. end_address r \<le> begin_address s) \<and> ascending rs"
  "ascending (rs @ qs) \<longleftrightarrow>
     ascending rs \<and> ascending qs \<and> (\<forall>r \<in> set rs. \<forall>s \<in> set qs. end_address r \<le> begin_address s)"
  by (auto simp: ascending_def sorted_wrt_append)

lemma ranges_wf_simps [simp]:
  "ranges_wf []"
  "ranges_wf (r # rs) \<longleftrightarrow>
     range_wf r \<and> (\<forall>s \<in> set rs. end_address r \<le> begin_address s) \<and> ranges_wf rs"
  "ranges_wf (rs @ qs) \<longleftrightarrow>
     ranges_wf rs \<and> ranges_wf qs \<and> (\<forall>r \<in> set rs. \<forall>s \<in> set qs. end_address r \<le> begin_address s)"
  by (auto simp: ranges_wf_def)

lemma range_wf_order: "range_wf r \<Longrightarrow> begin_address r < end_address r"
  by (simp add: range_wf_def)

lemma range_wf_in: "ranges_wf rs \<Longrightarrow> r \<in> set rs \<Longrightarrow> begin_address r < end_address r"
  by (simp add: ranges_wf_def range_wf_def)

text \<open>Appending and sorting only if needed keeps the list in load order.\<close>

lemma active_add_active_module:
  assumes "range_wf r"
  shows "active_modules (add_active_module e r) =
     sort_key load_timestamp (active_modules r @ [e])"
proof (cases "load_timestamp e \<ge> load_timestamp (last (active_modules r))")
  case True
  have "\<forall>x \<in> set (active_modules r). load_timestamp x \<le> load_timestamp e"
  proof
    fix x assume "x \<in> set (active_modules r)"
    moreover obtain xs y where xs: "active_modules r = xs @ [y]"
      using assms by (metis range_wf_def append_butlast_last_id)
    ultimately show "load_timestamp x \<le> load_timestamp e"
      using assms True by (force simp: range_wf_def sorted_append)
  qed
  then have "sorted (map load_timestamp (active_modules r @ [e]))"
    using assms by (auto simp: range_wf_def sorted_append)
  with True show ?thesis
    by (simp add: add_active_module_def Let_def sort_key_id_if_sorted)
next
  case False
  then show ?thesis by (simp add: add_active_module_def Let_def)
qed

lemma add_active_module_sel [simp]:
  "begin_address (add_active_module e r) = begin_address r"
  "end_address (add_active_module e r) = end_address r"
  by (simp_all add: add_active_module_def Let_def)

lemma set_add_active_module [simp]:
  "set (active_modules (add_active_module e r)) = insert e (set (active_modules r))"
  by (auto simp: add_active_module_def Let_def)

lemma range_wf_add_active_module [wf_intros]:
  "range_wf r \<Longrightarrow> range_wf (add_active_module e r)"
  by (auto simp: range_wf_def active_add_active_module [unfolded range_wf_def])

section \<open>The reference insertion\<close>

text \<open>
  One range against the interval \<open>[b, e)\<close>: what sticks out at either side keeps its modules,
  what lies inside gets the new one. The code reaches the same list by splitting only the
  first and the last overlapping range in place.
\<close>

definition split_range ::
  "u64 \<Rightarrow> u64 \<Rightarrow> 'ts::linorder module_entry \<Rightarrow> 'ts address_range \<Rightarrow> 'ts address_range list" where
  "split_range b e entry r =
     (if end_address r \<le> b \<or> e \<le> begin_address r then [r]
      else (if begin_address r < b then [r\<lparr>end_address := b\<rparr>] else []) @
           [add_active_module entry
              (r\<lparr>begin_address := max b (begin_address r), end_address := min e (end_address r)\<rparr>)] @
           (if e < end_address r then [r\<lparr>begin_address := e\<rparr>] else []))"

definition split_ranges ::
  "u64 \<Rightarrow> u64 \<Rightarrow> 'ts::linorder module_entry \<Rightarrow> 'ts address_range list \<Rightarrow> 'ts address_range list" where
  "split_ranges b e entry rs = concat (map (split_range b e entry) rs)"

lemma split_ranges_simps [simp]:
  "split_ranges b e entry [] = []"
  "split_ranges b e entry (r # rs) = split_range b e entry r @ split_ranges b e entry rs"
  "split_ranges b e entry (rs @ qs) = split_ranges b e entry rs @ split_ranges b e entry qs"
  by (simp_all add: split_ranges_def)

lemma split_ranges_outside:
  "\<forall>r \<in> set rs. end_address r \<le> b \<or> e \<le> begin_address r \<Longrightarrow> split_ranges b e entry rs = rs"
  by (induction rs) (auto simp: split_range_def)

lemma split_range_inside:
  "b \<le> begin_address r \<Longrightarrow> end_address r \<le> e \<Longrightarrow> begin_address r < end_address r \<Longrightarrow>
   split_range b e entry r = [add_active_module entry r]"
  by (auto simp: split_range_def max_def min_def)

lemma split_ranges_inside:
  "\<forall>r \<in> set rs. b \<le> begin_address r \<and> end_address r \<le> e \<and> begin_address r < end_address r \<Longrightarrow>
   split_ranges b e entry rs = map (add_active_module entry) rs"
  by (induction rs) (auto simp: split_range_inside)

lemma split_range_bounds:
  assumes "s \<in> set (split_range b e entry r)" "range_wf r" "b < e"
  shows "begin_address r \<le> begin_address s" "end_address s \<le> end_address r" "range_wf s"
    "set (active_modules s) \<subseteq> insert entry (set (active_modules r))"
    "entry \<in> set (active_modules s) \<Longrightarrow> entry \<notin> set (active_modules r) \<Longrightarrow>
       b \<le> begin_address s \<and> end_address s \<le> e"
proof -
  have wf: "range_wf (add_active_module entry (r\<lparr>begin_address := max b (begin_address r),
      end_address := min e (end_address r)\<rparr>))"
    if "\<not> end_address r \<le> b" "\<not> e \<le> begin_address r"
    using that assms(2,3) by (intro range_wf_add_active_module) (auto simp: range_wf_def max_def min_def)
  show "begin_address r \<le> begin_address s" "end_address s \<le> end_address r"
    "set (active_modules s) \<subseteq> insert entry (set (active_modules r))"
    "entry \<in> set (active_modules s) \<Longrightarrow> entry \<notin> set (active_modules r) \<Longrightarrow>
       b \<le> begin_address s \<and> end_address s \<le> e"
    using assms by (auto simp: split_range_def max_def min_def split: if_splits)
  show "range_wf s"
    using assms wf by (auto simp: split_range_def range_wf_def split: if_splits)
qed

lemma ranges_wf_split_range:
  "range_wf r \<Longrightarrow> b < e \<Longrightarrow> ranges_wf (split_range b e entry r)"
  using split_range_bounds(3) [of _ b e entry r]
  by (auto simp: split_range_def max_def min_def)

lemma split_ranges_bounds:
  "ranges_wf rs \<Longrightarrow> b < e \<Longrightarrow> s \<in> set (split_ranges b e entry rs) \<Longrightarrow>
   \<exists>r \<in> set rs. s \<in> set (split_range b e entry r)"
  by (auto simp: split_ranges_def)

lemma ranges_wf_split_ranges [wf_intros]:
  "ranges_wf rs \<Longrightarrow> b < e \<Longrightarrow> ranges_wf (split_ranges b e entry rs)"
proof (induction rs)
  case Nil
  then show ?case by simp
next
  case (Cons r rs)
  have "end_address s \<le> begin_address t"
    if st: "s \<in> set (split_range b e entry r)" "t \<in> set (split_ranges b e entry rs)" for s t
  proof -
    obtain q where q: "q \<in> set rs" "t \<in> set (split_range b e entry q)"
      using split_ranges_bounds [of rs b e t entry] Cons.prems st(2) by auto
    then have "begin_address q \<le> begin_address t"
      using Cons.prems by (intro split_range_bounds(1)) (auto simp: ranges_wf_def)
    moreover have "end_address s \<le> end_address r"
      using Cons.prems st(1) by (intro split_range_bounds(2)) auto
    ultimately show ?thesis using Cons.prems q(1) by fastforce
  qed
  with Cons show ?case by (simp add: ranges_wf_split_range)
qed

section \<open>The code's insertion is the reference insertion\<close>

text \<open>The ranges before, under and after the interval \<open>[b, e)\<close>.\<close>

lemma ranges_decompose:
  assumes "ranges_wf rs" "b < e"
  obtains pre mid post where "rs = pre @ mid @ post"
    "\<forall>r \<in> set pre. end_address r \<le> b"
    "\<forall>r \<in> set mid. b < end_address r \<and> begin_address r < e"
    "\<forall>r \<in> set post. e \<le> begin_address r"
proof -
  let ?pre = "takeWhile (\<lambda>r. end_address r \<le> b) rs"
  let ?rest = "dropWhile (\<lambda>r. end_address r \<le> b) rs"
  let ?mid = "takeWhile (\<lambda>r. begin_address r < e) ?rest"
  let ?post = "dropWhile (\<lambda>r. begin_address r < e) ?rest"
  have eq: "rs = ?pre @ ?mid @ ?post" by simp
  have rest_wf: "ranges_wf ?rest"
    using assms(1) ranges_wf_simps(3) [of ?pre ?rest] by simp
  have rest: "\<forall>r \<in> set ?rest. b < end_address r"
  proof (cases ?rest)
    case Nil
    then show ?thesis by (simp only: empty_iff ball_simps list.set)
  next
    case (Cons x xs)
    then have "b < end_address x"
      using hd_dropWhile [of "\<lambda>r. end_address r \<le> b" rs] by fastforce
    moreover have "\<forall>r \<in> set xs. end_address x < end_address r"
      using rest_wf unfolding Cons ranges_wf_simps
      by (meson order_le_less_trans range_wf_in)
    ultimately show ?thesis unfolding Cons by (auto intro: order_less_trans)
  qed
  have post: "\<forall>r \<in> set ?post. e \<le> begin_address r"
  proof (cases ?post)
    case Nil
    then show ?thesis by (simp only: empty_iff ball_simps list.set)
  next
    case (Cons x xs)
    then have x: "e \<le> begin_address x"
      using hd_dropWhile [of "\<lambda>r. begin_address r < e" ?rest] by fastforce
    have "ranges_wf (?mid @ ?post)" using rest_wf by simp
    then have "ranges_wf (x # xs)" unfolding Cons ranges_wf_simps(3) by blast
    then have "\<forall>r \<in> set xs. begin_address x \<le> begin_address r"
      unfolding ranges_wf_simps by (meson order_le_less_trans order_less_imp_le range_wf_order order_trans)
    with x show ?thesis unfolding Cons by (auto intro: order_trans)
  qed
  have mid: "\<forall>r \<in> set ?mid. b < end_address r \<and> begin_address r < e"
    using rest by (auto dest: set_takeWhileD)
  have pre: "\<forall>r \<in> set ?pre. end_address r \<le> b" by (auto dest: set_takeWhileD)
  show thesis by (rule that [OF eq pre mid post])
qed

lemma lower_bound_decomposed:
  assumes "ranges_wf (pre @ mid @ post)" "b < e"
    "\<forall>r \<in> set pre. end_address r \<le> b"
    "\<forall>r \<in> set mid. b < end_address r \<and> begin_address r < e"
    "\<forall>r \<in> set post. e \<le> begin_address r"
  shows "lower_bound_index begin_address (pre @ mid @ post) e = length (pre @ mid)"
proof -
  have "\<forall>r \<in> set (pre @ mid). begin_address r < e"
  proof
    fix r assume r: "r \<in> set (pre @ mid)"
    then have "begin_address r < end_address r" using assms(1) range_wf_in by fastforce
    with r assms(2-4) show "begin_address r < e" by fastforce
  qed
  moreover have "takeWhile (\<lambda>r. begin_address r < e) post = []"
    using assms(5) by (cases post) auto
  ultimately show ?thesis
    using takeWhile_append2 [of "pre @ mid" "\<lambda>r. begin_address r < e" post]
    by (simp add: lower_bound_index_def)
qed

lemma first_ending_after_decomposed:
  assumes "ranges_wf (pre @ rest)"
    "\<forall>r \<in> set pre. end_address r \<le> b" "\<forall>r \<in> set rest. b < end_address r"
  shows "first_range_ending_after (pre @ rest) b = length pre"
proof -
  have "takeWhile (\<lambda>r. b < end_address r) (rev rest @ rev pre) =
      rev rest @ takeWhile (\<lambda>r. b < end_address r) (rev pre)"
    using assms(3) by (intro takeWhile_append2) auto
  moreover have "takeWhile (\<lambda>r. b < end_address r) (rev pre) = []"
    using assms(2) by (cases pre rule: rev_cases) auto
  ultimately show ?thesis by (simp add: first_range_ending_after_def)
qed

text \<open>With a single overlapping range, and with several, the three in-place steps give the
  reference list.\<close>

lemma in_place_single:
  assumes "b < end_address x" "begin_address x < e" "b < e" "range_wf x"
    "split_front (pre @ x # post) (length pre) (length pre) b = (rs1, f1, l1)"
    "split_back rs1 f1 l1 e = (rs2, f2, l2)"
  shows "add_to_ranges entry rs2 f2 l2 = pre @ split_range b e entry x @ post"
proof (cases "begin_address x < b")
  case True
  then have 1: "rs1 = pre @ x\<lparr>end_address := b\<rparr> #
      \<lparr>begin_address = b, end_address = end_address x, active_modules = active_modules x\<rparr> # post"
    "f1 = Suc (length pre)" "l1 = Suc (length pre)"
    using assms(5) by (auto simp: split_front_def insert_at_def)
  show ?thesis
  proof (cases "e < end_address x")
    case True
    with 1 assms(6) have "rs2 = pre @ x\<lparr>end_address := b\<rparr> #
      \<lparr>begin_address = b, end_address = e, active_modules = active_modules x\<rparr> #
      \<lparr>begin_address = e, end_address = end_address x, active_modules = active_modules x\<rparr> # post"
      "f2 = Suc (length pre)" "l2 = Suc (length pre)"
      by (auto simp: split_back_def insert_at_def nth_append list_update_append)
    with True \<open>begin_address x < b\<close> assms(1-4) show ?thesis
      by (auto simp: not_le add_to_ranges_def split_range_def add_active_module_def Let_def max_def min_def)
  next
    case False
    with 1 assms(6) have "rs2 = rs1" "f2 = Suc (length pre)" "l2 = Suc (length pre)"
      by (auto simp: split_back_def nth_append)
    with 1 False \<open>begin_address x < b\<close> assms(1-4) show ?thesis
      by (auto simp: not_le add_to_ranges_def split_range_def add_active_module_def Let_def max_def min_def)
  qed
next
  case False
  with assms(5) have 1: "rs1 = pre @ x # post" "f1 = length pre" "l1 = length pre"
    by (auto simp: split_front_def)
  show ?thesis
  proof (cases "e < end_address x")
    case True
    with 1 assms(6) have "rs2 = pre @
      \<lparr>begin_address = begin_address x, end_address = e, active_modules = active_modules x\<rparr> #
      \<lparr>begin_address = e, end_address = end_address x, active_modules = active_modules x\<rparr> # post"
      "f2 = length pre" "l2 = length pre"
      by (auto simp: split_back_def insert_at_def nth_append list_update_append)
    with True False assms(1-4) show ?thesis
      by (auto simp: not_le add_to_ranges_def split_range_def add_active_module_def Let_def max_def min_def)
  next
    case no_back: False
    with 1 assms(6) have "rs2 = rs1" "f2 = length pre" "l2 = length pre"
      by (auto simp: split_back_def nth_append)
    with 1 False no_back assms(1-4) show ?thesis
      by (auto simp: not_le add_to_ranges_def split_range_def add_active_module_def Let_def max_def min_def)
  qed
qed

lemma split_front_eq:
  "split_front (pre @ x # rest) (length pre) l b =
     (if begin_address x < b
      then ((pre @ [x\<lparr>end_address := b\<rparr>]) @ x\<lparr>begin_address := b\<rparr> # rest, Suc (length pre), l + 1)
      else (pre @ x # rest, length pre, l))"
  by (simp add: split_front_def insert_at_def)

lemma split_back_eq:
  "l = length pre \<Longrightarrow> split_back (pre @ z # post) f l e =
     (if e < end_address z
      then (pre @ z\<lparr>end_address := e\<rparr> # z\<lparr>begin_address := e\<rparr> # post, f, length pre)
      else (pre @ z # post, f, length pre))"
  by (simp add: split_back_def insert_at_def)

lemma add_to_ranges_eq:
  "f = length p \<Longrightarrow> Suc l = length p + length m \<Longrightarrow>
   add_to_ranges entry (p @ m @ q) f l = p @ map (add_active_module entry) m @ q"
  by (simp add: add_to_ranges_def)

lemma add_active_module_update:
  "add_active_module entry (x\<lparr>begin_address := b\<rparr>) = (add_active_module entry x)\<lparr>begin_address := b\<rparr>"
  "add_active_module entry (x\<lparr>end_address := e\<rparr>) = (add_active_module entry x)\<lparr>end_address := e\<rparr>"
  by (simp_all add: add_active_module_def Let_def)

lemma in_place_many:
  assumes mid: "b < end_address x" "begin_address x < e" "b < end_address z" "begin_address z < e"
      "end_address x \<le> e" "b \<le> begin_address z"
    and ys: "\<forall>r \<in> set ys. b \<le> begin_address r \<and> end_address r \<le> e \<and> begin_address r < end_address r"
    and steps: "split_front (pre @ x # ys @ z # post) (length pre) (length pre + Suc (length ys)) b =
        (rs1, f1, l1)"
      "split_back rs1 f1 l1 e = (rs2, f2, l2)"
  shows "add_to_ranges entry rs2 f2 l2 =
     pre @ split_range b e entry x @ split_ranges b e entry ys @ split_range b e entry z @ post"
proof -
  let ?front = "if begin_address x < b then [x\<lparr>end_address := b\<rparr>] else []"
  let ?x = "if begin_address x < b then x\<lparr>begin_address := b\<rparr> else x"
  let ?tail = "if e < end_address z then [z\<lparr>begin_address := e\<rparr>] else []"
  let ?z = "if e < end_address z then z\<lparr>end_address := e\<rparr> else z"
  have 1: "rs1 = (pre @ ?front @ ?x # ys) @ z # post" "f1 = length (pre @ ?front)"
      "l1 = length (pre @ ?front @ ?x # ys)"
    using steps(1) by (auto simp: split_front_eq split: if_splits)
  have 2: "rs2 = (pre @ ?front) @ (?x # ys @ [?z]) @ ?tail @ post" "f2 = length (pre @ ?front)"
      "l2 = length (pre @ ?front @ ?x # ys)"
    using steps(2) unfolding 1(1) split_back_eq [OF 1(3)]
    by (auto simp: 1 split: if_splits)
  have "add_to_ranges entry rs2 f2 l2 =
      (pre @ ?front) @ map (add_active_module entry) (?x # ys @ [?z]) @ ?tail @ post"
    unfolding 2(1) by (rule add_to_ranges_eq) (simp_all add: 2)
  moreover have "?front @ [add_active_module entry ?x] = split_range b e entry x"
    using mid by (auto simp: split_range_def max_def min_def not_le
        add_active_module_update)
  moreover have "[add_active_module entry ?z] @ ?tail = split_range b e entry z"
    using mid by (auto simp: split_range_def max_def min_def not_le
        add_active_module_update)
  moreover have "map (add_active_module entry) ys = split_ranges b e entry ys"
    using ys by (simp add: split_ranges_inside)
  ultimately show ?thesis by (metis (no_types, lifting) append.assoc append_Cons append_Nil list.simps(9) map_append list.simps(8))
qed

text \<open>Two things the code decides by its iterators: whether any range overlaps the interval, and
  whether a range is exactly the new module's with the same payload on top.\<close>

definition overlaps :: "u64 \<Rightarrow> u64 \<Rightarrow> 'ts address_range list \<Rightarrow> bool" where
  "overlaps b e rs \<longleftrightarrow> (\<exists>r \<in> set rs. b < end_address r \<and> begin_address r < e)"

definition duplicate ::
  "('d \<Rightarrow> 'd \<Rightarrow> bool) \<Rightarrow> 'd module_info list \<Rightarrow> 'ts::linorder address_range list \<Rightarrow>
   'd module_info \<Rightarrow> 'ts \<Rightarrow> bool" where
  "duplicate eq mods rs md ts \<longleftrightarrow>
     (\<exists>r \<in> set rs. begin_address r = mi_base md \<and> end_address r = mi_base md + mi_size md \<and>
        load_timestamp (last (active_modules r)) \<le> ts \<and>
        eq (mi_payload (mods ! module_index (last (active_modules r)))) (mi_payload md))"

lemma insert_inner_gap:
  assumes "ranges_wf rs" "b < e" "rs \<noteq> []" "begin_address (hd rs) \<le> b" "\<not> overlaps b e rs"
  shows "\<exists>pre post. rs = pre @ post \<and> (\<forall>r \<in> set pre. end_address r \<le> b) \<and>
     (\<forall>r \<in> set post. e \<le> begin_address r) \<and>
     insert_inner eq mods rs b e entry =
       Some \<lparr>mm_modules = mods, mm_ranges = pre @ new_range b e entry # post\<rparr>"
proof -
  obtain pre mid post where d: "rs = pre @ mid @ post"
      "\<forall>r \<in> set pre. end_address r \<le> b"
      "\<forall>r \<in> set mid. b < end_address r \<and> begin_address r < e"
      "\<forall>r \<in> set post. e \<le> begin_address r"
    using ranges_decompose [OF assms(1,2)] .
  have "mid = []" using assms(5) d(1,3) by (cases mid) (auto simp: overlaps_def)
  moreover have "pre \<noteq> []"
    using assms(2-4) d \<open>mid = []\<close> by (cases post) auto
  moreover have lb: "lower_bound_index begin_address rs e = length pre"
    using lower_bound_decomposed [of pre mid post b e] d assms(1,2) \<open>mid = []\<close> by simp
  moreover have "rs ! (length pre - 1) = last pre"
    using \<open>pre \<noteq> []\<close> d(1) by (simp add: nth_append last_conv_nth)
  moreover have "end_address (last pre) \<le> b" using d(2) \<open>pre \<noteq> []\<close> by simp
  ultimately show ?thesis
    using d by (intro exI [of _ pre] exI [of _ post]) (simp add: insert_inner_def insert_at_def)
qed

lemma mid_single:
  assumes "ranges_wf (pre @ mid @ post)" "r \<in> set (pre @ mid @ post)"
    "\<forall>r \<in> set mid. b < end_address r \<and> begin_address r < e"
    "begin_address r \<le> b" "e \<le> end_address r" "mid \<noteq> []" "b < e"
    "\<forall>r \<in> set pre. end_address r \<le> b" "\<forall>r \<in> set post. e \<le> begin_address r"
  shows "mid = [r]"
proof -
  have "r \<in> set mid" using assms by fastforce
  then obtain xs ys where mid: "mid = xs @ r # ys" by (meson split_list)
  have "xs = []"
  proof (rule ccontr)
    assume "xs \<noteq> []"
    then have "last xs \<in> set xs" by simp
    then have "end_address (last xs) \<le> begin_address r" "b < end_address (last xs)"
      using assms(1,3) by (auto simp: mid)
    with assms(4) show False by (meson leD order_trans)
  qed
  moreover have "ys = []"
  proof (rule ccontr)
    assume "ys \<noteq> []"
    then have "hd ys \<in> set ys" by simp
    then have "end_address r \<le> begin_address (hd ys)" "begin_address (hd ys) < e"
      using assms(1,3) by (auto simp: mid)
    with assms(5) show False by (meson leD order_trans)
  qed
  ultimately show ?thesis by (simp add: mid)
qed

text \<open>The in-place steps on the overlapping ranges, whatever their number.\<close>

lemma in_place:
  assumes wf: "ranges_wf (pre @ mid @ post)" and "b < e" "mid \<noteq> []"
    and pre: "\<forall>r \<in> set pre. end_address r \<le> b"
    and mid: "\<forall>r \<in> set mid. b < end_address r \<and> begin_address r < e"
    and post: "\<forall>r \<in> set post. e \<le> begin_address r"
    and steps: "split_front (pre @ mid @ post) (length pre) (length pre + length mid - 1) b = (rs1, f1, l1)"
      "split_back rs1 f1 l1 e = (rs2, f2, l2)"
  shows "add_to_ranges entry rs2 f2 l2 = split_ranges b e entry (pre @ mid @ post)"
proof (cases "length mid = 1")
  case True
  then obtain x where x: "mid = [x]" by (metis One_nat_def length_0_conv length_Suc_conv)
  then have "add_to_ranges entry rs2 f2 l2 = pre @ split_range b e entry x @ post"
    using wf mid steps \<open>b < e\<close> by (intro in_place_single) (auto simp: x)
  then show ?thesis using pre post by (simp add: x split_ranges_outside)
next
  case False
  then obtain x ys z where m: "mid = x # ys @ [z]"
    using list_two_ends [of mid] \<open>mid \<noteq> []\<close> by blast
  have xz: "end_address x \<le> begin_address z" using wf by (simp add: m)
  have ys: "\<forall>r \<in> set ys. b \<le> begin_address r \<and> end_address r \<le> e \<and> begin_address r < end_address r"
  proof
    fix r assume r: "r \<in> set ys"
    then have "end_address x \<le> begin_address r" "end_address r \<le> begin_address z" "range_wf r"
      using wf by (auto simp: m ranges_wf_def)
    then show "b \<le> begin_address r \<and> end_address r \<le> e \<and> begin_address r < end_address r"
      using mid by (auto simp: m dest: range_wf_order)
  qed
  have "add_to_ranges entry rs2 f2 l2 =
     pre @ split_range b e entry x @ split_ranges b e entry ys @ split_range b e entry z @ post"
    using mid xz steps ys by (intro in_place_many) (auto simp: m)
  then show ?thesis using pre post by (simp add: m split_ranges_outside)
qed

lemma insert_inner_step:
  assumes "lower_bound_index begin_address rs e = Suc l" "b < end_address (rs ! l)"
    "(if begin_address (rs ! l) \<le> b then l else first_range_ending_after rs b) = f" "f \<le> l"
    "split_front rs f l b = (rs1, f1, l1)" "split_back rs1 f1 l1 e = (rs2, f2, l2)"
  shows "insert_inner eq mods rs b e entry =
     (if exact_match eq mods rs f l (load_timestamp entry)
      then Some \<lparr>mm_modules = butlast mods, mm_ranges = rs\<rparr>
      else Some \<lparr>mm_modules = mods, mm_ranges = add_to_ranges entry rs2 f2 l2\<rparr>)"
  using assms by (auto simp: insert_inner_def not_le split: if_splits)

lemma insert_inner_overlap:
  assumes wf: "ranges_wf rs" and "b < e" "overlaps b e rs"
    and md: "mi_base md \<le> b" "e \<le> mi_base md + mi_size md"
    and idx: "\<forall>r \<in> set rs. begin_address r = mi_base md \<longrightarrow> end_address r = mi_base md + mi_size md \<longrightarrow>
      module_index (last (active_modules r)) < length mods"
  shows "insert_inner eq (mods @ [md]) rs b e entry =
     (if duplicate eq mods rs md (load_timestamp entry) then Some \<lparr>mm_modules = mods, mm_ranges = rs\<rparr>
      else Some \<lparr>mm_modules = mods @ [md], mm_ranges = split_ranges b e entry rs\<rparr>)"
proof -
  obtain pre mid post where d: "rs = pre @ mid @ post"
      "\<forall>r \<in> set pre. end_address r \<le> b"
      "\<forall>r \<in> set mid. b < end_address r \<and> begin_address r < e"
      "\<forall>r \<in> set post. e \<le> begin_address r"
    using ranges_decompose [OF assms(1,2)] .
  have wf': "ranges_wf (pre @ mid @ post)" using wf d(1) by simp
  have "mid \<noteq> []" using assms(3) d by (fastforce simp: overlaps_def)
  let ?l = "length pre + length mid - 1"
  have lb: "lower_bound_index begin_address rs e = length pre + length mid"
    using lower_bound_decomposed [of pre mid post b e] d wf' \<open>b < e\<close> by simp
  have last: "rs ! ?l = last mid"
    using \<open>mid \<noteq> []\<close> d(1) by (cases mid rule: rev_cases) (auto simp: nth_append)
  then have end_last: "b < end_address (rs ! ?l)" "last mid \<in> set mid" using d(3) \<open>mid \<noteq> []\<close> by auto
  have rest: "\<forall>r \<in> set (mid @ post). b < end_address r"
  proof
    fix r assume r: "r \<in> set (mid @ post)"
    then have "begin_address r < end_address r" using wf' range_wf_in by fastforce
    with r d(3,4) \<open>b < e\<close> show "b < end_address r" by fastforce
  qed
  have single: "begin_address (last mid) \<le> b \<Longrightarrow> length mid = 1"
  proof (rule ccontr)
    assume "begin_address (last mid) \<le> b" "length mid \<noteq> 1"
    then obtain x ys z where m: "mid = x # ys @ [z]"
      using list_two_ends [of mid] \<open>mid \<noteq> []\<close> by blast
    then have "end_address x \<le> begin_address (last mid)" "b < end_address x"
      using wf' d(3) by auto
    with \<open>begin_address (last mid) \<le> b\<close> show False by (meson leD order_trans)
  qed
  have first: "(if begin_address (rs ! ?l) \<le> b then ?l else first_range_ending_after rs b) = length pre"
    using first_ending_after_decomposed [OF wf' d(2) rest] single last d(1) \<open>mid \<noteq> []\<close> by auto
  have exact: "exact_match eq (mods @ [md]) rs (length pre) ?l ts \<longleftrightarrow> duplicate eq mods rs md ts" for ts
  proof
    assume e: "exact_match eq (mods @ [md]) rs (length pre) ?l ts"
    then have "rs ! length pre \<in> set rs" using \<open>mid \<noteq> []\<close> d(1) by (cases mid) auto
    moreover have "active_modules (rs ! length pre) \<noteq> []"
      using calculation wf by (auto simp: ranges_wf_def range_wf_def)
    ultimately show "duplicate eq mods rs md ts"
      using e idx unfolding duplicate_def exact_match_def
      by (intro bexI [of _ "rs ! length pre"]) (auto simp: nth_append)
  next
    assume "duplicate eq mods rs md ts"
    then obtain r where r: "r \<in> set rs" "begin_address r = mi_base md"
        "end_address r = mi_base md + mi_size md" "load_timestamp (last (active_modules r)) \<le> ts"
        "eq (mi_payload (mods ! module_index (last (active_modules r)))) (mi_payload md)"
      by (auto simp: duplicate_def)
    have "mid = [r]"
      using mid_single [OF wf' _ d(3) _ _ \<open>mid \<noteq> []\<close> \<open>b < e\<close> d(2,4)] r d(1) md by auto
    moreover have "active_modules r \<noteq> []" using r(1) wf by (auto simp: ranges_wf_def range_wf_def)
    ultimately show "exact_match eq (mods @ [md]) rs (length pre) ?l ts"
      using r idx d(1) by (auto simp: exact_match_def nth_append)
  qed
  obtain rs1 f1 l1 where s1: "split_front rs (length pre) ?l b = (rs1, f1, l1)" by (metis prod_cases3)
  obtain rs2 f2 l2 where s2: "split_back rs1 f1 l1 e = (rs2, f2, l2)" by (metis prod_cases3)
  have "add_to_ranges entry rs2 f2 l2 = split_ranges b e entry rs"
    using in_place [OF wf' \<open>b < e\<close> \<open>mid \<noteq> []\<close> d(2-4)] s1 s2 by (simp add: d(1))
  moreover have l: "lower_bound_index begin_address rs e = Suc ?l" "length pre \<le> ?l"
    using lb \<open>mid \<noteq> []\<close> by (cases mid; simp)+
  ultimately show ?thesis
    using insert_inner_step [OF l(1) end_last(1) first l(2) s1 s2, of eq "mods @ [md]" entry]
    by (simp only: exact butlast_snoc)
qed

section \<open>What insertion means\<close>

text \<open>
  The modules active at an address after an insertion of \<open>[b, e)\<close>: where some were active the
  new one is filed by load time; where none was, it is the only one, except that an interval
  that overlaps an existing range leaves the gaps between existing ranges uncovered.
\<close>

definition after_insert ::
  "'ts::linorder address_range list \<Rightarrow> u64 \<Rightarrow> u64 \<Rightarrow> 'ts module_entry \<Rightarrow> u64 \<Rightarrow> 'ts module_entry list" where
  "after_insert rs b e entry a =
     (if b \<le> a \<and> a < e
      then if active_at rs a \<noteq> [] then sort_key load_timestamp (active_at rs a @ [entry])
           else if rs \<noteq> [] \<and> begin_address (hd rs) \<le> a \<and> a < end_address (last rs) \<and> overlaps b e rs
           then [] else [entry]
      else active_at rs a)"

definition inserted ::
  "'ts::linorder address_range list \<Rightarrow> u64 \<Rightarrow> u64 \<Rightarrow> 'ts module_entry \<Rightarrow> 'ts address_range list \<Rightarrow> bool" where
  "inserted rs b e entry rs' \<longleftrightarrow> ranges_wf rs' \<and> (\<forall>a. active_at rs' a = after_insert rs b e entry a)"

lemma active_split_range:
  assumes "range_wf r" "b < e"
  shows "active_at (split_range b e entry r) a =
    (if contains r a then if b \<le> a \<and> a < e then sort_key load_timestamp (active_modules r @ [entry])
       else active_modules r else [])"
proof (cases "end_address r \<le> b \<or> e \<le> begin_address r")
  case True
  then have "contains r a \<Longrightarrow> \<not> (b \<le> a \<and> a < e)" by (auto simp: contains_def)
  with True show ?thesis by (auto simp: split_range_def)
next
  case False
  let ?mid = "r\<lparr>begin_address := max b (begin_address r), end_address := min e (end_address r)\<rparr>"
  obtain m where m: "m = add_active_module entry ?mid" by blast
  have "active_modules m = sort_key load_timestamp (active_modules r @ [entry])"
    unfolding m using False assms by (subst active_add_active_module) (auto simp: range_wf_def)
  moreover have "contains m a \<longleftrightarrow> contains r a \<and> b \<le> a \<and> a < e"
    by (auto simp: m contains_def)
  moreover have "split_range b e entry r =
      (if begin_address r < b then [r\<lparr>end_address := b\<rparr>] else []) @ [m] @
      (if e < end_address r then [r\<lparr>begin_address := e\<rparr>] else [])"
    using False by (simp add: split_range_def m)
  ultimately have *: "active_at (split_range b e entry r) a =
      (if begin_address r < b \<and> begin_address r \<le> a \<and> a < b then active_modules r else []) @
      (if contains r a \<and> b \<le> a \<and> a < e then sort_key load_timestamp (active_modules r @ [entry]) else []) @
      (if e < end_address r \<and> e \<le> a \<and> a < end_address r then active_modules r else [])"
    by (simp add: contains_def)
  consider "a < b" | "b \<le> a" "a < e" | "e \<le> a" by force
  then show ?thesis
  proof cases
    case 1
    then have "\<not> b \<le> a" "\<not> e \<le> a" "contains r a \<longleftrightarrow> begin_address r < b \<and> begin_address r \<le> a"
      using False assms(2) by (auto simp: contains_def)
    with 1 show ?thesis unfolding * by simp
  next
    case 2
    then have "\<not> a < b" "\<not> e \<le> a" by auto
    with 2 show ?thesis unfolding * by simp
  next
    case 3
    then have "\<not> a < b" "\<not> a < e" "contains r a \<longleftrightarrow> e < end_address r \<and> a < end_address r"
      using False assms(2) by (auto simp: contains_def)
    with 3 show ?thesis unfolding * by simp
  qed
qed

lemma active_at_cases:
  assumes "ranges_wf rs"
  shows "active_at rs a = [] \<or> (\<exists>r \<in> set rs. contains r a \<and> active_at rs a = active_modules r)"
  using assms
proof (induction rs)
  case (Cons r rs)
  have "active_at rs a = []" if "contains r a"
    using Cons.prems that by (intro active_at_None) (fastforce simp: contains_def)
  with Cons show ?case by auto
qed simp

lemma active_at_range:
  assumes "ranges_wf rs" "r \<in> set rs" "contains r a"
  shows "active_at rs a = active_modules r"
proof -
  obtain xs ys where rs: "rs = xs @ r # ys" using assms(2) by (meson split_list)
  have "active_at xs a = []" "active_at ys a = []"
    using assms by (intro active_at_None; fastforce simp: rs contains_def)+
  with assms(3) show ?thesis by (simp add: rs)
qed

lemma active_split_ranges:
  assumes "ranges_wf rs" "b < e"
  shows "active_at (split_ranges b e entry rs) a =
    (if b \<le> a \<and> a < e \<and> active_at rs a \<noteq> []
     then sort_key load_timestamp (active_at rs a @ [entry]) else active_at rs a)"
  using assms
proof (induction rs)
  case Nil
  then show ?case by simp
next
  case (Cons r rs)
  have none: "active_at rs a = []" if "contains r a"
    using Cons.prems that by (intro active_at_None) (fastforce simp: contains_def)
  have "active_modules r \<noteq> []" using Cons.prems by (simp add: range_wf_def)
  moreover have "range_wf r" "ranges_wf rs" using Cons.prems by simp_all
  ultimately show ?case
    using Cons.IH none Cons.prems(2) by (cases "contains r a") (simp_all add: active_split_range)
qed

lemma hull:
  assumes "ranges_wf rs" "r \<in> set rs"
  shows "begin_address (hd rs) \<le> begin_address r" "end_address r \<le> end_address (last rs)"
proof -
  show "begin_address (hd rs) \<le> begin_address r"
  proof (cases rs)
    case (Cons x xs)
    then show ?thesis using assms
      by (auto dest!: range_wf_order intro: order_less_imp_le order_trans)
  qed (use assms in simp)
  show "end_address r \<le> end_address (last rs)"
  proof (cases rs rule: rev_cases)
    case (snoc xs x)
    then show ?thesis using assms
      by (auto dest!: range_wf_order intro: order_less_imp_le order_trans)
  qed (use assms in simp)
qed

lemma active_at_hull:
  "ranges_wf rs \<Longrightarrow> active_at rs a \<noteq> [] \<Longrightarrow>
   rs \<noteq> [] \<and> begin_address (hd rs) \<le> a \<and> a < end_address (last rs)"
  using active_at_cases [of rs a] hull [of rs]
  by (fastforce simp: contains_def intro: order_trans order_less_le_trans)

lemma range_wf_new_range [simp]: "b < e \<Longrightarrow> range_wf (new_range b e entry)"
  by (simp add: range_wf_def new_range_def)

lemma new_range_simps [simp]:
  "begin_address (new_range b e entry) = b" "end_address (new_range b e entry) = e"
  "active_modules (new_range b e entry) = [entry]"
  "contains (new_range b e entry) a \<longleftrightarrow> b \<le> a \<and> a < e"
  by (simp_all add: new_range_def contains_def)

lemma not_overlaps_active:
  "ranges_wf rs \<Longrightarrow> \<not> overlaps b e rs \<Longrightarrow> b \<le> a \<Longrightarrow> a < e \<Longrightarrow> active_at rs a = []"
  by (rule active_at_None) (auto simp: overlaps_def contains_def intro: order_le_less_trans)

lemma inserted_gap:
  assumes "ranges_wf (pre @ post)" "b < e" "\<not> overlaps b e (pre @ post)"
    "\<forall>r \<in> set pre. end_address r \<le> b" "\<forall>r \<in> set post. e \<le> begin_address r"
  shows "inserted (pre @ post) b e entry (pre @ new_range b e entry # post)"
proof -
  have "ranges_wf (pre @ new_range b e entry # post)" using assms by auto
  moreover have "active_at (pre @ new_range b e entry # post) a =
      after_insert (pre @ post) b e entry a" for a
    using not_overlaps_active [OF assms(1,3), of a] assms(3) by (simp add: after_insert_def)
  ultimately show ?thesis by (simp add: inserted_def)
qed

lemma inserted_split:
  assumes "ranges_wf rs" "b < e" "overlaps b e rs"
    "begin_address (hd rs) \<le> b" "e \<le> end_address (last rs)"
  shows "inserted rs b e entry (split_ranges b e entry rs)"
proof -
  have "active_at (split_ranges b e entry rs) a = after_insert rs b e entry a" for a
    using assms by (auto simp: active_split_ranges after_insert_def overlaps_def)
  with assms show ?thesis by (simp add: inserted_def ranges_wf_split_ranges)
qed

text \<open>The three layers of the code's insertion, inside out. In each the duplicate test comes
  down to the same condition on the whole interval of the new module.\<close>

lemma insert_inner_spec:
  assumes "ranges_wf rs" "b < e" "rs \<noteq> []" "begin_address (hd rs) \<le> b" "e \<le> end_address (last rs)"
    and md: "mi_base md \<le> b" "e \<le> mi_base md + mi_size md"
    and idx: "\<forall>r \<in> set rs. begin_address r = mi_base md \<longrightarrow> end_address r = mi_base md + mi_size md \<longrightarrow>
      module_index (last (active_modules r)) < length mods"
  shows "\<exists>rs'. inserted rs b e entry rs' \<and> insert_inner eq (mods @ [md]) rs b e entry =
     (if duplicate eq mods rs md (load_timestamp entry) then Some \<lparr>mm_modules = mods, mm_ranges = rs\<rparr>
      else Some \<lparr>mm_modules = mods @ [md], mm_ranges = rs'\<rparr>)"
proof (cases "overlaps b e rs")
  case True
  show ?thesis
    using insert_inner_overlap [OF assms(1,2) True md idx]
      inserted_split [OF assms(1,2) True assms(4,5)] by blast
next
  case False
  then have "\<not> duplicate eq mods rs md (load_timestamp entry)"
    using md assms(1,2) by (force simp: duplicate_def overlaps_def dest: range_wf_in)
  moreover obtain pre post where "rs = pre @ post" "\<forall>r \<in> set pre. end_address r \<le> b"
      "\<forall>r \<in> set post. e \<le> begin_address r"
      "insert_inner eq (mods @ [md]) rs b e entry =
       Some \<lparr>mm_modules = mods @ [md], mm_ranges = pre @ new_range b e entry # post\<rparr>"
    using insert_inner_gap [OF assms(1-4) False] by blast
  ultimately show ?thesis using inserted_gap assms(1,2) False
    by (intro exI [of _ "pre @ new_range b e entry # post"]) simp
qed

lemma insert_back_spec:
  assumes wf: "ranges_wf rs" and "b < e" "rs \<noteq> []" "begin_address (hd rs) \<le> b"
    and md: "mi_base md \<le> b" "e = mi_base md + mi_size md"
    and idx: "\<forall>r \<in> set rs. begin_address r = mi_base md \<longrightarrow> end_address r = e \<longrightarrow>
      module_index (last (active_modules r)) < length mods"
  shows "\<exists>rs'. inserted rs b e entry rs' \<and> insert_back eq (mods @ [md]) rs b e entry =
     (if duplicate eq mods rs md (load_timestamp entry) then Some \<lparr>mm_modules = mods, mm_ranges = rs\<rparr>
      else Some \<lparr>mm_modules = mods @ [md], mm_ranges = rs'\<rparr>)"
proof (cases "end_address (last rs) < e")
  case False
  then have le: "e \<le> end_address (last rs)" by simp
  show ?thesis
    using insert_inner_spec [OF assms(1-4) le md(1) _ idx [unfolded md(2)]] False md(2)
    by (simp add: insert_back_def)
next
  case True
  let ?c = "end_address (last rs)"
  let ?n = "new_range (max ?c b) e entry"
  have last_in: "last rs \<in> set rs" "begin_address (last rs) < ?c"
    using wf \<open>rs \<noteq> []\<close> range_wf_in [OF wf, of "last rs"] by auto
  have wf': "ranges_wf (rs @ [?n])"
    using wf True \<open>b < e\<close> hull(2) [OF wf] by (auto intro: order_trans [OF _ max.cobounded1])
  have nodup: "\<not> duplicate eq mods rs md ts" for ts
    using hull(2) [OF wf] True md(2) by (force simp: duplicate_def)
  show ?thesis
  proof (cases "?c \<le> b")
    case c: True
    have "\<forall>r \<in> set rs. end_address r \<le> b" using c hull(2) [OF wf] by (meson order_trans)
    then have "inserted (rs @ []) b e entry (rs @ new_range b e entry # [])"
      using wf \<open>b < e\<close> by (intro inserted_gap) (auto simp: overlaps_def)
    with c True nodup show ?thesis by (simp add: insert_back_def max_def)
  next
    case False
    then have bc: "b < ?c" and n: "?n = new_range ?c e entry" by (simp_all add: max_def)
    have ov: "overlaps b ?c (rs @ [?n])" "overlaps b e rs"
      using last_in bc True by (auto simp: overlaps_def intro!: bexI [of _ "last rs"])
    have nodup': "\<not> duplicate eq mods (rs @ [?n]) md (load_timestamp entry)"
      using nodup bc md(1) by (auto simp: duplicate_def n)
    have le: "?c \<le> mi_base md + mi_size md" using True md(2) by simp
    have idx': "\<forall>r \<in> set (rs @ [?n]). begin_address r = mi_base md \<longrightarrow>
        end_address r = mi_base md + mi_size md \<longrightarrow>
        module_index (last (active_modules r)) < length mods"
      using idx md bc by (auto simp: n)
    have "insert_inner eq (mods @ [md]) (rs @ [?n]) b ?c entry =
        Some \<lparr>mm_modules = mods @ [md], mm_ranges = split_ranges b ?c entry (rs @ [?n])\<rparr>"
      using insert_inner_overlap [OF wf' bc ov(1) md(1) le idx', of eq entry] nodup'
      by (simp only: if_False)
    then have "insert_back eq (mods @ [md]) rs b e entry =
        Some \<lparr>mm_modules = mods @ [md], mm_ranges = split_ranges b ?c entry (rs @ [?n])\<rparr>"
      using True False by (simp add: insert_back_def Let_def)
    moreover have "active_at (split_ranges b ?c entry (rs @ [?n])) a = after_insert rs b e entry a" for a
    proof -
      have "active_at rs a \<noteq> [] \<Longrightarrow> a < ?c" using active_at_hull [OF wf] by blast
      then show ?thesis
        using active_split_ranges [OF wf' bc] bc True ov(2) \<open>rs \<noteq> []\<close> assms(4)
        by (auto simp: after_insert_def n)
    qed
    ultimately show ?thesis using nodup ranges_wf_split_ranges [OF wf' bc]
      by (auto simp: inserted_def)
  qed
qed

lemma insert_spec:
  assumes wf: "ranges_wf (mm_ranges m)" and pos: "mi_base md < mi_base md + mi_size md"
    and idx: "\<forall>r \<in> set (mm_ranges m). \<forall>x \<in> set (active_modules r). module_index x < length (mm_modules m)"
  shows "\<exists>rs'. inserted (mm_ranges m) (mi_base md) (mi_base md + mi_size md)
       \<lparr>load_timestamp = ts, module_index = length (mm_modules m)\<rparr> rs' \<and>
     mm_insert eq m md ts =
       (if duplicate eq (mm_modules m) (mm_ranges m) md ts
        then Some \<lparr>mm_modules = mm_modules m, mm_ranges = mm_ranges m\<rparr>
        else Some \<lparr>mm_modules = mm_modules m @ [md], mm_ranges = rs'\<rparr>)"
proof -
  let ?rs = "mm_ranges m" and ?mods = "mm_modules m"
  let ?b = "mi_base md" and ?e = "mi_base md + mi_size md"
  let ?n = "\<lparr>load_timestamp = ts, module_index = length (mm_modules m)\<rparr>"
  have last_idx: "\<forall>r \<in> set ?rs. module_index (last (active_modules r)) < length ?mods"
    using idx wf by (simp add: ranges_wf_def range_wf_def)
  consider (empty) "?rs = []" | (front) "?rs \<noteq> []" "?b < begin_address (hd ?rs)"
    | (within) "?rs \<noteq> []" "begin_address (hd ?rs) \<le> ?b" by force
  then show ?thesis
  proof cases
    case empty
    then show ?thesis using pos
      by (auto simp: mm_insert_def Let_def duplicate_def inserted_def after_insert_def
          intro!: exI [of _ "[new_range ?b ?e ?n]"])
  next
    case within
    then show ?thesis
      using insert_back_spec [OF wf pos within, of md ?mods ?n eq] last_idx
      by (auto simp: mm_insert_def Let_def not_less)
  next
    case front
    let ?c = "begin_address (hd ?rs)"
    have hd_in: "hd ?rs \<in> set ?rs" "?c < end_address (hd ?rs)"
      using front(1) range_wf_in [OF wf, of "hd ?rs"] by auto
    have nodup: "\<not> duplicate eq ?mods ?rs md ts"
      using hull(1) [OF wf] front(2) by (force simp: duplicate_def)
    show ?thesis
    proof (cases "?e \<le> ?c")
      case True
      then have "inserted ([] @ ?rs) ?b ?e ?n ([] @ new_range ?b ?e ?n # ?rs)"
        using wf pos hull(1) [OF wf]
        by (intro inserted_gap) (auto simp: overlaps_def not_less intro: order_trans)
      with True front nodup show ?thesis
        by (auto simp: mm_insert_def Let_def min_def)
    next
      case False
      then have ce: "?c < ?e" by simp
      then have m: "min ?c ?e = ?c" by (intro min_absorb1 order_less_imp_le)
      let ?r = "new_range ?b ?c ?n"
      have wf': "ranges_wf (?r # ?rs)" using wf front(2) hull(1) [OF wf] by simp
      have nodup': "\<not> duplicate eq ?mods (?r # ?rs) md ts"
        using nodup ce by (auto simp: duplicate_def)
      have hd_le: "begin_address (hd (?r # ?rs)) \<le> ?c" and base: "?b \<le> ?c"
        using front(2) by simp_all
      have idx': "\<forall>r \<in> set (?r # ?rs). begin_address r = ?b \<longrightarrow> end_address r = ?e \<longrightarrow>
          module_index (last (active_modules r)) < length ?mods"
        using last_idx ce by auto
      obtain rs' where rs': "inserted (?r # ?rs) ?c ?e ?n rs'"
          "insert_back eq (?mods @ [md]) (?r # ?rs) ?c ?e ?n =
            Some \<lparr>mm_modules = ?mods @ [md], mm_ranges = rs'\<rparr>"
        using insert_back_spec [OF wf' ce _ hd_le base refl idx', of ?n eq] nodup' by auto
      have "after_insert (?r # ?rs) ?c ?e ?n a = after_insert ?rs ?b ?e ?n a" for a
      proof -
        have "active_at ?rs a \<noteq> [] \<Longrightarrow> ?c \<le> a" using active_at_hull [OF wf] by blast
        moreover have "overlaps ?c ?e (?r # ?rs)" "overlaps ?b ?e ?rs"
          using hd_in front(2) ce by (auto simp: overlaps_def intro!: bexI [of _ "hd ?rs"])
        ultimately show ?thesis using front ce
          by (cases "a < ?b"; cases "a < ?c"; cases "a < ?e") (auto simp: after_insert_def)
      qed
      with rs'(1) have "inserted ?rs ?b ?e ?n rs'" by (simp add: inserted_def)
      with rs'(2) front False nodup m show ?thesis by (auto simp: mm_insert_def Let_def)
    qed
  qed
qed

text \<open>The entries of every range are about modules that cover it: equivalently, of every
  address.\<close>

definition covers :: "'d module_info \<Rightarrow> u64 \<Rightarrow> bool" where
  "covers md a \<longleftrightarrow> mi_base md \<le> a \<and> a < mi_base md + mi_size md"

lemma entries_ok_pointwise:
  assumes wf: "ranges_wf rs"
  shows "(\<forall>r \<in> set rs. entries_ok mods r) \<longleftrightarrow>
    (\<forall>a. \<forall>x \<in> set (active_at rs a). module_index x < length mods \<and> covers (mods ! module_index x) a)"
    (is "?ranges \<longleftrightarrow> ?points")
proof
  assume ranges: ?ranges
  show ?points
  proof (intro allI ballI)
    fix a x assume x: "x \<in> set (active_at rs a)"
    then obtain r where r: "r \<in> set rs" "contains r a" "x \<in> set (active_modules r)"
      using active_at_cases [OF wf, of a] by fastforce
    then have "module_index x < length mods" "covered_by (mods ! module_index x) r"
      using ranges by (auto simp: entries_ok_def)
    with r(2) show "module_index x < length mods \<and> covers (mods ! module_index x) a"
      by (auto simp: covered_by_def covers_def contains_def)
  qed
next
  assume points: ?points
  show ?ranges
  proof
    fix r assume r: "r \<in> set rs"
    then have lt: "begin_address r < end_address r" using wf range_wf_in by blast
    have last: "begin_address r \<le> end_address r - 1" "end_address r - 1 < end_address r"
      using word_interval_last [OF lt] by blast+
    show "entries_ok mods r"
      unfolding entries_ok_def
    proof
      fix x assume x: "x \<in> set (active_modules r)"
      have at: "x \<in> set (active_at rs a)" if "contains r a" for a
        using active_at_range [OF wf r that] x by simp
      have 1: "module_index x < length mods" "covers (mods ! module_index x) (begin_address r)"
        using points at [of "begin_address r"] lt by (auto simp: contains_def)
      have "covers (mods ! module_index x) (end_address r - 1)"
        using points at [of "end_address r - 1"] last by (auto simp: contains_def)
      then have "end_address r \<le> mi_base (mods ! module_index x) + mi_size (mods ! module_index x)"
        using word_interval_last(3) [OF lt] by (simp add: covers_def)
      with 1 show "module_index x < length mods \<and> covered_by (mods ! module_index x) r"
        by (simp add: covered_by_def covers_def)
    qed
  qed
qed

section \<open>What lookup means\<close>

lemma find_by_active:
  assumes wf: "ranges_wf (mm_ranges m)"
  shows "mm_find m a ts strict =
    map_option (\<lambda>e. (mm_modules m ! module_index e, load_timestamp e))
      (latest_of load_timestamp (active_at (mm_ranges m) a) ts strict)"
proof -
  let ?found = "find_last (\<lambda>r. begin_address r \<le> a) (mm_ranges m)"
  have found: "mm_find m a ts strict =
      (case ?found of None \<Rightarrow> None | Some r \<Rightarrow>
         if \<not> contains r a then None
         else let latest = walk_back (active_modules r) ts in
           if strict \<and> load_timestamp latest > ts then None
           else Some (mm_modules m ! module_index latest, load_timestamp latest))"
    by (simp add: mm_find_def find_last_rev_takeWhile Let_def not_le)
  show ?thesis
  proof (cases ?found)
    case None
    then have "active_at (mm_ranges m) a = []"
      by (intro active_at_None) (auto simp: find_last_None_iff contains_def)
    with None found show ?thesis by simp
  next
    case (Some r)
    then obtain ys zs where rs: "mm_ranges m = ys @ r # zs" "begin_address r \<le> a"
        "\<forall>z \<in> set zs. \<not> begin_address z \<le> a"
      using find_last_split [OF Some] by auto
    have "active_at ys a = []" "active_at zs a = []"
      using wf rs by (intro active_at_None; fastforce simp: contains_def)+
    then have at: "active_at (mm_ranges m) a = (if contains r a then active_modules r else [])"
      by (simp add: rs(1))
    show ?thesis
    proof (cases "contains r a")
      case False
      with Some found at show ?thesis by simp
    next
      case True
      have ne: "active_modules r \<noteq> []" using wf by (simp add: rs(1) range_wf_def)
      show ?thesis
      proof (cases "find_last (\<lambda>e. load_timestamp e \<le> ts) (active_modules r)")
        case None
        then have "\<not> load_timestamp (hd (active_modules r)) \<le> ts"
          using ne by (simp add: find_last_None_iff)
        with None ne True Some found at show ?thesis
          by (simp add: latest_of_def walk_back_def not_less Let_def)
      next
        case e: (Some e)
        then have "load_timestamp e \<le> ts" by (auto dest: find_last_SomeD)
        with e True Some found at show ?thesis
          by (simp add: latest_of_def walk_back_def not_less Let_def)
      qed
    qed
  qed
qed

lemma active_at_sorted:
  "ranges_wf rs \<Longrightarrow> sorted (map load_timestamp (active_at rs a))"
  using active_at_cases [of rs a] by (auto simp: ranges_wf_def range_wf_def)

lemma map_wf_pointwise:
  "map_wf m \<longleftrightarrow> ranges_wf (mm_ranges m) \<and>
     (\<forall>a. \<forall>x \<in> set (active_at (mm_ranges m) a).
        module_index x < length (mm_modules m) \<and> covers (mm_modules m ! module_index x) a)"
  unfolding map_wf_def using entries_ok_pointwise by blast

lemma map_wf_index:
  "map_wf m \<Longrightarrow> \<forall>r \<in> set (mm_ranges m). \<forall>x \<in> set (active_modules r). module_index x < length (mm_modules m)"
  by (auto simp: map_wf_def entries_ok_def)

lemma map_wf_empty [wf_intros]: "map_wf mm_empty"
  by (simp add: map_wf_def mm_empty_def)

lemma set_after_insert:
  "x \<in> set (after_insert rs b e entry a) \<Longrightarrow> x \<in> set (active_at rs a) \<or> x = entry \<and> b \<le> a \<and> a < e"
  by (auto simp: after_insert_def split: if_splits)

lemma insert_preserves:
  assumes "map_wf m" "mi_base md < mi_base md + mi_size md"
  shows "\<exists>m'. mm_insert eq m md ts = Some m' \<and> map_wf m'"
proof -
  have wf: "ranges_wf (mm_ranges m)" using assms(1) by (simp add: map_wf_def)
  let ?n = "\<lparr>load_timestamp = ts, module_index = length (mm_modules m)\<rparr>"
  obtain rs' where i: "inserted (mm_ranges m) (mi_base md) (mi_base md + mi_size md) ?n rs'"
      "mm_insert eq m md ts =
       (if duplicate eq (mm_modules m) (mm_ranges m) md ts
        then Some \<lparr>mm_modules = mm_modules m, mm_ranges = mm_ranges m\<rparr>
        else Some \<lparr>mm_modules = mm_modules m @ [md], mm_ranges = rs'\<rparr>)"
    using insert_spec [OF wf assms(2) map_wf_index [OF assms(1)]] by blast
  have "map_wf \<lparr>mm_modules = mm_modules m @ [md], mm_ranges = rs'\<rparr>"
    unfolding map_wf_pointwise
  proof (intro conjI allI ballI)
    show "ranges_wf (mm_ranges \<lparr>mm_modules = mm_modules m @ [md], mm_ranges = rs'\<rparr>)"
      using i(1) by (simp add: inserted_def)
    fix a x
    assume "x \<in> set (active_at (mm_ranges \<lparr>mm_modules = mm_modules m @ [md], mm_ranges = rs'\<rparr>) a)"
    then have "x \<in> set (after_insert (mm_ranges m) (mi_base md) (mi_base md + mi_size md) ?n a)"
      using i(1) by (simp add: inserted_def)
    then consider "x \<in> set (active_at (mm_ranges m) a)" | "x = ?n" "covers md a"
      using set_after_insert by (fastforce simp: covers_def)
    then show "module_index x < length (mm_modules \<lparr>mm_modules = mm_modules m @ [md], mm_ranges = rs'\<rparr>)"
      and "covers (mm_modules \<lparr>mm_modules = mm_modules m @ [md], mm_ranges = rs'\<rparr> ! module_index x) a"
      using assms(1) unfolding map_wf_pointwise
      by (cases; fastforce simp: nth_append)+
  qed
  with i(2) assms(1) show ?thesis by (simp add: map_wf_def)
qed

section \<open>The interface its clients use\<close>

text \<open>
  The process contexts insert every module they hear of and look up every frame. What they rely
  on: insertion is defined for non-empty ranges, and what is found covers the address and, in a
  strict search, was loaded by then.
\<close>

locale address_index =
  fixes index_wf :: "'m \<Rightarrow> bool"
    and index_insert :: "'m \<Rightarrow> 'd module_info \<Rightarrow> 'ts::linorder \<Rightarrow> 'm option"
    and index_find :: "'m \<Rightarrow> u64 \<Rightarrow> 'ts \<Rightarrow> bool \<Rightarrow> ('d module_info \<times> 'ts) option"
  assumes insert_ok: "index_wf m \<Longrightarrow> mi_base md < mi_base md + mi_size md \<Longrightarrow>
      \<exists>m'. index_insert m md ts = Some m' \<and> index_wf m'"
    and find_sound: "index_wf m \<Longrightarrow> index_find m a ts strict = Some (md, t) \<Longrightarrow>
      covers md a \<and> (strict \<longrightarrow> t \<le> ts)"

text \<open>The events of a trace, one module load after the other.\<close>

primrec insert_all ::
  "('m \<Rightarrow> 'd module_info \<Rightarrow> 'ts \<Rightarrow> 'm option) \<Rightarrow> ('d module_info \<times> 'ts) list \<Rightarrow> 'm \<Rightarrow> 'm option" where
  "insert_all ins [] m = Some m"
| "insert_all ins (l # ls) m = Option.bind (ins m (fst l) (snd l)) (insert_all ins ls)"

context address_index begin

lemma insert_all_ok:
  "index_wf m \<Longrightarrow> \<forall>l \<in> set ls. mi_base (fst l) < mi_base (fst l) + mi_size (fst l) \<Longrightarrow>
   \<exists>m'. insert_all index_insert ls m = Some m' \<and> index_wf m'"
proof (induction ls arbitrary: m)
  case Nil
  then show ?case by simp
next
  case (Cons l ls)
  then obtain m1 where m1: "index_insert m (fst l) (snd l) = Some m1" "index_wf m1"
    using insert_ok [of m "fst l" "snd l"] by auto
  with Cons show ?case by simp
qed

lemma loaded_find_sound:
  assumes "index_wf m" "\<forall>l \<in> set ls. mi_base (fst l) < mi_base (fst l) + mi_size (fst l)"
  shows "\<exists>m'. insert_all index_insert ls m = Some m' \<and>
    (\<forall>a ts md t. index_find m' a ts True = Some (md, t) \<longrightarrow> covers md a \<and> t \<le> ts)"
  using insert_all_ok [OF assms] find_sound by fastforce

end

interpretation module_timeline: timeline map_wf "\<lambda>m a. active_at (mm_ranges m) a" load_timestamp
    "\<lambda>m e. (mm_modules m ! module_index e, load_timestamp e)" mm_find
  by unfold_locales (auto simp: map_wf_def active_at_sorted find_by_active)

interpretation module_index: address_index map_wf "mm_insert eq" mm_find
proof (unfold_locales, goal_cases)
  case (1 m md ts)
  then show ?case by (rule insert_preserves)
next
  case (2 m a ts strict md t)
  then obtain e where "latest_of load_timestamp (active_at (mm_ranges m) a) ts strict = Some e"
      "md = mm_modules m ! module_index e" "t = load_timestamp e"
    by (auto simp: find_by_active map_wf_def)
  with 2 show ?case unfolding map_wf_pointwise by (auto dest: latest_of_mem)
qed

section \<open>Properties\<close>

text \<open>C1: inserting any module with a non-empty address range that does not wrap around is
  defined (no iterator leaves the vector), and keeps the index well formed: disjoint ascending
  ranges, each with a non-empty load-ordered list of modules that exist and cover it.\<close>

theorem mm_insert_wf:
  assumes "map_wf m" "mi_base md < mi_base md + mi_size md"
  shows "\<exists>m'. mm_insert eq m md ts = Some m' \<and> map_wf m'"
  using assms by (rule insert_preserves)

definition example_module :: "u64 \<Rightarrow> u64 \<Rightarrow> nat \<Rightarrow> nat module_info" where
  "example_module b s p = \<lparr>mi_base = b, mi_size = s, mi_payload = p\<rparr>"

definition example_map :: "(nat, nat) module_map" where
  "example_map =
     \<lparr>mm_modules = [example_module 0 10 1, example_module 20 10 2],
      mm_ranges = [\<lparr>begin_address = 0, end_address = 10,
                     active_modules = [\<lparr>load_timestamp = 1, module_index = 0\<rparr>]\<rparr>,
                   \<lparr>begin_address = 20, end_address = 30,
                     active_modules = [\<lparr>load_timestamp = 1, module_index = 1\<rparr>]\<rparr>]\<rparr>"

lemma example_map_wf: "map_wf example_map"
  by (simp add: example_map_def example_module_def map_wf_def range_wf_def entries_ok_def covered_by_def)

theorem mm_insert_wf_witness:
  "\<exists>m'. mm_insert (=) example_map (example_module 5 3 3) 2 = Some m' \<and> map_wf m'"
  by (rule mm_insert_wf [OF example_map_wf]) (simp add: example_module_def)

text \<open>what an insertion does to the modules active at every address. A module that repeats
  the latest one of exactly its range, with the same payload, changes nothing; any other is
  recorded, and is filed by load time wherever it covers an address, except in the gaps between
  existing ranges when it also overlaps one of them. All other addresses keep their modules.\<close>

lemma mm_insert_active:
  assumes "map_wf m" "mi_base md < mi_base md + mi_size md" "mm_insert eq m md ts = Some m'"
  shows "if duplicate eq (mm_modules m) (mm_ranges m) md ts
    then mm_modules m' = mm_modules m \<and> mm_ranges m' = mm_ranges m
    else mm_modules m' = mm_modules m @ [md] \<and>
         active_at (mm_ranges m') a =
           after_insert (mm_ranges m) (mi_base md) (mi_base md + mi_size md)
             \<lparr>load_timestamp = ts, module_index = length (mm_modules m)\<rparr> a"
proof -
  have "ranges_wf (mm_ranges m)" using assms(1) by (simp add: map_wf_def)
  from insert_spec [OF this assms(2) map_wf_index [OF assms(1)], of ts eq] assms(3)
  show ?thesis by (auto simp: inserted_def)
qed

theorem mm_insert_active_witness:
  "\<exists>m'. mm_insert (=) example_map (example_module 5 3 3) 2 = Some m' \<and>
     mm_modules m' = mm_modules example_map @ [example_module 5 3 3] \<and>
     active_at (mm_ranges m') 6 =
       [\<lparr>load_timestamp = 1, module_index = 0\<rparr>, \<lparr>load_timestamp = 2, module_index = 2\<rparr>]"
proof -
  have size: "mi_base (example_module 5 3 3) < mi_base (example_module 5 3 3) + mi_size (example_module 5 3 3)"
    by (simp add: example_module_def)
  obtain m' where m': "mm_insert (=) example_map (example_module 5 3 3) 2 = Some m'"
    using insert_preserves [OF example_map_wf size] by blast
  have "\<not> duplicate (=) (mm_modules example_map) (mm_ranges example_map) (example_module 5 3 3) 2"
    by (simp add: duplicate_def example_map_def example_module_def)
  moreover have "after_insert (mm_ranges example_map) 5 8
      \<lparr>load_timestamp = 2, module_index = length (mm_modules example_map)\<rparr> 6 =
      [\<lparr>load_timestamp = 1, module_index = 0\<rparr>, \<lparr>load_timestamp = 2, module_index = 2\<rparr>]"
    by (simp add: after_insert_def example_map_def contains_def)
  ultimately show ?thesis
    using mm_insert_active [OF example_map_wf size m', of 6] m' by (simp add: example_module_def)
qed

text \<open>C2: a lookup returns the entry with the latest load time not after the timestamp among the
  modules active at the address; when there is none, a strict lookup finds nothing and a lenient
  one the oldest module active there.\<close>

theorem mm_find_latest:
  assumes "map_wf m"
  shows "mm_find m a ts strict =
    map_option (\<lambda>e. (mm_modules m ! module_index e, load_timestamp e))
      (latest_of load_timestamp (active_at (mm_ranges m) a) ts strict)"
  using assms by (rule module_timeline.find_latest)

theorem mm_find_latest_witness:
  "mm_find example_map 25 7 True = Some (example_module 20 10 2, 1)"
  by (subst mm_find_latest [OF example_map_wf])
    (simp add: example_map_def contains_def latest_of_single)

text \<open>Lookup after insert. At an address the new module covers, and that is not in a gap the
  insertion skips, a lookup at or after the load time returns the new module, provided nothing
  there was loaded later; at every address it does not cover, lookups are unchanged.\<close>

lemma mm_find_after_insert:
  assumes wf: "map_wf m" and size: "mi_base md < mi_base md + mi_size md"
    and ins: "mm_insert eq m md ts = Some m'"
    and nodup: "\<not> duplicate eq (mm_modules m) (mm_ranges m) md ts"
  shows "(covers md a \<and> (\<forall>e \<in> set (active_at (mm_ranges m) a). load_timestamp e \<le> ts) \<and>
       (active_at (mm_ranges m) a \<noteq> [] \<or> \<not> overlaps (mi_base md) (mi_base md + mi_size md) (mm_ranges m)) \<and>
       ts \<le> t \<longrightarrow> mm_find m' a t strict = Some (md, ts)) \<and>
     (\<not> covers md a \<longrightarrow> mm_find m' a t strict = mm_find m a t strict)"
    (is "(?found \<longrightarrow> ?new) \<and> (_ \<longrightarrow> ?same)")
proof -
  let ?n = "\<lparr>load_timestamp = ts, module_index = length (mm_modules m)\<rparr>"
  have rwf: "ranges_wf (mm_ranges m)" using wf by (simp add: map_wf_def)
  have m': "mm_modules m' = mm_modules m @ [md]" "active_at (mm_ranges m') a =
      after_insert (mm_ranges m) (mi_base md) (mi_base md + mi_size md) ?n a"
    and rwf': "ranges_wf (mm_ranges m')"
    using insert_spec [OF rwf size map_wf_index [OF wf], of ts eq] ins nodup
    by (auto simp: inserted_def)
  note find = find_by_active [OF rwf] find_by_active [OF rwf']
  have ?new if ?found
  proof -
    have "latest_of load_timestamp (active_at (mm_ranges m') a) t strict = Some ?n"
      using that latest_of_appended [OF active_at_sorted [OF rwf], of a ?n]
      by (auto simp: m'(2) after_insert_def covers_def latest_of_single)
    then show ?thesis by (simp add: find m'(1))
  qed
  moreover have ?same if nc: "\<not> covers md a"
  proof -
    have "active_at (mm_ranges m') a = active_at (mm_ranges m) a"
      using nc by (auto simp: m'(2) after_insert_def covers_def)
    moreover have "e \<in> set (active_at (mm_ranges m) a) \<Longrightarrow> module_index e < length (mm_modules m)" for e
      using wf by (simp add: map_wf_pointwise)
    ultimately show ?thesis
      by (auto simp: find m'(1) nth_append intro!: map_option_cong dest: latest_of_mem)
  qed
  ultimately show ?thesis by blast
qed

theorem mm_find_after_insert_witness:
  "\<exists>m'. mm_insert (=) example_map (example_module 5 3 3) 2 = Some m' \<and>
     mm_find m' 6 4 True = Some (example_module 5 3 3, 2) \<and>
     mm_find m' 25 4 True = Some (example_module 20 10 2, 1)"
proof -
  let ?md = "example_module 5 3 3"
  have size: "mi_base ?md < mi_base ?md + mi_size ?md" by (simp add: example_module_def)
  obtain m' where m': "mm_insert (=) example_map ?md 2 = Some m'"
    using insert_preserves [OF example_map_wf size] by blast
  have nodup: "\<not> duplicate (=) (mm_modules example_map) (mm_ranges example_map) ?md 2"
    by (simp add: duplicate_def example_map_def example_module_def)
  have "mm_find example_map 25 4 True = Some (example_module 20 10 2, 1)" by code_simp
  moreover have "covers ?md 6" "\<not> covers ?md 25" by (simp_all add: covers_def example_module_def)
  moreover have "active_at (mm_ranges example_map) 6 = [\<lparr>load_timestamp = 1, module_index = 0\<rparr>]"
    by (simp add: example_map_def contains_def)
  ultimately show ?thesis
    using mm_find_after_insert [OF example_map_wf size m' nodup, of 6 4 True]
      mm_find_after_insert [OF example_map_wf size m' nodup, of 25 4 True] m'
    by simp
qed



text \<open>The gap the insertion skips. With modules at \<open>[0, 10)\<close> and \<open>[20, 30)\<close>, a module
  at \<open>[5, 25)\<close> covers address 15, which nothing covered before, and is recorded, but no
  lookup at 15 finds it.\<close>

lemma mm_insert_skips_gap:
  "covers (example_module 5 20 3) 15 \<and> active_at (mm_ranges example_map) 15 = [] \<and>
   (case mm_insert (=) example_map (example_module 5 20 3) 2 of
      None \<Rightarrow> False
    | Some m' \<Rightarrow> mm_modules m' = mm_modules example_map @ [example_module 5 20 3] \<and>
        mm_find m' 15 4 True = None \<and> mm_find m' 15 4 False = None \<and>
        mm_find m' 6 4 True = Some (example_module 5 20 3, 2) \<and>
        mm_find m' 22 4 True = Some (example_module 5 20 3, 2))"
  by code_simp

end
