(* ===== verification/History.thy ===== *)
theory History
  imports Timeline
begin

text \<open>
  The process and thread histories of \<open>snail/analysis/detail/process_history.hpp\<close>: operating
  systems reuse ids, so every id has a list of entries in time order. The equality of payloads is
  the parameter \<open>eq\<close> (\<open>operator==\<close> of the payload type).
\<close>

record ('i, 'ts, 'd) history_entry =
  entry_id :: 'i
  timestamp :: 'ts
  payload :: 'd

type_synonym ('i, 'ts, 'd) history = "'i \<rightharpoonup> ('i, 'ts, 'd) history_entry list"

text \<open>
  \<open>entries_by_id[id]\<close> creates an empty vector for a new id. An entry older than the latest of its
  id runs into \<open>assert(false)\<close>; without assertions nothing is stored and the result is still true.
\<close>

definition history_insert ::
  "('d \<Rightarrow> 'd \<Rightarrow> bool) \<Rightarrow> ('i, 'ts::linorder, 'd) history \<Rightarrow> 'i \<Rightarrow> 'ts \<Rightarrow> 'd \<Rightarrow>
   ('i, 'ts, 'd) history \<times> bool" where
  "history_insert eq h i t p =
     (let entries = (case h i of Some es \<Rightarrow> es | None \<Rightarrow> []) in
      if entries = [] \<or> timestamp (last entries) \<le> t
      then if entries \<noteq> [] \<and> eq (payload (last entries)) p then (h(i \<mapsto> entries), False)
           else (h(i \<mapsto> entries @ [\<lparr>entry_id = i, timestamp = t, payload = p\<rparr>]), True)
      else (h(i \<mapsto> entries), True))"

text \<open>The assertion of the other branch: the insertion is in time order.\<close>

definition insert_in_order :: "('i, 'ts::linorder, 'd) history \<Rightarrow> 'i \<Rightarrow> 'ts \<Rightarrow> bool" where
  "insert_in_order h i t \<longleftrightarrow>
     (case h i of None \<Rightarrow> True | Some es \<Rightarrow> es = [] \<or> timestamp (last es) \<le> t)"

text \<open>\<open>find_at\<close>: the loop over the reversed entries, then the oldest one unless strict. The code
  takes \<open>front()\<close> of the vector, which is not empty for any id the history holds (\<open>history_wf\<close>).\<close>

definition history_find_at ::
  "('i, 'ts::linorder, 'd) history \<Rightarrow> 'i \<Rightarrow> 'ts \<Rightarrow> bool \<Rightarrow> ('i, 'ts, 'd) history_entry option" where
  "history_find_at h i t strict =
     (case h i of
        None \<Rightarrow> None
      | Some es \<Rightarrow>
          (case List.find (\<lambda>e. timestamp e \<le> t) (rev es) of
             Some e \<Rightarrow> Some e
           | None \<Rightarrow> if strict then None else Some (hd es)))"

definition history_entries :: "('i, 'ts, 'd) history \<Rightarrow> 'i \<Rightarrow> ('i, 'ts, 'd) history_entry list" where
  "history_entries h i = (case h i of None \<Rightarrow> [] | Some es \<Rightarrow> es)"

text \<open>The invariant: no empty vector, entries filed under their id, in time order.\<close>

definition history_wf :: "('i, 'ts::linorder, 'd) history \<Rightarrow> bool" where
  "history_wf h \<longleftrightarrow> (\<forall>i \<in> dom h. the (h i) \<noteq> [] \<and>
     (\<forall>e \<in> set (the (h i)). entry_id e = i) \<and> sorted (map timestamp (the (h i))))"

lemma history_wf_empty [wf_intros]: "history_wf Map.empty"
  by (simp add: history_wf_def)

lemma history_wfD:
  assumes "history_wf h" "h i = Some es"
  shows "es \<noteq> []" "\<forall>e \<in> set es. entry_id e = i" "sorted (map timestamp es)"
  using assms by (auto simp: history_wf_def dom_def)

lemma sorted_map_last: "sorted (map f es) \<Longrightarrow> x \<in> set es \<Longrightarrow> f x \<le> f (last es)"
  by (induction es rule: rev_induct) (auto simp: sorted_append)

lemma history_insert_wf:
  assumes "history_wf h"
  shows "history_wf (fst (history_insert eq h i t p))"
proof (cases "h i")
  case None
  with assms show ?thesis by (auto simp: history_insert_def history_wf_def)
next
  case (Some es)
  note es = history_wfD [OF assms Some]
  have "sorted (map timestamp es @ [t])" if "timestamp (last es) \<le> t"
    using es(3) that sorted_map_last [OF es(3)] by (auto simp: sorted_append intro: order_trans)
  with assms Some es show ?thesis by (auto simp: history_insert_def history_wf_def Let_def)
qed

lemma history_find_at_latest:
  assumes "history_wf h"
  shows "history_find_at h i t strict = latest_of timestamp (history_entries h i) t strict"
  using history_wfD(1) [OF assms]
  by (auto simp: history_find_at_def history_entries_def latest_of_def find_last_def
      split: option.splits)

interpretation history_timeline: timeline history_wf history_entries timestamp "\<lambda>_ e. e"
    history_find_at
proof (unfold_locales, goal_cases)
  case (1 m k)
  then show ?case by (auto simp: history_entries_def dest: history_wfD split: option.splits)
next
  case (2 m k t strict)
  then show ?case by (simp add: history_find_at_latest option.map_ident)
qed

lemma history_entries_insert:
  assumes "history_wf h" "insert_in_order h i t"
  shows "history_entries (fst (history_insert eq h i t p)) i =
    (if h i \<noteq> None \<and> eq (payload (last (the (h i)))) p then the (h i)
     else history_entries h i @ [\<lparr>entry_id = i, timestamp = t, payload = p\<rparr>])"
  using assms history_wfD(1) [OF assms(1)]
  by (auto simp: history_insert_def history_entries_def insert_in_order_def Let_def
      split: option.splits)

lemma history_entries_insert_other:
  "j \<noteq> i \<Longrightarrow> history_entries (fst (history_insert eq h i t p)) j = history_entries h j"
  by (auto simp: history_insert_def history_entries_def Let_def split: option.splits)

section \<open>Properties\<close>

text \<open>find after insert. Inserting keeps the history well formed (entries of an id filed under
  it, in time order, never an empty list). After an insertion in time order every lookup of that id
  from its time on finds an entry whose payload is the inserted one or equal to it, not later than
  asked; lookups of other ids are unchanged.\<close>

lemma history_insert_find:
  assumes wf: "history_wf h" and order: "insert_in_order h i t"
    and ins: "history_insert eq h i t p = (h', added)"
  shows "history_wf h' \<and>
    (t \<le> t' \<longrightarrow> (\<exists>e. history_find_at h' i t' strict = Some e \<and> entry_id e = i \<and> timestamp e \<le> t' \<and>
       (if added then payload e = p \<and> timestamp e = t else eq (payload e) p))) \<and>
    (j \<noteq> i \<longrightarrow> history_find_at h' j t' strict = history_find_at h j t' strict)"
proof -
  have wf': "history_wf h'" using history_insert_wf [OF wf] ins by (metis fst_conv)
  note find = history_find_at_latest [OF wf] history_find_at_latest [OF wf']
  have other: "j \<noteq> i \<Longrightarrow> history_entries h' j = history_entries h j"
    using history_entries_insert_other [of j i eq h t p] ins by simp
  have own: "\<exists>e. history_find_at h' i t' strict = Some e \<and> entry_id e = i \<and> timestamp e \<le> t' \<and>
       (if added then payload e = p \<and> timestamp e = t else eq (payload e) p)" if "t \<le> t'"
  proof (cases "h i \<noteq> None \<and> eq (payload (last (the (h i)))) p")
    case False
    with ins order have "added"
      by (auto simp: history_insert_def insert_in_order_def Let_def split: option.splits if_splits)
    with False that show ?thesis
      using history_entries_insert [OF wf order, of eq p] ins by (auto simp: find)
  next
    case True
    then obtain es where es: "h i = Some es" by auto
    note wf_es = history_wfD [OF wf es]
    have le: "timestamp (last es) \<le> t'"
      using order es wf_es(1) that by (auto simp: insert_in_order_def)
    have "\<not> added"
      using ins order True wf_es(1) es by (auto simp: history_insert_def insert_in_order_def Let_def)
    moreover have "latest_of timestamp es t' strict = Some (last es)"
      using le wf_es(1) latest_of_snoc [of timestamp "last es" t' "butlast es"] by simp
    ultimately show ?thesis
      using history_entries_insert [OF wf order, of eq p] ins True es le wf_es
      by (auto simp: find)
  qed
  with wf' other show ?thesis by (simp add: find)
qed

theorem history_insert_find_witness:
  "\<exists>h' added. history_insert (=) [7 \<mapsto> [\<lparr>entry_id = 7, timestamp = 1, payload = ''a''\<rparr>]] (7::nat) (3::nat) ''b'' =
       (h', added) \<and> added \<and> history_wf h' \<and>
     (\<exists>e. history_find_at h' 7 5 True = Some e \<and> payload e = ''b'')"
proof -
  let ?h = "[7 \<mapsto> [\<lparr>entry_id = 7, timestamp = 1, payload = ''a''\<rparr>]] :: (nat, nat, string) history"
  have wf: "history_wf ?h" by (simp add: history_wf_def)
  have order: "insert_in_order ?h 7 3" by (simp add: insert_in_order_def)
  obtain h' added where ins: "history_insert (=) ?h 7 3 ''b'' = (h', added)" by fastforce
  moreover have "added" using ins by (simp add: history_insert_def)
  ultimately show ?thesis using history_insert_find [OF wf order ins, of 5 True] by auto
qed

text \<open>An entry older than the latest one of its id is lost, and insertion still reports that
  it was added: no lookup at any time sees the new payload (the code asserts, \<open>not yet
  implemented\<close>; a build without assertions continues).\<close>

lemma history_insert_out_of_order:
  assumes "history_wf h" "\<not> insert_in_order h i t"
  shows "history_insert eq h i t p = (h, True)"
  using assms
  by (auto simp: history_insert_def insert_in_order_def Let_def map_upd_triv split: option.splits)

theorem history_insert_out_of_order_witness:
  "history_insert (=) [7 \<mapsto> [\<lparr>entry_id = 7, timestamp = 4, payload = ''a''\<rparr>]] (7::nat) (3::nat) ''b'' =
     ([7 \<mapsto> [\<lparr>entry_id = 7, timestamp = 4, payload = ''a''\<rparr>]], True)"
  by (rule history_insert_out_of_order) (simp_all add: history_wf_def insert_in_order_def)

end
