(* ===== verification/Interning.thy ===== *)
theory Interning
  imports Prelude
begin

text \<open>
  Tables that give every distinct key one index. The stack cache, the module, function and file
  tables of an analysis are all of this kind: a vector of the values and a hash map from keys to
  indices. This theory holds the contract as a locale; the components interpret it.
\<close>

text \<open>A sequence of insertions and the indices they return.\<close>

primrec intern_all :: "('s \<Rightarrow> 'k \<Rightarrow> 's \<times> nat) \<Rightarrow> 'k list \<Rightarrow> 's \<Rightarrow> 's \<times> nat list" where
  "intern_all ins [] s = (s, [])"
| "intern_all ins (k # ks) s =
     (let (s1, i) = ins s k; (s2, is) = intern_all ins ks s1 in (s2, i # is))"

locale interning =
  fixes int_wf :: "'s \<Rightarrow> bool"
    and int_insert :: "'s \<Rightarrow> 'k \<Rightarrow> 's \<times> nat"
    and int_keys :: "'s \<Rightarrow> 'k list"
  assumes insert_wf: "int_wf s \<Longrightarrow> int_insert s k = (s', i) \<Longrightarrow> int_wf s'"
    and insert_keys: "int_wf s \<Longrightarrow> int_insert s k = (s', i) \<Longrightarrow>
      int_keys s' = (if k \<in> set (int_keys s) then int_keys s else int_keys s @ [k])"
    and insert_index: "int_wf s \<Longrightarrow> int_insert s k = (s', i) \<Longrightarrow>
      i < length (int_keys s') \<and> int_keys s' ! i = k"
    and distinct_keys: "int_wf s \<Longrightarrow> distinct (int_keys s)"
begin

lemma insert_prefix:
  "int_wf s \<Longrightarrow> int_insert s k = (s', i) \<Longrightarrow> \<exists>new. int_keys s' = int_keys s @ new"
  using insert_keys [of s k s' i] by auto

text \<open>Inserting again returns the same index and adds nothing.\<close>

lemma insert_again:
  assumes "int_wf s" "int_insert s k = (s', i)" "int_insert s' k = (s'', j)"
  shows "j = i \<and> int_keys s'' = int_keys s'"
proof -
  have wf': "int_wf s'" using insert_wf assms(1,2) by blast
  have i: "i < length (int_keys s')" "int_keys s' ! i = k"
    using insert_index assms(1,2) by blast+
  then have "k \<in> set (int_keys s')" by (metis nth_mem)
  then have same: "int_keys s'' = int_keys s'" using insert_keys [OF wf' assms(3)] by simp
  moreover have "j < length (int_keys s'')" "int_keys s'' ! j = k"
    using insert_index [OF wf' assms(3)] by auto
  ultimately show ?thesis
    using distinct_keys [OF wf'] i nth_eq_iff_index_eq by fastforce
qed

lemma intern_all_spec:
  assumes "int_wf s" "intern_all int_insert ks s = (s', is)"
  shows "int_wf s' \<and> (\<exists>new. int_keys s' = int_keys s @ new) \<and> length is = length ks \<and>
    (\<forall>j < length ks. is ! j < length (int_keys s') \<and> int_keys s' ! (is ! j) = ks ! j) \<and>
    set (int_keys s') = set (int_keys s) \<union> set ks"
  using assms
proof (induction ks arbitrary: s "is")
  case Nil
  then show ?case by simp
next
  case (Cons k ks)
  obtain s1 i where ins: "int_insert s k = (s1, i)" by fastforce
  obtain "is'" where rest: "intern_all int_insert ks s1 = (s', is')" "is = i # is'"
    using Cons.prems(2) ins by (auto simp: Let_def split: prod.splits)
  have wf1: "int_wf s1" using insert_wf Cons.prems(1) ins by blast
  note IH = Cons.IH [OF wf1 rest(1)]
  then obtain new where new: "int_keys s' = int_keys s1 @ new" by blast
  obtain new1 where new1: "int_keys s1 = int_keys s @ new1"
    using insert_prefix Cons.prems(1) ins by blast
  have i: "i < length (int_keys s1)" "int_keys s1 ! i = k"
    using insert_index Cons.prems(1) ins by blast+
  have "set (int_keys s1) = insert k (set (int_keys s))"
    using insert_keys [OF Cons.prems(1) ins] by auto
  then have "set (int_keys s') = set (int_keys s) \<union> set (k # ks)" using IH by auto
  with IH new new1 i show ?case
    by (auto simp: rest(2) nth_append nth_Cons split: nat.splits)
qed

text \<open>Over any sequence of insertions, equal indices mean equal keys and the reverse.\<close>

lemma intern_all_injective:
  assumes "int_wf s" "intern_all int_insert ks s = (s', is)" "a < length ks" "b < length ks"
  shows "is ! a = is ! b \<longleftrightarrow> ks ! a = ks ! b"
proof -
  note spec = intern_all_spec [OF assms(1,2)]
  then have "distinct (int_keys s')" using distinct_keys by blast
  then show ?thesis using spec assms(3,4) by (metis nth_eq_iff_index_eq)
qed

end

end
