(* ===== verification/StackCache.thy ===== *)
theory StackCache
  imports Interning
begin

unbundle bit_operations_syntax

text \<open>
  The stack cache of \<open>snail/analysis/detail/stack_cache.hpp\<close>: stacks are vectors of instruction
  pointers, kept once each; a map from hash values to indices finds the saved copy. \<open>std::hash\<close>
  of an instruction pointer is the parameter \<open>ip_hash\<close>: nothing is assumed of it, since hash
  collisions are resolved by comparing the stacks.
\<close>

record stack_cache =
  stacks :: "u64 list list"
  stack_map :: "u64 \<rightharpoonup> nat list"

definition hash_combine :: "u64 \<Rightarrow> u64 \<Rightarrow> u64" where
  "hash_combine lhs rhs = lhs XOR rhs"

definition stack_hasher :: "(u64 \<Rightarrow> u64) \<Rightarrow> u64 list \<Rightarrow> u64" where
  "stack_hasher ip_hash stack =
     foldl (\<lambda>hash ip. hash_combine hash (ip_hash ip)) (of_nat (length stack)) stack"

definition stack_insert :: "(u64 \<Rightarrow> u64) \<Rightarrow> stack_cache \<Rightarrow> u64 list \<Rightarrow> stack_cache \<times> nat" where
  "stack_insert ip_hash c stack =
     (let hash = stack_hasher ip_hash stack;
          saved = (case stack_map c hash of Some is \<Rightarrow> is | None \<Rightarrow> [])
      in case List.find (\<lambda>i. stacks c ! i = stack) saved of
           Some i \<Rightarrow> (c\<lparr>stack_map := (stack_map c)(hash \<mapsto> saved)\<rparr>, i)
         | None \<Rightarrow>
             (let new = length (stacks c) in
              (\<lparr>stacks = stacks c @ [stack],
                stack_map = (stack_map c)(hash \<mapsto> saved @ [new])\<rparr>, new)))"

definition stack_get :: "stack_cache \<Rightarrow> nat \<Rightarrow> u64 list" where
  "stack_get c i = stacks c ! i"

definition empty_stack_cache :: stack_cache where
  "empty_stack_cache = \<lparr>stacks = [], stack_map = Map.empty\<rparr>"

definition saved_indices :: "stack_cache \<Rightarrow> u64 \<Rightarrow> nat list" where
  "saved_indices c h = (case stack_map c h of Some is \<Rightarrow> is | None \<Rightarrow> [])"

text \<open>The invariant: the map files exactly the indices of the stacks, under their hash, and no
  stack is saved twice.\<close>

definition cache_wf :: "(u64 \<Rightarrow> u64) \<Rightarrow> stack_cache \<Rightarrow> bool" where
  "cache_wf ip_hash c \<longleftrightarrow> distinct (stacks c) \<and>
     (\<forall>h. set (saved_indices c h) = {i. i < length (stacks c) \<and> stack_hasher ip_hash (stacks c ! i) = h})"

lemma cache_wf_empty [wf_intros]: "cache_wf ip_hash empty_stack_cache"
  by (simp add: cache_wf_def empty_stack_cache_def saved_indices_def)

lemma saved_indices_update [simp]:
  "saved_indices (c\<lparr>stack_map := (stack_map c)(h \<mapsto> is)\<rparr>) k = (if k = h then is else saved_indices c k)"
  "saved_indices \<lparr>stacks = s, stack_map = (stack_map c)(h \<mapsto> is)\<rparr> k = (if k = h then is else saved_indices c k)"
  by (simp_all add: saved_indices_def)

lemma find_saved:
  assumes "cache_wf ip_hash c"
  shows "List.find (\<lambda>i. stacks c ! i = stack) (saved_indices c (stack_hasher ip_hash stack)) = None
      \<longleftrightarrow> stack \<notin> set (stacks c)"
    and "List.find (\<lambda>i. stacks c ! i = stack) (saved_indices c (stack_hasher ip_hash stack)) = Some i
      \<Longrightarrow> i < length (stacks c) \<and> stacks c ! i = stack"
proof -
  have saved: "set (saved_indices c (stack_hasher ip_hash stack)) =
      {i. i < length (stacks c) \<and> stack_hasher ip_hash (stacks c ! i) = stack_hasher ip_hash stack}"
    using assms by (simp add: cache_wf_def)
  show "List.find (\<lambda>i. stacks c ! i = stack) (saved_indices c (stack_hasher ip_hash stack)) = None
      \<longleftrightarrow> stack \<notin> set (stacks c)"
    by (auto simp: find_None_iff saved in_set_conv_nth)
  show "i < length (stacks c) \<and> stacks c ! i = stack"
    if "List.find (\<lambda>i. stacks c ! i = stack) (saved_indices c (stack_hasher ip_hash stack)) = Some i"
    using that saved by (auto simp: find_Some_iff)
qed

lemma stack_insert_cases:
  assumes "cache_wf ip_hash c" "stack_insert ip_hash c stack = (c', i)"
  shows "if stack \<in> set (stacks c) then stacks c' = stacks c \<and> i < length (stacks c) \<and> stacks c ! i = stack
    else stacks c' = stacks c @ [stack] \<and> i = length (stacks c)"
  using assms(2) find_saved [OF assms(1), of stack] unfolding stack_insert_def saved_indices_def [symmetric] Let_def
  by (auto split: option.splits if_splits)

lemma cache_wf_insert:
  assumes wf: "cache_wf ip_hash c" and ins: "stack_insert ip_hash c stack = (c', i)"
  shows "cache_wf ip_hash c'"
proof (cases "List.find (\<lambda>i. stacks c ! i = stack) (saved_indices c (stack_hasher ip_hash stack))")
  case (Some j)
  then show ?thesis
    using wf ins unfolding stack_insert_def saved_indices_def [symmetric] Let_def
    by (auto simp: cache_wf_def split: if_splits)
next
  case None
  have c': "c' = \<lparr>stacks = stacks c @ [stack], stack_map = (stack_map c)(stack_hasher ip_hash stack \<mapsto>
      saved_indices c (stack_hasher ip_hash stack) @ [length (stacks c)])\<rparr>"
    using None ins unfolding stack_insert_def saved_indices_def [symmetric] Let_def by auto
  have "stack \<notin> set (stacks c)" using find_saved(1) [OF wf] None by blast
  with wf show ?thesis
    by (auto simp: cache_wf_def c' nth_append less_Suc_eq)
qed

interpretation stack_table: interning "cache_wf ip_hash" "stack_insert ip_hash" stacks
proof (unfold_locales, goal_cases)
  case (1 s k s' i)
  then show ?case by (rule cache_wf_insert)
next
  case (2 s k s' i)
  then show ?case using stack_insert_cases [OF 2] by (auto split: if_splits)
next
  case (3 s k s' i)
  then show ?case using stack_insert_cases [OF 3] by (auto split: if_splits)
next
  case (4 s)
  then show ?case by (simp add: cache_wf_def)
qed

section \<open>Properties\<close>

text \<open>C4: over any sequence of insertions into the empty cache, the index returned for each stack
  gives that stack back at the end (no later insertion moves it), whatever the hash function, and
  two insertions return the same index exactly when the stacks are equal.\<close>

theorem stack_cache_roundtrip:
  assumes "intern_all (stack_insert ip_hash) ss empty_stack_cache = (c, is)"
    and "a < length ss" "b < length ss"
  shows "stack_get c (is ! a) = ss ! a \<and> (is ! a = is ! b \<longleftrightarrow> ss ! a = ss ! b) \<and>
    set (stacks c) = set ss \<and> distinct (stacks c)"
  using stack_table.intern_all_spec [OF cache_wf_empty assms(1)] assms(2)
    stack_table.intern_all_injective [OF cache_wf_empty assms]
    stack_table.distinct_keys [of ip_hash c]
  by (simp add: stack_get_def empty_stack_cache_def)

theorem stack_cache_roundtrip_witness:
  "\<exists>c. intern_all (stack_insert (\<lambda>_. 0)) [[1, 2], [3, 4], [1, 2]] empty_stack_cache = (c, [0, 1, 0]) \<and>
     stack_get c 1 = [3, 4] \<and> stack_get c 0 = [1, 2]"
proof -
  obtain c "is" where c: "intern_all (stack_insert (\<lambda>_. 0)) [[1, 2], [3, 4], [1, 2]] empty_stack_cache = (c, is)"
    by fastforce
  moreover have "snd (intern_all (stack_insert (\<lambda>_. 0)) [[1, 2], [3, 4], [1, 2]] empty_stack_cache) = [0, 1, 0]"
    by code_simp
  ultimately have "is = [0, 1, 0]" by simp
  with c show ?thesis
    using stack_cache_roundtrip [OF c, of 1 0] stack_cache_roundtrip [OF c, of 2 0] by simp
qed

end
