(* ===== verification/Scheduler.thy ===== *)
theory Scheduler
  imports Prelude "HOL-Library.AList"
begin

text \<open>
  The document task scheduler of \<open>snail/server/detail/document_task_scheduler.cpp\<close> as a state
  machine. Everything that touches the shared state runs under one mutex, so the atomic steps are:
  \<open>schedule\<close> (any thread), one round of the scheduler thread's loop (\<open>dispatch\<close>, or leaving the
  loop), the end of a task on the thread pool (\<open>finish\<close>), and setting the shutdown flag. The pool
  runs submitted tasks in any order and at any speed, so any running task may finish next.

  The state adds what the code keeps in closures: the tasks submitted to the pool and not finished,
  each with the flag \<open>was_still_ready\<close> it captured. Assertions are not part of a step (a build
  without them goes on); \<open>asserts_ok\<close> says when the assertions of a step hold.
\<close>

section \<open>State\<close>

datatype document_access_type = read_only | write_access

record document_task =
  access_type :: document_access_type
  task :: nat

record document_queue =
  running_write :: bool
  running_reads :: nat
  queue :: "document_task list"

record running_task =
  running_document :: nat
  running_access :: document_access_type
  running_id :: nat
  was_still_ready :: bool

record scheduler =
  document_queues :: "(nat \<times> document_queue) list"
  ready_documents :: "nat list"
  running :: "running_task list"
  shutdown_requested :: bool
  thread_exited :: bool

definition initial_scheduler :: scheduler where
  "initial_scheduler = \<lparr>document_queues = [], ready_documents = [], running = [],
     shutdown_requested = False, thread_exited = False\<rparr>"

definition is_queue_ready :: "document_queue \<Rightarrow> bool" where
  "is_queue_ready q =
     (if queue q = [] then False
      else if running_write q then False
      else access_type (hd (queue q)) = read_only \<or> running_reads q = 0)"

definition has_ready_task :: "scheduler \<Rightarrow> bool" where
  "has_ready_task s \<longleftrightarrow> ready_documents s \<noteq> []"

definition has_any_task :: "scheduler \<Rightarrow> bool" where
  "has_any_task s \<longleftrightarrow> list_ex (\<lambda>(d, q). queue q \<noteq> []) (document_queues s)"

section \<open>Steps\<close>

definition schedule_task :: "nat \<Rightarrow> document_access_type \<Rightarrow> nat \<Rightarrow> scheduler \<Rightarrow> scheduler" where
  "schedule_task d acc t s =
     (case map_of (document_queues s) d of
        None \<Rightarrow> s\<lparr>document_queues := AList.update d
                   \<lparr>running_write = False, running_reads = 0, queue = [\<lparr>access_type = acc, task = t\<rparr>]\<rparr>
                   (document_queues s),
                 ready_documents := ready_documents s @ [d]\<rparr>
      | Some q \<Rightarrow>
          (let q' = q\<lparr>queue := queue q @ [\<lparr>access_type = acc, task = t\<rparr>]\<rparr>;
               s' = s\<lparr>document_queues := AList.update d q' (document_queues s)\<rparr>
           in if length (queue q') = 1 \<and> \<not> running_write q' \<and> running_reads q' = 0
              then s'\<lparr>ready_documents := ready_documents s @ [d]\<rparr> else s'))"

text \<open>Taking the front task off a document's queue, with the counters it enters, and the counters
  it leaves when it has run.\<close>

definition start_task :: "document_queue \<Rightarrow> document_queue" where
  "start_task q =
     (let t = hd (queue q); q1 = q\<lparr>queue := tl (queue q)\<rparr>
      in if access_type t = read_only then q1\<lparr>running_reads := running_reads q1 + 1\<rparr>
         else q1\<lparr>running_write := True\<rparr>)"

definition end_task :: "document_access_type \<Rightarrow> document_queue \<Rightarrow> document_queue" where
  "end_task acc q =
     (if acc = read_only then q\<lparr>running_reads := running_reads q - 1\<rparr> else q\<lparr>running_write := False\<rparr>)"

text \<open>One round of the loop after the wait. \<open>None\<close>: the round would read the front of an empty
  queue or an unknown document, which has no defined result.\<close>

definition dispatch :: "scheduler \<Rightarrow> scheduler option" where
  "dispatch s =
     (case ready_documents s of
        [] \<Rightarrow> None
      | d # ready \<Rightarrow>
          (case map_of (document_queues s) d of
             None \<Rightarrow> None
           | Some q \<Rightarrow>
               if queue q = [] then None
               else let t = hd (queue q); q' = start_task q; is_still_ready = is_queue_ready q'
                    in Some (s\<lparr>document_queues := AList.update d q' (document_queues s),
                              ready_documents := (if is_still_ready then ready @ [d] else ready),
                              running := running s @ [\<lparr>running_document = d, running_access = access_type t,
                                 running_id = task t, was_still_ready = is_still_ready\<rparr>]\<rparr>)))"

text \<open>The end of the \<open>i\<close>-th running task. The queue is a reference into the map, whose elements
  stay where they are.\<close>

definition finish_task :: "nat \<Rightarrow> scheduler \<Rightarrow> scheduler option" where
  "finish_task i s =
     (if i \<ge> length (running s) then None
      else let r = running s ! i; d = running_document r in
        case map_of (document_queues s) d of
          None \<Rightarrow> None
        | Some q \<Rightarrow>
            let q' = end_task (running_access r) q
            in Some (s\<lparr>document_queues := AList.update d q' (document_queues s),
                      running := take i (running s) @ drop (Suc i) (running s),
                      ready_documents := ready_documents s @
                        (if \<not> was_still_ready r \<and> queue q' \<noteq> [] then [d] else [])\<rparr>))"

datatype sched_event = Schedule nat document_access_type nat | Dispatch | Finish nat | RequestShutdown | Exit

definition sched_step :: "sched_event \<Rightarrow> scheduler \<Rightarrow> scheduler option" where
  "sched_step ev s =
     (case ev of
        Schedule d acc t \<Rightarrow> Some (schedule_task d acc t s)
      | Dispatch \<Rightarrow>
          if thread_exited s \<or> (shutdown_requested s \<and> \<not> has_any_task s) \<or> \<not> has_ready_task s then None
          else dispatch s
      | Finish i \<Rightarrow> finish_task i s
      | RequestShutdown \<Rightarrow> Some (s\<lparr>shutdown_requested := True\<rparr>)
      | Exit \<Rightarrow>
          if \<not> thread_exited s \<and> shutdown_requested s \<and> \<not> has_any_task s then Some (s\<lparr>thread_exited := True\<rparr>)
          else None)"

fun sched_run :: "sched_event list \<Rightarrow> scheduler \<Rightarrow> scheduler option" where
  "sched_run [] s = Some s"
| "sched_run (ev # evs) s = Option.bind (sched_step ev s) (sched_run evs)"

inductive sched_reachable :: "scheduler \<Rightarrow> bool" where
  init: "sched_reachable initial_scheduler"
| step: "sched_reachable s \<Longrightarrow> sched_step ev s = Some s' \<Longrightarrow> sched_reachable s'"

section \<open>The invariant\<close>

text \<open>
  A document holds at most one token: it is on the ready list, or one running task captured that it
  left the document not ready and will look again when it finishes. Writes always hold the token,
  so there is at most one, and nothing starts beside it. The counters count the running tasks.
\<close>

definition queue_of :: "scheduler \<Rightarrow> nat \<Rightarrow> document_task list" where
  "queue_of s d = (case map_of (document_queues s) d of None \<Rightarrow> [] | Some q \<Rightarrow> queue q)"

definition blocks :: "nat \<Rightarrow> running_task \<Rightarrow> bool" where
  "blocks d r \<longleftrightarrow> running_document r = d \<and> \<not> was_still_ready r"

definition reads :: "nat \<Rightarrow> running_task \<Rightarrow> bool" where
  "reads d r \<longleftrightarrow> running_document r = d \<and> running_access r = read_only"

definition writes :: "nat \<Rightarrow> running_task \<Rightarrow> bool" where
  "writes d r \<longleftrightarrow> running_document r = d \<and> running_access r = write_access"

definition tokens :: "scheduler \<Rightarrow> nat \<Rightarrow> nat" where
  "tokens s d = length (filter (\<lambda>x. x = d) (ready_documents s)) + length (filter (blocks d) (running s))"

definition sched_wf :: "scheduler \<Rightarrow> bool" where
  "sched_wf s \<longleftrightarrow>
     (\<forall>d. tokens s d \<le> 1) \<and>
     (\<forall>d \<in> set (ready_documents s). queue_of s d \<noteq> []) \<and>
     (\<forall>r \<in> set (running s). map_of (document_queues s) (running_document r) \<noteq> None) \<and>
     (\<forall>r \<in> set (running s). running_access r = write_access \<longrightarrow> \<not> was_still_ready r) \<and>
     (\<forall>d q. map_of (document_queues s) d = Some q \<longrightarrow>
        running_reads q = length (filter (reads d) (running s)) \<and>
        (running_write q \<longleftrightarrow> filter (writes d) (running s) \<noteq> []))"

lemma sched_wfI:
  assumes "\<And>d. tokens s d \<le> 1" "\<And>d. d \<in> set (ready_documents s) \<Longrightarrow> queue_of s d \<noteq> []"
    "\<And>r. r \<in> set (running s) \<Longrightarrow> map_of (document_queues s) (running_document r) \<noteq> None"
    "\<And>r. r \<in> set (running s) \<Longrightarrow> running_access r = write_access \<Longrightarrow> \<not> was_still_ready r"
    "\<And>d q. map_of (document_queues s) d = Some q \<Longrightarrow>
        running_reads q = length (filter (reads d) (running s)) \<and>
        (running_write q \<longleftrightarrow> filter (writes d) (running s) \<noteq> [])"
  shows "sched_wf s"
  unfolding sched_wf_def using assms by blast

lemma sched_wfD:
  assumes "sched_wf s"
  shows "tokens s d \<le> 1" "d \<in> set (ready_documents s) \<Longrightarrow> queue_of s d \<noteq> []"
    "r \<in> set (running s) \<Longrightarrow> \<exists>q. map_of (document_queues s) (running_document r) = Some q"
    "r \<in> set (running s) \<Longrightarrow> running_access r = write_access \<Longrightarrow> \<not> was_still_ready r"
    "map_of (document_queues s) d = Some q \<Longrightarrow> running_reads q = length (filter (reads d) (running s))"
    "map_of (document_queues s) d = Some q \<Longrightarrow> running_write q \<longleftrightarrow> filter (writes d) (running s) \<noteq> []"
  using assms unfolding sched_wf_def by blast+

lemma not_read_only [simp]: "a \<noteq> read_only \<longleftrightarrow> a = write_access"
  by (cases a) auto

lemma sched_wf_init: "sched_wf initial_scheduler"
  by (simp add: sched_wf_def initial_scheduler_def tokens_def)

lemma start_task_simps [simp]:
  "queue (start_task q) = tl (queue q)"
  "running_reads (start_task q) =
     (if access_type (hd (queue q)) = read_only then running_reads q + 1 else running_reads q)"
  "running_write (start_task q) \<longleftrightarrow> running_write q \<or> access_type (hd (queue q)) = write_access"
  by (cases "access_type (hd (queue q))"; simp add: start_task_def Let_def)+

lemma end_task_simps [simp]:
  "queue (end_task acc q) = queue q"
  "running_reads (end_task acc q) = (if acc = read_only then running_reads q - 1 else running_reads q)"
  "running_write (end_task acc q) \<longleftrightarrow> running_write q \<and> acc = read_only"
  by (cases acc; simp add: end_task_def)+

lemma queue_of_update [simp]:
  "queue_of (s\<lparr>document_queues := AList.update d q (document_queues s)\<rparr>) d' =
     (if d' = d then queue q else queue_of s d')"
  by (simp add: queue_of_def update_conv')

lemma writes_block:
  assumes "sched_wf s" "r \<in> set (running s)" "writes d r"
  shows "d \<notin> set (ready_documents s)" "filter (blocks d) (running s) = [r]"
proof -
  have "blocks d r" using assms by (auto simp: sched_wf_def writes_def blocks_def)
  then have "r \<in> set (filter (blocks d) (running s))" using assms(2) by simp
  moreover have le: "length (filter (\<lambda>x. x = d) (ready_documents s)) + length (filter (blocks d) (running s)) \<le> 1"
    using assms(1) by (simp add: sched_wf_def tokens_def)
  ultimately have "length (filter (blocks d) (running s)) = 1" "filter (\<lambda>x. x = d) (ready_documents s) = []"
    by (cases "filter (blocks d) (running s)"; auto)+
  moreover obtain x where "filter (blocks d) (running s) = [x]"
    using calculation(1) by (auto simp: length_Suc_conv)
  ultimately show "d \<notin> set (ready_documents s)" "filter (blocks d) (running s) = [r]"
    using \<open>r \<in> set (filter (blocks d) (running s))\<close> by (auto simp: filter_empty_conv simp del: set_filter)
qed

lemma idle_no_tokens:
  assumes "sched_wf s" "map_of (document_queues s) d = Some q" "queue q = []"
    "\<not> running_write q" "running_reads q = 0"
  shows "tokens s d = 0"
proof -
  have "d \<notin> set (ready_documents s)" using assms by (auto simp: sched_wf_def queue_of_def)
  moreover have "filter (blocks d) (running s) = []"
  proof (rule ccontr)
    assume "filter (blocks d) (running s) \<noteq> []"
    then obtain r where "r \<in> set (running s)" "running_document r = d"
      by (auto simp: filter_empty_conv blocks_def)
    then have "reads d r \<or> writes d r" by (cases "running_access r") (auto simp: reads_def writes_def)
    moreover have "filter (reads d) (running s) = []" "filter (writes d) (running s) = []"
      using assms by (auto simp: sched_wf_def)
    ultimately show False using \<open>r \<in> set (running s)\<close> by (auto simp: filter_empty_conv)
  qed
  ultimately show ?thesis by (auto simp: tokens_def filter_empty_conv)
qed

lemma schedule_wf:
  assumes wf: "sched_wf s"
  shows "sched_wf (schedule_task d acc t s)"
proof (cases "map_of (document_queues s) d")
  case None
  then have "filter (blocks d) (running s) = []" "filter (reads d) (running s) = []"
      "filter (writes d) (running s) = []" "d \<notin> set (ready_documents s)"
    using wf by (auto simp: sched_wf_def filter_empty_conv blocks_def reads_def writes_def queue_of_def)
  with None wf show ?thesis
    by (auto simp: schedule_task_def sched_wf_def tokens_def update_conv' queue_of_def filter_empty_conv)
next
  case (Some q)
  let ?idle = "queue q = [] \<and> \<not> running_write q \<and> running_reads q = 0"
  have "?idle \<Longrightarrow> tokens s d = 0" using idle_no_tokens [OF wf Some] by blast
  with Some wf show ?thesis
    by (auto simp: schedule_task_def Let_def sched_wf_def tokens_def update_conv' queue_of_def
        split: if_splits)
qed

lemma dispatch_defined:
  assumes "sched_wf s" "ready_documents s \<noteq> []"
  shows "\<exists>s'. dispatch s = Some s'"
proof -
  obtain d ds where d: "ready_documents s = d # ds" using assms(2) by (cases "ready_documents s") auto
  then have "queue_of s d \<noteq> []" using assms(1) by (simp add: sched_wf_def)
  then obtain q t ts where "map_of (document_queues s) d = Some q" "queue q = t # ts"
    by (auto simp: queue_of_def neq_Nil_conv split: option.splits)
  with d show ?thesis by (simp add: dispatch_def Let_def)
qed

text \<open>What a dispatch does, once its document and task are known.\<close>

definition dispatched :: "nat \<Rightarrow> document_task \<Rightarrow> bool \<Rightarrow> running_task" where
  "dispatched d t still = \<lparr>running_document = d, running_access = access_type t, running_id = task t,
     was_still_ready = still\<rparr>"

lemma dispatched_simps [simp]:
  "running_document (dispatched d t b) = d" "running_access (dispatched d t b) = access_type t"
  "running_id (dispatched d t b) = task t" "was_still_ready (dispatched d t b) = b"
  by (simp_all add: dispatched_def)

lemma dispatchE:
  assumes "dispatch s = Some s'"
  obtains d ds q t ts where "ready_documents s = d # ds" "map_of (document_queues s) d = Some q"
    "queue q = t # ts"
    "s' = s\<lparr>document_queues := AList.update d (start_task q) (document_queues s),
            ready_documents := (if is_queue_ready (start_task q) then ds @ [d] else ds),
            running := running s @ [dispatched d t (is_queue_ready (start_task q))]\<rparr>"
proof -
  obtain d ds where d: "ready_documents s = d # ds"
    using assms by (cases "ready_documents s") (auto simp: dispatch_def)
  obtain q where q: "map_of (document_queues s) d = Some q"
    using assms d by (cases "map_of (document_queues s) d") (auto simp: dispatch_def)
  obtain t ts where t: "queue q = t # ts" using assms d q by (cases "queue q") (auto simp: dispatch_def)
  show thesis
    by (rule that [OF d q t]) (use assms d q t in \<open>simp add: dispatch_def Let_def dispatched_def\<close>)
qed

lemma dispatch_wf:
  assumes wf: "sched_wf s" and step: "dispatch s = Some s'"
  shows "sched_wf s'"
proof -
  obtain d ds q t ts where e: "ready_documents s = d # ds" "map_of (document_queues s) d = Some q"
    "queue q = t # ts"
    and s': "s' = s\<lparr>document_queues := AList.update d (start_task q) (document_queues s),
            ready_documents := (if is_queue_ready (start_task q) then ds @ [d] else ds),
            running := running s @ [dispatched d t (is_queue_ready (start_task q))]\<rparr>"
    using dispatchE [OF step] by metis
  have "tokens s d \<le> 1" using wf by (simp add: sched_wf_def)
  then have nb: "filter (\<lambda>x. x = d) ds = []" "filter (blocks d) (running s) = []"
    using e(1) by (auto simp: tokens_def)
  then have dds: "d \<notin> set ds" by (auto simp: filter_empty_conv)
  have nw: "filter (writes d) (running s) = []"
    using writes_block(1) [OF wf] e(1) by (auto simp: filter_empty_conv)
  then have "\<not> running_write q" using wf e(2) by (auto simp: sched_wf_def)
  have tok: "tokens s' x \<le> 1" for x
  proof (cases "x = d")
    case True
    then show ?thesis using nb by (simp add: s' tokens_def blocks_def)
  next
    case False
    then have "tokens s' x = tokens s x" by (simp add: e(1) s' tokens_def blocks_def)
    then show ?thesis using wf by (simp add: sched_wf_def)
  qed
  have ready: "queue_of s' x \<noteq> []" if "x \<in> set (ready_documents s')" for x
  proof (cases "x = d")
    case True
    with that dds show ?thesis
      by (auto simp: s' queue_of_def update_conv' is_queue_ready_def split: if_splits)
  next
    case False
    with that have "x \<in> set (ready_documents s)" by (auto simp: e(1) s' split: if_splits)
    with False wf show ?thesis by (auto simp: s' queue_of_def update_conv' sched_wf_def)
  qed
  have wr: "access_type t = write_access \<Longrightarrow> \<not> is_queue_ready (start_task q)"
    using e(3) by (simp add: is_queue_ready_def)
  have cnt: "running_reads p = length (filter (reads x) (running s')) \<and>
      (running_write p \<longleftrightarrow> filter (writes x) (running s') \<noteq> [])"
    if "map_of (document_queues s') x = Some p" for x p
  proof (cases "x = d")
    case True
    then have "p = start_task q" using that by (simp add: s' update_conv')
    then show ?thesis using wf e(2,3) nw \<open>\<not> running_write q\<close> True
      by (cases "access_type t") (auto simp: s' sched_wf_def reads_def writes_def)
  next
    case False
    then have "map_of (document_queues s) x = Some p" using that by (simp add: s' update_conv')
    then show ?thesis using wf False by (auto simp: s' sched_wf_def reads_def writes_def)
  qed
  show ?thesis
  proof (intro sched_wfI)
    show "map_of (document_queues s') (running_document r) \<noteq> None" if "r \<in> set (running s')" for r
      using that sched_wfD(3) [OF wf, of r] e(2) by (auto simp: s' update_conv')
    show "\<not> was_still_ready r" if "r \<in> set (running s')" "running_access r = write_access" for r
      using that sched_wfD(4) [OF wf, of r] wr by (auto simp: s')
  qed (use tok ready cnt in auto)
qed

lemma finish_wf:
  assumes wf: "sched_wf s" and step: "finish_task i s = Some s'"
  shows "sched_wf s'"
proof -
  have i: "i < length (running s)" using step by (auto simp: finish_task_def split: if_splits)
  let ?r = "running s ! i" and ?rest = "take i (running s) @ drop (Suc i) (running s)"
  let ?d = "running_document ?r"
  obtain q where q: "map_of (document_queues s) ?d = Some q"
    using sched_wfD(3) [OF wf, of ?r] i by auto
  let ?q = "end_task (running_access ?r) q"
  let ?push = "\<not> was_still_ready ?r \<and> queue q \<noteq> []"
  have s': "s' = s\<lparr>document_queues := AList.update ?d ?q (document_queues s), running := ?rest,
      ready_documents := ready_documents s @ (if ?push then [?d] else [])\<rparr>"
    using step i q by (auto simp: finish_task_def Let_def)
  have len: "length (filter P (running s)) = length (filter P ?rest) + (if P ?r then 1 else 0)" for P
    by (rule length_filter_remove [OF i])
  have sub: "set ?rest \<subseteq> set (running s)" by (rule set_remove_subset)
  have rin: "?r \<in> set (running s)" using i by simp
  have qof: "queue_of s' x = queue_of s x" for x
    using q by (simp add: s' queue_of_def update_conv')
  have tok: "tokens s' x \<le> 1" for x
  proof -
    have "tokens s' x \<le> tokens s x"
      using len [of "blocks x"] by (auto simp: tokens_def s' blocks_def)
    also have "\<dots> \<le> 1" using wf by (simp add: sched_wf_def)
    finally show ?thesis .
  qed
  have ready: "queue_of s' x \<noteq> []" if "x \<in> set (ready_documents s')" for x
    using that wf q unfolding qof by (auto simp: s' sched_wf_def queue_of_def split: if_splits)
  have old: "running_reads p = length (filter (reads x) (running s))"
    "running_write p \<longleftrightarrow> length (filter (writes x) (running s)) \<noteq> 0"
    if "map_of (document_queues s) x = Some p" for x p
    using wf that by (simp_all add: sched_wf_def)
  have run: "running s' = ?rest" by (simp add: s')
  have "running_reads p = length (filter (reads x) (running s')) \<and>
      (running_write p \<longleftrightarrow> length (filter (writes x) (running s')) \<noteq> 0)"
    if "map_of (document_queues s') x = Some p" for x p
  proof (cases "x = ?d")
    case False
    then have "map_of (document_queues s) x = Some p" using that by (simp add: s' update_conv')
    moreover have "\<not> reads x ?r" "\<not> writes x ?r" using False by (simp_all add: reads_def writes_def)
    ultimately show ?thesis
      unfolding run using old [of x p] len [of "reads x"] len [of "writes x"] by (simp del: filter_append)
  next
    case True
    then have p: "p = ?q" using that by (simp add: s' update_conv')
    show ?thesis
    proof (cases "running_access ?r")
      case read_only
      then have "\<not> writes ?d ?r" "reads ?d ?r" by (simp_all add: writes_def reads_def)
      then show ?thesis
        unfolding run p True using old [OF q] read_only len [of "reads ?d"] len [of "writes ?d"]
        by (simp del: filter_append)
    next
      case write_access
      then have w: "writes ?d ?r" "\<not> reads ?d ?r" by (simp_all add: writes_def reads_def)
      have "blocks ?d ?r" using sched_wfD(4) [OF wf rin write_access] by (simp add: blocks_def)
      then have "filter (blocks ?d) ?rest = []"
        using writes_block(2) [OF wf rin w(1)] len [of "blocks ?d"] by (simp del: filter_append)
      moreover have "blocks ?d x" if "x \<in> set ?rest" "writes ?d x" for x
        using that sub sched_wfD(4) [OF wf, of x] by (auto simp: writes_def blocks_def)
      ultimately have "filter (writes ?d) ?rest = []" unfolding filter_empty_conv by blast
      then show ?thesis
        unfolding run p True using old [OF q] write_access len [of "reads ?d"] w
        by (simp del: filter_append)
    qed
  qed
  then show ?thesis
  proof (intro sched_wfI)
    show "map_of (document_queues s') (running_document r) \<noteq> None" if "r \<in> set (running s')" for r
      using that sub sched_wfD(3) [OF wf, of r] unfolding run by (auto simp: s' update_conv' simp del: set_append)
    show "\<not> was_still_ready r" if "r \<in> set (running s')" "running_access r = write_access" for r
      using that sub sched_wfD(4) [OF wf, of r] unfolding run by blast
  qed (use tok ready in auto)
qed

lemma flags_wf [simp]:
  "sched_wf (s\<lparr>shutdown_requested := b\<rparr>) = sched_wf s"
  "sched_wf (s\<lparr>thread_exited := b\<rparr>) = sched_wf s"
  by (simp_all add: sched_wf_def tokens_def queue_of_def)

lemma sched_step_wf: "sched_wf s \<Longrightarrow> sched_step ev s = Some s' \<Longrightarrow> sched_wf s'"
  by (cases ev) (auto simp: sched_step_def split: if_splits intro: schedule_wf dispatch_wf finish_wf)

lemma reachable_wf: "sched_reachable s \<Longrightarrow> sched_wf s"
  by (induction rule: sched_reachable.induct) (auto intro: sched_wf_init sched_step_wf)

section \<open>Order of execution\<close>

text \<open>What was handed in for a document, and what the loop took from its queue, in order.\<close>

definition scheduled :: "nat \<Rightarrow> sched_event list \<Rightarrow> document_task list" where
  "scheduled d evs = concat (map (\<lambda>ev. case ev of
     Schedule d' acc t \<Rightarrow> if d' = d then [\<lparr>access_type = acc, task = t\<rparr>] else [] | _ \<Rightarrow> []) evs)"

definition started_now :: "nat \<Rightarrow> sched_event \<Rightarrow> scheduler \<Rightarrow> document_task list" where
  "started_now d ev s =
     (if ev = Dispatch \<and> ready_documents s \<noteq> [] \<and> hd (ready_documents s) = d
      then take 1 (queue_of s d) else [])"

fun started :: "nat \<Rightarrow> sched_event list \<Rightarrow> scheduler \<Rightarrow> document_task list" where
  "started d [] s = []"
| "started d (ev # evs) s = started_now d ev s @
     (case sched_step ev s of None \<Rightarrow> [] | Some s' \<Rightarrow> started d evs s')"

lemma queue_of_schedule:
  "queue_of (schedule_task d' acc t s) d =
     (if d' = d then queue_of s d @ [\<lparr>access_type = acc, task = t\<rparr>] else queue_of s d)"
  by (cases "map_of (document_queues s) d'")
    (auto simp: schedule_task_def Let_def queue_of_def update_conv')

lemma queue_of_finish:
  assumes "finish_task i s = Some s'"
  shows "queue_of s' d = queue_of s d"
  using assms
  by (auto simp: finish_task_def Let_def queue_of_def update_conv' split: if_splits option.splits)

lemma queue_of_dispatch:
  assumes "dispatch s = Some s'"
  shows "queue_of s d = started_now d Dispatch s @ queue_of s' d"
  by (rule dispatchE [OF assms]) (auto simp: started_now_def queue_of_def update_conv')

lemma queue_of_flags [simp]:
  "queue_of (s\<lparr>shutdown_requested := b\<rparr>) d = queue_of s d"
  "queue_of (s\<lparr>thread_exited := b\<rparr>) d = queue_of s d"
  by (simp_all add: queue_of_def)

lemma step_queue_of:
  assumes "sched_step ev s = Some s'"
  shows "queue_of s d @ scheduled d [ev] = started_now d ev s @ queue_of s' d"
proof (cases ev)
  case Dispatch
  then show ?thesis using assms queue_of_dispatch by (auto simp: sched_step_def scheduled_def split: if_splits)
next
  case (Finish i)
  then show ?thesis
    using assms queue_of_finish by (simp add: sched_step_def scheduled_def started_now_def)
qed (use assms in \<open>auto simp: sched_step_def scheduled_def started_now_def queue_of_schedule
       split: if_splits\<close>)

lemma run_queue_of:
  "sched_run evs s = Some s' \<Longrightarrow> queue_of s d @ scheduled d evs = started d evs s @ queue_of s' d"
proof (induction evs arbitrary: s)
  case Nil
  then show ?case by (simp add: scheduled_def)
next
  case (Cons ev evs)
  then obtain s1 where s1: "sched_step ev s = Some s1" "sched_run evs s1 = Some s'"
    by (cases "sched_step ev s") auto
  have "scheduled d (ev # evs) = scheduled d [ev] @ scheduled d evs" by (simp add: scheduled_def)
  then have "queue_of s d @ scheduled d (ev # evs) = started_now d ev s @ queue_of s1 d @ scheduled d evs"
    using step_queue_of [OF s1(1), of d] by (metis append_assoc)
  then show ?case using Cons.IH [OF s1(2)] s1(1) by simp
qed

lemma run_reachable: "sched_run evs s = Some s' \<Longrightarrow> sched_reachable s \<Longrightarrow> sched_reachable s'"
  by (induction evs arbitrary: s) (auto split: bind_splits intro: sched_reachable.step)

section \<open>Documents that are only written\<close>

text \<open>With write tasks only, a queued task always has a token: the loop will come back to it.\<close>

definition only_writes :: "scheduler \<Rightarrow> bool" where
  "only_writes s \<longleftrightarrow>
     (\<forall>d. \<forall>t \<in> set (queue_of s d). access_type t = write_access) \<and>
     (\<forall>r \<in> set (running s). running_access r = write_access) \<and>
     (\<forall>d. queue_of s d \<noteq> [] \<longrightarrow> tokens s d = 1)"

lemma only_writes_no_reads:
  assumes "sched_wf s" "only_writes s" "map_of (document_queues s) d = Some q"
  shows "running_reads q = 0"
  using sched_wfD(5) [OF assms(1,3)] assms(2)
  by (auto simp: only_writes_def reads_def filter_empty_conv)

lemma tokens_schedule:
  "tokens (schedule_task d' acc t s) d = tokens s d +
     (if d' = d \<and> (case map_of (document_queues s) d of None \<Rightarrow> True
        | Some q \<Rightarrow> queue q = [] \<and> \<not> running_write q \<and> running_reads q = 0) then 1 else 0)"
  by (auto simp: schedule_task_def Let_def tokens_def split: option.splits)

lemma tokens_schedule_le: "tokens s d \<le> tokens (schedule_task d' acc t s) d"
  by (simp add: tokens_schedule)

lemma only_writes_schedule:
  assumes wf: "sched_wf s" and ow: "only_writes s"
  shows "only_writes (schedule_task d write_access t s)"
proof -
  have "tokens (schedule_task d write_access t s) x = 1"
    if "queue_of (schedule_task d write_access t s) x \<noteq> []" for x
  proof (cases "x = d \<and> queue_of s d = []")
    case False
    then have "tokens s x = 1" using that ow by (auto simp: only_writes_def queue_of_schedule split: if_splits)
    moreover have "tokens (schedule_task d write_access t s) x \<le> 1" by (rule sched_wfD(1) [OF schedule_wf [OF wf]])
    ultimately show ?thesis using tokens_schedule_le [of s x d write_access t] by linarith
  next
    case True
    have le: "tokens (schedule_task d write_access t s) d \<le> 1" by (rule sched_wfD(1) [OF schedule_wf [OF wf]])
    show ?thesis
    proof (cases "map_of (document_queues s) d")
      case None
      then show ?thesis using le True by (simp add: tokens_schedule)
    next
      case (Some q)
      show ?thesis
      proof (cases "running_write q")
        case False
        then show ?thesis using le True Some only_writes_no_reads [OF wf ow Some]
          by (simp add: tokens_schedule queue_of_def)
      next
        case w: True
        then obtain r where "r \<in> set (running s)" "writes d r"
          using sched_wfD(6) [OF wf Some] by (auto simp: filter_empty_conv)
        then have "tokens s d \<ge> 1" using writes_block(2) [OF wf] by (simp add: tokens_def)
        then show ?thesis using le True tokens_schedule_le [of s d d write_access t] by simp
      qed
    qed
  qed
  moreover have "running (schedule_task d write_access t s) = running s"
    by (auto simp: schedule_task_def Let_def split: option.splits)
  ultimately show ?thesis using ow by (auto simp: only_writes_def queue_of_schedule)
qed

lemma only_writes_dispatch:
  assumes wf: "sched_wf s" and ow: "only_writes s" and step: "dispatch s = Some s'"
  shows "only_writes s'"
proof -
  obtain d ds q t ts where e: "ready_documents s = d # ds" "map_of (document_queues s) d = Some q"
    "queue q = t # ts"
    and s': "s' = s\<lparr>document_queues := AList.update d (start_task q) (document_queues s),
            ready_documents := (if is_queue_ready (start_task q) then ds @ [d] else ds),
            running := running s @ [dispatched d t (is_queue_ready (start_task q))]\<rparr>"
    using dispatchE [OF step] by metis
  have "t \<in> set (queue_of s d)" using e by (simp add: queue_of_def)
  then have w: "access_type t = write_access" using ow by (simp add: only_writes_def)
  then have nr: "\<not> is_queue_ready (start_task q)" using e(3) by (simp add: is_queue_ready_def)
  have tok: "tokens s' x = tokens s x" for x
    using e(1) nr by (simp add: s' tokens_def blocks_def)
  have "set (queue_of s' x) \<subseteq> set (queue_of s x)" for x
    using queue_of_dispatch [OF step, of x] by simp
  then have "\<forall>x. \<forall>u \<in> set (queue_of s' x). access_type u = write_access"
    "\<forall>x. queue_of s' x \<noteq> [] \<longrightarrow> tokens s' x = 1"
    using ow tok unfolding only_writes_def by (blast, metis empty_iff list.set(1) subset_empty set_empty)
  then show ?thesis using ow w by (auto simp: only_writes_def s')
qed

lemma only_writes_finish:
  assumes wf: "sched_wf s" and ow: "only_writes s" and step: "finish_task i s = Some s'"
  shows "only_writes s'"
proof -
  have i: "i < length (running s)" using step by (auto simp: finish_task_def split: if_splits)
  let ?r = "running s ! i" and ?rest = "take i (running s) @ drop (Suc i) (running s)"
  have rin: "?r \<in> set (running s)" using i by simp
  then have w: "running_access ?r = write_access" using ow by (simp add: only_writes_def)
  then have nr: "\<not> was_still_ready ?r" using sched_wfD(4) [OF wf rin] by blast
  obtain q where q: "map_of (document_queues s) (running_document ?r) = Some q"
    using sched_wfD(3) [OF wf rin] by auto
  have s': "s' = s\<lparr>document_queues := AList.update (running_document ?r) (end_task write_access q) (document_queues s),
      running := ?rest,
      ready_documents := ready_documents s @ (if queue q \<noteq> [] then [running_document ?r] else [])\<rparr>"
    using step i q w nr by (auto simp: finish_task_def Let_def)
  have len: "length (filter P (running s)) = length (filter P ?rest) + (if P ?r then 1 else 0)" for P
    by (rule length_filter_remove [OF i])
  obtain rest where rest: "rest = ?rest" by simp
  have tok: "tokens s' x = tokens s x" if "queue_of s x \<noteq> []" for x
    using len [of "blocks x"] that q nr
    unfolding s' rest [symmetric] by (auto simp: tokens_def blocks_def queue_of_def)
  have "set ?rest \<subseteq> set (running s)" by (rule set_remove_subset)
  then have "\<forall>r \<in> set (running s'). running_access r = write_access"
    using ow by (auto simp: only_writes_def s' simp del: set_append)
  then show ?thesis using ow tok by (simp add: only_writes_def queue_of_finish [OF step])
qed

lemma only_writes_flags [simp]:
  "only_writes (s\<lparr>shutdown_requested := b\<rparr>) = only_writes s"
  "only_writes (s\<lparr>thread_exited := b\<rparr>) = only_writes s"
  by (simp_all add: only_writes_def tokens_def)

lemma only_writes_run:
  assumes "sched_wf s" "only_writes s" "sched_run evs s = Some s'"
    "\<And>d acc t. Schedule d acc t \<in> set evs \<Longrightarrow> acc = write_access"
  shows "sched_wf s' \<and> only_writes s'"
  using assms
proof (induction evs arbitrary: s)
  case (Cons ev evs)
  then obtain s1 where s1: "sched_step ev s = Some s1" "sched_run evs s1 = Some s'"
    by (cases "sched_step ev s") auto
  have "only_writes s1"
  proof (cases ev)
    case (Schedule d acc t)
    then have "acc = write_access" using Cons.prems(4) [of d acc t] by simp
    then show ?thesis using only_writes_schedule [OF Cons.prems(1,2)] Schedule s1(1)
      by (auto simp: sched_step_def)
  qed (use s1(1) Cons.prems(1,2) in \<open>auto simp: sched_step_def 
        intro: only_writes_dispatch only_writes_finish split: if_splits\<close>)
  then show ?case
    using Cons.IH [of s1] sched_step_wf [OF Cons.prems(1) s1(1)] s1(2) Cons.prems(4) by auto
qed simp

lemma case_option_True: "(case x of None \<Rightarrow> False | Some y \<Rightarrow> P y) \<longleftrightarrow> (\<exists>y. x = Some y \<and> P y)"
  by (cases x) auto

text \<open>The map of queues has one entry for each document.\<close>

lemma step_distinct:
  assumes "sched_step ev s = Some s'" "distinct (map fst (document_queues s))"
  shows "distinct (map fst (document_queues s'))"
proof (cases ev)
  case (Schedule d acc t)
  then show ?thesis
    using assms by (auto simp: sched_step_def schedule_task_def Let_def distinct_update split: option.splits)
next
  case Dispatch
  then show ?thesis
    using assms by (auto simp: sched_step_def distinct_update elim!: dispatchE split: if_splits)
next
  case (Finish i)
  then show ?thesis
    using assms
    by (auto simp: sched_step_def finish_task_def Let_def distinct_update split: if_splits option.splits)
qed (use assms in \<open>auto simp: sched_step_def split: if_splits\<close>)

lemma run_distinct:
  "sched_run evs s = Some s' \<Longrightarrow> distinct (map fst (document_queues s)) \<Longrightarrow>
     distinct (map fst (document_queues s'))"
  by (induction evs arbitrary: s) (auto split: bind_splits intro: step_distinct)

section \<open>Properties\<close>

text \<open>C9: The scheduler thread never takes the front of an empty queue and never looks up an unknown
  document: whatever was scheduled, dispatched and finished in whatever order, when a document is on
  the ready list the next round of the loop is defined.\<close>
theorem reachable_dispatch_defined:
  assumes "sched_reachable s" "ready_documents s \<noteq> []"
  shows "\<exists>s'. dispatch s = Some s'"
  using dispatch_defined [OF reachable_wf [OF assms(1)] assms(2)] .

text \<open>C10: A running write is alone among writes, and no task of its document is started beside it:
  in every reachable state at most one write of a document runs, and while it runs the document is
  not on the ready list.\<close>
theorem running_write_exclusive:
  assumes "sched_reachable s"
  shows "length (filter (writes d) (running s)) \<le> 1 \<and>
    (filter (writes d) (running s) \<noteq> [] \<longrightarrow> d \<notin> set (ready_documents s))"
proof (cases "filter (writes d) (running s) = []")
  case False
  note wf = reachable_wf [OF assms]
  from False obtain r where r: "r \<in> set (running s)" "writes d r" by (auto simp: filter_empty_conv)
  have "filter (writes d) (running s) = filter (writes d) (filter (blocks d) (running s))"
    using sched_wfD(4) [OF wf] by (auto simp: writes_def blocks_def intro!: filter_cong)
  then show ?thesis using writes_block [OF wf r] r(2) by simp
qed simp


text \<open>C12: If only write tasks were scheduled, the scheduler cannot stall: when the pool is idle and any
  task waits, a document is ready, so the loop goes on and a shutdown can drain the queues.\<close>
theorem only_writes_never_stall:
  assumes "sched_run evs initial_scheduler = Some s" "running s = []" "has_any_task s"
    "\<And>d acc t. Schedule d acc t \<in> set evs \<Longrightarrow> acc = write_access"
  shows "has_ready_task s"
proof -
  have "only_writes initial_scheduler" by (simp add: only_writes_def initial_scheduler_def queue_of_def)
  then have ow: "sched_wf s" "only_writes s" using only_writes_run [OF sched_wf_init _ assms(1,4)] by auto
  obtain d q where dq: "(d, q) \<in> set (document_queues s)" "queue q \<noteq> []"
    using assms(3) by (auto simp: has_any_task_def list_ex_iff)
  moreover have "distinct (map fst (document_queues s))"
    using run_distinct [OF assms(1)] by (simp add: initial_scheduler_def)
  ultimately have "queue_of s d \<noteq> []" by (simp add: queue_of_def)
  then have "tokens s d = 1" using ow(2) by (simp add: only_writes_def)
  then show ?thesis using assms(2) by (auto simp: tokens_def has_ready_task_def)
qed

text \<open>The two ways to break what the header of \<open>document_task_scheduler.hpp\<close> promises start with two
  reads of one document that run at once. The first, dispatched while the second still waited, found
  the document ready; the second emptied the queue.\<close>

definition two_reads :: "sched_event list" where
  "two_reads = [Schedule 0 read_only 1, Schedule 0 read_only 2, Dispatch, Dispatch]"

lemma sched_run_two_reads:
  "sched_run two_reads initial_scheduler = Some
     \<lparr>document_queues = [(0, \<lparr>running_write = False, running_reads = 2, queue = []\<rparr>)],
      ready_documents = [],
      running = [\<lparr>running_document = 0, running_access = read_only, running_id = 1, was_still_ready = True\<rparr>,
                 \<lparr>running_document = 0, running_access = read_only, running_id = 2, was_still_ready = False\<rparr>],
      shutdown_requested = False, thread_exited = False\<rparr>"
  by code_simp

lemma sched_run_append: "sched_run (xs @ ys) s = Option.bind (sched_run xs s) (sched_run ys)"
  by (induction xs arbitrary: s) (auto split: bind_splits)

text \<open>A write can run beside a read of the same document. When a write waits, the read that emptied
  the queue puts the document back as it finishes, without looking at the other read that still runs,
  and the loop starts the write.\<close>
lemma write_beside_read:
  "\<exists>evs s. sched_run evs initial_scheduler = Some s \<and>
     filter (reads 0) (running s) \<noteq> [] \<and> filter (writes 0) (running s) \<noteq> []"
proof -
  have "case sched_run (two_reads @ [Schedule 0 write_access 3, Finish 1, Dispatch]) initial_scheduler of
      None \<Rightarrow> False
    | Some s \<Rightarrow> filter (reads 0) (running s) \<noteq> [] \<and> filter (writes 0) (running s) \<noteq> []"
    unfolding sched_run_append sched_run_two_reads by code_simp
  then show ?thesis unfolding case_option_True by blast
qed

text \<open>A task can be left behind for ever. If the read that emptied the queue finishes first and a task
  is then scheduled while the other read runs, neither the scheduling nor the end of that read puts the
  document on the ready list: the task waits, the pool is idle, nothing is ready, and a shutdown neither
  starts the task nor ends the loop.\<close>
lemma task_left_behind:
  "\<exists>evs s. sched_run evs initial_scheduler = Some s \<and>
     has_any_task s \<and> \<not> has_ready_task s \<and> running s = [] \<and> shutdown_requested s \<and>
     sched_step Dispatch s = None \<and> sched_step Exit s = None \<and> (\<forall>i. sched_step (Finish i) s = None)"
proof -
  obtain s where s: "sched_run (two_reads @ [Finish 1, Schedule 0 read_only 3, Finish 0, RequestShutdown])
      initial_scheduler = Some s"
    and q: "has_any_task s" "\<not> has_ready_task s" "running s = []" "shutdown_requested s" "\<not> thread_exited s"
  proof -
    have "case sched_run (two_reads @ [Finish 1, Schedule 0 read_only 3, Finish 0, RequestShutdown])
        initial_scheduler of None \<Rightarrow> False
      | Some s \<Rightarrow> has_any_task s \<and> \<not> has_ready_task s \<and> running s = [] \<and>
          shutdown_requested s \<and> \<not> thread_exited s"
      unfolding sched_run_append sched_run_two_reads by code_simp
    then show ?thesis unfolding case_option_True using that by blast
  qed
  have "sched_step Dispatch s = None" "sched_step Exit s = None" "sched_step (Finish i) s = None" for i
    using q by (simp_all add: sched_step_def finish_task_def)
  then show ?thesis using s q by blast
qed

section \<open>Examples\<close>

definition example_schedule :: "sched_event list" where
  "example_schedule = [Schedule 7 write_access 1, Schedule 7 write_access 2, Dispatch, Schedule 8 write_access 3]"

definition example_scheduler :: scheduler where
  "example_scheduler = the (sched_run example_schedule initial_scheduler)"

lemma sched_example_run: "sched_run example_schedule initial_scheduler = Some example_scheduler"
  unfolding example_scheduler_def by code_simp

lemma sched_example_reachable: "sched_reachable example_scheduler"
  by (rule run_reachable [OF sched_example_run sched_reachable.init])

lemma reachable_dispatch_defined_witness: "\<exists>s'. dispatch example_scheduler = Some s'"
proof -
  have "ready_documents example_scheduler \<noteq> []" by code_simp
  then show ?thesis by (rule reachable_dispatch_defined [OF sched_example_reachable])
qed

lemma running_write_exclusive_witness:
  "filter (writes 7) (running example_scheduler) \<noteq> [] \<and> 7 \<notin> set (ready_documents example_scheduler)"
proof -
  have "filter (writes 7) (running example_scheduler) \<noteq> []" by code_simp
  then show ?thesis using running_write_exclusive [OF sched_example_reachable, of 7] by simp
qed


lemma only_writes_never_stall_witness:
  "has_ready_task (the (sched_run (example_schedule @ [Finish 0]) initial_scheduler))"
proof (rule only_writes_never_stall [where evs = "example_schedule @ [Finish 0]"])
  show "sched_run (example_schedule @ [Finish 0]) initial_scheduler =
      Some (the (sched_run (example_schedule @ [Finish 0]) initial_scheduler))" by code_simp
  show "running (the (sched_run (example_schedule @ [Finish 0]) initial_scheduler)) = []" by code_simp
  show "has_any_task (the (sched_run (example_schedule @ [Finish 0]) initial_scheduler))" by code_simp
qed (auto simp: example_schedule_def)

end
