(* ===== verification/Analysis.thy ===== *)
theory Analysis
  imports Interning
begin

text \<open>
  The stack analysis of \<open>snail/analysis/analysis.cpp\<close> with the data of \<open>snail/analysis/data\<close>:
  the samples of a process are folded into tables of modules, functions and files with hit counts,
  caller and callee edges, and a call tree. The samples provider (an abstract class) is a list of
  source ids and, for each, the samples of the process that pass the filter; the cancellation token
  is an oracle that answers the \<open>k\<close>-th question. References into a vector are indices. Counters
  and ids are natural numbers (\<open>std::size_t\<close> would overflow after \<open>2 ^ 64\<close> increments).
  Progress reporting is left out, and the assertions on file and line are not modelled: the
  definitions follow a build without assertions.
\<close>

section \<open>Data\<close>

record hit_counts =
  total :: nat
  self :: nat

type_synonym source_hit_counts = "hit_counts list"

definition no_hits :: hit_counts where
  "no_hits = \<lparr>total = 0, self = 0\<rparr>"

text \<open>The two overloads of \<open>source_hit_counts::get\<close>: reading, and a reference that grows the vector
  and is then written through.\<close>

definition hits_get :: "source_hit_counts \<Rightarrow> nat \<Rightarrow> hit_counts" where
  "hits_get h source_id = (if source_id \<ge> length h then no_hits else h ! source_id)"

definition hits_modify :: "nat \<Rightarrow> (hit_counts \<Rightarrow> hit_counts) \<Rightarrow> source_hit_counts \<Rightarrow> source_hit_counts" where
  "hits_modify source_id g h =
     (let h' = (if source_id \<ge> length h then h @ replicate (source_id + 1 - length h) no_hits else h)
      in h'[source_id := g (h' ! source_id)])"

definition count_total :: "nat \<Rightarrow> source_hit_counts \<Rightarrow> source_hit_counts" where
  "count_total source_id = hits_modify source_id (\<lambda>c. c\<lparr>total := total c + 1\<rparr>)"

definition count_self :: "nat \<Rightarrow> source_hit_counts \<Rightarrow> source_hit_counts" where
  "count_self source_id = hits_modify source_id (\<lambda>c. c\<lparr>self := self c + 1\<rparr>)"

definition init_hits :: "nat \<Rightarrow> source_hit_counts" where
  "init_hits max_source_id = replicate (max_source_id + 1) no_hits"

record module_row =
  module_id :: nat
  module_row_name :: string
  module_hits :: source_hit_counts

record function_info =
  function_id :: nat
  function_module_id :: nat
  function_name :: string
  function_hits :: source_hit_counts
  callers :: "nat \<rightharpoonup> source_hit_counts"
  callees :: "nat \<rightharpoonup> source_hit_counts"
  function_file_id :: "nat option"
  line_number :: "nat option"
  hits_by_line :: "nat \<rightharpoonup> source_hit_counts"

record file_info =
  file_id :: nat
  file_path :: string
  file_hits :: source_hit_counts

record call_tree_node =
  node_id :: nat
  node_function_id :: nat
  node_hits :: source_hit_counts
  node_children :: "nat list"

record stack_frame =
  symbol_name :: string
  frame_module_name :: string
  frame_file_path :: string
  function_line_number :: nat
  instruction_line_number :: nat

record sample_data =
  has_stack :: bool
  has_frame :: bool
  reversed_stack :: "stack_frame list"
  frame :: stack_frame

record stacks_analysis =
  analysis_process_id :: nat
  all_modules :: "module_row list"
  all_functions :: "function_info list"
  call_tree_nodes :: "call_tree_node list"
  all_files :: "file_info list"
  call_tree_root :: call_tree_node
  function_root :: function_info

text \<open>During the analysis the three lookup maps are local variables beside the result.\<close>

record analysis_state = stacks_analysis +
  modules_by_name :: "string \<rightharpoonup> nat"
  functions_by_name :: "nat \<times> string \<rightharpoonup> nat"
  files_by_path :: "string \<rightharpoonup> nat"

definition root_function_id :: nat where "root_function_id = 0xFFFFFFFF"
definition root_call_tree_node_id :: nat where "root_call_tree_node_id = 0xFFFFFFFF"

section \<open>Table operations\<close>

text \<open>A lookup map and its vector, as the three get-or-create functions take them.\<close>

definition get_or_create_module ::
  "module_row list \<times> (string \<rightharpoonup> nat) \<Rightarrow> string \<Rightarrow> nat \<Rightarrow> (module_row list \<times> (string \<rightharpoonup> nat)) \<times> nat" where
  "get_or_create_module = (\<lambda>(modules, modules_by_name) name max_source_id.
     case modules_by_name name of
       Some i \<Rightarrow> ((modules, modules_by_name), i)
     | None \<Rightarrow>
         let row = \<lparr>module_id = length modules, module_row_name = name,
                    module_hits = init_hits max_source_id\<rparr>
         in ((modules @ [row], modules_by_name(name \<mapsto> module_id row)), length modules))"

definition get_or_create_function ::
  "function_info list \<times> (nat \<times> string \<rightharpoonup> nat) \<Rightarrow> module_row \<Rightarrow> string \<Rightarrow> nat \<Rightarrow>
   (function_info list \<times> (nat \<times> string \<rightharpoonup> nat)) \<times> nat" where
  "get_or_create_function = (\<lambda>(functions, functions_by_name) mrow name max_source_id.
     case functions_by_name (module_id mrow, name) of
       Some i \<Rightarrow> ((functions, functions_by_name), i)
     | None \<Rightarrow>
         let row = \<lparr>function_id = length functions, function_module_id = module_id mrow,
                    function_name = name, function_hits = init_hits max_source_id,
                    callers = Map.empty, callees = Map.empty, function_file_id = None,
                    line_number = None, hits_by_line = Map.empty\<rparr>
         in ((functions @ [row], functions_by_name((module_id mrow, name) \<mapsto> function_id row)),
             length functions))"

definition get_or_create_file ::
  "file_info list \<times> (string \<rightharpoonup> nat) \<Rightarrow> string \<Rightarrow> nat \<Rightarrow> (file_info list \<times> (string \<rightharpoonup> nat)) \<times> nat" where
  "get_or_create_file = (\<lambda>(files, files_by_path) path max_source_id.
     case files_by_path path of
       Some i \<Rightarrow> ((files, files_by_path), i)
     | None \<Rightarrow>
         let row = \<lparr>file_id = length files, file_path = path, file_hits = init_hits max_source_id\<rparr>
         in ((files @ [row], files_by_path(path \<mapsto> file_id row)), length files))"

text \<open>The functions and the call tree nodes have a root beside the vector: a reference to one of
  them is \<open>None\<close> for the root or an index.\<close>

definition rooted_at :: "'r \<times> 'r list \<Rightarrow> nat option \<Rightarrow> 'r" where
  "rooted_at t cur = (case cur of None \<Rightarrow> fst t | Some i \<Rightarrow> snd t ! i)"

definition rooted_update :: "nat option \<Rightarrow> ('r \<Rightarrow> 'r) \<Rightarrow> 'r \<times> 'r list \<Rightarrow> 'r \<times> 'r list" where
  "rooted_update cur g t =
     (case cur of None \<Rightarrow> (g (fst t), snd t) | Some i \<Rightarrow> (fst t, (snd t)[i := g (snd t ! i)]))"

type_synonym call_tree = "call_tree_node \<times> call_tree_node list"

definition get_or_append_call_tree_child ::
  "call_tree \<Rightarrow> nat option \<Rightarrow> function_info \<Rightarrow> nat \<Rightarrow> call_tree \<times> nat" where
  "get_or_append_call_tree_child t cur fn max_source_id =
     (case List.find (\<lambda>c. node_function_id (snd t ! c) = function_id fn)
             (node_children (rooted_at t cur)) of
        Some c \<Rightarrow> (t, c)
      | None \<Rightarrow>
          (let new_node_id = length (snd t);
               t1 = rooted_update cur (\<lambda>n. n\<lparr>node_children := node_children n @ [new_node_id]\<rparr>) t;
               row = \<lparr>node_id = new_node_id, node_function_id = function_id fn,
                      node_hits = init_hits max_source_id, node_children = []\<rparr>
           in ((fst t1, snd t1 @ [row]), new_node_id)))"

section \<open>The analysis\<close>

text \<open>\<open>++m[k].get(source).total\<close> on an unordered map of hit counts.\<close>

definition map_hits :: "('k \<rightharpoonup> source_hit_counts) \<Rightarrow> 'k \<Rightarrow> source_hit_counts" where
  "map_hits m k = (case m k of None \<Rightarrow> [] | Some h \<Rightarrow> h)"

definition map_count ::
  "(source_hit_counts \<Rightarrow> source_hit_counts) \<Rightarrow> 'k \<Rightarrow> ('k \<rightharpoonup> source_hit_counts) \<Rightarrow> ('k \<rightharpoonup> source_hit_counts)" where
  "map_count g k m = m(k \<mapsto> g (map_hits m k))"

text \<open>File and line of a function are set once; the hits of the line are counted each time.\<close>

definition set_source_location :: "nat \<Rightarrow> stack_frame \<Rightarrow> function_info \<Rightarrow> function_info" where
  "set_source_location file fr f =
     f\<lparr>function_file_id := (case function_file_id f of None \<Rightarrow> Some file | Some i \<Rightarrow> Some i),
       line_number := (case line_number f of None \<Rightarrow> Some (function_line_number fr) | Some l \<Rightarrow> Some l)\<rparr>"

definition count_line :: "(source_hit_counts \<Rightarrow> source_hit_counts) \<Rightarrow> nat \<Rightarrow> function_info \<Rightarrow> function_info" where
  "count_line g line f = f\<lparr>hits_by_line := map_count g line (hits_by_line f)\<rparr>"

text \<open>Counting in the hits of a row.\<close>

definition count_module :: "(source_hit_counts \<Rightarrow> source_hit_counts) \<Rightarrow> nat \<Rightarrow> module_row list \<Rightarrow> module_row list" where
  "count_module g m ms = ms[m := (ms ! m)\<lparr>module_hits := g (module_hits (ms ! m))\<rparr>]"

definition count_file :: "(source_hit_counts \<Rightarrow> source_hit_counts) \<Rightarrow> nat option \<Rightarrow> file_info list \<Rightarrow> file_info list" where
  "count_file g file fs =
     (case file of None \<Rightarrow> fs | Some i \<Rightarrow> fs[i := (fs ! i)\<lparr>file_hits := g (file_hits (fs ! i))\<rparr>])"

definition count_function ::
  "(source_hit_counts \<Rightarrow> source_hit_counts) \<Rightarrow> nat option \<Rightarrow> function_info \<times> function_info list \<Rightarrow>
   function_info \<times> function_info list" where
  "count_function g cur = rooted_update cur (\<lambda>f. f\<lparr>function_hits := g (function_hits f)\<rparr>)"

definition count_node ::
  "(source_hit_counts \<Rightarrow> source_hit_counts) \<Rightarrow> nat option \<Rightarrow> call_tree \<Rightarrow> call_tree" where
  "count_node g cur = rooted_update cur (\<lambda>n. n\<lparr>node_hits := g (node_hits n)\<rparr>)"

text \<open>The edge between a function and the one that called it (or the root).\<close>

definition count_edge ::
  "nat \<Rightarrow> nat option \<Rightarrow> nat \<Rightarrow> function_info \<times> function_info list \<Rightarrow> function_info \<times> function_info list" where
  "count_edge src caller f fs =
     (let fs1 = rooted_update caller
                  (\<lambda>r. r\<lparr>callees := map_count (count_total src) (function_id (rooted_at fs (Some f))) (callees r)\<rparr>) fs
      in rooted_update (Some f)
           (\<lambda>r. r\<lparr>callers := map_count (count_total src) (function_id (rooted_at fs1 caller)) (callers r)\<rparr>) fs1)"

definition count_location ::
  "(source_hit_counts \<Rightarrow> source_hit_counts) \<Rightarrow> file_info list \<Rightarrow> nat option \<Rightarrow> stack_frame \<Rightarrow> nat \<Rightarrow>
   function_info \<times> function_info list \<Rightarrow> function_info \<times> function_info list" where
  "count_location g files file fr f fs =
     (case file of None \<Rightarrow> fs
      | Some i \<Rightarrow> rooted_update (Some f)
          (\<lambda>r. count_line g (instruction_line_number fr)
                 (set_source_location (file_id (files ! i)) fr r)) fs)"

record previous =
  previous_node_id :: "nat option"
  previous_module_id :: "nat option"
  previous_function_id :: "nat option"
  previous_file_id :: "nat option"
  previous_line_number :: "nat option"

definition no_previous :: previous where
  "no_previous = \<lparr>previous_node_id = None, previous_module_id = None, previous_function_id = None,
     previous_file_id = None, previous_line_number = None\<rparr>"

definition frame_file ::
  "file_info list \<times> (string \<rightharpoonup> nat) \<Rightarrow> stack_frame \<Rightarrow> nat \<Rightarrow>
   (file_info list \<times> (string \<rightharpoonup> nat)) \<times> nat option" where
  "frame_file files fr max_source_id =
     (if frame_file_path fr = [] then (files, None)
      else apsnd Some (get_or_create_file files (frame_file_path fr) max_source_id))"

text \<open>One iteration of the loop over the reversed stack.\<close>

definition visit_frame ::
  "nat \<Rightarrow> nat \<Rightarrow> analysis_state \<times> previous \<Rightarrow> stack_frame \<Rightarrow> analysis_state \<times> previous" where
  "visit_frame max_source_id src = (\<lambda>(st, prev) fr.
     case get_or_create_module (all_modules st, modules_by_name st) (frame_module_name fr) max_source_id of
       ((ms, ms_map), m) \<Rightarrow>
     case get_or_create_function (all_functions st, functions_by_name st) (ms ! m) (symbol_name fr)
       max_source_id of ((fs, fs_map), f) \<Rightarrow>
     case get_or_append_call_tree_child (call_tree_root st, call_tree_nodes st) (previous_node_id prev)
       (fs ! f) max_source_id of (t, n) \<Rightarrow>
     case frame_file (all_files st, files_by_path st) fr max_source_id of ((xs, xs_map), file) \<Rightarrow>
       (let ms1 = count_module (count_total src) m ms;
            fs1 = count_function (count_total src) (Some f) (function_root st, fs);
            t1 = count_node (count_total src) (Some n) t;
            xs1 = count_file (count_total src) file xs;
            fs2 = count_edge src (previous_function_id prev) f fs1;
            fs3 = count_location (count_total src) xs1 file fr f fs2
        in (st\<lparr>all_modules := ms1, modules_by_name := ms_map,
               all_functions := snd fs3, function_root := fst fs3, functions_by_name := fs_map,
               call_tree_root := fst t1, call_tree_nodes := snd t1,
               all_files := xs1, files_by_path := xs_map\<rparr>,
            \<lparr>previous_node_id = Some (node_id (snd t1 ! n)),
             previous_module_id = Some (module_id (ms1 ! m)),
             previous_function_id = Some (function_id (snd fs3 ! f)),
             previous_file_id = map_option (\<lambda>i. file_id (xs1 ! i)) file,
             previous_line_number = Some (instruction_line_number fr)\<rparr>)))"

text \<open>The self hits of the last frame visited.\<close>

definition finish_stack :: "nat \<Rightarrow> analysis_state \<Rightarrow> previous \<Rightarrow> analysis_state" where
  "finish_stack src st prev =
     (let ms = (case previous_module_id prev of None \<Rightarrow> all_modules st
                | Some m \<Rightarrow> count_module (count_self src) m (all_modules st));
          t = count_node (count_self src) (previous_node_id prev) (call_tree_root st, call_tree_nodes st);
          xs = count_file (count_self src) (previous_file_id prev) (all_files st);
          fs = count_function (count_self src) (previous_function_id prev) (function_root st, all_functions st);
          fs1 = (case (previous_function_id prev, previous_file_id prev, previous_line_number prev) of
                   (Some f, Some _, Some l) \<Rightarrow> rooted_update (Some f) (count_line (count_self src) l) fs
                 | _ \<Rightarrow> fs)
      in st\<lparr>all_modules := ms, call_tree_root := fst t, call_tree_nodes := snd t, all_files := xs,
            function_root := fst fs1, all_functions := snd fs1\<rparr>)"

definition count_root :: "nat \<Rightarrow> analysis_state \<Rightarrow> analysis_state" where
  "count_root src st =
     st\<lparr>call_tree_root := fst (count_node (count_total src) None (call_tree_root st, call_tree_nodes st)),
        function_root := fst (count_function (count_total src) None (function_root st, all_functions st))\<rparr>"

definition visit_stack :: "nat \<Rightarrow> nat \<Rightarrow> analysis_state \<Rightarrow> stack_frame list \<Rightarrow> analysis_state" where
  "visit_stack max_source_id src st frames =
     (case foldl (visit_frame max_source_id src) (count_root src st, no_previous) frames of
        (st', prev) \<Rightarrow> finish_stack src st' prev)"

text \<open>A sample with a frame but no stack counts for its module, function and file only.\<close>

definition visit_single_frame :: "nat \<Rightarrow> nat \<Rightarrow> analysis_state \<Rightarrow> stack_frame \<Rightarrow> analysis_state" where
  "visit_single_frame max_source_id src st fr =
     (case get_or_create_module (all_modules st, modules_by_name st) (frame_module_name fr) max_source_id of
       ((ms, ms_map), m) \<Rightarrow>
      case get_or_create_function (all_functions st, functions_by_name st) (ms ! m) (symbol_name fr)
       max_source_id of ((fs, fs_map), f) \<Rightarrow>
      case frame_file (all_files st, files_by_path st) fr max_source_id of ((xs, xs_map), file) \<Rightarrow>
        (let both = count_self src \<circ> count_total src;
             ms1 = count_module both m ms;
             fs1 = count_function both (Some f) (function_root st, fs);
             xs1 = count_file both file xs;
             fs2 = count_location both xs1 file fr f fs1
         in st\<lparr>all_modules := ms1, modules_by_name := ms_map,
               all_functions := snd fs2, function_root := fst fs2, functions_by_name := fs_map,
               all_files := xs1, files_by_path := xs_map\<rparr>))"

definition visit_sample :: "nat \<Rightarrow> nat \<Rightarrow> analysis_state \<Rightarrow> sample_data \<Rightarrow> analysis_state" where
  "visit_sample max_source_id src st s =
     (if has_stack s then visit_stack max_source_id src st (reversed_stack s)
      else if has_frame s then visit_single_frame max_source_id src st (frame s)
      else st)"

text \<open>The loop over the samples of a source asks the token before each sample; \<open>k\<close> counts the
  questions. The result tells whether the analysis was cancelled.\<close>

fun visit_samples ::
  "nat \<Rightarrow> (nat \<Rightarrow> bool) \<Rightarrow> nat \<Rightarrow> nat \<Rightarrow> analysis_state \<Rightarrow> sample_data list \<Rightarrow> analysis_state \<times> nat \<times> bool" where
  "visit_samples max_source_id canceled src k st [] = (st, k, False)"
| "visit_samples max_source_id canceled src k st (s # ss) =
     (if canceled k then (st, Suc k, True)
      else visit_samples max_source_id canceled src (Suc k) (visit_sample max_source_id src st s) ss)"

fun visit_sources ::
  "nat \<Rightarrow> (nat \<Rightarrow> bool) \<Rightarrow> (nat \<Rightarrow> sample_data list) \<Rightarrow> nat \<Rightarrow> analysis_state \<Rightarrow> nat list \<Rightarrow> analysis_state \<times> bool" where
  "visit_sources max_source_id canceled samples k st [] = (st, False)"
| "visit_sources max_source_id canceled samples k st (src # srcs) =
     (case visit_samples max_source_id canceled src k st (samples src) of (st', k', cancel) \<Rightarrow>
        if cancel then (st', True) else visit_sources max_source_id canceled samples k' st' srcs)"

definition initial_analysis :: "nat \<Rightarrow> nat \<Rightarrow> analysis_state" where
  "initial_analysis max_source_id pid =
     \<lparr>analysis_process_id = pid, all_modules = [], all_functions = [], call_tree_nodes = [], all_files = [],
      call_tree_root = \<lparr>node_id = root_call_tree_node_id, node_function_id = root_function_id,
        node_hits = init_hits max_source_id, node_children = []\<rparr>,
      function_root = \<lparr>function_id = root_function_id, function_module_id = 0xFFFFFFFFFFFFFFFF,
        function_name = ''root'', function_hits = init_hits max_source_id, callers = Map.empty,
        callees = Map.empty, function_file_id = None, line_number = None, hits_by_line = Map.empty\<rparr>,
      modules_by_name = Map.empty, functions_by_name = Map.empty, files_by_path = Map.empty\<rparr>"

text \<open>\<open>analyze_stacks\<close>; \<open>sources.back()\<close> of a provider without sources has no defined result.\<close>

definition analyze_stacks ::
  "nat list \<Rightarrow> (nat \<Rightarrow> sample_data list) \<Rightarrow> nat \<Rightarrow> (nat \<Rightarrow> bool) \<Rightarrow> stacks_analysis option" where
  "analyze_stacks sources samples pid canceled =
     (if sources = [] then None
      else let max_source_id = last sources;
               (st, cancel) = visit_sources max_source_id canceled samples 0
                 (initial_analysis max_source_id pid) sources
           in Some (stacks_analysis.truncate st))"

section \<open>Accessors\<close>

text \<open>\<open>vector::at\<close> throws out of range: \<open>None\<close>.\<close>

definition vector_at :: "'a list \<Rightarrow> nat \<Rightarrow> 'a option" where
  "vector_at xs i = (if i < length xs then Some (xs ! i) else None)"

definition get_module :: "stacks_analysis \<Rightarrow> nat \<Rightarrow> module_row option" where
  "get_module a i = vector_at (all_modules a) i"

definition get_file :: "stacks_analysis \<Rightarrow> nat \<Rightarrow> file_info option" where
  "get_file a i = vector_at (all_files a) i"

definition get_function :: "stacks_analysis \<Rightarrow> nat \<Rightarrow> function_info option" where
  "get_function a i =
     (if i = function_id (function_root a) then Some (function_root a) else vector_at (all_functions a) i)"

definition get_call_tree_node :: "stacks_analysis \<Rightarrow> nat \<Rightarrow> call_tree_node option" where
  "get_call_tree_node a i =
     (if i = node_id (call_tree_root a) then Some (call_tree_root a) else vector_at (call_tree_nodes a) i)"

end
