(* ===== verification/CallTree.thy ===== *)
theory CallTree
  imports Analysis "HOL-Library.Sublist"
begin

text \<open>
  The call tree of an analysis against its specification: a prefix tree of the stacks. This theory
  defines what a path of function ids means in the tree, shows that the code's find-or-append step
  extends the tree by exactly one path, and counts the hits along a stack. The theorems about the
  whole analysis are in \<open>AnalysisSpec\<close>.
\<close>

section \<open>Hit counts\<close>

lemma hits_get_modify [simp]:
  "hits_get (hits_modify s g h) s' = (if s' = s then g (hits_get h s) else hits_get h s')"
  by (auto simp: hits_get_def hits_modify_def Let_def nth_append nth_list_update not_le)

lemma hits_get_init [simp]: "hits_get (init_hits m) s = no_hits"
  by (simp add: hits_get_def init_hits_def del: replicate_Suc)

lemma hits_get_Nil [simp]: "hits_get [] s = no_hits"
  by (simp add: hits_get_def)

lemma no_hits_sel [simp]: "total no_hits = 0" "self no_hits = 0"
  by (simp_all add: no_hits_def)

lemma count_total_sel [simp]:
  "total (hits_get (count_total s h) s') = total (hits_get h s') + (if s' = s then 1 else 0)"
  "self (hits_get (count_total s h) s') = self (hits_get h s')"
  by (simp_all add: count_total_def)

lemma count_self_sel [simp]:
  "self (hits_get (count_self s h) s') = self (hits_get h s') + (if s' = s then 1 else 0)"
  "total (hits_get (count_self s h) s') = total (hits_get h s')"
  by (simp_all add: count_self_def)

section \<open>Rooted tables\<close>

definition valid_ref :: "'r \<times> 'r list \<Rightarrow> nat option \<Rightarrow> bool" where
  "valid_ref t cur \<longleftrightarrow> (\<forall>i. cur = Some i \<longrightarrow> i < length (snd t))"

lemma valid_ref_simps [simp]:
  "valid_ref t None" "valid_ref t (Some i) \<longleftrightarrow> i < length (snd t)"
  by (auto simp: valid_ref_def)

lemma length_rooted_update [simp]: "length (snd (rooted_update cur g t)) = length (snd t)"
  by (simp add: rooted_update_def split: option.split)

lemma valid_ref_rooted_update [simp]: "valid_ref (rooted_update cur g t) = valid_ref t"
  by (auto simp: valid_ref_def fun_eq_iff)

lemma rooted_at_update [simp]:
  "valid_ref t cur \<Longrightarrow>
   rooted_at (rooted_update cur g t) c = (if c = cur then g (rooted_at t cur) else rooted_at t c)"
  by (cases c; cases cur) (auto simp: rooted_at_def rooted_update_def)

lemma rooted_at_append:
  "valid_ref t cur \<Longrightarrow> rooted_at (fst t, snd t @ [x]) cur = rooted_at t cur"
  by (cases cur) (auto simp: rooted_at_def nth_append)

lemma rooted_at_new [simp]: "rooted_at (r, xs @ [x]) (Some (length xs)) = x"
  by (simp add: rooted_at_def)

section \<open>Paths\<close>

definition kids :: "call_tree \<Rightarrow> nat option \<Rightarrow> nat list" where
  "kids t cur = node_children (rooted_at t cur)"

definition fid :: "call_tree \<Rightarrow> nat \<Rightarrow> nat" where
  "fid t c = node_function_id (rooted_at t (Some c))"

definition child :: "call_tree \<Rightarrow> nat option \<Rightarrow> nat \<Rightarrow> nat option" where
  "child t cur f = List.find (\<lambda>c. fid t c = f) (kids t cur)"

definition path_node :: "call_tree \<Rightarrow> nat list \<Rightarrow> nat option option" where
  "path_node t p =
     foldl (\<lambda>at f. Option.bind at (\<lambda>cur. map_option Some (child t cur f))) (Some None) p"

lemma path_node_simps [simp]:
  "path_node t [] = Some None"
  "path_node t (p @ [f]) = Option.bind (path_node t p) (\<lambda>cur. map_option Some (child t cur f))"
  by (simp_all add: path_node_def)

text \<open>The tree invariant: children are later nodes of the vector, siblings have different
  functions, and every node but the root has exactly one parent.\<close>

definition tree_wf :: "call_tree \<Rightarrow> bool" where
  "tree_wf t \<longleftrightarrow>
     (\<forall>cur c. valid_ref t cur \<longrightarrow> c \<in> set (kids t cur) \<longrightarrow> c < length (snd t) \<and> (\<forall>i. cur = Some i \<longrightarrow> i < c)) \<and>
     (\<forall>cur. valid_ref t cur \<longrightarrow> distinct (map (fid t) (kids t cur))) \<and>
     (\<forall>cur cur' c. valid_ref t cur \<longrightarrow> valid_ref t cur' \<longrightarrow> c \<in> set (kids t cur) \<longrightarrow>
        c \<in> set (kids t cur') \<longrightarrow> cur = cur') \<and>
     (\<forall>c < length (snd t). \<exists>cur. valid_ref t cur \<and> c \<in> set (kids t cur))"

lemma tree_wfD:
  assumes "tree_wf t" "valid_ref t cur"
  shows "c \<in> set (kids t cur) \<Longrightarrow> c < length (snd t)"
    "c \<in> set (kids t cur) \<Longrightarrow> cur = Some i \<Longrightarrow> i < c"
    "distinct (map (fid t) (kids t cur))"
    "valid_ref t cur' \<Longrightarrow> c \<in> set (kids t cur) \<Longrightarrow> c \<in> set (kids t cur') \<Longrightarrow> cur = cur'"
  using assms unfolding tree_wf_def by blast+

lemma tree_wf_parent:
  "tree_wf t \<Longrightarrow> c < length (snd t) \<Longrightarrow> \<exists>cur. valid_ref t cur \<and> c \<in> set (kids t cur)"
  unfolding tree_wf_def by blast

lemma child_Some:
  "child t cur f = Some c \<Longrightarrow> c \<in> set (kids t cur) \<and> fid t c = f"
  by (auto simp: child_def find_Some_iff)

lemma child_of_kid:
  assumes "tree_wf t" "valid_ref t cur" "c \<in> set (kids t cur)"
  shows "child t cur (fid t c) = Some c"
proof -
  have "child t cur (fid t c) \<noteq> None" using assms(3) by (auto simp: child_def find_None_iff)
  then obtain d where d: "child t cur (fid t c) = Some d" by blast
  then have "d \<in> set (kids t cur)" "fid t d = fid t c" using child_Some by blast+
  then have "d = c" using tree_wfD(3) [OF assms(1,2)] assms(3) by (auto simp: distinct_map inj_on_def)
  with d show ?thesis by simp
qed

lemma path_node_valid: "tree_wf t \<Longrightarrow> path_node t p = Some cur \<Longrightarrow> valid_ref t cur"
proof (induction p arbitrary: cur rule: rev_induct)
  case (snoc f p)
  then obtain par c where "path_node t p = Some par" "child t par f = Some c" "cur = Some c"
    by (auto simp: bind_eq_Some_conv)
  with snoc show ?case using child_Some tree_wfD(1) by fastforce
qed simp

text \<open>A node has one path, and every node has one.\<close>

lemma path_node_inj:
  "tree_wf t \<Longrightarrow> path_node t p = Some cur \<Longrightarrow> path_node t q = Some cur \<Longrightarrow> p = q"
proof (induction p arbitrary: q cur rule: rev_induct)
  case Nil
  then show ?case by (cases q rule: rev_cases) (auto simp: bind_eq_Some_conv)
next
  case (snoc f p)
  then obtain par c where p: "path_node t p = Some par" "child t par f = Some c" "cur = Some c"
    by (auto simp: bind_eq_Some_conv)
  show ?case
  proof (cases q rule: rev_cases)
    case Nil
    with snoc.prems p show ?thesis by simp
  next
    case (snoc q' g)
    with snoc.prems p(3) obtain par' where q: "path_node t q' = Some par'" "child t par' g = Some c"
      by (auto simp: bind_eq_Some_conv)
    have "valid_ref t par" "valid_ref t par'" using path_node_valid snoc.prems(1) p(1) q(1) by blast+
    then have "par = par'" "f = g"
      using tree_wfD(4) [OF snoc.prems(1)] child_Some [OF p(2)] child_Some [OF q(2)] by blast+
    with snoc p(1) q(1) snoc.IH [OF snoc.prems(1)] show ?thesis by blast
  qed
qed

lemma path_node_exists:
  assumes "tree_wf t"
  shows "valid_ref t cur \<Longrightarrow> \<exists>p. path_node t p = Some cur"
proof (cases cur)
  case None
  then show ?thesis by (intro exI [of _ "[]"]) simp
next
  case (Some c)
  assume "valid_ref t cur"
  then have "c < length (snd t)" using Some by simp
  then have "\<exists>p. path_node t p = Some (Some c)"
  proof (induction c rule: less_induct)
    case (less c)
    obtain par where par: "valid_ref t par" "c \<in> set (kids t par)"
      using tree_wf_parent [OF assms less.prems] by blast
    have "\<exists>p. path_node t p = Some par"
    proof (cases par)
      case None
      then show ?thesis by (intro exI [of _ "[]"]) simp
    next
      case (Some i)
      with par tree_wfD(2) [OF assms par(1,2)] show ?thesis by (auto intro: less.IH)
    qed
    then obtain p where "path_node t p = Some par" by blast
    then have "path_node t (p @ [fid t c]) = Some (Some c)"
      using child_of_kid [OF assms par] by simp
    then show ?case by blast
  qed
  with Some show ?thesis by blast
qed

lemma tree_wf_empty: "node_children r = [] \<Longrightarrow> tree_wf (r, [])"
  by (auto simp: tree_wf_def kids_def rooted_at_def valid_ref_def split: option.splits)

section \<open>Counting in the tree\<close>

definition path_hits :: "call_tree \<Rightarrow> nat list \<Rightarrow> nat \<Rightarrow> hit_counts" where
  "path_hits t p s =
     (case path_node t p of None \<Rightarrow> no_hits | Some cur \<Rightarrow> hits_get (node_hits (rooted_at t cur)) s)"

lemma count_node_same [simp]:
  assumes "valid_ref t cur"
  shows "kids (count_node g cur t) = kids t" "fid (count_node g cur t) = fid t"
  using assms by (auto simp: fun_eq_iff kids_def fid_def count_node_def)

lemma valid_ref_count_node [simp]: "valid_ref (count_node g cur t) = valid_ref t"
  by (simp add: count_node_def)

lemma length_count_node [simp]: "length (snd (count_node g cur t)) = length (snd t)"
  by (simp add: count_node_def)

lemma tree_wf_count_node [wf_intros]: "valid_ref t cur \<Longrightarrow> tree_wf t \<Longrightarrow> tree_wf (count_node g cur t)"
  by (simp only: tree_wf_def count_node_same valid_ref_count_node length_count_node)

lemma path_node_count_node [simp]:
  "valid_ref t cur \<Longrightarrow> path_node (count_node g cur t) = path_node t"
  by (simp add: fun_eq_iff path_node_def child_def)

lemma path_hits_count_node:
  assumes "tree_wf t" "path_node t q = Some cur"
  shows "path_hits (count_node g cur t) p s =
    (if p = q then hits_get (g (node_hits (rooted_at t cur))) s else path_hits t p s)"
proof -
  have v: "valid_ref t cur" using path_node_valid assms by blast
  then have "rooted_at (count_node g cur t) c =
      (if c = cur then (rooted_at t cur)\<lparr>node_hits := g (node_hits (rooted_at t cur))\<rparr> else rooted_at t c)" for c
    by (simp add: count_node_def)
  with v assms path_node_inj [OF assms(1)] show ?thesis
    by (auto simp: path_hits_def split: option.split)
qed

lemma path_hits_at: "path_node t q = Some cur \<Longrightarrow> hits_get (node_hits (rooted_at t cur)) s = path_hits t q s"
  by (simp add: path_hits_def)

section \<open>Find or append\<close>

lemma append_child_cases:
  assumes "get_or_append_call_tree_child t cur fn m = (t', n)"
  shows "(child t cur (function_id fn) = Some n \<and> t' = t) \<or>
    (child t cur (function_id fn) = None \<and> n = length (snd t) \<and>
     t' = (let t1 = rooted_update cur (\<lambda>r. r\<lparr>node_children := node_children r @ [n]\<rparr>) t
           in (fst t1, snd t1 @ [\<lparr>node_id = n, node_function_id = function_id fn,
                 node_hits = init_hits m, node_children = []\<rparr>])))"
proof -
  have "child t cur (function_id fn) =
      List.find (\<lambda>c. node_function_id (snd t ! c) = function_id fn) (node_children (rooted_at t cur))"
    by (simp add: child_def kids_def fid_def rooted_at_def)
  with assms show ?thesis
    by (auto simp: get_or_append_call_tree_child_def Let_def split: option.splits)
qed

text \<open>A new child: what the extended tree looks like.\<close>

lemma appended_tree:
  assumes wf: "tree_wf t" and v: "valid_ref t cur" and n: "n = length (snd t)"
    and none: "child t cur f = None"
    and t': "t' = (let t1 = rooted_update cur (\<lambda>r. r\<lparr>node_children := node_children r @ [n]\<rparr>) t
      in (fst t1, snd t1 @ [\<lparr>node_id = n, node_function_id = f, node_hits = init_hits m, node_children = []\<rparr>]))"
  shows "length (snd t') = Suc n"
    and "valid_ref t c \<Longrightarrow> kids t' c = (if c = cur then kids t cur @ [n] else kids t c)"
    and "kids t' (Some n) = []"
    and "i < n \<Longrightarrow> fid t' i = fid t i" "fid t' n = f"
    and "valid_ref t c \<Longrightarrow> node_hits (rooted_at t' c) = node_hits (rooted_at t c)"
    and "node_hits (rooted_at t' (Some n)) = init_hits m"
    and "tree_wf t'"
proof -
  let ?row = "\<lparr>node_id = n, node_function_id = f, node_hits = init_hits m, node_children = []\<rparr>"
  let ?t1 = "rooted_update cur (\<lambda>r. r\<lparr>node_children := node_children r @ [n]\<rparr>) t"
  have t'': "t' = (fst ?t1, snd ?t1 @ [?row])" by (simp add: t' Let_def)
  have len: "length (snd ?t1) = n" by (simp add: n)
  have new: "rooted_at t' (Some n) = ?row" by (simp add: rooted_at_def t'' nth_append n)
  have old: "rooted_at t' c = (if c = cur then (rooted_at t cur)\<lparr>node_children := kids t cur @ [n]\<rparr>
      else rooted_at t c)" if "valid_ref t c" for c
  proof -
    have "rooted_at t' c = rooted_at ?t1 c" unfolding t'' using that by (simp add: rooted_at_append)
    then show ?thesis using v by (simp add: kids_def)
  qed
  show len': "length (snd t') = Suc n" by (simp add: t'' n)
  show kids_old: "valid_ref t c \<Longrightarrow> kids t' c = (if c = cur then kids t cur @ [n] else kids t c)" for c
    by (simp add: kids_def old)
  show kids_new: "kids t' (Some n) = []" by (simp add: kids_def new)
  show fid_old: "i < n \<Longrightarrow> fid t' i = fid t i" for i by (simp add: fid_def old n)
  show fid_new: "fid t' n = f" by (simp add: fid_def new)
  show "valid_ref t c \<Longrightarrow> node_hits (rooted_at t' c) = node_hits (rooted_at t c)"
    by (simp add: old)
  show "node_hits (rooted_at t' (Some n)) = init_hits m" by (simp add: new)
  have valid: "valid_ref t' c \<longleftrightarrow> valid_ref t c \<or> c = Some n" for c
    by (cases c) (auto simp: len' n)
  have lt: "valid_ref t c \<Longrightarrow> x \<in> set (kids t c) \<Longrightarrow> x < n" for c x
    using tree_wfD(1) [OF wf] n by blast
  have fresh: "valid_ref t c \<Longrightarrow> c \<noteq> Some n" for c by (auto simp: n)
  have member: "x \<in> set (kids t' c) \<longleftrightarrow> valid_ref t c \<and> (x \<in> set (kids t c) \<or> c = cur \<and> x = n)"
    if "valid_ref t' c" for c x
    using that valid kids_old kids_new fresh by (cases "valid_ref t c") (auto split: if_splits)
  have "\<forall>x \<in> set (kids t cur). fid t x \<noteq> f"
    using none by (auto simp: child_def find_None_iff)
  then have "distinct (map (fid t') (kids t' c))" if "valid_ref t' c" for c
  proof (cases "valid_ref t c")
    case False
    with that valid have "c = Some n" by blast
    then show ?thesis by (simp add: kids_new)
  next
    case True
    have same: "map (fid t') (kids t c) = map (fid t) (kids t c)"
      using lt [OF True] fid_old by simp
    have dist: "distinct (map (fid t) (kids t c))" by (rule tree_wfD(3) [OF wf True])
    show ?thesis
    proof (cases "c = cur")
      case True
      then have "map (fid t') (kids t' c) = map (fid t) (kids t c) @ [f]"
        unfolding kids_old [OF \<open>valid_ref t c\<close>] using same fid_new by (simp del: map_eq_conv)
      with True dist \<open>\<forall>x \<in> set (kids t cur). fid t x \<noteq> f\<close> show ?thesis by auto
    next
      case False
      with same dist kids_old [OF \<open>valid_ref t c\<close>] show ?thesis by (simp del: map_eq_conv)
    qed
  qed
  moreover have "x < length (snd t') \<and> (\<forall>i. c = Some i \<longrightarrow> i < x)"
    if "valid_ref t' c" "x \<in> set (kids t' c)" for c x
  proof -
    have "valid_ref t c" "x \<in> set (kids t c) \<or> c = cur \<and> x = n" using that member by blast+
    then show ?thesis
      using tree_wfD(1,2) [OF wf, of c x] v len' n by (cases c) auto
  qed
  moreover have "c = c'"
    if "valid_ref t' c" "valid_ref t' c'" "x \<in> set (kids t' c)" "x \<in> set (kids t' c')" for c c' x
  proof -
    have *: "valid_ref t c" "x \<in> set (kids t c) \<or> c = cur \<and> x = n"
        "valid_ref t c'" "x \<in> set (kids t c') \<or> c' = cur \<and> x = n"
      using that member by blast+
    then show ?thesis
      using tree_wfD(4) [OF wf, of c c' x] lt [of c x] lt [of c' x] by blast
  qed
  moreover have "\<exists>c. valid_ref t' c \<and> x \<in> set (kids t' c)" if "x < length (snd t')" for x
  proof (cases "x = n")
    case True
    then show ?thesis using member [of cur] valid v by blast
  next
    case False
    then have "x < length (snd t)" using that len' n by simp
    then show ?thesis using tree_wf_parent [OF wf] member valid by blast
  qed
  ultimately show "tree_wf t'" unfolding tree_wf_def by blast
qed

text \<open>Find-or-append adds the path to the child, if it was not there, with no hits.\<close>

lemma append_child_path:
  assumes wf: "tree_wf t" and q: "path_node t q = Some cur"
    and app: "get_or_append_call_tree_child t cur fn m = (t', n)"
  shows "tree_wf t'" "path_node t' p = (if p = q @ [function_id fn] then Some (Some n) else path_node t p)"
    "path_hits t' p s = path_hits t p s" "valid_ref t' (Some n)"
proof -
  let ?f = "function_id fn"
  have v: "valid_ref t cur" using path_node_valid wf q by blast
  have "tree_wf t' \<and> (\<forall>p. path_node t' p = (if p = q @ [?f] then Some (Some n) else path_node t p)) \<and>
      (\<forall>p s. path_hits t' p s = path_hits t p s) \<and> valid_ref t' (Some n)"
  proof (cases "child t cur ?f")
    case (Some c)
    then have t': "t' = t" "n = c" using append_child_cases [OF app] by auto
    have "path_node t (q @ [?f]) = Some (Some n)" using q Some t' by simp
    moreover have "valid_ref t (Some n)"
      using child_Some [OF Some] tree_wfD(1) [OF wf v] t' by simp
    ultimately show ?thesis using wf t' by auto
  next
    case None
    then have n: "n = length (snd t)" and
      t': "t' = (let t1 = rooted_update cur (\<lambda>r. r\<lparr>node_children := node_children r @ [n]\<rparr>) t
           in (fst t1, snd t1 @ [\<lparr>node_id = n, node_function_id = ?f,
                 node_hits = init_hits m, node_children = []\<rparr>]))"
      using append_child_cases [OF app] by auto
    note a = appended_tree [OF wf v n None t']
    have old_child: "child t' c g = (if c = cur \<and> g = ?f then Some n else child t c g)"
      if "valid_ref t c" for c g
    proof -
      have "List.find (\<lambda>x. fid t' x = g) (kids t c) = child t c g"
        unfolding child_def using tree_wfD(1) [OF wf that] a(4) n
        by (intro find_cong) auto
      moreover have "List.find (\<lambda>x. fid t' x = ?f) (kids t cur) = None"
        using calculation None by (metis (no_types, lifting) a(4) child_def find_None_iff n tree_wfD(1) v wf)
      ultimately show ?thesis
        using a(2) [OF that] a(5) None by (auto simp: child_def find_append split: option.split)
    qed
    have new_child: "child t' (Some n) g = None" for g by (simp add: child_def a(3))
    have none: "path_node t (q @ [?f]) = None" using q None by simp
    have none': "path_node t ((q @ [?f]) @ [g]) = None" for g
      using none by (simp only: path_node_simps bind.bind_lzero)
    have path: "path_node t' p = (if p = q @ [?f] then Some (Some n) else path_node t p)" for p
    proof (induction p rule: rev_induct)
      case Nil
      then show ?case by simp
    next
      case (snoc g p)
      consider "p = q @ [?f]" | "p \<noteq> q @ [?f]" "path_node t p = None"
        | c where "p \<noteq> q @ [?f]" "path_node t p = Some c" by blast
      then show ?case
      proof cases
        case 1
        have "path_node t' (p @ [g]) = None"
          unfolding path_node_simps(2) snoc using 1 new_child by simp
        with 1 none' [of g] show ?thesis by simp
      next
        case 2
        then have "p \<noteq> q" using q by auto
        with 2 snoc show ?thesis by simp
      next
        case 3
        then have "valid_ref t c" "c = cur \<longleftrightarrow> p = q"
          using path_node_valid [OF wf] path_node_inj [OF wf] q by auto
        with 3 snoc show ?thesis using old_child by auto
      qed
    qed
    moreover have "path_hits t' p s = path_hits t p s" for p s
      using path [of p] none a(6,7) path_node_valid [OF wf]
      by (auto simp: path_hits_def split: option.split)
    ultimately show ?thesis using a(1,8) by simp
  qed
  then show "tree_wf t'" "path_node t' p = (if p = q @ [function_id fn] then Some (Some n) else path_node t p)"
    "path_hits t' p s = path_hits t p s" "valid_ref t' (Some n)" by blast+
qed

section \<open>Counting along a stack\<close>

text \<open>One frame: find or append the child, count it.\<close>

definition tree_visit :: "nat \<Rightarrow> nat \<Rightarrow> call_tree \<times> nat option \<Rightarrow> function_info \<Rightarrow> call_tree \<times> nat option" where
  "tree_visit m src = (\<lambda>(t, cur) fn.
     case get_or_append_call_tree_child t cur fn m of (t', n) \<Rightarrow> (count_node (count_total src) (Some n) t', Some n))"

lemma tree_visit_path:
  assumes wf: "tree_wf t" and q: "path_node t q = Some cur" and step: "tree_visit m src (t, cur) fn = (t', cur')"
  shows "tree_wf t'" "path_node t' (q @ [function_id fn]) = Some cur'"
    "total (path_hits t' p s) = total (path_hits t p s) + (if p = q @ [function_id fn] \<and> s = src then 1 else 0)"
    "self (path_hits t' p s) = self (path_hits t p s)"
proof -
  obtain t1 n where app: "get_or_append_call_tree_child t cur fn m = (t1, n)" by fastforce
  have t': "t' = count_node (count_total src) (Some n) t1" "cur' = Some n"
    using step app by (auto simp: tree_visit_def)
  note a = append_child_path [OF wf q app]
  have n: "path_node t1 (q @ [function_id fn]) = Some (Some n)"
    by (simp add: a(2) del: path_node_simps)
  show "tree_wf t'" using a(1,4) by (simp add: t' tree_wf_count_node)
  show "path_node t' (q @ [function_id fn]) = Some cur'" using n a(4) by (simp add: t')
  show "total (path_hits t' p s) = total (path_hits t p s) + (if p = q @ [function_id fn] \<and> s = src then 1 else 0)"
    "self (path_hits t' p s) = self (path_hits t p s)"
    using path_hits_count_node [OF a(1) n, of "count_total src" p s] a(3)
    by (auto simp: t'(1) path_hits_at [OF n])
qed

text \<open>A whole stack below the node of path \<open>q\<close>: every longer prefix gets one hit.\<close>

lemma tree_visits_path:
  assumes "tree_wf t" "path_node t q = Some cur" "foldl (tree_visit m src) (t, cur) fns = (t', cur')"
  shows "tree_wf t' \<and> path_node t' (q @ map function_id fns) = Some cur' \<and>
    (\<forall>p s. total (path_hits t' p s) = total (path_hits t p s) +
       (if strict_prefix q p \<and> prefix p (q @ map function_id fns) \<and> s = src then 1 else 0) \<and>
     self (path_hits t' p s) = self (path_hits t p s))"
  using assms
proof (induction fns arbitrary: t q cur)
  case Nil
  then show ?case by (auto simp: strict_prefix_def dest: prefix_order.antisym)
next
  case (Cons fn fns)
  obtain t1 cur1 where step: "tree_visit m src (t, cur) fn = (t1, cur1)" by fastforce
  note v = tree_visit_path [OF Cons.prems(1,2) step]
  let ?q = "q @ [function_id fn]" and ?all = "q @ map function_id (fn # fns)"
  have rest: "foldl (tree_visit m src) (t1, cur1) fns = (t', cur')" using Cons.prems(3) step by simp
  have all: "?all = ?q @ map function_id fns" by simp
  have split: "strict_prefix q p \<and> prefix p ?all \<longleftrightarrow> p = ?q \<or> strict_prefix ?q p \<and> prefix p ?all" for p
    by (auto simp: strict_prefix_def prefix_def append_eq_append_conv2 Cons_eq_append_conv append_eq_Cons_conv)
  note IH = Cons.IH [OF v(1,2) rest]
  have "total (path_hits t' p s) = total (path_hits t p s) +
       (if strict_prefix q p \<and> prefix p ?all \<and> s = src then 1 else 0)" for p s
  proof -
    have "total (path_hits t' p s) = total (path_hits t1 p s) +
        (if strict_prefix ?q p \<and> prefix p ?all \<and> s = src then 1 else 0)"
      using IH unfolding all by blast
    then show ?thesis
      using v(3) [of p s] split [of p] by (cases "p = ?q") (auto simp del: map_append)
  qed
  moreover have "self (path_hits t' p s) = self (path_hits t p s)" for p s
    using IH v(4) by simp
  ultimately show ?case using IH unfolding all by blast
qed

end
