(* ===== verification/AnalysisTables.thy ===== *)
theory AnalysisTables
  imports CallTree
begin

text \<open>
  The tables of an analysis. Modules, functions and files are interned: each is a vector whose rows
  carry their index as id, with a map from keys to indices. The three get-or-create functions are
  interpretations of the interning contract, and counting leaves ids and keys alone.
\<close>

section \<open>Interned vectors\<close>

definition table_wf :: "('r \<Rightarrow> nat) \<Rightarrow> ('r \<Rightarrow> 'k) \<Rightarrow> 'r list \<times> ('k \<rightharpoonup> nat) \<Rightarrow> bool" where
  "table_wf row_id row_key tbl \<longleftrightarrow>
     (\<forall>i < length (fst tbl). row_id (fst tbl ! i) = i) \<and>
     (\<forall>k i. snd tbl k = Some i \<longleftrightarrow> i < length (fst tbl) \<and> row_key (fst tbl ! i) = k)"

lemma table_wf_empty [wf_intros]: "table_wf row_id row_key ([], Map.empty)"
  by (simp add: table_wf_def)

lemma table_wf_id: "table_wf row_id row_key tbl \<Longrightarrow> i < length (fst tbl) \<Longrightarrow> row_id (fst tbl ! i) = i"
  by (simp add: table_wf_def)

lemma table_wf_append [wf_intros]:
  assumes "table_wf row_id row_key (rows, tbl)" "tbl (row_key row) = None" "row_id row = length rows"
  shows "table_wf row_id row_key (rows @ [row], tbl(row_key row \<mapsto> length rows))"
proof -
  have "i < length rows \<Longrightarrow> row_key (rows ! i) \<noteq> row_key row" for i
    using assms(1,2) by (force simp: table_wf_def)
  with assms show ?thesis by (auto simp: table_wf_def nth_append less_Suc_eq)
qed

lemma table_wf_update [wf_intros]:
  assumes "table_wf row_id row_key (rows, tbl)" "row_id row = row_id (rows ! i)" "row_key row = row_key (rows ! i)"
  shows "table_wf row_id row_key (rows[i := row], tbl)"
proof (cases "i < length rows")
  case True
  have "row_id (rows[i := row] ! j) = row_id (rows ! j)" "row_key (rows[i := row] ! j) = row_key (rows ! j)"
    if "j < length rows" for j
    using assms(2,3) by (cases "j = i"; simp add: True that)+
  with assms(1) show ?thesis by (simp add: table_wf_def cong: conj_cong)
next
  case False
  with assms(1) show ?thesis by (simp add: list_update_beyond)
qed

lemma table_wf_keys:
  assumes "table_wf row_id row_key (rows, tbl)"
  shows "distinct (map row_key rows)" "tbl k = None \<longleftrightarrow> k \<notin> set (map row_key rows)"
proof -
  have iff: "\<And>k i. tbl k = Some i \<longleftrightarrow> i < length rows \<and> row_key (rows ! i) = k"
    using assms by (simp add: table_wf_def)
  show "distinct (map row_key rows)"
    by (auto simp: distinct_conv_nth) (metis iff option.inject)
  show "tbl k = None \<longleftrightarrow> k \<notin> set (map row_key rows)"
  proof (cases "tbl k")
    case (Some i)
    then have "i < length rows" "row_key (rows ! i) = k" by (simp_all add: iff)
    then have "k \<in> set (map row_key rows)" by auto
    with Some show ?thesis by simp
  next
    case None
    then have "\<forall>i < length rows. row_key (rows ! i) \<noteq> k"
      using iff [of k] by simp
    with None show ?thesis by (auto simp: in_set_conv_nth)
  qed
qed

text \<open>What a get-or-create function does to a table: the row is the old one or a fresh one.\<close>

definition table_step ::
  "('r \<Rightarrow> nat) \<Rightarrow> ('r \<Rightarrow> 'k) \<Rightarrow> 'r list \<times> ('k \<rightharpoonup> nat) \<Rightarrow> 'k \<Rightarrow> 'r list \<times> ('k \<rightharpoonup> nat) \<Rightarrow> nat \<Rightarrow> 'r \<Rightarrow> bool" where
  "table_step row_id row_key tbl k tbl' i row \<longleftrightarrow>
     (if k \<in> set (map row_key (fst tbl)) then tbl' = tbl else fst tbl' = fst tbl @ [row]) \<and>
     table_wf row_id row_key tbl' \<and> i < length (fst tbl') \<and> row_key (fst tbl' ! i) = k"

lemma table_step_intro:
  assumes wf: "table_wf row_id row_key tbl" and row: "row_id row = length (fst tbl)" "row_key row = k"
    and step: "(tbl', i) = (case snd tbl k of Some i \<Rightarrow> (tbl, i)
      | None \<Rightarrow> ((fst tbl @ [row], (snd tbl)(k \<mapsto> length (fst tbl))), length (fst tbl)))"
  shows "table_step row_id row_key tbl k tbl' i row"
proof (cases "snd tbl k")
  case None
  then have "k \<notin> set (map row_key (fst tbl))"
    using table_wf_keys(2) [of row_id row_key "fst tbl" "snd tbl"] wf by simp
  moreover have "table_wf row_id row_key (fst tbl @ [row], (snd tbl)(k \<mapsto> length (fst tbl)))"
    using table_wf_append [of row_id row_key "fst tbl" "snd tbl" row] wf None row by simp
  ultimately show ?thesis using None step row by (auto simp: table_step_def)
next
  case (Some j)
  then have "j < length (fst tbl)" "row_key (fst tbl ! j) = k" using wf by (auto simp: table_wf_def)
  with Some step wf show ?thesis by (auto simp: table_step_def)
qed

lemma table_step_old:
  "table_step row_id row_key tbl k tbl' i row \<Longrightarrow> j < length (fst tbl) \<Longrightarrow> fst tbl' ! j = fst tbl ! j"
  by (auto simp: table_step_def nth_append split: if_splits)

lemma table_step_length:
  "table_step row_id row_key tbl k tbl' i row \<Longrightarrow> length (fst tbl) \<le> length (fst tbl')"
  by (auto simp: table_step_def split: if_splits)

lemma table_step_new:
  "table_step row_id row_key tbl k tbl' i row \<Longrightarrow> length (fst tbl) \<le> j \<Longrightarrow> j < length (fst tbl') \<Longrightarrow> fst tbl' ! j = row"
  by (auto simp: table_step_def nth_append split: if_splits)

section \<open>The three tables\<close>

definition module_table_wf :: "module_row list \<times> (string \<rightharpoonup> nat) \<Rightarrow> bool" where
  "module_table_wf = table_wf module_id module_row_name"

definition function_key :: "function_info \<Rightarrow> nat \<times> string" where
  "function_key f = (function_module_id f, function_name f)"

definition function_table_wf :: "function_info list \<times> (nat \<times> string \<rightharpoonup> nat) \<Rightarrow> bool" where
  "function_table_wf = table_wf function_id function_key"

definition file_table_wf :: "file_info list \<times> (string \<rightharpoonup> nat) \<Rightarrow> bool" where
  "file_table_wf = table_wf file_id file_path"

definition fresh_function :: "nat \<Rightarrow> nat \<Rightarrow> nat \<times> string \<Rightarrow> function_info" where
  "fresh_function max_source_id new key =
     \<lparr>function_id = new, function_module_id = fst key, function_name = snd key,
      function_hits = init_hits max_source_id, callers = Map.empty, callees = Map.empty,
      function_file_id = None, line_number = None, hits_by_line = Map.empty\<rparr>"

lemma module_step:
  assumes "module_table_wf tbl" "get_or_create_module tbl name max_source_id = (tbl', i)"
  shows "table_step module_id module_row_name tbl name tbl' i
    \<lparr>module_id = length (fst tbl), module_row_name = name, module_hits = init_hits max_source_id\<rparr>"
  using assms unfolding module_table_wf_def
  by (intro table_step_intro)
    (auto simp: get_or_create_module_def Let_def split: prod.splits option.splits)

lemma function_step:
  assumes "function_table_wf tbl" "get_or_create_function tbl mrow name max_source_id = (tbl', i)"
  shows "table_step function_id function_key tbl (module_id mrow, name) tbl' i
    (fresh_function max_source_id (length (fst tbl)) (module_id mrow, name))"
  using assms unfolding function_table_wf_def
  by (intro table_step_intro)
    (auto simp: get_or_create_function_def Let_def fresh_function_def function_key_def
      split: prod.splits option.splits)

lemma file_step:
  assumes "file_table_wf tbl" "get_or_create_file tbl path max_source_id = (tbl', i)"
  shows "table_step file_id file_path tbl path tbl' i
    \<lparr>file_id = length (fst tbl), file_path = path, file_hits = init_hits max_source_id\<rparr>"
  using assms unfolding file_table_wf_def
  by (intro table_step_intro)
    (auto simp: get_or_create_file_def Let_def split: prod.splits option.splits)

text \<open>Each satisfies the interning contract.\<close>

lemma table_step_interning:
  assumes "table_step row_id row_key tbl k tbl' i row" "row_key row = k"
  shows "map row_key (fst tbl') = (if k \<in> set (map row_key (fst tbl)) then map row_key (fst tbl)
      else map row_key (fst tbl) @ [k])"
    "i < length (map row_key (fst tbl'))" "map row_key (fst tbl') ! i = k"
  using assms by (auto simp: table_step_def split: if_splits)

interpretation module_interning: interning module_table_wf
    "\<lambda>tbl name. get_or_create_module tbl name max_source_id" "\<lambda>tbl. map module_row_name (fst tbl)"
proof (unfold_locales, goal_cases)
  case (1 s k s' i)
  then show ?case using module_step [OF 1] by (simp add: table_step_def module_table_wf_def)
next
  case (2 s k s' i)
  then show ?case using table_step_interning(1) [OF module_step [OF 2]] by simp
next
  case (3 s k s' i)
  then show ?case using table_step_interning(2,3) [OF module_step [OF 3]] by simp
next
  case (4 s)
  then show ?case
    using table_wf_keys(1) [of module_id module_row_name "fst s" "snd s"] by (simp add: module_table_wf_def)
qed

interpretation file_interning: interning file_table_wf
    "\<lambda>tbl path. get_or_create_file tbl path max_source_id" "\<lambda>tbl. map file_path (fst tbl)"
proof (unfold_locales, goal_cases)
  case (1 s k s' i)
  then show ?case using file_step [OF 1] by (simp add: table_step_def file_table_wf_def)
next
  case (2 s k s' i)
  then show ?case using table_step_interning(1) [OF file_step [OF 2]] by simp
next
  case (3 s k s' i)
  then show ?case using table_step_interning(2,3) [OF file_step [OF 3]] by simp
next
  case (4 s)
  then show ?case
    using table_wf_keys(1) [of file_id file_path "fst s" "snd s"] by (simp add: file_table_wf_def)
qed

interpretation function_interning: interning function_table_wf
    "\<lambda>tbl key. get_or_create_function tbl
       \<lparr>module_id = fst key, module_row_name = [], module_hits = []\<rparr> (snd key) max_source_id"
    "\<lambda>tbl. map function_key (fst tbl)"
proof (unfold_locales, goal_cases)
  case (1 s k s' i)
  then show ?case using function_step [OF 1] by (simp add: table_step_def function_table_wf_def)
next
  case (2 s k s' i)
  then show ?case
    using table_step_interning(1) [OF function_step [OF 2]] by (simp add: fresh_function_def function_key_def)
next
  case (3 s k s' i)
  then show ?case
    using table_step_interning(2,3) [OF function_step [OF 3]] by (simp add: fresh_function_def function_key_def)
next
  case (4 s)
  then show ?case
    using table_wf_keys(1) [of function_id function_key "fst s" "snd s"] by (simp add: function_table_wf_def)
qed

end
