(* ===== verification/AnalysisSpec.thy ===== *)
theory AnalysisSpec
  imports AnalysisTables
begin

text \<open>
  The analysis against its specification. Every sample is a list of function keys (module name and
  symbol name, outermost frame first); the theorems say that the call tree, the hits of functions
  and modules and the caller and callee edges are exactly the counts one gets from these lists.
  The proofs follow the code's loop frame by frame: \<open>stack_effect\<close> is what a piece of a stack adds.
\<close>

section \<open>Functions and edges\<close>

type_synonym rooted_functions = "function_info \<times> function_info list"

definition fn_hits :: "rooted_functions \<Rightarrow> nat option \<Rightarrow> nat \<Rightarrow> hit_counts" where
  "fn_hits F cur s = (if valid_ref F cur then hits_get (function_hits (rooted_at F cur)) s else no_hits)"

definition callee_hits :: "rooted_functions \<Rightarrow> nat option \<Rightarrow> nat \<Rightarrow> nat \<Rightarrow> hit_counts" where
  "callee_hits F cur k s =
     (if valid_ref F cur then hits_get (map_hits (callees (rooted_at F cur)) k) s else no_hits)"

definition caller_hits :: "rooted_functions \<Rightarrow> nat option \<Rightarrow> nat \<Rightarrow> nat \<Rightarrow> hit_counts" where
  "caller_hits F cur k s =
     (if valid_ref F cur then hits_get (map_hits (callers (rooted_at F cur)) k) s else no_hits)"

lemma map_hits_count [simp]:
  "map_hits (map_count g k m) k' = (if k' = k then g (map_hits m k) else map_hits m k')"
  by (simp add: map_hits_def map_count_def)

lemma map_hits_empty [simp]: "map_hits Map.empty k = []"
  by (simp add: map_hits_def)

lemma set_source_location_sel [simp]:
  "function_id (set_source_location x fr r) = function_id r"
  "function_key (set_source_location x fr r) = function_key r"
  "function_hits (set_source_location x fr r) = function_hits r"
  "callers (set_source_location x fr r) = callers r"
  "callees (set_source_location x fr r) = callees r"
  by (simp_all add: set_source_location_def function_key_def)

lemma count_line_sel [simp]:
  "function_id (count_line g l r) = function_id r"
  "function_key (count_line g l r) = function_key r"
  "function_hits (count_line g l r) = function_hits r"
  "callers (count_line g l r) = callers r"
  "callees (count_line g l r) = callees r"
  by (simp_all add: count_line_def function_key_def)

lemma function_key_update [simp]:
  "function_key (r\<lparr>function_hits := h\<rparr>) = function_key r"
  "function_key (r\<lparr>callers := m\<rparr>) = function_key r"
  "function_key (r\<lparr>callees := m\<rparr>) = function_key r"
  by (simp_all add: function_key_def)

lemma count_location_sel [simp]:
  assumes "f < length (snd F)"
  shows "valid_ref (count_location g xs file fr f F) = valid_ref F"
    "length (snd (count_location g xs file fr f F)) = length (snd F)"
    "function_id (rooted_at (count_location g xs file fr f F) c) = function_id (rooted_at F c)"
    "function_key (rooted_at (count_location g xs file fr f F) c) = function_key (rooted_at F c)"
    "fn_hits (count_location g xs file fr f F) = fn_hits F"
    "callee_hits (count_location g xs file fr f F) = callee_hits F"
    "caller_hits (count_location g xs file fr f F) = caller_hits F"
  using assms
  by (auto simp: count_location_def fn_hits_def callee_hits_def caller_hits_def fun_eq_iff
      split: option.split)

lemma count_line_fns [simp]:
  assumes "f < length (snd F)"
  shows "function_id (rooted_at (rooted_update (Some f) (count_line g l) F) c) = function_id (rooted_at F c)"
    "function_key (rooted_at (rooted_update (Some f) (count_line g l) F) c) = function_key (rooted_at F c)"
    "fn_hits (rooted_update (Some f) (count_line g l) F) = fn_hits F"
    "callee_hits (rooted_update (Some f) (count_line g l) F) = callee_hits F"
    "caller_hits (rooted_update (Some f) (count_line g l) F) = caller_hits F"
  using assms by (auto simp: fn_hits_def callee_hits_def caller_hits_def fun_eq_iff)

lemma count_function_sel [simp]:
  assumes "valid_ref F cur"
  shows "valid_ref (count_function g cur F) = valid_ref F"
    "length (snd (count_function g cur F)) = length (snd F)"
    "function_id (rooted_at (count_function g cur F) c) = function_id (rooted_at F c)"
    "function_key (rooted_at (count_function g cur F) c) = function_key (rooted_at F c)"
    "callee_hits (count_function g cur F) = callee_hits F"
    "caller_hits (count_function g cur F) = caller_hits F"
    "fn_hits (count_function g cur F) c s =
       (if c = cur then hits_get (g (function_hits (rooted_at F cur))) s else fn_hits F c s)"
  using assms
  by (auto simp: count_function_def fn_hits_def callee_hits_def caller_hits_def fun_eq_iff function_key_def)

lemma count_edge_sel [simp]:
  assumes "valid_ref F pf" "f < length (snd F)"
  shows "valid_ref (count_edge src pf f F) = valid_ref F"
    "length (snd (count_edge src pf f F)) = length (snd F)"
    "function_id (rooted_at (count_edge src pf f F) c) = function_id (rooted_at F c)"
    "function_key (rooted_at (count_edge src pf f F) c) = function_key (rooted_at F c)"
    "fn_hits (count_edge src pf f F) = fn_hits F"
    "total (callee_hits (count_edge src pf f F) c k s) = total (callee_hits F c k s) +
       (if c = pf \<and> k = function_id (rooted_at F (Some f)) \<and> s = src then 1 else 0)"
    "total (caller_hits (count_edge src pf f F) c k s) = total (caller_hits F c k s) +
       (if c = Some f \<and> k = function_id (rooted_at F pf) \<and> s = src then 1 else 0)"
  using assms
  by (auto simp: count_edge_def Let_def fn_hits_def callee_hits_def caller_hits_def fun_eq_iff function_key_def)

lemma table_wf_rooted_update:
  assumes "table_wf row_id row_key (snd F, tbl)" "\<And>r. row_id (g r) = row_id r" "\<And>r. row_key (g r) = row_key r"
  shows "table_wf row_id row_key (snd (rooted_update cur g F), tbl)"
  using assms by (auto simp: rooted_update_def split: option.split intro: table_wf_update)

lemma function_table_wf_counts [wf_intros]:
  assumes "function_table_wf (snd F, tbl)"
  shows "function_table_wf (snd (count_function g cur F), tbl)"
    "function_table_wf (snd (count_edge src pf f F), tbl)"
    "function_table_wf (snd (count_location g xs file fr f F), tbl)"
    "function_table_wf (snd (rooted_update cur (count_line g l) F), tbl)"
  using assms
  by (auto simp: function_table_wf_def count_function_def count_edge_def count_location_def Let_def
      split: option.split intro!: table_wf_rooted_update)

text \<open>The functions part of one frame.\<close>

definition frame_functions ::
  "nat \<Rightarrow> file_info list \<Rightarrow> nat option \<Rightarrow> stack_frame \<Rightarrow> nat option \<Rightarrow> nat \<Rightarrow> rooted_functions \<Rightarrow> rooted_functions" where
  "frame_functions src xs file fr pf f F =
     count_location (count_total src) xs file fr f
       (count_edge src pf f (count_function (count_total src) (Some f) F))"

lemma frame_functions_sel:
  assumes "valid_ref F pf" "f < length (snd F)"
  shows "valid_ref (frame_functions src xs file fr pf f F) = valid_ref F"
    "length (snd (frame_functions src xs file fr pf f F)) = length (snd F)"
    "function_id (rooted_at (frame_functions src xs file fr pf f F) c) = function_id (rooted_at F c)"
    "function_key (rooted_at (frame_functions src xs file fr pf f F) c) = function_key (rooted_at F c)"
    "total (fn_hits (frame_functions src xs file fr pf f F) c s) =
       total (fn_hits F c s) + (if c = Some f \<and> s = src then 1 else 0)"
    "self (fn_hits (frame_functions src xs file fr pf f F) c s) = self (fn_hits F c s)"
    "total (callee_hits (frame_functions src xs file fr pf f F) c k s) = total (callee_hits F c k s) +
       (if c = pf \<and> k = function_id (rooted_at F (Some f)) \<and> s = src then 1 else 0)"
    "total (caller_hits (frame_functions src xs file fr pf f F) c k s) = total (caller_hits F c k s) +
       (if c = Some f \<and> k = function_id (rooted_at F pf) \<and> s = src then 1 else 0)"
  using assms by (simp_all add: frame_functions_def) (auto simp: fn_hits_def)

lemma function_table_wf_frame [wf_intros]:
  "function_table_wf (snd F, tbl) \<Longrightarrow> function_table_wf (snd (frame_functions src xs file fr pf f F), tbl)"
  unfolding frame_functions_def by (intro function_table_wf_counts)

text \<open>A freshly created function has no hits and no edges.\<close>

lemma created_function_hits:
  assumes "table_step function_id function_key tbl k tbl' i (fresh_function m (length (fst tbl)) key)"
  shows "fn_hits (r, fst tbl') = fn_hits (r, fst tbl)"
    "callee_hits (r, fst tbl') = callee_hits (r, fst tbl)"
    "caller_hits (r, fst tbl') = caller_hits (r, fst tbl)"
proof -
  have old: "j < length (fst tbl) \<Longrightarrow> fst tbl' ! j = fst tbl ! j" for j
    using table_step_old [OF assms] .
  have new: "length (fst tbl) \<le> j \<Longrightarrow> j < length (fst tbl') \<Longrightarrow>
      fst tbl' ! j = fresh_function m (length (fst tbl)) key" for j
    using table_step_new [OF assms] .
  have len: "length (fst tbl) \<le> length (fst tbl')" by (rule table_step_length [OF assms])
  have row: "rooted_at (r, fst tbl') c = (if valid_ref (r, fst tbl) c then rooted_at (r, fst tbl) c
      else fresh_function m (length (fst tbl)) key)" if "valid_ref (r, fst tbl') c" for c
    using that old new by (cases c) (auto simp: rooted_at_def)
  have valid: "valid_ref (r, fst tbl) c \<Longrightarrow> valid_ref (r, fst tbl') c" for c
    using len by (cases c) auto
  show "fn_hits (r, fst tbl') = fn_hits (r, fst tbl)"
    "callee_hits (r, fst tbl') = callee_hits (r, fst tbl)"
    "caller_hits (r, fst tbl') = caller_hits (r, fst tbl)"
    using row valid
    by (auto simp: fun_eq_iff fn_hits_def callee_hits_def caller_hits_def fresh_function_def)
qed

section \<open>Modules\<close>

definition mod_hits :: "module_row list \<Rightarrow> nat \<Rightarrow> nat \<Rightarrow> hit_counts" where
  "mod_hits ms m s = (if m < length ms then hits_get (module_hits (ms ! m)) s else no_hits)"

lemma count_module_sel [simp]:
  assumes "m < length ms"
  shows "length (count_module g m ms) = length ms"
    "module_id (count_module g m ms ! i) = module_id (ms ! i)"
    "module_row_name (count_module g m ms ! i) = module_row_name (ms ! i)"
    "mod_hits (count_module g m ms) i s =
       (if i = m then hits_get (g (module_hits (ms ! m))) s else mod_hits ms i s)"
  using assms by (cases "i = m"; simp add: count_module_def mod_hits_def)+

lemma module_table_wf_count [wf_intros]:
  "module_table_wf (ms, tbl) \<Longrightarrow> module_table_wf (count_module g m ms, tbl)"
  by (simp add: module_table_wf_def count_module_def table_wf_update)

lemma file_table_wf_count [wf_intros]:
  "file_table_wf (xs, tbl) \<Longrightarrow> file_table_wf (count_file g file xs, tbl)"
  by (auto simp: file_table_wf_def count_file_def split: option.split intro: table_wf_update)

lemma created_module_hits:
  assumes "table_step module_id module_row_name tbl k tbl' i
    \<lparr>module_id = new, module_row_name = k, module_hits = init_hits m\<rparr>"
  shows "mod_hits (fst tbl') = mod_hits (fst tbl)"
  using table_step_old [OF assms] table_step_new [OF assms] table_step_length [OF assms]
  by (auto simp: fun_eq_iff mod_hits_def not_less)

section \<open>The state\<close>

definition tree_of :: "'a stacks_analysis_scheme \<Rightarrow> call_tree" where
  "tree_of st = (call_tree_root st, call_tree_nodes st)"

definition fns_of :: "'a stacks_analysis_scheme \<Rightarrow> rooted_functions" where
  "fns_of st = (function_root st, all_functions st)"

text \<open>Module and key (module name, symbol name) of a function.\<close>

definition fmod :: "'a stacks_analysis_scheme \<Rightarrow> nat \<Rightarrow> nat" where
  "fmod st f = function_module_id (all_functions st ! f)"

definition fkey :: "'a stacks_analysis_scheme \<Rightarrow> nat \<Rightarrow> string \<times> string" where
  "fkey st f = (module_row_name (all_modules st ! fmod st f), function_name (all_functions st ! f))"

definition frame_key :: "stack_frame \<Rightarrow> string \<times> string" where
  "frame_key fr = (frame_module_name fr, symbol_name fr)"

text \<open>The invariant of the analysis: the three tables, the tree, and the references between them.\<close>

definition analysis_wf :: "analysis_state \<Rightarrow> bool" where
  "analysis_wf st \<longleftrightarrow>
     module_table_wf (all_modules st, modules_by_name st) \<and>
     function_table_wf (all_functions st, functions_by_name st) \<and>
     file_table_wf (all_files st, files_by_path st) \<and>
     (\<forall>f < length (all_functions st). fmod st f < length (all_modules st)) \<and>
     tree_wf (tree_of st) \<and>
     (\<forall>i < length (call_tree_nodes st). node_id (call_tree_nodes st ! i) = i \<and>
        node_function_id (call_tree_nodes st ! i) < length (all_functions st)) \<and>
     function_id (function_root st) = root_function_id \<and>
     node_id (call_tree_root st) = root_call_tree_node_id"

text \<open>Later states keep the functions of earlier ones.\<close>

definition grows :: "'a stacks_analysis_scheme \<Rightarrow> 'a stacks_analysis_scheme \<Rightarrow> bool" where
  "grows st st' \<longleftrightarrow> length (all_functions st) \<le> length (all_functions st') \<and>
     (\<forall>f < length (all_functions st). fkey st' f = fkey st f \<and> fmod st' f = fmod st f)"

lemma grows_refl [simp]: "grows st st"
  by (simp add: grows_def)

lemma grows_trans: "grows st st1 \<Longrightarrow> grows st1 st2 \<Longrightarrow> grows st st2"
  by (simp add: grows_def)

lemma fkey_inj:
  assumes "analysis_wf st" "f < length (all_functions st)" "g < length (all_functions st)" "fkey st f = fkey st g"
  shows "f = g"
proof -
  have "distinct (map module_row_name (all_modules st))"
    using assms(1) table_wf_keys(1) by (auto simp: analysis_wf_def module_table_wf_def)
  moreover have "fmod st f < length (all_modules st)" "fmod st g < length (all_modules st)"
    using assms by (auto simp: analysis_wf_def)
  ultimately have "fmod st f = fmod st g"
    using assms(4) by (auto simp: fkey_def distinct_conv_nth)
  then have "function_key (all_functions st ! f) = function_key (all_functions st ! g)"
    using assms(4) by (simp add: function_key_def fkey_def fmod_def)
  moreover have "distinct (map function_key (all_functions st))"
    using assms(1) table_wf_keys(1) by (auto simp: analysis_wf_def function_table_wf_def)
  ultimately show ?thesis using assms(2,3) by (auto simp: distinct_conv_nth)
qed

definition fnid :: "nat option \<Rightarrow> nat" where
  "fnid pf = (case pf of None \<Rightarrow> root_function_id | Some i \<Rightarrow> i)"

lemma fnid_simps [simp]: "fnid (Some i) = i" "fnid None = root_function_id"
  by (simp_all add: fnid_def)

lemma function_id_fns:
  "analysis_wf st \<Longrightarrow> valid_ref (fns_of st) cur \<Longrightarrow> function_id (rooted_at (fns_of st) cur) = fnid cur"
  by (cases cur) (auto simp: analysis_wf_def fns_of_def rooted_at_def function_table_wf_def
      dest: table_wf_id)

text \<open>What a run of frames adds to functions and modules: \<open>ids\<close> are their functions, \<open>pf\<close> the
  function that called the first.\<close>

definition stack_effect ::
  "nat \<Rightarrow> nat option \<Rightarrow> nat list \<Rightarrow> analysis_state \<Rightarrow> analysis_state \<Rightarrow> bool" where
  "stack_effect src pf ids st st' \<longleftrightarrow>
     (\<forall>c s. total (fn_hits (fns_of st') c s) = total (fn_hits (fns_of st) c s) +
        (if s = src then count_list (map Some ids) c else 0)) \<and>
     (\<forall>c s. self (fn_hits (fns_of st') c s) = self (fn_hits (fns_of st) c s)) \<and>
     (\<forall>c k s. total (callee_hits (fns_of st') c k s) = total (callee_hits (fns_of st) c k s) +
        (if s = src then count_list (zip (pf # map Some ids) ids) (c, k) else 0)) \<and>
     (\<forall>f x s. total (caller_hits (fns_of st') (Some f) x s) = total (caller_hits (fns_of st) (Some f) x s) +
        (if s = src then count_list (zip (fnid pf # ids) ids) (x, f) else 0)) \<and>
     (\<forall>m s. total (mod_hits (all_modules st') m s) = total (mod_hits (all_modules st) m s) +
        (if s = src then count_list (map (fmod st') ids) m else 0)) \<and>
     (\<forall>m s. self (mod_hits (all_modules st') m s) = self (mod_hits (all_modules st) m s))"

lemma stack_effect_Nil: "stack_effect src pf [] st st"
  by (simp add: stack_effect_def)

lemma stack_effect_Cons:
  assumes "stack_effect src pf [f] st st1" "stack_effect src (Some f) ids st1 st2"
    "grows st1 st2" "f < length (all_functions st1)"
  shows "stack_effect src pf (f # ids) st st2"
proof -
  have "fmod st2 f = fmod st1 f" using assms(3,4) by (simp add: grows_def)
  with assms(1,2) show ?thesis unfolding stack_effect_def by simp
qed

section \<open>One frame\<close>

text \<open>The loop state refers to the same frame in all tables.\<close>

definition previous_ok :: "analysis_state \<Rightarrow> previous \<Rightarrow> bool" where
  "previous_ok st prev \<longleftrightarrow>
     valid_ref (fns_of st) (previous_function_id prev) \<and>
     previous_module_id prev = map_option (fmod st) (previous_function_id prev) \<and>
     (\<forall>x. previous_file_id prev = Some x \<longrightarrow> x < length (all_files st) \<and> previous_function_id prev \<noteq> None)"

lemma append_child_nodes:
  assumes "get_or_append_call_tree_child t cur fn m = (t', n)" "tree_wf t" "valid_ref t cur"
    and "\<forall>i < length (snd t). node_id (snd t ! i) = i \<and> node_function_id (snd t ! i) < b"
    and "function_id fn < b'" "b \<le> b'"
  shows "\<forall>i < length (snd t'). node_id (snd t' ! i) = i \<and> node_function_id (snd t' ! i) < b'"
    "node_id (fst t') = node_id (fst t)" "length (snd t) \<le> length (snd t')"
proof -
  have "(\<forall>i < length (snd t'). node_id (snd t' ! i) = i \<and> node_function_id (snd t' ! i) < b') \<and>
      node_id (fst t') = node_id (fst t) \<and> length (snd t) \<le> length (snd t')"
    using append_child_cases [OF assms(1)]
  proof (elim disjE conjE)
    assume "t' = t"
    with assms show ?thesis by (auto intro: order_less_le_trans)
  next
    let ?t1 = "rooted_update cur (\<lambda>r. r\<lparr>node_children := node_children r @ [n]\<rparr>) t"
    assume n: "n = length (snd t)" and t': "t' = (let t1 = ?t1
           in (fst t1, snd t1 @ [\<lparr>node_id = n, node_function_id = function_id fn,
                 node_hits = init_hits m, node_children = []\<rparr>]))"
    have "node_id (snd ?t1 ! i) = node_id (snd t ! i) \<and> node_function_id (snd ?t1 ! i) = node_function_id (snd t ! i)"
      if "i < length (snd t)" for i
      using that assms(3) by (cases cur) (auto simp: rooted_update_def nth_list_update)
    moreover have "node_id (fst ?t1) = node_id (fst t)"
      by (simp add: rooted_update_def split: option.split)
    ultimately show ?thesis
      using assms(4-6) n unfolding t' Let_def
      by (auto simp: nth_append less_Suc_eq intro: order_less_le_trans)
  qed
  then show "\<forall>i < length (snd t'). node_id (snd t' ! i) = i \<and> node_function_id (snd t' ! i) < b'"
    "node_id (fst t') = node_id (fst t)" "length (snd t) \<le> length (snd t')" by blast+
qed

lemma count_node_ids:
  assumes "n < length (snd t)"
  shows "node_id (snd (count_node g (Some n) t) ! i) = node_id (snd t ! i)"
    "node_function_id (snd (count_node g (Some n) t) ! i) = node_function_id (snd t ! i)"
    "node_id (fst (count_node g (Some n) t)) = node_id (fst t)"
  using assms by (auto simp: count_node_def rooted_update_def nth_list_update)

lemma frame_file_step:
  assumes "file_table_wf xs" "frame_file xs fr m = (xs', file)"
  shows "file_table_wf xs'" "length (fst xs) \<le> length (fst xs')"
    "file = Some i \<Longrightarrow> i < length (fst xs')"
proof -
  have "file_table_wf xs' \<and> length (fst xs) \<le> length (fst xs') \<and> (\<forall>i. file = Some i \<longrightarrow> i < length (fst xs'))"
  proof (cases "frame_file_path fr = []")
    case True
    with assms show ?thesis by (simp add: frame_file_def)
  next
    case False
    obtain xs1 j where c: "get_or_create_file xs (frame_file_path fr) m = (xs1, j)" by fastforce
    have "xs' = xs1" "file = Some j" using False assms(2) c by (auto simp: frame_file_def)
    with file_step [OF assms(1) c] table_step_length [OF file_step [OF assms(1) c]] show ?thesis
      by (simp add: table_step_def file_table_wf_def)
  qed
  then show "file_table_wf xs'" "length (fst xs) \<le> length (fst xs')"
    "file = Some i \<Longrightarrow> i < length (fst xs')" by blast+
qed

lemma length_count_file [simp]: "length (count_file g file xs) = length xs"
  by (simp add: count_file_def split: option.split)

text \<open>The module, function and file of a frame, found or created.\<close>

definition frame_tables ::
  "analysis_state \<Rightarrow> stack_frame \<Rightarrow> module_row list \<Rightarrow> nat \<Rightarrow> function_info list \<Rightarrow> nat \<Rightarrow> bool" where
  "frame_tables st fr ms mi fs f \<longleftrightarrow>
     length (all_modules st) \<le> length ms \<and> (\<forall>i < length (all_modules st). ms ! i = all_modules st ! i) \<and>
     mi < length ms \<and> module_id (ms ! mi) = mi \<and> module_row_name (ms ! mi) = frame_module_name fr \<and>
     mod_hits ms = mod_hits (all_modules st) \<and>
     length (all_functions st) \<le> length fs \<and> (\<forall>i < length (all_functions st). fs ! i = all_functions st ! i) \<and>
     (\<forall>i < length fs. length (all_functions st) \<le> i \<longrightarrow> function_module_id (fs ! i) = mi) \<and>
     f < length fs \<and> function_id (fs ! f) = f \<and> function_key (fs ! f) = (mi, symbol_name fr) \<and>
     fn_hits (function_root st, fs) = fn_hits (fns_of st) \<and>
     callee_hits (function_root st, fs) = callee_hits (fns_of st) \<and>
     caller_hits (function_root st, fs) = caller_hits (fns_of st)"

lemma frame_tables_step:
  assumes wf: "analysis_wf st"
    and c1: "get_or_create_module (all_modules st, modules_by_name st) (frame_module_name fr) m = ((ms, ms_map), mi)"
    and c2: "get_or_create_function (all_functions st, functions_by_name st) (ms ! mi) (symbol_name fr) m = ((fs, fs_map), f)"
  shows "frame_tables st fr ms mi fs f" "module_table_wf (ms, ms_map)" "function_table_wf (fs, fs_map)"
proof -
  note w = wf [unfolded analysis_wf_def]
  have mstep: "table_step module_id module_row_name (all_modules st, modules_by_name st) (frame_module_name fr)
      (ms, ms_map) mi \<lparr>module_id = length (all_modules st), module_row_name = frame_module_name fr,
        module_hits = init_hits m\<rparr>" using module_step [OF _ c1] w by simp
  show mwf: "module_table_wf (ms, ms_map)" using mstep by (simp add: table_step_def module_table_wf_def)
  have mi: "mi < length ms" "module_row_name (ms ! mi) = frame_module_name fr"
    using mstep by (auto simp: table_step_def)
  have mid: "module_id (ms ! mi) = mi" using mwf mi(1) by (auto simp: module_table_wf_def dest: table_wf_id)
  have fstep: "table_step function_id function_key (all_functions st, functions_by_name st) (mi, symbol_name fr)
      (fs, fs_map) f (fresh_function m (length (all_functions st)) (mi, symbol_name fr))"
    using function_step [OF _ c2] w mid by simp
  show fwf: "function_table_wf (fs, fs_map)" using fstep by (simp add: table_step_def function_table_wf_def)
  have f: "f < length fs" "function_key (fs ! f) = (mi, symbol_name fr)"
    using fstep by (auto simp: table_step_def)
  have "function_id (fs ! f) = f" using fwf f(1) by (auto simp: function_table_wf_def dest: table_wf_id)
  moreover have "fn_hits (function_root st, fs) = fn_hits (fns_of st)"
      "callee_hits (function_root st, fs) = callee_hits (fns_of st)"
      "caller_hits (function_root st, fs) = caller_hits (fns_of st)"
    using created_function_hits [where tbl = "(all_functions st, functions_by_name st)"
        and tbl' = "(fs, fs_map)"] fstep
    by (simp_all add: fns_of_def)
  moreover have "i < length fs \<Longrightarrow> length (all_functions st) \<le> i \<Longrightarrow> function_module_id (fs ! i) = mi" for i
    using table_step_new [OF fstep, of i] by (simp add: fresh_function_def)
  moreover have "mod_hits ms = mod_hits (all_modules st)" using created_module_hits [OF mstep] by simp
  ultimately show "frame_tables st fr ms mi fs f"
    using mi mid f table_step_old [OF mstep] table_step_length [OF mstep]
      table_step_old [OF fstep] table_step_length [OF fstep]
    by (simp add: frame_tables_def)
qed

text \<open>Counting in these rows leaves keys alone, so the new state grows the old.\<close>

lemma frame_tables_grow:
  assumes wf: "analysis_wf st" and ft: "frame_tables st fr ms mi fs f"
    and len: "length (all_functions st') = length fs" "length (all_modules st') = length ms"
    and keys: "\<And>i. function_key (all_functions st' ! i) = function_key (fs ! i)"
      "\<And>i. module_row_name (all_modules st' ! i) = module_row_name (ms ! i)"
  shows "grows st st'" "fkey st' f = frame_key fr" "fmod st' f = mi"
    "i < length fs \<Longrightarrow> fmod st' i < length ms"
proof -
  have key: "fmod st' i = fst (function_key (fs ! i))" "fkey st' i =
      (module_row_name (ms ! fst (function_key (fs ! i))), snd (function_key (fs ! i)))" for i
    using keys(1) [of i] keys(2) by (auto simp: fmod_def fkey_def function_key_def)
  have "fmod st' i = fmod st i" "fkey st' i = fkey st i" if "i < length (all_functions st)" for i
    using that wf ft
    by (auto simp: key function_key_def frame_tables_def analysis_wf_def) (auto simp: fkey_def fmod_def)
  then show grow: "grows st st'" using ft len by (simp add: grows_def frame_tables_def)
  show "fkey st' f = frame_key fr" "fmod st' f = mi"
    using ft by (simp_all add: key frame_tables_def frame_key_def)
  show "fmod st' i < length ms" if "i < length fs"
  proof (cases "i < length (all_functions st)")
    case True
    with grow wf ft show ?thesis
      by (auto simp: grows_def analysis_wf_def frame_tables_def intro: order_less_le_trans)
  next
    case False
    with that ft show ?thesis by (simp add: key function_key_def frame_tables_def)
  qed
qed

lemma module_counted:
  assumes "mod_hits ms = mod_hits ms0" "mi < length ms"
  shows "mod_hits (count_module g mi ms) i s =
    (if i = mi then hits_get (g (module_hits (ms ! mi))) s else mod_hits ms0 i s)"
    "hits_get (module_hits (ms ! mi)) s = mod_hits ms0 mi s"
proof -
  show "mod_hits (count_module g mi ms) i s =
    (if i = mi then hits_get (g (module_hits (ms ! mi))) s else mod_hits ms0 i s)"
    using assms by simp
  have "hits_get (module_hits (ms ! mi)) s = mod_hits ms mi s" using assms(2) by (simp add: mod_hits_def)
  then show "hits_get (module_hits (ms ! mi)) s = mod_hits ms0 mi s" by (simp add: assms(1))
qed

lemma tree_nodes_step:
  assumes wf: "analysis_wf st" and q: "path_node (tree_of st) q = Some cur"
    and app: "get_or_append_call_tree_child (tree_of st) cur fn m = (t, n)"
    and b: "length (all_functions st) \<le> b" "function_id fn < b"
  shows "tree_wf (count_node g (Some n) t)" "n < length (snd t)"
    "\<forall>i < length (snd t). node_id (snd (count_node g (Some n) t) ! i) = i \<and>
       node_function_id (snd (count_node g (Some n) t) ! i) < b"
    "node_id (fst (count_node g (Some n) t)) = node_id (call_tree_root st)"
proof -
  have twf: "tree_wf (tree_of st)" using wf by (simp add: analysis_wf_def)
  note a = append_child_path [OF twf q app]
  show "tree_wf (count_node g (Some n) t)" using a(4,1) by (rule tree_wf_count_node)
  show n: "n < length (snd t)" using a(4) by simp
  have "\<forall>i < length (snd (tree_of st)). node_id (snd (tree_of st) ! i) = i \<and>
      node_function_id (snd (tree_of st) ! i) < length (all_functions st)"
    using wf by (simp add: analysis_wf_def tree_of_def)
  note nodes = append_child_nodes [OF app twf path_node_valid [OF twf q] this b(2,1)]
  show "\<forall>i < length (snd t). node_id (snd (count_node g (Some n) t) ! i) = i \<and>
       node_function_id (snd (count_node g (Some n) t) ! i) < b"
    "node_id (fst (count_node g (Some n) t)) = node_id (call_tree_root st)"
    using nodes n by (simp_all add: count_node_ids tree_of_def)
qed

lemma visit_frame_step:
  assumes wf: "analysis_wf st" and prev: "previous_ok st prev"
    and q: "path_node (tree_of st) q = Some (previous_node_id prev)"
    and step: "visit_frame m src (st, prev) fr = (st', prev')"
  shows "\<exists>f fn. f < length (all_functions st') \<and> fkey st' f = frame_key fr \<and> function_id fn = f \<and>
    grows st st' \<and> analysis_wf st' \<and> previous_ok st' prev' \<and> previous_function_id prev' = Some f \<and>
    tree_visit m src (tree_of st, previous_node_id prev) fn = (tree_of st', previous_node_id prev') \<and>
    stack_effect src (previous_function_id prev) [f] st st'"
proof -
  obtain ms ms_map mi where c1: "get_or_create_module (all_modules st, modules_by_name st)
      (frame_module_name fr) m = ((ms, ms_map), mi)" by (metis prod.exhaust)
  obtain fs fs_map f where c2: "get_or_create_function (all_functions st, functions_by_name st)
      (ms ! mi) (symbol_name fr) m = ((fs, fs_map), f)" by (metis prod.exhaust)
  obtain t n where c3: "get_or_append_call_tree_child (tree_of st) (previous_node_id prev) (fs ! f) m = (t, n)"
    by (metis prod.exhaust)
  obtain xs xs_map xf where c4: "frame_file (all_files st, files_by_path st) fr m = ((xs, xs_map), xf)"
    by (metis prod.exhaust)
  let ?pf = "previous_function_id prev" and ?old = "(function_root st, fs)"
  let ?ms = "count_module (count_total src) mi ms" and ?xs = "count_file (count_total src) xf xs"
  let ?F = "frame_functions src ?xs xf fr ?pf f ?old" and ?t = "count_node (count_total src) (Some n) t"
  have st': "st' = st\<lparr>all_modules := ?ms, modules_by_name := ms_map,
               all_functions := snd ?F, function_root := fst ?F, functions_by_name := fs_map,
               call_tree_root := fst ?t, call_tree_nodes := snd ?t,
               all_files := ?xs, files_by_path := xs_map\<rparr>"
    and prev': "prev' = \<lparr>previous_node_id = Some (node_id (snd ?t ! n)),
             previous_module_id = Some (module_id (?ms ! mi)),
             previous_function_id = Some (function_id (snd ?F ! f)),
             previous_file_id = map_option (\<lambda>i. file_id (?xs ! i)) xf,
             previous_line_number = Some (instruction_line_number fr)\<rparr>"
    using step c3 by (auto simp: visit_frame_def c1 c2 c4 Let_def frame_functions_def tree_of_def)
  note tables = frame_tables_step [OF wf c1 c2]
  note ft = tables(1) [unfolded frame_tables_def]
  have pf: "valid_ref ?old ?pf"
    using prev ft by (cases ?pf) (auto simp: previous_ok_def fns_of_def)
  have pfid: "function_id (rooted_at ?old ?pf) = fnid ?pf"
    using wf tables(3) pf
    by (cases ?pf) (auto simp: analysis_wf_def rooted_at_def function_table_wf_def dest: table_wf_id)
  have fid: "function_id (rooted_at ?old (Some f)) = f" "f < length (snd ?old)"
    using ft by (auto simp: rooted_at_def)
  note F = frame_functions_sel [OF pf fid(2)]
  have row: "function_id (snd ?F ! i) = function_id (fs ! i)" "function_key (snd ?F ! i) = function_key (fs ! i)" for i
    using F(3) [of src ?xs xf fr "Some i"] F(4) [of src ?xs xf fr "Some i"] by (simp_all add: rooted_at_def)
  have len: "length (all_functions st') = length fs" "length (all_modules st') = length ms"
    using ft F(2) by (simp_all add: st')
  have keys: "function_key (all_functions st' ! i) = function_key (fs ! i)"
      "module_row_name (all_modules st' ! i) = module_row_name (ms ! i)" for i
    using ft by (simp_all add: st' row)
  note grow = frame_tables_grow [OF wf tables(1) len keys]
  have "function_id (fs ! f) < length fs" using ft by simp
  note nodes = tree_nodes_step [OF wf q c3 _ this]
  have visit: "tree_visit m src (tree_of st, previous_node_id prev) (fs ! f) = (?t, Some n)"
    by (simp add: tree_visit_def c3)
  have xwf: "file_table_wf (xs, xs_map)" "\<And>i. xf = Some i \<Longrightarrow> i < length xs"
    using frame_file_step [OF _ c4] wf by (auto simp: analysis_wf_def)
  have xid: "xf = Some i \<Longrightarrow> file_id (?xs ! i) = i" for i
    using file_table_wf_count [OF xwf(1), of "count_total src" xf] xwf(2)
    by (auto simp: file_table_wf_def dest: table_wf_id)
  have sel: "all_modules st' = ?ms" "modules_by_name st' = ms_map" "all_functions st' = snd ?F"
      "functions_by_name st' = fs_map" "function_root st' = fst ?F" "tree_of st' = ?t"
      "call_tree_nodes st' = snd ?t" "call_tree_root st' = fst ?t" "all_files st' = ?xs"
      "files_by_path st' = xs_map"
    by (simp_all add: st' tree_of_def)
  have le: "length (all_functions st) \<le> length fs" using ft by blast
  have "analysis_wf st'"
    unfolding analysis_wf_def
  proof (intro conjI)
    show "module_table_wf (all_modules st', modules_by_name st')"
      unfolding sel by (rule module_table_wf_count [OF tables(2)])
    show "function_table_wf (all_functions st', functions_by_name st')"
      unfolding sel by (rule function_table_wf_frame) (simp add: tables(3))
    show "file_table_wf (all_files st', files_by_path st')"
      unfolding sel by (rule file_table_wf_count [OF xwf(1)])
    show "\<forall>i < length (all_functions st'). fmod st' i < length (all_modules st')"
      unfolding len using grow(4) by blast
    show "tree_wf (tree_of st')" unfolding sel by (rule nodes [OF le])
    show "\<forall>i < length (call_tree_nodes st'). node_id (call_tree_nodes st' ! i) = i \<and>
        node_function_id (call_tree_nodes st' ! i) < length (all_functions st')"
      unfolding len sel(7) length_count_node by (rule nodes [OF le])
    show "function_id (function_root st') = root_function_id"
      using F(3) [of src ?xs xf fr None] wf by (simp add: sel rooted_at_def analysis_wf_def)
    show "node_id (call_tree_root st') = root_call_tree_node_id"
      unfolding sel nodes(4) [OF le] using wf by (simp add: analysis_wf_def)
  qed
  moreover have "previous_ok st' prev'"
    using ft xid xwf(2) grow(3) len(1)
    by (auto simp: previous_ok_def fns_of_def prev' row) (simp add: sel)
  moreover have "stack_effect src ?pf [f] st st'"
  proof -
    have fns: "fns_of st' = ?F" by (simp add: fns_of_def sel)
    have mods: "total (mod_hits (all_modules st') i s) = total (mod_hits (all_modules st) i s) +
          (if i = mi \<and> s = src then 1 else 0)"
        "self (mod_hits (all_modules st') i s) = self (mod_hits (all_modules st) i s)" for i s
      using ft module_counted [of ms "all_modules st" mi] by (auto simp: sel)
    show ?thesis
      using F(5-8) ft fid(1) pfid grow(3) by (simp add: stack_effect_def fns mods)
  qed
  ultimately show ?thesis
    using visit nodes(3) [OF le] nodes(2) [OF le] ft grow(1,2) len(1)
    by (intro exI [of _ f] exI [of _ "fs ! f"]) (simp add: prev' row sel(6))
qed

section \<open>A stack\<close>

lemma visit_frames:
  assumes "analysis_wf st" "previous_ok st prev" "path_node (tree_of st) q = Some (previous_node_id prev)"
    "foldl (visit_frame m src) (st, prev) frames = (st', prev')"
  shows "\<exists>ids fns. map function_id fns = ids \<and> set ids \<subseteq> {..<length (all_functions st')} \<and>
    map (fkey st') ids = map frame_key frames \<and> grows st st' \<and> analysis_wf st' \<and> previous_ok st' prev' \<and>
    previous_function_id prev' = (if ids = [] then previous_function_id prev else Some (last ids)) \<and>
    foldl (tree_visit m src) (tree_of st, previous_node_id prev) fns = (tree_of st', previous_node_id prev') \<and>
    stack_effect src (previous_function_id prev) ids st st'"
  using assms
proof (induction frames arbitrary: st prev q)
  case Nil
  then show ?case by (auto simp: stack_effect_Nil)
next
  case (Cons fr frames)
  obtain st1 prev1 where step: "visit_frame m src (st, prev) fr = (st1, prev1)" by fastforce
  then have rest: "foldl (visit_frame m src) (st1, prev1) frames = (st', prev')" using Cons.prems(4) by simp
  obtain f fn where f: "f < length (all_functions st1)" "fkey st1 f = frame_key fr" "function_id fn = f"
      "grows st st1" "analysis_wf st1" "previous_ok st1 prev1" "previous_function_id prev1 = Some f"
      "tree_visit m src (tree_of st, previous_node_id prev) fn = (tree_of st1, previous_node_id prev1)"
      "stack_effect src (previous_function_id prev) [f] st st1"
    using visit_frame_step [OF Cons.prems(1-3) step] by blast
  have twf: "tree_wf (tree_of st)" using Cons.prems(1) by (simp add: analysis_wf_def)
  have "path_node (tree_of st1) (q @ [f]) = Some (previous_node_id prev1)"
    using tree_visit_path(2) [OF twf Cons.prems(3) f(8)] f(3) by simp
  from Cons.IH [OF f(5,6) this rest] obtain ids fns where
    r: "map function_id fns = ids" "set ids \<subseteq> {..<length (all_functions st')}"
      "map (fkey st') ids = map frame_key frames" "grows st1 st'" "analysis_wf st'" "previous_ok st' prev'"
      "previous_function_id prev' = (if ids = [] then previous_function_id prev1 else Some (last ids))"
      "foldl (tree_visit m src) (tree_of st1, previous_node_id prev1) fns = (tree_of st', previous_node_id prev')"
      "stack_effect src (previous_function_id prev1) ids st1 st'" by blast
  have "f < length (all_functions st')" "fkey st' f = frame_key fr"
    using r(4) f(1,2) by (auto simp: grows_def)
  moreover have "stack_effect src (previous_function_id prev) (f # ids) st st'"
    using stack_effect_Cons [OF f(9) _ r(4) f(1)] r(9) f(7) by simp
  ultimately show ?case
    using r f grows_trans [OF f(4) r(4)] by (intro exI [of _ "f # ids"] exI [of _ "fn # fns"]) simp
qed

text \<open>What a counted sample adds: \<open>ids\<close> are the functions of its frames; a sample that is only a
  frame leaves the tree, the root and the edges alone.\<close>

definition sample_effect ::
  "nat \<Rightarrow> bool \<Rightarrow> nat list \<Rightarrow> analysis_state \<Rightarrow> analysis_state \<Rightarrow> bool" where
  "sample_effect src is_stack ids st st' \<longleftrightarrow>
     (\<forall>p s. total (path_hits (tree_of st') p s) = total (path_hits (tree_of st) p s) +
        (if s = src \<and> is_stack \<and> prefix p ids then 1 else 0)) \<and>
     (\<forall>p s. self (path_hits (tree_of st') p s) = self (path_hits (tree_of st) p s) +
        (if s = src \<and> is_stack \<and> p = ids then 1 else 0)) \<and>
     (\<forall>f s. total (fn_hits (fns_of st') (Some f) s) = total (fn_hits (fns_of st) (Some f) s) +
        (if s = src then count_list ids f else 0)) \<and>
     (\<forall>f s. self (fn_hits (fns_of st') (Some f) s) = self (fn_hits (fns_of st) (Some f) s) +
        (if s = src \<and> ids \<noteq> [] \<and> last ids = f then 1 else 0)) \<and>
     (\<forall>s. total (fn_hits (fns_of st') None s) = total (fn_hits (fns_of st) None s) +
        (if s = src \<and> is_stack then 1 else 0)) \<and>
     (\<forall>c k s. total (callee_hits (fns_of st') c k s) = total (callee_hits (fns_of st) c k s) +
        (if s = src \<and> is_stack then count_list (zip (None # map Some ids) ids) (c, k) else 0)) \<and>
     (\<forall>f x s. total (caller_hits (fns_of st') (Some f) x s) = total (caller_hits (fns_of st) (Some f) x s) +
        (if s = src \<and> is_stack then count_list (zip (root_function_id # ids) ids) (x, f) else 0)) \<and>
     (\<forall>m s. total (mod_hits (all_modules st') m s) = total (mod_hits (all_modules st) m s) +
        (if s = src then count_list (map (fmod st') ids) m else 0)) \<and>
     (\<forall>m s. self (mod_hits (all_modules st') m s) = self (mod_hits (all_modules st) m s) +
        (if s = src \<and> ids \<noteq> [] \<and> fmod st' (last ids) = m then 1 else 0))"

lemma fns_of_update [simp]:
  "fns_of (st\<lparr>all_functions := a\<rparr>) = (function_root st, a)"
  "fns_of (st\<lparr>function_root := r\<rparr>) = (r, all_functions st)"
  by (simp_all add: fns_of_def)

lemma rooted_update_fst: "fst (rooted_update (Some i) g t) = fst t"
  "snd (rooted_update None g t) = snd t"
  by (simp_all add: rooted_update_def)

text \<open>The root counts at the start of a stack.\<close>

lemma count_root_step:
  assumes wf: "analysis_wf st"
  shows "tree_of (count_root src st) = count_node (count_total src) None (tree_of st)"
    and "fns_of (count_root src st) = count_function (count_total src) None (fns_of st)"
    and "grows st (count_root src st)" and "analysis_wf (count_root src st)"
    and "all_modules (count_root src st) = all_modules st"
proof -
  let ?st = "count_root src st"
  show tree: "tree_of ?st = count_node (count_total src) None (tree_of st)"
    by (simp add: count_root_def tree_of_def count_node_def rooted_update_def)
  show fns: "fns_of ?st = count_function (count_total src) None (fns_of st)"
    by (simp add: count_root_def fns_of_def count_function_def rooted_update_def)
  show "grows st ?st" by (simp add: count_root_def grows_def fkey_def fmod_def)
  show "all_modules ?st = all_modules st" by (simp add: count_root_def)
  have "tree_wf (tree_of ?st)" using wf by (simp add: tree tree_wf_count_node analysis_wf_def)
  moreover have "function_id (function_root ?st) = function_id (function_root st)"
    "node_id (call_tree_root ?st) = node_id (call_tree_root st)"
    by (simp_all add: count_root_def count_function_def count_node_def rooted_update_def fns_of_def tree_of_def)
  ultimately show "analysis_wf ?st" using wf by (simp add: analysis_wf_def fmod_def count_root_def)
qed

text \<open>The self hits at its end.\<close>

lemma finish_stack_step:
  assumes wf: "analysis_wf st" and prev: "previous_ok st prev"
    and q: "path_node (tree_of st) q = Some (previous_node_id prev)"
  shows "analysis_wf (finish_stack src st prev)" "grows st (finish_stack src st prev)"
    "path_hits (tree_of (finish_stack src st prev)) p s =
      (if p = q \<and> s = src then (path_hits (tree_of st) p s)\<lparr>self := self (path_hits (tree_of st) p s) + 1\<rparr>
       else path_hits (tree_of st) p s)"
    "fn_hits (fns_of (finish_stack src st prev)) c s =
      (if c = previous_function_id prev \<and> s = src
       then (fn_hits (fns_of st) c s)\<lparr>self := self (fn_hits (fns_of st) c s) + 1\<rparr>
       else fn_hits (fns_of st) c s)"
    "callee_hits (fns_of (finish_stack src st prev)) = callee_hits (fns_of st)"
    "caller_hits (fns_of (finish_stack src st prev)) = caller_hits (fns_of st)"
    "mod_hits (all_modules (finish_stack src st prev)) i s =
      (if previous_module_id prev = Some i \<and> s = src
       then (mod_hits (all_modules st) i s)\<lparr>self := self (mod_hits (all_modules st) i s) + 1\<rparr>
       else mod_hits (all_modules st) i s)"
    "fmod (finish_stack src st prev) = fmod st"
proof -
  let ?st = "finish_stack src st prev" and ?pf = "previous_function_id prev"
  let ?t = "count_node (count_self src) (previous_node_id prev) (tree_of st)"
  let ?F1 = "count_function (count_self src) ?pf (fns_of st)"
  let ?F = "case (?pf, previous_file_id prev, previous_line_number prev) of
      (Some f, Some _, Some l) \<Rightarrow> rooted_update (Some f) (count_line (count_self src) l) ?F1 | _ \<Rightarrow> ?F1"
  note w = wf [unfolded analysis_wf_def]
  have vt: "valid_ref (tree_of st) (previous_node_id prev)" using path_node_valid w q by blast
  have vf: "valid_ref (fns_of st) ?pf" and pm: "previous_module_id prev = map_option (fmod st) ?pf"
    using prev by (simp_all add: previous_ok_def)
  have tree: "tree_of ?st = ?t" by (simp add: tree_of_def finish_stack_def Let_def)
  have fns: "fns_of ?st = ?F" unfolding fns_of_def [of st] by (simp add: fns_of_def finish_stack_def Let_def)
  have mods: "all_modules ?st = (case previous_module_id prev of None \<Rightarrow> all_modules st
      | Some m \<Rightarrow> count_module (count_self src) m (all_modules st))"
    by (simp add: finish_stack_def Let_def)
  have pmod: "previous_module_id prev = Some i \<Longrightarrow> i < length (all_modules st)" for i
    using w pm vf by (auto simp: fns_of_def)
  have F: "valid_ref ?F = valid_ref (fns_of st)" "length (snd ?F) = length (snd (fns_of st))"
      "function_id (rooted_at ?F c) = function_id (rooted_at (fns_of st) c)"
      "function_key (rooted_at ?F c) = function_key (rooted_at (fns_of st) c)"
      "fn_hits ?F = fn_hits ?F1" "callee_hits ?F = callee_hits (fns_of st)"
      "caller_hits ?F = caller_hits (fns_of st)" for c
    using vf by (auto split: option.split)
  have row: "function_id (all_functions ?st ! f) = function_id (all_functions st ! f)"
      "function_key (all_functions ?st ! f) = function_key (all_functions st ! f)"
      "length (all_functions ?st) = length (all_functions st)"
      "function_id (function_root ?st) = function_id (function_root st)" for f
    using F(2) F(3) [of "Some f"] F(4) [of "Some f"] F(3) [of None] unfolding fns [symmetric]
    by (simp_all add: rooted_at_def fns_of_def)
  have fwf: "function_table_wf (all_functions ?st, functions_by_name st)"
  proof -
    have "function_table_wf (snd ?F1, functions_by_name st)"
      using w by (intro function_table_wf_counts(1)) (simp add: fns_of_def)
    then have "function_table_wf (snd ?F, functions_by_name st)"
      by (auto split: option.split intro: function_table_wf_counts(4))
    then show ?thesis using fns by (metis fns_of_def snd_conv)
  qed
  have mrow: "module_row_name (all_modules ?st ! i) = module_row_name (all_modules st ! i)"
      "length (all_modules ?st) = length (all_modules st)" for i
    using pmod by (auto simp: mods split: option.split)
  show fm: "fmod ?st = fmod st" using row(2) by (simp add: fun_eq_iff fmod_def function_key_def)
  have fk: "fkey ?st = fkey st"
    using row(2) by (simp add: fun_eq_iff fkey_def fm mrow function_key_def)
  show "grows st ?st" using row(3) by (simp add: grows_def fm fk)
  have nodes: "node_id (call_tree_nodes ?st ! i) = node_id (call_tree_nodes st ! i)"
      "node_function_id (call_tree_nodes ?st ! i) = node_function_id (call_tree_nodes st ! i)"
      "length (call_tree_nodes ?st) = length (call_tree_nodes st)"
      "node_id (call_tree_root ?st) = node_id (call_tree_root st)" for i
    using vt tree by (cases "previous_node_id prev";
      auto simp: tree_of_def count_node_def rooted_update_def nth_list_update split: if_splits)+
  have "module_table_wf (all_modules ?st, modules_by_name st)"
    using w by (auto simp: mods split: option.split intro: module_table_wf_count)
  moreover have "tree_wf (tree_of ?st)" using w vt by (simp add: tree tree_wf_count_node)
  moreover have "functions_by_name ?st = functions_by_name st" "modules_by_name ?st = modules_by_name st"
      "files_by_path ?st = files_by_path st"
      "all_files ?st = count_file (count_self src) (previous_file_id prev) (all_files st)"
    by (simp_all add: finish_stack_def Let_def)
  ultimately show "analysis_wf ?st"
    using w fwf by (simp add: analysis_wf_def file_table_wf_count nodes row(3,4) mrow(2) fm)
  show "path_hits (tree_of ?st) p s = (if p = q \<and> s = src
      then (path_hits (tree_of st) p s)\<lparr>self := self (path_hits (tree_of st) p s) + 1\<rparr>
      else path_hits (tree_of st) p s)"
    using w q by (auto simp: tree path_hits_count_node count_self_def path_hits_at)
  show "fn_hits (fns_of ?st) c s = (if c = ?pf \<and> s = src
      then (fn_hits (fns_of st) c s)\<lparr>self := self (fn_hits (fns_of st) c s) + 1\<rparr>
      else fn_hits (fns_of st) c s)"
    unfolding fns F(5) count_function_sel(7) [OF vf] using vf by (auto simp: count_self_def fn_hits_def)
  show "callee_hits (fns_of ?st) = callee_hits (fns_of st)" "caller_hits (fns_of ?st) = caller_hits (fns_of st)"
    unfolding fns by (rule F)+
  show "mod_hits (all_modules ?st) i s = (if previous_module_id prev = Some i \<and> s = src
      then (mod_hits (all_modules st) i s)\<lparr>self := self (mod_hits (all_modules st) i s) + 1\<rparr>
      else mod_hits (all_modules st) i s)"
    using pmod by (cases "previous_module_id prev") (simp_all add: mods count_self_def, auto simp: mod_hits_def)
qed

text \<open>The functions of the frames of a sample.\<close>

definition frames_are :: "'a stacks_analysis_scheme \<Rightarrow> nat list \<Rightarrow> stack_frame list \<Rightarrow> bool" where
  "frames_are st ids frames \<longleftrightarrow>
     set ids \<subseteq> {..<length (all_functions st)} \<and> map (fkey st) ids = map frame_key frames"

lemma frames_are_grows:
  assumes "frames_are st ids frames" "grows st st'"
  shows "frames_are st' ids frames"
proof -
  have "map (fkey st') ids = map (fkey st) ids"
    using assms by (intro map_cong) (auto simp: frames_are_def grows_def)
  moreover have "set ids \<subseteq> {..<length (all_functions st')}"
    using assms by (force simp: frames_are_def grows_def)
  ultimately show ?thesis using assms(1) by (simp add: frames_are_def del: map_eq_conv)
qed

lemma no_previous_ok: "previous_ok st no_previous"
  by (simp add: previous_ok_def no_previous_def)

lemma strict_prefix_Nil_split: "prefix p ids \<longleftrightarrow> p = [] \<or> strict_prefix [] p \<and> prefix p ids"
  by (auto simp: strict_prefix_def)

lemma visit_stack_step:
  assumes wf: "analysis_wf st"
  shows "\<exists>ids. frames_are (visit_stack m src st frames) ids frames \<and>
    analysis_wf (visit_stack m src st frames) \<and> grows st (visit_stack m src st frames) \<and>
    sample_effect src True ids st (visit_stack m src st frames)"
proof -
  let ?st1 = "count_root src st"
  obtain st2 prev where run: "foldl (visit_frame m src) (?st1, no_previous) frames = (st2, prev)"
    by fastforce
  let ?st3 = "finish_stack src st2 prev"
  have res: "visit_stack m src st frames = ?st3" by (simp add: visit_stack_def run)
  note r = count_root_step [OF wf, of src]
  have np: "previous_node_id no_previous = None" "previous_function_id no_previous = None"
    by (simp_all add: no_previous_def)
  have root: "path_node (tree_of ?st1) [] = Some (previous_node_id no_previous)" by (simp add: np)
  obtain ids fns where v: "map function_id fns = ids" "set ids \<subseteq> {..<length (all_functions st2)}"
      "map (fkey st2) ids = map frame_key frames" "grows ?st1 st2" "analysis_wf st2" "previous_ok st2 prev"
      "previous_function_id prev = (if ids = [] then None else Some (last ids))"
      "foldl (tree_visit m src) (tree_of ?st1, None) fns = (tree_of st2, previous_node_id prev)"
      "stack_effect src None ids ?st1 st2"
    using visit_frames [OF r(4) no_previous_ok root run] by (auto simp: np)
  have twf: "tree_wf (tree_of ?st1)" "tree_wf (tree_of st)" using r(4) wf by (simp_all add: analysis_wf_def)
  note tv = tree_visits_path [OF twf(1) _ v(8), of "[]", simplified]
  have q: "path_node (tree_of st2) ids = Some (previous_node_id prev)" using tv v(1) by simp
  note fin = finish_stack_step [OF v(5,6) q, of src]
  have grow: "grows st2 ?st3" "grows st ?st3"
    using fin(2) grows_trans [OF r(3) grows_trans [OF v(4) fin(2)]] by blast+
  have frames: "frames_are ?st3 ids frames"
    using frames_are_grows [OF _ grow(1)] v(2,3) by (simp add: frames_are_def)
  have pm: "previous_module_id prev = (if ids = [] then None else Some (fmod st2 (last ids)))"
    using v(6,7) by (simp add: previous_ok_def)
  have root_hits: "path_hits (tree_of ?st1) p s = (if p = [] \<and> s = src
      then (path_hits (tree_of st) p s)\<lparr>total := total (path_hits (tree_of st) p s) + 1\<rparr>
      else path_hits (tree_of st) p s)" for p s
    using path_hits_count_node [OF twf(2), of "[]" None] by (auto simp: r(1) count_total_def path_hits_def)
  have t1: "total (path_hits (tree_of ?st3) p s) = total (path_hits (tree_of st) p s) +
      (if s = src \<and> prefix p ids then 1 else 0)" for p s
  proof -
    have "total (path_hits (tree_of ?st3) p s) = total (path_hits (tree_of st2) p s)"
      by (simp add: fin(3))
    also have "\<dots> = total (path_hits (tree_of ?st1) p s) +
        (if strict_prefix [] p \<and> prefix p ids \<and> s = src then 1 else 0)"
      using tv v(1) by simp
    finally show ?thesis using strict_prefix_Nil_split [of p ids] by (auto simp: root_hits)
  qed
  have t2: "self (path_hits (tree_of ?st3) p s) = self (path_hits (tree_of st) p s) +
      (if s = src \<and> p = ids then 1 else 0)" for p s
    using tv v(1) by (simp add: fin(3) root_hits)
  have f1: "fn_hits (fns_of ?st1) c s = (if c = None \<and> s = src
      then (fn_hits (fns_of st) c s)\<lparr>total := total (fn_hits (fns_of st) c s) + 1\<rparr>
      else fn_hits (fns_of st) c s)" for c s
    by (simp add: r(2) count_total_def) (auto simp: fn_hits_def)
  have edges: "callee_hits (fns_of ?st1) = callee_hits (fns_of st)"
      "caller_hits (fns_of ?st1) = caller_hits (fns_of st)" by (simp_all add: r(2))
  have "count_list (map Some ids) None = 0" by (induction ids) auto
  moreover have "count_list (map Some ids) (Some f) = count_list ids f" for f by (induction ids) auto
  ultimately have "sample_effect src True ids st ?st3"
    using v(9) t1 t2 v(7) pm
    by (simp add: sample_effect_def stack_effect_def fin(4-8) f1 edges r(5))
  with frames fin(1) grow(2) res show ?thesis by metis
qed

section \<open>A sample\<close>

lemma visit_single_frame_step:
  assumes wf: "analysis_wf st"
  shows "\<exists>ids. frames_are (visit_single_frame m src st fr) ids [fr] \<and>
    analysis_wf (visit_single_frame m src st fr) \<and> grows st (visit_single_frame m src st fr) \<and>
    sample_effect src False ids st (visit_single_frame m src st fr)"
proof -
  obtain ms ms_map mi where c1: "get_or_create_module (all_modules st, modules_by_name st)
      (frame_module_name fr) m = ((ms, ms_map), mi)" by (metis prod.exhaust)
  obtain fs fs_map f where c2: "get_or_create_function (all_functions st, functions_by_name st)
      (ms ! mi) (symbol_name fr) m = ((fs, fs_map), f)" by (metis prod.exhaust)
  obtain xs xs_map xf where c4: "frame_file (all_files st, files_by_path st) fr m = ((xs, xs_map), xf)"
    by (metis prod.exhaust)
  let ?st = "visit_single_frame m src st fr"
  let ?both = "count_self src \<circ> count_total src" and ?old = "(function_root st, fs)"
  let ?ms = "count_module ?both mi ms" and ?xs = "count_file ?both xf xs"
  let ?F = "count_location ?both ?xs xf fr f (count_function ?both (Some f) ?old)"
  have st: "?st = st\<lparr>all_modules := ?ms, modules_by_name := ms_map,
      all_functions := snd ?F, function_root := fst ?F, functions_by_name := fs_map,
      all_files := ?xs, files_by_path := xs_map\<rparr>"
    by (simp add: visit_single_frame_def c1 c2 c4 Let_def)
  have sel: "all_modules ?st = ?ms" "modules_by_name ?st = ms_map" "all_functions ?st = snd ?F"
      "functions_by_name ?st = fs_map" "function_root ?st = fst ?F" "tree_of ?st = tree_of st"
      "call_tree_nodes ?st = call_tree_nodes st" "call_tree_root ?st = call_tree_root st"
      "all_files ?st = ?xs" "files_by_path ?st = xs_map" "fns_of ?st = ?F"
    by (simp_all add: st tree_of_def fns_of_def)
  note tables = frame_tables_step [OF wf c1 c2]
  note ft = tables(1) [unfolded frame_tables_def]
  have f: "f < length fs" "valid_ref ?old (Some f)" using ft by auto
  have row: "function_id (rooted_at ?F c) = function_id (rooted_at ?old c)"
      "function_key (rooted_at ?F c) = function_key (rooted_at ?old c)" "length (snd ?F) = length fs" for c
    using f by simp_all
  have len: "length (all_functions ?st) = length fs" "length (all_modules ?st) = length ms"
    using ft row(3) by (simp_all add: sel)
  have keys: "function_key (all_functions ?st ! i) = function_key (fs ! i)"
      "module_row_name (all_modules ?st ! i) = module_row_name (ms ! i)" for i
    using row(2) [of "Some i"] ft by (simp_all add: sel rooted_at_def)
  note grow = frame_tables_grow [OF wf tables(1) len keys]
  have le: "length (all_functions st) \<le> length fs" using ft by blast
  have xwf: "file_table_wf (xs, xs_map)"
    using frame_file_step [OF _ c4] wf by (auto simp: analysis_wf_def)
  have "analysis_wf ?st"
    unfolding analysis_wf_def
  proof (intro conjI)
    show "module_table_wf (all_modules ?st, modules_by_name ?st)"
      unfolding sel by (rule module_table_wf_count [OF tables(2)])
    show "function_table_wf (all_functions ?st, functions_by_name ?st)"
      unfolding sel by (intro function_table_wf_counts) (simp add: tables(3))
    show "file_table_wf (all_files ?st, files_by_path ?st)"
      unfolding sel by (rule file_table_wf_count [OF xwf])
    show "\<forall>i < length (all_functions ?st). fmod ?st i < length (all_modules ?st)"
      unfolding len using grow(4) by blast
    show "function_id (function_root ?st) = root_function_id"
      using row(1) [of None] wf by (simp add: sel rooted_at_def analysis_wf_def)
    show "\<forall>i < length (call_tree_nodes ?st). node_id (call_tree_nodes ?st ! i) = i \<and>
        node_function_id (call_tree_nodes ?st ! i) < length (all_functions ?st)"
      unfolding len sel(7) using wf le by (auto simp: analysis_wf_def intro: order_less_le_trans)
  qed (use wf in \<open>simp_all add: sel analysis_wf_def\<close>)
  moreover have "frames_are ?st [f] [fr]"
    using grow(2) f len by (simp add: frames_are_def)
  moreover have "sample_effect src False [f] st ?st"
  proof -
    have hits: "fn_hits ?F c s = (if c = Some f
        then hits_get (?both (function_hits (rooted_at ?old (Some f)))) s else fn_hits (fns_of st) c s)" for c s
      using f ft by simp
    have at: "hits_get (function_hits (rooted_at ?old (Some f))) s = fn_hits (fns_of st) (Some f) s" for s
      using f ft by (metis fn_hits_def)
    have edges: "callee_hits ?F = callee_hits (fns_of st)" "caller_hits ?F = caller_hits (fns_of st)"
      using f ft by simp_all
    have mi: "mod_hits ms = mod_hits (all_modules st)" "mi < length ms" using ft by simp_all
    show ?thesis
      using grow(3) module_counted [OF mi]
      by (simp add: sample_effect_def sel hits at edges)
  qed
  ultimately show ?thesis using grow(1) by blast
qed

text \<open>The frames a sample counts for: its stack, its single frame, or none.\<close>

definition counted :: "sample_data \<Rightarrow> bool" where
  "counted s \<longleftrightarrow> has_stack s \<or> has_frame s"

definition counted_frames :: "sample_data \<Rightarrow> stack_frame list" where
  "counted_frames s = (if has_stack s then reversed_stack s else if has_frame s then [frame s] else [])"

lemma visit_sample_step:
  assumes "analysis_wf st"
  shows "\<exists>ids. frames_are (visit_sample m src st s) ids (counted_frames s) \<and>
    analysis_wf (visit_sample m src st s) \<and> grows st (visit_sample m src st s) \<and>
    sample_effect src (has_stack s) ids st (visit_sample m src st s)"
proof -
  have "sample_effect src False [] st st" by (simp add: sample_effect_def)
  then show ?thesis
    using visit_stack_step [OF assms, of m src "reversed_stack s"]
      visit_single_frame_step [OF assms, of m src "frame s"] assms
    by (auto simp: visit_sample_def counted_frames_def frames_are_def intro!: exI [of _ "[]"])
qed

section \<open>All samples\<close>

text \<open>The counts a list of samples (with their sources) should give, over the function ids of
  their frames: \<open>(source, has a stack, ids)\<close>.\<close>

type_synonym id_sample = "nat \<times> bool \<times> nat list"

definition sum_samples :: "(id_sample \<Rightarrow> nat) \<Rightarrow> nat \<Rightarrow> id_sample list \<Rightarrow> nat" where
  "sum_samples w src xs = sum_list (map w (filter (\<lambda>x. fst x = src) xs))"

lemma sum_samples_simps [simp]:
  "sum_samples w src [] = 0"
  "sum_samples w src (xs @ [x]) = sum_samples w src xs + (if fst x = src then w x else 0)"
  by (simp_all add: sum_samples_def)

definition refines :: "analysis_state \<Rightarrow> id_sample list \<Rightarrow> bool" where
  "refines st xs \<longleftrightarrow>
     (\<forall>p s. total (path_hits (tree_of st) p s) =
        sum_samples (\<lambda>(_, b, ids). if b \<and> prefix p ids then 1 else 0) s xs) \<and>
     (\<forall>p s. self (path_hits (tree_of st) p s) =
        sum_samples (\<lambda>(_, b, ids). if b \<and> p = ids then 1 else 0) s xs) \<and>
     (\<forall>f s. total (fn_hits (fns_of st) (Some f) s) = sum_samples (\<lambda>(_, _, ids). count_list ids f) s xs) \<and>
     (\<forall>f s. self (fn_hits (fns_of st) (Some f) s) =
        sum_samples (\<lambda>(_, _, ids). if ids \<noteq> [] \<and> last ids = f then 1 else 0) s xs) \<and>
     (\<forall>s. total (fn_hits (fns_of st) None s) = sum_samples (\<lambda>(_, b, _). if b then 1 else 0) s xs) \<and>
     (\<forall>c k s. total (callee_hits (fns_of st) c k s) =
        sum_samples (\<lambda>(_, b, ids). if b then count_list (zip (None # map Some ids) ids) (c, k) else 0) s xs) \<and>
     (\<forall>f x s. total (caller_hits (fns_of st) (Some f) x s) =
        sum_samples (\<lambda>(_, b, ids). if b then count_list (zip (root_function_id # ids) ids) (x, f) else 0) s xs) \<and>
     (\<forall>m s. total (mod_hits (all_modules st) m s) =
        sum_samples (\<lambda>(_, _, ids). count_list (map (fmod st) ids) m) s xs) \<and>
     (\<forall>m s. self (mod_hits (all_modules st) m s) =
        sum_samples (\<lambda>(_, _, ids). if ids \<noteq> [] \<and> fmod st (last ids) = m then 1 else 0) s xs)"

definition samples_are :: "'a stacks_analysis_scheme \<Rightarrow> id_sample list \<Rightarrow> (nat \<times> sample_data) list \<Rightarrow> bool" where
  "samples_are st xs ys \<longleftrightarrow>
     list_all2 (\<lambda>(src, b, ids) (src', s). src = src' \<and> b = has_stack s \<and> frames_are st ids (counted_frames s)) xs ys"

lemma samples_are_grows:
  "samples_are st xs ys \<Longrightarrow> grows st st' \<Longrightarrow> samples_are st' xs ys"
  unfolding samples_are_def by (erule list_all2_mono) (auto intro: frames_are_grows)

lemma sum_samples_cong:
  "(\<And>x. x \<in> set xs \<Longrightarrow> w x = w' x) \<Longrightarrow> sum_samples w s xs = sum_samples w' s xs"
  unfolding sum_samples_def by (intro arg_cong [where f = sum_list] map_cong) auto

lemma samples_are_ids:
  "samples_are st xs ys \<Longrightarrow> (src, b, ids) \<in> set xs \<Longrightarrow> set ids \<subseteq> {..<length (all_functions st)}"
proof -
  assume are: "samples_are st xs ys" and "(src, b, ids) \<in> set xs"
  then obtain i where i: "i < length xs" "xs ! i = (src, b, ids)" by (auto simp: in_set_conv_nth)
  from list_all2_nthD [OF are [unfolded samples_are_def] i(1)] i(2)
  show ?thesis by (cases "ys ! i") (simp add: frames_are_def)
qed

lemma refines_sample:
  assumes r: "refines st xs" and are: "samples_are st xs ys" and grow: "grows st st'"
    and eff: "sample_effect src b ids st st'"
  shows "refines st' (xs @ [(src, b, ids)])"
proof -
  have old: "fmod st' f = fmod st f" if "(s, b, js) \<in> set xs" "f \<in> set js" for s b js f
    using samples_are_ids [OF are that(1)] that(2) grow by (auto simp: grows_def)
  have m1: "sum_samples (\<lambda>(_, _, ids). count_list (map (fmod st') ids) i) s xs =
      sum_samples (\<lambda>(_, _, ids). count_list (map (fmod st) ids) i) s xs" for i s
    using old by (intro sum_samples_cong) (auto intro!: arg_cong2 [where f = count_list] map_cong)
  have m2: "sum_samples (\<lambda>(_, _, ids). if ids \<noteq> [] \<and> fmod st' (last ids) = i then 1 else 0) s xs =
      sum_samples (\<lambda>(_, _, ids). if ids \<noteq> [] \<and> fmod st (last ids) = i then 1 else 0) s xs" for i s
    using old by (intro sum_samples_cong) auto
  show ?thesis
    using r eff unfolding refines_def sample_effect_def by (auto simp: m1 m2)
qed

definition run_ok :: "analysis_state \<Rightarrow> (nat \<times> sample_data) list \<Rightarrow> bool" where
  "run_ok st ys \<longleftrightarrow> analysis_wf st \<and> (\<exists>xs. refines st xs \<and> samples_are st xs ys)"

lemma run_ok_sample:
  assumes "run_ok st ys"
  shows "run_ok (visit_sample m src st s) (ys @ [(src, s)])"
proof -
  obtain xs where xs: "analysis_wf st" "refines st xs" "samples_are st xs ys"
    using assms by (auto simp: run_ok_def)
  obtain ids where s: "frames_are (visit_sample m src st s) ids (counted_frames s)"
      "analysis_wf (visit_sample m src st s)" "grows st (visit_sample m src st s)"
      "sample_effect src (has_stack s) ids st (visit_sample m src st s)"
    using visit_sample_step [OF xs(1)] by blast
  have "samples_are (visit_sample m src st s) (xs @ [(src, has_stack s, ids)]) (ys @ [(src, s)])"
    using samples_are_grows [OF xs(3) s(3)] s(1) by (simp add: samples_are_def list_all2_appendI)
  then show ?thesis using refines_sample [OF xs(2,3) s(3,4)] s(2) by (auto simp: run_ok_def)
qed

text \<open>The samples an analysis gets to before it is cancelled: the token is asked before each.\<close>

definition all_samples :: "nat list \<Rightarrow> (nat \<Rightarrow> sample_data list) \<Rightarrow> (nat \<times> sample_data) list" where
  "all_samples sources samples = concat (map (\<lambda>src. map (Pair src) (samples src)) sources)"

fun before_cancel :: "(nat \<Rightarrow> bool) \<Rightarrow> nat \<Rightarrow> 'a list \<Rightarrow> 'a list" where
  "before_cancel canceled k [] = []"
| "before_cancel canceled k (x # xs) = (if canceled k then [] else x # before_cancel canceled (Suc k) xs)"

lemma before_cancel_append:
  "before_cancel canceled k (xs @ ys) =
     before_cancel canceled k xs @
     (if length (before_cancel canceled k xs) = length xs
      then before_cancel canceled (k + length xs) ys else [])"
  by (induction xs arbitrary: k) auto

lemma before_cancel_all: "(\<And>i. \<not> canceled i) \<Longrightarrow> before_cancel canceled k xs = xs"
  by (induction xs arbitrary: k) auto

lemma visit_samples_run:
  assumes "run_ok st ys" "visit_samples m canceled src k st ss = (st', k', cancel)"
  shows "run_ok st' (ys @ before_cancel canceled k (map (Pair src) ss)) \<and>
    (cancel \<longleftrightarrow> length (before_cancel canceled k ss) \<noteq> length ss) \<and> (\<not> cancel \<longrightarrow> k' = k + length ss)"
  using assms
proof (induction ss arbitrary: st ys k)
  case (Cons s ss)
  show ?case
  proof (cases "canceled k")
    case False
    then show ?thesis using Cons.IH [OF run_ok_sample [OF Cons.prems(1)]] Cons.prems(2) by fastforce
  qed (use Cons.prems in auto)
qed simp

lemma length_before_cancel_map: "length (before_cancel canceled k (map g xs)) = length (before_cancel canceled k xs)"
  by (induction xs arbitrary: k) auto

lemma visit_sources_run:
  assumes "run_ok st ys" "visit_sources m canceled samples k st srcs = (st', cancel)"
  shows "run_ok st' (ys @ before_cancel canceled k (all_samples srcs samples))"
  using assms
proof (induction srcs arbitrary: st ys k)
  case (Cons src srcs)
  obtain st1 k1 c1 where v: "visit_samples m canceled src k st (samples src) = (st1, k1, c1)"
    by (metis prod_cases3)
  note r = visit_samples_run [OF Cons.prems(1) v]
  show ?case
  proof (cases c1)
    case True
    with r v Cons.prems(2) show ?thesis
      by (simp add: all_samples_def before_cancel_append length_before_cancel_map)
  next
    case False
    with v Cons.prems(2) have "visit_sources m canceled samples k1 st1 srcs = (st', cancel)" by simp
    from Cons.IH [OF conjunct1 [OF r] this] False r show ?thesis
      by (simp add: all_samples_def before_cancel_append length_before_cancel_map)
  qed
qed (simp add: all_samples_def)

lemma initial_run: "run_ok (initial_analysis m pid) []"
proof -
  have "analysis_wf (initial_analysis m pid)"
    by (simp add: analysis_wf_def initial_analysis_def module_table_wf_def function_table_wf_def
        file_table_wf_def table_wf_empty tree_of_def tree_wf_empty)
  moreover have "path_hits (tree_of (initial_analysis m pid)) p s = no_hits" for p s
    by (cases p rule: rev_cases)
      (auto simp: path_hits_def tree_of_def initial_analysis_def rooted_at_def bind_eq_Some_conv
        split: option.split dest!: child_Some path_node_valid [OF tree_wf_empty, rotated]
        simp: kids_def valid_ref_def)
  moreover have "fn_hits (fns_of (initial_analysis m pid)) c s = no_hits"
      "callee_hits (fns_of (initial_analysis m pid)) c k s = no_hits"
      "caller_hits (fns_of (initial_analysis m pid)) c k s = no_hits" for c k s
    by (cases c; simp add: fn_hits_def callee_hits_def caller_hits_def initial_analysis_def fns_of_def
        rooted_at_def)+
  moreover have "mod_hits (all_modules (initial_analysis m pid)) i s = no_hits" for i s
    by (simp add: mod_hits_def initial_analysis_def)
  ultimately show ?thesis
    by (auto simp: run_ok_def refines_def samples_are_def intro!: exI [of _ "[]"])
qed

lemma analyze_run:
  assumes "analyze_stacks sources samples pid canceled = Some a"
  shows "\<exists>st. run_ok st (before_cancel canceled 0 (all_samples sources samples)) \<and> a = stacks_analysis.truncate st"
  using assms visit_sources_run [OF initial_run]
  by (fastforce simp: analyze_stacks_def Let_def split: if_splits prod.splits)

end
