(* ===== verification/AnalysisResults.thy ===== *)
theory AnalysisResults
  imports AnalysisSpec
begin

text \<open>
  The theorems about \<open>analyze_stacks\<close>: what the call tree, the functions, the edges and the modules
  of a result count, in terms of the frames of the samples the provider delivered. All hold for
  cancelled analyses too, for the samples before the cancellation.
\<close>

section \<open>Counting samples\<close>

text \<open>The frames of a sample as module and symbol names, outermost first, and the sum of a weight
  over the samples of a source.\<close>

definition sample_keys :: "sample_data \<Rightarrow> (string \<times> string) list" where
  "sample_keys s = map frame_key (counted_frames s)"

definition weigh :: "(sample_data \<Rightarrow> nat) \<Rightarrow> nat \<Rightarrow> (nat \<times> sample_data) list \<Rightarrow> nat" where
  "weigh w src ys = sum_list (map (\<lambda>y. w (snd y)) (filter (\<lambda>y. fst y = src) ys))"

lemma weigh_transfer:
  assumes "samples_are st xs ys"
    and "\<And>b ids s. b = has_stack s \<Longrightarrow> frames_are st ids (counted_frames s) \<Longrightarrow> w (src, b, ids) = w' s"
  shows "sum_samples w src xs = weigh w' src ys"
  using assms(1) unfolding samples_are_def
proof (induction rule: list_all2_induct)
  case (Cons x xs y ys)
  obtain src1 b ids where x: "x = (src1, b, ids)" by (cases x)
  obtain src2 s where y: "y = (src2, s)" by (cases y)
  have "src2 = src1" "b = has_stack s" "frames_are st ids (counted_frames s)"
    using Cons.hyps(1) by (auto simp: x y)
  then show ?case
    using Cons.IH assms(2) by (auto simp: x y sum_samples_def weigh_def)
qed (simp add: sum_samples_def weigh_def)

lemma prefix_map_inj_on:
  "inj_on g (set p \<union> set q) \<Longrightarrow> prefix (map g p) (map g q) \<longleftrightarrow> prefix p q"
proof (induction p arbitrary: q)
  case (Cons x p)
  then show ?case by (cases q) (auto simp: inj_on_def)
qed simp

lemma map_eq_inj_on: "inj_on g (set p \<union> set q) \<Longrightarrow> map g p = map g q \<longleftrightarrow> p = q"
  by (metis map_inj_on)

lemma count_list_map_inj_on:
  "inj_on g (insert x (set xs)) \<Longrightarrow> count_list (map g xs) (g x) = count_list xs x"
  by (induction xs) (auto simp: inj_on_def)

section \<open>The result of a run\<close>

lemma truncate_sel [simp]:
  "all_modules (stacks_analysis.truncate st) = all_modules st"
  "all_functions (stacks_analysis.truncate st) = all_functions st"
  "all_files (stacks_analysis.truncate st) = all_files st"
  "call_tree_nodes (stacks_analysis.truncate st) = call_tree_nodes st"
  "call_tree_root (stacks_analysis.truncate st) = call_tree_root st"
  "function_root (stacks_analysis.truncate st) = function_root st"
  "tree_of (stacks_analysis.truncate st) = tree_of st"
  "fns_of (stacks_analysis.truncate st) = fns_of st"
  "fkey (stacks_analysis.truncate st) = fkey st"
  "fmod (stacks_analysis.truncate st) = fmod st"
  by (simp_all add: stacks_analysis.truncate_def tree_of_def fns_of_def fkey_def fmod_def fun_eq_iff)

lemma fkey_inj_on:
  assumes "analysis_wf st"
  shows "inj_on (fkey st) {..<length (all_functions st)}"
  using fkey_inj [OF assms] by (auto simp: inj_on_def)

lemma frames_inj:
  assumes "analysis_wf st" "frames_are st ids frames" "set p \<subseteq> {..<length (all_functions st)}"
  shows "inj_on (fkey st) (set p \<union> set ids)"
  using fkey_inj_on [OF assms(1)] assms(2,3) by (auto simp: frames_are_def intro: inj_on_subset)

lemma sample_keys_ids: "frames_are st ids (counted_frames s) \<Longrightarrow> sample_keys s = map (fkey st) ids"
  by (simp add: sample_keys_def frames_are_def)

lemma refinesD:
  assumes "refines st xs"
  shows "total (path_hits (tree_of st) p s) =
      sum_samples (\<lambda>(_, b, ids). if b \<and> prefix p ids then 1 else 0) s xs"
    "self (path_hits (tree_of st) p s) = sum_samples (\<lambda>(_, b, ids). if b \<and> p = ids then 1 else 0) s xs"
    "total (fn_hits (fns_of st) (Some f) s) = sum_samples (\<lambda>(_, _, ids). count_list ids f) s xs"
    "self (fn_hits (fns_of st) (Some f) s) =
      sum_samples (\<lambda>(_, _, ids). if ids \<noteq> [] \<and> last ids = f then 1 else 0) s xs"
    "total (callee_hits (fns_of st) c k s) =
      sum_samples (\<lambda>(_, b, ids). if b then count_list (zip (None # map Some ids) ids) (c, k) else 0) s xs"
    "total (caller_hits (fns_of st) (Some f) x s) =
      sum_samples (\<lambda>(_, b, ids). if b then count_list (zip (root_function_id # ids) ids) (x, f) else 0) s xs"
    "total (mod_hits (all_modules st) m s) = sum_samples (\<lambda>(_, _, ids). count_list (map (fmod st) ids) m) s xs"
    "self (mod_hits (all_modules st) m s) =
      sum_samples (\<lambda>(_, _, ids). if ids \<noteq> [] \<and> fmod st (last ids) = m then 1 else 0) s xs"
  using assms unfolding refines_def by blast+

text \<open>Adjacent frames: the pairs \<open>(caller, callee)\<close> of a stack.\<close>

definition adjacent :: "'k list \<Rightarrow> ('k \<times> 'k) list" where
  "adjacent ks = zip ks (tl ks)"

lemma count_callees:
  "count_list (zip (None # map Some ids) ids) (Some g, k) = count_list (adjacent ids) (g, k)"
  "count_list (zip (None # map Some ids) ids) (None, k) = (if ids \<noteq> [] \<and> hd ids = k then 1 else 0)"
proof -
  have some: "count_list (zip (map Some xs) ys) (Some g, k) = count_list (zip xs ys) (g, k)" for xs ys :: "'a list"
    by (induction xs ys rule: list_induct2') auto
  have none: "count_list (zip (map Some xs) ys) (None, k) = 0" for xs ys :: "'a list"
    by (induction xs ys rule: list_induct2') auto
  show "count_list (zip (None # map Some ids) ids) (Some g, k) = count_list (adjacent ids) (g, k)"
    using some [of ids "tl ids"] by (cases ids) (auto simp: adjacent_def)
  show "count_list (zip (None # map Some ids) ids) (None, k) = (if ids \<noteq> [] \<and> hd ids = k then 1 else 0)"
    using none [of ids "tl ids"] by (cases ids) auto
qed

lemma count_callers:
  assumes "r \<notin> set ids"
  shows "g \<noteq> r \<Longrightarrow> count_list (zip (r # ids) ids) (g, k) = count_list (adjacent ids) (g, k)"
    "count_list (zip (r # ids) ids) (r, k) = (if ids \<noteq> [] \<and> hd ids = k then 1 else 0)"
proof -
  show "g \<noteq> r \<Longrightarrow> count_list (zip (r # ids) ids) (g, k) = count_list (adjacent ids) (g, k)"
    by (cases ids) (auto simp: adjacent_def)
  have "count_list (zip xs ys) (r, k) = 0" if "r \<notin> set xs" for xs ys
    using that by (auto simp: count_list_0_iff dest: set_zip_leftD)
  with assms show "count_list (zip (r # ids) ids) (r, k) = (if ids \<noteq> [] \<and> hd ids = k then 1 else 0)"
    by (cases ids) auto
qed

lemma adjacent_map: "adjacent (map g ks) = map (map_prod g g) (adjacent ks)"
  by (simp add: adjacent_def zip_map_map map_prod_def flip: map_tl)

lemma set_adjacent: "(x, y) \<in> set (adjacent ks) \<Longrightarrow> x \<in> set ks \<and> y \<in> set ks"
  by (cases ks) (auto simp: adjacent_def dest: set_zip_leftD set_zip_rightD)

lemma count_adjacent_map_inj_on:
  assumes "inj_on g ({x, y} \<union> set ks)"
  shows "count_list (adjacent (map g ks)) (g x, g y) = count_list (adjacent ks) (x, y)"
proof -
  have "inj_on (map_prod g g) (insert (x, y) (set (adjacent ks)))"
    using assms set_adjacent [of _ _ ks] by (auto simp: inj_on_def)
  from count_list_map_inj_on [OF this] show ?thesis by (simp add: adjacent_map)
qed

lemma hd_map_inj_on:
  "inj_on g (insert x (set ks)) \<Longrightarrow> (map g ks \<noteq> [] \<and> hd (map g ks) = g x) \<longleftrightarrow> (ks \<noteq> [] \<and> hd ks = x)"
  by (cases ks) (auto simp: inj_on_def)

lemma last_map_inj_on:
  "inj_on g (insert x (set ks)) \<Longrightarrow> (map g ks \<noteq> [] \<and> last (map g ks) = g x) \<longleftrightarrow> (ks \<noteq> [] \<and> last ks = x)"
  by (auto simp: last_map inj_on_def)

text \<open>Every frame of a sample has its function in the result.\<close>

lemma sample_function_exists:
  assumes a: "analyze_stacks sources samples pid canceled = Some a"
    and y: "(src, s) \<in> set (before_cancel canceled 0 (all_samples sources samples))"
    and fr: "fr \<in> set (counted_frames s)"
  shows "\<exists>f < length (all_functions a). fkey a f = frame_key fr \<and> fmod a f < length (all_modules a)"
proof -
  obtain st xs where st: "analysis_wf st" "samples_are st xs (before_cancel canceled 0 (all_samples sources samples))"
      "a = stacks_analysis.truncate st"
    using analyze_run [OF a] by (auto simp: run_ok_def)
  obtain j where j: "j < length (before_cancel canceled 0 (all_samples sources samples))"
      "before_cancel canceled 0 (all_samples sources samples) ! j = (src, s)"
    using y by (auto simp: in_set_conv_nth)
  have "j < length xs" using st(2) j(1) by (auto simp: samples_are_def dest: list_all2_lengthD)
  from list_all2_nthD [OF st(2) [unfolded samples_are_def] this] j(2)
  obtain ids where ids: "frames_are st ids (counted_frames s)" by (auto split: prod.splits)
  have "frame_key fr \<in> set (map frame_key (counted_frames s))" using fr by simp
  then obtain f where "f \<in> set ids" "fkey st f = frame_key fr"
    using ids unfolding frames_are_def by (metis (no_types, lifting) image_iff list.set_map)
  then show ?thesis using ids st(1,3) by (auto simp: frames_are_def analysis_wf_def)
qed

section \<open>The number of functions\<close>

text \<open>Each frame creates at most one function.\<close>

lemma length_count_fns:
  "length (snd (count_function g cur F)) = length (snd F)"
  "length (snd (count_edge src pf f F)) = length (snd F)"
  "length (snd (count_location g xs x fr f F)) = length (snd F)"
  by (simp_all add: count_function_def count_edge_def count_location_def Let_def split: option.split)

lemma length_create_function:
  "get_or_create_function (fs, fs_map) mrow name m = ((fs', fs_map'), f) \<Longrightarrow> length fs' \<le> Suc (length fs)"
  by (auto simp: get_or_create_function_def Let_def split: option.splits)

lemma visit_frame_length:
  "visit_frame m src (st, prev) fr = (st', prev') \<Longrightarrow> length (all_functions st') \<le> Suc (length (all_functions st))"
  by (auto simp: visit_frame_def Let_def length_count_fns split: prod.splits dest!: length_create_function)

lemma visit_frames_length:
  "foldl (visit_frame m src) (st, prev) frames = (st', prev') \<Longrightarrow>
   length (all_functions st') \<le> length (all_functions st) + length frames"
proof (induction frames arbitrary: st prev)
  case (Cons fr frames)
  obtain st1 prev1 where step: "visit_frame m src (st, prev) fr = (st1, prev1)" by fastforce
  with Cons.IH [of st1 prev1] Cons.prems visit_frame_length [OF step] show ?case by simp
qed simp

lemma finish_stack_length: "length (all_functions (finish_stack src st prev)) = length (all_functions st)"
  by (simp add: finish_stack_def Let_def length_count_fns split: option.split)

lemma visit_sample_length:
  "length (all_functions (visit_sample m src st s)) \<le> length (all_functions st) + length (counted_frames s)"
proof -
  have "length (all_functions (visit_stack m src st frames)) \<le> length (all_functions st) + length frames" for frames
    using visit_frames_length [of m src "count_root src st" no_previous frames]
    by (auto simp: visit_stack_def finish_stack_length count_root_def split: prod.split)
  moreover have "length (all_functions (visit_single_frame m src st fr)) \<le> Suc (length (all_functions st))" for fr
    by (auto simp: visit_single_frame_def Let_def length_count_fns split: prod.splits dest!: length_create_function)
  ultimately show ?thesis by (simp add: visit_sample_def counted_frames_def)
qed

lemma visit_samples_length:
  "visit_samples m canceled src k st ss = (st', k', c) \<Longrightarrow> length (all_functions st') \<le>
   length (all_functions st) + sum_list (map (\<lambda>s. length (counted_frames s)) ss)"
proof (induction ss arbitrary: st k)
  case (Cons s ss)
  show ?case
  proof (cases "canceled k")
    case False
    then have "visit_samples m canceled src (Suc k) (visit_sample m src st s) ss = (st', k', c)"
      using Cons.prems by simp
    from Cons.IH [OF this] visit_sample_length [of m src st s] show ?thesis by simp
  qed (use Cons.prems in simp)
qed simp

lemma visit_sources_length:
  "visit_sources m canceled samples k st srcs = (st', c) \<Longrightarrow> length (all_functions st') \<le>
   length (all_functions st) + sum_list (map (\<lambda>y. length (counted_frames (snd y))) (all_samples srcs samples))"
proof (induction srcs arbitrary: st k)
  case (Cons src srcs)
  obtain st1 k1 c1 where v: "visit_samples m canceled src k st (samples src) = (st1, k1, c1)"
    by (metis prod_cases3)
  note l = visit_samples_length [OF v]
  show ?case
  proof (cases c1)
    case True
    with v l Cons.prems show ?thesis by (simp add: all_samples_def comp_def)
  next
    case False
    with v Cons.prems have "visit_sources m canceled samples k1 st1 srcs = (st', c)" by simp
    from Cons.IH [OF this] l show ?thesis by (simp add: all_samples_def comp_def)
  qed
qed (simp add: all_samples_def)

lemma analysis_length:
  assumes "analyze_stacks sources samples pid canceled = Some a"
  shows "length (all_functions a) \<le>
    sum_list (map (\<lambda>y. length (counted_frames (snd y))) (all_samples sources samples))"
  using assms visit_sources_length [of "last sources" canceled samples 0 "initial_analysis (last sources) pid" sources]
  by (auto simp: analyze_stacks_def Let_def initial_analysis_def split: if_splits prod.splits)

text \<open>An example for the witnesses: two samples with a stack, one of them recursive, and one that is
  only a frame.\<close>

definition example_frame :: "string \<Rightarrow> stack_frame" where
  "example_frame s = \<lparr>symbol_name = s, frame_module_name = ''a'', frame_file_path = ''f.c'',
     function_line_number = 3, instruction_line_number = 5\<rparr>"

definition example_samples :: "nat \<Rightarrow> sample_data list" where
  "example_samples _ =
     [\<lparr>has_stack = True, has_frame = True,
       reversed_stack = [example_frame ''m'', example_frame ''r'', example_frame ''r''],
       frame = example_frame ''r''\<rparr>,
      \<lparr>has_stack = True, has_frame = True, reversed_stack = [example_frame ''m''],
       frame = example_frame ''m''\<rparr>,
      \<lparr>has_stack = False, has_frame = True, reversed_stack = [], frame = example_frame ''r''\<rparr>]"

definition example_analysis :: stacks_analysis where
  "example_analysis = the (analyze_stacks [0] example_samples 1 (\<lambda>_. False))"

lemma example_analysis: "analyze_stacks [0] example_samples 1 (\<lambda>_. False) = Some example_analysis"
  by (simp add: example_analysis_def analyze_stacks_def Let_def split: prod.split)

lemma example_run:
  "before_cancel (\<lambda>_. False) 0 (all_samples [0] example_samples) = map (Pair 0) (example_samples 0)"
  by (simp add: before_cancel_all all_samples_def)

lemmas example_simps = example_samples_def sample_keys_def counted_frames_def example_frame_def
  frame_key_def weigh_def adjacent_def

lemma example_function:
  assumes "s = ''m'' \<or> s = ''r''"
  shows "\<exists>f < length (all_functions example_analysis). fkey example_analysis f = (''a'', s) \<and>
    fmod example_analysis f < length (all_modules example_analysis)"
proof -
  let ?s = "hd (example_samples 0)"
  have "(0, ?s) \<in> set (before_cancel (\<lambda>_. False) 0 (all_samples [0] example_samples))"
    unfolding example_run by (simp add: example_samples_def)
  moreover have "example_frame s \<in> set (counted_frames ?s)" using assms by (auto simp: example_simps)
  ultimately show ?thesis
    using sample_function_exists [OF example_analysis] by (fastforce simp: example_frame_def frame_key_def)
qed

text \<open>The children of a node lie behind it in the table, and no two have the same function.\<close>

lemma analysis_wf_children:
  assumes "analysis_wf st"
  shows "c \<in> set (node_children (call_tree_nodes st ! i)) \<Longrightarrow> i < length (call_tree_nodes st) \<Longrightarrow>
      i < c \<and> c < length (call_tree_nodes st)"
    and "c \<in> set (node_children (call_tree_root st)) \<Longrightarrow> c < length (call_tree_nodes st)"
    and "node \<in> {call_tree_root st} \<union> set (call_tree_nodes st) \<Longrightarrow>
      distinct (map (\<lambda>c. node_function_id (call_tree_nodes st ! c)) (node_children node))"
proof -
  have twf: "tree_wf (tree_of st)" using assms [unfolded analysis_wf_def] by blast
  have kids: "kids (tree_of st) (Some i) = node_children (call_tree_nodes st ! i)"
      "kids (tree_of st) None = node_children (call_tree_root st)" for i
    by (simp_all add: kids_def rooted_at_def tree_of_def)
  have fids: "fid (tree_of st) = (\<lambda>c. node_function_id (call_tree_nodes st ! c))"
    by (simp add: fun_eq_iff fid_def rooted_at_def tree_of_def)
  show "c \<in> set (node_children (call_tree_nodes st ! i)) \<Longrightarrow> i < length (call_tree_nodes st) \<Longrightarrow>
      i < c \<and> c < length (call_tree_nodes st)"
    using tree_wfD(1,2) [OF twf, of "Some i" c] unfolding kids by (auto simp: tree_of_def)
  show "c \<in> set (node_children (call_tree_root st)) \<Longrightarrow> c < length (call_tree_nodes st)"
    using tree_wfD(1) [OF twf, of None c] unfolding kids by (auto simp: tree_of_def)
  show "node \<in> {call_tree_root st} \<union> set (call_tree_nodes st) \<Longrightarrow>
      distinct (map (\<lambda>c. node_function_id (call_tree_nodes st ! c)) (node_children node))"
    using tree_wfD(3) [OF twf, of None] tree_wfD(3) [OF twf, of "Some i" for i]
    unfolding kids fids by (auto simp: in_set_conv_nth tree_of_def)
qed

section \<open>Properties\<close>

text \<open>C5: the call tree is the prefix tree of the stacks. For every path of functions, the total
  hits of its node (0 if there is none) are the number of samples of the source whose stack starts
  with the path, and its self hits the number whose stack is the path; the root, the empty path,
  counts all samples with a stack.\<close>

theorem call_tree_is_prefix_tree:
  assumes a: "analyze_stacks sources samples pid canceled = Some a"
    and p: "set p \<subseteq> {..<length (all_functions a)}"
  shows "path_hits (tree_of a) p src =
    (let ys = before_cancel canceled 0 (all_samples sources samples) in
     \<lparr>total = weigh (\<lambda>s. if has_stack s \<and> prefix (map (fkey a) p) (sample_keys s) then 1 else 0) src ys,
      self = weigh (\<lambda>s. if has_stack s \<and> map (fkey a) p = sample_keys s then 1 else 0) src ys\<rparr>)"
proof -
  let ?ys = "before_cancel canceled 0 (all_samples sources samples)"
  obtain st xs where st: "analysis_wf st" "refines st xs" "samples_are st xs ?ys"
      "a = stacks_analysis.truncate st"
    using analyze_run [OF a] by (auto simp: run_ok_def)
  have keys: "prefix p ids \<longleftrightarrow> prefix (map (fkey st) p) (sample_keys s)"
      "p = ids \<longleftrightarrow> map (fkey st) p = sample_keys s"
    if "frames_are st ids (counted_frames s)" for ids s
    using frames_inj [OF st(1) that, of p] p st(4) sample_keys_ids [OF that]
    by (simp_all add: prefix_map_inj_on map_eq_inj_on del: map_eq_conv)
  have "total (path_hits (tree_of st) p src) =
      weigh (\<lambda>s. if has_stack s \<and> prefix (map (fkey st) p) (sample_keys s) then 1 else 0) src ?ys"
    unfolding refinesD [OF st(2)] by (rule weigh_transfer [OF st(3)]) (simp add: keys(1))
  moreover have "self (path_hits (tree_of st) p src) =
      weigh (\<lambda>s. if has_stack s \<and> map (fkey st) p = sample_keys s then 1 else 0) src ?ys"
    unfolding refinesD [OF st(2)] by (rule weigh_transfer [OF st(3)]) (simp only: prod.case keys(2))
  ultimately show ?thesis by (simp add: st(4) Let_def)
qed

theorem call_tree_is_prefix_tree_witness:
  "\<exists>m < length (all_functions example_analysis). \<exists>r < length (all_functions example_analysis).
     fkey example_analysis m = (''a'', ''m'') \<and> fkey example_analysis r = (''a'', ''r'') \<and>
     path_hits (tree_of example_analysis) [m] 0 = \<lparr>total = 2, self = 1\<rparr> \<and>
     path_hits (tree_of example_analysis) [m, r] 0 = \<lparr>total = 1, self = 0\<rparr>"
proof -
  obtain m where m: "m < length (all_functions example_analysis)" "fkey example_analysis m = (''a'', ''m'')"
    using example_function by blast
  obtain r where r: "r < length (all_functions example_analysis)" "fkey example_analysis r = (''a'', ''r'')"
    using example_function by blast
  have "path_hits (tree_of example_analysis) [m] 0 = \<lparr>total = 2, self = 1\<rparr>"
    using m by (subst call_tree_is_prefix_tree [OF example_analysis]) (simp_all add: example_run example_simps)
  moreover have "path_hits (tree_of example_analysis) [m, r] 0 = \<lparr>total = 1, self = 0\<rparr>"
    using m r by (subst call_tree_is_prefix_tree [OF example_analysis]) (simp_all add: example_run example_simps)
  ultimately show ?thesis using m r by blast
qed

text \<open>C6: the hits of a function. Its total is the number of frames with its module and symbol
  name over all samples of the source (a recursive function counts once per frame), its self hits
  the number of samples whose innermost frame it is; samples without a stack count their frame.\<close>

theorem function_hits_count_frames:
  assumes a: "analyze_stacks sources samples pid canceled = Some a" and f: "f < length (all_functions a)"
  shows "hits_get (function_hits (all_functions a ! f)) src =
    (let ys = before_cancel canceled 0 (all_samples sources samples) in
     \<lparr>total = weigh (\<lambda>s. count_list (sample_keys s) (fkey a f)) src ys,
      self = weigh (\<lambda>s. if sample_keys s \<noteq> [] \<and> last (sample_keys s) = fkey a f then 1 else 0) src ys\<rparr>)"
proof -
  let ?ys = "before_cancel canceled 0 (all_samples sources samples)"
  obtain st xs where st: "analysis_wf st" "refines st xs" "samples_are st xs ?ys"
      "a = stacks_analysis.truncate st"
    using analyze_run [OF a] by (auto simp: run_ok_def)
  have at: "hits_get (function_hits (all_functions st ! f)) src = fn_hits (fns_of st) (Some f) src"
    using f st(4) by (simp add: fn_hits_def fns_of_def rooted_at_def)
  have inj: "inj_on (fkey st) (insert f (set ids))" if "frames_are st ids (counted_frames s)" for ids s
    using frames_inj [OF st(1) that, of "[f]"] f st(4) by simp
  have "total (fn_hits (fns_of st) (Some f) src) = weigh (\<lambda>s. count_list (sample_keys s) (fkey st f)) src ?ys"
    unfolding refinesD [OF st(2)]
    by (rule weigh_transfer [OF st(3)]) (simp add: count_list_map_inj_on [OF inj] sample_keys_ids)
  moreover have "self (fn_hits (fns_of st) (Some f) src) =
      weigh (\<lambda>s. if sample_keys s \<noteq> [] \<and> last (sample_keys s) = fkey st f then 1 else 0) src ?ys"
    unfolding refinesD [OF st(2)]
    by (rule weigh_transfer [OF st(3)]) (simp only: prod.case sample_keys_ids last_map_inj_on [OF inj])
  ultimately show ?thesis by (simp add: at st(4) Let_def)
qed

theorem function_hits_count_frames_witness:
  "\<exists>r < length (all_functions example_analysis). fkey example_analysis r = (''a'', ''r'') \<and>
     hits_get (function_hits (all_functions example_analysis ! r)) 0 = \<lparr>total = 3, self = 2\<rparr>"
proof -
  obtain r where r: "r < length (all_functions example_analysis)" "fkey example_analysis r = (''a'', ''r'')"
    using example_function by blast
  with function_hits_count_frames [OF example_analysis r(1), of 0] show ?thesis
    by (auto simp: example_run example_simps)
qed

text \<open>C7: the edges. The total hits of callee \<open>k\<close> at function \<open>g\<close> are the number of times \<open>g\<close>
  calls \<open>k\<close> directly in a stack of the source, and the callers of \<open>k\<close> record the same number for
  \<open>g\<close>; the root function's callees are the outermost functions of the stacks. The caller map of a
  function uses the root's id \<open>2 ^ 32 - 1\<close>, so there must not be more frames than that.\<close>

theorem edges_count_calls:
  assumes a: "analyze_stacks sources samples pid canceled = Some a"
    and g: "g < length (all_functions a)" and k: "k < length (all_functions a)"
    and frames: "sum_list (map (\<lambda>y. length (counted_frames (snd y))) (all_samples sources samples)) \<le> root_function_id"
  shows "let ys = before_cancel canceled 0 (all_samples sources samples);
      calls = weigh (\<lambda>s. if has_stack s then count_list (adjacent (sample_keys s)) (fkey a g, fkey a k) else 0) src ys;
      entries = weigh (\<lambda>s. if has_stack s \<and> sample_keys s \<noteq> [] \<and> hd (sample_keys s) = fkey a k then 1 else 0) src ys
    in total (hits_get (map_hits (callees (all_functions a ! g)) k) src) = calls \<and>
       total (hits_get (map_hits (callers (all_functions a ! k)) g) src) = calls \<and>
       total (hits_get (map_hits (callees (function_root a)) k) src) = entries \<and>
       total (hits_get (map_hits (callers (all_functions a ! k)) root_function_id) src) = entries"
proof -
  let ?ys = "before_cancel canceled 0 (all_samples sources samples)"
  obtain st xs where st: "analysis_wf st" "refines st xs" "samples_are st xs ?ys"
      "a = stacks_analysis.truncate st"
    using analyze_run [OF a] by (auto simp: run_ok_def)
  have root: "length (all_functions a) \<le> root_function_id" using analysis_length [OF a] frames by simp
  have inj: "inj_on (fkey st) ({g, k} \<union> set ids)" "inj_on (fkey st) (insert k (set ids))"
      "root_function_id \<notin> set ids" "g \<noteq> root_function_id"
    if "frames_are st ids (counted_frames s)" for ids s
    using frames_inj [OF st(1) that, of "[g, k]"] frames_inj [OF st(1) that, of "[k]"] g k st(4) root that
    by (auto simp: frames_are_def)
  have calls: "count_list (zip (None # map Some ids) ids) (Some g, k) =
        count_list (adjacent (sample_keys s)) (fkey st g, fkey st k)"
      "count_list (zip (root_function_id # ids) ids) (g, k) =
        count_list (adjacent (sample_keys s)) (fkey st g, fkey st k)"
      "count_list (zip (None # map Some ids) ids) (None, k) =
        (if sample_keys s \<noteq> [] \<and> hd (sample_keys s) = fkey st k then 1 else 0)"
      "count_list (zip (root_function_id # ids) ids) (root_function_id, k) =
        (if sample_keys s \<noteq> [] \<and> hd (sample_keys s) = fkey st k then 1 else 0)"
    if f: "frames_are st ids (counted_frames s)" for ids s
  proof -
    note keys = sample_keys_ids [OF f] count_adjacent_map_inj_on [OF inj(1) [OF f]] hd_map_inj_on [OF inj(2) [OF f]]
    show "count_list (zip (None # map Some ids) ids) (Some g, k) =
        count_list (adjacent (sample_keys s)) (fkey st g, fkey st k)"
      by (simp only: count_callees keys)
    show "count_list (zip (root_function_id # ids) ids) (g, k) =
        count_list (adjacent (sample_keys s)) (fkey st g, fkey st k)"
      by (simp only: count_callers(1) [OF inj(3,4) [OF f]] keys)
    show "count_list (zip (None # map Some ids) ids) (None, k) =
        (if sample_keys s \<noteq> [] \<and> hd (sample_keys s) = fkey st k then 1 else 0)"
      by (simp only: count_callees keys)
    show "count_list (zip (root_function_id # ids) ids) (root_function_id, k) =
        (if sample_keys s \<noteq> [] \<and> hd (sample_keys s) = fkey st k then 1 else 0)"
      by (simp only: count_callers(2) [OF inj(3) [OF f]] keys)
  qed
  have "total (callee_hits (fns_of st) (Some g) k src) =
      weigh (\<lambda>s. if has_stack s then count_list (adjacent (sample_keys s)) (fkey st g, fkey st k) else 0) src ?ys"
    unfolding refinesD [OF st(2)] by (rule weigh_transfer [OF st(3)]) (simp only: prod.case calls(1))
  moreover have "total (caller_hits (fns_of st) (Some k) g src) =
      weigh (\<lambda>s. if has_stack s then count_list (adjacent (sample_keys s)) (fkey st g, fkey st k) else 0) src ?ys"
    unfolding refinesD [OF st(2)] by (rule weigh_transfer [OF st(3)]) (simp only: prod.case calls(2))
  moreover have "total (callee_hits (fns_of st) None k src) = weigh (\<lambda>s. if has_stack s \<and>
      sample_keys s \<noteq> [] \<and> hd (sample_keys s) = fkey st k then 1 else 0) src ?ys"
    unfolding refinesD [OF st(2)] by (rule weigh_transfer [OF st(3)]) (simp only: prod.case calls(3), simp)
  moreover have "total (caller_hits (fns_of st) (Some k) root_function_id src) = weigh (\<lambda>s. if has_stack s \<and>
      sample_keys s \<noteq> [] \<and> hd (sample_keys s) = fkey st k then 1 else 0) src ?ys"
    unfolding refinesD [OF st(2)] by (rule weigh_transfer [OF st(3)]) (simp only: prod.case calls(4), simp)
  ultimately show ?thesis
    using g k unfolding st(4) truncate_sel Let_def
    by (simp add: callee_hits_def caller_hits_def fns_of_def rooted_at_def)
qed

theorem edges_count_calls_witness:
  "\<exists>m r. total (hits_get (map_hits (callees (all_functions example_analysis ! m)) r) 0) = 1 \<and>
     total (hits_get (map_hits (callers (all_functions example_analysis ! r)) r) 0) = 1 \<and>
     total (hits_get (map_hits (callees (function_root example_analysis)) m) 0) = 2"
proof -
  obtain m where m: "m < length (all_functions example_analysis)" "fkey example_analysis m = (''a'', ''m'')"
    using example_function by blast
  obtain r where r: "r < length (all_functions example_analysis)" "fkey example_analysis r = (''a'', ''r'')"
    using example_function by blast
  have frames: "sum_list (map (\<lambda>y. length (counted_frames (snd y))) (all_samples [0] example_samples)) \<le> root_function_id"
    by (simp add: all_samples_def example_simps root_function_id_def)
  have "total (hits_get (map_hits (callees (all_functions example_analysis ! m)) r) 0) = 1"
    using edges_count_calls [OF example_analysis m(1) r(1) frames, of 0, unfolded m(2) r(2) example_run Let_def]
    by (simp add: example_simps)
  moreover have "total (hits_get (map_hits (callers (all_functions example_analysis ! r)) r) 0) = 1"
    using edges_count_calls [OF example_analysis r(1) r(1) frames, of 0, unfolded r(2) example_run Let_def]
    by (simp add: example_simps)
  moreover have "total (hits_get (map_hits (callees (function_root example_analysis)) m) 0) = 2"
    using edges_count_calls [OF example_analysis m(1) m(1) frames, of 0, unfolded m(2) example_run Let_def]
    by (simp add: example_simps)
  ultimately show ?thesis by blast
qed

text \<open>The hits of a module. Its total is the number of frames of its name, once per frame (not
  once per sample), its self hits the number of samples whose innermost frame is in it.\<close>

lemma module_hits_count_frames:
  assumes a: "analyze_stacks sources samples pid canceled = Some a" and m: "m < length (all_modules a)"
  shows "hits_get (module_hits (all_modules a ! m)) src =
    (let ys = before_cancel canceled 0 (all_samples sources samples);
         name = module_row_name (all_modules a ! m) in
     \<lparr>total = weigh (\<lambda>s. count_list (map fst (sample_keys s)) name) src ys,
      self = weigh (\<lambda>s. if sample_keys s \<noteq> [] \<and> fst (last (sample_keys s)) = name then 1 else 0) src ys\<rparr>)"
proof -
  let ?ys = "before_cancel canceled 0 (all_samples sources samples)"
  obtain st xs where st: "analysis_wf st" "refines st xs" "samples_are st xs ?ys"
      "a = stacks_analysis.truncate st"
    using analyze_run [OF a] by (auto simp: run_ok_def)
  let ?name = "\<lambda>i. module_row_name (all_modules st ! i)"
  have m': "m < length (all_modules st)" using m st(4) by simp
  have at: "hits_get (module_hits (all_modules st ! m)) src = mod_hits (all_modules st) m src"
    using m' by (simp add: mod_hits_def)
  have dist: "inj_on ?name {..<length (all_modules st)}"
    using st(1) table_wf_keys(1) [of module_id module_row_name "all_modules st" "modules_by_name st"]
    by (auto simp: analysis_wf_def module_table_wf_def distinct_conv_nth inj_on_def)
  have inj: "inj_on ?name (insert m (set (map (fmod st) ids)))" "map fst (sample_keys s) = map ?name (map (fmod st) ids)"
    if "frames_are st ids (counted_frames s)" for ids s
  proof -
    show "inj_on ?name (insert m (set (map (fmod st) ids)))"
      using st(1) that m' by (intro inj_on_subset [OF dist]) (auto simp: analysis_wf_def frames_are_def)
    show "map fst (sample_keys s) = map ?name (map (fmod st) ids)"
      by (simp add: sample_keys_ids [OF that] fkey_def)
  qed
  have lasts: "(sample_keys s \<noteq> [] \<and> fst (last (sample_keys s)) = ?name m) \<longleftrightarrow> (ids \<noteq> [] \<and> fmod st (last ids) = m)"
    if "frames_are st ids (counted_frames s)" for ids s
  proof (cases "ids = []")
    case False
    then have "fst (last (sample_keys s)) = ?name (fmod st (last ids))"
      by (simp add: sample_keys_ids [OF that] last_map fkey_def)
    moreover have "?name (fmod st (last ids)) = ?name m \<longleftrightarrow> fmod st (last ids) = m"
      using inj(1) [OF that] False by (auto simp: inj_on_def)
    ultimately show ?thesis using False by (simp add: sample_keys_ids [OF that])
  qed (simp add: sample_keys_ids [OF that])
  have "total (mod_hits (all_modules st) m src) = weigh (\<lambda>s. count_list (map fst (sample_keys s)) (?name m)) src ?ys"
    unfolding refinesD [OF st(2)]
    by (rule weigh_transfer [OF st(3)]) (simp only: prod.case inj(2) count_list_map_inj_on [OF inj(1)])
  moreover have "self (mod_hits (all_modules st) m src) =
      weigh (\<lambda>s. if sample_keys s \<noteq> [] \<and> fst (last (sample_keys s)) = ?name m then 1 else 0) src ?ys"
    unfolding refinesD [OF st(2)] by (rule weigh_transfer [OF st(3)]) (simp only: prod.case lasts)
  ultimately show ?thesis unfolding st(4) truncate_sel Let_def at by simp
qed

theorem module_hits_count_frames_witness:
  "\<exists>i < length (all_modules example_analysis). module_row_name (all_modules example_analysis ! i) = ''a'' \<and>
     hits_get (module_hits (all_modules example_analysis ! i)) 0 = \<lparr>total = 5, self = 3\<rparr>"
proof -
  obtain r where "fkey example_analysis r = (''a'', ''r'')"
      "fmod example_analysis r < length (all_modules example_analysis)"
    using example_function by blast
  then obtain i where i: "i < length (all_modules example_analysis)"
      "module_row_name (all_modules example_analysis ! i) = ''a''"
    by (auto simp: fkey_def)
  with module_hits_count_frames [OF example_analysis i(1), of 0] show ?thesis
    by (auto simp: example_run example_simps)
qed

lemma sum_samples_children:
  "sum_samples (\<lambda>x. sum_list (map (\<lambda>c. w c x) cs)) s xs = sum_list (map (\<lambda>c. sum_samples (w c) s xs) cs)"
proof (induction xs rule: rev_induct)
  case (snoc x xs)
  then show ?case by (simp add: sum_list_addf)
qed simp

lemma sum_samples_add: "sum_samples (\<lambda>x. v x + w x) s xs = sum_samples v s xs + sum_samples w s xs"
  by (induction xs rule: rev_induct) auto

lemma sum_samples_pos: "x \<in> set xs \<Longrightarrow> 0 < w x \<Longrightarrow> 0 < sum_samples w (fst x) xs"
  by (induction xs rule: rev_induct) auto

text \<open>Every longer stack goes on to exactly one child.\<close>

lemma child_of_stack:
  assumes wf: "tree_wf t" and q: "path_node t p = Some cur"
    and hits: "\<And>q. prefix q ids \<Longrightarrow> path_node t q \<noteq> None"
  shows "(if prefix p ids then 1 else 0 :: nat) = (if p = ids then 1 else 0) +
    sum_list (map (\<lambda>c. if prefix (p @ [fid t c]) ids then 1 else 0) (kids t cur))"
proof (cases "strict_prefix p ids")
  case False
  then have "\<not> prefix (p @ [f]) ids" for f by (auto simp: strict_prefix_def prefix_def)
  with False show ?thesis by (auto simp: strict_prefix_def)
next
  case True
  then obtain f r where ids: "ids = p @ f # r" by (auto elim: strict_prefixE')
  have v: "valid_ref t cur" using path_node_valid [OF wf q] .
  have "path_node t (p @ [f]) \<noteq> None" by (rule hits) (simp add: ids)
  then obtain c where c: "child t cur f = Some c" using q by auto
  have fs: "prefix (p @ [g]) ids \<longleftrightarrow> g = f" for g by (auto simp: ids)
  have "c \<in> set (kids t cur)" "fid t c = f" using child_Some [OF c] by auto
  moreover have dist: "distinct (map (fid t) (kids t cur))" by (rule tree_wfD(3) [OF wf v])
  ultimately have "sum_list (map (\<lambda>x. if fid t x = f then 1 else 0 :: nat) (kids t cur)) = 1"
    using sum_list_one [of "fid t" "kids t cur" c] by simp
  then show ?thesis using True by (simp add: fs ids)
qed

lemma samples_have_nodes:
  assumes wf: "analysis_wf st" and r: "refines st xs" and x: "(s, True, ids) \<in> set xs" and p: "prefix q ids"
  shows "path_node (tree_of st) q \<noteq> None"
proof
  assume "path_node (tree_of st) q = None"
  then have "total (path_hits (tree_of st) q s) = 0" by (simp add: path_hits_def)
  moreover have "0 < sum_samples (\<lambda>(_, b, ids). if b \<and> prefix q ids then 1 else 0) s xs"
    using sum_samples_pos [OF x, of "\<lambda>(_, b, ids). if b \<and> prefix q ids then 1 else 0"] p by simp
  ultimately show False using refinesD(1) [OF r] by simp
qed

lemma node_conservation:
  assumes wf: "analysis_wf st" and r: "refines st xs" and q: "path_node (tree_of st) p = Some cur"
  shows "total (path_hits (tree_of st) p s) = self (path_hits (tree_of st) p s) +
    sum_list (map (\<lambda>c. total (path_hits (tree_of st) (p @ [fid (tree_of st) c]) s)) (kids (tree_of st) cur))"
proof -
  let ?t = "tree_of st"
  have twf: "tree_wf ?t" using wf by (simp add: analysis_wf_def)
  let ?pre = "\<lambda>p (_ :: nat, b :: bool, ids). if b \<and> prefix p ids then 1 else 0 :: nat"
  have "?pre p x = (case x of (_, b, ids) \<Rightarrow> if b \<and> p = ids then 1 else 0) +
      sum_list (map (\<lambda>c. ?pre (p @ [fid ?t c]) x) (kids ?t cur))" if "x \<in> set xs" for x
  proof (cases x)
    case (fields src b ids)
    show ?thesis
    proof (cases b)
      case True
      then have "path_node ?t q \<noteq> None" if "prefix q ids" for q
        using samples_have_nodes [OF wf r _ that] \<open>x \<in> set xs\<close> fields by simp
      from child_of_stack [OF twf q this] show ?thesis by (simp add: fields True)
    qed (simp add: fields)
  qed
  then have "sum_samples (?pre p) s xs =
      sum_samples (\<lambda>x. (case x of (_, b, ids) \<Rightarrow> if b \<and> p = ids then 1 else 0) +
        sum_list (map (\<lambda>c. ?pre (p @ [fid ?t c]) x) (kids ?t cur))) s xs"
    by (rule sum_samples_cong)
  then show ?thesis
    by (simp add: sum_samples_add sum_samples_children refinesD [OF r])
qed

text \<open>hits are conserved along the call tree. For every node the code can reach by its id, and
  the root, the total of a source is its self hits plus the totals of its children.\<close>

lemma call_tree_conserves_hits:
  assumes a: "analyze_stacks sources samples pid canceled = Some a"
    and node: "node = call_tree_root a \<or> node \<in> set (call_tree_nodes a)"
  shows "total (hits_get (node_hits node) src) = self (hits_get (node_hits node) src) +
    sum_list (map (\<lambda>c. total (hits_get (node_hits (call_tree_nodes a ! c)) src)) (node_children node))"
proof -
  obtain st xs where st: "analysis_wf st" "refines st xs" "a = stacks_analysis.truncate st"
    using analyze_run [OF a] by (auto simp: run_ok_def)
  have twf: "tree_wf (tree_of st)" using st(1) by (simp add: analysis_wf_def)
  obtain cur where cur: "valid_ref (tree_of st) cur" "rooted_at (tree_of st) cur = node"
  proof (cases "node = call_tree_root a")
    case True
    then show ?thesis by (intro that [of None]) (simp_all add: st(3) rooted_at_def tree_of_def)
  next
    case False
    with node obtain i where "i < length (call_tree_nodes st)" "call_tree_nodes st ! i = node"
      by (auto simp: in_set_conv_nth st(3))
    then show ?thesis by (intro that [of "Some i"]) (simp_all add: rooted_at_def tree_of_def)
  qed
  obtain p where p: "path_node (tree_of st) p = Some cur" using path_node_exists [OF twf cur(1)] ..
  have "path_node (tree_of st) (p @ [fid (tree_of st) c]) = Some (Some c)" if "c \<in> set (node_children node)" for c
    using that p child_of_kid [OF twf cur(1), of c] by (simp add: kids_def cur(2))
  then have "path_hits (tree_of st) (p @ [fid (tree_of st) c]) src = hits_get (node_hits (call_tree_nodes st ! c)) src"
    if "c \<in> set (node_children node)" for c
    using that by (simp add: path_hits_def rooted_at_def tree_of_def del: path_node_simps)
  then have "map (\<lambda>c. total (path_hits (tree_of st) (p @ [fid (tree_of st) c]) src)) (kids (tree_of st) cur) =
      map (\<lambda>c. total (hits_get (node_hits (call_tree_nodes st ! c)) src)) (node_children node)"
    by (simp add: kids_def cur(2))
  with node_conservation [OF st(1,2) p, of src] show ?thesis
    by (simp add: path_hits_at [OF p, symmetric] cur(2) st(3))
qed

theorem call_tree_conserves_hits_witness:
  "total (hits_get (node_hits (call_tree_root example_analysis)) 0) =
     self (hits_get (node_hits (call_tree_root example_analysis)) 0) +
     sum_list (map (\<lambda>c. total (hits_get (node_hits (call_tree_nodes example_analysis ! c)) 0))
       (node_children (call_tree_root example_analysis)))"
  by (rule call_tree_conserves_hits [OF example_analysis]) simp



end
