(* ===== verification/Strings.thy ===== *)
theory Strings
  imports Prelude
begin

text \<open>
  The string helpers of \<open>snail/common\<close>: \<open>wildcard.cpp\<close>, \<open>trim.cpp\<close> and \<open>string_compare.cpp\<close>.
  \<open>std::regex\<close> is modelled for the patterns that \<open>wildcard_to_regex\<close> writes: an anchored
  non-capturing group of escaped characters, plain characters, \<open>.\<close> and \<open>.*\<close>, where \<open>.\<close> is any
  character but a line terminator, as in the default ECMAScript grammar.
\<close>

section \<open>Wildcards\<close>

definition special_chars :: string where
  "special_chars = ''()[]{}?*+-|^$'' @ [CHR 0x5C] @ ''.&~# '' @
     [CHR 0x09, CHR 0x0A, CHR 0x0D, CHR 0x0B, CHR 0x0C]"

definition append_regex_escaped :: "string \<Rightarrow> char \<Rightarrow> string" where
  "append_regex_escaped output c =
     (if c \<in> set special_chars then output @ [CHR 0x5C] else output) @ [c]"

definition wildcard_step :: "string \<times> bool \<Rightarrow> char \<Rightarrow> string \<times> bool" where
  "wildcard_step = (\<lambda>(result, last_was_star) c.
     if c = CHR ''*'' then
       (if last_was_star then (result, last_was_star) else (result @ ''.*'', True))
     else if c = CHR ''?'' then (result @ ''.'', False)
     else (append_regex_escaped result c, False))"

definition wildcard_to_regex :: "string \<Rightarrow> string" where
  "wildcard_to_regex pattern = fst (foldl wildcard_step (''^(?:'', False) pattern) @ '')$''"

section \<open>Regular expressions\<close>

datatype regex_item = Literal char | AnyChar | AnyChars

fun regex_items :: "string \<Rightarrow> regex_item list" where
  "regex_items [] = []"
| "regex_items [c] = [if c = CHR ''.'' then AnyChar else Literal c]"
| "regex_items (c # d # s) =
     (if c = CHR 0x5C then Literal d # regex_items s
      else if c = CHR ''.'' \<and> d = CHR ''*'' then AnyChars # regex_items s
      else (if c = CHR ''.'' then AnyChar else Literal c) # regex_items (d # s))"

definition line_terminator :: "char \<Rightarrow> bool" where
  "line_terminator c \<longleftrightarrow> c = CHR 0x0A \<or> c = CHR 0x0D"

fun match_items :: "regex_item list \<Rightarrow> string \<Rightarrow> bool" where
  "match_items [] s \<longleftrightarrow> s = []"
| "match_items (Literal c # r) s \<longleftrightarrow> (case s of [] \<Rightarrow> False | d # s' \<Rightarrow> d = c \<and> match_items r s')"
| "match_items (AnyChar # r) s \<longleftrightarrow>
     (case s of [] \<Rightarrow> False | d # s' \<Rightarrow> \<not> line_terminator d \<and> match_items r s')"
| "match_items (AnyChars # r) [] \<longleftrightarrow> match_items r []"
| "match_items (AnyChars # r) (d # s) \<longleftrightarrow>
     match_items r (d # s) \<or> (\<not> line_terminator d \<and> match_items (AnyChars # r) s)"

definition regex_body :: "string \<Rightarrow> string option" where
  "regex_body re =
     (if take 4 re = ''^(?:'' \<and> length re \<ge> 6 \<and> drop (length re - 2) re = '')$''
      then Some (take (length re - 6) (drop 4 re)) else None)"

definition regex_match :: "string \<Rightarrow> string \<Rightarrow> bool" where
  "regex_match input re =
     (case regex_body re of None \<Rightarrow> False | Some b \<Rightarrow> match_items (regex_items b) input)"

section \<open>What a wildcard means\<close>

inductive glob :: "string \<Rightarrow> string \<Rightarrow> bool" where
  empty: "glob [] []"
| star: "\<forall>c \<in> set xs. \<not> line_terminator c \<Longrightarrow> glob p s \<Longrightarrow> glob (CHR ''*'' # p) (xs @ s)"
| question: "\<not> line_terminator c \<Longrightarrow> glob p s \<Longrightarrow> glob (CHR ''?'' # p) (c # s)"
| plain: "c \<noteq> CHR ''*'' \<Longrightarrow> c \<noteq> CHR ''?'' \<Longrightarrow> glob p s \<Longrightarrow> glob (c # p) (c # s)"

inductive_cases glob_NilE: "glob [] s"
inductive_cases glob_ConsE: "glob (c # p) s"

lemma glob_Nil_iff: "glob [] s \<longleftrightarrow> s = []"
  by (auto elim: glob_NilE intro: glob.intros)

lemma glob_star_iff:
  "glob (CHR ''*'' # p) s \<longleftrightarrow> (\<exists>xs t. s = xs @ t \<and> (\<forall>c \<in> set xs. \<not> line_terminator c) \<and> glob p t)"
  by (subst glob.simps) auto

lemma glob_question_iff:
  "glob (CHR ''?'' # p) s \<longleftrightarrow> (\<exists>c t. s = c # t \<and> \<not> line_terminator c \<and> glob p t)"
  by (auto elim: glob_ConsE intro: glob.intros)

lemma glob_char_iff:
  "c \<noteq> CHR ''*'' \<Longrightarrow> c \<noteq> CHR ''?'' \<Longrightarrow> glob (c # p) s \<longleftrightarrow> (\<exists>t. s = c # t \<and> glob p t)"
  by (auto elim: glob_ConsE intro: glob.intros)

lemma glob_star_star: "glob (CHR ''*'' # CHR ''*'' # p) s \<longleftrightarrow> glob (CHR ''*'' # p) s"
proof
  assume "glob (CHR ''*'' # CHR ''*'' # p) s"
  then obtain xs ys t where "s = xs @ ys @ t" "\<forall>c \<in> set xs. \<not> line_terminator c"
      "\<forall>c \<in> set ys. \<not> line_terminator c" "glob p t"
    unfolding glob_star_iff by blast
  then have "s = (xs @ ys) @ t" "\<forall>c \<in> set (xs @ ys). \<not> line_terminator c" "glob p t" by auto
  then show "glob (CHR ''*'' # p) s" unfolding glob_star_iff by blast
next
  assume "glob (CHR ''*'' # p) s"
  then show "glob (CHR ''*'' # CHR ''*'' # p) s"
    using glob.star [of "[]" "CHR ''*'' # p" s] by simp
qed

text \<open>The items of a pattern, with runs of stars taken as one.\<close>

fun wildcard_items :: "bool \<Rightarrow> string \<Rightarrow> regex_item list" where
  "wildcard_items last_was_star [] = []"
| "wildcard_items last_was_star (c # p) =
     (if c = CHR ''*'' then (if last_was_star then wildcard_items True p else AnyChars # wildcard_items True p)
      else if c = CHR ''?'' then AnyChar # wildcard_items False p
      else Literal c # wildcard_items False p)"

lemma match_AnyChars:
  "match_items (AnyChars # r) s \<longleftrightarrow>
     (\<exists>xs t. s = xs @ t \<and> (\<forall>c \<in> set xs. \<not> line_terminator c) \<and> match_items r t)"
proof (induction s)
  case (Cons d s)
  show ?case
  proof
    assume "match_items (AnyChars # r) (d # s)"
    then consider "match_items r (d # s)" | "\<not> line_terminator d" "match_items (AnyChars # r) s" by auto
    then show "\<exists>xs t. d # s = xs @ t \<and> (\<forall>c \<in> set xs. \<not> line_terminator c) \<and> match_items r t"
    proof cases
      case 1
      then show ?thesis by (intro exI [of _ "[]"] exI [of _ "d # s"]) simp
    next
      case 2
      then obtain xs t where "s = xs @ t" "\<forall>c \<in> set xs. \<not> line_terminator c" "match_items r t"
        using Cons.IH by blast
      with 2 show ?thesis by (intro exI [of _ "d # xs"] exI [of _ t]) simp
    qed
  next
    assume "\<exists>xs t. d # s = xs @ t \<and> (\<forall>c \<in> set xs. \<not> line_terminator c) \<and> match_items r t"
    then obtain xs t where x: "d # s = xs @ t" "\<forall>c \<in> set xs. \<not> line_terminator c" "match_items r t" by blast
    then show "match_items (AnyChars # r) (d # s)"
    proof (cases xs)
      case Nil
      with x show ?thesis by (cases t) auto
    next
      case (Cons y ys)
      with x have "match_items (AnyChars # r) s" unfolding Cons.IH by auto
      with x Cons show ?thesis by simp
    qed
  qed
qed simp

lemma match_wildcard_items:
  "(\<not> l \<longrightarrow> match_items (wildcard_items l p) s \<longleftrightarrow> glob p s) \<and>
   (l \<longrightarrow> match_items (AnyChars # wildcard_items l p) s \<longleftrightarrow> glob (CHR ''*'' # p) s)"
proof (induction p arbitrary: l s)
  case Nil
  show ?case unfolding match_AnyChars glob_star_iff by (simp add: glob_Nil_iff)
next
  case (Cons c p)
  have f: "match_items (wildcard_items False p) t \<longleftrightarrow> glob p t"
    and t: "match_items (AnyChars # wildcard_items True p) t \<longleftrightarrow> glob (CHR ''*'' # p) t" for t
    using Cons.IH by auto
  have plain: "match_items (wildcard_items False (c # p)) u \<longleftrightarrow> glob (c # p) u" for u
    using f t [of u] by (auto simp: glob_question_iff glob_char_iff split: list.split)
  show ?case
  proof (cases "c = CHR ''*''")
    case True
    then show ?thesis using plain [of s] t [of s] by (simp add: glob_star_star del: match_items.simps)
  next
    case False
    then have "wildcard_items True (c # p) = wildcard_items False (c # p)" by simp
    then show ?thesis unfolding match_AnyChars glob_star_iff using plain by metis
  qed
qed

text \<open>The text written for a pattern is read back as its items.\<close>

fun wildcard_text :: "bool \<Rightarrow> string \<Rightarrow> string" where
  "wildcard_text last_was_star [] = []"
| "wildcard_text last_was_star (c # p) =
     (if c = CHR ''*'' then (if last_was_star then wildcard_text True p else ''.*'' @ wildcard_text True p)
      else if c = CHR ''?'' then ''.'' @ wildcard_text False p
      else append_regex_escaped [] c @ wildcard_text False p)"

lemma wildcard_fold:
  "fst (foldl wildcard_step (r, l) p) = r @ wildcard_text l p"
  by (induction p arbitrary: r l)
    (auto simp: wildcard_step_def append_regex_escaped_def)

lemma wildcard_text_hd: "wildcard_text l p \<noteq> [] \<Longrightarrow> hd (wildcard_text l p) \<noteq> CHR ''*''"
proof (induction p arbitrary: l)
  case (Cons c p)
  show ?case
  proof (cases "c = CHR ''*'' \<and> l")
    case True
    then show ?thesis using Cons.IH [of True] Cons.prems by simp
  next
    case False
    then show ?thesis by (auto simp: append_regex_escaped_def special_chars_def)
  qed
qed simp

lemma regex_items_dot:
  "s = [] \<or> hd s \<noteq> CHR ''*'' \<Longrightarrow> regex_items (CHR ''.'' # s) = AnyChar # regex_items s"
  by (cases s) auto

lemma regex_items_plain:
  "c \<noteq> CHR ''.'' \<Longrightarrow> c \<noteq> CHR 0x5C \<Longrightarrow> regex_items (c # s) = Literal c # regex_items s"
  by (cases s) auto

lemma regex_items_escaped: "regex_items (append_regex_escaped [] c @ s) = Literal c # regex_items s"
proof (cases "c \<in> set special_chars")
  case False
  then have "c \<noteq> CHR ''.''" "c \<noteq> CHR 0x5C" by (auto simp: special_chars_def)
  with False show ?thesis by (simp add: append_regex_escaped_def regex_items_plain)
qed (simp add: append_regex_escaped_def)

lemma regex_items_wildcard_text: "regex_items (wildcard_text l p) = wildcard_items l p"
proof (induction p arbitrary: l)
  case (Cons c p)
  have dot: "regex_items (CHR ''.'' # wildcard_text False p) = AnyChar # regex_items (wildcard_text False p)"
    using wildcard_text_hd [of False p] by (intro regex_items_dot) auto
  show ?case using Cons.IH by (simp add: dot regex_items_escaped)
qed simp

lemma regex_body_group: "regex_body (''^(?:'' @ b @ '')$'') = Some b"
  by (simp add: regex_body_def)

lemma regex_match_wildcard:
  "regex_match s (wildcard_to_regex p) \<longleftrightarrow> glob p s"
proof -
  have "regex_body (wildcard_to_regex p) = Some (wildcard_text False p)"
    using regex_body_group [of "wildcard_text False p"] by (simp add: wildcard_to_regex_def wildcard_fold)
  then show ?thesis
    using match_wildcard_items [of False p s] by (simp add: regex_match_def regex_items_wildcard_text)
qed

section \<open>Trimming and comparing\<close>

definition isspace :: "char \<Rightarrow> bool" where
  "isspace c \<longleftrightarrow> c \<in> set [CHR 0x20, CHR 0x09, CHR 0x0A, CHR 0x0B, CHR 0x0C, CHR 0x0D]"

definition trim_left :: "string \<Rightarrow> string" where
  "trim_left input = drop (length (takeWhile isspace input)) input"

definition trim_right :: "string \<Rightarrow> string" where
  "trim_right input = take (length input - length (takeWhile isspace (rev input))) input"

definition trim :: "string \<Rightarrow> string" where
  "trim input = trim_left (trim_right input)"

definition ascii_tolower :: "char \<Rightarrow> char" where
  "ascii_tolower ch =
     (let c = (of_char ch :: nat) in char_of (if c > 96 \<and> c < 123 then c - 32 else c))"

definition ascii_iequals :: "string \<Rightarrow> string \<Rightarrow> bool" where
  "ascii_iequals lhs rhs \<longleftrightarrow>
     length lhs = length rhs \<and> (\<forall>i < length lhs. ascii_tolower (lhs ! i) = ascii_tolower (rhs ! i))"

lemma ascii_iequals_map: "ascii_iequals lhs rhs \<longleftrightarrow> map ascii_tolower lhs = map ascii_tolower rhs"
  by (auto simp: ascii_iequals_def list_eq_iff_nth_eq)

lemma trim_right_dropWhile: "trim_right s = rev (dropWhile isspace (rev s))"
proof -
  have "dropWhile isspace (rev s) = drop (length (takeWhile isspace (rev s))) (rev s)"
    by (simp add: range_simps)
  then show ?thesis by (simp add: trim_right_def rev_drop)
qed

section \<open>Properties\<close>


section \<open>Decimal numbers\<close>

text \<open>\<open>operator<<\<close> and \<open>std::format\<close> for an unsigned number.\<close>

definition digit :: "nat \<Rightarrow> char" where
  "digit n = char_of (48 + n)"

fun dec :: "nat \<Rightarrow> string" where
  "dec n = (if n < 10 then [digit n] else dec (n div 10) @ [digit (n mod 10)])"

declare dec.simps [simp del]

end
