(* ===== verification/Options.thy ===== *)
theory Options
  imports Strings
begin

text \<open>
  The options of \<open>snail/analysis/options.cpp\<close> and the path map of \<open>snail/analysis/path_map.cpp\<close>.
  A \<open>std::regex\<close> is kept as the text it was built from; its matcher is \<open>regex_match\<close> of
  \<open>Strings\<close>. The process environment and the system directories are a record of what the code
  asks for. File system paths are strings; \<open>a / b\<close> is \<open>path_join\<close>.
\<close>

section \<open>Environment\<close>

record environment =
  get_env_var :: "string \<Rightarrow> string option"
  get_temp_dir :: string
  get_home_dir :: "string option"

definition path_join :: "string \<Rightarrow> string \<Rightarrow> string" where
  "path_join a b = (if a = [] \<or> last a = CHR ''/'' then a @ b else a @ ''/'' @ b)"

section \<open>Module filter\<close>

datatype filter_mode = all_but_excluded | only_included

record filter_options =
  mode :: filter_mode
  included :: "string list"
  excluded :: "string list"

definition default_filter_options :: filter_options where
  "default_filter_options = \<lparr>mode = all_but_excluded, included = [], excluded = []\<rparr>"

fun matches_any :: "string \<Rightarrow> string list \<Rightarrow> bool" where
  "matches_any input [] = False"
| "matches_any input (pattern # patterns) = (if regex_match input pattern then True else matches_any input patterns)"

definition filter_check :: "filter_options \<Rightarrow> string \<Rightarrow> bool" where
  "filter_check f input =
     (case mode f of
        all_but_excluded \<Rightarrow> \<not> matches_any input (excluded f)
      | only_included \<Rightarrow> matches_any input (included f))"

section \<open>Symbol lookup options\<close>

record pdb_symbol_find_options =
  search_dirs :: "string list"
  symbol_cache_dir :: string
  symbol_server_urls :: "string list"

record dwarf_symbol_find_options =
  dwarf_search_dirs :: "string list"
  debuginfod_cache_dir :: string
  debuginfod_urls :: "string list"

definition default_pdb_options :: "environment \<Rightarrow> pdb_symbol_find_options" where
  "default_pdb_options env =
     \<lparr>search_dirs = [], symbol_cache_dir = path_join (get_temp_dir env) ''SymbolCache'',
      symbol_server_urls = [''https://msdl.microsoft.com/download/symbols'']\<rparr>"

text \<open>\<open>std::views::split\<close>: an empty input has no parts; otherwise the parts between separators,
  empty ones included.\<close>

fun split_at :: "char \<Rightarrow> string \<Rightarrow> string list" where
  "split_at d [] = [[]]"
| "split_at d (c # s) =
     (if c = d then [] # split_at d s
      else (case split_at d s of [] \<Rightarrow> [[c]] | p # ps \<Rightarrow> (c # p) # ps))"

definition views_split :: "string \<Rightarrow> char \<Rightarrow> string list" where
  "views_split s d = (if s = [] then [] else split_at d s)"

definition default_dwarf_options :: "environment \<Rightarrow> dwarf_symbol_find_options" where
  "default_dwarf_options env =
     \<lparr>dwarf_search_dirs = [],
      debuginfod_cache_dir =
        (case get_env_var env ''DEBUGINFOD_CACHE_PATH'' of
           Some p \<Rightarrow> p
         | None \<Rightarrow>
             (case get_env_var env ''XDG_CACHE_HOME'' of
                Some p \<Rightarrow> path_join p ''snail''
              | None \<Rightarrow>
                  path_join (path_join (case get_home_dir env of Some h \<Rightarrow> h | None \<Rightarrow> get_temp_dir env)
                    ''.cache'') ''snail'')),
      debuginfod_urls =
        (case get_env_var env ''DEBUGINFOD_URLS'' of
           None \<Rightarrow> []
         | Some urls \<Rightarrow> views_split urls (CHR '' ''))\<rparr>"

record options =
  pdb_find_options :: pdb_symbol_find_options
  dwarf_find_options :: dwarf_symbol_find_options
  module_filter :: filter_options

definition default_options :: "environment \<Rightarrow> options" where
  "default_options env = \<lparr>pdb_find_options = default_pdb_options env,
     dwarf_find_options = default_dwarf_options env, module_filter = default_filter_options\<rparr>"

section \<open>Sample filter\<close>

record sample_filter =
  min_time :: "int option"
  max_time :: "int option"
  excluded_processes :: "nat set"
  excluded_threads :: "nat set"

definition no_filter :: sample_filter where
  "no_filter = \<lparr>min_time = None, max_time = None, excluded_processes = {}, excluded_threads = {}\<rparr>"

section \<open>Path map\<close>

text \<open>The only rules the program adds are simple ones. The regex mapper is a class of its own that
  rewrites with \<open>std::regex_replace\<close>, an argument of the model.\<close>

datatype path_mapper = simple_path_mapper string string | regex_path_mapper string string

fun mapper_try_apply ::
  "(string \<Rightarrow> string \<Rightarrow> string \<Rightarrow> string) \<Rightarrow> path_mapper \<Rightarrow> string \<Rightarrow> string \<times> bool" where
  "mapper_try_apply regex_replace (simple_path_mapper pattern replace_text) input =
     (if take (length pattern) input \<noteq> pattern then (input, False)
      else (replace_text @ drop (length pattern) input, True))"
| "mapper_try_apply regex_replace (regex_path_mapper pattern replace_text) input =
     (let output = regex_replace input pattern replace_text
      in if output \<noteq> input then (output, True) else (input, False))"

fun path_map_try_apply ::
  "(string \<Rightarrow> string \<Rightarrow> string \<Rightarrow> string) \<Rightarrow> path_mapper list \<Rightarrow> string \<Rightarrow> string \<times> bool" where
  "path_map_try_apply regex_replace [] input = (input, False)"
| "path_map_try_apply regex_replace (m # ms) input =
     (case mapper_try_apply regex_replace m input of
        (output, True) \<Rightarrow> (output, True)
      | (output, False) \<Rightarrow> path_map_try_apply regex_replace ms output)"

definition add_rule :: "path_mapper \<Rightarrow> path_mapper list \<Rightarrow> path_mapper list" where
  "add_rule m ms = ms @ [m]"

section \<open>Lemmas\<close>

lemma matches_any_iff: "matches_any input patterns \<longleftrightarrow> (\<exists>p \<in> set patterns. regex_match input p)"
  by (induction patterns) auto

lemma filter_check_iff:
  "filter_check f input \<longleftrightarrow>
     (if mode f = all_but_excluded then \<forall>p \<in> set (excluded f). \<not> regex_match input p
      else \<exists>p \<in> set (included f). regex_match input p)"
  by (cases "mode f") (auto simp: filter_check_def matches_any_iff)

lemma mapper_unchanged: "mapper_try_apply rr m input = (output, False) \<Longrightarrow> output = input"
  by (cases m) (auto simp: Let_def split: if_splits)

lemma path_map_append:
  "path_map_try_apply rr (ms @ ns) input =
     (case path_map_try_apply rr ms input of
        (output, True) \<Rightarrow> (output, True)
      | (output, False) \<Rightarrow> path_map_try_apply rr ns input)"
  by (induction ms) (auto split: prod.splits bool.splits dest: mapper_unchanged)

end
