(* ===== verification/Outcome.thy ===== *)
theory Outcome
  imports Prelude
begin

text \<open>
  Results of functions that may throw: a sum of the exception and the value, with the operations that
  chain them.
\<close>

section \<open>Exceptions\<close>

text \<open>The exceptions of the program: a \<open>std::runtime_error\<close> with its text, which the request tasks
  catch; a \<open>std::out_of_range\<close> (from \<open>at\<close>), which is no \<open>std::runtime_error\<close>; and \<open>Undefined\<close> for
  a null dereference or a span out of bounds.\<close>

datatype error = Throw string | OutOfRange | Undefined

section \<open>Chaining\<close>

definition bind_result :: "'e + 'a \<Rightarrow> ('a \<Rightarrow> 'e + 'b) \<Rightarrow> 'e + 'b" where
  "bind_result r k = (case r of Inl e \<Rightarrow> Inl e | Inr x \<Rightarrow> k x)"

fun map_result :: "('a \<Rightarrow> 'e + 'b) \<Rightarrow> 'a list \<Rightarrow> 'e + 'b list" where
  "map_result g [] = Inr []"
| "map_result g (x # xs) = bind_result (g x) (\<lambda>y. bind_result (map_result g xs) (\<lambda>ys. Inr (y # ys)))"

definition at_or_throw :: "'a option \<Rightarrow> error + 'a" where
  "at_or_throw x = (case x of None \<Rightarrow> Inl OutOfRange | Some y \<Rightarrow> Inr y)"

lemma bind_result_simps [simp]:
  "bind_result (Inl e) k = Inl e" "bind_result (Inr x) k = k x"
  by (simp_all add: bind_result_def)

lemma bind_result_Inr: "bind_result r k = Inr y \<longleftrightarrow> (\<exists>x. r = Inr x \<and> k x = Inr y)"
  by (cases r) auto

lemma at_or_throw_simps [simp]:
  "at_or_throw None = Inl OutOfRange" "at_or_throw (Some x) = Inr x"
  "at_or_throw v = Inr y \<longleftrightarrow> v = Some y"
  by (auto simp: at_or_throw_def split: option.split)

lemma map_sum_Inr: "map_sum id g r = Inr y \<longleftrightarrow> (\<exists>x. r = Inr x \<and> y = g x)"
  by (cases r) auto

lemma map_result_Inr: "map_result g xs = Inr ys \<longleftrightarrow> list_all2 (\<lambda>x y. g x = Inr y) xs ys"
  by (induction xs arbitrary: ys) (auto simp: bind_result_Inr list_all2_Cons1)

lemma map_result_length: "map_result g xs = Inr ys \<Longrightarrow> length ys = length xs"
  unfolding map_result_Inr by (simp add: list_all2_lengthD)

lemma map_result_all: "\<forall>x \<in> set xs. g x = Inr (h x) \<Longrightarrow> map_result g xs = Inr (map h xs)"
  by (induction xs) auto

lemma map_result_fails:
  assumes "\<And>x e'. x \<in> set xs \<Longrightarrow> g x = Inl e' \<Longrightarrow> e' = e" "x \<in> set xs" "g x = Inl e"
  shows "map_result g xs = Inl e"
  using assms(1,2)
proof (induction xs)
  case (Cons y ys)
  show ?case
  proof (cases "g y")
    case (Inl e')
    with Cons.prems(1) [of y e'] show ?thesis by simp
  next
    case (Inr z)
    with Cons.prems(2) assms(3) have "x \<in> set ys" by auto
    with Cons.IH Cons.prems(1) have "map_result g ys = Inl e" by (meson list.set_intros(2))
    with Inr show ?thesis by simp
  qed
qed simp

lemma map_result_error: "map_result g xs = Inl e \<Longrightarrow> \<exists>x \<in> set xs. g x = Inl e"
  by (induction xs) (auto simp: bind_result_def split: sum.splits)

lemma bind_result_Inl: "bind_result r k = Inl e \<Longrightarrow> r = Inl e \<or> (\<exists>x. r = Inr x \<and> k x = Inl e)"
  by (cases r) auto

lemma map_result_total: "(\<And>x. x \<in> set xs \<Longrightarrow> \<exists>y. g x = Inr y) \<Longrightarrow> \<exists>ys. map_result g xs = Inr ys"
proof (induction xs)
  case (Cons x xs)
  obtain y where "g x = Inr y" using Cons.prems by auto
  moreover obtain ys where "map_result g xs = Inr ys" using Cons by auto
  ultimately show ?case by simp
qed simp

end
