(* ===== verification/Provider.thy ===== *)
theory Provider
  imports Analysis Options Outcome
begin

text \<open>
  What a data provider tells: the records of \<open>snail/analysis/data\<close> and the abstract class
  \<open>analysis::data_provider\<close> of \<open>snail/analysis/data_provider.hpp\<close>, as a record of its virtual functions.
  Generators are lists. A member function that may throw returns a sum.
\<close>

text \<open>A double is kept as what it is computed from; rounding is not modelled.\<close>

datatype double_value = zero_double | percent_of nat nat | other_double int int

record sample_source_info =
  source_id :: nat
  source_name :: string
  number_of_samples :: nat
  average_sampling_rate :: double_value
  has_stacks :: bool

record session_info =
  command_line :: string
  session_date :: int
  session_runtime :: int
  number_of_processes :: nat
  number_of_threads :: nat
  session_samples :: nat

record system_info =
  hostname :: string
  platform :: string
  architecture :: string
  cpu_name :: string
  number_of_processors :: nat

record pmc_counter_info =
  counter_name :: "string option"
  counter_count :: nat

record process_info =
  process_key :: nat
  process_os_id :: nat
  process_name :: string
  process_start_time :: int
  process_end_time :: int
  process_context_switches :: "nat option"
  process_counters :: "pmc_counter_info list"

record thread_info =
  thread_key :: nat
  thread_os_id :: nat
  thread_name :: "string option"
  thread_start_time :: int
  thread_end_time :: int
  thread_context_switches :: "nat option"
  thread_counters :: "pmc_counter_info list"

record data_provider =
  sample_sources :: "sample_source_info list"
  sampling_processes :: "nat list"
  samples :: "nat \<Rightarrow> nat \<Rightarrow> sample_filter \<Rightarrow> sample_data list"
  count_samples :: "nat \<Rightarrow> nat \<Rightarrow> sample_filter \<Rightarrow> nat"
  count_thread_samples :: "nat \<Rightarrow> nat \<Rightarrow> sample_filter \<Rightarrow> nat"
  get_session_info :: session_info
  get_system_info :: system_info
  get_process_info :: "nat \<Rightarrow> error + process_info"
  get_threads_info :: "nat \<Rightarrow> error + thread_info list"

definition source_ids :: "data_provider \<Rightarrow> nat list" where
  "source_ids p = map source_id (sample_sources p)"

end
