(* ===== verification/Storage.thy ===== *)
theory Storage
  imports AnalysisResults Provider "HOL-Library.List_Lexorder" "HOL-Library.Char_ord"
begin

text \<open>
  The document storage of \<open>snail/server/detail/storage.cpp\<close>: open documents by id, each with its data
  provider, its sample filter and three levels of caches (sample counts, stack analyses by process,
  sorted function ids). The storage uses a data provider through the abstract class
  \<open>analysis::data_provider\<close> only (\<open>Provider\<close>); reading a file into one is an
  argument \<open>open_provider\<close> (it may throw). \<open>std::ranges::sort\<close> is an argument \<open>std_sort\<close> with the
  guarantee the standard gives (\<open>sort_spec\<close>), since the order of equivalent elements is not
  specified. A cancellation token is an oracle as in \<open>Analysis\<close>. Every operation returns a result or
  an error and the new state; after \<open>Undefined\<close> the state has no meaning (it is left as it was).
\<close>

section \<open>Data\<close>

datatype sum_type = sum_total | sum_self
datatype sort_by_kind = sort_by_name | sort_by_samples nat sum_type

record sample_sort_data =
  by_self_samples :: "nat list option"
  by_total_samples :: "nat list option"

record analysis_data =
  cached_analysis :: "stacks_analysis option"
  sorted_by_name :: "nat list option"
  sorted_by_samples :: "nat \<Rightarrow> sample_sort_data"

record document_storage =
  document_path :: string
  data_provider :: "data_provider option"
  document_filter :: sample_filter
  total_samples_counts :: "(nat \<rightharpoonup> nat) option"
  analysis_per_process :: "nat \<Rightarrow> analysis_data"

record storage =
  storage_options :: options
  module_path_map :: "path_mapper list"
  open_documents :: "nat \<rightharpoonup> document_storage"
  next_document_id :: nat

text \<open>\<open>operator[]\<close> of an unordered map creates a default element, so a map only read that way is a
  total function.\<close>

definition no_sort_data :: sample_sort_data where
  "no_sort_data = \<lparr>by_self_samples = None, by_total_samples = None\<rparr>"

definition no_analysis :: analysis_data where
  "no_analysis = \<lparr>cached_analysis = None, sorted_by_name = None, sorted_by_samples = (\<lambda>_. no_sort_data)\<rparr>"

definition initial_storage :: "environment \<Rightarrow> storage" where
  "initial_storage env = \<lparr>storage_options = default_options env, module_path_map = [],
     open_documents = Map.empty, next_document_id = 0\<rparr>"

section \<open>One document\<close>

definition sum_counts :: "data_provider \<Rightarrow> sample_filter \<Rightarrow> nat \<Rightarrow> nat" where
  "sum_counts p f src =
     foldl (\<lambda>count process_id. count + count_samples p src process_id f) 0 (sampling_processes p)"

definition new_counts :: "data_provider \<Rightarrow> sample_filter \<Rightarrow> (nat \<rightharpoonup> nat)" where
  "new_counts p f =
     foldl (\<lambda>counts src. counts(src \<mapsto> sum_counts p f src)) Map.empty (source_ids p)"

definition document_counts :: "document_storage \<Rightarrow> (error + (nat \<rightharpoonup> nat)) \<times> document_storage" where
  "document_counts d =
     (case total_samples_counts d of
        Some counts \<Rightarrow> (Inr counts, d)
      | None \<Rightarrow>
          (case data_provider d of
             None \<Rightarrow> (Inl Undefined, d)
           | Some p \<Rightarrow>
               let counts = new_counts p (document_filter d)
               in (Inr counts, d\<lparr>total_samples_counts := Some counts\<rparr>)))"

text \<open>A provider without sample sources makes \<open>analyze_stacks\<close> undefined.\<close>

definition analyze :: "data_provider \<Rightarrow> nat \<Rightarrow> sample_filter \<Rightarrow> (nat \<Rightarrow> bool) \<Rightarrow> stacks_analysis option" where
  "analyze p pid f canceled = analyze_stacks (source_ids p) (\<lambda>src. samples p src pid f) pid canceled"

definition get_process_analysis ::
  "nat \<Rightarrow> (nat \<Rightarrow> bool) \<Rightarrow> document_storage \<Rightarrow> (error + stacks_analysis) \<times> document_storage" where
  "get_process_analysis pid canceled d =
     (case cached_analysis (analysis_per_process d pid) of
        Some a \<Rightarrow> (Inr a, d)
      | None \<Rightarrow>
          (case data_provider d of
             None \<Rightarrow> (Inl Undefined, d)
           | Some p \<Rightarrow>
               (case analyze p pid (document_filter d) canceled of
                  None \<Rightarrow> (Inl Undefined, d)
                | Some a \<Rightarrow>
                    (Inr a, d\<lparr>analysis_per_process :=
                       (analysis_per_process d)(pid := no_analysis\<lparr>cached_analysis := Some a\<rparr>)\<rparr>))))"

text \<open>The comparisons. The ids come from the analysis itself, so \<open>get_function\<close> finds them.\<close>

definition name_less :: "stacks_analysis \<Rightarrow> nat \<Rightarrow> nat \<Rightarrow> bool" where
  "name_less a lhs rhs =
     (case (get_function a lhs, get_function a rhs) of
        (Some l, Some r) \<Rightarrow> function_name l < function_name r
      | _ \<Rightarrow> False)"

definition samples_less :: "(hit_counts \<Rightarrow> nat) \<Rightarrow> nat \<Rightarrow> stacks_analysis \<Rightarrow> nat \<Rightarrow> nat \<Rightarrow> bool" where
  "samples_less hit_value src a lhs rhs =
     (case (get_function a lhs, get_function a rhs) of
        (Some l, Some r) \<Rightarrow>
          (let lhs_value = hit_value (hits_get (function_hits l) src); rhs_value = hit_value (hits_get (function_hits r) src)
           in lhs_value < rhs_value \<or> (lhs_value = rhs_value \<and> function_name l < function_name r))
      | _ \<Rightarrow> False)"

definition sort_less :: "sort_by_kind \<Rightarrow> stacks_analysis \<Rightarrow> nat \<Rightarrow> nat \<Rightarrow> bool" where
  "sort_less k a =
     (case k of
        sort_by_name \<Rightarrow> name_less a
      | sort_by_samples src sum_total \<Rightarrow> samples_less total src a
      | sort_by_samples src sum_self \<Rightarrow> samples_less self src a)"

type_synonym sorter = "(nat \<Rightarrow> nat \<Rightarrow> bool) \<Rightarrow> nat list \<Rightarrow> nat list"

text \<open>The slot of the cache for a sort order.\<close>

definition cached_order :: "sort_by_kind \<Rightarrow> analysis_data \<Rightarrow> nat list option" where
  "cached_order k ad =
     (case k of
        sort_by_name \<Rightarrow> sorted_by_name ad
      | sort_by_samples src sum_total \<Rightarrow> by_total_samples (sorted_by_samples ad src)
      | sort_by_samples src sum_self \<Rightarrow> by_self_samples (sorted_by_samples ad src))"

definition store_order :: "sort_by_kind \<Rightarrow> nat list \<Rightarrow> analysis_data \<Rightarrow> analysis_data" where
  "store_order k ids ad =
     (case k of
        sort_by_name \<Rightarrow> ad\<lparr>sorted_by_name := Some ids\<rparr>
      | sort_by_samples src sum_total \<Rightarrow>
          ad\<lparr>sorted_by_samples := (sorted_by_samples ad)(src := (sorted_by_samples ad src)\<lparr>by_total_samples := Some ids\<rparr>)\<rparr>
      | sort_by_samples src sum_self \<Rightarrow>
          ad\<lparr>sorted_by_samples := (sorted_by_samples ad)(src := (sorted_by_samples ad src)\<lparr>by_self_samples := Some ids\<rparr>)\<rparr>)"

definition get_sorted_functions ::
  "sorter \<Rightarrow> nat \<Rightarrow> sort_by_kind \<Rightarrow> (nat \<Rightarrow> bool) \<Rightarrow> document_storage \<Rightarrow> (error + nat list) \<times> document_storage" where
  "get_sorted_functions std_sort pid k canceled d =
     (case get_process_analysis pid canceled d of
        (Inl e, d') \<Rightarrow> (Inl e, d')
      | (Inr a, d') \<Rightarrow>
          let ad = analysis_per_process d' pid
          in (case cached_order k ad of
                Some ids \<Rightarrow> (Inr ids, d')
              | None \<Rightarrow>
                  let ids = std_sort (sort_less k a) (map function_id (all_functions a))
                  in (Inr ids, d'\<lparr>analysis_per_process := (analysis_per_process d')(pid := store_order k ids ad)\<rparr>)))"

text \<open>The page arithmetic is in \<open>std::size_t\<close>; a page that would end before it starts is a span with a
  wrapped size.\<close>

definition page_of :: "bool \<Rightarrow> u64 \<Rightarrow> u64 \<Rightarrow> nat list \<Rightarrow> error + nat list" where
  "page_of reversed page_size page_index ids =
     (let n = of_nat (length ids);
          page_start = min (page_index * page_size) n;
          page_end = min ((page_index + 1) * page_size) n
      in if page_end < page_start then Inl Undefined
         else let current_page_size = page_end - page_start
              in Inr (if reversed then take (unat current_page_size) (drop (length ids - unat page_end) ids)
                      else take (unat current_page_size) (drop (unat page_start) ids)))"

section \<open>Operations\<close>

definition with_document ::
  "nat \<Rightarrow> (document_storage \<Rightarrow> (error + 'a) \<times> document_storage) \<Rightarrow> storage \<Rightarrow> (error + 'a) \<times> storage" where
  "with_document i g s =
     (case open_documents s i of
        None \<Rightarrow> (Inl (Throw ''invalid document id''), s)
      | Some d \<Rightarrow> (case g d of (r, d') \<Rightarrow> (r, s\<lparr>open_documents := (open_documents s)(i \<mapsto> d')\<rparr>)))"

definition create_document :: "string \<Rightarrow> storage \<Rightarrow> nat \<times> storage" where
  "create_document p s =
     (let new_id = next_document_id s
      in (new_id, s\<lparr>next_document_id := new_id + 1,
                    open_documents := (open_documents s)(new_id \<mapsto>
                      \<lparr>document_path = p, data_provider = None, document_filter = no_filter, total_samples_counts = None,
                       analysis_per_process = (\<lambda>_. no_analysis)\<rparr>)\<rparr>))"

type_synonym provider_reader = "options \<Rightarrow> path_mapper list \<Rightarrow> string \<Rightarrow> error + data_provider"

definition read_document :: "provider_reader \<Rightarrow> nat \<Rightarrow> storage \<Rightarrow> (error + unit) \<times> storage" where
  "read_document open_provider i s =
     (case open_documents s i of
        None \<Rightarrow> (Inr (), s)
      | Some _ \<Rightarrow>
          with_document i (\<lambda>d.
            case open_provider (storage_options s) (module_path_map s) (document_path d) of
              Inl e \<Rightarrow> (Inl e, d)
            | Inr p \<Rightarrow> (Inr (), d\<lparr>data_provider := Some p\<rparr>)) s)"

definition close_document :: "nat \<Rightarrow> storage \<Rightarrow> storage" where
  "close_document i s =
     (case open_documents s i of
        None \<Rightarrow> s
      | Some _ \<Rightarrow> s\<lparr>open_documents := (open_documents s)(i := None)\<rparr>)"

definition get_data :: "nat \<Rightarrow> storage \<Rightarrow> (error + data_provider) \<times> storage" where
  "get_data i = with_document i (\<lambda>d.
     case data_provider d of
       None \<Rightarrow> (Inl (Throw ''Document has not been read yet.''), d)
     | Some p \<Rightarrow> (Inr p, d))"

definition apply_document_filter :: "nat \<Rightarrow> sample_filter \<Rightarrow> storage \<Rightarrow> (error + unit) \<times> storage" where
  "apply_document_filter i f = with_document i (\<lambda>d.
     if document_filter d = f then (Inr (), d)
     else (Inr (), d\<lparr>document_filter := f, total_samples_counts := None, analysis_per_process := (\<lambda>_. no_analysis)\<rparr>))"

definition get_document_filter :: "nat \<Rightarrow> storage \<Rightarrow> (error + sample_filter) \<times> storage" where
  "get_document_filter i = with_document i (\<lambda>d. (Inr (document_filter d), d))"

definition get_total_samples_counts :: "nat \<Rightarrow> storage \<Rightarrow> (error + (nat \<rightharpoonup> nat)) \<times> storage" where
  "get_total_samples_counts i = with_document i document_counts"

definition get_stacks_analysis ::
  "nat \<Rightarrow> nat \<Rightarrow> (nat \<Rightarrow> bool) \<Rightarrow> storage \<Rightarrow> (error + stacks_analysis) \<times> storage" where
  "get_stacks_analysis i pid canceled = with_document i (get_process_analysis pid canceled)"

definition get_functions_page ::
  "sorter \<Rightarrow> nat \<Rightarrow> nat \<Rightarrow> sort_by_kind \<Rightarrow> bool \<Rightarrow> u64 \<Rightarrow> u64 \<Rightarrow> (nat \<Rightarrow> bool) \<Rightarrow> storage \<Rightarrow>
   (error + nat list) \<times> storage" where
  "get_functions_page std_sort i pid k reversed page_size page_index canceled = with_document i (\<lambda>d.
     case get_sorted_functions std_sort pid k canceled d of
       (Inl e, d') \<Rightarrow> (Inl e, d')
     | (Inr ids, d') \<Rightarrow> (page_of reversed page_size page_index ids, d'))"

section \<open>Sequences of operations\<close>

datatype storage_op =
    SetOptions options | SetPathMap "path_mapper list"
  | CreateDocument string | ReadDocument nat | CloseDocument nat
  | GetData nat | ApplyFilter nat sample_filter | GetFilter nat | GetCounts nat
  | GetAnalysis nat nat | GetPage nat nat sort_by_kind bool u64 u64

datatype storage_result =
    Failed error | Nothing | DocumentId nat | Provider data_provider | Filter sample_filter
  | Counts "nat \<rightharpoonup> nat" | Analysis stacks_analysis | Page "nat list"

definition result_of :: "('a \<Rightarrow> storage_result) \<Rightarrow> (error + 'a) \<times> storage \<Rightarrow> storage_result \<times> storage" where
  "result_of g = apfst (case_sum Failed g)"

definition storage_step ::
  "provider_reader \<Rightarrow> sorter \<Rightarrow> (nat \<Rightarrow> bool) \<Rightarrow> storage_op \<Rightarrow> storage \<Rightarrow> storage_result \<times> storage" where
  "storage_step open_provider std_sort canceled opr s =
     (case opr of
        SetOptions v \<Rightarrow> (Nothing, s\<lparr>storage_options := v\<rparr>)
      | SetPathMap m \<Rightarrow> (Nothing, s\<lparr>module_path_map := m\<rparr>)
      | CreateDocument p \<Rightarrow> apfst DocumentId (create_document p s)
      | ReadDocument i \<Rightarrow> result_of (\<lambda>_. Nothing) (read_document open_provider i s)
      | CloseDocument i \<Rightarrow> (Nothing, close_document i s)
      | GetData i \<Rightarrow> result_of Provider (get_data i s)
      | ApplyFilter i f \<Rightarrow> result_of (\<lambda>_. Nothing) (apply_document_filter i f s)
      | GetFilter i \<Rightarrow> result_of Filter (get_document_filter i s)
      | GetCounts i \<Rightarrow> result_of Counts (get_total_samples_counts i s)
      | GetAnalysis i pid \<Rightarrow> result_of Analysis (get_stacks_analysis i pid canceled s)
      | GetPage i pid k r page_size page_index \<Rightarrow>
          result_of Page (get_functions_page std_sort i pid k r page_size page_index canceled s))"

text \<open>A run, in which something may be done to the state between the operations: nothing, or
  dropping all caches.\<close>

fun storage_run ::
  "(storage \<Rightarrow> storage) \<Rightarrow> provider_reader \<Rightarrow> sorter \<Rightarrow> (nat \<Rightarrow> bool) \<Rightarrow> storage_op list \<Rightarrow> storage \<Rightarrow>
   storage_result list \<times> storage" where
  "storage_run between rd srt canceled [] s = ([], s)"
| "storage_run between rd srt canceled (opr # ops) s =
     (case storage_step rd srt canceled opr s of
        (r, s') \<Rightarrow> apfst (Cons r) (storage_run between rd srt canceled ops (between s')))"

section \<open>Caches are transparent\<close>

definition forget_document :: "document_storage \<Rightarrow> document_storage" where
  "forget_document d = d\<lparr>total_samples_counts := None, analysis_per_process := (\<lambda>_. no_analysis)\<rparr>"

definition forget_caches :: "storage \<Rightarrow> storage" where
  "forget_caches s = s\<lparr>open_documents := map_option forget_document \<circ> open_documents s\<rparr>"

definition never :: "nat \<Rightarrow> bool" where
  "never k = False"

definition counts_ok :: "document_storage \<Rightarrow> bool" where
  "counts_ok d \<longleftrightarrow> (\<forall>m. total_samples_counts d = Some m \<longrightarrow>
     (\<exists>p. data_provider d = Some p \<and> m = new_counts p (document_filter d)))"

definition analysis_ok :: "sorter \<Rightarrow> document_storage \<Rightarrow> nat \<Rightarrow> analysis_data \<Rightarrow> bool" where
  "analysis_ok srt d pid ad \<longleftrightarrow>
     (\<forall>a. cached_analysis ad = Some a \<longrightarrow>
        (\<exists>p. data_provider d = Some p \<and> analyze p pid (document_filter d) never = Some a)) \<and>
     (\<forall>k ids. cached_order k ad = Some ids \<longrightarrow>
        (\<exists>a. cached_analysis ad = Some a \<and> ids = srt (sort_less k a) (map function_id (all_functions a))))"

definition document_ok :: "sorter \<Rightarrow> document_storage \<Rightarrow> bool" where
  "document_ok srt d \<longleftrightarrow> counts_ok d \<and> (\<forall>pid. analysis_ok srt d pid (analysis_per_process d pid))"

definition storage_ok :: "sorter \<Rightarrow> storage \<Rightarrow> bool" where
  "storage_ok srt s \<longleftrightarrow> (\<forall>i d. open_documents s i = Some d \<longrightarrow> document_ok srt d)"

lemma cached_order_no_analysis [simp]:
  "cached_order k no_analysis = None" "cached_order k (no_analysis\<lparr>cached_analysis := x\<rparr>) = None"
  by (auto simp: cached_order_def no_analysis_def no_sort_data_def split: sort_by_kind.split sum_type.split)

lemma cached_order_store:
  "cached_order k (store_order k' ids ad) = (if k = k' then Some ids else cached_order k ad)"
  "cached_analysis (store_order k' ids ad) = cached_analysis ad"
  by (auto simp: cached_order_def store_order_def split: sort_by_kind.splits sum_type.splits)

lemma analysis_ok_no_analysis [simp]: "analysis_ok srt d pid no_analysis"
  by (simp add: analysis_ok_def) (simp add: no_analysis_def)

lemma forget_document_ok [simp]: "document_ok srt (forget_document d)"
  by (simp add: forget_document_def document_ok_def counts_ok_def)

lemma forget_document_simps [simp]:
  "forget_document (forget_document d) = forget_document d"
  "data_provider (forget_document d) = data_provider d" "document_filter (forget_document d) = document_filter d"
  "document_path (forget_document d) = document_path d" "total_samples_counts (forget_document d) = None"
  "analysis_per_process (forget_document d) = (\<lambda>_. no_analysis)"
  "forget_document (d\<lparr>total_samples_counts := c\<rparr>) = forget_document d"
  "forget_document (d\<lparr>analysis_per_process := x\<rparr>) = forget_document d"
  "forget_document (d\<lparr>data_provider := q\<rparr>) = (forget_document d)\<lparr>data_provider := q\<rparr>"
  "forget_document (d\<lparr>document_filter := f\<rparr>) = (forget_document d)\<lparr>document_filter := f\<rparr>"
  by (simp_all add: forget_document_def)

lemma map_forget_document [simp]:
  "map_option forget_document (map_option forget_document x) = map_option forget_document x"
  by (cases x) auto

text \<open>An operation on a document does not show its caches, and keeps them right.\<close>

definition transparent :: "sorter \<Rightarrow> (document_storage \<Rightarrow> 'r \<times> document_storage) \<Rightarrow> document_storage \<Rightarrow> bool" where
  "transparent srt g d \<longleftrightarrow>
     fst (g d) = fst (g (forget_document d)) \<and>
     forget_document (snd (g d)) = forget_document (snd (g (forget_document d))) \<and>
     document_ok srt (snd (g d))"

lemma transparent_counts:
  assumes "document_ok srt d"
  shows "transparent srt document_counts d"
  using assms
  by (cases "total_samples_counts d"; cases "data_provider d")
    (auto simp: transparent_def document_counts_def Let_def document_ok_def counts_ok_def analysis_ok_def)

lemma process_analysis_cases:
  assumes "document_ok srt d"
  shows "(fst (get_process_analysis pid never d) =
      (case data_provider d of None \<Rightarrow> Inl Undefined
       | Some p \<Rightarrow> (case analyze p pid (document_filter d) never of None \<Rightarrow> Inl Undefined | Some a \<Rightarrow> Inr a))) \<and>
    forget_document (snd (get_process_analysis pid never d)) = forget_document d \<and>
    document_ok srt (snd (get_process_analysis pid never d)) \<and>
    (\<forall>a. fst (get_process_analysis pid never d) = Inr a \<longrightarrow>
       cached_analysis (analysis_per_process (snd (get_process_analysis pid never d)) pid) = Some a)"
proof (cases "cached_analysis (analysis_per_process d pid)")
  case None
  then show ?thesis
    using assms
    by (auto simp: get_process_analysis_def document_ok_def counts_ok_def analysis_ok_def
        split: option.split)
next
  case (Some a)
  then obtain p where "data_provider d = Some p" "analyze p pid (document_filter d) never = Some a"
    using assms unfolding document_ok_def analysis_ok_def by metis
  with Some assms show ?thesis by (simp add: get_process_analysis_def)
qed

lemma transparent_analysis:
  "document_ok srt d \<Longrightarrow> transparent srt (get_process_analysis pid never) d"
  using process_analysis_cases [of srt d pid] process_analysis_cases [of srt "forget_document d" pid]
  by (simp add: transparent_def cong: option.case_cong)

lemma sorted_functions_cases:
  assumes "document_ok srt d"
  shows "(fst (get_sorted_functions srt pid k never d) =
      (case fst (get_process_analysis pid never d) of Inl e \<Rightarrow> Inl e
       | Inr a \<Rightarrow> Inr (srt (sort_less k a) (map function_id (all_functions a))))) \<and>
    forget_document (snd (get_sorted_functions srt pid k never d)) = forget_document d \<and>
    document_ok srt (snd (get_sorted_functions srt pid k never d))"
proof -
  obtain r d' where g: "get_process_analysis pid never d = (r, d')" by fastforce
  have c: "forget_document d' = forget_document d" "document_ok srt d'"
    "\<forall>a. r = Inr a \<longrightarrow> cached_analysis (analysis_per_process d' pid) = Some a"
    using process_analysis_cases [OF assms, of pid] by (simp_all add: g)
  show ?thesis
  proof (cases r)
    case (Inl e)
    then show ?thesis using c g by (simp add: get_sorted_functions_def)
  next
    case (Inr a)
    let ?ad = "analysis_per_process d' pid" and ?ids = "srt (sort_less k a) (map function_id (all_functions a))"
    have a: "cached_analysis ?ad = Some a" and ok: "document_ok srt d'" using c Inr by auto
    show ?thesis
    proof (cases "cached_order k ?ad")
      case None
      have "analysis_ok srt d' pid (store_order k ?ids ?ad)"
        using ok a unfolding document_ok_def analysis_ok_def cached_order_store
        by (metis option.inject)
      then have "document_ok srt (d'\<lparr>analysis_per_process := (analysis_per_process d')(pid := store_order k ?ids ?ad)\<rparr>)"
        using ok by (auto simp: document_ok_def counts_ok_def analysis_ok_def)
      then show ?thesis using c g Inr None by (simp add: get_sorted_functions_def Let_def)
    next
      case (Some ids)
      then have "ids = ?ids"
        using ok a unfolding document_ok_def analysis_ok_def by (metis option.inject)
      then show ?thesis using c g Inr Some by (simp add: get_sorted_functions_def Let_def)
    qed
  qed
qed

lemma transparent_page:
  assumes "document_ok srt d"
  shows "transparent srt (\<lambda>d. case get_sorted_functions srt pid k never d of
       (Inl e, d') \<Rightarrow> (Inl e, d')
     | (Inr ids, d') \<Rightarrow> (page_of r page_size page_index ids, d')) d"
  using sorted_functions_cases [OF assms, of pid k] transparent_analysis [OF assms, of pid]
    sorted_functions_cases [of srt "forget_document d" pid k]
  by (auto simp: transparent_def split: prod.splits sum.splits)

lemma transparent_filter:
  "document_ok srt d \<Longrightarrow> transparent srt (\<lambda>d.
     if document_filter d = f then (Inr (), d)
     else (Inr (), d\<lparr>document_filter := f, total_samples_counts := None, analysis_per_process := (\<lambda>_. no_analysis)\<rparr>)) d"
  by (auto simp: transparent_def document_ok_def counts_ok_def)

lemma unread_document_ok:
  assumes "document_ok srt d" "data_provider d = None"
  shows "total_samples_counts d = None" "cached_analysis (analysis_per_process d pid) = None"
    "cached_order k (analysis_per_process d pid) = None"
  using assms unfolding document_ok_def counts_ok_def analysis_ok_def
  by (metis not_None_eq option.distinct(1))+

lemma transparent_read:
  assumes "document_ok srt d" "data_provider d = None"
  shows "transparent srt (\<lambda>d. case rd v m (document_path d) of Inl e \<Rightarrow> (Inl e, d)
       | Inr p \<Rightarrow> (Inr (), d\<lparr>data_provider := Some p\<rparr>)) d"
proof -
  have "document_ok srt (d\<lparr>data_provider := Some p\<rparr>)" for p
    using unread_document_ok [OF assms] by (simp add: document_ok_def counts_ok_def analysis_ok_def)
  then show ?thesis using assms by (auto simp: transparent_def split: sum.splits)
qed

lemma transparent_const: "document_ok srt d \<Longrightarrow> g (forget_document d) = g d \<Longrightarrow> transparent srt (\<lambda>d. (g d, d)) d"
  by (simp add: transparent_def)

text \<open>Lifted to the storage.\<close>

definition step_ok :: "sorter \<Rightarrow> (storage \<Rightarrow> 'r \<times> storage) \<Rightarrow> storage \<Rightarrow> bool" where
  "step_ok srt g s \<longleftrightarrow>
     fst (g s) = fst (g (forget_caches s)) \<and>
     forget_caches (snd (g s)) = forget_caches (snd (g (forget_caches s))) \<and>
     storage_ok srt (snd (g s))"

lemma forget_caches_simps [simp]:
  "open_documents (forget_caches s) i = map_option forget_document (open_documents s i)"
  "next_document_id (forget_caches s) = next_document_id s"
  "storage_options (forget_caches s) = storage_options s" "module_path_map (forget_caches s) = module_path_map s"
  "forget_caches (forget_caches s) = forget_caches s"
  by (auto simp: forget_caches_def fun_eq_iff option.map_comp comp_def)

lemma forget_caches_eq_iff:
  "forget_caches s = forget_caches t \<longleftrightarrow>
     storage_options s = storage_options t \<and> module_path_map s = module_path_map t \<and>
     next_document_id s = next_document_id t \<and>
     (\<forall>i. map_option forget_document (open_documents s i) = map_option forget_document (open_documents t i))"
  by (cases s; cases t) (auto simp: forget_caches_def fun_eq_iff)

lemma step_ok_with_document:
  assumes "storage_ok srt s" "\<And>d. open_documents s i = Some d \<Longrightarrow> transparent srt g d"
  shows "step_ok srt (with_document i g) s"
proof (cases "open_documents s i")
  case None
  then show ?thesis using assms(1) by (simp add: step_ok_def with_document_def)
next
  case (Some d)
  then have t: "transparent srt g d" by (rule assms(2))
  obtain r e r' e' where g: "g d = (r, e)" "g (forget_document d) = (r', e')" by fastforce
  with t have "r = r'" "forget_document e = forget_document e'" "document_ok srt e"
    by (simp_all add: transparent_def)
  with Some g assms(1) show ?thesis
    by (auto simp: step_ok_def with_document_def storage_ok_def forget_caches_eq_iff)
qed

lemma step_ok_result: "step_ok srt g s \<Longrightarrow> step_ok srt (\<lambda>s. apfst h (g s)) s"
  by (simp add: step_ok_def)

text \<open>Reading comes once for each document, as in the server, which reads a document in the request
  that creates it.\<close>

definition reads_of :: "storage_op list \<Rightarrow> nat list" where
  "reads_of ops = concat (map (\<lambda>opr. case opr of ReadDocument i \<Rightarrow> [i] | _ \<Rightarrow> []) ops)"

definition unread :: "nat list \<Rightarrow> storage \<Rightarrow> bool" where
  "unread is s \<longleftrightarrow> (\<forall>i \<in> set is. \<forall>d. open_documents s i = Some d \<longrightarrow> data_provider d = None)"

lemma storage_step_ok:
  assumes ok: "storage_ok srt s" and new: "unread (reads_of [opr]) s"
  shows "step_ok srt (storage_step rd srt never opr) s"
proof (cases opr)
  case (CreateDocument p)
  then show ?thesis
    using ok by (auto simp: step_ok_def storage_step_def create_document_def Let_def storage_ok_def
        forget_caches_eq_iff document_ok_def counts_ok_def)
next
  case (CloseDocument i)
  then show ?thesis
    using ok by (auto simp: step_ok_def storage_step_def close_document_def storage_ok_def
        forget_caches_eq_iff split: option.splits)
next
  case (ReadDocument i)
  have "step_ok srt (read_document rd i) s"
  proof (cases "open_documents s i")
    case None
    then show ?thesis using ok by (simp add: step_ok_def read_document_def)
  next
    case (Some d)
    then have "data_provider d = None" using new ReadDocument by (simp add: unread_def reads_of_def)
    then have "step_ok srt (with_document i (\<lambda>d.
        case rd (storage_options s) (module_path_map s) (document_path d) of Inl e \<Rightarrow> (Inl e, d)
        | Inr p \<Rightarrow> (Inr (), d\<lparr>data_provider := Some p\<rparr>))) s"
      using Some ok by (intro step_ok_with_document transparent_read) (auto simp: storage_ok_def)
    then show ?thesis using Some by (simp add: step_ok_def read_document_def)
  qed
  then have "step_ok srt (\<lambda>s. apfst (case_sum Failed (\<lambda>_. Nothing)) (read_document rd i s)) s"
    by (rule step_ok_result)
  then show ?thesis by (simp add: ReadDocument step_ok_def storage_step_def result_of_def)
next
  case (GetAnalysis i pid)
  have "step_ok srt (\<lambda>s. apfst (case_sum Failed Analysis) (get_stacks_analysis i pid never s)) s"
    unfolding get_stacks_analysis_def using ok
    by (intro step_ok_result step_ok_with_document transparent_analysis) (auto simp: storage_ok_def)
  then show ?thesis by (simp add: GetAnalysis step_ok_def storage_step_def result_of_def)
next
  case (GetCounts i)
  have "step_ok srt (\<lambda>s. apfst (case_sum Failed Counts) (get_total_samples_counts i s)) s"
    unfolding get_total_samples_counts_def using ok
    by (intro step_ok_result step_ok_with_document transparent_counts) (auto simp: storage_ok_def)
  then show ?thesis by (simp add: GetCounts step_ok_def storage_step_def result_of_def)
next
  case (GetPage i pid k r page_size page_index)
  have "step_ok srt (\<lambda>s. apfst (case_sum Failed Page)
      (get_functions_page srt i pid k r page_size page_index never s)) s"
    unfolding get_functions_page_def using ok
    by (intro step_ok_result step_ok_with_document transparent_page) (auto simp: storage_ok_def)
  then show ?thesis by (simp add: GetPage step_ok_def storage_step_def result_of_def)
next
  case (ApplyFilter i f)
  have "step_ok srt (\<lambda>s. apfst (case_sum Failed (\<lambda>_. Nothing)) (apply_document_filter i f s)) s"
    unfolding apply_document_filter_def using ok
    by (intro step_ok_result step_ok_with_document transparent_filter) (auto simp: storage_ok_def)
  then show ?thesis by (simp add: ApplyFilter step_ok_def storage_step_def result_of_def)
next
  case (GetFilter i)
  have "step_ok srt (\<lambda>s. apfst (case_sum Failed Filter) (get_document_filter i s)) s"
    unfolding get_document_filter_def using ok
    by (intro step_ok_result step_ok_with_document transparent_const) (auto simp: storage_ok_def)
  then show ?thesis by (simp add: GetFilter step_ok_def storage_step_def result_of_def)
next
  case (GetData i)
  have "step_ok srt (\<lambda>s. apfst (case_sum Failed Provider) (get_data i s)) s"
    unfolding get_data_def using ok
    by (intro step_ok_result step_ok_with_document) (auto simp: storage_ok_def transparent_def split: option.splits)
  then show ?thesis by (simp add: GetData step_ok_def storage_step_def result_of_def)
qed (use ok in \<open>auto simp: storage_step_def storage_ok_def step_ok_def forget_caches_eq_iff\<close>)

text \<open>Only reading gives a document a provider.\<close>

lemma providers_with_document:
  assumes "\<And>d. data_provider (snd (g d)) = data_provider d"
  shows "map_option data_provider (open_documents (snd (with_document i g s)) j) =
    map_option data_provider (open_documents s j)"
  using assms
  by (cases "open_documents s i") (auto simp: with_document_def split_beta split: option.split)

lemma provider_unchanged:
  "data_provider (snd (document_counts d)) = data_provider d"
  "data_provider (snd (get_process_analysis pid c d)) = data_provider d"
  by (auto simp: document_counts_def get_process_analysis_def Let_def split: option.split)

lemma provider_unchanged_sort:
  "data_provider (snd (get_sorted_functions srt pid k c d)) = data_provider d"
  using provider_unchanged(2) [of pid c d]
  by (auto simp: get_sorted_functions_def Let_def split: prod.split sum.split option.split)

lemma snd_result_of [simp]: "snd (result_of h x) = snd x"
  by (simp add: result_of_def)

lemma provider_unchanged_page:
  "data_provider (snd (case get_sorted_functions srt pid k c d of
      (Inl e, d') \<Rightarrow> (Inl e, d') | (Inr ids, d') \<Rightarrow> (page_of r m n ids, d'))) = data_provider d"
  using provider_unchanged_sort [of srt pid k c d] by (auto split: prod.split sum.split)

lemma step_providers:
  assumes "i \<notin> set (reads_of [opr])"
  shows "map_option data_provider (open_documents (snd (storage_step rd srt c opr s)) i) \<in>
    {map_option data_provider (open_documents s i), None, Some None}"
proof (cases opr)
  case (ReadDocument j)
  with assms have "i \<noteq> j" by (simp add: reads_of_def)
  with ReadDocument show ?thesis
    by (auto simp: storage_step_def read_document_def with_document_def split_beta split: option.splits)
next
  case (GetPage j pid k r m n)
  show ?thesis
    unfolding GetPage storage_step_def storage_op.case snd_result_of get_functions_page_def
    by (subst providers_with_document) (rule provider_unchanged_page, simp)
next
  case (GetAnalysis j pid)
  show ?thesis
    unfolding GetAnalysis storage_step_def storage_op.case snd_result_of get_stacks_analysis_def
    by (subst providers_with_document) (rule provider_unchanged, simp)
next
  case (GetCounts j)
  show ?thesis
    unfolding GetCounts storage_step_def storage_op.case snd_result_of get_total_samples_counts_def
    by (subst providers_with_document) (rule provider_unchanged, simp)
next
  case (GetData j)
  then show ?thesis
    by (auto simp: storage_step_def get_data_def with_document_def split: option.splits)
next
  case (ApplyFilter j f)
  then show ?thesis
    by (auto simp: storage_step_def apply_document_filter_def with_document_def split: option.splits)
next
  case (GetFilter j)
  then show ?thesis
    by (auto simp: storage_step_def get_document_filter_def with_document_def split: option.splits)
qed (auto simp: storage_step_def create_document_def close_document_def Let_def split: option.splits)

lemma unread_step:
  assumes "unread is s" "set is \<inter> set (reads_of [opr]) = {}"
  shows "unread is (snd (storage_step rd srt c opr s))"
  unfolding unread_def
proof (intro ballI allI impI)
  fix i d assume i: "i \<in> set is" and d: "open_documents (snd (storage_step rd srt c opr s)) i = Some d"
  have "i \<notin> set (reads_of [opr])" using assms(2) i by auto
  from step_providers [OF this, of rd srt c s] show "data_provider d = None"
    using assms(1) i d by (cases "open_documents s i") (auto simp: unread_def)
qed

lemma reads_of_Cons: "reads_of (opr # ops) = reads_of [opr] @ reads_of ops"
  by (simp add: reads_of_def)

lemma storage_run_transparent:
  assumes "storage_ok srt s" "storage_ok srt t" "forget_caches s = forget_caches t"
    "unread (reads_of ops) s" "distinct (reads_of ops)"
  shows "fst (storage_run id rd srt never ops s) = fst (storage_run forget_caches rd srt never ops (forget_caches t))"
  using assms
proof (induction ops arbitrary: s t)
  case (Cons opr ops)
  let ?s = "snd (storage_step rd srt never opr s)" and ?t = "snd (storage_step rd srt never opr (forget_caches t))"
  have new: "unread (reads_of [opr]) s" "unread (reads_of ops) s"
    using Cons.prems(4) unfolding reads_of_Cons [of opr ops] by (auto simp: unread_def)
  have dis: "set (reads_of ops) \<inter> set (reads_of [opr]) = {}" "distinct (reads_of ops)"
    using Cons.prems(5) unfolding reads_of_Cons [of opr ops] by auto
  have s: "step_ok srt (storage_step rd srt never opr) s" by (rule storage_step_ok [OF Cons.prems(1) new(1)])
  have ft: "storage_ok srt (forget_caches t)" by (auto simp: storage_ok_def)
  have "unread (reads_of [opr]) (forget_caches s)" using new(1) by (auto simp: unread_def)
  then have "step_ok srt (storage_step rd srt never opr) (forget_caches t)"
    using storage_step_ok [OF ft] Cons.prems(3) by simp
  then have "storage_ok srt ?t" by (simp add: step_ok_def)
  moreover have "fst (storage_step rd srt never opr s) = fst (storage_step rd srt never opr (forget_caches t))"
    "forget_caches ?s = forget_caches ?t" "storage_ok srt ?s"
    using s Cons.prems(3) by (simp_all add: step_ok_def)
  moreover have "unread (reads_of ops) ?s" by (rule unread_step [OF new(2) dis(1)])
  ultimately show ?case using Cons.IH [of ?s ?t] dis(2) by (simp add: split_beta)
qed simp

section \<open>Sorting and pages\<close>

text \<open>What the standard asks of the comparison, and what it promises of the result.\<close>

definition strict_weak_on :: "nat set \<Rightarrow> (nat \<Rightarrow> nat \<Rightarrow> bool) \<Rightarrow> bool" where
  "strict_weak_on A lt \<longleftrightarrow>
     (\<forall>x \<in> A. \<not> lt x x) \<and>
     (\<forall>x \<in> A. \<forall>y \<in> A. \<forall>z \<in> A. lt x y \<longrightarrow> lt y z \<longrightarrow> lt x z) \<and>
     (\<forall>x \<in> A. \<forall>y \<in> A. \<forall>z \<in> A. \<not> lt x y \<longrightarrow> \<not> lt y z \<longrightarrow> \<not> lt x z)"

definition sort_spec :: "sorter \<Rightarrow> bool" where
  "sort_spec srt \<longleftrightarrow> (\<forall>lt xs. strict_weak_on (set xs) lt \<longrightarrow>
     mset (srt lt xs) = mset xs \<and> sorted_wrt (\<lambda>x y. \<not> lt y x) (srt lt xs))"

lemma strict_weak_subset: "strict_weak_on B lt \<Longrightarrow> A \<subseteq> B \<Longrightarrow> strict_weak_on A lt"
  unfolding strict_weak_on_def by blast

lemma strict_weakD:
  assumes "strict_weak_on A lt" "x \<in> A" "y \<in> A" "lt x y"
  shows "\<not> lt y x" "z \<in> A \<Longrightarrow> \<not> lt z y \<Longrightarrow> \<not> lt z x"
  using assms unfolding strict_weak_on_def by blast+

lemma strict_weak_key:
  fixes key :: "nat \<Rightarrow> 'k :: linorder"
  assumes "\<And>x y. x \<in> A \<Longrightarrow> y \<in> A \<Longrightarrow> lt x y \<longleftrightarrow> key x < key y"
  shows "strict_weak_on A lt"
  unfolding strict_weak_on_def using assms by (auto simp: not_less intro: order_trans less_trans)

lemma strict_weak_key2:
  fixes key :: "nat \<Rightarrow> 'k :: linorder" and name :: "nat \<Rightarrow> string"
  assumes "\<And>x y. x \<in> A \<Longrightarrow> y \<in> A \<Longrightarrow>
    lt x y \<longleftrightarrow> key x < key y \<or> (key x = key y \<and> name x < name y)"
  shows "strict_weak_on A lt"
  unfolding strict_weak_on_def using assms by (auto simp: not_less dest: less_trans)

text \<open>The comparisons of the storage on the functions of an analysis, where every id has its row.\<close>

lemma sort_less_strict_weak:
  assumes "\<forall>x \<in> A. get_function a x \<noteq> None"
  shows "strict_weak_on A (sort_less k a)"
proof -
  let ?name = "\<lambda>x. function_name (the (get_function a x))"
  have "name_less a x y \<longleftrightarrow> ?name x < ?name y" if "x \<in> A" "y \<in> A" for x y
    using assms [THEN bspec, OF that(1)] assms [THEN bspec, OF that(2)] by (auto simp: name_less_def)
  then have "strict_weak_on A (name_less a)" by (rule strict_weak_key)
  moreover have "strict_weak_on A (samples_less v src a)" for v src
  proof (rule strict_weak_key2 [where name = ?name and
        key = "\<lambda>x. v (hits_get (function_hits (the (get_function a x))) src)"])
    fix x y assume "x \<in> A" "y \<in> A"
    then show "samples_less v src a x y \<longleftrightarrow>
        v (hits_get (function_hits (the (get_function a x))) src) < v (hits_get (function_hits (the (get_function a y))) src) \<or>
        v (hits_get (function_hits (the (get_function a x))) src) = v (hits_get (function_hits (the (get_function a y))) src) \<and>
        ?name x < ?name y"
      using assms [THEN bspec, of x] assms [THEN bspec, of y] by (auto simp: samples_less_def Let_def)
  qed
  ultimately show ?thesis by (auto simp: sort_less_def split: sort_by_kind.split sum_type.split)
qed

text \<open>The page arithmetic without overflow.\<close>

definition page_bounds :: "nat \<Rightarrow> nat \<Rightarrow> nat \<Rightarrow> nat \<times> nat" where
  "page_bounds page_size page_index n = (min (page_index * page_size) n, min ((page_index + 1) * page_size) n)"

lemma page_of_nat:
  assumes "(unat page_index + 1) * unat page_size < 2 ^ 64" "length ids < 2 ^ 64"
  shows "page_of r page_size page_index ids =
    (case page_bounds (unat page_size) (unat page_index) (length ids) of (b, e) \<Rightarrow>
       Inr (if r then take (e - b) (drop (length ids - e) ids) else take (e - b) (drop b ids)))"
proof -
  let ?n = "of_nat (length ids) :: u64"
  have n: "unat ?n = length ids" using assms(2) by (simp add: unat_of_nat take_bit_nat_eq_self)
  have le: "unat page_index * unat page_size \<le> (unat page_index + 1) * unat page_size" by simp
  then have b: "unat (page_index * page_size) = unat page_index * unat page_size"
    using assms(1) by (subst unat_mult_lem [THEN iffD1]) auto
  show ?thesis
  proof (cases "page_size = 0")
    case True
    then show ?thesis by (simp add: page_of_def page_bounds_def)
  next
    case False
    then have "1 \<le> unat page_size" by (simp add: Suc_le_eq unat_gt_0)
    then have "unat page_index + 1 < 2 ^ 64"
      using assms(1) by (metis mult.right_neutral mult_le_mono2 order_le_less_trans)
    then have i: "unat (page_index + 1) = unat page_index + 1"
      by (subst unat_add_lem [THEN iffD1]) auto
    then have e: "unat ((page_index + 1) * page_size) = (unat page_index + 1) * unat page_size"
      using assms(1) by (subst unat_mult_lem [THEN iffD1]) auto
    have mb: "unat (min (page_index * page_size) ?n) = min (unat page_index * unat page_size) (length ids)"
      by (simp add: min_def word_le_nat_alt b n)
    have me: "unat (min ((page_index + 1) * page_size) ?n) = min ((unat page_index + 1) * unat page_size) (length ids)"
      by (simp only: min_def word_le_nat_alt e n if_distrib [of unat])
    have ord: "min (page_index * page_size) ?n \<le> min ((page_index + 1) * page_size) ?n"
      unfolding word_le_nat_alt mb me using le by (simp add: min_le_iff_disj)
    obtain B E where B: "B = min (page_index * page_size) ?n" and E: "E = min ((page_index + 1) * page_size) ?n"
      by blast
    have "unat (E - B) = unat E - unat B" "\<not> E < B" using ord unfolding B [symmetric] E [symmetric] by (simp_all add: unat_sub not_less)
    then show ?thesis
      unfolding page_of_def Let_def page_bounds_def prod.case mb [symmetric] me [symmetric] B [symmetric] E [symmetric]
      by simp
  qed
qed

lemma pages_prefix:
  "concat (map (\<lambda>i. case page_bounds m i (length xs) of (b, e) \<Rightarrow> take (e - b) (drop b xs)) [0..<k]) = take (k * m) xs"
proof (induction k)
  case (Suc k)
  have "take (min ((k + 1) * m) (length xs) - min (k * m) (length xs)) (drop (min (k * m) (length xs)) xs) =
      take m (drop (k * m) xs)"
    by (cases "k * m \<le> length xs") (auto simp: min_def take_all_iff)
  then show ?case using Suc by (simp add: page_bounds_def take_add [symmetric] add.commute)
qed simp

lemma pages_suffix:
  "concat (map (\<lambda>i. case page_bounds m i (length xs) of (b, e) \<Rightarrow> take (e - b) (drop (length xs - e) xs)) (rev [0..<k])) =
     drop (length xs - k * m) xs"
proof (induction k)
  case (Suc k)
  have "take (min ((k + 1) * m) (length xs) - min (k * m) (length xs)) (drop (length xs - min ((k + 1) * m) (length xs)) xs) @
      drop (length xs - k * m) xs = drop (length xs - Suc k * m) xs"
  proof (cases "k * m \<le> length xs")
    case True
    let ?j = "length xs - min ((k + 1) * m) (length xs)" and ?d = "min ((k + 1) * m) (length xs) - k * m"
    have "length xs - k * m = ?j + ?d" using True by (auto simp: min_def)
    then have "drop (length xs - k * m) xs = drop ?d (drop ?j xs)" by (simp add: add.commute)
    moreover have "length xs - Suc k * m = ?j" by (auto simp: min_def)
    ultimately show ?thesis using True by (simp add: min_absorb1 del: drop_drop)
  qed (auto simp: min_def)
  then show ?case using Suc by (simp add: page_bounds_def)
qed simp

section \<open>What a page shows\<close>

lemma run_storage_ok:
  assumes "storage_ok srt s" "unread (reads_of ops) s" "distinct (reads_of ops)"
  shows "storage_ok srt (snd (storage_run id rd srt never ops s))"
  using assms
proof (induction ops arbitrary: s)
  case (Cons opr ops)
  let ?s = "snd (storage_step rd srt never opr s)"
  have new: "unread (reads_of [opr]) s" "unread (reads_of ops) s"
    using Cons.prems(2) unfolding reads_of_Cons [of opr ops] by (auto simp: unread_def)
  have dis: "set (reads_of ops) \<inter> set (reads_of [opr]) = {}" "distinct (reads_of ops)"
    using Cons.prems(3) unfolding reads_of_Cons [of opr ops] by auto
  have "storage_ok srt ?s" using storage_step_ok [OF Cons.prems(1) new(1)] by (simp add: step_ok_def)
  then show ?case using Cons.IH [OF _ unread_step [OF new(2) dis(1)] dis(2)] by (simp add: split_beta)
qed simp

lemma initial_storage_ok: "storage_ok srt (initial_storage env)" "unread is (initial_storage env)"
  "forget_caches (initial_storage env) = initial_storage env"
  by (simp_all add: storage_ok_def unread_def initial_storage_def forget_caches_def fun_eq_iff comp_def)

lemma analysis_function_ids:
  assumes "analyze_stacks sources of_source pid canceled = Some a" "x \<in> set (map function_id (all_functions a))"
  shows "get_function a x \<noteq> None"
proof -
  obtain st where wf: "analysis_wf st" and st: "a = stacks_analysis.truncate st"
    using analyze_run [OF assms(1)] by (auto simp: run_ok_def)
  have t: "function_table_wf (all_functions st, functions_by_name st)"
    using wf unfolding analysis_wf_def by blast
  from assms(2) obtain i where i: "i < length (all_functions st)" "x = function_id (all_functions st ! i)"
    unfolding st truncate_sel by (auto simp: in_set_conv_nth)
  then have "x = i" using t by (auto simp: function_table_wf_def dest: table_wf_id)
  then show ?thesis using i(1) unfolding st by (simp add: get_function_def vector_at_def truncate_sel)
qed

lemma functions_page_cases:
  assumes ok: "storage_ok srt s" and page: "get_functions_page srt i pid k r m n never s = (Inr page, s')"
  shows "\<exists>a. fst (get_stacks_analysis i pid never s) = Inr a \<and>
    page_of r m n (srt (sort_less k a) (map function_id (all_functions a))) = Inr page \<and>
    (\<forall>x \<in> set (map function_id (all_functions a)). get_function a x \<noteq> None)"
proof -
  obtain d where d: "open_documents s i = Some d"
    using page by (cases "open_documents s i") (auto simp: get_functions_page_def with_document_def)
  have dok: "document_ok srt d" using ok d by (simp add: storage_ok_def)
  obtain ids d' where ids: "get_sorted_functions srt pid k never d = (Inr ids, d')" "page_of r m n ids = Inr page"
    using page d by (auto simp: get_functions_page_def with_document_def split: prod.splits sum.splits)
  have s: "fst (get_sorted_functions srt pid k never d) =
      (case fst (get_process_analysis pid never d) of Inl e \<Rightarrow> Inl e
       | Inr a \<Rightarrow> Inr (srt (sort_less k a) (map function_id (all_functions a))))"
    using sorted_functions_cases [OF dok, of pid k] by blast
  then obtain a where a: "fst (get_process_analysis pid never d) = Inr a"
      "ids = srt (sort_less k a) (map function_id (all_functions a))"
    using ids(1) by (auto split: sum.splits)
  have "fst (get_process_analysis pid never d) =
      (case data_provider d of None \<Rightarrow> Inl Undefined
       | Some p \<Rightarrow> (case analyze p pid (document_filter d) never of None \<Rightarrow> Inl Undefined | Some a \<Rightarrow> Inr a))"
    using process_analysis_cases [OF dok, of pid] by blast
  with a(1) obtain p where "analyze p pid (document_filter d) never = Some a" by (auto split: option.splits)
  then have "\<forall>x \<in> set (map function_id (all_functions a)). get_function a x \<noteq> None"
    unfolding analyze_def using analysis_function_ids by blast
  then show ?thesis
    using a ids(2) d by (intro exI [of _ a]) (simp add: get_stacks_analysis_def with_document_def split_beta)
qed

lemma functions_page_eq:
  assumes "storage_ok srt s" "fst (get_stacks_analysis i pid never s) = Inr a"
  shows "fst (get_functions_page srt i pid k r m n never s) =
    page_of r m n (srt (sort_less k a) (map function_id (all_functions a)))"
proof -
  obtain d where d: "open_documents s i = Some d"
    using assms(2) by (cases "open_documents s i") (auto simp: get_stacks_analysis_def with_document_def)
  then have "document_ok srt d" using assms(1) by (simp add: storage_ok_def)
  from sorted_functions_cases [OF this, of pid k] assms(2) d show ?thesis
    by (auto simp: get_stacks_analysis_def get_functions_page_def with_document_def split_beta split: sum.split)
qed

section \<open>Properties\<close>


text \<open>C14: In every state reached without cancellation a page of functions is a slice of all functions of the
  process, each once, in the requested order: from the front for an ascending page, from the back for a
  reversed one, \<open>page_size\<close> long except for the last. The order is the one of the sort kind for any
  sorting algorithm that keeps the promise of the standard.\<close>
theorem functions_page_is_sorted_slice:
  assumes srt: "sort_spec srt" and ops: "distinct (reads_of ops)"
    and s: "s = snd (storage_run id rd srt never ops (initial_storage env))"
    and page: "get_functions_page srt i pid k r page_size page_index never s = (Inr page, s')"
    and small: "(unat page_index + 1) * unat page_size < 2 ^ 64"
    and few: "\<And>a. fst (get_stacks_analysis i pid never s) = Inr a \<Longrightarrow> length (all_functions a) < 2 ^ 64"
  shows "\<exists>a ids. fst (get_stacks_analysis i pid never s) = Inr a \<and>
    mset ids = mset (map function_id (all_functions a)) \<and> sorted_wrt (\<lambda>x y. \<not> sort_less k a y x) ids \<and>
    page = (case page_bounds (unat page_size) (unat page_index) (length ids) of (b, e) \<Rightarrow>
      if r then take (e - b) (drop (length ids - e) ids) else take (e - b) (drop b ids))"
proof -
  have "storage_ok srt s" unfolding s by (rule run_storage_ok [OF initial_storage_ok(1,2) ops])
  from functions_page_cases [OF this page] obtain a where
    a: "fst (get_stacks_analysis i pid never s) = Inr a"
      "page_of r page_size page_index (srt (sort_less k a) (map function_id (all_functions a))) = Inr page"
      "\<forall>x \<in> set (map function_id (all_functions a)). get_function a x \<noteq> None" by blast
  let ?ids = "srt (sort_less k a) (map function_id (all_functions a))"
  have ids: "mset ?ids = mset (map function_id (all_functions a))" "sorted_wrt (\<lambda>x y. \<not> sort_less k a y x) ?ids"
    using srt sort_less_strict_weak [OF a(3), of k] unfolding sort_spec_def by blast+
  have "length ?ids = length (all_functions a)" using ids(1) by (metis size_mset length_map)
  then have "length ?ids < 2 ^ 64" using few [OF a(1)] by simp
  from page_of_nat [OF small this] a(1,2) ids show ?thesis
    by (intro exI [of _ a] exI [of _ ?ids]) (auto split: prod.splits)
qed

text \<open>Consecutive pages tile the list: ascending pages in order give its front, reversed pages, put
  together from the last requested to the first, give its back. So a client that asks for all pages sees
  every function once.\<close>
lemma pages_tile:
  assumes small: "pages * unat page_size < 2 ^ 64" and "pages < 2 ^ 64" and few: "length ids < 2 ^ 64"
  shows "concat (map (\<lambda>i. projr (page_of False page_size (of_nat i) ids)) [0..<pages]) =
      take (pages * unat page_size) ids \<and>
    concat (map (\<lambda>i. projr (page_of True page_size (of_nat i) ids)) (rev [0..<pages])) =
      drop (length ids - pages * unat page_size) ids"
proof -
  have "projr (page_of r page_size (of_nat i) ids) =
      (case page_bounds (unat page_size) i (length ids) of (b, e) \<Rightarrow>
         if r then take (e - b) (drop (length ids - e) ids) else take (e - b) (drop b ids))"
    if "i < pages" for i r
  proof -
    have i: "unat (of_nat i :: u64) = i" using that assms(2) by (simp add: unat_of_nat take_bit_nat_eq_self)
    have "(i + 1) * unat page_size \<le> pages * unat page_size" using that by (intro mult_le_mono1) simp
    then show ?thesis
      using page_of_nat [OF _ few, of "of_nat i" page_size r] small by (simp add: i split: prod.split)
  qed
  then have "map (\<lambda>i. projr (page_of False page_size (of_nat i) ids)) [0..<pages] =
      map (\<lambda>i. case page_bounds (unat page_size) i (length ids) of (b, e) \<Rightarrow> take (e - b) (drop b ids)) [0..<pages]"
    "map (\<lambda>i. projr (page_of True page_size (of_nat i) ids)) (rev [0..<pages]) =
      map (\<lambda>i. case page_bounds (unat page_size) i (length ids) of (b, e) \<Rightarrow>
        take (e - b) (drop (length ids - e) ids)) (rev [0..<pages])"
    by simp_all
  then show ?thesis by (simp only: pages_prefix pages_suffix)
qed

text \<open>A page whose end overflows is shorter than nothing: the size of the span wraps, and the span covers
  memory beyond the list. A client that asks for page 1 of pages of \<open>2 ^ 63\<close> entries gets there.\<close>

lemma page_overflow:
  assumes "ids \<noteq> []" "length ids < 2 ^ 63"
  shows "page_of False 0x8000000000000000 1 ids = Inl Undefined"
proof -
  have n: "unat (of_nat (length ids) :: u64) = length ids" using assms(2) by (simp add: unat_of_nat take_bit_nat_eq_self)
  then have "(of_nat (length ids) :: u64) \<noteq> 0" using assms(1) by (metis length_0_conv unat_0)
  moreover have "(of_nat (length ids) :: u64) \<le> 0x8000000000000000"
    unfolding word_le_nat_alt n using assms(2) by simp
  moreover have "(1 + 1) * (0x8000000000000000 :: u64) = 0" by code_simp
  ultimately show ?thesis unfolding page_of_def Let_def by (simp only: \<open>(1 + 1) * 0x8000000000000000 = 0\<close>) (simp add: word_gt_0)
qed

definition example_provider :: data_provider where
  "example_provider = \<lparr>sample_sources = [\<lparr>source_id = 0, source_name = ''cpu'', number_of_samples = 3,
       average_sampling_rate = zero_double, has_stacks = True\<rparr>],
     sampling_processes = [1],
     samples = (\<lambda>src _ _. example_samples src), count_samples = (\<lambda>_ _ _. 3),
     count_thread_samples = (\<lambda>_ _ _. 3),
     get_session_info = \<lparr>command_line = ''a'', session_date = 0, session_runtime = 5, number_of_processes = 1,
       number_of_threads = 1, session_samples = 3\<rparr>,
     get_system_info = \<lparr>hostname = ''h'', platform = ''p'', architecture = ''x64'', cpu_name = ''c'', number_of_processors = 2\<rparr>,
     get_process_info = (\<lambda>pid. if pid = 1 then Inr \<lparr>process_key = 1, process_os_id = 42, process_name = ''a'',
       process_start_time = 0, process_end_time = 5, process_context_switches = None, process_counters = []\<rparr>
       else Inl OutOfRange),
     get_threads_info = (\<lambda>_. Inr [])\<rparr>"

definition example_document :: document_storage where
  "example_document = \<lparr>document_path = ''x.data'', data_provider = Some example_provider,
     document_filter = no_filter, total_samples_counts = None, analysis_per_process = (\<lambda>_. no_analysis)\<rparr>"

text \<open>The result of a cancelled analysis is kept. When a query is cancelled, the part of the samples
  that was counted by then is stored as the analysis of the process, and later queries that are not
  cancelled answer from it, although a fresh analysis would count more.\<close>
lemma cancelled_analysis_is_kept:
  "\<exists>s canceled a s'. get_stacks_analysis 0 1 canceled s = (Inr a, s') \<and>
     fst (get_stacks_analysis 0 1 never s') = Inr a \<and> fst (get_stacks_analysis 0 1 never s) \<noteq> Inr a"
proof -
  let ?s = "(initial_storage undefined)\<lparr>open_documents := [0 \<mapsto> example_document]\<rparr>"
  let ?a = "stacks_analysis.truncate (initial_analysis 0 1)"
  have c: "analyze_stacks [0] example_samples 1 (\<lambda>_. True) = Some ?a"
    by (simp add: analyze_stacks_def example_samples_def)
  have f: "analyze_stacks [0] example_samples 1 never = Some example_analysis"
    using example_analysis by (simp add: never_def [abs_def])
  have "all_functions example_analysis \<noteq> []" using example_function [of "''m''"] by auto
  moreover have "all_functions ?a = []" by (simp add: truncate_sel initial_analysis_def)
  ultimately have "example_analysis \<noteq> ?a" by metis
  moreover have "analyze example_provider 1 no_filter (\<lambda>_. True) = Some ?a"
      "analyze example_provider 1 no_filter never = Some example_analysis"
    by (simp_all add: analyze_def example_provider_def source_ids_def c f del: One_nat_def)
  ultimately have "fst (get_stacks_analysis 0 1 (\<lambda>_. True) ?s) = Inr ?a"
    "fst (get_stacks_analysis 0 1 never (snd (get_stacks_analysis 0 1 (\<lambda>_. True) ?s))) = Inr ?a"
    "fst (get_stacks_analysis 0 1 never ?s) \<noteq> Inr ?a"
    by (simp_all add: get_stacks_analysis_def with_document_def example_document_def
        get_process_analysis_def no_analysis_def del: One_nat_def)
  moreover obtain r s' where "get_stacks_analysis 0 1 (\<lambda>_. True) ?s = (r, s')" by fastforce
  ultimately have "get_stacks_analysis 0 1 (\<lambda>_. True) ?s = (Inr ?a, s') \<and>
      fst (get_stacks_analysis 0 1 never s') = Inr ?a \<and> fst (get_stacks_analysis 0 1 never ?s) \<noteq> Inr ?a"
    by simp
  then show ?thesis by blast
qed

section \<open>Examples\<close>

text \<open>A sorting algorithm that keeps the promise.\<close>

fun insert_by :: "(nat \<Rightarrow> nat \<Rightarrow> bool) \<Rightarrow> nat \<Rightarrow> nat list \<Rightarrow> nat list" where
  "insert_by lt x [] = [x]"
| "insert_by lt x (y # ys) = (if lt x y then x # y # ys else y # insert_by lt x ys)"

definition insertion_sort :: sorter where
  "insertion_sort lt xs = foldr (insert_by lt) xs []"

lemma mset_insert_by [simp]: "mset (insert_by lt x ys) = add_mset x (mset ys)"
  by (induction ys) auto

lemma set_insert_by [simp]: "set (insert_by lt x ys) = insert x (set ys)"
  by (metis mset_insert_by set_mset_add_mset_insert set_mset_mset)

lemma sorted_insert_by:
  assumes "strict_weak_on (insert x (set ys)) lt" "sorted_wrt (\<lambda>x y. \<not> lt y x) ys"
  shows "sorted_wrt (\<lambda>x y. \<not> lt y x) (insert_by lt x ys)"
  using assms
proof (induction ys)
  case (Cons y ys)
  have "strict_weak_on (insert x (set ys)) lt" by (rule strict_weak_subset [OF Cons.prems(1)]) auto
  then have ih: "sorted_wrt (\<lambda>x y. \<not> lt y x) (insert_by lt x ys)" using Cons by simp
  show ?case
  proof (cases "lt x y")
    case True
    then have "\<not> lt y x" "\<forall>z \<in> set ys. \<not> lt z x"
      using strict_weakD [OF Cons.prems(1), of x y] Cons.prems(2) by auto
    with True Cons.prems(2) show ?thesis by simp
  qed (use ih Cons.prems(2) in simp)
qed simp

lemma insertion_sort_spec: "sort_spec insertion_sort"
  unfolding sort_spec_def
proof (intro allI impI)
  fix lt xs assume "strict_weak_on (set xs) lt"
  then show "mset (insertion_sort lt xs) = mset xs \<and> sorted_wrt (\<lambda>x y. \<not> lt y x) (insertion_sort lt xs)"
  proof (induction xs)
    case (Cons x xs)
    have "strict_weak_on (set xs) lt" by (rule strict_weak_subset [OF Cons.prems]) auto
    with Cons.IH have ih: "mset (insertion_sort lt xs) = mset xs" "sorted_wrt (\<lambda>x y. \<not> lt y x) (insertion_sort lt xs)" by auto
    from ih(1) have "set (insertion_sort lt xs) = set xs" by (metis set_mset_mset)
    then show ?case using ih Cons.prems sorted_insert_by [of x "insertion_sort lt xs" lt] by (simp add: insertion_sort_def)
  qed (simp add: insertion_sort_def)
qed

lemma length_insertion_sort [simp]: "length (insertion_sort lt xs) = length xs"
proof -
  have "length (insert_by lt x ys) = Suc (length ys)" for x ys by (induction ys) auto
  then show ?thesis by (induction xs) (auto simp: insertion_sort_def)
qed

definition example_ops :: "storage_op list" where
  "example_ops = [CreateDocument ''x.data'', ReadDocument 0]"

definition example_reader :: provider_reader where
  "example_reader = (\<lambda>_ _ _. Inr example_provider)"

definition example_storage :: storage where
  "example_storage = snd (storage_run id example_reader insertion_sort never example_ops (initial_storage undefined))"

lemma example_storage_document: "open_documents example_storage 0 = Some example_document"
  by (simp add: example_storage_def example_ops_def storage_step_def create_document_def read_document_def
      with_document_def initial_storage_def Let_def example_reader_def example_document_def result_of_def split_beta)

lemma example_storage_analysis: "fst (get_stacks_analysis 0 1 never example_storage) = Inr example_analysis"
proof -
  have "analyze_stacks [0] example_samples 1 never = Some example_analysis"
    using example_analysis by (simp add: never_def [abs_def])
  then have "analyze example_provider 1 no_filter never = Some example_analysis"
    by (simp add: analyze_def example_provider_def source_ids_def del: One_nat_def)
  then show ?thesis
    by (simp add: get_stacks_analysis_def with_document_def example_storage_document example_document_def
        get_process_analysis_def no_analysis_def del: One_nat_def)
qed

lemma example_functions: "length (all_functions example_analysis) \<le> 5"
  using analysis_length [OF example_analysis] by (simp add: all_samples_def example_simps)


lemma functions_page_is_sorted_slice_witness:
  "\<exists>ids. mset ids = mset (map function_id (all_functions example_analysis)) \<and>
     sorted_wrt (\<lambda>x y. \<not> sort_less (sort_by_samples 0 sum_self) example_analysis y x) ids \<and>
     fst (get_functions_page insertion_sort 0 1 (sort_by_samples 0 sum_self) True 10 0 never example_storage) =
       Inr (drop (length ids - 10) ids)"
proof -
  let ?k = "sort_by_samples 0 sum_self" and ?a = example_analysis
  let ?ids = "insertion_sort (sort_less ?k ?a) (map function_id (all_functions ?a))"
  have ok: "storage_ok insertion_sort example_storage"
    unfolding example_storage_def
    by (rule run_storage_ok [OF initial_storage_ok(1,2)]) (simp add: example_ops_def reads_of_def)
  have few: "length (all_functions a) < 2 ^ 64" if "fst (get_stacks_analysis 0 1 never example_storage) = Inr a" for a
    using that example_functions unfolding example_storage_analysis by simp
  have ids: "length ?ids = length (all_functions ?a)"
    by (simp add: length_insertion_sort)
  then have "page_of True 10 0 ?ids \<noteq> Inl e" for e
    using page_of_nat [of 0 10 ?ids True] example_functions by (auto split: prod.splits)
  then obtain page where p: "page_of True 10 0 ?ids = Inr page" by (cases "page_of True 10 0 ?ids") auto
  have f: "fst (get_functions_page insertion_sort 0 1 ?k True 10 0 never example_storage) = Inr page"
    using functions_page_eq [OF ok example_storage_analysis] p by simp
  then obtain s' where "get_functions_page insertion_sort 0 1 ?k True 10 0 never example_storage = (Inr page, s')"
    by (metis prod.collapse)
  from functions_page_is_sorted_slice [OF insertion_sort_spec _ example_storage_def this _ few]
  obtain a ids where a: "fst (get_stacks_analysis 0 1 never example_storage) = Inr a"
      "mset ids = mset (map function_id (all_functions a))" "sorted_wrt (\<lambda>x y. \<not> sort_less ?k a y x) ids"
      "page = (case page_bounds 10 0 (length ids) of (b, e) \<Rightarrow> take (e - b) (drop (length ids - e) ids))"
    by (auto simp: example_ops_def reads_of_def)
  have "a = ?a" using a(1) unfolding example_storage_analysis by simp
  note ids = a(2-4) [unfolded this]
  have "length ids \<le> 5" using example_functions arg_cong [OF ids(1), of size] by simp
  then show ?thesis using f ids by (intro exI [of _ ids]) (simp add: page_bounds_def)
qed

lemma pages_tile_witness:
  "concat (map (\<lambda>i. projr (page_of False 2 (of_nat i) [5, 6, 7])) [0..<2]) = [5, 6, 7] \<and>
   concat (map (\<lambda>i. projr (page_of True 2 (of_nat i) [5, 6, 7])) (rev [0..<2])) = [5, 6, 7]"
  using pages_tile [of 2 2 "[5, 6, 7]"] by simp

end
