(* ===== verification/Transport.thy ===== *)
theory Transport
  imports Strings "HOL-Library.Sublist"
begin

text \<open>
  Messages on a byte stream: \<open>snail/jsonrpc/transport/stream_message_reader.cpp\<close>,
  \<open>stream_message_writer.cpp\<close> and \<open>message_connection.cpp\<close>. A \<open>std::istream\<close> is the characters not read
  yet and whether it is still good; \<open>std::getline\<close> on a stream that is not good leaves the string as it
  was. The loop over the header lines has no bound in the code, so it is a partial function: \<open>None\<close> means
  that it does not return. A read fails with the text of the exception.
\<close>

section \<open>Decimal numbers\<close>

definition is_digit :: "char \<Rightarrow> bool" where
  "is_digit c \<longleftrightarrow> 48 \<le> (of_char c :: nat) \<and> (of_char c :: nat) \<le> 57"

definition digit_value :: "char \<Rightarrow> nat" where
  "digit_value c = of_char c - 48"

definition digits_value :: "string \<Rightarrow> nat" where
  "digits_value ds = foldl (\<lambda>v c. v * 10 + digit_value c) 0 ds"

text \<open>\<open>std::from_chars\<close> for a \<open>std::size_t\<close>: \<open>None\<close> stands for any error code.\<close>

definition from_chars :: "string \<Rightarrow> nat option" where
  "from_chars s =
     (let ds = takeWhile is_digit s
      in if ds = [] \<or> digits_value ds \<ge> 2 ^ 64 then None else Some (digits_value ds))"

section \<open>Streams\<close>

record istream =
  rest :: string
  good :: bool

definition getline :: "istream \<Rightarrow> string \<Rightarrow> string \<times> istream" where
  "getline s line =
     (if \<not> good s then (line, s)
      else let l = takeWhile (\<lambda>c. c \<noteq> CHR 0x0A) (rest s)
           in case dropWhile (\<lambda>c. c \<noteq> CHR 0x0A) (rest s) of
                [] \<Rightarrow> (l, s\<lparr>rest := [], good := False\<rparr>)
              | _ # r \<Rightarrow> (l, s\<lparr>rest := r\<rparr>))"

text \<open>Reading into a buffer that was filled with null characters.\<close>

definition read_chars :: "nat \<Rightarrow> istream \<Rightarrow> string \<times> istream" where
  "read_chars n s =
     (if \<not> good s then (replicate n (CHR 0x00), s)
      else (take n (rest s) @ replicate (n - length (rest s)) (CHR 0x00),
            s\<lparr>rest := drop n (rest s), good := n \<le> length (rest s)\<rparr>))"

section \<open>Reader\<close>

definition content_length_header_name :: string where "content_length_header_name = ''Content-Length:''"
definition content_type_header_name :: string where "content_type_header_name = ''Content-Type:''"

partial_function (option) read_header :: "nat \<Rightarrow> string \<Rightarrow> istream \<Rightarrow> ((string + nat) \<times> istream) option" where
  "read_header len line s =
     (case getline s line of (line', s') \<Rightarrow>
        if prefix content_length_header_name line' then
          (case from_chars (dropWhile isspace (drop (length content_length_header_name) line')) of
             None \<Rightarrow> Some (Inl ''Invalid content length header'', s')
           | Some n \<Rightarrow> read_header n line' s')
        else if prefix content_type_header_name line' then read_header len line' s'
        else if line' = [] then read_header len line' s'
        else if line' = [CHR 0x0D] then Some (Inr len, s')
        else Some (Inl (''Invalid header line '' @ [CHR 0x27] @ line' @ [CHR 0x27]), s'))"

definition max_string_size :: nat where "max_string_size = 2 ^ 63 - 1"

definition read_message :: "istream \<Rightarrow> ((string + string) \<times> istream) option" where
  "read_message s =
     (case read_header 0 [] s of
        None \<Rightarrow> None
      | Some (Inl e, s') \<Rightarrow> Some (Inl e, s')
      | Some (Inr len, s') \<Rightarrow>
          if len > max_string_size then Some (Inl ''basic_string::resize'', s')
          else Some (apfst Inr (read_chars len s')))"

text \<open>Reading a number of messages one after the other, as \<open>serve_next\<close> does.\<close>

fun read_messages :: "nat \<Rightarrow> istream \<Rightarrow> ((string + string) list \<times> istream) option" where
  "read_messages 0 s = Some ([], s)"
| "read_messages (Suc n) s =
     (case read_message s of
        None \<Rightarrow> None
      | Some (m, s') \<Rightarrow> map_option (apfst (Cons m)) (read_messages n s'))"

section \<open>Writer\<close>

definition write_message :: "string \<Rightarrow> string \<Rightarrow> string" where
  "write_message out content =
     out @ ''Content-Length: '' @ dec (length content) @ [CHR 0x0D, CHR 0x0A] @ [CHR 0x0D, CHR 0x0A] @ content"

section \<open>Numbers survive\<close>

lemma digit_facts:
  assumes "n < 10"
  shows "is_digit (digit n)" "digit_value (digit n) = n"
  using assms by (simp_all add: is_digit_def digit_value_def digit_def)

lemma dec_props:
  "\<forall>c \<in> set (dec n). is_digit c" "dec n \<noteq> []" "digits_value (dec n) = n"
proof (induction n rule: dec.induct)
  case (1 n)
  { case 1 then show ?case using "1.IH"(1) by (subst dec.simps) (auto simp: digit_facts) }
  { case 2 then show ?case by (subst dec.simps) simp }
  { case 3 then show ?case using "1.IH"(3)
      by (subst dec.simps) (auto simp: digits_value_def digit_facts) }
qed

lemma from_chars_dec:
  assumes "n < 2 ^ 64"
  shows "from_chars (dec n @ [CHR 0x0D]) = Some n"
proof -
  have "\<not> is_digit (CHR 0x0D)" by (simp add: is_digit_def)
  then have "takeWhile is_digit (dec n @ [CHR 0x0D]) = dec n" using dec_props(1) [of n] by (simp add: takeWhile_append2)
  then show ?thesis using dec_props(2,3) [of n] assms by (simp add: from_chars_def)
qed

lemma dec_no_special:
  assumes "c \<in> set (dec n)"
  shows "c \<noteq> CHR 0x0A" "\<not> isspace c"
  using dec_props(1) [of n] assms by (auto simp: is_digit_def isspace_def)

section \<open>One message\<close>

lemma getline_line:
  assumes "good s" "rest s = l @ CHR 0x0A # r" "CHR 0x0A \<notin> set l"
  shows "getline s line = (l, s\<lparr>rest := r\<rparr>)"
proof -
  have "takeWhile (\<lambda>c. c \<noteq> CHR 0x0A) (l @ CHR 0x0A # r) = l" "dropWhile (\<lambda>c. c \<noteq> CHR 0x0A) (l @ CHR 0x0A # r) = CHR 0x0A # r"
    using assms(3) by (induction l) auto
  then show ?thesis using assms(1,2) by (simp add: getline_def Let_def)
qed

lemma getline_end: "rest s = [] \<Longrightarrow> getline s [] = ([], s\<lparr>rest := [], good := False\<rparr>)"
  by (cases s) (auto simp: getline_def)

lemma read_written_message:
  assumes s: "good s" "rest s = write_message [] content @ remaining" and len: "length content \<le> max_string_size"
  shows "read_message s = Some (Inr content, s\<lparr>rest := remaining\<rparr>)"
proof -
  let ?n = "length content" and ?cr = "CHR 0x0D"
  let ?l = "''Content-Length: '' @ dec ?n @ [?cr]"
  let ?s1 = "s\<lparr>rest := [?cr, CHR 0x0A] @ content @ remaining\<rparr>" and ?s2 = "s\<lparr>rest := content @ remaining\<rparr>"
  have "CHR 0x0A \<notin> set (dec ?n)" using dec_no_special(1) by blast
  then have g1: "getline s [] = (?l, ?s1)"
    by (intro getline_line) (use s in \<open>auto simp: write_message_def\<close>)
  have g2: "getline ?s1 ?l = ([?cr], ?s2)"
    using getline_line [of ?s1 "[?cr]" "content @ remaining" ?l] s by simp
  have "dropWhile isspace (dec ?n @ [?cr]) = dec ?n @ [?cr]"
    using dec_no_special(2) [of "hd (dec ?n)" ?n] dec_props(2) [of ?n] by (cases "dec ?n") auto
  then have d: "dropWhile isspace (drop (length content_length_header_name) ?l) = dec ?n @ [?cr]"
    by (simp add: content_length_header_name_def isspace_def)
  have p: "prefix content_length_header_name ?l" by (simp add: content_length_header_name_def)
  have small: "?n < 2 ^ 64" using len by (simp add: max_string_size_def)
  have "read_header 0 [] s = read_header ?n ?l ?s1"
    by (subst read_header.simps) (simp add: g1 p d from_chars_dec [OF small] del: append_Cons append.simps drop_append)
  also have "\<dots> = Some (Inr ?n, ?s2)"
    by (subst read_header.simps) (simp only: g2 prod.case, simp add: content_length_header_name_def content_type_header_name_def)
  finally show ?thesis using len s(1) by (simp add: read_message_def read_chars_def)
qed

section \<open>Properties\<close>

text \<open>C16: What the writer writes the reader reads back: any sequence of messages written to a stream
  is read as the same sequence of messages, byte for byte, and the reader stops where the last
  message ends. Contents may hold any characters, header lines included.\<close>
theorem messages_roundtrip:
  assumes "good s" "rest s = fold (\<lambda>m out. write_message out m) ms [] @ remaining"
    "\<forall>m \<in> set ms. length m \<le> max_string_size"
  shows "read_messages (length ms) s = Some (map Inr ms, s\<lparr>rest := remaining\<rparr>)"
proof -
  have append: "fold (\<lambda>m out. write_message out m) ms out = out @ concat (map (write_message []) ms)" for ms out
    by (induction ms arbitrary: out) (simp_all add: write_message_def)
  show ?thesis
    using assms unfolding append
  proof (induction ms arbitrary: s)
    case (Cons m ms)
    then have "read_message s = Some (Inr m, s\<lparr>rest := concat (map (write_message []) ms) @ remaining\<rparr>)"
      by (intro read_written_message) auto
    then show ?case using Cons by simp
  qed (simp add: istream.equality)
qed

text \<open>On a stream that has ended the reader never returns: \<open>getline\<close> leaves an empty line, empty lines are
  skipped, and nothing looks at the state of the stream. The server does not notice that its client is
  gone.\<close>
lemma read_at_end_never_returns:
  assumes "rest s = []" "line = []"
  shows "read_header len line s = None"
proof -
  have "\<not> (rest s = [] \<and> line = [])" if r: "read_header len line s = Some r" for r
  proof (rule read_header.raw_induct [where P = "\<lambda>len line s r. \<not> (rest s = [] \<and> line = [])", OF _ r], goal_cases)
    case (1 f len line s r)
    show ?case
    proof
      assume end_of_stream: "rest s = [] \<and> line = []"
      then have "f len [] (s\<lparr>rest := [], good := False\<rparr>) = Some r"
        using 1(2) by (simp add: getline_end content_length_header_name_def content_type_header_name_def)
      then show False using 1(1) by fastforce
    qed
  qed
  then show ?thesis using assms by (cases "read_header len line s") auto
qed

definition example_messages :: "string list" where
  "example_messages = [''{}'', ''Content-Length: 7'' @ [CHR 0x0D, CHR 0x0A]]"

lemma messages_roundtrip_witness:
  "read_messages 2 \<lparr>rest = fold (\<lambda>m out. write_message out m) example_messages [], good = True\<rparr> =
     Some (map Inr example_messages, \<lparr>rest = [], good = True\<rparr>)"
proof -
  have "read_messages (length example_messages)
      \<lparr>rest = fold (\<lambda>m out. write_message out m) example_messages [], good = True\<rparr> =
    Some (map Inr example_messages,
      \<lparr>rest = fold (\<lambda>m out. write_message out m) example_messages [], good = True\<rparr>\<lparr>rest := []\<rparr>)"
    by (rule messages_roundtrip) (auto simp: example_messages_def max_string_size_def)
  then show ?thesis by (simp add: example_messages_def numeral_2_eq_2)
qed

lemma read_at_end_never_returns_witness: "read_message \<lparr>rest = [], good = True\<rparr> = None"
  by (simp add: read_message_def read_at_end_never_returns)

end
