(* ===== verification/Rpc.thy ===== *)
theory Rpc
  imports Transport Provider
begin

text \<open>
  JSON-RPC: \<open>snail/jsonrpc/errors.cpp\<close>, \<open>jsonrpc_v2_protocol.cpp\<close>, \<open>server.cpp\<close>, \<open>server.hpp\<close> and the
  unpacking of parameters in \<open>detail/request.hpp\<close>. The JSON library is third-party code: parsing,
  printing and the conversion of a JSON value to a plain C++ type are arguments of the model
  (\<open>json_lib\<close>); a value is a tree as the library exposes it, with objects as association lists. What
  is not caught anywhere ends the server: \<open>Uncaught\<close>.
\<close>

section \<open>JSON values\<close>

datatype json =
    JNull | JBool bool | JInteger int | JUnsigned nat | JFloat double_value | JString string
  | JArray "json list" | JObject "(string \<times> json) list"

fun type_name :: "json \<Rightarrow> string" where
  "type_name JNull = ''null''"
| "type_name (JBool _) = ''boolean''"
| "type_name (JInteger _) = ''number''"
| "type_name (JUnsigned _) = ''number''"
| "type_name (JFloat _) = ''number''"
| "type_name (JString _) = ''string''"
| "type_name (JArray _) = ''array''"
| "type_name (JObject _) = ''object''"

text \<open>\<open>json::find\<close>: only objects have members.\<close>

fun json_find :: "json \<Rightarrow> string \<Rightarrow> json option" where
  "json_find (JObject members) k = map_of members k"
| "json_find _ k = None"

section \<open>Errors\<close>

record rpc_error =
  code :: int
  message :: string

definition parse_error :: "string \<Rightarrow> rpc_error" where "parse_error m = \<lparr>code = -32700, message = m\<rparr>"
definition invalid_request_error :: "string \<Rightarrow> rpc_error" where "invalid_request_error m = \<lparr>code = -32600, message = m\<rparr>"
definition unknown_method_error :: "string \<Rightarrow> rpc_error" where "unknown_method_error m = \<lparr>code = -32601, message = m\<rparr>"
definition invalid_parameters_error :: "string \<Rightarrow> rpc_error" where "invalid_parameters_error m = \<lparr>code = -32602, message = m\<rparr>"
definition internal_error :: "string \<Rightarrow> rpc_error" where "internal_error m = \<lparr>code = -32603, message = m\<rparr>"
definition transport_error :: "string \<Rightarrow> rpc_error" where "transport_error m = \<lparr>code = -32000, message = m\<rparr>"

section \<open>Parameters\<close>

datatype base_type = type_size_t | type_uint64 | type_bool | type_string | type_strings | type_uint64s | type_string_pairs

datatype base_value =
    value_nat nat | value_bool bool | value_string string | value_strings "string list"
  | value_nats "nat list" | value_pairs "(string \<times> string) list"

text \<open>The types of request parameters in use: plain ones, the variant of an integer and a string, enums
  (with their name and values), and optional ones.\<close>

datatype param_type = plain_type base_type | int_or_string | enum_type string "string list" | optional_type param_type

datatype param_value = base base_value | int_value int | string_value string | enum_value nat | no_value | some_value param_value

text \<open>The JSON library: \<open>parse\<close> fails with the text of its exception, \<open>get_to\<close> with the text of a
  type error.\<close>

record json_lib =
  parse :: "string \<Rightarrow> string + json"
  dump :: "json \<Rightarrow> string"
  get_to :: "base_type \<Rightarrow> json \<Rightarrow> string + base_value"

definition quote :: string where "quote = [CHR 0x27]"

fun index_of :: "string \<Rightarrow> string list \<Rightarrow> nat option" where
  "index_of v [] = None"
| "index_of v (x # xs) = (if v = x then Some 0 else map_option Suc (index_of v xs))"

definition unpack_int_or_string :: "json \<Rightarrow> rpc_error + param_value" where
  "unpack_int_or_string j =
     (case j of
        JString s \<Rightarrow> Inr (string_value s)
      | JBool b \<Rightarrow> Inr (int_value (if b then 1 else 0))
      | JInteger i \<Rightarrow> Inr (int_value i)
      | JUnsigned n \<Rightarrow> Inr (int_value (sint (of_nat n :: u64)))
      | _ \<Rightarrow> Inl (invalid_parameters_error (''Invalid parameter type: '' @ type_name j)))"

fun unpack_value :: "json_lib \<Rightarrow> string \<Rightarrow> param_type \<Rightarrow> json option \<Rightarrow> rpc_error + param_value" where
  "unpack_value lib name (optional_type t) iter =
     (if iter = None \<or> iter = Some JNull then Inr no_value
      else map_sum id some_value (unpack_value lib name t iter))"
| "unpack_value lib name t None = Inl (invalid_parameters_error (''Missing parameter: '' @ name))"
| "unpack_value lib name (plain_type b) (Some j) =
     (case get_to lib b j of
        Inl e \<Rightarrow> Inl (invalid_parameters_error (''Invalid parameter type: '' @ e))
      | Inr v \<Rightarrow> Inr (base v))"
| "unpack_value lib name int_or_string (Some j) = unpack_int_or_string j"
| "unpack_value lib name (enum_type ename vs) (Some j) =
     (case get_to lib type_string j of
        Inl e \<Rightarrow> Inl (invalid_parameters_error (''Invalid parameter type: '' @ e))
      | Inr (value_string v) \<Rightarrow>
          (case index_of v vs of
             Some i \<Rightarrow> Inr (enum_value i)
           | None \<Rightarrow> Inl (invalid_parameters_error (''Invalid parameter value: '' @ quote @ v @ quote @
               '' is not a valid value for enum '' @ quote @ ename @ quote)))
      | Inr _ \<Rightarrow> Inl (invalid_parameters_error ''Invalid parameter type: ''))"

record request_type =
  request_name :: string
  parameters :: "(string \<times> param_type) list"

fun unpack_parameters :: "json_lib \<Rightarrow> json \<Rightarrow> (string \<times> param_type) list \<Rightarrow> rpc_error + param_value list" where
  "unpack_parameters lib raw_data [] = Inr []"
| "unpack_parameters lib raw_data ((name, t) # ps) =
     (case unpack_value lib name t (json_find raw_data name) of
        Inl e \<Rightarrow> Inl e
      | Inr v \<Rightarrow> map_sum id (Cons v) (unpack_parameters lib raw_data ps))"

definition unpack_request :: "json_lib \<Rightarrow> request_type \<Rightarrow> json \<Rightarrow> rpc_error + param_value list" where
  "unpack_request lib r raw_data = unpack_parameters lib raw_data (parameters r)"

section \<open>Protocol\<close>

record request =
  method_name :: string
  params :: json
  request_json_id :: "json option"

definition is_number :: "json \<Rightarrow> bool" where
  "is_number j \<longleftrightarrow> (case j of JInteger _ \<Rightarrow> True | JUnsigned _ \<Rightarrow> True | JFloat _ \<Rightarrow> True | _ \<Rightarrow> False)"

definition is_string :: "json \<Rightarrow> bool" where
  "is_string j \<longleftrightarrow> (case j of JString _ \<Rightarrow> True | _ \<Rightarrow> False)"

definition check_params :: "json option \<Rightarrow> rpc_error + json" where
  "check_params ps =
     (case ps of
        None \<Rightarrow> Inr JNull
      | Some (JObject x) \<Rightarrow> Inr (JObject x)
      | Some (JArray x) \<Rightarrow> Inr (JArray x)
      | Some _ \<Rightarrow> Inl (invalid_request_error (quote @ ''params'' @ quote @ '' is neither and object, nor an array.'')))"

definition check_id :: "json option \<Rightarrow> rpc_error + json option" where
  "check_id i =
     (case i of
        None \<Rightarrow> Inr None
      | Some j \<Rightarrow>
          if is_string j \<or> is_number j \<or> j = JNull then Inr (Some j)
          else Inl (invalid_request_error (quote @ ''id'' @ quote @ '' is neither and string, nor number, nor null.'')))"

definition expected_count :: "json option \<Rightarrow> json option \<Rightarrow> nat" where
  "expected_count ps i = 2 + (if ps = None then 0 else 1) + (if i = None then 0 else 1)"

definition load_object :: "(string \<times> json) list \<Rightarrow> rpc_error + request" where
  "load_object members =
     (case map_of members ''jsonrpc'' of
        None \<Rightarrow> Inl (invalid_request_error (quote @ ''jsonrpc'' @ quote @ '' missing''))
      | Some (JString v) \<Rightarrow>
          if v \<noteq> ''2.0'' then Inl (invalid_request_error (quote @ ''jsonrpc'' @ quote @ '' has to '' @ quote @ ''2.0'' @ quote))
          else (case map_of members ''method'' of
            None \<Rightarrow> Inl (invalid_request_error (quote @ ''method'' @ quote @ '' missing''))
          | Some (JString m) \<Rightarrow>
              (case check_params (map_of members ''params'') of
                 Inl e \<Rightarrow> Inl e
               | Inr ps \<Rightarrow>
                   (case check_id (map_of members ''id'') of
                      Inl e \<Rightarrow> Inl e
                    | Inr i \<Rightarrow>
                        if length members \<noteq> expected_count (map_of members ''params'') (map_of members ''id'')
                        then Inl (invalid_request_error ''to many members found.'')
                        else Inr \<lparr>method_name = m, params = ps, request_json_id = i\<rparr>))
          | Some _ \<Rightarrow> Inl (invalid_request_error (quote @ ''method'' @ quote @ '' is not a string'')))
      | Some _ \<Rightarrow> Inl (invalid_request_error (quote @ ''jsonrpc'' @ quote @ '' is not a string'')))"

definition load_request :: "json_lib \<Rightarrow> string \<Rightarrow> rpc_error + request" where
  "load_request lib content =
     (case parse lib content of
        Inl e \<Rightarrow> Inl (parse_error e)
      | Inr (JObject members) \<Rightarrow> load_object members
      | Inr _ \<Rightarrow> Inl (invalid_request_error ''Root is not an object''))"

definition dq :: string where "dq = [CHR 0x22]"

text \<open>A member of an object as the format strings write it.\<close>

definition member_text :: "string \<Rightarrow> string \<Rightarrow> string" where
  "member_text k v = dq @ k @ dq @ '':'' @ v"

definition dump_request :: "json_lib \<Rightarrow> request \<Rightarrow> string" where
  "dump_request lib r =
     ''{'' @ member_text ''jsonrpc'' (dq @ ''2.0'' @ dq) @ '','' @ member_text ''method'' (dq @ method_name r @ dq) @
     (case request_json_id r of None \<Rightarrow> [] | Some i \<Rightarrow> '','' @ member_text ''id'' (dump lib i)) @
     (if params r = JNull then [] else '','' @ member_text ''params'' (dump lib (params r))) @ ''}''"

definition dump_response :: "json_lib \<Rightarrow> json \<Rightarrow> json option \<Rightarrow> string" where
  "dump_response lib r i =
     ''{'' @ member_text ''jsonrpc'' (dq @ ''2.0'' @ dq) @ '','' @ member_text ''result'' (dump lib r) @
     (case i of None \<Rightarrow> [] | Some j \<Rightarrow> '','' @ member_text ''id'' (dump lib j)) @ ''}''"

definition error_json :: "rpc_error \<Rightarrow> json" where
  "error_json e = JObject [(''code'', JInteger (code e)), (''message'', JString (message e))]"

definition dump_error :: "json_lib \<Rightarrow> rpc_error \<Rightarrow> json option \<Rightarrow> string" where
  "dump_error lib e i =
     ''{'' @ member_text ''jsonrpc'' (dq @ ''2.0'' @ dq) @ '','' @ member_text ''error'' (dump lib (error_json e)) @
     (case i of None \<Rightarrow> [] | Some j \<Rightarrow> '','' @ member_text ''id'' (dump lib j)) @ ''}''"

section \<open>Server\<close>

text \<open>The handlers by method name; \<open>emplace\<close> keeps the first one that was registered. A handler is
  identified by the request type it unpacks and a tag \<open>'h\<close> for the function it calls.\<close>

record 'h registry =
  request_handlers :: "(string \<times> request_type \<times> 'h) list"
  notification_handlers :: "(string \<times> request_type \<times> 'h) list"

definition emplace :: "string \<Rightarrow> 'a \<Rightarrow> (string \<times> 'a) list \<Rightarrow> (string \<times> 'a) list" where
  "emplace k v xs = (if map_of xs k = None then xs @ [(k, v)] else xs)"

definition register_request :: "request_type \<Rightarrow> 'h \<Rightarrow> 'h registry \<Rightarrow> 'h registry" where
  "register_request r h reg = reg\<lparr>request_handlers := emplace (request_name r) (r, h) (request_handlers reg)\<rparr>"

definition register_notification :: "request_type \<Rightarrow> 'h \<Rightarrow> 'h registry \<Rightarrow> 'h registry" where
  "register_notification r h reg =
     reg\<lparr>notification_handlers := emplace (request_name r) (r, h) (notification_handlers reg)\<rparr>"

datatype request_id = id_number int | id_string string

text \<open>\<open>get<std::string>\<close> on a JSON value that is no string throws.\<close>

definition to_request_id :: "json \<Rightarrow> request_id option" where
  "to_request_id j =
     (case j of
        JInteger i \<Rightarrow> Some (id_number i)
      | JUnsigned n \<Rightarrow> Some (id_number (sint (of_nat n :: u64)))
      | JString s \<Rightarrow> Some (id_string s)
      | _ \<Rightarrow> None)"

datatype 'h outcome =
    Reply string
  | CallRequest 'h request_id json "param_value list"
  | CallNotification 'h "param_value list"
  | Uncaught string

definition call_request :: "json_lib \<Rightarrow> request_type \<times> 'h \<Rightarrow> json \<Rightarrow> json \<Rightarrow> 'h outcome" where
  "call_request lib rh i ps =
     (case to_request_id i of
        None \<Rightarrow> Uncaught ''type_error''
      | Some rid \<Rightarrow>
          (case unpack_request lib (fst rh) ps of
             Inl e \<Rightarrow> Uncaught (message e)
           | Inr vs \<Rightarrow> CallRequest (snd rh) rid i vs))"

definition call_notification :: "json_lib \<Rightarrow> request_type \<times> 'h \<Rightarrow> json \<Rightarrow> 'h outcome" where
  "call_notification lib rh ps =
     (case unpack_request lib (fst rh) ps of
        Inl e \<Rightarrow> Uncaught (message e)
      | Inr vs \<Rightarrow> CallNotification (snd rh) vs)"

definition unknown_request :: "string \<Rightarrow> string" where
  "unknown_request m = ''Unknown request method: '' @ quote @ m @ quote"

definition unknown_notification :: "string \<Rightarrow> string" where
  "unknown_notification m = ''Unknown notification method: '' @ quote @ m @ quote"

definition handle :: "json_lib \<Rightarrow> 'h registry \<Rightarrow> string \<Rightarrow> 'h outcome" where
  "handle lib reg data =
     (case load_request lib data of
        Inl e \<Rightarrow> Reply (dump_error lib e None)
      | Inr r \<Rightarrow>
          (case request_json_id r of
             Some i \<Rightarrow>
               (case map_of (request_handlers reg) (method_name r) of
                  None \<Rightarrow> Reply (dump_error lib (unknown_method_error (unknown_request (method_name r))) (Some i))
                | Some rh \<Rightarrow> call_request lib rh i (params r))
           | None \<Rightarrow>
               (case map_of (notification_handlers reg) (method_name r) of
                  None \<Rightarrow> Reply (dump_error lib (unknown_method_error (unknown_notification (method_name r))) None)
                | Some rh \<Rightarrow> call_notification lib rh (params r))))"

text \<open>What the callbacks that a handler is given write.\<close>

definition respond_text :: "json_lib \<Rightarrow> json \<Rightarrow> json \<Rightarrow> string" where
  "respond_text lib i r = dump_response lib r (Some i)"

definition report_error_text :: "json_lib \<Rightarrow> json option \<Rightarrow> string \<Rightarrow> string" where
  "report_error_text lib i m = dump_error lib (internal_error m) i"

section \<open>Lemmas\<close>

lemmas error_defs = parse_error_def invalid_request_error_def unknown_method_error_def
  invalid_parameters_error_def internal_error_def transport_error_def

lemma check_codes:
  "check_params ps = Inl e \<Longrightarrow> code e = -32600" "check_id i = Inl e \<Longrightarrow> code e = -32600"
  by (auto simp: check_params_def check_id_def error_defs split: option.splits json.splits if_splits)

lemma load_object_code: "load_object members = Inl e \<Longrightarrow> code e = -32600"
  by (auto simp: load_object_def error_defs dest: check_codes
      split: option.splits json.splits if_splits sum.splits)

lemma load_request_code:
  "load_request lib data = Inl e \<Longrightarrow>
     code e = (case parse lib data of Inl _ \<Rightarrow> -32700 | Inr _ \<Rightarrow> -32600)"
  by (auto simp: load_request_def error_defs dest: load_object_code split: sum.splits json.splits)

lemma unpack_parameters_iff:
  "unpack_parameters lib raw ps = Inr vs \<longleftrightarrow>
     list_all2 (\<lambda>(name, t) v. unpack_value lib name t (json_find raw name) = Inr v) ps vs"
proof (induction ps arbitrary: vs)
  case (Cons p ps)
  obtain name t where p: "p = (name, t)" by fastforce
  show ?case
  proof (cases vs)
    case Nil
    then show ?thesis
      by (cases "unpack_parameters lib raw ps") (auto simp: p split: sum.splits)
  next
    case (Cons v vs')
    then show ?thesis
      by (cases "unpack_parameters lib raw ps") (auto simp: p Cons.IH [symmetric] split: sum.splits)
  qed
qed auto

definition optional_param :: "param_type \<Rightarrow> bool" where
  "optional_param t \<longleftrightarrow> (case t of optional_type _ \<Rightarrow> True | _ \<Rightarrow> False)"

lemma unpack_missing:
  "\<not> optional_param t \<Longrightarrow> unpack_value lib name t None = Inl (invalid_parameters_error (''Missing parameter: '' @ name))"
  by (cases t) (auto simp: optional_param_def)

lemma unpack_request_missing:
  assumes "(name, t) \<in> set (parameters r)" "\<not> optional_param t" "json_find raw name = None"
  shows "\<exists>e. unpack_request lib r raw = Inl e"
proof (cases "unpack_request lib r raw")
  case (Inr vs)
  then have "list_all2 (\<lambda>(name, t) v. unpack_value lib name t (json_find raw name) = Inr v) (parameters r) vs"
    by (simp add: unpack_request_def unpack_parameters_iff)
  with assms(1) obtain v where "unpack_value lib name t (json_find raw name) = Inr v"
    by (auto simp: list_all2_conv_all_nth in_set_conv_nth)
  with assms(2,3) show ?thesis by (simp add: unpack_missing)
qed simp

section \<open>Properties\<close>


text \<open>A known request with a wrong shape ends the server. If a parameter that is not optional is
  missing, or the id is neither an integer nor a string (the protocol lets null and fractions through),
  the exception passes the dispatcher and the serving loop, and no one catches it.\<close>
lemma bad_request_ends_server:
  assumes "load_request lib data = Inr r" "request_json_id r = Some i"
    "map_of (request_handlers reg) (method_name r) = Some (rt, h)"
    "to_request_id i = None \<or>
     (\<exists>name t. (name, t) \<in> set (parameters rt) \<and> \<not> optional_param t \<and> json_find (params r) name = None)"
  shows "\<exists>what. handle lib reg data = Uncaught what"
  using assms unpack_request_missing [of _ _ rt "params r" lib]
  by (fastforce simp: handle_def call_request_def split: option.splits)

text \<open>A library that reads every text as a request without parameters.\<close>

definition example_lib :: json_lib where
  "example_lib = \<lparr>parse = (\<lambda>_. Inr (JObject [(''jsonrpc'', JString ''2.0''), (''method'', JString ''readDocument''),
       (''id'', JInteger 1)])), dump = (\<lambda>_. []), get_to = (\<lambda>_ _. Inl [])\<rparr>"

definition example_registry :: "unit registry" where
  "example_registry = register_request
     \<lparr>request_name = ''readDocument'', parameters = [(''filePath'', plain_type type_string)]\<rparr> ()
     \<lparr>request_handlers = [], notification_handlers = []\<rparr>"

lemma bad_request_ends_server_witness: "\<exists>what. handle example_lib example_registry ''{}'' = Uncaught what"
proof (rule bad_request_ends_server)
  show "load_request example_lib ''{}'' =
      Inr \<lparr>method_name = ''readDocument'', params = JNull, request_json_id = Some (JInteger 1)\<rparr>"
    by code_simp
  show "request_json_id \<lparr>method_name = ''readDocument'', params = JNull, request_json_id = Some (JInteger 1)\<rparr> =
      Some (JInteger 1)" by simp
qed (auto simp: example_registry_def register_request_def emplace_def optional_param_def)

end
