(* ===== verification/Protocol.thy ===== *)
theory Protocol
  imports Rpc
begin

text \<open>
  The request and notification types of \<open>snail/server/requests/protocol.hpp\<close>: for each its method
  name and its parameters in order, with the C++ type that decides how a parameter is unpacked. The
  accessors of the C++ classes are the positions in the list of unpacked values.
\<close>

definition progress_token :: param_type where "progress_token = int_or_string"

definition module_filter_mode :: param_type where
  "module_filter_mode = enum_type ''module_filter_mode'' [''all_but_excluded'', ''only_included'']"

definition functions_sort_by :: param_type where
  "functions_sort_by = enum_type ''functions_sort_by'' [''name'', ''self_samples'', ''total_samples'']"

definition sort_direction :: param_type where
  "sort_direction = enum_type ''sort_direction'' [''ascending'', ''descending'']"

definition initialize_request :: request_type where
  "initialize_request = \<lparr>request_name = ''initialize'', parameters = []\<rparr>"

definition shutdown_request :: request_type where
  "shutdown_request = \<lparr>request_name = ''shutdown'', parameters = []\<rparr>"

definition read_document_request :: request_type where
  "read_document_request = \<lparr>request_name = ''readDocument'', parameters =
    [(''filePath'', plain_type type_string),
     (''workDoneToken'', optional_type progress_token)]\<rparr>"

definition retrieve_sample_sources_request :: request_type where
  "retrieve_sample_sources_request = \<lparr>request_name = ''retrieveSampleSources'', parameters =
    [(''documentId'', plain_type type_size_t)]\<rparr>"

definition retrieve_session_info_request :: request_type where
  "retrieve_session_info_request = \<lparr>request_name = ''retrieveSessionInfo'', parameters =
    [(''documentId'', plain_type type_size_t)]\<rparr>"

definition retrieve_system_info_request :: request_type where
  "retrieve_system_info_request = \<lparr>request_name = ''retrieveSystemInfo'', parameters =
    [(''documentId'', plain_type type_size_t)]\<rparr>"

definition retrieve_processes_request :: request_type where
  "retrieve_processes_request = \<lparr>request_name = ''retrieveProcesses'', parameters =
    [(''documentId'', plain_type type_size_t)]\<rparr>"

definition retrieve_hottest_functions_request :: request_type where
  "retrieve_hottest_functions_request = \<lparr>request_name = ''retrieveHottestFunctions'', parameters =
    [(''count'', plain_type type_size_t),
     (''sourceId'', plain_type type_size_t),
     (''documentId'', plain_type type_size_t),
     (''workDoneToken'', optional_type progress_token)]\<rparr>"

definition retrieve_process_sample_info_request :: request_type where
  "retrieve_process_sample_info_request = \<lparr>request_name = ''retrieveProcessSampleInfo'', parameters =
    [(''processKey'', plain_type type_uint64),
     (''documentId'', plain_type type_size_t)]\<rparr>"

definition retrieve_call_tree_hot_path_request :: request_type where
  "retrieve_call_tree_hot_path_request = \<lparr>request_name = ''retrieveCallTreeHotPath'', parameters =
    [(''sourceId'', plain_type type_size_t),
     (''processKey'', plain_type type_uint64),
     (''documentId'', plain_type type_size_t),
     (''workDoneToken'', optional_type progress_token)]\<rparr>"

definition retrieve_functions_page_request :: request_type where
  "retrieve_functions_page_request = \<lparr>request_name = ''retrieveFunctionsPage'', parameters =
    [(''sortBy'', functions_sort_by),
     (''sortOrder'', sort_direction),
     (''sortSourceId'', optional_type (plain_type type_size_t)),
     (''pageSize'', plain_type type_size_t),
     (''pageIndex'', plain_type type_size_t),
     (''processKey'', plain_type type_uint64),
     (''documentId'', plain_type type_size_t),
     (''workDoneToken'', optional_type progress_token)]\<rparr>"

definition expand_call_tree_node_request :: request_type where
  "expand_call_tree_node_request = \<lparr>request_name = ''expandCallTreeNode'', parameters =
    [(''nodeId'', plain_type type_size_t),
     (''processKey'', plain_type type_uint64),
     (''documentId'', plain_type type_size_t),
     (''workDoneToken'', optional_type progress_token)]\<rparr>"

definition retrieve_callers_callees_request :: request_type where
  "retrieve_callers_callees_request = \<lparr>request_name = ''retrieveCallersCallees'', parameters =
    [(''sortSourceId'', plain_type type_size_t),
     (''maxEntries'', plain_type type_size_t),
     (''functionId'', plain_type type_size_t),
     (''processKey'', plain_type type_uint64),
     (''documentId'', plain_type type_size_t),
     (''workDoneToken'', optional_type progress_token)]\<rparr>"

definition retrieve_line_info_request :: request_type where
  "retrieve_line_info_request = \<lparr>request_name = ''retrieveLineInfo'', parameters =
    [(''functionId'', plain_type type_size_t),
     (''processKey'', plain_type type_uint64),
     (''documentId'', plain_type type_size_t),
     (''workDoneToken'', optional_type progress_token)]\<rparr>"

definition set_sample_filters_request :: request_type where
  "set_sample_filters_request = \<lparr>request_name = ''setSampleFilters'', parameters =
    [(''minTime'', optional_type (plain_type type_size_t)),
     (''maxTime'', optional_type (plain_type type_size_t)),
     (''excludedProcesses'', plain_type type_uint64s),
     (''excludedThreads'', plain_type type_uint64s),
     (''documentId'', plain_type type_size_t)]\<rparr>"

definition impl_cancel_request_request :: request_type where
  "impl_cancel_request_request = \<lparr>request_name = ''$/cancelRequest'', parameters =
    [(''id'', int_or_string)]\<rparr>"

definition close_document_request :: request_type where
  "close_document_request = \<lparr>request_name = ''closeDocument'', parameters =
    [(''documentId'', plain_type type_size_t)]\<rparr>"

definition set_module_path_maps_request :: request_type where
  "set_module_path_maps_request = \<lparr>request_name = ''setModulePathMaps'', parameters =
    [(''simpleMaps'', plain_type type_string_pairs)]\<rparr>"

definition set_pdb_symbol_find_options_request :: request_type where
  "set_pdb_symbol_find_options_request = \<lparr>request_name = ''setPdbSymbolFindOptions'', parameters =
    [(''searchDirs'', plain_type type_strings),
     (''symbolCacheDir'', optional_type (plain_type type_string)),
     (''noDefaultUrls'', plain_type type_bool),
     (''symbolServerUrls'', plain_type type_strings)]\<rparr>"

definition set_dwarf_symbol_find_options_request :: request_type where
  "set_dwarf_symbol_find_options_request = \<lparr>request_name = ''setDwarfSymbolFindOptions'', parameters =
    [(''searchDirs'', plain_type type_strings),
     (''debuginfodCacheDir'', optional_type (plain_type type_string)),
     (''noDefaultUrls'', plain_type type_bool),
     (''debuginfodUrls'', plain_type type_strings)]\<rparr>"

definition set_module_filters_request :: request_type where
  "set_module_filters_request = \<lparr>request_name = ''setModuleFilters'', parameters =
    [(''mode'', module_filter_mode),
     (''exclude'', plain_type type_strings),
     (''include'', plain_type type_strings)]\<rparr>"

definition exit_request :: request_type where
  "exit_request = \<lparr>request_name = ''exit'', parameters = []\<rparr>"

lemmas request_type_defs = initialize_request_def shutdown_request_def read_document_request_def retrieve_sample_sources_request_def retrieve_session_info_request_def retrieve_system_info_request_def retrieve_processes_request_def retrieve_hottest_functions_request_def retrieve_process_sample_info_request_def retrieve_call_tree_hot_path_request_def retrieve_functions_page_request_def expand_call_tree_node_request_def retrieve_callers_callees_request_def retrieve_line_info_request_def set_sample_filters_request_def impl_cancel_request_request_def close_document_request_def set_module_path_maps_request_def set_pdb_symbol_find_options_request_def set_dwarf_symbol_find_options_request_def set_module_filters_request_def exit_request_def

text \<open>All types, in the order of the header.\<close>

definition protocol_requests :: "request_type list" where
  "protocol_requests =
    [initialize_request,
     shutdown_request,
     read_document_request,
     retrieve_sample_sources_request,
     retrieve_session_info_request,
     retrieve_system_info_request,
     retrieve_processes_request,
     retrieve_hottest_functions_request,
     retrieve_process_sample_info_request,
     retrieve_call_tree_hot_path_request,
     retrieve_functions_page_request,
     expand_call_tree_node_request,
     retrieve_callers_callees_request,
     retrieve_line_info_request,
     set_sample_filters_request,
     impl_cancel_request_request,
     close_document_request,
     set_module_path_maps_request,
     set_pdb_symbol_find_options_request,
     set_dwarf_symbol_find_options_request,
     set_module_filters_request,
     exit_request]"

lemma protocol_names_distinct: "distinct (map request_name protocol_requests)"
  by code_simp

end
