(* ===== verification/Responses.thy ===== *)
theory Responses
  imports Storage Protocol "HOL-Library.AList"
begin

text \<open>
  The JSON that \<open>snail/server/snail_server.cpp\<close> builds from an analysis: hit counts, call tree
  children, functions, callers and callees, statistics. Objects have their members in the order the
  code writes them. Accessors that use \<open>at\<close> throw \<open>OutOfRange\<close>. The iteration order of an unordered
  map is not specified: it is an argument \<open>map_order\<close> that lists the keys of a map.
\<close>

type_synonym counts = "nat \<rightharpoonup> nat"
type_synonym map_order = "nat set \<Rightarrow> nat list"

definition map_order_spec :: "map_order \<Rightarrow> bool" where
  "map_order_spec ord \<longleftrightarrow> (\<forall>A. finite A \<longrightarrow> set (ord A) = A \<and> distinct (ord A))"

section \<open>Hits\<close>

definition make_percent :: "nat \<Rightarrow> nat \<Rightarrow> double_value" where
  "make_percent v max_value = (if max_value = 0 then zero_double else percent_of v max_value)"

definition hit_json :: "counts \<Rightarrow> source_hit_counts \<Rightarrow> nat \<Rightarrow> error + json" where
  "hit_json total_hits h src =
     bind_result (at_or_throw (total_hits src)) (\<lambda>totals.
       let hits = h ! src in
       Inr (JObject [(''sourceId'', JUnsigned src), (''totalSamples'', JUnsigned (total hits)),
         (''selfSamples'', JUnsigned (self hits)), (''totalPercent'', JFloat (make_percent (total hits) totals)),
         (''selfPercent'', JFloat (make_percent (self hits) totals))]))"

definition make_hits_json :: "source_hit_counts \<Rightarrow> counts \<Rightarrow> error + json" where
  "make_hits_json h total_hits = map_sum id JArray (map_result (hit_json total_hits h) [0..<length h])"

section \<open>Call tree\<close>

fun top_of :: "nat \<Rightarrow> call_tree_node option \<Rightarrow> call_tree_node list \<Rightarrow> call_tree_node option" where
  "top_of src best [] = best"
| "top_of src best (kid # cs) =
     (case best of
        None \<Rightarrow> top_of src (Some kid) cs
      | Some t \<Rightarrow>
          if total (hits_get (node_hits kid) src) > total (hits_get (node_hits t) src)
          then top_of src (Some kid) cs else top_of src best cs)"

definition child_nodes :: "stacks_analysis \<Rightarrow> call_tree_node \<Rightarrow> error + call_tree_node list" where
  "child_nodes a node = map_result (\<lambda>c. at_or_throw (get_call_tree_node a c)) (node_children node)"

definition get_top_child :: "stacks_analysis \<Rightarrow> call_tree_node \<Rightarrow> nat \<Rightarrow> error + call_tree_node option" where
  "get_top_child a node src = map_sum id (top_of src None) (child_nodes a node)"

definition child_json ::
  "stacks_analysis \<Rightarrow> counts \<Rightarrow> bool \<Rightarrow> call_tree_node option \<Rightarrow> call_tree_node \<Rightarrow> error + json" where
  "child_json a total_hits expand_top_child best kid =
     bind_result (at_or_throw (get_function a (node_function_id kid))) (\<lambda>child_function.
     bind_result (at_or_throw (get_module a (function_module_id child_function))) (\<lambda>child_module.
     bind_result (make_hits_json (node_hits kid) total_hits) (\<lambda>hits.
       let is_top_child = (case best of None \<Rightarrow> False | Some t \<Rightarrow> node_id kid = node_id t)
       in Inr (JObject ([(''name'', JString (function_name child_function)), (''id'', JUnsigned (node_id kid)),
            (''functionId'', JUnsigned (node_function_id kid)),
            (''module'', JString (module_row_name child_module)), (''type'', JString ''function''),
            (''hits'', hits), (''isHot'', JBool (expand_top_child \<and> is_top_child))] @
            (if node_children kid = [] then [(''children'', JArray [])]
             else if \<not> is_top_child \<or> \<not> expand_top_child then [(''children'', JNull)] else []))))))"

record expansion =
  children_json :: "json list"
  top_child :: "call_tree_node option"
  top_child_index :: nat
  expand_top :: bool

definition index_of_top :: "call_tree_node option \<Rightarrow> call_tree_node list \<Rightarrow> nat" where
  "index_of_top best cs =
     (case best of
        None \<Rightarrow> 0
      | Some t \<Rightarrow> foldl (\<lambda>r i. if node_id (cs ! i) = node_id t then i else r) 0 [0..<length cs])"

definition append_call_tree_node_children ::
  "stacks_analysis \<Rightarrow> call_tree_node \<Rightarrow> counts \<Rightarrow> bool \<Rightarrow> nat option \<Rightarrow> error + expansion" where
  "append_call_tree_node_children a node total_hits expand_hot_path hot_source_id =
     bind_result (case hot_source_id of None \<Rightarrow> Inr None | Some src \<Rightarrow> get_top_child a node src) (\<lambda>best.
     let expand_top_child =
       (case (hot_source_id, best) of
          (Some src, Some t) \<Rightarrow>
            expand_hot_path \<and> total (hits_get (node_hits t) src) > self (hits_get (node_hits node) src)
        | _ \<Rightarrow> False)
     in bind_result (child_nodes a node) (\<lambda>cs.
        bind_result (map_result (child_json a total_hits expand_top_child best) cs) (\<lambda>js.
          Inr \<lparr>children_json = js, top_child = best, top_child_index = index_of_top best cs,
               expand_top = expand_top_child\<rparr>)))"

text \<open>\<open>json["children"] = \<dots>\<close> on an object: replace the member, or add it.\<close>

definition set_member :: "string \<Rightarrow> json \<Rightarrow> json \<Rightarrow> json" where
  "set_member k v j =
     (case j of
        JObject members \<Rightarrow> JObject (AList.update k v members)
      | _ \<Rightarrow> j)"

text \<open>The loop of the hot path request. It walks down along the top children as long as they are to be
  expanded; \<open>None\<close> would mean that it does not return.\<close>

partial_function (option) hot_path_loop ::
  "stacks_analysis \<Rightarrow> counts \<Rightarrow> nat \<Rightarrow> (nat \<Rightarrow> bool) \<Rightarrow> nat \<Rightarrow> call_tree_node \<Rightarrow> json \<Rightarrow> (error + json) option" where
  "hot_path_loop a total_hits src canceled k node j =
     (case append_call_tree_node_children a node total_hits True (Some src) of
        Inl e \<Rightarrow> Some (Inl e)
      | Inr x \<Rightarrow>
          (case top_child x of
             None \<Rightarrow> Some (Inr (set_member ''children'' (JArray (children_json x)) j))
           | Some t \<Rightarrow>
               if \<not> expand_top x \<or> canceled k then Some (Inr (set_member ''children'' (JArray (children_json x)) j))
               else Option.bind (hot_path_loop a total_hits src canceled (Suc k) t (children_json x ! top_child_index x))
                      (\<lambda>r. Some (map_sum id (\<lambda>c.
                        set_member ''children'' (JArray ((children_json x)[top_child_index x := c])) j) r))))"

section \<open>Functions\<close>

definition process_title :: "process_info \<Rightarrow> string" where
  "process_title process = process_name process @ '' (PID: '' @ dec (process_os_id process) @ '')''"

definition make_function_json ::
  "stacks_analysis \<Rightarrow> process_info \<Rightarrow> function_info \<Rightarrow> counts \<Rightarrow> source_hit_counts option \<Rightarrow> error + json" where
  "make_function_json a process f total_hits hits_opt =
     (let hits = (case hits_opt of None \<Rightarrow> function_hits f | Some h \<Rightarrow> h);
          is_root = function_id f = function_id (function_root a)
      in bind_result (if is_root then Inr ''[multiple]''
                      else map_sum id module_row_name (at_or_throw (get_module a (function_module_id f)))) (\<lambda>mname.
         bind_result (make_hits_json hits total_hits) (\<lambda>hits_json.
           Inr (JObject [(''name'', JString (if is_root then process_title process else function_name f)),
             (''id'', JUnsigned (function_id f)), (''module'', JString mname),
             (''type'', JString (if is_root then ''process'' else ''function'')), (''hits'', hits_json)]))))"

text \<open>The hits of the accumulated entry: for each function left over, its counts of each source
  overwrite what is there.\<close>

definition accumulate_hits :: "source_hit_counts \<Rightarrow> source_hit_counts \<Rightarrow> source_hit_counts" where
  "accumulate_hits acc h =
     foldl (\<lambda>acc src. hits_modify src (\<lambda>c. \<lparr>total = total (h ! src), self = self (h ! src)\<rparr>) acc) acc [0..<length h]"

definition accumulated_hits :: "function_info list \<Rightarrow> source_hit_counts" where
  "accumulated_hits functions = foldl accumulate_hits [] (map function_hits functions)"

text \<open>The callers or callees in descending order of the hits of the edge.\<close>

definition sorted_edges :: "sorter \<Rightarrow> map_order \<Rightarrow> nat \<Rightarrow> (nat \<rightharpoonup> source_hit_counts) \<Rightarrow> nat list" where
  "sorted_edges std_sort ord src edges =
     (let edge_count = (\<lambda>i. total (hits_get (map_hits edges i) src))
      in std_sort (\<lambda>l r. edge_count l > edge_count r) (ord (dom edges)))"

definition make_callers_callees_json ::
  "sorter \<Rightarrow> map_order \<Rightarrow> stacks_analysis \<Rightarrow> process_info \<Rightarrow> nat \<Rightarrow> counts \<Rightarrow> nat \<Rightarrow> (nat \<rightharpoonup> source_hit_counts) \<Rightarrow>
   error + json" where
  "make_callers_callees_json std_sort ord a process max_entries total_hits sort_source_id functions =
     (let ids = sorted_edges std_sort ord sort_source_id functions;
          need_accumulated_item = length ids > max_entries;
          regular_items_count = (if need_accumulated_item then max_entries - 1 else length ids)
      in bind_result (map_result (\<lambda>i. bind_result (at_or_throw (get_function a i)) (\<lambda>f.
            make_function_json a process f total_hits None)) (take regular_items_count ids)) (\<lambda>regular.
         if \<not> need_accumulated_item then Inr (JArray regular)
         else bind_result (map_result (\<lambda>i. at_or_throw (get_function a i)) (drop regular_items_count ids)) (\<lambda>others.
              bind_result (make_hits_json (accumulated_hits others) total_hits) (\<lambda>hits.
                Inr (JArray (regular @ [JObject [(''name'', JString ''[others]''), (''id'', JNull),
                  (''module'', JString ''[multiple]''), (''type'', JString ''accumulated''), (''hits'', hits)]]))))))"

section \<open>Statistics\<close>

definition pmc_counter_members :: "pmc_counter_info list \<Rightarrow> (string \<times> json) list" where
  "pmc_counter_members counters =
     (if counters = [] then []
      else [(''pmcCounters'', JArray (map (\<lambda>c. JObject
              [(''name'', case counter_name c of None \<Rightarrow> JNull | Some n \<Rightarrow> JString n),
               (''count'', JUnsigned (counter_count c))]) counters))])"

definition statistics_json :: "nat option \<Rightarrow> pmc_counter_info list \<Rightarrow> json" where
  "statistics_json switches counters =
     JObject ((case switches of None \<Rightarrow> [] | Some n \<Rightarrow> [(''contextSwitches'', JUnsigned n)]) @
       pmc_counter_members counters)"

definition thread_members :: "thread_info \<Rightarrow> (string \<times> json) list" where
  "thread_members t =
     [(''key'', JUnsigned (thread_key t)), (''osId'', JUnsigned (thread_os_id t)),
      (''name'', case thread_name t of None \<Rightarrow> JNull | Some n \<Rightarrow> JString n),
      (''startTime'', JInteger (thread_start_time t)), (''endTime'', JInteger (thread_end_time t))]"

definition process_members :: "process_info \<Rightarrow> json list \<Rightarrow> (string \<times> json) list" where
  "process_members p threads =
     [(''key'', JUnsigned (process_key p)), (''osId'', JUnsigned (process_os_id p)),
      (''name'', JString (process_name p)), (''startTime'', JInteger (process_start_time p)),
      (''endTime'', JInteger (process_end_time p)), (''threads'', JArray threads)]"

section \<open>The hot path ends\<close>

lemma top_of_in: "top_of src best cs = Some t \<Longrightarrow> best = Some t \<or> t \<in> set cs"
  by (induction cs arbitrary: best) (auto split: option.splits if_splits)

lemma append_children_top:
  assumes "append_call_tree_node_children a node total_hits e (Some src) = Inr x" "top_child x = Some t"
  shows "\<exists>c \<in> set (node_children node). get_call_tree_node a c = Some t"
proof -
  obtain cs where cs: "child_nodes a node = Inr cs" "top_of src None cs = Some t"
    using assms by (auto simp: append_call_tree_node_children_def get_top_child_def bind_result_Inr Let_def map_sum_Inr)
  then have "t \<in> set cs" using top_of_in by fastforce
  then show ?thesis
    using cs(1) by (auto simp: child_nodes_def map_result_Inr list_all2_conv_all_nth in_set_conv_nth [of t cs])
        (metis nth_mem)
qed

text \<open>The nodes of an analysis lie behind their parents in the table.\<close>

definition children_after :: "stacks_analysis \<Rightarrow> bool" where
  "children_after a \<longleftrightarrow>
     (\<forall>i < length (call_tree_nodes a). \<forall>c \<in> set (node_children (call_tree_nodes a ! i)).
        i < c \<and> c < length (call_tree_nodes a)) \<and>
     (\<forall>c \<in> set (node_children (call_tree_root a)). c < length (call_tree_nodes a)) \<and>
     node_id (call_tree_root a) = root_call_tree_node_id"

lemma analysis_children_after:
  assumes "analyze_stacks sources of_source pid canceled = Some a"
  shows "children_after a"
proof -
  obtain st where wf: "analysis_wf st" and st: "a = stacks_analysis.truncate st"
    using analyze_run [OF assms] by (auto simp: run_ok_def)
  have "node_id (call_tree_root st) = root_call_tree_node_id" using wf [unfolded analysis_wf_def] by blast
  with analysis_wf_children(1,2) [OF wf] show ?thesis
    unfolding children_after_def st truncate_sel by blast
qed

lemma hot_path_loop_returns:
  assumes a: "children_after a" "length (call_tree_nodes a) \<le> root_call_tree_node_id"
    and i: "i < length (call_tree_nodes a)"
  shows "\<exists>r. hot_path_loop a total_hits src canceled k (call_tree_nodes a ! i) j = Some r"
  using i
proof (induction "length (call_tree_nodes a) - i" arbitrary: i k j rule: less_induct)
  case less
  let ?n = "call_tree_nodes a ! i"
  show ?case
  proof (cases "append_call_tree_node_children a ?n total_hits True (Some src)")
    case (Inl e)
    then show ?thesis by (subst hot_path_loop.simps) simp
  next
    case (Inr x)
    show ?thesis
    proof (cases "top_child x")
      case None
      with Inr show ?thesis by (subst hot_path_loop.simps) simp
    next
      case (Some t)
      with Inr obtain c where c: "c \<in> set (node_children ?n)" "get_call_tree_node a c = Some t"
        using append_children_top by blast
      then have "i < c" "c < length (call_tree_nodes a)" using a(1) less.prems unfolding children_after_def by blast+
      have "node_id (call_tree_root a) = root_call_tree_node_id" using a(1) unfolding children_after_def by blast
      then have "c \<noteq> node_id (call_tree_root a)" using \<open>c < length (call_tree_nodes a)\<close> a(2) by linarith
      then have "t = call_tree_nodes a ! c"
        using c(2) \<open>c < length (call_tree_nodes a)\<close> by (simp add: get_call_tree_node_def vector_at_def)
      then have "\<exists>r. hot_path_loop a total_hits src canceled (Suc k) t (children_json x ! top_child_index x) = Some r"
        using less.hyps [of c "Suc k" "children_json x ! top_child_index x"] less.prems
          \<open>i < c\<close> \<open>c < length (call_tree_nodes a)\<close> by simp
      then obtain r where "hot_path_loop a total_hits src canceled (Suc k) t (children_json x ! top_child_index x) = Some r" ..
      with Inr Some show ?thesis by (subst hot_path_loop.simps) simp
    qed
  qed
qed

lemma hot_path_returns:
  assumes "analyze_stacks sources of_source pid canceled = Some a"
    "length (call_tree_nodes a) \<le> root_call_tree_node_id"
  shows "\<exists>r. hot_path_loop a total_hits src stop k (call_tree_root a) j = Some r"
proof (cases "append_call_tree_node_children a (call_tree_root a) total_hits True (Some src)")
  case (Inl e)
  then show ?thesis by (subst hot_path_loop.simps) simp
next
  case (Inr x)
  have a: "children_after a" by (rule analysis_children_after [OF assms(1)])
  show ?thesis
  proof (cases "top_child x")
    case None
    with Inr show ?thesis by (subst hot_path_loop.simps) simp
  next
    case (Some t)
    with Inr obtain c where c: "c \<in> set (node_children (call_tree_root a))" "get_call_tree_node a c = Some t"
      using append_children_top by blast
    then have lc: "c < length (call_tree_nodes a)" using a unfolding children_after_def by blast
    have "node_id (call_tree_root a) = root_call_tree_node_id" using a unfolding children_after_def by blast
    then have "c \<noteq> node_id (call_tree_root a)" using lc assms(2) by linarith
    then have "t = call_tree_nodes a ! c" using c(2) lc by (simp add: get_call_tree_node_def vector_at_def)
    then obtain r where "hot_path_loop a total_hits src stop (Suc k) t (children_json x ! top_child_index x) = Some r"
      using hot_path_loop_returns [OF a assms(2) lc] by blast
    with Inr Some show ?thesis by (subst hot_path_loop.simps) simp
  qed
qed

section \<open>Callers and callees\<close>

lemma hits_modify_nth:
  "i < length acc \<Longrightarrow> hits_modify i g acc = acc[i := g (acc ! i)]"
  by (simp add: hits_modify_def Let_def)

lemma hits_modify_new: "hits_modify (length acc) g acc = acc @ [g no_hits]"
  by (simp add: hits_modify_def Let_def list_update_append)

lemma accumulate_prefix:
  "k \<le> length h \<Longrightarrow> foldl (\<lambda>acc src. hits_modify src (\<lambda>c. \<lparr>total = total (h ! src), self = self (h ! src)\<rparr>) acc) acc [0..<k] =
     take k h @ drop k acc"
proof (induction k)
  case (Suc k)
  let ?g = "\<lambda>c. \<lparr>total = total (h ! k), self = self (h ! k)\<rparr>"
  have g: "?g c = h ! k" for c by simp
  have t: "take (Suc k) h = take k h @ [h ! k]" using Suc.prems by (simp add: take_Suc_conv_app_nth)
  show ?case
  proof (cases "k < length acc")
    case True
    then have "drop k acc = acc ! k # drop (Suc k) acc" by (simp add: Cons_nth_drop_Suc)
    with Suc True show ?thesis
      by (simp add: hits_modify_nth t g list_update_append nth_append)
  next
    case False
    then have "take k h @ drop k acc = take k h" by simp
    with Suc False show ?thesis using hits_modify_new [of "take k h" ?g] by (simp add: t g min_absorb2)
  qed
qed simp

lemma accumulate_hits_overwrites: "accumulate_hits acc h = h @ drop (length h) acc"
  using accumulate_prefix [of "length h" h acc] by (simp add: accumulate_hits_def)

lemma accumulated_length:
  "\<forall>f \<in> set fs. length (function_hits f) \<le> n \<Longrightarrow> length acc \<le> n \<Longrightarrow>
     length (foldl accumulate_hits acc (map function_hits fs)) \<le> n"
  by (induction fs arbitrary: acc) (auto simp: accumulate_hits_overwrites)

section \<open>Properties\<close>

text \<open>C18: The hot path request ends: for every result of the stack analysis the walk down the call tree
  along the top children returns, because children lie behind their parent in the table of nodes.\<close>
theorem hot_path_terminates:
  assumes "analyze_stacks sources of_source pid canceled = Some a"
    "length (call_tree_nodes a) \<le> root_call_tree_node_id"
  shows "hot_path_loop a total_hits src stop k (call_tree_root a) j \<noteq> None"
  using hot_path_returns [OF assms] by (metis option.distinct(1))

text \<open>A list of callers or callees has at most \<open>max_entries\<close> entries, and one for every edge when there
  are not more than that.\<close>
lemma callers_callees_bounded:
  assumes "make_callers_callees_json srt ord a process max_entries total_hits src edges = Inr (JArray js)"
    "1 \<le> max_entries" "finite (dom edges)" "map_order_spec ord" "sort_spec srt"
  shows "length js = min (card (dom edges)) max_entries"
proof -
  let ?c = "\<lambda>i. total (hits_get (map_hits edges i) src)" and ?ids = "sorted_edges srt ord src edges"
  have "strict_weak_on (set (ord (dom edges))) (\<lambda>l r. ?c r < ?c l)" by (auto simp: strict_weak_on_def)
  then have "mset ?ids = mset (ord (dom edges))"
    using assms(5) by (auto simp: sorted_edges_def Let_def sort_spec_def)
  then have "length ?ids = length (ord (dom edges))" by (metis size_mset)
  also have "\<dots> = card (dom edges)" using assms(3,4) by (metis map_order_spec_def distinct_card)
  finally have ids: "length ?ids = card (dom edges)" .
  show ?thesis
  proof (cases "length ?ids > max_entries")
    case False
    then have "length js = length ?ids"
      using assms(1) by (auto simp: make_callers_callees_json_def Let_def bind_result_Inr dest!: map_result_length)
    with ids False show ?thesis by simp
  next
    case True
    then have "length js = min (length ?ids) (max_entries - 1) + 1"
      using assms(1) by (auto simp: make_callers_callees_json_def Let_def bind_result_Inr dest!: map_result_length)
    with ids True assms(2) show ?thesis by simp
  qed
qed

text \<open>The entry \<open>[others]\<close> does not add up the functions it stands for. When the last of them has
  counts for as many sources as the others, its counts are shown, whatever the others have.\<close>
lemma others_entry_is_last:
  assumes "\<forall>f \<in> set fs. length (function_hits f) \<le> length (function_hits g)"
  shows "accumulated_hits (fs @ [g]) = function_hits g"
  using accumulated_length [OF assms, of "[]"]
  by (simp add: accumulated_hits_def accumulate_hits_overwrites)

section \<open>Examples\<close>

text \<open>An analysis of one sample with one frame.\<close>

definition one_stack :: "nat \<Rightarrow> sample_data list" where
  "one_stack _ = [\<lparr>has_stack = True, has_frame = True, reversed_stack = [example_frame ''m''],
     frame = example_frame ''m''\<rparr>]"

lemmas analysis_steps = analyze_stacks_def visit_sample_def visit_stack_def visit_frame_def get_or_create_module_def
  initial_analysis_def count_root_def no_previous_def get_or_create_function_def get_or_append_call_tree_child_def
  frame_file_def get_or_create_file_def Let_def rooted_at_def rooted_update_def count_node_def count_function_def
  count_location_def count_edge_def count_file_def count_module_def finish_stack_def count_line_def
  set_source_location_def map_count_def map_hits_def stacks_analysis.defs

lemma one_stack_analysis:
  "\<exists>a. analyze_stacks [0] one_stack 1 (\<lambda>_. False) = Some a \<and> length (call_tree_nodes a) = 1 \<and>
     node_id (call_tree_root a) = root_call_tree_node_id"
  by (simp add: one_stack_def example_frame_def analysis_steps)

lemma hot_path_terminates_witness:
  "\<exists>a. length (call_tree_nodes a) = 1 \<and>
     hot_path_loop a (\<lambda>_. Some 3) 0 (\<lambda>_. False) 0 (call_tree_root a) (JObject []) \<noteq> None"
proof -
  obtain a where a: "analyze_stacks [0] one_stack 1 (\<lambda>_. False) = Some a" "length (call_tree_nodes a) = 1"
    using one_stack_analysis by blast
  then have "length (call_tree_nodes a) \<le> root_call_tree_node_id" by (simp add: root_call_tree_node_id_def)
  from hot_path_terminates [OF a(1) this] a(2) show ?thesis by blast
qed

definition example_function_row :: "nat \<Rightarrow> function_info" where
  "example_function_row i = \<lparr>function_id = i, function_module_id = 0, function_name = ''m'',
     function_hits = [\<lparr>total = 5 + i, self = 1\<rparr>], callers = Map.empty, callees = Map.empty,
     function_file_id = None, line_number = None, hits_by_line = Map.empty\<rparr>"

definition example_table :: stacks_analysis where
  "example_table = \<lparr>analysis_process_id = 1,
     all_modules = [\<lparr>module_id = 0, module_row_name = ''a'', module_hits = []\<rparr>],
     all_functions = map example_function_row [0, 1, 2], call_tree_nodes = [], all_files = [],
     call_tree_root = \<lparr>node_id = root_call_tree_node_id, node_function_id = root_function_id, node_hits = [],
       node_children = []\<rparr>,
     function_root = \<lparr>function_id = root_function_id, function_module_id = 0, function_name = ''root'',
       function_hits = [], callers = Map.empty, callees = Map.empty, function_file_id = None,
       line_number = None, hits_by_line = Map.empty\<rparr>\<rparr>"

definition example_edges :: "nat \<rightharpoonup> source_hit_counts" where
  "example_edges = [0 \<mapsto> [\<lparr>total = 1, self = 0\<rparr>], 1 \<mapsto> [\<lparr>total = 4, self = 0\<rparr>], 2 \<mapsto> [\<lparr>total = 2, self = 0\<rparr>]]"

definition example_process :: process_info where
  "example_process = \<lparr>process_key = 1, process_os_id = 42, process_name = ''a'', process_start_time = 0,
     process_end_time = 5, process_context_switches = None, process_counters = []\<rparr>"

definition sorted_keys :: map_order where
  "sorted_keys A = sorted_list_of_set A"

lemma sorted_keys_spec: "map_order_spec sorted_keys"
  by (simp add: map_order_spec_def sorted_keys_def)

lemma example_edges_dom: "dom example_edges = {0, 1, 2}"
  by (auto simp: example_edges_def split: if_splits)

lemma callers_callees_bounded_witness:
  "\<exists>js. make_callers_callees_json insertion_sort sorted_keys example_table example_process 2 (\<lambda>_. Some 8) 0 example_edges =
     Inr (JArray js) \<and> length js = 2"
proof -
  have "sorted_list_of_set {0 :: nat, 1, 2} = [0, 1, 2]" by code_simp
  then have ids: "sorted_edges insertion_sort sorted_keys 0 example_edges = [1, 2, 0]"
    unfolding sorted_edges_def Let_def sorted_keys_def example_edges_dom
    by (simp add: insertion_sort_def map_hits_def example_edges_def hits_get_def)
  have f: "get_function example_table i = Some (example_function_row i)" if "i \<in> {0, 1, 2}" for i
    using that by (auto simp: get_function_def example_table_def root_function_id_def vector_at_def)
  have m: "get_module example_table 0 = Some \<lparr>module_id = 0, module_row_name = ''a'', module_hits = []\<rparr>"
    by (simp add: get_module_def example_table_def vector_at_def)
  have h: "\<exists>j. make_hits_json [c] (\<lambda>_. Some 8) = Inr j" for c
    by (simp add: make_hits_json_def hit_json_def Let_def)
  have j: "\<exists>j. make_function_json example_table example_process (example_function_row i) (\<lambda>_. Some 8) None = Inr j" for i
    using h [of "\<lparr>total = 5 + i, self = 1\<rparr>"] m
    by (auto simp: make_function_json_def Let_def example_function_row_def)
  have o: "accumulated_hits [example_function_row 2, example_function_row 0] = [\<lparr>total = 5, self = 1\<rparr>]"
    by (simp add: accumulated_hits_def accumulate_hits_overwrites example_function_row_def)
  have "\<exists>js. make_callers_callees_json insertion_sort sorted_keys example_table example_process 2 (\<lambda>_. Some 8) 0 example_edges =
      Inr (JArray js)"
    using j [of 1] h [of "\<lparr>total = 5, self = 1\<rparr>"]
    by (auto simp: make_callers_callees_json_def Let_def ids f o)
  then obtain js where js: "make_callers_callees_json insertion_sort sorted_keys example_table example_process 2
      (\<lambda>_. Some 8) 0 example_edges = Inr (JArray js)" ..
  from callers_callees_bounded [OF this _ _ sorted_keys_spec insertion_sort_spec] js show ?thesis
    by (simp add: example_edges_dom)
qed

lemma others_entry_is_last_witness:
  "accumulated_hits [example_function_row 0, example_function_row 1] = [\<lparr>total = 6, self = 1\<rparr>]"
  using others_entry_is_last [of "[example_function_row 0]" "example_function_row 1"]
  by (simp add: example_function_row_def)

end
