(* ===== verification/Server.thy ===== *)
theory Server
  imports Responses Scheduler
begin

text \<open>
  The language server of \<open>snail/server/snail_server.cpp\<close>: the handlers of all requests and
  notifications as functions on the storage, their registration, and the life of a request between its
  arrival and its answer. A handler takes what the code captures and reads: the sorting algorithm, the
  order of unordered maps, the file reader, the environment, and two cancellation oracles (one asked
  by the analysis, one by the handler's own loops). Progress reports are left out.
\<close>

section \<open>Operations on the storage\<close>

type_synonym 'a storage_fun = "storage \<Rightarrow> (error + 'a) \<times> storage"

definition return_op :: "'a \<Rightarrow> 'a storage_fun" where
  "return_op x s = (Inr x, s)"

definition lift_op :: "error + 'a \<Rightarrow> 'a storage_fun" where
  "lift_op r s = (r, s)"

definition bind_op :: "'a storage_fun \<Rightarrow> ('a \<Rightarrow> 'b storage_fun) \<Rightarrow> 'b storage_fun" where
  "bind_op m k s = (case m s of (Inl e, s') \<Rightarrow> (Inl e, s') | (Inr x, s') \<Rightarrow> k x s')"

fun map_op :: "('a \<Rightarrow> 'b storage_fun) \<Rightarrow> 'a list \<Rightarrow> 'b list storage_fun" where
  "map_op g [] = return_op []"
| "map_op g (x # xs) = bind_op (g x) (\<lambda>y. bind_op (map_op g xs) (\<lambda>ys. return_op (y # ys)))"

text \<open>What the handlers are given besides their parameters.\<close>

text \<open>\<open>open_provider\<close> reads a file into a data provider.\<close>

record server_env =
  std_sort :: sorter
  map_keys :: map_order
  open_provider :: provider_reader
  system_env :: environment
  analysis_canceled :: "nat \<Rightarrow> bool"
  loop_canceled :: "nat \<Rightarrow> bool"

text \<open>The elements a loop visits that asks the token before each.\<close>

fun until_canceled :: "(nat \<Rightarrow> bool) \<Rightarrow> nat \<Rightarrow> 'a list \<Rightarrow> 'a list" where
  "until_canceled c k [] = []"
| "until_canceled c k (x # xs) = (if c k then [] else x # until_canceled c (Suc k) xs)"

text \<open>\<open>std::ranges::sort\<close> of a list of records, with the sorting algorithm applied to the positions.\<close>

definition sort_items :: "sorter \<Rightarrow> ('a \<Rightarrow> 'a \<Rightarrow> bool) \<Rightarrow> 'a list \<Rightarrow> 'a list" where
  "sort_items srt lt xs = map ((!) xs) (srt (\<lambda>i j. lt (xs ! i) (xs ! j)) [0..<length xs])"

section \<open>Dates\<close>

definition dec_int :: "int \<Rightarrow> string" where
  "dec_int i = (if i < 0 then ''-'' @ dec (nat (- i)) else dec (nat i))"

definition pad :: "nat \<Rightarrow> string \<Rightarrow> string" where
  "pad n s = replicate (n - length s) (CHR ''0'') @ s"

text \<open>Year, month and day of a number of days since 1970-01-01, in the proleptic Gregorian calendar.\<close>

definition civil_from_days :: "int \<Rightarrow> int \<times> int \<times> int" where
  "civil_from_days days =
     (let z = days + 719468; era = z div 146097; doe = z - era * 146097;
          yoe = (doe - doe div 1460 + doe div 36524 - doe div 146096) div 365;
          doy = doe - (365 * yoe + yoe div 4 - yoe div 100);
          mp = (5 * doy + 2) div 153;
          d = doy - (153 * mp + 2) div 5 + 1;
          m = (if mp < 10 then mp + 3 else mp - 9)
      in (yoe + era * 400 + (if m \<le> 2 then 1 else 0), m, d))"

text \<open>\<open>std::put_time\<close> of a \<open>std::gmtime\<close> with \<open>%FT%R%z\<close>.\<close>

definition format_date :: "int \<Rightarrow> string" where
  "format_date t =
     (case civil_from_days (t div 86400) of (y, m, d) \<Rightarrow>
        let secs = t mod 86400 in
        pad 4 (dec_int y) @ ''-'' @ pad 2 (dec_int m) @ ''-'' @ pad 2 (dec_int d) @ ''T'' @
        pad 2 (dec_int (secs div 3600)) @ '':'' @ pad 2 (dec_int (secs mod 3600 div 60)) @ ''+0000'')"

section \<open>Options\<close>

definition set_pdb_symbol_find_options ::
  "environment \<Rightarrow> string list \<Rightarrow> string option \<Rightarrow> bool \<Rightarrow> string list \<Rightarrow> storage \<Rightarrow> storage" where
  "set_pdb_symbol_find_options env dirs cache_dir no_default_urls urls s =
     (let d = default_pdb_options env;
          d1 = (case cache_dir of None \<Rightarrow> d | Some c \<Rightarrow> d\<lparr>symbol_cache_dir := c\<rparr>);
          d2 = d1\<lparr>search_dirs := search_dirs d1 @ dirs\<rparr>;
          d3 = (if no_default_urls then d2\<lparr>symbol_server_urls := []\<rparr> else d2);
          d4 = d3\<lparr>symbol_server_urls := symbol_server_urls d3 @ urls\<rparr>
      in s\<lparr>storage_options := (storage_options s)\<lparr>pdb_find_options := d4\<rparr>\<rparr>)"

definition set_dwarf_symbol_find_options ::
  "environment \<Rightarrow> string list \<Rightarrow> string option \<Rightarrow> bool \<Rightarrow> string list \<Rightarrow> storage \<Rightarrow> storage" where
  "set_dwarf_symbol_find_options env dirs cache_dir no_default_urls urls s =
     (let d = default_dwarf_options env;
          d1 = (case cache_dir of None \<Rightarrow> d | Some c \<Rightarrow> d\<lparr>debuginfod_cache_dir := c\<rparr>);
          d2 = d1\<lparr>dwarf_search_dirs := dwarf_search_dirs d1 @ dirs\<rparr>;
          d3 = (if no_default_urls then d2\<lparr>debuginfod_urls := []\<rparr> else d2);
          d4 = d3\<lparr>debuginfod_urls := debuginfod_urls d3 @ urls\<rparr>
      in s\<lparr>storage_options := (storage_options s)\<lparr>dwarf_find_options := d4\<rparr>\<rparr>)"

definition set_module_path_maps :: "(string \<times> string) list \<Rightarrow> storage \<Rightarrow> storage" where
  "set_module_path_maps maps s =
     s\<lparr>module_path_map := foldl (\<lambda>m (source, target). add_rule (simple_path_mapper source target) m) [] maps\<rparr>"

definition set_module_filters :: "filter_mode \<Rightarrow> string list \<Rightarrow> string list \<Rightarrow> storage \<Rightarrow> storage" where
  "set_module_filters m exclude include s =
     (let f = (module_filter (storage_options s))\<lparr>mode := m\<rparr>;
          f1 = f\<lparr>included := included f @ map wildcard_to_regex include\<rparr>;
          f2 = f1\<lparr>excluded := excluded f1 @ map wildcard_to_regex exclude\<rparr>
      in s\<lparr>storage_options := (storage_options s)\<lparr>module_filter := f2\<rparr>\<rparr>)"

section \<open>Information about a document\<close>

definition source_json :: "sample_source_info \<Rightarrow> json" where
  "source_json i = JObject [(''id'', JUnsigned (source_id i)), (''name'', JString (source_name i)),
     (''numberOfSamples'', JUnsigned (number_of_samples i)),
     (''averageSamplingRate'', JFloat (average_sampling_rate i)), (''hasStacks'', JBool (has_stacks i))]"

definition retrieve_sample_sources :: "nat \<Rightarrow> json storage_fun" where
  "retrieve_sample_sources doc =
     bind_op (get_data doc) (\<lambda>p. return_op (JObject [(''sampleSources'', JArray (map source_json (sample_sources p)))]))"

definition time_of :: "nat \<Rightarrow> int" where
  "time_of n = sint (of_nat n :: u64)"

definition set_sample_filters ::
  "nat option \<Rightarrow> nat option \<Rightarrow> nat list \<Rightarrow> nat list \<Rightarrow> nat \<Rightarrow> json storage_fun" where
  "set_sample_filters mn mx processes threads doc =
     bind_op (apply_document_filter doc
       \<lparr>min_time = map_option time_of mn, max_time = map_option time_of mx,
        excluded_processes = set processes, excluded_threads = set threads\<rparr>) (\<lambda>_. return_op JNull)"

definition retrieve_session_info :: "nat \<Rightarrow> json storage_fun" where
  "retrieve_session_info doc =
     bind_op (get_data doc) (\<lambda>p.
       let i = get_session_info p in
       return_op (JObject [(''sessionInfo'', JObject
         [(''commandLine'', JString (command_line i)), (''date'', JString (format_date (session_date i))),
          (''runtime'', JInteger (session_runtime i)), (''numberOfProcesses'', JUnsigned (number_of_processes i)),
          (''numberOfThreads'', JUnsigned (number_of_threads i)), (''numberOfSamples'', JUnsigned (session_samples i))])]))"

definition retrieve_system_info :: "nat \<Rightarrow> json storage_fun" where
  "retrieve_system_info doc =
     bind_op (get_data doc) (\<lambda>p.
       let i = get_system_info p in
       return_op (JObject [(''systemInfo'', JObject
         [(''hostname'', JString (hostname i)), (''platform'', JString (platform i)),
          (''architecture'', JString (architecture i)), (''cpuName'', JString (cpu_name i)),
          (''numberOfProcessors'', JUnsigned (number_of_processors i))])]))"

definition thread_json :: "thread_info \<Rightarrow> json" where
  "thread_json t = JObject (thread_members t @ [(''statistics'', statistics_json (thread_context_switches t) (thread_counters t))])"

definition process_json :: "data_provider \<Rightarrow> nat \<Rightarrow> error + json" where
  "process_json p pid =
     bind_result (get_threads_info p pid) (\<lambda>ts.
     bind_result (get_process_info p pid) (\<lambda>i.
       Inr (JObject (process_members i (map thread_json ts) @
         [(''statistics'', statistics_json (process_context_switches i) (process_counters i))]))))"

definition retrieve_processes :: "nat \<Rightarrow> json storage_fun" where
  "retrieve_processes doc =
     bind_op (get_data doc) (\<lambda>p.
     bind_op (lift_op (map_result (process_json p) (sampling_processes p))) (\<lambda>js.
       return_op (JObject [(''processes'', JArray js)])))"

text \<open>What is registered a second time for \<open>setSampleFilters\<close>: the processes without statistics.\<close>

definition processes_without_statistics :: "nat \<Rightarrow> json storage_fun" where
  "processes_without_statistics doc =
     bind_op (get_data doc) (\<lambda>p.
     bind_op (lift_op (map_result (\<lambda>pid.
         bind_result (get_threads_info p pid) (\<lambda>ts.
         bind_result (get_process_info p pid) (\<lambda>i.
           Inr (JObject (process_members i (map (\<lambda>t. JObject (thread_members t)) ts)))))) (sampling_processes p))) (\<lambda>js.
       return_op (JObject [(''processes'', JArray js)])))"

definition counts_json :: "nat list \<Rightarrow> nat list \<Rightarrow> json" where
  "counts_json srcs counts = JArray (map (\<lambda>(src, n). JObject
     [(''sourceId'', JUnsigned src), (''numberOfSamples'', JUnsigned n)]) (zip srcs counts))"

definition retrieve_process_sample_info :: "nat \<Rightarrow> nat \<Rightarrow> json storage_fun" where
  "retrieve_process_sample_info pkey doc =
     bind_op (get_data doc) (\<lambda>p.
     bind_op (get_document_filter doc) (\<lambda>f.
     bind_op (lift_op (get_process_info p pkey)) (\<lambda>process.
     bind_op (lift_op (get_threads_info p (process_key process))) (\<lambda>ts.
       let srcs = source_ids p;
           counts = (\<lambda>t. map (\<lambda>src. count_thread_samples p src (thread_key t) f) srcs);
           sums = foldl (\<lambda>acc t. map2 (+) acc (counts t)) (replicate (length srcs) 0) ts
       in return_op (JObject [(''counts'', counts_json srcs sums),
            (''threads'', JArray (map (\<lambda>t. JObject [(''key'', JUnsigned (thread_key t)),
               (''counts'', counts_json srcs (counts t))]) ts))])))))"

section \<open>Analysis requests\<close>

definition expand_call_tree_node :: "server_env \<Rightarrow> nat \<Rightarrow> nat \<Rightarrow> nat \<Rightarrow> json storage_fun" where
  "expand_call_tree_node env node pkey doc =
     bind_op (get_stacks_analysis doc pkey (analysis_canceled env)) (\<lambda>a.
     bind_op (get_total_samples_counts doc) (\<lambda>total_hits.
     bind_op (lift_op (at_or_throw (get_call_tree_node a node))) (\<lambda>current.
     bind_op (lift_op (append_call_tree_node_children a current total_hits False None)) (\<lambda>x.
       return_op (JObject [(''children'', JArray (children_json x))])))))"

text \<open>The loop of the hot path is known to return for analyses (\<open>hot_path_terminates\<close>).\<close>

definition retrieve_call_tree_hot_path :: "server_env \<Rightarrow> nat \<Rightarrow> nat \<Rightarrow> nat \<Rightarrow> json storage_fun" where
  "retrieve_call_tree_hot_path env src pkey doc =
     bind_op (get_stacks_analysis doc pkey (analysis_canceled env)) (\<lambda>a.
     bind_op (get_data doc) (\<lambda>p.
     bind_op (lift_op (get_process_info p pkey)) (\<lambda>process.
     bind_op (get_total_samples_counts doc) (\<lambda>total_hits.
       let root = call_tree_root a in
       bind_op (lift_op (make_hits_json (node_hits root) total_hits)) (\<lambda>hits.
       let j = JObject [(''name'', JString (process_title process)), (''id'', JUnsigned (node_id root)),
         (''functionId'', JUnsigned (node_function_id root)), (''module'', JString ''[multiple]''),
         (''type'', JString ''process''), (''hits'', hits), (''isHot'', JBool True)]
       in bind_op (lift_op (case hot_path_loop a total_hits src (loop_canceled env) 0 root j of
                     None \<Rightarrow> Inl Undefined | Some r \<Rightarrow> r)) (\<lambda>r.
          return_op (JObject [(''root'', r)])))))))"

definition retrieve_callers_callees :: "server_env \<Rightarrow> nat \<Rightarrow> nat \<Rightarrow> nat \<Rightarrow> nat \<Rightarrow> nat \<Rightarrow> json storage_fun" where
  "retrieve_callers_callees env sort_source_id requested_entries fun_id pkey doc =
     bind_op (get_stacks_analysis doc pkey (analysis_canceled env)) (\<lambda>a.
     bind_op (get_data doc) (\<lambda>p.
     bind_op (lift_op (get_process_info p pkey)) (\<lambda>process.
     let max_entries = (if requested_entries > 0 then requested_entries else 1) in
     bind_op (get_total_samples_counts doc) (\<lambda>total_hits.
     bind_op (lift_op (at_or_throw (get_function a fun_id))) (\<lambda>f.
     bind_op (lift_op (make_function_json a process f total_hits None)) (\<lambda>fj.
     bind_op (lift_op (make_callers_callees_json (std_sort env) (map_keys env) a process max_entries total_hits
       sort_source_id (callers f))) (\<lambda>callers_json.
     bind_op (lift_op (make_callers_callees_json (std_sort env) (map_keys env) a process max_entries total_hits
       sort_source_id (callees f))) (\<lambda>callees_json.
       return_op (JObject [(''function'', fj), (''callers'', callers_json), (''callees'', callees_json)])))))))))"

definition retrieve_line_info :: "server_env \<Rightarrow> nat \<Rightarrow> nat \<Rightarrow> nat \<Rightarrow> json storage_fun" where
  "retrieve_line_info env fun_id pkey doc =
     bind_op (get_stacks_analysis doc pkey (analysis_canceled env)) (\<lambda>a.
     bind_op (lift_op (at_or_throw (get_function a fun_id))) (\<lambda>f.
     case (function_file_id f, line_number f) of
       (Some xid, Some line) \<Rightarrow>
         bind_op (get_total_samples_counts doc) (\<lambda>total_hits.
         bind_op (lift_op (at_or_throw (get_file a xid))) (\<lambda>x.
         bind_op (lift_op (map_result (\<lambda>l.
             bind_result (make_hits_json (map_hits (hits_by_line f) l) total_hits) (\<lambda>hits.
               Inr (JObject [(''lineNumber'', JUnsigned l), (''hits'', hits)])))
             (until_canceled (loop_canceled env) 0 (map_keys env (dom (hits_by_line f)))))) (\<lambda>line_hits.
         bind_op (lift_op (make_hits_json (function_hits f) total_hits)) (\<lambda>hits.
           return_op (JObject [(''filePath'', JString (file_path x)), (''hits'', hits),
             (''lineNumber'', JUnsigned line), (''lineHits'', JArray line_hits)])))))
     | _ \<Rightarrow> return_op JNull))"

text \<open>The sort order of a function page: position in the enum and the optional source.\<close>

definition page_sort_kind :: "nat \<Rightarrow> nat option \<Rightarrow> error + sort_by_kind" where
  "page_sort_kind sort_by src =
     (if sort_by = 1 \<or> sort_by = 2 then
        (case src of
           None \<Rightarrow> Inl (Throw (''missing '' @ quote @ ''sortSourceId'' @ quote @ ''.''))
         | Some i \<Rightarrow> Inr (sort_by_samples i (if sort_by = 1 then sum_self else sum_total)))
      else Inr sort_by_name)"

definition retrieve_functions_page ::
  "server_env \<Rightarrow> nat \<Rightarrow> bool \<Rightarrow> nat option \<Rightarrow> u64 \<Rightarrow> u64 \<Rightarrow> nat \<Rightarrow> nat \<Rightarrow> json storage_fun" where
  "retrieve_functions_page env sort_by descending src page_size page_index pkey doc =
     bind_op (lift_op (page_sort_kind sort_by src)) (\<lambda>kind.
     bind_op (get_stacks_analysis doc pkey (analysis_canceled env)) (\<lambda>a.
     bind_op (get_functions_page (std_sort env) doc pkey kind descending page_size page_index (analysis_canceled env)) (\<lambda>ids.
     bind_op (get_data doc) (\<lambda>p.
     bind_op (lift_op (get_process_info p pkey)) (\<lambda>process.
     bind_op (get_total_samples_counts doc) (\<lambda>total_hits.
     bind_op (lift_op (map_result (\<lambda>i. bind_result (at_or_throw (get_function a i)) (\<lambda>f.
         make_function_json a process f total_hits None))
         (until_canceled (loop_canceled env) 0 (if descending then rev ids else ids)))) (\<lambda>js.
       return_op (JObject [(''functions'', JArray js)]))))))))"

definition process_hottest :: "server_env \<Rightarrow> nat \<Rightarrow> u64 \<Rightarrow> nat \<Rightarrow> nat \<Rightarrow> (nat \<times> function_info) list storage_fun" where
  "process_hottest env src limit doc pid =
     bind_op (get_stacks_analysis doc pid (analysis_canceled env)) (\<lambda>a.
     bind_op (get_functions_page (std_sort env) doc pid (sort_by_samples src sum_self) True limit 0 (analysis_canceled env)) (\<lambda>ids.
     bind_op (lift_op (map_result (\<lambda>i. at_or_throw (get_function a i)) ids)) (\<lambda>fs.
       return_op (map (Pair pid) fs))))"

definition self_hits_of :: "nat \<Rightarrow> nat \<times> function_info \<Rightarrow> nat" where
  "self_hits_of src e = self (hits_get (function_hits (snd e)) src)"

definition retrieve_hottest_functions :: "server_env \<Rightarrow> u64 \<Rightarrow> nat \<Rightarrow> nat \<Rightarrow> json storage_fun" where
  "retrieve_hottest_functions env limit src doc =
     bind_op (get_data doc) (\<lambda>p.
     bind_op (map_op (process_hottest env src limit doc) (sampling_processes p)) (\<lambda>fss.
     let entries = sort_items (std_sort env) (\<lambda>l r. self_hits_of src l > self_hits_of src r) (concat fss) in
     bind_op (get_total_samples_counts doc) (\<lambda>total_hits.
     bind_op (map_op (\<lambda>(pid, f).
         bind_op (get_stacks_analysis doc pid (analysis_canceled env)) (\<lambda>a.
         bind_op (lift_op (get_process_info p pid)) (\<lambda>process.
         bind_op (lift_op (make_function_json a process f total_hits None)) (\<lambda>fj.
           return_op (JObject [(''processKey'', JUnsigned pid), (''function'', fj)])))))
         (take (unat limit) entries)) (\<lambda>js.
       return_op (JObject [(''functions'', JArray js)])))))"

section \<open>Registration\<close>

datatype handler =
    H_cancel_request | H_initialize | H_shutdown | H_exit | H_set_pdb | H_set_dwarf | H_set_module_path_maps
  | H_set_module_filters | H_read_document | H_close_document | H_sample_sources | H_set_sample_filters
  | H_session_info | H_system_info | H_processes_without_statistics | H_processes | H_hottest_functions
  | H_functions_page | H_process_sample_info | H_hot_path | H_expand_node | H_callers_callees | H_line_info

text \<open>Where a handler runs: on the main thread, or as a task of its document.\<close>

datatype execution = serial | on_document document_access_type

definition execution_of :: "handler \<Rightarrow> execution" where
  "execution_of h =
     (case h of
        H_read_document \<Rightarrow> on_document write_access
      | H_close_document \<Rightarrow> on_document write_access
      | H_sample_sources \<Rightarrow> on_document read_only
      | H_set_sample_filters \<Rightarrow> on_document write_access
      | H_session_info \<Rightarrow> on_document read_only
      | H_system_info \<Rightarrow> on_document read_only
      | H_processes_without_statistics \<Rightarrow> on_document read_only
      | H_processes \<Rightarrow> on_document read_only
      | H_hottest_functions \<Rightarrow> on_document write_access
      | H_functions_page \<Rightarrow> on_document write_access
      | H_process_sample_info \<Rightarrow> on_document read_only
      | H_hot_path \<Rightarrow> on_document write_access
      | H_expand_node \<Rightarrow> on_document write_access
      | H_callers_callees \<Rightarrow> on_document write_access
      | H_line_info \<Rightarrow> on_document write_access
      | _ \<Rightarrow> serial)"

text \<open>In the order of \<open>register_all\<close>; \<open>True\<close> marks a notification.\<close>

definition registrations :: "(bool \<times> request_type \<times> handler) list" where
  "registrations =
     [(True, impl_cancel_request_request, H_cancel_request),
      (False, initialize_request, H_initialize),
      (False, shutdown_request, H_shutdown),
      (True, exit_request, H_exit),
      (True, set_pdb_symbol_find_options_request, H_set_pdb),
      (True, set_dwarf_symbol_find_options_request, H_set_dwarf),
      (True, set_module_path_maps_request, H_set_module_path_maps),
      (True, set_module_filters_request, H_set_module_filters),
      (False, read_document_request, H_read_document),
      (True, close_document_request, H_close_document),
      (False, retrieve_sample_sources_request, H_sample_sources),
      (False, set_sample_filters_request, H_set_sample_filters),
      (False, retrieve_session_info_request, H_session_info),
      (False, retrieve_system_info_request, H_system_info),
      (False, set_sample_filters_request, H_processes_without_statistics),
      (False, retrieve_processes_request, H_processes),
      (False, retrieve_hottest_functions_request, H_hottest_functions),
      (False, retrieve_functions_page_request, H_functions_page),
      (False, retrieve_process_sample_info_request, H_process_sample_info),
      (False, retrieve_call_tree_hot_path_request, H_hot_path),
      (False, expand_call_tree_node_request, H_expand_node),
      (False, retrieve_callers_callees_request, H_callers_callees),
      (False, retrieve_line_info_request, H_line_info)]"

definition register_all :: "handler registry" where
  "register_all = foldl (\<lambda>reg (notification, r, h).
     if notification then register_notification r h reg else register_request r h reg)
     \<lparr>request_handlers = [], notification_handlers = []\<rparr> registrations"

text \<open>The document a request with unpacked parameters is about: each request on a document has exactly
  one parameter of that name.\<close>

definition document_of :: "request_type \<Rightarrow> param_value list \<Rightarrow> nat option" where
  "document_of r vs =
     (case map_of (zip (map fst (parameters r)) vs) ''documentId'' of
        Some (base (value_nat d)) \<Rightarrow> Some d
      | _ \<Rightarrow> None)"

section \<open>Performing a request\<close>

text \<open>The accessors of the request classes: \<open>std::get<I>\<close> of the unpacked parameters. A value of another
  type cannot be at that position after unpacking; the default is never used.\<close>

definition param_at :: "param_value list \<Rightarrow> nat \<Rightarrow> param_value" where
  "param_at vs i = (if i < length vs then vs ! i else no_value)"

definition nat_at :: "param_value list \<Rightarrow> nat \<Rightarrow> nat" where
  "nat_at vs i = (case param_at vs i of base (value_nat n) \<Rightarrow> n | _ \<Rightarrow> 0)"

definition nats_at :: "param_value list \<Rightarrow> nat \<Rightarrow> nat list" where
  "nats_at vs i = (case param_at vs i of base (value_nats n) \<Rightarrow> n | _ \<Rightarrow> [])"

definition enum_at :: "param_value list \<Rightarrow> nat \<Rightarrow> nat" where
  "enum_at vs i = (case param_at vs i of enum_value n \<Rightarrow> n | _ \<Rightarrow> 0)"

definition bool_at :: "param_value list \<Rightarrow> nat \<Rightarrow> bool" where
  "bool_at vs i = (case param_at vs i of base (value_bool b) \<Rightarrow> b | _ \<Rightarrow> False)"

definition string_at :: "param_value list \<Rightarrow> nat \<Rightarrow> string" where
  "string_at vs i = (case param_at vs i of base (value_string x) \<Rightarrow> x | _ \<Rightarrow> [])"

definition strings_at :: "param_value list \<Rightarrow> nat \<Rightarrow> string list" where
  "strings_at vs i = (case param_at vs i of base (value_strings x) \<Rightarrow> x | _ \<Rightarrow> [])"

definition pairs_at :: "param_value list \<Rightarrow> nat \<Rightarrow> (string \<times> string) list" where
  "pairs_at vs i = (case param_at vs i of base (value_pairs x) \<Rightarrow> x | _ \<Rightarrow> [])"

definition optional_nat_at :: "param_value list \<Rightarrow> nat \<Rightarrow> nat option" where
  "optional_nat_at vs i = (case param_at vs i of some_value (base (value_nat n)) \<Rightarrow> Some n | _ \<Rightarrow> None)"

definition optional_string_at :: "param_value list \<Rightarrow> nat \<Rightarrow> string option" where
  "optional_string_at vs i = (case param_at vs i of some_value (base (value_string x)) \<Rightarrow> Some x | _ \<Rightarrow> None)"

text \<open>The bodies of the requests that run on a document. \<open>readDocument\<close> reads the document created when
  the request arrived.\<close>

definition perform_request :: "server_env \<Rightarrow> handler \<Rightarrow> param_value list \<Rightarrow> nat \<Rightarrow> json storage_fun" where
  "perform_request env h vs doc =
     (case h of
        H_read_document \<Rightarrow> bind_op (read_document (open_provider env) doc) (\<lambda>_.
          return_op (JObject [(''documentId'', JUnsigned doc)]))
      | H_sample_sources \<Rightarrow> retrieve_sample_sources doc
      | H_set_sample_filters \<Rightarrow>
          set_sample_filters (optional_nat_at vs 0) (optional_nat_at vs 1) (nats_at vs 2) (nats_at vs 3) doc
      | H_session_info \<Rightarrow> retrieve_session_info doc
      | H_system_info \<Rightarrow> retrieve_system_info doc
      | H_processes_without_statistics \<Rightarrow> processes_without_statistics doc
      | H_processes \<Rightarrow> retrieve_processes doc
      | H_hottest_functions \<Rightarrow> retrieve_hottest_functions env (of_nat (nat_at vs 0)) (nat_at vs 1) doc
      | H_functions_page \<Rightarrow> retrieve_functions_page env (enum_at vs 0) (enum_at vs 1 = 1) (optional_nat_at vs 2)
          (of_nat (nat_at vs 3)) (of_nat (nat_at vs 4)) (nat_at vs 5) doc
      | H_process_sample_info \<Rightarrow> retrieve_process_sample_info (nat_at vs 0) doc
      | H_hot_path \<Rightarrow> retrieve_call_tree_hot_path env (nat_at vs 0) (nat_at vs 1) doc
      | H_expand_node \<Rightarrow> expand_call_tree_node env (nat_at vs 0) (nat_at vs 1) doc
      | H_callers_callees \<Rightarrow>
          retrieve_callers_callees env (nat_at vs 0) (nat_at vs 1) (nat_at vs 2) (nat_at vs 3) doc
      | H_line_info \<Rightarrow> retrieve_line_info env (nat_at vs 0) (nat_at vs 1) doc
      | H_initialize \<Rightarrow> return_op (JObject [(''success'', JBool True)])
      | _ \<Rightarrow> return_op JNull)"

section \<open>The life of a request\<close>

text \<open>The tokens of active requests by id; \<open>True\<close>: cancelled. \<open>emplace\<close> keeps the token of an id that is
  still there. \<open>shutdown\<close> and \<open>exit\<close> set flags of the serving loop.\<close>

record server_state =
  server_storage :: storage
  active_requests :: "(request_id \<times> bool) list"
  is_shutting_down :: bool
  exit_requested :: bool

definition accept_request :: "request_id \<Rightarrow> server_state \<Rightarrow> server_state" where
  "accept_request i s =
     (if map_of (active_requests s) i = None
      then s\<lparr>active_requests := active_requests s @ [(i, False)]\<rparr> else s)"

definition cancel_request :: "request_id \<Rightarrow> server_state \<Rightarrow> server_state" where
  "cancel_request i s =
     (if map_of (active_requests s) i = None then s
      else s\<lparr>active_requests := AList.update i True (active_requests s)\<rparr>)"

definition request_canceled :: "request_id \<Rightarrow> server_state \<Rightarrow> bool" where
  "request_canceled i s \<longleftrightarrow> map_of (active_requests s) i = Some True"

text \<open>The end of a request task: only a \<open>std::runtime_error\<close> is caught, and then the task returns
  before it removes its token.\<close>

datatype task_end = Responded json | Reported string | Terminated | Undefined_behaviour

definition run_task :: "request_id \<Rightarrow> json storage_fun \<Rightarrow> server_state \<Rightarrow> task_end \<times> server_state" where
  "run_task i body s =
     (case body (server_storage s) of
        (Inr j, st) \<Rightarrow> (Responded j, s\<lparr>server_storage := st, active_requests := AList.delete i (active_requests s)\<rparr>)
      | (Inl (Throw m), st) \<Rightarrow> (Reported m, s\<lparr>server_storage := st\<rparr>)
      | (Inl OutOfRange, st) \<Rightarrow> (Terminated, s\<lparr>server_storage := st\<rparr>)
      | (Inl Undefined, st) \<Rightarrow> (Undefined_behaviour, s\<lparr>server_storage := st\<rparr>))"

definition filter_mode_of :: "nat \<Rightarrow> filter_mode" where
  "filter_mode_of n = (if n = 0 then all_but_excluded else only_included)"

definition rid_of :: "param_value \<Rightarrow> request_id" where
  "rid_of v = (case v of int_value i \<Rightarrow> id_number i | string_value x \<Rightarrow> id_string x | _ \<Rightarrow> id_string [])"

definition perform_notification :: "server_env \<Rightarrow> handler \<Rightarrow> param_value list \<Rightarrow> server_state \<Rightarrow> server_state" where
  "perform_notification env h vs s =
     (case h of
        H_cancel_request \<Rightarrow> cancel_request (rid_of (param_at vs 0)) s
      | H_exit \<Rightarrow> s\<lparr>exit_requested := True\<rparr>
      | H_set_pdb \<Rightarrow> s\<lparr>server_storage := set_pdb_symbol_find_options (system_env env) (strings_at vs 0)
          (optional_string_at vs 1) (bool_at vs 2) (strings_at vs 3) (server_storage s)\<rparr>
      | H_set_dwarf \<Rightarrow> s\<lparr>server_storage := set_dwarf_symbol_find_options (system_env env) (strings_at vs 0)
          (optional_string_at vs 1) (bool_at vs 2) (strings_at vs 3) (server_storage s)\<rparr>
      | H_set_module_path_maps \<Rightarrow> s\<lparr>server_storage := set_module_path_maps (pairs_at vs 0) (server_storage s)\<rparr>
      | H_set_module_filters \<Rightarrow> s\<lparr>server_storage := set_module_filters (filter_mode_of (enum_at vs 0))
          (strings_at vs 1) (strings_at vs 2) (server_storage s)\<rparr>
      | H_close_document \<Rightarrow> s\<lparr>server_storage := close_document (nat_at vs 0) (server_storage s)\<rparr>
      | _ \<Rightarrow> s)"

text \<open>What the main thread does with a request: it takes a token, and either runs the request or
  schedules it for its document; \<open>readDocument\<close> first creates the document.\<close>

definition arrive :: "request_type \<Rightarrow> handler \<Rightarrow> request_id \<Rightarrow> param_value list \<Rightarrow> server_state \<Rightarrow> nat option \<times> server_state" where
  "arrive r h i vs s =
     (case h of
        H_read_document \<Rightarrow>
          (case create_document (string_at vs 0) (server_storage s) of
             (d, st) \<Rightarrow> (Some d, accept_request i (s\<lparr>server_storage := st\<rparr>)))
      | H_shutdown \<Rightarrow> (None, (accept_request i s)\<lparr>is_shutting_down := True\<rparr>)
      | _ \<Rightarrow> (case execution_of h of
               serial \<Rightarrow> (None, accept_request i s)
             | on_document _ \<Rightarrow> (document_of r vs, accept_request i s)))"

section \<open>Properties\<close>

text \<open>Every request type of the protocol is registered under its name with its own parameters, either as
  a request or as a notification. \<open>setSampleFilters\<close> is registered twice; the first handler, which sets
  the filters, is the one that is called, and the second is never called.\<close>
lemma protocol_is_registered:
  "list_all (\<lambda>r.
     (map_option fst (map_of (request_handlers register_all) (request_name r)) = Some r) \<noteq>
     (map_option fst (map_of (notification_handlers register_all) (request_name r)) = Some r)) protocol_requests \<and>
   map_option snd (map_of (request_handlers register_all) ''setSampleFilters'') = Some H_set_sample_filters \<and>
   list_all (\<lambda>(name, r, h). h \<noteq> H_processes_without_statistics) (request_handlers register_all)"
  by (intro conjI; code_simp)

text \<open>C19: A request that was answered is no longer active. One that failed stays active for ever: its token is
  kept, can be cancelled afterwards, and a later request with the same id takes the cancelled token and
  so starts out cancelled.\<close>
theorem request_token_lifetime:
  assumes "map_of (active_requests s) i = Some c"
  shows "(run_task i body s = (Responded j, s') \<longrightarrow> map_of (active_requests s') i = None) \<and>
    (run_task i body s = (Reported m, s') \<longrightarrow>
       map_of (active_requests s') i = Some c \<and>
       request_canceled i (accept_request i (cancel_request i s')))"
  using assms
  by (auto simp: run_task_def request_canceled_def accept_request_def cancel_request_def delete_conv' update_conv'
      split: sum.splits prod.splits error.splits)

text \<open>A request to expand a call tree node that does not exist ends the process: the accessor throws
  \<open>std::out_of_range\<close>, which is no \<open>std::runtime_error\<close> and leaves the task on the pool thread.\<close>
lemma unknown_node_terminates:
  assumes "get_stacks_analysis doc pkey (analysis_canceled env) (server_storage s) = (Inr a, st)"
    "get_total_samples_counts doc st = (Inr total_hits, st')"
    "length (call_tree_nodes a) \<le> node" "node \<noteq> node_id (call_tree_root a)"
  shows "fst (run_task i (expand_call_tree_node env node pkey doc) s) = Terminated"
  using assms
  by (simp add: run_task_def expand_call_tree_node_def bind_op_def lift_op_def get_call_tree_node_def vector_at_def)

text \<open>The module filter after a number of notifications, oldest first.\<close>

definition apply_filters :: "(filter_mode \<times> string list \<times> string list) list \<Rightarrow> storage \<Rightarrow> storage" where
  "apply_filters ns s = foldl (\<lambda>s (m, exclude, include). set_module_filters m exclude include s) s ns"

lemma apply_filters_lists:
  "included (module_filter (storage_options (apply_filters ns s))) =
     included (module_filter (storage_options s)) @ concat (map (\<lambda>(m, e, i). map wildcard_to_regex i) ns)"
  "excluded (module_filter (storage_options (apply_filters ns s))) =
     excluded (module_filter (storage_options s)) @ concat (map (\<lambda>(m, e, i). map wildcard_to_regex e) ns)"
  "mode (module_filter (storage_options (apply_filters ns s))) =
     (if ns = [] then mode (module_filter (storage_options s)) else fst (last ns))"
  unfolding apply_filters_def
  by (induction ns rule: rev_induct) (auto simp: set_module_filters_def Let_def split_beta)

text \<open>Which modules the filter keeps after any number of \<open>setModuleFilters\<close> notifications: the mode is
  that of the last one, but the wildcards of all of them count, so a list sent earlier cannot be taken
  back.\<close>
lemma module_filters_accumulate:
  assumes "ns \<noteq> []"
  shows "filter_check (module_filter (storage_options (apply_filters ns (initial_storage env)))) x \<longleftrightarrow>
    (if fst (last ns) = all_but_excluded then \<forall>(m, e, i) \<in> set ns. \<forall>p \<in> set e. \<not> glob p x
     else \<exists>(m, e, i) \<in> set ns. \<exists>p \<in> set i. glob p x)"
  using assms
  by (auto simp: filter_check_iff apply_filters_lists initial_storage_def default_options_def
      default_filter_options_def regex_match_wildcard split_beta)

section \<open>Examples\<close>

definition example_env :: server_env where
  "example_env = \<lparr>std_sort = insertion_sort, map_keys = sorted_keys, open_provider = example_reader,
     system_env = \<lparr>get_env_var = (\<lambda>_. None), get_temp_dir = ''/tmp'', get_home_dir = None\<rparr>,
     analysis_canceled = never, loop_canceled = never\<rparr>"

definition example_server :: server_state where
  "example_server = \<lparr>server_storage = example_storage, active_requests = [(id_number 1, False)],
     is_shutting_down = False, exit_requested = False\<rparr>"

lemma request_token_lifetime_witness:
  "request_canceled (id_number 1) (accept_request (id_number 1) (cancel_request (id_number 1)
     (snd (run_task (id_number 1) (retrieve_sample_sources 9) example_server))))"
proof -
  have e: "open_documents example_storage 9 = None"
    by (simp add: example_storage_def example_ops_def storage_step_def create_document_def read_document_def
        with_document_def initial_storage_def Let_def example_reader_def result_of_def split_beta)
  have "map_of (active_requests example_server) (id_number 1) = Some False" by (simp add: example_server_def)
  note l = request_token_lifetime [OF this, of "retrieve_sample_sources 9" _ _ "''invalid document id''"]
  have "run_task (id_number 1) (retrieve_sample_sources 9) example_server = (Reported ''invalid document id'', example_server)"
    using e by (simp add: run_task_def retrieve_sample_sources_def bind_op_def get_data_def with_document_def example_server_def)
  with l show ?thesis by simp
qed

lemma unknown_node_terminates_witness:
  "fst (run_task (id_number 1) (expand_call_tree_node example_env (length (call_tree_nodes example_analysis) + 0x100000000) 1 0)
     example_server) = Terminated"
proof -
  have c: "analysis_canceled example_env = never" "server_storage example_server = example_storage"
    by (simp_all add: example_env_def example_server_def)
  obtain st where st: "get_stacks_analysis 0 1 never example_storage = (Inr example_analysis, st)"
    using example_storage_analysis by (metis prod.collapse)
  have "node_id (call_tree_root example_analysis) = root_call_tree_node_id"
    using analysis_children_after [OF example_analysis] unfolding children_after_def by blast
  then have n: "length (call_tree_nodes example_analysis) + 0x100000000 \<noteq> node_id (call_tree_root example_analysis)"
    by (simp add: root_call_tree_node_id_def)
  obtain d where d: "open_documents st 0 = Some d" "data_provider d = Some example_provider"
    using st provider_unchanged(2) [of 1 never example_document]
    by (auto simp: get_stacks_analysis_def with_document_def example_storage_document split: prod.splits)
      (simp add: example_document_def)
  then have "\<exists>t st'. get_total_samples_counts 0 st = (Inr t, st')"
    by (cases "total_samples_counts d")
      (auto simp: get_total_samples_counts_def with_document_def document_counts_def Let_def)
  then obtain t st' where "get_total_samples_counts 0 st = (Inr t, st')" by blast
  then show ?thesis
    using st n by (intro unknown_node_terminates [of 0 1 example_env example_server example_analysis st]) (simp_all add: c)
qed

lemma module_filters_accumulate_witness:
  "filter_check (module_filter (storage_options (apply_filters
      [(only_included, [], [''a*'']), (only_included, [], [''b''])] (initial_storage (system_env example_env))))) ''abc''"
proof -
  have "glob ''a*'' ''abc''"
    unfolding glob_char_iff [of "CHR ''a''", simplified] glob_star_iff
    by (intro exI [of _ "''bc''"] conjI exI [of _ "''bc''"] exI [of _ "[]"]) (auto simp: line_terminator_def glob_Nil_iff)
  then show ?thesis
    by (subst module_filters_accumulate) auto
qed

end
