(* ===== verification/PerfContext.thy ===== *)
theory PerfContext
  imports ModuleMap History StackCache "HOL-Library.Product_Lexorder"
begin

text \<open>
  What is known of the processes of a Linux recording:
  \<open>snail/analysis/detail/perf_data_file_process_context.cpp\<close>. The handlers file the events under their
  thread and process ids; \<open>finish\<close> gives the entries names, ends and unique ids and connects threads
  with processes. \<open>std::set\<close>s are sorted lists; the iteration order of the unordered maps is an argument
  \<open>key_order\<close> with a number for each loop. Operating system ids are 32 bit, times 64 bit words.
\<close>

section \<open>Data\<close>

record perf_life =
  life_name :: "string option"
  life_end_time :: "u64 option"
  life_unique_id :: "nat option"

record perf_thread = perf_life +
  thread_process_id :: u32

type_synonym perf_process = perf_life

definition unnamed_process :: perf_process where
  "unnamed_process = \<lparr>life_name = None, life_end_time = None, life_unique_id = None\<rparr>"

definition named_process :: "string option \<Rightarrow> perf_process" where
  "named_process n = unnamed_process\<lparr>life_name := n\<rparr>"

definition new_thread :: "u32 \<Rightarrow> string option \<Rightarrow> perf_thread" where
  "new_thread pid n = \<lparr>life_name = n, life_end_time = None, life_unique_id = None, thread_process_id = pid\<rparr>"

definition same_process :: "perf_process \<Rightarrow> perf_process \<Rightarrow> bool" where
  "same_process l r \<longleftrightarrow> life_name l = life_name r"

definition same_thread :: "perf_thread \<Rightarrow> perf_thread \<Rightarrow> bool" where
  "same_thread l r \<longleftrightarrow> thread_process_id l = thread_process_id r \<and> life_name l = life_name r"

record perf_module =
  perf_filename :: string
  perf_page_offset :: u64
  perf_build_id :: "u8 list option"

record sample_info =
  info_thread_id :: u32
  info_timestamp :: u64
  info_instruction_pointer :: "u64 option"
  info_stack_index :: "nat option"

record samples_storage =
  first_sample_time :: u64
  last_sample_time :: u64
  stored_samples :: "sample_info list"

definition empty_storage :: samples_storage where
  "empty_storage = \<lparr>first_sample_time = - 1, last_sample_time = 0, stored_samples = []\<rparr>"

type_synonym perf_key = "u32 \<times> u64"

record perf_context =
  pc_process_names :: "(u32, u64, perf_process) history"
  pc_thread_names :: "(u32, u64, perf_thread) history"
  pc_processes :: "(u32, u64, perf_process) history"
  pc_threads :: "(u32, u64, perf_thread) history"
  pc_threads_per_process_id :: "u32 \<rightharpoonup> perf_key list"
  pc_threads_per_process :: "nat \<rightharpoonup> nat list"
  pc_process_keys :: "nat \<rightharpoonup> perf_key"
  pc_thread_keys :: "nat \<rightharpoonup> perf_key"
  pc_modules :: "u32 \<rightharpoonup> (perf_module, u64) module_map"
  pc_sample_sources :: "(nat \<times> nat) list"
  pc_samples :: "nat \<rightharpoonup> (u32 \<rightharpoonup> samples_storage)"
  pc_sources_with_stacks :: "nat set"
  pc_event_sources :: "u64 option \<rightharpoonup> nat"
  pc_source_events :: "nat \<rightharpoonup> u64 option list"
  pc_sampled_processes :: "perf_key set"
  pc_stacks :: stack_cache

definition empty_context :: perf_context where
  "empty_context =
     \<lparr>pc_process_names = Map.empty, pc_thread_names = Map.empty, pc_processes = Map.empty,
      pc_threads = Map.empty, pc_threads_per_process_id = Map.empty, pc_threads_per_process = Map.empty,
      pc_process_keys = Map.empty, pc_thread_keys = Map.empty, pc_modules = Map.empty,
      pc_sample_sources = [], pc_samples = Map.empty, pc_sources_with_stacks = {},
      pc_event_sources = Map.empty, pc_source_events = Map.empty, pc_sampled_processes = {},
      pc_stacks = empty_stack_cache\<rparr>"

text \<open>\<open>map[key].emplace(x)\<close> on a map of sets.\<close>

definition add_to_set :: "'k \<Rightarrow> 'a::linorder \<Rightarrow> ('k \<rightharpoonup> 'a list) \<Rightarrow> ('k \<rightharpoonup> 'a list)" where
  "add_to_set k x m = m(k \<mapsto> insort_insert x (case m k of None \<Rightarrow> [] | Some xs \<Rightarrow> xs))"

section \<open>Events\<close>

text \<open>The values the handlers read of an event. The attributes of a sample are a pointer into the table
  of attributes of the file: its index.\<close>

record sample_event =
  sample_attributes :: nat
  sample_event_id :: "u64 option"
  sample_ip :: "u64 option"
  sample_tid :: "u32 option"
  sample_time :: "u64 option"
  sample_ips :: "u64 list option"

datatype perf_event =
    Comm_event (comm_pid: u32) (comm_tid: u32) (comm_time: "u64 option") (comm_name: string)
  | Fork_event (fork_pid: u32) (fork_tid: u32) (fork_time: u64)
  | Mmap2_event (mmap_pid: u32) (mmap_addr: u64) (mmap_len: u64) (mmap_pgoff: u64)
      (mmap_build_id: "u8 list option") (mmap_filename: string) (mmap_time: "u64 option")
  | Sample_event sample_event

text \<open>The handlers. \<open>None\<close>: the code dereferences a missing time or breaks a precondition of the module
  map.\<close>

definition handle_comm :: "u32 \<Rightarrow> u32 \<Rightarrow> u64 option \<Rightarrow> string \<Rightarrow> perf_context \<Rightarrow> perf_context option" where
  "handle_comm pid tid time_opt name c =
     (case time_opt of
        None \<Rightarrow> None
      | Some time \<Rightarrow>
          (let c1 = (if pid = tid
                     then c\<lparr>pc_process_names :=
                       fst (history_insert same_process (pc_process_names c) pid time (named_process (Some name)))\<rparr>
                     else c)
           in Some (c1\<lparr>pc_thread_names :=
                fst (history_insert same_thread (pc_thread_names c1) tid time (new_thread pid (Some name)))\<rparr>)))"

definition handle_fork :: "u32 \<Rightarrow> u32 \<Rightarrow> u64 \<Rightarrow> perf_context \<Rightarrow> perf_context option" where
  "handle_fork pid tid time c =
     (let c1 = (if pid = tid
                then c\<lparr>pc_processes := fst (history_insert same_process (pc_processes c) pid time unnamed_process)\<rparr>
                else c)
      in Some (c1\<lparr>pc_threads := fst (history_insert same_thread (pc_threads c1) tid time (new_thread pid None)),
              pc_threads_per_process_id := add_to_set pid (tid, time) (pc_threads_per_process_id c1)\<rparr>))"

definition same_module :: "perf_module \<Rightarrow> perf_module \<Rightarrow> bool" where
  "same_module l r \<longleftrightarrow> perf_filename l = perf_filename r \<and> perf_page_offset l = perf_page_offset r \<and>
     perf_build_id l = perf_build_id r"

definition handle_mmap2 ::
  "u32 \<Rightarrow> u64 \<Rightarrow> u64 \<Rightarrow> u64 \<Rightarrow> u8 list option \<Rightarrow> string \<Rightarrow> u64 option \<Rightarrow> perf_context \<Rightarrow> perf_context option" where
  "handle_mmap2 pid addr len pgoff bid filename time_opt c =
     (let modules = (case pc_modules c pid of None \<Rightarrow> mm_empty | Some m \<Rightarrow> m) in
      case time_opt of
        None \<Rightarrow> None
      | Some time \<Rightarrow>
          (case mm_insert same_module modules \<lparr>mi_base = addr, mi_size = len,
               mi_payload = \<lparr>perf_filename = filename, perf_page_offset = pgoff, perf_build_id = bid\<rparr>\<rparr> time of
             None \<Rightarrow> None
           | Some m \<Rightarrow> Some (c\<lparr>pc_modules := (pc_modules c)(pid \<mapsto> m)\<rparr>)))"

definition store_sample :: "sample_info \<Rightarrow> samples_storage \<Rightarrow> samples_storage" where
  "store_sample s storage =
     \<lparr>first_sample_time = min (first_sample_time storage) (info_timestamp s),
      last_sample_time = max (last_sample_time storage) (info_timestamp s),
      stored_samples = stored_samples storage @ [s]\<rparr>"

definition handle_sample :: "(u64 \<Rightarrow> u64) \<Rightarrow> sample_event \<Rightarrow> perf_context \<Rightarrow> perf_context option" where
  "handle_sample ip_hash e c =
     (case (sample_tid e, sample_time e) of
        (Some tid, Some time) \<Rightarrow>
          (let key = sample_attributes e;
               is_new_source = map_of (pc_sample_sources c) key = None;
               src = (case map_of (pc_sample_sources c) key of None \<Rightarrow> length (pc_sample_sources c) | Some i \<Rightarrow> i);
               c1 = (if is_new_source
                     then c\<lparr>pc_sample_sources := pc_sample_sources c @ [(key, src)],
                            pc_event_sources := (pc_event_sources c)(sample_event_id e \<mapsto> src)\<rparr>
                     else c);
               per_thread = (case pc_samples c1 src of None \<Rightarrow> Map.empty | Some m \<Rightarrow> m);
               storage = (case per_thread tid of None \<Rightarrow> empty_storage | Some s \<Rightarrow> s);
               (stacks1, index) = (case sample_ips e of
                  None \<Rightarrow> (pc_stacks c1, None)
                | Some ips \<Rightarrow> apsnd Some (stack_insert ip_hash (pc_stacks c1) ips));
               info = \<lparr>info_thread_id = tid, info_timestamp = time, info_instruction_pointer = sample_ip e,
                       info_stack_index = index\<rparr>
           in Some (c1\<lparr>pc_samples := (pc_samples c1)(src \<mapsto> per_thread(tid \<mapsto> store_sample info storage)),
                pc_stacks := stacks1,
                pc_sources_with_stacks := (if sample_ips e = None then pc_sources_with_stacks c1
                  else insert src (pc_sources_with_stacks c1))\<rparr>))
      | _ \<Rightarrow> Some c)"

definition handle_event :: "(u64 \<Rightarrow> u64) \<Rightarrow> perf_event \<Rightarrow> perf_context \<Rightarrow> perf_context option" where
  "handle_event ip_hash e =
     (case e of
        Comm_event pid tid time name \<Rightarrow> handle_comm pid tid time name
      | Fork_event pid tid time \<Rightarrow> handle_fork pid tid time
      | Mmap2_event pid addr len pgoff bid filename time \<Rightarrow> handle_mmap2 pid addr len pgoff bid filename time
      | Sample_event s \<Rightarrow> handle_sample ip_hash s)"

fun handle_events :: "(u64 \<Rightarrow> u64) \<Rightarrow> perf_event list \<Rightarrow> perf_context \<Rightarrow> perf_context option" where
  "handle_events ip_hash [] c = Some c"
| "handle_events ip_hash (e # es) c = Option.bind (handle_event ip_hash e c) (handle_events ip_hash es)"

section \<open>Finishing\<close>

type_synonym key_order = "nat \<Rightarrow> u32 set \<Rightarrow> u32 list"

definition key_order_spec :: "key_order \<Rightarrow> bool" where
  "key_order_spec ord \<longleftrightarrow> (\<forall>k A. finite A \<longrightarrow> set (ord k A) = A \<and> distinct (ord k A))"

text \<open>\<open>find_at(id, time, true)\<close> for writing: the entry it finds gets a new payload.\<close>

definition history_modify :: "('i, 'ts::linorder, 'd) history \<Rightarrow> 'i \<Rightarrow> 'ts \<Rightarrow> ('d \<Rightarrow> 'd) \<Rightarrow> ('i, 'ts, 'd) history" where
  "history_modify h i t g =
     (case h i of
        None \<Rightarrow> h
      | Some es \<Rightarrow>
          (let k = length es - 1 - length (takeWhile (\<lambda>e. \<not> timestamp e \<le> t) (rev es))
           in h(i \<mapsto> es[k := (es ! k)\<lparr>payload := g (payload (es ! k))\<rparr>])))"

definition needs_name :: "(u32, u64, 'a perf_life_scheme) history \<Rightarrow> u32 \<Rightarrow> u64 \<Rightarrow> bool" where
  "needs_name h i t = (case history_find_at h i t True of None \<Rightarrow> False | Some e \<Rightarrow> life_name (payload e) = None)"

definition name_process :: "perf_context \<Rightarrow> (u32, u64, perf_process) history_entry \<Rightarrow> perf_context" where
  "name_process c e =
     (let i = entry_id e; t = timestamp e in
      if needs_name (pc_processes c) i t
      then c\<lparr>pc_processes := history_modify (pc_processes c) i t (life_name_update (\<lambda>_. life_name (payload e)))\<rparr>
      else c\<lparr>pc_processes := fst (history_insert same_process (pc_processes c) i t (named_process (life_name (payload e))))\<rparr>)"

definition name_thread :: "perf_context \<Rightarrow> (u32, u64, perf_thread) history_entry \<Rightarrow> perf_context" where
  "name_thread c e =
     (let i = entry_id e; t = timestamp e; pid = thread_process_id (payload e) in
      if needs_name (pc_threads c) i t
      then c\<lparr>pc_threads := history_modify (pc_threads c) i t (life_name_update (\<lambda>_. life_name (payload e)))\<rparr>
      else c\<lparr>pc_threads := fst (history_insert same_thread (pc_threads c) i t (new_thread pid (life_name (payload e)))),
             pc_threads_per_process_id := add_to_set pid (i, t) (pc_threads_per_process_id c)\<rparr>)"

definition all_entries :: "u32 list \<Rightarrow> (u32, u64, 'd) history \<Rightarrow> (u32, u64, 'd) history_entry list" where
  "all_entries ids h = concat (map (history_entries h) ids)"

definition assign_names :: "key_order \<Rightarrow> perf_context \<Rightarrow> perf_context" where
  "assign_names ord c =
     (let c1 = foldl name_process c (all_entries (ord 0 (dom (pc_process_names c))) (pc_process_names c))
      in foldl name_thread c1 (all_entries (ord 1 (dom (pc_thread_names c1))) (pc_thread_names c1)))"

text \<open>The unique ids of the entries of one id, and their ends: the start of the next one.\<close>

fun number_entries :: "nat \<Rightarrow> (u32, u64, 'a perf_life_scheme) history_entry list \<Rightarrow>
    (u32, u64, 'a perf_life_scheme) history_entry list" where
  "number_entries n [] = []"
| "number_entries n (e # es) =
     e\<lparr>payload := (payload e)\<lparr>life_unique_id := Some n,
        life_end_time := (case life_end_time (payload e) of
            Some t \<Rightarrow> Some t
          | None \<Rightarrow> (case es of [] \<Rightarrow> None | next_entry # _ \<Rightarrow> Some (timestamp next_entry)))\<rparr>\<rparr> # number_entries (Suc n) es"

definition number_id ::
  "nat \<times> (u32, u64, 'a perf_life_scheme) history \<times> (nat \<rightharpoonup> perf_key) \<Rightarrow> u32 \<Rightarrow>
   nat \<times> (u32, u64, 'a perf_life_scheme) history \<times> (nat \<rightharpoonup> perf_key)" where
  "number_id = (\<lambda>(n, h, keys) i.
     let es = history_entries h i in
     (n + length es, h(i \<mapsto> number_entries n es),
      foldl (\<lambda>keys k. keys(n + k \<mapsto> (i, timestamp (es ! k)))) keys [0..<length es]))"

definition first_process_id :: nat where "first_process_id = 0x100000000"
definition first_thread_id :: nat where "first_thread_id = 0x200000000"

definition assign_ids :: "key_order \<Rightarrow> perf_context \<Rightarrow> perf_context" where
  "assign_ids ord c =
     (case foldl number_id (first_process_id, pc_processes c, pc_process_keys c) (ord 2 (dom (pc_processes c))) of
        (_, ps, pkeys) \<Rightarrow>
      case foldl number_id (first_thread_id, pc_threads c, pc_thread_keys c) (ord 3 (dom (pc_threads c))) of
        (_, ts, tkeys) \<Rightarrow>
          c\<lparr>pc_processes := ps, pc_process_keys := pkeys, pc_threads := ts, pc_thread_keys := tkeys\<rparr>)"

text \<open>Connecting the threads with the processes. The ids are present: \<open>finish\<close> has just set them.\<close>

definition unique_id_of :: "(u32, u64, 'a perf_life_scheme) history_entry \<Rightarrow> nat" where
  "unique_id_of e = the (life_unique_id (payload e))"

definition connect_thread :: "perf_context \<Rightarrow> u32 \<Rightarrow> (nat \<rightharpoonup> nat list) \<Rightarrow> perf_key \<Rightarrow> (nat \<rightharpoonup> nat list)" where
  "connect_thread c pid m key =
     (case history_find_at (pc_processes c) pid (snd key) False of
        None \<Rightarrow> m
      | Some p \<Rightarrow>
          (case history_find_at (pc_threads c) (fst key) (snd key) False of
             None \<Rightarrow> m
           | Some t \<Rightarrow> add_to_set (unique_id_of p) (unique_id_of t) m))"

definition connect_threads :: "key_order \<Rightarrow> perf_context \<Rightarrow> perf_context" where
  "connect_threads ord c =
     c\<lparr>pc_threads_per_process :=
         foldl (\<lambda>m pid. foldl (connect_thread c pid) m (the (pc_threads_per_process_id c pid)))
           (pc_threads_per_process c) (ord 4 (dom (pc_threads_per_process_id c)))\<rparr>"

type_synonym event_order = "u64 option set \<Rightarrow> u64 option list"

definition revert_event_sources :: "event_order \<Rightarrow> perf_context \<Rightarrow> perf_context" where
  "revert_event_sources ord c =
     c\<lparr>pc_source_events := foldl (\<lambda>m e.
         let src = the (pc_event_sources c e) in
         m(src \<mapsto> (case m src of None \<Rightarrow> [] | Some es \<Rightarrow> es) @ [e]))
       (pc_source_events c) (ord (dom (pc_event_sources c)))\<rparr>"

text \<open>The processes with samples. The loop over the sources runs in their order; the set that results
  does not depend on it.\<close>

definition overlaps_samples :: "samples_storage \<Rightarrow> (u32, u64, perf_thread) history_entry \<Rightarrow> bool" where
  "overlaps_samples s e \<longleftrightarrow>
     \<not> (last_sample_time s < timestamp e \<or>
        (case life_end_time (payload e) of None \<Rightarrow> False | Some t \<Rightarrow> first_sample_time s > t))"

definition process_key_of :: "perf_context \<Rightarrow> (u32, u64, perf_thread) history_entry \<Rightarrow> perf_key option" where
  "process_key_of c e =
     map_option (\<lambda>p. (entry_id p, timestamp p))
       (history_find_at (pc_processes c) (thread_process_id (payload e)) (timestamp e) False)"

definition sampled_by_source :: "key_order \<Rightarrow> perf_context \<Rightarrow> (u32 \<rightharpoonup> samples_storage) \<Rightarrow> perf_key set \<Rightarrow> perf_key set" where
  "sampled_by_source ord c per_thread ks =
     foldl (\<lambda>ks i. case per_thread i of
         None \<Rightarrow> ks
       | Some s \<Rightarrow> foldl (\<lambda>ks e.
           if \<not> overlaps_samples s e then ks
           else case process_key_of c e of None \<Rightarrow> ks | Some k \<Rightarrow> insert k ks) ks (history_entries (pc_threads c) i))
       ks (ord 5 (dom (pc_threads c)))"

definition find_sampled_processes :: "key_order \<Rightarrow> perf_context \<Rightarrow> perf_context" where
  "find_sampled_processes ord c =
     c\<lparr>pc_sampled_processes := foldl (\<lambda>ks src. case pc_samples c src of
         None \<Rightarrow> ks
       | Some per_thread \<Rightarrow> sampled_by_source ord c per_thread ks)
       (pc_sampled_processes c) [0..<length (pc_sample_sources c)]\<rparr>"

definition finish :: "key_order \<Rightarrow> event_order \<Rightarrow> perf_context \<Rightarrow> perf_context" where
  "finish ord event_ord c =
     find_sampled_processes ord (revert_event_sources event_ord (connect_threads ord
       (assign_ids ord (assign_names ord c))))"

section \<open>Queries\<close>

text \<open>The samples of a thread in an interval of time. The code searches the samples of the thread by
  bisection: they have to be in the order of their times.\<close>

definition samples_of :: "perf_context \<Rightarrow> u32 \<Rightarrow> nat \<Rightarrow> sample_info list" where
  "samples_of c tid src =
     (case pc_samples c src of
        None \<Rightarrow> []
      | Some per_thread \<Rightarrow> (case per_thread tid of None \<Rightarrow> [] | Some s \<Rightarrow> stored_samples s))"

definition thread_samples :: "perf_context \<Rightarrow> u32 \<Rightarrow> u64 \<Rightarrow> u64 option \<Rightarrow> nat \<Rightarrow> sample_info list" where
  "thread_samples c tid start_time end_time src =
     (let xs = samples_of c tid src;
          range_first = lower_bound_index info_timestamp xs start_time
      in if range_first = length xs then []
         else let range_end = (case end_time of
                  None \<Rightarrow> length xs | Some t \<Rightarrow> upper_bound_index info_timestamp xs t)
              in if range_first > range_end then [] else take (range_end - range_first) (drop range_first xs))"

definition get_process_threads :: "perf_context \<Rightarrow> nat \<Rightarrow> nat list option" where
  "get_process_threads c p = pc_threads_per_process c p"

definition get_modules :: "perf_context \<Rightarrow> u32 \<Rightarrow> (perf_module, u64) module_map option" where
  "get_modules c pid = pc_modules c pid"

definition process_id_to_key :: "perf_context \<Rightarrow> nat \<Rightarrow> perf_key option" where
  "process_id_to_key c p = pc_process_keys c p"

definition thread_id_to_key :: "perf_context \<Rightarrow> nat \<Rightarrow> perf_key option" where
  "thread_id_to_key c t = pc_thread_keys c t"

definition sample_source_has_stacks :: "perf_context \<Rightarrow> nat \<Rightarrow> bool" where
  "sample_source_has_stacks c src \<longleftrightarrow> src \<in> pc_sources_with_stacks c"

section \<open>Histories under the operations\<close>

lemma entries_after_insert:
  "set (history_entries (fst (history_insert eq h i t p)) j) \<subseteq>
     set (history_entries h j) \<union> (if j = i then {\<lparr>entry_id = i, timestamp = t, payload = p\<rparr>} else {})"
  by (auto simp: history_insert_def history_entries_def Let_def split: option.splits if_splits)

lemma dom_history_insert: "dom (fst (history_insert eq h i t p)) = insert i (dom h)"
  by (auto simp: history_insert_def Let_def)

lemma map_update_same: "(k < length xs \<Longrightarrow> f y = f (xs ! k)) \<Longrightarrow> map f (xs[k := y]) = map f xs"
  by (cases "k < length xs") (auto simp: map_update list_update_beyond list_update_same_conv)

lemma history_modify_entries:
  "map timestamp (history_entries (history_modify h i t g) j) = map timestamp (history_entries h j)"
  "map entry_id (history_entries (history_modify h i t g) j) = map entry_id (history_entries h j)"
  "(\<And>x. f (g x) = f x) \<Longrightarrow>
     map (\<lambda>e. f (payload e)) (history_entries (history_modify h i t g) j) = map (\<lambda>e. f (payload e)) (history_entries h j)"
  by (auto simp: history_modify_def history_entries_def Let_def map_update_same split: option.split)

lemma dom_history_modify: "dom (history_modify h i t g) = dom h"
  by (auto simp: history_modify_def Let_def dom_def split: option.splits if_splits)

lemma history_wf_entries:
  "history_wf h \<longleftrightarrow> (\<forall>i \<in> dom h. history_entries h i \<noteq> [] \<and>
     (\<forall>x \<in> set (map entry_id (history_entries h i)). x = i) \<and> sorted (map timestamp (history_entries h i)))"
  by (auto simp: history_wf_def history_entries_def dom_def)

lemma history_modify_wf: "history_wf h \<Longrightarrow> history_wf (history_modify h i t g)"
  unfolding history_wf_entries dom_history_modify history_modify_entries
  by (metis history_modify_entries(1) map_is_Nil_conv)

section \<open>Numbering\<close>

lemma number_entries_maps:
  "map timestamp (number_entries n es) = map timestamp es"
  "map entry_id (number_entries n es) = map entry_id es"
  "length (number_entries n es) = length es"
  by (induction n es rule: number_entries.induct) auto

lemma number_entries_process_id:
  "map (\<lambda>e. thread_process_id (payload e)) (number_entries n es) = map (\<lambda>e. thread_process_id (payload e)) es"
  by (induction n es rule: number_entries.induct) auto

lemma number_entries_id: "k < length es \<Longrightarrow> life_unique_id (payload (number_entries n es ! k)) = Some (n + k)"
  by (induction n es arbitrary: k rule: number_entries.induct) (auto simp: nth_Cons split: nat.split)

lemma number_entries_timestamp: "k < length es \<Longrightarrow> timestamp (number_entries n es ! k) = timestamp (es ! k)"
  by (induction n es arbitrary: k rule: number_entries.induct) (auto simp: nth_Cons split: nat.split)

text \<open>What the numbering of all ids gives, as long as no id is taken twice.\<close>

lemma fold_keys:
  "foldl (\<lambda>keys k. keys(n + k \<mapsto> f k)) keys [0..<m] u =
     (if n \<le> u \<and> u < n + m then Some (f (u - n)) else keys u)"
  by (induction m) auto

lemma number_ids:
  assumes "distinct ids" "foldl number_id (n, h, keys) ids = (n', h', keys')"
  shows "n \<le> n' \<and> (\<forall>j. j \<notin> set ids \<longrightarrow> h' j = h j) \<and> (\<forall>u < n. keys' u = keys u) \<and>
    (\<forall>j \<in> set ids. \<exists>m \<ge> n. m + length (history_entries h j) \<le> n' \<and>
       h' j = Some (number_entries m (history_entries h j)) \<and>
       (\<forall>k < length (history_entries h j). keys' (m + k) = Some (j, timestamp (history_entries h j ! k)))) \<and>
    (\<forall>u. n \<le> u \<longrightarrow> u < n' \<longrightarrow> (\<exists>j \<in> set ids. \<exists>e \<in> set (history_entries h' j). life_unique_id (payload e) = Some u))"
  using assms
proof (induction ids arbitrary: n h keys)
  case (Cons i ids)
  let ?es = "history_entries h i"
  let ?h = "h(i \<mapsto> number_entries n ?es)"
  let ?keys = "foldl (\<lambda>keys k. keys(n + k \<mapsto> (i, timestamp (?es ! k)))) keys [0..<length ?es]"
  have run: "foldl number_id (n + length ?es, ?h, ?keys) ids = (n', h', keys')"
    using Cons.prems(2) by (simp add: number_id_def Let_def)
  have i: "i \<notin> set ids" "distinct ids" using Cons.prems(1) by auto
  have e: "history_entries ?h j = (if j = i then number_entries n ?es else history_entries h j)" for j
    by (simp add: history_entries_def)
  note ih = Cons.IH [OF i(2) run]
  have le: "n + length ?es \<le> n'" using ih by blast
  have h': "h' i = Some (number_entries n ?es)" using ih i by simp
  have keys: "keys' u = (if n \<le> u \<and> u < n + length ?es then Some (i, timestamp (?es ! (u - n))) else keys u)"
    if "u < n + length ?es" for u
    using ih that fold_keys [of n "\<lambda>k. (i, timestamp (?es ! k))" keys "length ?es" u] by simp
  have own: "\<exists>m \<ge> n. m + length (history_entries h j) \<le> n' \<and>
       h' j = Some (number_entries m (history_entries h j)) \<and>
       (\<forall>k < length (history_entries h j). keys' (m + k) = Some (j, timestamp (history_entries h j ! k)))"
    if "j \<in> set (i # ids)" for j
  proof (cases "j = i")
    case True
    with le h' keys show ?thesis by (intro exI [of _ n]) auto
  next
    case False
    then have "j \<in> set ids" using that by simp
    then obtain m where "m \<ge> n + length ?es" "m + length (history_entries ?h j) \<le> n'"
        "h' j = Some (number_entries m (history_entries ?h j))"
        "\<forall>k < length (history_entries ?h j). keys' (m + k) = Some (j, timestamp (history_entries ?h j ! k))"
      using ih by blast
    with False show ?thesis unfolding e by (intro exI [of _ m]) auto
  qed
  have used: "\<exists>j \<in> set (i # ids). \<exists>x \<in> set (history_entries h' j). life_unique_id (payload x) = Some u"
    if "n \<le> u" "u < n'" for u
  proof (cases "u < n + length ?es")
    case True
    have "number_entries n ?es ! (u - n) \<in> set (history_entries h' i)"
      using True that(1) by (simp add: history_entries_def [of h'] h' number_entries_maps nth_mem)
    moreover have "life_unique_id (payload (number_entries n ?es ! (u - n))) = Some u"
      using True that(1) by (simp add: number_entries_id)
    ultimately show ?thesis by auto
  next
    case False
    then have "n + length ?es \<le> u" by simp
    with ih that(2) have "\<exists>j \<in> set ids. \<exists>x \<in> set (history_entries h' j). life_unique_id (payload x) = Some u"
      by blast
    then show ?thesis by auto
  qed
  show ?case
  proof (intro conjI)
    show "n \<le> n'" using le by simp
    show "\<forall>j. j \<notin> set (i # ids) \<longrightarrow> h' j = h j" using ih by simp
    show "\<forall>u < n. keys' u = keys u" using keys by simp
  qed (use own used in blast)+
qed simp

section \<open>What the events build up\<close>

definition threads_covered :: "(u32, u64, perf_thread) history \<Rightarrow> (u32 \<rightharpoonup> perf_key list) \<Rightarrow> bool" where
  "threads_covered h m \<longleftrightarrow>
     (\<forall>i. \<forall>e \<in> set (history_entries h i). \<exists>ks. m (thread_process_id (payload e)) = Some ks \<and> (i, timestamp e) \<in> set ks)"

definition context_wf :: "perf_context \<Rightarrow> bool" where
  "context_wf c \<longleftrightarrow>
     history_wf (pc_process_names c) \<and> history_wf (pc_thread_names c) \<and>
     history_wf (pc_processes c) \<and> history_wf (pc_threads c) \<and>
     finite (dom (pc_process_names c)) \<and> finite (dom (pc_thread_names c)) \<and>
     finite (dom (pc_processes c)) \<and> finite (dom (pc_threads c)) \<and>
     finite (dom (pc_threads_per_process_id c)) \<and>
     threads_covered (pc_threads c) (pc_threads_per_process_id c)"

definition unfinished :: "perf_context \<Rightarrow> bool" where
  "unfinished c \<longleftrightarrow> pc_threads_per_process c = Map.empty \<and> pc_process_keys c = Map.empty \<and>
     pc_thread_keys c = Map.empty \<and> pc_sampled_processes c = {} \<and> pc_source_events c = Map.empty"

lemma dom_add_to_set [simp]: "dom (add_to_set k x m) = insert k (dom m)"
  by (auto simp: add_to_set_def)

lemma covered_add: "threads_covered h m \<Longrightarrow> threads_covered h (add_to_set k x m)"
  by (fastforce simp: threads_covered_def add_to_set_def set_insort_insert split: option.splits)

lemma covered_insert:
  assumes "threads_covered h m"
  shows "threads_covered (fst (history_insert eq h i t (new_thread pid n))) (add_to_set pid (i, t) m)"
proof -
  have "\<exists>ks. add_to_set pid (i, t) m (thread_process_id (payload e)) = Some ks \<and> (j, timestamp e) \<in> set ks"
    if "e \<in> set (history_entries (fst (history_insert eq h i t (new_thread pid n))) j)" for e j
  proof (cases "e \<in> set (history_entries h j)")
    case True
    with covered_add [OF assms] show ?thesis unfolding threads_covered_def by blast
  next
    case False
    with that entries_after_insert [of eq h i t "new_thread pid n" j]
    have "j = i" "e = \<lparr>entry_id = i, timestamp = t, payload = new_thread pid n\<rparr>" by (auto split: if_splits)
    then show ?thesis by (simp add: add_to_set_def new_thread_def set_insort_insert)
  qed
  then show ?thesis unfolding threads_covered_def by blast
qed

lemma map_pair_in:
  assumes "map f xs = map f ys" "map g xs = map g ys" "x \<in> set xs"
  shows "\<exists>y \<in> set ys. f y = f x \<and> g y = g x"
  using assms by (metis (no_types, lifting) in_set_conv_nth length_map nth_map)

lemma covered_modify:
  assumes "threads_covered h m" "\<And>x. thread_process_id (g x) = thread_process_id x"
  shows "threads_covered (history_modify h i t g) m"
  unfolding threads_covered_def
proof (intro allI ballI)
  fix j e
  assume "e \<in> set (history_entries (history_modify h i t g) j)"
  then obtain x where "x \<in> set (history_entries h j)" "timestamp x = timestamp e"
      "thread_process_id (payload x) = thread_process_id (payload e)"
    using map_pair_in [OF history_modify_entries(1) history_modify_entries(3) [of thread_process_id g]] assms(2) by metis
  with assms(1) show "\<exists>ks. m (thread_process_id (payload e)) = Some ks \<and> (j, timestamp e) \<in> set ks"
    unfolding threads_covered_def by metis
qed

lemma context_wf_empty: "context_wf empty_context" "unfinished empty_context"
  by (simp_all add: context_wf_def unfinished_def empty_context_def history_wf_empty threads_covered_def history_entries_def)

lemmas context_ops = history_insert_wf history_modify_wf dom_history_insert dom_history_modify covered_insert

lemma handle_event_wf:
  assumes "context_wf c" "handle_event ip_hash e c = Some c'"
  shows "context_wf c'"
proof (cases e)
  case (Comm_event pid tid time name)
  with assms show ?thesis
    by (auto simp: handle_event_def handle_comm_def Let_def context_wf_def context_ops split: option.splits)
next
  case (Fork_event pid tid time)
  with assms show ?thesis
    by (auto simp: handle_event_def handle_fork_def Let_def context_wf_def context_ops)
next
  case (Mmap2_event pid addr len pgoff bid filename time)
  with assms show ?thesis
    by (auto simp: handle_event_def handle_mmap2_def Let_def context_wf_def split: option.splits)
next
  case (Sample_event s)
  with assms show ?thesis
    by (auto simp: handle_event_def handle_sample_def Let_def context_wf_def split: option.splits prod.splits)
qed

lemma handle_event_unfinished:
  "unfinished c \<Longrightarrow> handle_event ip_hash e c = Some c' \<Longrightarrow> unfinished c'"
  by (cases e) (auto simp: handle_event_def handle_comm_def handle_fork_def handle_mmap2_def handle_sample_def
      Let_def unfinished_def split: option.splits prod.splits if_splits)

lemma handle_events_wf:
  "context_wf c \<Longrightarrow> unfinished c \<Longrightarrow> handle_events ip_hash es c = Some c' \<Longrightarrow> context_wf c' \<and> unfinished c'"
  by (induction es arbitrary: c)
    (auto simp: bind_eq_Some_conv intro: handle_event_wf handle_event_unfinished)

lemma name_process_wf: "context_wf c \<and> unfinished c \<Longrightarrow> context_wf (name_process c e) \<and> unfinished (name_process c e)"
  by (auto simp: name_process_def Let_def context_wf_def unfinished_def context_ops)

lemma name_thread_wf: "context_wf c \<and> unfinished c \<Longrightarrow> context_wf (name_thread c e) \<and> unfinished (name_thread c e)"
  by (auto simp: name_thread_def Let_def context_wf_def unfinished_def context_ops covered_modify)

lemma foldl_invariant: "P c \<Longrightarrow> (\<And>c x. P c \<Longrightarrow> P (f c x)) \<Longrightarrow> P (foldl f c xs)"
  by (induction xs arbitrary: c) auto

lemma assign_names_wf:
  assumes "context_wf c" "unfinished c"
  shows "context_wf (assign_names ord c)" "unfinished (assign_names ord c)"
proof -
  note step = foldl_invariant [where P = "\<lambda>c. context_wf c \<and> unfinished c"]
  have "context_wf (assign_names ord c) \<and> unfinished (assign_names ord c)"
    unfolding assign_names_def Let_def
    by (intro step name_process_wf name_thread_wf) (use assms in auto)
  then show "context_wf (assign_names ord c)" "unfinished (assign_names ord c)" by auto
qed

section \<open>What finishing adds\<close>

lemma fold_nested:
  "foldl (\<lambda>m pid. foldl (f pid) m (g pid)) m ids =
     foldl (\<lambda>m x. f (fst x) m (snd x)) m (concat (map (\<lambda>pid. map (Pair pid) (g pid)) ids))"
proof (induction ids arbitrary: m)
  case (Cons i ids)
  have "foldl (f i) m xs = foldl (\<lambda>m x. f (fst x) m (snd x)) m (map (Pair i) xs)" for m xs
    by (induction xs arbitrary: m) auto
  with Cons show ?case by simp
qed simp

definition members :: "('k \<rightharpoonup> 'a list) \<Rightarrow> 'k \<Rightarrow> 'a set" where
  "members m k = (case m k of None \<Rightarrow> {} | Some xs \<Rightarrow> set xs)"

lemma members_add: "members (add_to_set k x m) l = (if l = k then insert x (members m k) else members m l)"
  by (auto simp: members_def add_to_set_def set_insort_insert split: option.splits)

lemma fold_members:
  "members (foldl (\<lambda>m x. case sel x of None \<Rightarrow> m | Some (k, a) \<Rightarrow> add_to_set k a m) m xs) k =
     members m k \<union> {a. \<exists>x \<in> set xs. sel x = Some (k, a)}"
  by (induction xs arbitrary: m) (auto simp: members_add split: option.split prod.split)

definition thread_of_process :: "perf_context \<Rightarrow> u32 \<times> perf_key \<Rightarrow> (nat \<times> nat) option" where
  "thread_of_process c x =
     (case history_find_at (pc_processes c) (fst x) (snd (snd x)) False of
        None \<Rightarrow> None
      | Some p \<Rightarrow>
          (case history_find_at (pc_threads c) (fst (snd x)) (snd (snd x)) False of
             None \<Rightarrow> None
           | Some t \<Rightarrow> Some (unique_id_of p, unique_id_of t)))"

lemma connect_threads_members:
  assumes "key_order_spec ord" "finite (dom (pc_threads_per_process_id c))"
  shows "members (pc_threads_per_process (connect_threads ord c)) u = members (pc_threads_per_process c) u \<union>
    {t. \<exists>pid \<in> dom (pc_threads_per_process_id c). \<exists>key \<in> set (the (pc_threads_per_process_id c pid)).
       thread_of_process c (pid, key) = Some (u, t)}"
proof -
  have step: "connect_thread c (fst x) m (snd x) = (case thread_of_process c x of None \<Rightarrow> m | Some (k, a) \<Rightarrow> add_to_set k a m)" for m x
    by (auto simp: connect_thread_def thread_of_process_def split: option.split)
  have "set (ord 4 (dom (pc_threads_per_process_id c))) = dom (pc_threads_per_process_id c)"
    using assms by (auto simp: key_order_spec_def)
  then show ?thesis
    unfolding connect_threads_def fold_nested step
    by (simp add: fold_members)
qed

lemma fold_sampled:
  "foldl (\<lambda>ks e. if \<not> overlaps_samples s e then ks
      else case process_key_of c e of None \<Rightarrow> ks | Some k \<Rightarrow> insert k ks) ks es =
   ks \<union> {k. \<exists>e \<in> set es. overlaps_samples s e \<and> process_key_of c e = Some k}"
  by (induction es arbitrary: ks) (auto split: option.split)

definition sampled_keys :: "perf_context \<Rightarrow> (u32 \<rightharpoonup> samples_storage) \<Rightarrow> perf_key set" where
  "sampled_keys c per_thread = {k. \<exists>i s e. per_thread i = Some s \<and> e \<in> set (history_entries (pc_threads c) i) \<and>
     overlaps_samples s e \<and> process_key_of c e = Some k}"

lemma sampled_by_source_eq:
  assumes "key_order_spec ord" "finite (dom (pc_threads c))"
  shows "sampled_by_source ord c per_thread ks = ks \<union> sampled_keys c per_thread"
proof -
  have fold: "foldl (\<lambda>ks i. case per_thread i of None \<Rightarrow> ks | Some s \<Rightarrow> ks \<union> f s i) ks is =
      ks \<union> {k. \<exists>i \<in> set is. \<exists>s. per_thread i = Some s \<and> k \<in> f s i}"
    for f :: "samples_storage \<Rightarrow> u32 \<Rightarrow> perf_key set" and ks "is"
    by (induction "is" arbitrary: ks) (auto split: option.splits)
  have "i \<in> set (ord 5 (dom (pc_threads c)))" if "e \<in> set (history_entries (pc_threads c) i)" for e i
    using assms that by (cases "pc_threads c i") (auto simp: key_order_spec_def history_entries_def)
  then show ?thesis
    unfolding sampled_by_source_def fold_sampled fold sampled_keys_def by blast
qed

lemma sampled_processes_eq:
  assumes "key_order_spec ord" "finite (dom (pc_threads c))"
  shows "pc_sampled_processes (find_sampled_processes ord c) = pc_sampled_processes c \<union>
    {k. \<exists>src < length (pc_sample_sources c). \<exists>per_thread. pc_samples c src = Some per_thread \<and> k \<in> sampled_keys c per_thread}"
proof -
  have "foldl (\<lambda>ks src. case pc_samples c src of None \<Rightarrow> ks | Some per_thread \<Rightarrow> ks \<union> sampled_keys c per_thread) ks xs =
      ks \<union> {k. \<exists>src \<in> set xs. \<exists>per_thread. pc_samples c src = Some per_thread \<and> k \<in> sampled_keys c per_thread}" for ks xs
    by (induction xs arbitrary: ks) (auto split: option.splits)
  then show ?thesis
    unfolding find_sampled_processes_def sampled_by_source_eq [OF assms] by auto
qed

definition ids_assigned :: "(u32, u64, 'a perf_life_scheme) history \<Rightarrow> (nat \<rightharpoonup> perf_key) \<Rightarrow> bool" where
  "ids_assigned h keys \<longleftrightarrow>
     (\<forall>i. \<forall>e \<in> set (history_entries h i). \<exists>u. life_unique_id (payload e) = Some u \<and> keys u = Some (i, timestamp e))"

lemma number_all:
  assumes ord: "key_order_spec ord" "finite (dom h)" and wf: "history_wf h"
    and run: "foldl number_id (n, h, Map.empty) (ord k (dom h)) = (n', h', keys')"
  shows "history_wf h' \<and> ids_assigned h' keys' \<and>
    (\<forall>j. \<exists>m. history_entries h' j = number_entries m (history_entries h j))"
proof -
  have ids: "set (ord k (dom h)) = dom h" "distinct (ord k (dom h))"
    using ord by (auto simp: key_order_spec_def)
  note spec = number_ids [OF ids(2) run]
  have e: "\<exists>m. history_entries h' j = number_entries m (history_entries h j) \<and>
      (\<forall>i < length (history_entries h j). keys' (m + i) = Some (j, timestamp (history_entries h j ! i)))" for j
  proof (cases "j \<in> dom h")
    case True
    then obtain m where "h' j = Some (number_entries m (history_entries h j))"
        "\<forall>i < length (history_entries h j). keys' (m + i) = Some (j, timestamp (history_entries h j ! i))"
      using spec ids(1) by blast
    then show ?thesis by (intro exI [of _ m]) (simp add: history_entries_def [of h'])
  next
    case False
    then have "h' j = h j" "h j = None" using spec ids(1) by auto
    then show ?thesis by (simp add: history_entries_def)
  qed
  have dom: "dom h' = dom h"
  proof -
    have "j \<in> dom h' \<longleftrightarrow> j \<in> dom h" for j
      using spec ids(1) by (cases "j \<in> dom h") (auto simp: domIff)
    then show ?thesis by blast
  qed
  have "ids_assigned h' keys'"
    unfolding ids_assigned_def
  proof (intro allI ballI)
    fix j x
    assume x: "x \<in> set (history_entries h' j)"
    obtain m where m: "history_entries h' j = number_entries m (history_entries h j)"
        "\<forall>i < length (history_entries h j). keys' (m + i) = Some (j, timestamp (history_entries h j ! i))"
      using e by blast
    obtain i where i: "i < length (history_entries h j)" "x = number_entries m (history_entries h j) ! i"
      using x unfolding m(1) by (auto simp: in_set_conv_nth number_entries_maps)
    have "timestamp x = timestamp (history_entries h j ! i)"
      using i number_entries_timestamp by simp
    with m(2) i show "\<exists>u. life_unique_id (payload x) = Some u \<and> keys' u = Some (j, timestamp x)"
      by (simp add: number_entries_id)
  qed
  moreover have "history_wf h'"
  proof -
    have "\<exists>m. history_entries h' j = number_entries m (history_entries h j)" for j using e by blast
    then have "map timestamp (history_entries h' j) = map timestamp (history_entries h j)"
        "map entry_id (history_entries h' j) = map entry_id (history_entries h j)" for j
      using number_entries_maps by metis+
    with wf show ?thesis unfolding history_wf_entries dom by (metis map_is_Nil_conv)
  qed
  ultimately show ?thesis using e by blast
qed

lemma covered_numbered:
  assumes "threads_covered h m" "\<forall>j. \<exists>n. history_entries h' j = number_entries n (history_entries h j)"
  shows "threads_covered h' m"
  unfolding threads_covered_def
proof (intro allI ballI)
  fix j e
  assume e: "e \<in> set (history_entries h' j)"
  obtain n where "history_entries h' j = number_entries n (history_entries h j)" using assms(2) by blast
  then have "map timestamp (history_entries h' j) = map timestamp (history_entries h j)"
      "map (\<lambda>e. thread_process_id (payload e)) (history_entries h' j) = map (\<lambda>e. thread_process_id (payload e)) (history_entries h j)"
    by (simp_all add: number_entries_maps number_entries_process_id)
  from map_pair_in [OF this e] assms(1)
  show "\<exists>ks. m (thread_process_id (payload e)) = Some ks \<and> (j, timestamp e) \<in> set ks"
    unfolding threads_covered_def by metis
qed

text \<open>The finished context.\<close>

definition context_ready :: "perf_context \<Rightarrow> bool" where
  "context_ready c \<longleftrightarrow>
     history_wf (pc_processes c) \<and> history_wf (pc_threads c) \<and>
     finite (dom (pc_processes c)) \<and> finite (dom (pc_threads c)) \<and> finite (dom (pc_threads_per_process_id c)) \<and>
     threads_covered (pc_threads c) (pc_threads_per_process_id c) \<and>
     ids_assigned (pc_processes c) (pc_process_keys c) \<and> ids_assigned (pc_threads c) (pc_thread_keys c)"

lemma dom_numbered:
  "foldl number_id (n, h, keys) ids = (n', h', keys') \<Longrightarrow> dom h' = dom h \<union> set ids"
  by (induction ids arbitrary: n h keys) (auto simp: number_id_def Let_def)

lemma assign_ids_ready:
  assumes "key_order_spec ord" "context_wf c" "unfinished c"
  shows "context_ready (assign_ids ord c)"
proof -
  obtain n ps pkeys where p: "foldl number_id (first_process_id, pc_processes c, Map.empty) (ord 2 (dom (pc_processes c))) = (n, ps, pkeys)"
    using prod_cases3 by blast
  obtain m ts tkeys where t: "foldl number_id (first_thread_id, pc_threads c, Map.empty) (ord 3 (dom (pc_threads c))) = (m, ts, tkeys)"
    using prod_cases3 by blast
  have wf: "finite (dom (pc_processes c))" "history_wf (pc_processes c)" "finite (dom (pc_threads c))" "history_wf (pc_threads c)"
      "threads_covered (pc_threads c) (pc_threads_per_process_id c)" "finite (dom (pc_threads_per_process_id c))"
    using assms(2) by (auto simp: context_wf_def)
  note ps = number_all [OF assms(1) wf(1,2) p] and ts = number_all [OF assms(1) wf(3,4) t]
  have "finite (dom ps)" "finite (dom ts)" using dom_numbered [OF p] dom_numbered [OF t] wf by auto
  moreover have "assign_ids ord c = c\<lparr>pc_processes := ps, pc_process_keys := pkeys, pc_threads := ts, pc_thread_keys := tkeys\<rparr>"
    using assms(3) p t by (simp add: assign_ids_def unfinished_def)
  ultimately show ?thesis
    using ps ts covered_numbered [OF wf(5)] wf(6) by (simp add: context_ready_def)
qed

lemma connect_sel [simp]:
  "pc_processes (connect_threads ord c) = pc_processes c" "pc_threads (connect_threads ord c) = pc_threads c"
  "pc_process_keys (connect_threads ord c) = pc_process_keys c" "pc_thread_keys (connect_threads ord c) = pc_thread_keys c"
  "pc_threads_per_process_id (connect_threads ord c) = pc_threads_per_process_id c"
  "pc_samples (connect_threads ord c) = pc_samples c" "pc_sample_sources (connect_threads ord c) = pc_sample_sources c"
  "pc_sampled_processes (connect_threads ord c) = pc_sampled_processes c"
  by (simp_all add: connect_threads_def)

lemma revert_sel [simp]:
  "pc_processes (revert_event_sources eo c) = pc_processes c" "pc_threads (revert_event_sources eo c) = pc_threads c"
  "pc_process_keys (revert_event_sources eo c) = pc_process_keys c" "pc_thread_keys (revert_event_sources eo c) = pc_thread_keys c"
  "pc_threads_per_process_id (revert_event_sources eo c) = pc_threads_per_process_id c"
  "pc_threads_per_process (revert_event_sources eo c) = pc_threads_per_process c"
  "pc_samples (revert_event_sources eo c) = pc_samples c" "pc_sample_sources (revert_event_sources eo c) = pc_sample_sources c"
  "pc_sampled_processes (revert_event_sources eo c) = pc_sampled_processes c"
  by (simp_all add: revert_event_sources_def)

lemma sampled_sel [simp]:
  "pc_processes (find_sampled_processes ord c) = pc_processes c" "pc_threads (find_sampled_processes ord c) = pc_threads c"
  "pc_process_keys (find_sampled_processes ord c) = pc_process_keys c" "pc_thread_keys (find_sampled_processes ord c) = pc_thread_keys c"
  "pc_threads_per_process_id (find_sampled_processes ord c) = pc_threads_per_process_id c"
  "pc_threads_per_process (find_sampled_processes ord c) = pc_threads_per_process c"
  by (simp_all add: find_sampled_processes_def)

lemma finish_ready:
  assumes "key_order_spec ord" "context_wf c" "unfinished c"
  shows "context_ready (finish ord eo c)"
  using assign_ids_ready [OF assms(1) assign_names_wf [OF assms(2,3)]]
  by (simp add: finish_def context_ready_def)

lemma thread_of_process_cong:
  "pc_processes c = pc_processes d \<Longrightarrow> pc_threads c = pc_threads d \<Longrightarrow> thread_of_process c = thread_of_process d"
  unfolding thread_of_process_def [abs_def] by metis

lemma assign_ids_sel [simp]:
  "pc_threads_per_process (assign_ids ord c) = pc_threads_per_process c"
  "pc_sampled_processes (assign_ids ord c) = pc_sampled_processes c"
  by (simp_all add: assign_ids_def split: prod.split)

lemma finish_threads:
  assumes "key_order_spec ord" "context_wf c0" "unfinished c0" and c: "c = finish ord eo c0"
  shows "members (pc_threads_per_process c) u =
    {t. \<exists>pid \<in> dom (pc_threads_per_process_id c). \<exists>key \<in> set (the (pc_threads_per_process_id c pid)).
       thread_of_process c (pid, key) = Some (u, t)}"
proof -
  let ?d = "assign_ids ord (assign_names ord c0)"
  have d: "finite (dom (pc_threads_per_process_id ?d))" "pc_threads_per_process ?d = Map.empty"
    using assign_ids_ready [OF assms(1) assign_names_wf [OF assms(2,3)]] assign_names_wf [OF assms(2,3)]
    by (auto simp: context_ready_def unfinished_def)
  have "thread_of_process c = thread_of_process ?d" by (rule thread_of_process_cong) (simp_all add: c finish_def)
  with connect_threads_members [OF assms(1) d(1), of u] d(2)
  show ?thesis by (simp add: c finish_def members_def [of Map.empty])
qed

lemma finish_sampled:
  assumes "key_order_spec ord" "context_wf c0" "unfinished c0" and c: "c = finish ord eo c0"
    and k: "k \<in> pc_sampled_processes c"
  shows "\<exists>i. \<exists>e \<in> set (history_entries (pc_threads c) i). process_key_of c e = Some k"
proof -
  let ?d = "revert_event_sources eo (connect_threads ord (assign_ids ord (assign_names ord c0)))"
  have d: "finite (dom (pc_threads ?d))" "pc_sampled_processes ?d = {}"
    using assign_ids_ready [OF assms(1) assign_names_wf [OF assms(2,3)]] assign_names_wf [OF assms(2,3)]
    by (auto simp: context_ready_def unfinished_def)
  obtain per_thread where "k \<in> sampled_keys ?d per_thread"
    using k d sampled_processes_eq [OF assms(1) d(1)] by (auto simp: c finish_def)
  moreover have "process_key_of c = process_key_of ?d" "pc_threads c = pc_threads ?d"
    by (simp_all add: c finish_def process_key_of_def fun_eq_iff)
  ultimately show ?thesis unfolding sampled_keys_def by auto
qed

section \<open>How samples are filed\<close>

text \<open>What the context keeps of a sample, with the stack in place of its index.\<close>

definition sample_view :: "stack_cache \<Rightarrow> sample_info \<Rightarrow> u64 \<times> u64 option \<times> u64 list option" where
  "sample_view cache s =
     (info_timestamp s, info_instruction_pointer s, map_option (stack_get cache) (info_stack_index s))"

definition filed_sample ::
  "(nat \<times> nat) list \<Rightarrow> nat \<Rightarrow> u32 \<Rightarrow> perf_event \<Rightarrow> (u64 \<times> u64 option \<times> u64 list option) list" where
  "filed_sample sources src tid e =
     (case e of
        Sample_event s \<Rightarrow>
          (case (sample_tid s, sample_time s) of
             (Some t, Some time) \<Rightarrow>
               (if t = tid \<and> map_of sources (sample_attributes s) = Some src then [(time, sample_ip s, sample_ips s)] else [])
           | _ \<Rightarrow> [])
      | _ \<Rightarrow> [])"

definition sources_known :: "(nat \<times> nat) list \<Rightarrow> perf_event \<Rightarrow> bool" where
  "sources_known sources e \<longleftrightarrow>
     (case e of
        Sample_event s \<Rightarrow> sample_tid s = None \<or> sample_time s = None \<or> map_of sources (sample_attributes s) \<noteq> None
      | _ \<Rightarrow> True)"

definition index_ok :: "stack_cache \<Rightarrow> sample_info \<Rightarrow> bool" where
  "index_ok cache s \<longleftrightarrow> (\<forall>i. info_stack_index s = Some i \<longrightarrow> i < length (stacks cache))"

definition indices_ok :: "perf_context \<Rightarrow> bool" where
  "indices_ok c \<longleftrightarrow> (\<forall>src tid. \<forall>s \<in> set (samples_of c tid src). index_ok (pc_stacks c) s)"

definition samples_filed :: "(u64 \<Rightarrow> u64) \<Rightarrow> perf_event list \<Rightarrow> perf_context \<Rightarrow> bool" where
  "samples_filed ip_hash es c \<longleftrightarrow>
     cache_wf ip_hash (pc_stacks c) \<and> indices_ok c \<and>
     (\<forall>src \<ge> length (pc_sample_sources c). pc_samples c src = None) \<and>
     (\<forall>x \<in> set (pc_sample_sources c). snd x < length (pc_sample_sources c)) \<and>
     (\<forall>e \<in> set es. sources_known (pc_sample_sources c) e) \<and>
     (\<forall>src tid. map (sample_view (pc_stacks c)) (samples_of c tid src) =
        concat (map (filed_sample (pc_sample_sources c) src tid) es))"

lemma samples_filed_same:
  assumes "samples_filed ip_hash es c"
    "\<And>sources src tid. filed_sample sources src tid e = []" "\<And>sources. sources_known sources e"
    "pc_samples c' = pc_samples c" "pc_stacks c' = pc_stacks c" "pc_sample_sources c' = pc_sample_sources c"
  shows "samples_filed ip_hash (es @ [e]) c'"
proof -
  have "samples_of c' = samples_of c" using assms(4) by (simp add: samples_of_def [abs_def])
  then show ?thesis using assms by (simp add: samples_filed_def indices_ok_def)
qed

text \<open>A new source does not change what is filed under the others.\<close>

lemma filed_sample_extend:
  assumes "sources_known sources e" "map_of sources key = None"
  shows "filed_sample (sources @ [(key, n)]) src tid e = filed_sample sources src tid e"
proof -
  have "map_of (sources @ [(key, n)]) k = map_of sources k" if "map_of sources k \<noteq> None" for k
    using that by (auto simp: map_add_def split: option.split)
  with assms show ?thesis
    by (auto simp: filed_sample_def sources_known_def split: perf_event.splits option.splits)
qed

lemma sources_known_extend:
  "sources_known sources e \<Longrightarrow> sources_known (sources @ [x]) e"
  by (auto simp: sources_known_def map_add_def split: perf_event.splits option.splits)

lemma samples_filed_source:
  assumes f: "samples_filed ip_hash es c" and new: "map_of (pc_sample_sources c) key = None"
  shows "samples_filed ip_hash es
    (c\<lparr>pc_sample_sources := pc_sample_sources c @ [(key, length (pc_sample_sources c))], pc_event_sources := m\<rparr>)"
proof -
  let ?c = "c\<lparr>pc_sample_sources := pc_sample_sources c @ [(key, length (pc_sample_sources c))], pc_event_sources := m\<rparr>"
  have s: "samples_of ?c = samples_of c" by (simp add: samples_of_def [abs_def])
  have known: "\<forall>e \<in> set es. sources_known (pc_sample_sources c) e" using f by (simp add: samples_filed_def)
  have "concat (map (filed_sample (pc_sample_sources c @ [(key, n)]) src tid) es) =
      concat (map (filed_sample (pc_sample_sources c) src tid) es)" for src tid n
    using known new by (intro arg_cong [where f = concat] map_cong) (auto intro: filed_sample_extend)
  with f s sources_known_extend show ?thesis
    by (auto simp: samples_filed_def indices_ok_def less_SucI)
qed

lemma sample_view_insert:
  assumes "cache_wf ip_hash cache" "stack_insert ip_hash cache stack = (cache', i)"
    "index_ok cache s"
  shows "sample_view cache' s = sample_view cache s"
  using stack_insert_cases [OF assms(1,2)] assms(3)
  by (cases "info_stack_index s") (auto simp: sample_view_def stack_get_def nth_append index_ok_def split: if_splits)

text \<open>Filing one sample under a source that is known.\<close>

lemma samples_filed_store:
  assumes f: "samples_filed ip_hash es c"
    and e: "sample_tid e = Some tid" "sample_time e = Some time" "map_of (pc_sample_sources c) (sample_attributes e) = Some src"
    and ins: "(case sample_ips e of None \<Rightarrow> (pc_stacks c, None) | Some ips \<Rightarrow> apsnd Some (stack_insert ip_hash (pc_stacks c) ips)) =
      (cache, index)"
    and c': "pc_stacks c' = cache" "pc_sample_sources c' = pc_sample_sources c"
      "pc_samples c' = (pc_samples c)(src \<mapsto> per_thread(tid \<mapsto> store_sample
         \<lparr>info_thread_id = tid, info_timestamp = time, info_instruction_pointer = sample_ip e, info_stack_index = index\<rparr>
         (case per_thread tid of None \<Rightarrow> empty_storage | Some s \<Rightarrow> s)))"
      "per_thread = (case pc_samples c src of None \<Rightarrow> Map.empty | Some m \<Rightarrow> m)"
  shows "samples_filed ip_hash (es @ [Sample_event e]) c'"
proof -
  let ?s = "\<lparr>info_thread_id = tid, info_timestamp = time, info_instruction_pointer = sample_ip e, info_stack_index = index\<rparr>"
  have wf: "cache_wf ip_hash (pc_stacks c)" and ok: "indices_ok c" using f by (simp_all add: samples_filed_def)
  have "src < length (pc_sample_sources c)" using f e(3) by (fastforce simp: samples_filed_def dest: map_of_SomeD)
  have of: "samples_of c' t k = samples_of c t k @ (if t = tid \<and> k = src then [?s] else [])" for t k
    by (auto simp: samples_of_def c' store_sample_def empty_storage_def split: option.splits)
  have cache: "cache_wf ip_hash cache"
    "\<And>i. i < length (stacks (pc_stacks c)) \<Longrightarrow> i < length (stacks cache)"
    "\<And>s. index_ok (pc_stacks c) s \<Longrightarrow>
      sample_view cache s = sample_view (pc_stacks c) s"
    "sample_view cache ?s = (time, sample_ip e, sample_ips e)"
    "index_ok cache ?s"
  proof -
    have "cache_wf ip_hash cache \<and> (\<forall>i < length (stacks (pc_stacks c)). i < length (stacks cache)) \<and>
        (\<forall>s. index_ok (pc_stacks c) s \<longrightarrow>
          sample_view cache s = sample_view (pc_stacks c) s) \<and>
        sample_view cache ?s = (time, sample_ip e, sample_ips e) \<and>
        index_ok cache ?s"
    proof (cases "sample_ips e")
      case None
      with ins wf show ?thesis by (auto simp: sample_view_def index_ok_def)
    next
      case (Some ips)
      then obtain i where i: "stack_insert ip_hash (pc_stacks c) ips = (cache, i)" "index = Some i"
        using ins by (cases "stack_insert ip_hash (pc_stacks c) ips") auto
      then show ?thesis
        using stack_insert_cases [OF wf i(1)] cache_wf_insert [OF wf i(1)] sample_view_insert [OF wf i(1)] Some
        by (auto simp: sample_view_def stack_get_def index_ok_def split: if_splits)
    qed
    then show "cache_wf ip_hash cache"
      "\<And>i. i < length (stacks (pc_stacks c)) \<Longrightarrow> i < length (stacks cache)"
      "\<And>s. index_ok (pc_stacks c) s \<Longrightarrow>
        sample_view cache s = sample_view (pc_stacks c) s"
      "sample_view cache ?s = (time, sample_ip e, sample_ips e)"
      "index_ok cache ?s" by blast+
  qed
  have "indices_ok c'"
    using ok cache(2,5) by (auto simp: indices_ok_def of c'(1) index_ok_def split: if_splits)
  moreover have "map (sample_view cache) (samples_of c' t k) =
      concat (map (filed_sample (pc_sample_sources c) k t) (es @ [Sample_event e]))" for t k
  proof -
    have "map (sample_view cache) (samples_of c t k) = map (sample_view (pc_stacks c)) (samples_of c t k)"
      using ok cache(3) by (intro map_cong) (auto simp: indices_ok_def)
    also have "\<dots> = concat (map (filed_sample (pc_sample_sources c) k t) es)" using f by (simp add: samples_filed_def)
    finally show ?thesis using cache(4) by (auto simp: of filed_sample_def e)
  qed
  moreover have "sources_known (pc_sample_sources c) (Sample_event e)" using e by (simp add: sources_known_def)
  ultimately show ?thesis
    using f cache(1) \<open>src < length (pc_sample_sources c)\<close> by (auto simp: samples_filed_def c')
qed

lemma handle_event_filed:
  assumes f: "samples_filed ip_hash es c" and run: "handle_event ip_hash e c = Some c'"
  shows "samples_filed ip_hash (es @ [e]) c'"
proof (cases e)
  case (Comm_event pid tid time name)
  with run have "pc_samples c' = pc_samples c" "pc_stacks c' = pc_stacks c" "pc_sample_sources c' = pc_sample_sources c"
    by (auto simp: handle_event_def handle_comm_def Let_def split: option.splits)
  with f show ?thesis by (intro samples_filed_same) (simp_all add: Comm_event filed_sample_def sources_known_def)
next
  case (Fork_event pid tid time)
  with run have "pc_samples c' = pc_samples c" "pc_stacks c' = pc_stacks c" "pc_sample_sources c' = pc_sample_sources c"
    by (auto simp: handle_event_def handle_fork_def Let_def)
  with f show ?thesis by (intro samples_filed_same) (simp_all add: Fork_event filed_sample_def sources_known_def)
next
  case (Mmap2_event pid addr len pgoff bid filename time)
  with run have "pc_samples c' = pc_samples c" "pc_stacks c' = pc_stacks c" "pc_sample_sources c' = pc_sample_sources c"
    by (auto simp: handle_event_def handle_mmap2_def Let_def split: option.splits)
  with f show ?thesis by (intro samples_filed_same) (simp_all add: Mmap2_event filed_sample_def sources_known_def)
next
  case (Sample_event s)
  show ?thesis
  proof (cases "sample_tid s = None \<or> sample_time s = None")
    case True
    with run have "c' = c" by (auto simp: Sample_event handle_event_def handle_sample_def split: option.splits)
    with f True show ?thesis
      by (intro samples_filed_same) (auto simp: Sample_event filed_sample_def sources_known_def split: option.split)
  next
    case False
    then obtain tid time where t: "sample_tid s = Some tid" "sample_time s = Some time" by auto
    obtain c1 src where c1: "samples_filed ip_hash es c1" "map_of (pc_sample_sources c1) (sample_attributes s) = Some src"
      and c': "c' = (let per_thread = (case pc_samples c1 src of None \<Rightarrow> Map.empty | Some m \<Rightarrow> m);
          storage = (case per_thread tid of None \<Rightarrow> empty_storage | Some s \<Rightarrow> s);
          (stacks1, index) = (case sample_ips s of
             None \<Rightarrow> (pc_stacks c1, None) | Some ips \<Rightarrow> apsnd Some (stack_insert ip_hash (pc_stacks c1) ips));
          info = \<lparr>info_thread_id = tid, info_timestamp = time, info_instruction_pointer = sample_ip s, info_stack_index = index\<rparr>
        in c1\<lparr>pc_samples := (pc_samples c1)(src \<mapsto> per_thread(tid \<mapsto> store_sample info storage)), pc_stacks := stacks1,
             pc_sources_with_stacks := (if sample_ips s = None then pc_sources_with_stacks c1
               else insert src (pc_sources_with_stacks c1))\<rparr>)"
    proof (cases "map_of (pc_sample_sources c) (sample_attributes s)")
      case None
      let ?n = "length (pc_sample_sources c)"
      let ?c = "c\<lparr>pc_sample_sources := pc_sample_sources c @ [(sample_attributes s, ?n)],
          pc_event_sources := (pc_event_sources c)(sample_event_id s \<mapsto> ?n)\<rparr>"
      have "map_of (pc_sample_sources ?c) (sample_attributes s) = Some ?n" using None by (simp add: map_add_def)
      moreover have "samples_filed ip_hash es ?c" by (rule samples_filed_source [OF f None])
      ultimately show ?thesis
        using run None t by (cases "sample_ips s"; intro that [of ?c ?n])
          (simp_all add: Sample_event handle_event_def handle_sample_def Let_def split_beta)
    next
      case (Some k)
      with run f t show ?thesis
        by (cases "sample_ips s"; intro that [of c k]) (simp_all add: Sample_event handle_event_def handle_sample_def Let_def split_beta)
    qed
    obtain cache index where i: "(case sample_ips s of None \<Rightarrow> (pc_stacks c1, None)
        | Some ips \<Rightarrow> apsnd Some (stack_insert ip_hash (pc_stacks c1) ips)) = (cache, index)" by fastforce
    show ?thesis unfolding Sample_event
      by (rule samples_filed_store [OF c1(1) t c1(2) i]) (simp_all add: c' i Let_def)
  qed
qed

lemma handle_events_filed:
  "samples_filed ip_hash es0 c \<Longrightarrow> handle_events ip_hash es c = Some c' \<Longrightarrow> samples_filed ip_hash (es0 @ es) c'"
proof (induction es arbitrary: es0 c)
  case (Cons e es)
  obtain c1 where "handle_event ip_hash e c = Some c1" "handle_events ip_hash es c1 = Some c'"
    using Cons.prems(2) by (auto simp: bind_eq_Some_conv)
  with Cons.IH [OF handle_event_filed [OF Cons.prems(1)]] show ?case by simp
qed simp

lemma samples_filed_empty: "samples_filed ip_hash [] empty_context"
  by (simp add: samples_filed_def empty_context_def cache_wf_empty indices_ok_def samples_of_def)

section \<open>Lookups in the finished context\<close>

definition distinct_times :: "(u32, u64, 'd) history \<Rightarrow> bool" where
  "distinct_times h \<longleftrightarrow> (\<forall>i. distinct (map timestamp (history_entries h i)))"

lemma find_entry:
  assumes "history_wf h" "history_find_at h i t strict = Some e"
  shows "e \<in> set (history_entries h i)" "entry_id e = i"
proof -
  show "e \<in> set (history_entries h i)" using history_timeline.find_Some [OF assms] by auto
  then obtain es where "h i = Some es" "e \<in> set es" by (cases "h i") (auto simp: history_entries_def)
  with history_wfD(2) [OF assms(1)] show "entry_id e = i" by blast
qed

lemma find_own_time:
  assumes "history_wf h" "e \<in> set (history_entries h i)"
  shows "\<exists>x. history_find_at h i (timestamp e) strict = Some x \<and> timestamp x = timestamp e"
proof -
  have "history_find_at h i (timestamp e) True \<noteq> None"
    using history_timeline.find_strict_None [OF assms(1)] assms(2) by (metis less_irrefl)
  then obtain x where x: "history_find_at h i (timestamp e) True = Some x" by blast
  moreover have "timestamp x = timestamp e"
    using history_timeline.find_Some [OF assms(1) x] assms(2) by (auto intro: antisym)
  ultimately show ?thesis using history_timeline.find_strict_lenient [OF assms(1) x] by (cases strict) auto
qed

lemma find_own:
  assumes "history_wf h" "distinct_times h" "e \<in> set (history_entries h i)"
  shows "history_find_at h i (timestamp e) strict = Some e"
proof -
  obtain x where x: "history_find_at h i (timestamp e) strict = Some x" "timestamp x = timestamp e"
    using find_own_time [OF assms(1,3)] by blast
  then have "x = e"
    using find_entry(1) [OF assms(1) x(1)] assms(2,3) unfolding distinct_times_def distinct_map inj_on_def by blast
  with x(1) show ?thesis by simp
qed

lemma find_some:
  assumes "history_wf h" "e \<in> set (history_entries h i)"
  shows "\<exists>x. history_find_at h i t False = Some x"
proof -
  have "history_find_at h i t False \<noteq> None"
    using history_timeline.find_lenient_None [OF assms(1)] assms(2) by (metis empty_iff list.set(1))
  then show ?thesis by blast
qed

lemma sorted_partition:
  assumes "sorted (map f xs)"
  shows "takeWhile (\<lambda>x. f x < a) xs = filter (\<lambda>x. f x < a) xs"
    "takeWhile (\<lambda>x. f x \<le> a) xs = filter (\<lambda>x. f x \<le> a) xs"
    "dropWhile (\<lambda>x. f x < a) xs = filter (\<lambda>x. a \<le> f x) xs"
  using assms
  by (induction xs; auto simp: not_le not_less intro!: filter_False [symmetric] filter_True [symmetric];
      meson leD order_trans)+

lemma sorted_interval:
  assumes "sorted (map f xs)"
  shows "drop (length (takeWhile (\<lambda>x. f x < a) xs)) (takeWhile (\<lambda>x. f x \<le> b) xs) =
    filter (\<lambda>x. a \<le> f x \<and> f x \<le> b) xs"
proof (cases "a \<le> b")
  case True
  let ?ys = "filter (\<lambda>x. f x \<le> b) xs"
  have ys: "sorted (map f ?ys)" using assms by (rule sorted_filter)
  have "filter (\<lambda>x. f x < a) xs = filter (\<lambda>x. f x < a) ?ys" using True by (auto intro!: filter_cong)
  then have "drop (length (takeWhile (\<lambda>x. f x < a) xs)) (takeWhile (\<lambda>x. f x \<le> b) xs) =
      drop (length (takeWhile (\<lambda>x. f x < a) ?ys)) ?ys"
    by (simp add: sorted_partition(1,2) [OF assms] sorted_partition(1) [OF ys])
  also have "\<dots> = filter (\<lambda>x. a \<le> f x) ?ys"
    unfolding drop_length_takeWhile by (rule sorted_partition(3) [OF ys])
  finally show ?thesis by (simp add: conj_commute)
next
  case False
  then have "filter (\<lambda>x. f x \<le> b) xs = filter (\<lambda>x. f x \<le> b) (filter (\<lambda>x. f x < a) xs)" by (auto intro!: filter_cong)
  then have "length (filter (\<lambda>x. f x \<le> b) xs) \<le> length (filter (\<lambda>x. f x < a) xs)" by (metis length_filter_le)
  with False show ?thesis
    by (auto simp: sorted_partition(1,2) [OF assms] intro!: filter_False [symmetric])
qed

text \<open>What the binary searches for both ends of an interval cut out of a sorted list.\<close>

lemma sorted_span:
  fixes f :: "'a \<Rightarrow> 'b::linorder"
  assumes "sorted (map f xs)"
  shows "(let first = lower_bound_index f xs a; last = (case b of None \<Rightarrow> length xs | Some t \<Rightarrow> upper_bound_index f xs t)
     in if first = length xs then [] else if first > last then [] else take (last - first) (drop first xs)) =
    filter (\<lambda>s. a \<le> f s \<and> (case b of None \<Rightarrow> True | Some t \<Rightarrow> f s \<le> t)) xs"
proof -
  let ?low = "\<lambda>s. f s < a"
  have drop: "drop (length (takeWhile ?low xs)) xs = filter (\<lambda>s. a \<le> f s) xs"
    unfolding drop_length_takeWhile by (rule sorted_partition(3) [OF assms])
  have none: "filter (\<lambda>s. a \<le> f s) xs = []" if "length (takeWhile ?low xs) = length xs"
    using drop that by simp
  show ?thesis
  proof (cases b)
    case None
    have "length (filter (\<lambda>s. a \<le> f s) xs) = length xs - length (takeWhile ?low xs)"
      using arg_cong [OF drop, of length] by simp
    then show ?thesis using None none
      by (auto simp: Let_def lower_bound_index_def drop filter_empty_conv not_less length_takeWhile_le)
  next
    case (Some t)
    let ?up = "\<lambda>s. f s \<le> t"
    have cut: "take (length (takeWhile ?up xs) - length (takeWhile ?low xs)) (drop (length (takeWhile ?low xs)) xs) =
        filter (\<lambda>s. a \<le> f s \<and> f s \<le> t) xs"
      by (simp add: sorted_interval [OF assms, symmetric] take_length_takeWhile flip: drop_take)
    then show ?thesis
      using Some none by (auto simp: Let_def lower_bound_index_def upper_bound_index_def filter_empty_conv)
  qed
qed

lemma thread_samples_interval:
  assumes "sorted (map info_timestamp (samples_of c tid src))"
  shows "thread_samples c tid a b src = filter (\<lambda>s. a \<le> info_timestamp s \<and>
    (case b of None \<Rightarrow> True | Some t \<Rightarrow> info_timestamp s \<le> t)) (samples_of c tid src)"
  unfolding thread_samples_def Let_def by (rule sorted_span [OF assms, unfolded Let_def])

lemma finish_modules: "pc_modules (finish ord eo c) = pc_modules c"
proof -
  have "pc_modules (assign_names ord c) = pc_modules c"
    unfolding assign_names_def Let_def
    by (intro foldl_invariant [where P = "\<lambda>d. pc_modules d = pc_modules c"])
      (auto simp: name_process_def name_thread_def Let_def)
  then show ?thesis
    by (simp add: finish_def find_sampled_processes_def revert_event_sources_def connect_threads_def assign_ids_def
        split: prod.split)
qed

lemma finish_samples: "samples_of (finish ord eo c) = samples_of c"
proof -
  have "pc_samples (assign_names ord c) = pc_samples c"
    unfolding assign_names_def Let_def
    by (intro foldl_invariant [where P = "\<lambda>d. pc_samples d = pc_samples c"])
      (auto simp: name_process_def name_thread_def Let_def)
  then have "pc_samples (finish ord eo c) = pc_samples c"
    by (simp add: finish_def find_sampled_processes_def revert_event_sources_def assign_ids_def split: prod.split)
  then show ?thesis by (simp add: samples_of_def [abs_def])
qed

text \<open>The times of the samples, in the order of the file.\<close>

definition sample_times :: "perf_event list \<Rightarrow> u64 list" where
  "sample_times es = concat (map (\<lambda>e. case e of
      Sample_event s \<Rightarrow> (case sample_time s of None \<Rightarrow> [] | Some t \<Rightarrow> [t]) | _ \<Rightarrow> []) es)"

lemma filed_times:
  "sorted (sample_times es) \<Longrightarrow> sorted (map fst (concat (map (filed_sample sources src tid) es))) \<and>
     set (map fst (concat (map (filed_sample sources src tid) es))) \<subseteq> set (sample_times es)"
proof (induction es)
  case (Cons e es)
  have e: "map fst (filed_sample sources src tid e) = [] \<or>
      map fst (filed_sample sources src tid e) = sample_times [e]"
    by (auto simp: filed_sample_def sample_times_def split: perf_event.split option.split)
  have es: "sample_times (e # es) = sample_times [e] @ sample_times es" by (simp add: sample_times_def)
  with Cons.prems have "sorted (sample_times es)" "sorted (sample_times [e])"
    "\<forall>x \<in> set (sample_times [e]). \<forall>y \<in> set (sample_times es). x \<le> y"
    by (simp_all add: sorted_append)
  moreover obtain own others where split: "map fst (filed_sample sources src tid e) = own"
      "map fst (concat (map (filed_sample sources src tid) es)) = others" by blast
  moreover have "map fst (concat (map (filed_sample sources src tid) (e # es))) = own @ others"
    using split by simp
  moreover have "sorted others \<and> set others \<subseteq> set (sample_times es)" using Cons.IH calculation(1) split by blast
  moreover have "own = [] \<or> own = sample_times [e]" using e split by blast
  ultimately show ?case unfolding es by (elim disjE) (auto simp: sorted_append subset_iff)
qed (simp add: sample_times_def)

lemma stored_samples_sorted:
  assumes "handle_events ip_hash es empty_context = Some c" "sorted (sample_times es)"
  shows "sorted (map info_timestamp (samples_of (finish ord eo c) tid src))"
proof -
  have "map info_timestamp (samples_of c tid src) = map fst (map (sample_view (pc_stacks c)) (samples_of c tid src))"
    by (simp add: sample_view_def)
  also have "map (sample_view (pc_stacks c)) (samples_of c tid src) =
      concat (map (filed_sample (pc_sample_sources c) src tid) es)"
    using handle_events_filed [OF samples_filed_empty assms(1)] by (simp add: samples_filed_def)
  finally show ?thesis using filed_times [OF assms(2)] unfolding finish_samples by metis
qed

lemma found_process_id:
  assumes "handle_events ip_hash es empty_context = Some c0" "c = finish ord eo c0" "key_order_spec ord"
    "history_find_at (pc_processes c) i t strict = Some p"
  shows "life_unique_id (payload p) = Some (unique_id_of p)"
proof -
  have "context_wf c0" "unfinished c0" using handle_events_wf [OF context_wf_empty assms(1)] by auto
  then have "context_ready c" unfolding assms(2) by (rule finish_ready [OF assms(3)])
  then have "history_wf (pc_processes c)" "ids_assigned (pc_processes c) (pc_process_keys c)"
    by (simp_all add: context_ready_def)
  with find_entry(1) [OF _ assms(4)] show ?thesis by (fastforce simp: ids_assigned_def unique_id_of_def)
qed

lemma sampled_process_lookups:
  assumes run: "handle_events ip_hash es empty_context = Some c0" and c: "c = finish ord eo c0"
    and ord: "key_order_spec ord" and times: "distinct_times (pc_processes c)" and k: "k \<in> pc_sampled_processes c"
  shows "\<exists>p ts. history_find_at (pc_processes c) (fst k) (snd k) False = Some p \<and>
    process_id_to_key c (unique_id_of p) = Some k \<and>
    get_process_threads c (unique_id_of p) = Some ts \<and> ts \<noteq> [] \<and>
    (\<forall>t \<in> set ts. \<exists>tk th. thread_id_to_key c t = Some tk \<and> history_find_at (pc_threads c) (fst tk) (snd tk) False = Some th)"
proof -
  have wf: "context_wf c0" "unfinished c0" using handle_events_wf [OF context_wf_empty run] by auto
  have ready: "context_ready c" unfolding c by (rule finish_ready [OF ord wf])
  then have h: "history_wf (pc_processes c)" "history_wf (pc_threads c)"
      "ids_assigned (pc_processes c) (pc_process_keys c)" "ids_assigned (pc_threads c) (pc_thread_keys c)"
      "threads_covered (pc_threads c) (pc_threads_per_process_id c)"
    by (auto simp: context_ready_def)
  obtain i e where e: "e \<in> set (history_entries (pc_threads c) i)" "process_key_of c e = Some k"
    using finish_sampled [OF ord wf c k] by blast
  then obtain p where p: "history_find_at (pc_processes c) (thread_process_id (payload e)) (timestamp e) False = Some p"
      "k = (entry_id p, timestamp p)"
    by (auto simp: process_key_of_def)
  note entry = find_entry [OF h(1) p(1)]
  have own: "history_find_at (pc_processes c) (fst k) (snd k) False = Some p"
    using find_own [OF h(1) times entry(1)] entry(2) p(2) by simp
  have key: "process_id_to_key c (unique_id_of p) = Some k"
    using h(3) entry p(2) by (fastforce simp: ids_assigned_def unique_id_of_def process_id_to_key_def)
  obtain ks where ks: "pc_threads_per_process_id c (thread_process_id (payload e)) = Some ks" "(i, timestamp e) \<in> set ks"
    using h(5) e(1) unfolding threads_covered_def by blast
  obtain th where "history_find_at (pc_threads c) i (timestamp e) False = Some th" using find_some [OF h(2) e(1)] by blast
  then have "thread_of_process c (thread_process_id (payload e), (i, timestamp e)) = Some (unique_id_of p, unique_id_of th)"
    using p(1) by (simp add: thread_of_process_def)
  then have "unique_id_of th \<in> members (pc_threads_per_process c) (unique_id_of p)"
    unfolding finish_threads [OF ord wf c] using ks by force
  then obtain ts where ts: "get_process_threads c (unique_id_of p) = Some ts" "unique_id_of th \<in> set ts"
    by (cases "pc_threads_per_process c (unique_id_of p)") (auto simp: members_def get_process_threads_def)
  then have "ts \<noteq> []" by auto
  have "\<exists>tk x. thread_id_to_key c t = Some tk \<and> history_find_at (pc_threads c) (fst tk) (snd tk) False = Some x"
    if "t \<in> set ts" for t
  proof -
    have "t \<in> members (pc_threads_per_process c) (unique_id_of p)"
      using that ts(1) by (simp add: members_def get_process_threads_def)
    then obtain y where "thread_of_process c y = Some (unique_id_of p, t)"
      unfolding finish_threads [OF ord wf c] by blast
    then obtain j s x where x: "history_find_at (pc_threads c) j s False = Some x" "t = unique_id_of x"
      by (auto simp: thread_of_process_def split: option.splits)
    note x' = find_entry(1) [OF h(2) x(1)]
    have "thread_id_to_key c t = Some (j, timestamp x)"
      using h(4) x' x(2) by (fastforce simp: ids_assigned_def unique_id_of_def thread_id_to_key_def)
    with find_some [OF h(2) x'] show ?thesis by (intro exI [of _ "(j, timestamp x)"]) auto
  qed
  with own key ts(1) \<open>ts \<noteq> []\<close> show ?thesis by blast
qed

section \<open>Properties\<close>


text \<open>C21: Unique ids round trip: in a finished context every process and thread a lookup finds has a unique
  id, the id leads to the key of the entry, and a lookup with the key finds that entry again. (Entries
  of one id at the same time would share a key.)\<close>
theorem unique_ids_roundtrip:
  assumes run: "handle_events ip_hash es empty_context = Some c0" and c: "c = finish ord eo c0"
    and ord: "key_order_spec ord" and times: "distinct_times (pc_processes c)" "distinct_times (pc_threads c)"
  shows "(history_find_at (pc_processes c) i t strict = Some p \<longrightarrow>
      process_id_to_key c (unique_id_of p) = Some (entry_id p, timestamp p) \<and>
      history_find_at (pc_processes c) (entry_id p) (timestamp p) strict = Some p) \<and>
    (history_find_at (pc_threads c) j t strict = Some th \<longrightarrow>
      thread_id_to_key c (unique_id_of th) = Some (entry_id th, timestamp th) \<and>
      history_find_at (pc_threads c) (entry_id th) (timestamp th) strict = Some th)"
proof -
  have wf: "context_wf c0" "unfinished c0"
    using handle_events_wf [OF context_wf_empty run] by auto
  have ready: "context_ready c" unfolding c by (rule finish_ready [OF ord wf])
  then have h: "history_wf (pc_processes c)" "history_wf (pc_threads c)"
      "ids_assigned (pc_processes c) (pc_process_keys c)" "ids_assigned (pc_threads c) (pc_thread_keys c)"
    by (auto simp: context_ready_def)
  have own: "keys (unique_id_of e) = Some (entry_id e, timestamp e) \<and> history_find_at h (entry_id e) (timestamp e) strict = Some e"
    if "history_find_at h i t strict = Some e" "history_wf h" "ids_assigned h keys" "distinct_times h"
    for h :: "(u32, u64, 'x perf_life_scheme) history" and keys i e
    using find_entry [OF that(2,1)] find_own [OF that(2,4)] that(3)
    by (fastforce simp: ids_assigned_def unique_id_of_def)
  show ?thesis
    using own [OF _ h(1,3) times(1)] own [OF _ h(2,4) times(2)]
    by (auto simp: process_id_to_key_def thread_id_to_key_def)
qed


text \<open>A name that is older than the first entry of its process is lost: \<open>finish\<close> finds no entry at its time
  and tries to insert one before the others, which the history does not do. So a process that was there
  before the recording and whose id is used again later loses its name, and its samples are shown under
  the name of the later process.\<close>

lemma early_name_lost:
  assumes "history_wf (pc_processes c)" "entry_id e \<in> dom (pc_processes c)"
    "\<forall>x \<in> set (history_entries (pc_processes c) (entry_id e)). timestamp e < timestamp x"
  shows "name_process c e = c"
proof -
  have "history_find_at (pc_processes c) (entry_id e) (timestamp e) True = None"
    using history_timeline.find_strict_None [OF assms(1)] assms(3) by blast
  moreover obtain es where es: "pc_processes c (entry_id e) = Some es" using assms(2) by blast
  have "es \<noteq> []" by (rule history_wfD(1) [OF assms(1) es])
  then have "\<not> timestamp (last es) \<le> timestamp e"
    using assms(3) es by (auto simp: history_entries_def not_le)
  then have "fst (history_insert eq (pc_processes c) (entry_id e) (timestamp e) p) = pc_processes c" for eq p
    using es \<open>es \<noteq> []\<close> by (simp add: history_insert_def Let_def map_upd_triv)
  ultimately show ?thesis by (simp add: name_process_def needs_name_def)
qed

section \<open>Example\<close>

text \<open>A process with a second thread, and a sample of that thread.\<close>

definition example_event :: sample_event where
  "example_event = \<lparr>sample_attributes = 5, sample_event_id = None, sample_ip = Some 0x1010, sample_tid = Some 8,
     sample_time = Some 120, sample_ips = Some [0x1010, 0x1020]\<rparr>"

definition example_events :: "perf_event list" where
  "example_events = [Fork_event 7 7 100, Comm_event 7 7 (Some 101) ''app'', Fork_event 7 8 110,
     Mmap2_event 7 0x1000 0x100 0 None ''app.so'' (Some 102), Sample_event example_event]"

definition sorted_order :: key_order where
  "sorted_order k A = sorted_list_of_set A"

lemma sorted_order_spec: "key_order_spec sorted_order"
  by (simp add: key_order_spec_def sorted_order_def)

definition example_context :: perf_context where
  "example_context = the (handle_events (\<lambda>ip. ip) example_events empty_context)"

lemmas context_steps = handle_event_def handle_comm_def handle_fork_def handle_mmap2_def handle_sample_def Let_def
  history_insert_def unnamed_process_def named_process_def new_thread_def same_thread_def same_process_def add_to_set_def
  store_sample_def empty_storage_def insort_insert_key_def

lemma example_mmap: "\<exists>m. mm_insert same_module mm_empty \<lparr>mi_base = 0x1000, mi_size = 0x100,
    mi_payload = \<lparr>perf_filename = ''app.so'', perf_page_offset = 0, perf_build_id = None\<rparr>\<rparr> (102 :: u64) = Some m"
  using mm_insert_wf [OF map_wf_empty] by force

lemma recording_run:
  "handle_events (\<lambda>ip. ip) example_events empty_context = Some example_context"
  "pc_process_names example_context = [7 \<mapsto> [\<lparr>entry_id = 7, timestamp = 101, payload = named_process (Some ''app'')\<rparr>]]"
  "pc_thread_names example_context = [7 \<mapsto> [\<lparr>entry_id = 7, timestamp = 101, payload = new_thread 7 (Some ''app'')\<rparr>]]"
  "pc_processes example_context = [7 \<mapsto> [\<lparr>entry_id = 7, timestamp = 100, payload = unnamed_process\<rparr>]]"
  "pc_threads example_context = [7 \<mapsto> [\<lparr>entry_id = 7, timestamp = 100, payload = new_thread 7 None\<rparr>],
      8 \<mapsto> [\<lparr>entry_id = 8, timestamp = 110, payload = new_thread 7 None\<rparr>]]"
  "pc_threads_per_process_id example_context = [7 \<mapsto> [(7, 100), (8, 110)]]"
  "pc_sample_sources example_context = [(5, 0)]"
  "pc_samples example_context 0 = Some [8 \<mapsto> \<lparr>first_sample_time = 120, last_sample_time = 120,
      stored_samples = [\<lparr>info_thread_id = 8, info_timestamp = 120, info_instruction_pointer = Some 0x1010, info_stack_index = Some 0\<rparr>]\<rparr>]"
proof -
  obtain m where m: "mm_insert same_module mm_empty \<lparr>mi_base = 0x1000, mi_size = 0x100,
      mi_payload = \<lparr>perf_filename = ''app.so'', perf_page_offset = 0, perf_build_id = None\<rparr>\<rparr> (102 :: u64) = Some m"
    using example_mmap by blast
  obtain cache where i: "stack_insert (\<lambda>ip. ip) empty_stack_cache [0x1010, 0x1020] = (cache, 0)"
    using stack_insert_cases [OF cache_wf_empty, of "\<lambda>ip. ip" "[0x1010, 0x1020]"]
    by (cases "stack_insert (\<lambda>ip. ip) empty_stack_cache [0x1010, 0x1020]") (auto simp: empty_stack_cache_def)
  let ?c = "handle_events (\<lambda>ip. ip) example_events empty_context"
  have run: "\<exists>c. ?c = Some c \<and>
    pc_process_names c = [7 \<mapsto> [\<lparr>entry_id = 7, timestamp = 101, payload = named_process (Some ''app'')\<rparr>]] \<and>
    pc_thread_names c = [7 \<mapsto> [\<lparr>entry_id = 7, timestamp = 101, payload = new_thread 7 (Some ''app'')\<rparr>]] \<and>
    pc_processes c = [7 \<mapsto> [\<lparr>entry_id = 7, timestamp = 100, payload = unnamed_process\<rparr>]] \<and>
    pc_threads c = [7 \<mapsto> [\<lparr>entry_id = 7, timestamp = 100, payload = new_thread 7 None\<rparr>],
      8 \<mapsto> [\<lparr>entry_id = 8, timestamp = 110, payload = new_thread 7 None\<rparr>]] \<and>
    pc_threads_per_process_id c = [7 \<mapsto> [(7, 100), (8, 110)]] \<and> pc_sample_sources c = [(5, 0)] \<and>
    pc_samples c 0 = Some [8 \<mapsto> \<lparr>first_sample_time = 120, last_sample_time = 120,
      stored_samples = [\<lparr>info_thread_id = 8, info_timestamp = 120, info_instruction_pointer = Some 0x1010, info_stack_index = Some 0\<rparr>]\<rparr>]"
    by (simp add: example_events_def example_event_def context_steps empty_context_def m i)
  then obtain c where c: "?c = Some c" by blast
  then have "example_context = c" by (simp add: example_context_def)
  with run c show "handle_events (\<lambda>ip. ip) example_events empty_context = Some example_context"
    "pc_process_names example_context = [7 \<mapsto> [\<lparr>entry_id = 7, timestamp = 101, payload = named_process (Some ''app'')\<rparr>]]"
    "pc_thread_names example_context = [7 \<mapsto> [\<lparr>entry_id = 7, timestamp = 101, payload = new_thread 7 (Some ''app'')\<rparr>]]"
    "pc_processes example_context = [7 \<mapsto> [\<lparr>entry_id = 7, timestamp = 100, payload = unnamed_process\<rparr>]]"
    "pc_threads example_context = [7 \<mapsto> [\<lparr>entry_id = 7, timestamp = 100, payload = new_thread 7 None\<rparr>],
      8 \<mapsto> [\<lparr>entry_id = 8, timestamp = 110, payload = new_thread 7 None\<rparr>]]"
    "pc_threads_per_process_id example_context = [7 \<mapsto> [(7, 100), (8, 110)]]"
    "pc_sample_sources example_context = [(5, 0)]"
    "pc_samples example_context 0 = Some [8 \<mapsto> \<lparr>first_sample_time = 120, last_sample_time = 120,
      stored_samples = [\<lparr>info_thread_id = 8, info_timestamp = 120, info_instruction_pointer = Some 0x1010, info_stack_index = Some 0\<rparr>]\<rparr>]"
    by simp_all
qed


definition finished_example :: perf_context where
  "finished_example = finish sorted_order (\<lambda>_. [None]) example_context"

lemma named_run:
  "pc_processes (assign_names sorted_order example_context) =
     [7 \<mapsto> [\<lparr>entry_id = 7, timestamp = 100, payload = named_process (Some ''app'')\<rparr>]]"
  "pc_threads (assign_names sorted_order example_context) =
     [7 \<mapsto> [\<lparr>entry_id = 7, timestamp = 100, payload = new_thread 7 (Some ''app'')\<rparr>],
      8 \<mapsto> [\<lparr>entry_id = 8, timestamp = 110, payload = new_thread 7 None\<rparr>]]"
  "pc_sample_sources (assign_names sorted_order example_context) = [(5, 0)]"
  "pc_samples (assign_names sorted_order example_context) = pc_samples example_context"
  by (simp_all add: assign_names_def Let_def all_entries_def sorted_order_def recording_run history_entries_def
      name_process_def name_thread_def needs_name_def history_find_at_def history_modify_def named_process_def
      unnamed_process_def new_thread_def fun_upd_twist)

lemma numbered_run:
  "pc_processes (assign_ids sorted_order (assign_names sorted_order example_context)) =
     [7 \<mapsto> [\<lparr>entry_id = 7, timestamp = 100,
        payload = (named_process (Some ''app''))\<lparr>life_unique_id := Some first_process_id\<rparr>\<rparr>]]"
  "pc_threads (assign_ids sorted_order (assign_names sorted_order example_context)) =
     [7 \<mapsto> [\<lparr>entry_id = 7, timestamp = 100,
        payload = (new_thread 7 (Some ''app''))\<lparr>life_unique_id := Some first_thread_id\<rparr>\<rparr>],
      8 \<mapsto> [\<lparr>entry_id = 8, timestamp = 110,
        payload = (new_thread 7 None)\<lparr>life_unique_id := Some (Suc first_thread_id)\<rparr>\<rparr>]]"
  "pc_sample_sources (assign_ids sorted_order (assign_names sorted_order example_context)) = [(5, 0)]"
  "pc_samples (assign_ids sorted_order (assign_names sorted_order example_context)) = pc_samples example_context"
  by (simp_all add: assign_ids_def named_run sorted_order_def number_id_def Let_def history_entries_def
      named_process_def unnamed_process_def new_thread_def fun_upd_twist)

lemma finished_run:
  "distinct_times (pc_processes finished_example)" "distinct_times (pc_threads finished_example)"
  "pc_sampled_processes finished_example = {(7, 100)}"
proof -
  show "distinct_times (pc_processes finished_example)" "distinct_times (pc_threads finished_example)"
    by (simp_all add: finished_example_def finish_def numbered_run distinct_times_def history_entries_def)
  have "unfinished (assign_names sorted_order example_context)"
    using assign_names_wf(2) handle_events_wf [OF context_wf_empty recording_run(1)] by blast
  then have "pc_sampled_processes (assign_names sorted_order example_context) = {}" by (simp add: unfinished_def)
  then show "pc_sampled_processes finished_example = {(7, 100)}"
    by (simp add: finished_example_def finish_def find_sampled_processes_def numbered_run recording_run(8)
        sampled_by_source_def sorted_order_def history_entries_def overlaps_samples_def process_key_of_def
        history_find_at_def new_thread_def)
qed

lemma numbered_keys:
  "pc_process_keys (assign_ids sorted_order (assign_names sorted_order example_context)) first_process_id = Some (7, 100)"
  by (simp add: assign_ids_def named_run sorted_order_def number_id_def Let_def history_entries_def)

lemma example_modules: "get_modules finished_example 7 \<noteq> None"
proof -
  obtain m where m: "mm_insert same_module mm_empty \<lparr>mi_base = 0x1000, mi_size = 0x100,
      mi_payload = \<lparr>perf_filename = ''app.so'', perf_page_offset = 0, perf_build_id = None\<rparr>\<rparr> (102 :: u64) = Some m"
    using example_mmap by blast
  obtain cache where i: "stack_insert (\<lambda>ip. ip) empty_stack_cache [0x1010, 0x1020] = (cache, 0)"
    using stack_insert_cases [OF cache_wf_empty, of "\<lambda>ip. ip" "[0x1010, 0x1020]"]
    by (cases "stack_insert (\<lambda>ip. ip) empty_stack_cache [0x1010, 0x1020]") (auto simp: empty_stack_cache_def)
  have "pc_modules example_context 7 = Some m"
    by (simp add: example_context_def example_events_def example_event_def context_steps empty_context_def m i)
  then show ?thesis by (simp add: finished_example_def get_modules_def finish_modules)
qed

lemma example_lookup:
  "history_find_at (pc_processes finished_example) 7 t False = Some \<lparr>entry_id = 7, timestamp = 100,
     payload = (named_process (Some ''app''))\<lparr>life_unique_id := Some first_process_id\<rparr>\<rparr>"
  by (simp add: finished_example_def finish_def numbered_run history_find_at_def)

lemma unique_ids_roundtrip_witness:
  "\<exists>p. history_find_at (pc_processes finished_example) 7 120 False = Some p \<and>
     process_id_to_key finished_example (unique_id_of p) = Some (7, 100)"
proof -
  let ?p = "\<lparr>entry_id = 7, timestamp = 100,
      payload = (named_process (Some ''app''))\<lparr>life_unique_id := Some first_process_id\<rparr>\<rparr>"
  have "history_find_at (pc_processes finished_example) 7 120 False = Some ?p" by (rule example_lookup)
  with unique_ids_roundtrip [OF recording_run(1) finished_example_def sorted_order_spec finished_run(1,2), of 7 120 False ?p]
  show ?thesis by auto
qed


end
