(* ===== verification/PerfMetadata.thy ===== *)
theory PerfMetadata
  imports Prelude
begin

text \<open>
  What a Linux recording tells besides its events: the attributes of its events
  (\<open>snail/perf_data/parser/event_attributes.hpp\<close>) and its metadata (\<open>snail/perf_data/metadata.hpp\<close>).
  Sets of flags are words, their members numbers of bits.
\<close>

section \<open>Event attributes\<close>

datatype skid_constraint_type =
    can_have_arbitrary_skid | must_have_constant_skid | requested_to_have_0_skid | must_have_0_skid

record event_attributes =
  attr_type :: u32
  attr_sample_period_freq :: u64
  attr_sample_format :: u64
  attr_read_format :: u64
  attr_flags :: u64
  attr_precise_ip :: skid_constraint_type
  attr_name :: "string option"

text \<open>The members of \<open>sample_format\<close>, \<open>read_format\<close> and \<open>attribute_flag\<close> that the program tests.\<close>

abbreviation (input) format_ip :: nat where "format_ip \<equiv> 0"
abbreviation (input) format_tid :: nat where "format_tid \<equiv> 1"
abbreviation (input) format_time :: nat where "format_time \<equiv> 2"
abbreviation (input) format_addr :: nat where "format_addr \<equiv> 3"
abbreviation (input) format_read :: nat where "format_read \<equiv> 4"
abbreviation (input) format_call_chain :: nat where "format_call_chain \<equiv> 5"
abbreviation (input) format_id :: nat where "format_id \<equiv> 6"
abbreviation (input) format_cpu :: nat where "format_cpu \<equiv> 7"
abbreviation (input) format_period :: nat where "format_period \<equiv> 8"
abbreviation (input) format_stream_id :: nat where "format_stream_id \<equiv> 9"
abbreviation (input) format_raw :: nat where "format_raw \<equiv> 10"
abbreviation (input) format_identifier :: nat where "format_identifier \<equiv> 16"

abbreviation (input) read_format_id :: nat where "read_format_id \<equiv> 2"
abbreviation (input) flag_freq :: nat where "flag_freq \<equiv> 10"
abbreviation (input) flag_sample_id_all :: nat where "flag_sample_id_all \<equiv> 18"

section \<open>Metadata\<close>

record event_desc_data =
  desc_attribute :: event_attributes
  desc_event_string :: string
  desc_ids :: "u64 list"

record perf_metadata =
  md_build_ids :: "(string \<rightharpoonup> u8 list) option"
  md_hostname :: "string option"
  md_os_release :: "string option"
  md_version :: "string option"
  md_arch :: "string option"
  md_nr_cpus :: "(u32 \<times> u32) option"
  md_cpu_desc :: "string option"
  md_cpu_id :: "string option"
  md_total_mem :: "u64 option"
  md_cmdline :: "string list option"
  md_event_desc :: "event_desc_data list"
  md_sample_time :: "(int \<times> int) option"
  md_clockid :: "u64 option"

definition no_metadata :: perf_metadata where
  "no_metadata = \<lparr>md_build_ids = None, md_hostname = None, md_os_release = None, md_version = None, md_arch = None,
     md_nr_cpus = None, md_cpu_desc = None, md_cpu_id = None, md_total_mem = None, md_cmdline = None,
     md_event_desc = [], md_sample_time = None, md_clockid = None\<rparr>"

end
