(* ===== verification/DwarfResolver.thy ===== *)
theory DwarfResolver
  imports Options
begin

text \<open>
  Symbols of a Linux recording: \<open>snail/analysis/detail/dwarf_resolver.cpp\<close>. What it asks of the file
  system, of the download function and of LLVM is a record of functions; the files do not change while
  a recording is open. The two caches of the resolver are its state. Text on the standard output is left
  out.
\<close>

section \<open>What the resolver asks for\<close>

record elf_section =
  section_is_text :: bool
  section_is_virtual :: bool
  section_offset :: u64
  section_address :: u64
  section_size :: u64
  section_index :: nat

record line_info =
  line_function :: "string option"
  line_file :: string
  line_start :: nat
  line_line :: nat

text \<open>\<open>open_object\<close>: the DWARF context LLVM creates from an object file, if it can. \<open>elf_sections\<close>: \<open>None\<close>
  for an object that is not ELF. \<open>inlined_frames\<close>: the frames at an address, the innermost first.
  \<open>download\<close>: \<open>None\<close> when it throws.\<close>

record 'ctx symbol_env =
  is_regular_file :: "string \<Rightarrow> bool"
  download :: "string \<Rightarrow> string \<Rightarrow> bool option"
  open_object :: "string \<Rightarrow> 'ctx option"
  elf_sections :: "'ctx \<Rightarrow> elf_section list option"
  inlined_frames :: "'ctx \<Rightarrow> u64 \<times> nat \<Rightarrow> line_info list"
  demangle :: "string \<Rightarrow> string option"
  regex_replace :: "string \<Rightarrow> string \<Rightarrow> string \<Rightarrow> string"
  undefined_section :: nat

record resolver_config =
  resolver_options :: dwarf_symbol_find_options
  resolver_path_map :: "path_mapper list"
  resolver_filter :: filter_options

record dwarf_module =
  image_filename :: string
  image_build_id :: "u8 list option"
  image_base :: u64
  image_page_offset :: u64
  image_process_id :: u32
  image_load_timestamp :: u64

record symbol_info =
  symbol_text :: string
  symbol_is_generic :: bool
  symbol_file :: string
  symbol_function_line :: nat
  symbol_line :: nat

section \<open>Texts\<close>

definition hex_digit :: "nat \<Rightarrow> char" where
  "hex_digit n = char_of (if n < 10 then 48 + n else 87 + n)"

fun hex :: "nat \<Rightarrow> nat \<Rightarrow> string" where
  "hex 0 n = []"
| "hex (Suc k) n = hex k (n div 16) @ [hex_digit (n mod 16)]"

text \<open>\<open>{:#018x}\<close> of an address, and \<open>{:02x}\<close> of the bytes of a build id.\<close>

definition address_text :: "u64 \<Rightarrow> string" where
  "address_text a = ''0x'' @ hex 16 (unat a)"

definition build_id_text :: "u8 list \<Rightarrow> string" where
  "build_id_text bs = concat (map (\<lambda>b. hex 2 (unat b)) bs)"

text \<open>The part behind the last occurrence of a character, if there is one.\<close>

definition after_last :: "char \<Rightarrow> string \<Rightarrow> string option" where
  "after_last c s = (if c \<in> set s then Some (rev (takeWhile (\<lambda>x. x \<noteq> c) (rev s))) else None)"

definition module_file_name :: "string \<Rightarrow> string" where
  "module_file_name s =
     (case after_last (CHR 0x5C) s of
        Some t \<Rightarrow> t
      | None \<Rightarrow> (case after_last (CHR ''/'') s of Some t \<Rightarrow> t | None \<Rightarrow> s))"

definition path_filename :: "string \<Rightarrow> string" where
  "path_filename p = (case after_last (CHR ''/'') p of Some t \<Rightarrow> t | None \<Rightarrow> p)"

section \<open>Finding a binary\<close>

fun find_in_dirs :: "(string \<Rightarrow> bool) \<Rightarrow> string \<Rightarrow> string list \<Rightarrow> string option" where
  "find_in_dirs regular name [] = None"
| "find_in_dirs regular name (d # ds) =
     (if regular (path_join d name) then Some (path_join d name) else find_in_dirs regular name ds)"

fun try_servers :: "(string \<Rightarrow> string \<Rightarrow> bool option) \<Rightarrow> string \<Rightarrow> string \<Rightarrow> string list \<Rightarrow> string option" where
  "try_servers download_from bid target [] = None"
| "try_servers download_from bid target (url # urls) =
     (if download_from (url @ ''/buildid/'' @ bid @ ''/executable'') target = Some True then Some target
      else try_servers download_from bid target urls)"

definition find_or_retrieve_binary ::
  "'ctx symbol_env \<Rightarrow> dwarf_symbol_find_options \<Rightarrow> string \<Rightarrow> u8 list option \<Rightarrow> string option" where
  "find_or_retrieve_binary env opts input bid =
     (if is_regular_file env input then Some input
      else case find_in_dirs (is_regular_file env) (path_filename input) (dwarf_search_dirs opts) of
        Some p \<Rightarrow> Some p
      | None \<Rightarrow>
          (case bid of
             None \<Rightarrow> None
           | Some b \<Rightarrow>
               let target = path_join (path_join (debuginfod_cache_dir opts) (build_id_text b)) ''executable''
               in if is_regular_file env target then Some target
                  else if debuginfod_urls opts = [] then None
                  else try_servers (download env) (build_id_text b) target (debuginfod_urls opts)))"

section \<open>Contexts and symbols\<close>

type_synonym module_key = "u32 \<times> u64"

record 'ctx resolver =
  context_cache :: "module_key \<rightharpoonup> 'ctx option"
  symbol_cache :: "module_key \<times> u64 \<rightharpoonup> symbol_info"

definition empty_resolver :: "'ctx resolver" where
  "empty_resolver = \<lparr>context_cache = Map.empty, symbol_cache = Map.empty\<rparr>"

definition key_of_module :: "dwarf_module \<Rightarrow> module_key" where
  "key_of_module m = (image_process_id m, image_load_timestamp m)"

text \<open>What \<open>get_dwarf_context\<close> computes when the cache has nothing for the module.\<close>

definition load_context :: "'ctx symbol_env \<Rightarrow> resolver_config \<Rightarrow> dwarf_module \<Rightarrow> 'ctx option" where
  "load_context env cfg m =
     (let path = fst (path_map_try_apply (regex_replace env) (resolver_path_map cfg) (image_filename m)) in
      if \<not> filter_check (resolver_filter cfg) path then None
      else case find_or_retrieve_binary env (resolver_options cfg) path (image_build_id m) of
        None \<Rightarrow> None
      | Some p \<Rightarrow> open_object env p)"

definition get_dwarf_context ::
  "'ctx symbol_env \<Rightarrow> resolver_config \<Rightarrow> dwarf_module \<Rightarrow> 'ctx resolver \<Rightarrow> 'ctx option \<times> 'ctx resolver" where
  "get_dwarf_context env cfg m r =
     (case context_cache r (key_of_module m) of
        Some x \<Rightarrow> (x, r)
      | None \<Rightarrow>
          let x = load_context env cfg m
          in (x, r\<lparr>context_cache := (context_cache r)(key_of_module m \<mapsto> x)\<rparr>))"

definition generic_symbol :: "string \<Rightarrow> symbol_info" where
  "generic_symbol name = \<lparr>symbol_text = name, symbol_is_generic = True, symbol_file = [], symbol_function_line = 0,
     symbol_line = 0\<rparr>"

text \<open>The two overloads of \<open>make_generic_symbol\<close>.\<close>

definition make_generic_symbol :: "u64 \<Rightarrow> 'ctx resolver \<Rightarrow> symbol_info \<times> 'ctx resolver" where
  "make_generic_symbol a r =
     (case symbol_cache r ((0, 0), a) of
        Some y \<Rightarrow> (y, r)
      | None \<Rightarrow>
          let y = generic_symbol (address_text a)
          in (y, r\<lparr>symbol_cache := (symbol_cache r)(((0, 0), a) \<mapsto> y)\<rparr>))"

definition module_generic :: "dwarf_module \<Rightarrow> u64 \<Rightarrow> symbol_info" where
  "module_generic m a = generic_symbol (module_file_name (image_filename m) @ ''!'' @ address_text a)"

definition make_module_generic_symbol :: "dwarf_module \<Rightarrow> u64 \<Rightarrow> 'ctx resolver \<Rightarrow> symbol_info \<times> 'ctx resolver" where
  "make_module_generic_symbol m a r =
     (case symbol_cache r (key_of_module m, a) of
        Some y \<Rightarrow> (y, r)
      | None \<Rightarrow> (module_generic m a, r\<lparr>symbol_cache := (symbol_cache r)((key_of_module m, a) \<mapsto> module_generic m a)\<rparr>))"

definition in_section :: "u64 \<Rightarrow> elf_section \<Rightarrow> bool" where
  "in_section a s \<longleftrightarrow> section_is_text s \<and> \<not> section_is_virtual s \<and>
     section_offset s \<le> a \<and> a < section_offset s + section_size s"

definition sectioned_address :: "'ctx symbol_env \<Rightarrow> 'ctx \<Rightarrow> u64 \<Rightarrow> u64 \<times> nat" where
  "sectioned_address env ctx a =
     (case elf_sections env ctx of
        None \<Rightarrow> (0, undefined_section env)
      | Some ss \<Rightarrow>
          (case List.find (in_section a) ss of
             None \<Rightarrow> (0, undefined_section env)
           | Some s \<Rightarrow> (a - section_offset s + section_address s, section_index s)))"

definition symbol_in :: "'ctx symbol_env \<Rightarrow> 'ctx \<Rightarrow> u64 \<Rightarrow> symbol_info option" where
  "symbol_in env ctx relative_address =
     (let frames = inlined_frames env ctx (sectioned_address env ctx relative_address) in
      if frames = [] then None
      else let l = last frames in
        case line_function l of
          None \<Rightarrow> None
        | Some f \<Rightarrow> Some \<lparr>symbol_text = (case demangle env f of None \<Rightarrow> f | Some g \<Rightarrow> g), symbol_is_generic = False,
            symbol_file = line_file l, symbol_function_line = line_start l, symbol_line = line_line l\<rparr>)"

definition relative_address :: "dwarf_module \<Rightarrow> u64 \<Rightarrow> u64" where
  "relative_address m a = a - image_base m + image_page_offset m"

definition resolve_symbol ::
  "'ctx symbol_env \<Rightarrow> resolver_config \<Rightarrow> dwarf_module \<Rightarrow> u64 \<Rightarrow> 'ctx resolver \<Rightarrow> symbol_info \<times> 'ctx resolver" where
  "resolve_symbol env cfg m a r =
     (case symbol_cache r (key_of_module m, a) of
        Some y \<Rightarrow> (y, r)
      | None \<Rightarrow>
          (case get_dwarf_context env cfg m r of
             (None, r1) \<Rightarrow> make_module_generic_symbol m a r1
           | (Some ctx, r1) \<Rightarrow>
               (case symbol_in env ctx (relative_address m a) of
                  None \<Rightarrow> make_module_generic_symbol m a r1
                | Some y \<Rightarrow> (y, r1\<lparr>symbol_cache := (symbol_cache r1)((key_of_module m, a) \<mapsto> y)\<rparr>))))"

section \<open>The specification\<close>

text \<open>The symbol of an address without any cache.\<close>

definition plain_symbol :: "'ctx symbol_env \<Rightarrow> resolver_config \<Rightarrow> dwarf_module option \<times> u64 \<Rightarrow> symbol_info" where
  "plain_symbol env cfg x =
     (case x of
        (None, a) \<Rightarrow> generic_symbol (address_text a)
      | (Some m, a) \<Rightarrow>
          (case Option.bind (load_context env cfg m) (\<lambda>ctx. symbol_in env ctx (relative_address m a)) of
             None \<Rightarrow> module_generic m a
           | Some y \<Rightarrow> y))"

text \<open>A request with or without a module, and a sequence of requests.\<close>

definition request_symbol ::
  "'ctx symbol_env \<Rightarrow> resolver_config \<Rightarrow> dwarf_module option \<times> u64 \<Rightarrow> 'ctx resolver \<Rightarrow> symbol_info \<times> 'ctx resolver" where
  "request_symbol env cfg x r =
     (case x of (None, a) \<Rightarrow> make_generic_symbol a r | (Some m, a) \<Rightarrow> resolve_symbol env cfg m a r)"

fun request_symbols ::
  "'ctx symbol_env \<Rightarrow> resolver_config \<Rightarrow> (dwarf_module option \<times> u64) list \<Rightarrow> 'ctx resolver \<Rightarrow> symbol_info list" where
  "request_symbols env cfg [] r = []"
| "request_symbols env cfg (x # xs) r =
     (case request_symbol env cfg x r of (y, r') \<Rightarrow> y # request_symbols env cfg xs r')"

text \<open>The key under which a request is cached tells its module.\<close>

definition request_key :: "dwarf_module option \<Rightarrow> module_key" where
  "request_key m = (case m of None \<Rightarrow> (0, 0) | Some d \<Rightarrow> key_of_module d)"

definition keys_unique :: "dwarf_module option set \<Rightarrow> bool" where
  "keys_unique ms \<longleftrightarrow> inj_on request_key ms"

definition resolver_ok :: "'ctx symbol_env \<Rightarrow> resolver_config \<Rightarrow> dwarf_module option set \<Rightarrow> 'ctx resolver \<Rightarrow> bool" where
  "resolver_ok env cfg ms r \<longleftrightarrow>
     (\<forall>m d x. m \<in> ms \<longrightarrow> m = Some d \<longrightarrow> context_cache r (key_of_module d) = Some x \<longrightarrow> x = load_context env cfg d) \<and>
     (\<forall>m a y. m \<in> ms \<longrightarrow> symbol_cache r (request_key m, a) = Some y \<longrightarrow> y = plain_symbol env cfg (m, a))"

lemma keys_uniqueD: "keys_unique ms \<Longrightarrow> m \<in> ms \<Longrightarrow> n \<in> ms \<Longrightarrow> request_key m = request_key n \<Longrightarrow> m = n"
  by (auto simp: keys_unique_def inj_on_def)

lemma request_key_Some [simp]: "request_key (Some d) = key_of_module d" "request_key None = (0, 0)"
  by (simp_all add: request_key_def)

lemma resolver_ok_symbol:
  assumes "resolver_ok env cfg ms r" "keys_unique ms" "m \<in> ms" "y = plain_symbol env cfg (m, a)"
  shows "resolver_ok env cfg ms (r\<lparr>symbol_cache := (symbol_cache r)((request_key m, a) \<mapsto> y)\<rparr>)"
  using assms keys_uniqueD [OF assms(2)]
  unfolding resolver_ok_def by (auto split: if_splits)

lemma resolver_ok_context:
  assumes "resolver_ok env cfg ms r" "keys_unique ms" "Some d \<in> ms"
  shows "resolver_ok env cfg ms (r\<lparr>context_cache := (context_cache r)(key_of_module d \<mapsto> load_context env cfg d)\<rparr>)"
  unfolding resolver_ok_def
proof (intro conjI allI impI)
  fix m e x
  assume m: "m \<in> ms" "m = Some e"
    and x: "context_cache (r\<lparr>context_cache := (context_cache r)(key_of_module d \<mapsto> load_context env cfg d)\<rparr>) (key_of_module e) = Some x"
  show "x = load_context env cfg e"
  proof (cases "key_of_module e = key_of_module d")
    case True
    then have "Some e = Some d" using keys_uniqueD [OF assms(2), of "Some e" "Some d"] m assms(3) by simp
    with x show ?thesis by simp
  next
    case False
    with x have "context_cache r (key_of_module e) = Some x" by simp
    with assms(1) m show ?thesis unfolding resolver_ok_def by blast
  qed
next
  fix m a y
  assume "m \<in> ms" "symbol_cache (r\<lparr>context_cache := (context_cache r)(key_of_module d \<mapsto> load_context env cfg d)\<rparr>) (request_key m, a) = Some y"
  with assms(1) show "y = plain_symbol env cfg (m, a)" unfolding resolver_ok_def by simp
qed

lemma resolver_okD:
  assumes "resolver_ok env cfg ms r" "m \<in> ms" "symbol_cache r (request_key m, a) = Some y"
  shows "y = plain_symbol env cfg (m, a)"
  using assms unfolding resolver_ok_def by blast

lemma get_dwarf_context_ok:
  assumes ok: "resolver_ok env cfg ms r" and ms: "keys_unique ms" "Some d \<in> ms"
  shows "fst (get_dwarf_context env cfg d r) = load_context env cfg d \<and>
    resolver_ok env cfg ms (snd (get_dwarf_context env cfg d r)) \<and>
    symbol_cache (snd (get_dwarf_context env cfg d r)) = symbol_cache r"
proof (cases "context_cache r (key_of_module d)")
  case None
  with resolver_ok_context [OF ok ms] show ?thesis by (simp add: get_dwarf_context_def Let_def)
next
  case (Some x)
  then have "x = load_context env cfg d" using ok ms(2) unfolding resolver_ok_def by blast
  with Some ok show ?thesis by (simp add: get_dwarf_context_def)
qed

lemma request_symbol_ok:
  assumes ok: "resolver_ok env cfg ms r" and ms: "keys_unique ms" "m \<in> ms"
  shows "fst (request_symbol env cfg (m, a) r) = plain_symbol env cfg (m, a) \<and>
    resolver_ok env cfg ms (snd (request_symbol env cfg (m, a) r))"
proof (cases "symbol_cache r (request_key m, a)")
  case (Some y)
  with resolver_okD [OF ok ms(2) Some] ok show ?thesis
    by (cases m) (simp_all add: request_symbol_def make_generic_symbol_def resolve_symbol_def)
next
  case none: None
  show ?thesis
  proof (cases m)
    case None
    with none resolver_ok_symbol [OF ok ms refl, of a] show ?thesis
      by (simp add: request_symbol_def make_generic_symbol_def Let_def plain_symbol_def)
  next
    case (Some d)
    obtain ctx r1 where g: "get_dwarf_context env cfg d r = (ctx, r1)" by fastforce
    have "Some d \<in> ms" using ms(2) Some by simp
    from get_dwarf_context_ok [OF ok ms(1) this] g
    have r1: "ctx = load_context env cfg d" "resolver_ok env cfg ms r1" "symbol_cache r1 = symbol_cache r" by auto
    have p: "plain_symbol env cfg (m, a) =
        (case Option.bind ctx (\<lambda>ctx. symbol_in env ctx (relative_address d a)) of None \<Rightarrow> module_generic d a | Some y \<Rightarrow> y)"
      by (simp add: Some plain_symbol_def r1(1))
    note put = resolver_ok_symbol [OF r1(2) ms refl, of a]
    show ?thesis
    proof (cases "Option.bind ctx (\<lambda>ctx. symbol_in env ctx (relative_address d a))")
      case None
      with none p put g show ?thesis
        by (cases ctx) (simp_all add: Some request_symbol_def resolve_symbol_def make_module_generic_symbol_def r1(3))
    next
      case (Some y)
      with none p put g \<open>m = Some d\<close> show ?thesis
        by (cases ctx) (simp_all add: request_symbol_def resolve_symbol_def r1(3))
    qed
  qed
qed

lemma request_symbols_ok:
  assumes "resolver_ok env cfg ms r" "keys_unique ms" "fst ` set xs \<subseteq> ms"
  shows "request_symbols env cfg xs r = map (plain_symbol env cfg) xs"
  using assms(1,3)
proof (induction xs arbitrary: r)
  case (Cons x xs)
  obtain m a where x: "x = (m, a)" by (cases x)
  with Cons.prems have "m \<in> ms" by auto
  from request_symbol_ok [OF Cons.prems(1) assms(2) this, of a] Cons show ?case
    by (auto simp: x split: prod.split)
qed simp

section \<open>Properties\<close>

text \<open>C24: Caching the contexts and the symbols does not change any answer, as long as no two modules of the
  requests have the same process and load time: every sequence of requests is answered as if each were
  looked up afresh.\<close>
theorem symbols_as_uncached:
  assumes "keys_unique (fst ` set xs)"
  shows "request_symbols env cfg xs empty_resolver = map (plain_symbol env cfg) xs"
  using assms by (intro request_symbols_ok) (auto simp: resolver_ok_def empty_resolver_def)

text \<open>Two modules that a process loaded at the same time share one entry of the cache: the addresses of
  the second are looked up in the debug information of the first. (The recording tool writes the
  mappings of the processes that run already with one time.)\<close>
lemma same_time_modules_share_context:
  assumes "key_of_module d = key_of_module e" "load_context env cfg d = Some ctx"
    "symbol_in env ctx (relative_address d a) = Some y" "symbol_in env ctx (relative_address e b) = Some z" "a \<noteq> b"
  shows "request_symbols env cfg [(Some d, a), (Some e, b)] empty_resolver = [y, z]"
  using assms
  by (simp add: request_symbol_def resolve_symbol_def get_dwarf_context_def empty_resolver_def Let_def)

section \<open>Examples\<close>

text \<open>A context is the path of its binary, and every function in it is named after the binary.\<close>

definition example_symbols :: "string symbol_env" where
  "example_symbols = \<lparr>is_regular_file = (\<lambda>_. True), download = (\<lambda>_ _. None), open_object = Some,
     elf_sections = (\<lambda>_. None), inlined_frames = (\<lambda>path a. [\<lparr>line_function = Some path, line_file = ''x.c'',
       line_start = 1, line_line = 2\<rparr>]), demangle = (\<lambda>_. None), regex_replace = (\<lambda>s _ _. s), undefined_section = 0\<rparr>"

definition example_config :: resolver_config where
  "example_config = \<lparr>resolver_options = \<lparr>dwarf_search_dirs = [], debuginfod_cache_dir = [], debuginfod_urls = []\<rparr>,
     resolver_path_map = [], resolver_filter = default_filter_options\<rparr>"

definition example_image :: "string \<Rightarrow> u64 \<Rightarrow> dwarf_module" where
  "example_image path t = \<lparr>image_filename = path, image_build_id = None, image_base = 0, image_page_offset = 0,
     image_process_id = 7, image_load_timestamp = t\<rparr>"

definition example_symbol :: "string \<Rightarrow> symbol_info" where
  "example_symbol path = \<lparr>symbol_text = path, symbol_is_generic = False, symbol_file = ''x.c'', symbol_function_line = 1,
     symbol_line = 2\<rparr>"

lemma example_context_loads: "load_context example_symbols example_config (example_image path t) = Some path"
  by (simp add: load_context_def example_symbols_def example_config_def example_image_def find_or_retrieve_binary_def
      filter_check_def default_filter_options_def)

lemma example_symbol_in: "symbol_in example_symbols path a = Some (example_symbol path)"
  by (simp add: symbol_in_def example_symbols_def example_symbol_def)

lemma symbols_as_uncached_witness:
  "request_symbols example_symbols example_config
     [(Some (example_image ''/a'' 1), 3), (Some (example_image ''/b'' 2), 3), (Some (example_image ''/a'' 1), 3)] empty_resolver =
   [example_symbol ''/a'', example_symbol ''/b'', example_symbol ''/a'']"
proof -
  have "keys_unique (fst ` set [(Some (example_image ''/a'' 1), 3 :: u64), (Some (example_image ''/b'' 2), 3), (Some (example_image ''/a'' 1), 3)])"
    by (simp add: keys_unique_def inj_on_def key_of_module_def example_image_def)
  from symbols_as_uncached [OF this, of example_symbols example_config] show ?thesis
    by (simp add: plain_symbol_def example_context_loads example_symbol_in del: request_symbols.simps)
qed

lemma same_time_modules_share_context_witness:
  "request_symbols example_symbols example_config [(Some (example_image ''/a'' 0), 3), (Some (example_image ''/b'' 0), 4)]
     empty_resolver = [example_symbol ''/a'', example_symbol ''/a'']"
  by (rule same_time_modules_share_context [OF _ example_context_loads example_symbol_in example_symbol_in])
    (simp_all add: key_of_module_def example_image_def)

end
