(* ===== verification/SampleMerge.thy ===== *)
theory SampleMerge
  imports Prelude "HOL-Library.Multiset"
begin

text \<open>
  Merging the samples of the threads of a process by time: the loops of \<open>samples\<close> in
  \<open>snail/analysis/perf_data_data_provider.cpp\<close> and \<open>snail/analysis/etl_data_provider.cpp\<close>, which are the
  same but for the type of the samples; \<open>stamp\<close> reads the time of one. A generator is the list of what it
  yields. The loop ends with every sample of every thread taken once, in the order of their times.
\<close>

section \<open>The loops\<close>

text \<open>The samples of one thread and how many of them were taken; the queue of the threads that have more,
  with the time of their next sample. \<open>top_index\<close> is the position of an element with the earliest time
  (which of several a \<open>std::priority_queue\<close> takes is not specified).\<close>

record 's thread_sample_data =
  td_samples :: "'s list"
  td_next :: nat

type_synonym sample_queue = "(u64 \<times> nat) list"

definition top_spec :: "(sample_queue \<Rightarrow> nat) \<Rightarrow> bool" where
  "top_spec top_index \<longleftrightarrow> (\<forall>q. q \<noteq> [] \<longrightarrow> top_index q < length q \<and> (\<forall>x \<in> set q. fst (q ! top_index q) \<le> fst x))"

definition remove_nth :: "nat \<Rightarrow> 'a list \<Rightarrow> 'a list" where
  "remove_nth i xs = take i xs @ drop (Suc i) xs"

text \<open>The inner loop: the samples of one thread until another thread has an earlier one.\<close>

function take_run ::
  "('s \<Rightarrow> u64) \<Rightarrow> (sample_queue \<Rightarrow> nat) \<Rightarrow> sample_queue \<Rightarrow> 's thread_sample_data \<Rightarrow>
   's list \<times> 's thread_sample_data \<times> u64 option" where
  "take_run stamp top_index q d =
     (let s = td_samples d ! td_next d; d1 = d\<lparr>td_next := Suc (td_next d)\<rparr> in
      if td_next d1 \<ge> length (td_samples d1) then ([s], d1, None)
      else let next_time = stamp (td_samples d1 ! td_next d1) in
        if q \<noteq> [] \<and> fst (q ! top_index q) < next_time then ([s], d1, Some next_time)
        else case take_run stamp top_index q d1 of (xs, d2, r) \<Rightarrow> (s # xs, d2, r))"
  by pat_completeness auto
termination by (relation "measure (\<lambda>(_, _, _, d). length (td_samples d) - td_next d)") auto

declare take_run.simps [simp del]

partial_function (option) merge_threads ::
  "('s \<Rightarrow> u64) \<Rightarrow> (sample_queue \<Rightarrow> nat) \<Rightarrow> sample_queue \<Rightarrow> 's thread_sample_data list \<Rightarrow> 's list option" where
  "merge_threads stamp top_index q data =
     (if q = [] then Some []
      else let i = snd (q ! top_index q); q1 = remove_nth (top_index q) q in
        case take_run stamp top_index q1 (data ! i) of
          (xs, d, r) \<Rightarrow>
            Option.bind (merge_threads stamp top_index (case r of None \<Rightarrow> q1 | Some t \<Rightarrow> q1 @ [(t, i)]) (data[i := d]))
              (\<lambda>ys. Some (xs @ ys)))"

definition initial_queue :: "('s \<Rightarrow> u64) \<Rightarrow> 's list list \<Rightarrow> sample_queue" where
  "initial_queue stamp xss = map (\<lambda>i. (stamp (hd (xss ! i)), i)) [0..<length xss]"

definition merged_samples :: "('s \<Rightarrow> u64) \<Rightarrow> (sample_queue \<Rightarrow> nat) \<Rightarrow> 's list list \<Rightarrow> 's list option" where
  "merged_samples stamp top_index xss =
     merge_threads stamp top_index (initial_queue stamp xss) (map (\<lambda>xs. \<lparr>td_samples = xs, td_next = 0\<rparr>) xss)"

section \<open>What is left to take\<close>

definition pending :: "'s thread_sample_data \<Rightarrow> 's list" where
  "pending d = drop (td_next d) (td_samples d)"

definition queue_ok :: "('s \<Rightarrow> u64) \<Rightarrow> sample_queue \<Rightarrow> 's thread_sample_data list \<Rightarrow> bool" where
  "queue_ok stamp q data \<longleftrightarrow>
     distinct (map snd q) \<and>
     (\<forall>x \<in> set q. snd x < length data \<and> pending (data ! snd x) \<noteq> [] \<and> fst x = stamp (hd (pending (data ! snd x)))) \<and>
     (\<forall>i < length data. pending (data ! i) \<noteq> [] \<longrightarrow> i \<in> snd ` set q) \<and>
     (\<forall>d \<in> set data. sorted (map stamp (pending d)))"

lemma take_run_pending:
  assumes "take_run stamp top_index q d = (xs, d', r)" "pending d \<noteq> []"
  shows "xs \<noteq> [] \<and> pending d = xs @ pending d' \<and> (r = None \<longleftrightarrow> pending d' = []) \<and>
    (\<forall>t. r = Some t \<longrightarrow> t = stamp (hd (pending d'))) \<and> hd xs = hd (pending d) \<and>
    (q \<noteq> [] \<longrightarrow> (\<forall>x \<in> set (tl xs). stamp x \<le> fst (q ! top_index q)))"
  using assms
proof (induction stamp top_index q d arbitrary: xs d' r rule: take_run.induct)
  case (1 stamp top_index q d)
  let ?s = "td_samples d ! td_next d" and ?d = "d\<lparr>td_next := Suc (td_next d)\<rparr>"
  have d: "td_next d < length (td_samples d)" using 1(3) by (simp add: pending_def)
  then have p: "pending d = ?s # pending ?d" by (simp add: pending_def Cons_nth_drop_Suc)
  show ?case
  proof (cases "Suc (td_next d) \<ge> length (td_samples d)")
    case True
    then have "xs = [?s]" "d' = ?d" "r = None" using 1(2) by (simp_all add: take_run.simps [of _ _ _ d] Let_def)
    with True p show ?thesis by (simp add: pending_def)
  next
    case False
    then have n: "pending ?d \<noteq> []" "stamp (td_samples d ! Suc (td_next d)) = stamp (hd (pending ?d))"
      by (auto simp: pending_def hd_drop_conv_nth)
    show ?thesis
    proof (cases "q \<noteq> [] \<and> fst (q ! top_index q) < stamp (td_samples d ! Suc (td_next d))")
      case True
      with False have "xs = [?s]" "d' = ?d" "r = Some (stamp (td_samples d ! Suc (td_next d)))"
        using 1(2) by (simp_all add: take_run.simps [of _ _ _ d] Let_def)
      with n p show ?thesis by simp
    next
      case stay: False
      obtain ys d2 r2 where run: "take_run stamp top_index q ?d = (ys, d2, r2)" by (metis prod_cases3)
      have eq: "xs = ?s # ys" "d' = d2" "r = r2"
        using 1(2) False stay run by (auto simp: take_run.simps [of _ _ _ d] Let_def split: if_splits)
      have ih: "ys \<noteq> [] \<and> pending ?d = ys @ pending d2 \<and> (r2 = None \<longleftrightarrow> pending d2 = []) \<and>
          (\<forall>t. r2 = Some t \<longrightarrow> t = stamp (hd (pending d2))) \<and> hd ys = hd (pending ?d) \<and>
          (q \<noteq> [] \<longrightarrow> (\<forall>x \<in> set (tl ys). stamp x \<le> fst (q ! top_index q)))"
        by (rule 1(1) [OF refl refl _ refl _ run n(1)]) (use False stay in simp_all)
      have "stamp x \<le> fst (q ! top_index q)" if "q \<noteq> []" "x \<in> set ys" for x
      proof (cases "x \<in> set (tl ys)")
        case True
        with that(1) ih show ?thesis by blast
      next
        case False
        with that(2) have "x = hd ys" by (cases ys) auto
        with that(1) stay n(2) ih show ?thesis by (metis not_less)
      qed
      with ih p eq show ?thesis by simp
    qed
  qed
qed

section \<open>One round\<close>

lemma set_without:
  assumes "distinct (map snd (xs @ y # ys))"
  shows "set (xs @ ys) = {x \<in> set (xs @ y # ys). snd x \<noteq> snd y}"
proof -
  have "snd y \<notin> snd ` set xs" "snd y \<notin> snd ` set ys" using assms by simp_all
  then have "snd x \<noteq> snd y" if "x \<in> set xs \<or> x \<in> set ys" for x using that by (metis imageI)
  then show ?thesis by auto
qed

lemma remove_nth_set:
  assumes "k < length q" "distinct (map snd q)"
  shows "set (remove_nth k q) = {x \<in> set q. snd x \<noteq> snd (q ! k)}" "distinct (map snd (remove_nth k q))"
proof -
  have q: "take k q @ q ! k # drop (Suc k) q = q" using assms(1) by (rule id_take_nth_drop [symmetric])
  show "set (remove_nth k q) = {x \<in> set q. snd x \<noteq> snd (q ! k)}"
    using set_without [of "take k q" "q ! k" "drop (Suc k) q"] assms(2) unfolding q by (simp add: remove_nth_def)
  have "distinct (map snd (take k q @ q ! k # drop (Suc k) q))" using assms(2) unfolding q .
  then show "distinct (map snd (remove_nth k q))" by (simp add: remove_nth_def del: append_take_drop_id)
qed

lemma mset_pending_update:
  assumes "i < length data" "pending (data ! i) = xs @ pending d"
  shows "mset (concat (map pending data)) = mset xs + mset (concat (map pending (data[i := d])))"
proof -
  have "mset (concat (map pending (as @ e # bs))) = mset xs + mset (concat (map pending (as @ d # bs)))"
    if "pending e = xs @ pending d" for as e bs using that by simp
  from this [OF assms(2), of "take i data" "drop (Suc i) data"] show ?thesis
    by (simp only: id_take_nth_drop [OF assms(1), symmetric] upd_conv_take_nth_drop [OF assms(1)])
qed

lemma queue_ok_round:
  assumes ok: "queue_ok stamp q data" and k: "k < length q" and i: "i = snd (q ! k)"
    and run: "take_run stamp top_index (remove_nth k q) (data ! i) = (xs, d, r)"
  shows "queue_ok stamp (case r of None \<Rightarrow> remove_nth k q | Some t \<Rightarrow> remove_nth k q @ [(t, i)]) (data[i := d])"
proof -
  have ik: "i < length data" "pending (data ! i) \<noteq> []" using ok k i by (auto simp: queue_ok_def)
  have p: "pending (data ! i) = xs @ pending d" "r = None \<longleftrightarrow> pending d = []" "\<And>t. r = Some t \<Longrightarrow> t = stamp (hd (pending d))"
    using take_run_pending [OF run ik(2)] by blast+
  have rest: "set (remove_nth k q) = {x \<in> set q. snd x \<noteq> i}" "distinct (map snd (remove_nth k q))"
    using remove_nth_set [OF k] ok i by (auto simp: queue_ok_def)
  have "sorted (map stamp (pending (data ! i)))" using ok ik(1) by (simp add: queue_ok_def)
  then have sorted: "sorted (map stamp (pending d))" by (simp add: p(1) sorted_append)
  have all: "sorted (map stamp (pending e))" if "e \<in> set (data[i := d])" for e
    using that ok sorted set_update_subset_insert [of data i d] by (auto simp: queue_ok_def)
  have waiting: "j \<in> snd ` set (remove_nth k q)" if "j < length data" "j \<noteq> i" "pending (data ! j) \<noteq> []" for j
    using that ok unfolding rest(1) queue_ok_def by force
  have kept: "snd x < length data \<and> pending (data[i := d] ! snd x) \<noteq> [] \<and> fst x = stamp (hd (pending (data[i := d] ! snd x)))"
    if "x \<in> set (remove_nth k q)" for x
    using that ok unfolding rest(1) queue_ok_def by simp
  show ?thesis
  proof (cases r)
    case None
    then have "pending d = []" using p(2) by simp
    then have "j \<in> snd ` set (remove_nth k q)" if "j < length data" "pending (data[i := d] ! j) \<noteq> []" for j
      using that waiting [of j] by (cases "j = i") auto
    with rest(2) kept all None show ?thesis by (auto simp: queue_ok_def)
  next
    case (Some t)
    have "i \<notin> snd ` set (remove_nth k q)" by (auto simp: rest(1))
    moreover have "j \<in> insert i (snd ` set (remove_nth k q))" if "j < length data" "pending (data[i := d] ! j) \<noteq> []" for j
      using that waiting [of j] by (cases "j = i") auto
    ultimately show ?thesis using rest(2) kept all p(2,3) ik(1) Some by (auto simp: queue_ok_def)
  qed
qed

lemma run_before_rest:
  assumes ok: "queue_ok stamp q data" and top: "top_spec top_index" "q \<noteq> []" and i: "i = snd (q ! top_index q)"
    and run: "take_run stamp top_index (remove_nth (top_index q) q) (data ! i) = (xs, d, r)"
    and x: "x \<in> set xs" and y: "y \<in> set (concat (map pending (data[i := d])))"
  shows "stamp x \<le> stamp y"
proof -
  let ?k = "top_index q" and ?q = "remove_nth (top_index q) q"
  have k: "?k < length q" "\<And>z. z \<in> set q \<Longrightarrow> fst (q ! ?k) \<le> fst z" using top by (auto simp: top_spec_def)
  have ik: "i < length data" "pending (data ! i) \<noteq> []" "fst (q ! ?k) = stamp (hd (pending (data ! i)))"
    using ok k(1) i by (auto simp: queue_ok_def)
  have p: "xs \<noteq> []" "pending (data ! i) = xs @ pending d" "hd xs = hd (pending (data ! i))"
      "?q \<noteq> [] \<Longrightarrow> x \<in> set (tl xs) \<Longrightarrow> stamp x \<le> fst (?q ! top_index ?q)"
    using take_run_pending [OF run ik(2)] by blast+
  have rest: "set ?q = {z \<in> set q. snd z \<noteq> i}"
    using remove_nth_set(1) [OF k(1)] ok i by (auto simp: queue_ok_def)
  have sorted: "sorted (map stamp (pending e))" if "e \<in> set data" for e using ok that by (simp add: queue_ok_def)
  obtain e where "e \<in> set (data[i := d])" "y \<in> set (pending e)" using y by auto
  then obtain j where j: "j < length data" "y \<in> set (pending (data[i := d] ! j))"
    by (metis in_set_conv_nth length_list_update)
  show ?thesis
  proof (cases "j = i")
    case True
    with j have "y \<in> set (pending d)" by simp
    with x sorted [of "data ! i"] ik(1) show ?thesis by (auto simp: p(2) sorted_append)
  next
    case False
    with j have yj: "y \<in> set (pending (data ! j))" by simp
    then obtain z where z: "z \<in> set q" "snd z = j" using ok j(1) by (force simp: queue_ok_def)
    with False rest have zq: "z \<in> set ?q" by simp
    have "fst z = stamp (hd (pending (data ! j)))" using ok z by (auto simp: queue_ok_def)
    also have "\<dots> \<le> stamp y"
      using sorted [of "data ! j"] j(1) yj by (cases "pending (data ! j)") auto
    finally have zy: "fst z \<le> stamp y" .
    show ?thesis
    proof (cases "x = hd xs")
      case True
      with k(2) [OF z(1)] zy ik(3) p(3) show ?thesis by simp
    next
      case False
      with x p(1) have "x \<in> set (tl xs)" by (cases xs) auto
      moreover have "fst (?q ! top_index ?q) \<le> fst z"
        using top(1) zq unfolding top_spec_def by (metis empty_iff list.set(1))
      ultimately show ?thesis using p(4) zq zy by (cases "?q = []") (auto intro: order_trans)
    qed
  qed
qed

section \<open>The whole merge\<close>

lemma merge_threads_ok:
  assumes "queue_ok stamp q data" "top_spec top_index"
  shows "\<exists>ys. merge_threads stamp top_index q data = Some ys \<and> sorted (map stamp ys) \<and>
    mset ys = mset (concat (map pending data))"
  using assms(1)
proof (induction "length (concat (map pending data))" arbitrary: q data rule: less_induct)
  case less
  show ?case
  proof (cases "q = []")
    case True
    then have "pending d = []" if "d \<in> set data" for d
      using less.prems that by (metis in_set_conv_nth queue_ok_def empty_iff image_empty list.set(1))
    then have "concat (map pending data) = []" by simp
    then show ?thesis unfolding merge_threads.simps [of _ _ q] using True by simp
  next
    case False
    let ?k = "top_index q" and ?q = "remove_nth (top_index q) q"
    obtain i where i: "i = snd (q ! ?k)" by blast
    obtain xs d r where run: "take_run stamp top_index ?q (data ! i) = (xs, d, r)" by (metis prod_cases3)
    have k: "?k < length q" using assms(2) False by (auto simp: top_spec_def)
    have ik: "i < length data" "pending (data ! i) \<noteq> []" using less.prems k i by (auto simp: queue_ok_def)
    have p: "xs \<noteq> []" "pending (data ! i) = xs @ pending d" using take_run_pending [OF run ik(2)] by blast+
    note all = mset_pending_update [OF ik(1) p(2)]
    let ?next = "case r of None \<Rightarrow> ?q | Some t \<Rightarrow> ?q @ [(t, i)]"
    have ok: "queue_ok stamp ?next (data[i := d])" by (rule queue_ok_round [OF less.prems k i run])
    have "length (concat (map pending data)) = length xs + length (concat (map pending (data[i := d])))"
      using arg_cong [OF all, of size] by (simp only: size_union size_mset)
    then have "length (concat (map pending (data[i := d]))) < length (concat (map pending data))"
      using p(1) by (cases xs) auto
    then obtain ys where ys: "merge_threads stamp top_index ?next (data[i := d]) = Some ys" "sorted (map stamp ys)"
        "mset ys = mset (concat (map pending (data[i := d])))"
      using less.hyps ok by blast
    have before: "stamp x \<le> stamp y" if "x \<in> set xs" "y \<in> set ys" for x y
      using run_before_rest [OF less.prems assms(2) False i run that(1)] that(2) ys(3) by (metis set_mset_mset)
    have "sorted (map stamp (pending (data ! i)))" using less.prems ik(1) by (simp add: queue_ok_def)
    then have "sorted (map stamp xs)" by (simp add: p(2) sorted_append)
    moreover have "merge_threads stamp top_index q data = Some (xs @ ys)"
      using False run ys(1) by (simp add: merge_threads.simps [of _ _ q] Let_def flip: i)
    ultimately show ?thesis using ys(2,3) before all by (auto simp: sorted_append)
  qed
qed

lemma initial_queue_ok:
  assumes "\<forall>xs \<in> set xss. xs \<noteq> [] \<and> sorted (map stamp xs)"
  shows "queue_ok stamp (initial_queue stamp xss) (map (\<lambda>xs. \<lparr>td_samples = xs, td_next = 0\<rparr>) xss)"
  using assms by (auto simp: queue_ok_def initial_queue_def pending_def comp_def image_image)

lemma merged_samples_ok:
  assumes "\<forall>xs \<in> set xss. xs \<noteq> [] \<and> sorted (map stamp xs)" "top_spec top_index"
  shows "\<exists>ys. merged_samples stamp top_index xss = Some ys \<and> sorted (map stamp ys) \<and> mset ys = mset (concat xss)"
  using merge_threads_ok [OF initial_queue_ok [OF assms(1)] assms(2)]
  by (simp add: merged_samples_def pending_def comp_def)

end
