(* ===== verification/PerfProvider.thy ===== *)
theory PerfProvider
  imports PerfContext PerfMetadata DwarfResolver Provider SampleMerge
begin

text \<open>
  The data provider of Linux recordings: \<open>snail/analysis/perf_data_data_provider.cpp\<close>, on top of a
  finished process context. The symbols are a function of module and address (\<open>plain_symbol\<close>, which the
  resolver computes with its caches). A generator is the list of what it yields; an exception ends it.
\<close>

section \<open>Times\<close>

definition from_relative_timestamp :: "u64 \<Rightarrow> u64 \<Rightarrow> int" where
  "from_relative_timestamp t start = (if t < start then 0 else sint (t - start))"

definition to_relative_timestamp :: "int \<Rightarrow> u64 \<Rightarrow> u64" where
  "to_relative_timestamp ns start = start + of_int ns"

definition get_filter_timespan ::
  "(u32, u64, perf_thread) history_entry \<Rightarrow> sample_filter \<Rightarrow> u64 \<Rightarrow> u64 \<times> u64 option" where
  "get_filter_timespan th f session_start =
     (let filter_min = map_option (\<lambda>t. to_relative_timestamp t session_start) (min_time f);
          filter_max = map_option (\<lambda>t. to_relative_timestamp t session_start) (max_time f);
          sample_min = (case filter_min of Some t \<Rightarrow> max t (timestamp th) | None \<Rightarrow> timestamp th);
          sample_max = (case filter_max of
              Some t \<Rightarrow> (case life_end_time (payload th) of Some e \<Rightarrow> Some (min t e) | None \<Rightarrow> Some t)
            | None \<Rightarrow> life_end_time (payload th))
      in (sample_min, sample_max))"

section \<open>The provider\<close>

text \<open>\<open>pv_process_order\<close> is the order in which the sampled processes are iterated.\<close>

record perf_provider =
  pv_context :: perf_context
  pv_build_ids :: "(string \<rightharpoonup> u8 list) option"
  pv_session :: session_info
  pv_system :: system_info
  pv_sources :: "sample_source_info list"
  pv_source_ids :: "nat list"
  pv_session_start :: u64
  pv_session_end :: u64
  pv_process_order :: "perf_key list"

type_synonym symbol_source = "dwarf_module option \<times> u64 \<Rightarrow> symbol_info"

definition get_thread_from_id :: "perf_context \<Rightarrow> nat \<Rightarrow> error + (u32, u64, perf_thread) history_entry option" where
  "get_thread_from_id c t =
     bind_result (at_or_throw (thread_id_to_key c t)) (\<lambda>key.
       Inr (history_find_at (pc_threads c) (fst key) (snd key) False))"

section \<open>Frames\<close>

definition try_get_module_build_id :: "(string \<rightharpoonup> u8 list) option \<Rightarrow> perf_module \<Rightarrow> u8 list option" where
  "try_get_module_build_id ids m =
     (case perf_build_id m of
        Some b \<Rightarrow> Some b
      | None \<Rightarrow> (case ids of None \<Rightarrow> None | Some f \<Rightarrow> f (perf_filename m)))"

definition frame_of_symbol :: "symbol_info \<Rightarrow> string \<Rightarrow> stack_frame" where
  "frame_of_symbol y mname =
     \<lparr>symbol_name = symbol_text y, frame_module_name = mname, frame_file_path = symbol_file y,
      function_line_number = symbol_function_line y, instruction_line_number = symbol_line y\<rparr>"

definition resolve_frame :: "symbol_source \<Rightarrow> perf_provider \<Rightarrow> u32 \<Rightarrow> u64 \<Rightarrow> u64 \<Rightarrow> error + stack_frame" where
  "resolve_frame symbols pv pid time ip =
     bind_result (at_or_throw (get_modules (pv_context pv) pid)) (\<lambda>modules.
       case mm_find modules ip time True of
         None \<Rightarrow> Inr (frame_of_symbol (symbols (None, ip)) ''[unknown]'')
       | Some (m, load_time) \<Rightarrow>
           Inr (frame_of_symbol
             (symbols (Some \<lparr>image_filename = perf_filename (mi_payload m),
                image_build_id = try_get_module_build_id (pv_build_ids pv) (mi_payload m),
                image_base = mi_base m, image_page_offset = perf_page_offset (mi_payload m),
                image_process_id = pid, image_load_timestamp = load_time\<rparr>, ip))
             (perf_filename (mi_payload m))))"

text \<open>Addresses from here on mark a change of context in a stack; they are skipped.\<close>

definition context_marker_max :: u64 where "context_marker_max = - 4095"

definition no_frame :: stack_frame where
  "no_frame = \<lparr>symbol_name = [], frame_module_name = [], frame_file_path = [], function_line_number = 0,
     instruction_line_number = 0\<rparr>"

text \<open>What a consumer reads of a sample: the stack if there is one, otherwise the frame.\<close>

definition perf_sample :: "symbol_source \<Rightarrow> perf_provider \<Rightarrow> u32 \<Rightarrow> sample_info \<Rightarrow> error + sample_data" where
  "perf_sample symbols pv pid s =
     (case info_stack_index s of
        Some i \<Rightarrow>
          bind_result (map_result (resolve_frame symbols pv pid (info_timestamp s))
              (filter (\<lambda>ip. \<not> ip \<ge> context_marker_max) (rev (stack_get (pc_stacks (pv_context pv)) i)))) (\<lambda>frames.
            Inr \<lparr>has_stack = True, has_frame = info_instruction_pointer s \<noteq> None, reversed_stack = frames, frame = no_frame\<rparr>)
      | None \<Rightarrow>
          (case info_instruction_pointer s of
             None \<Rightarrow> Inr \<lparr>has_stack = False, has_frame = False, reversed_stack = [], frame = no_frame\<rparr>
           | Some ip \<Rightarrow> bind_result (resolve_frame symbols pv pid (info_timestamp s) ip) (\<lambda>fr.
               Inr \<lparr>has_stack = False, has_frame = True, reversed_stack = [], frame = fr\<rparr>)))"

section \<open>Samples\<close>

definition spanned_samples :: "perf_provider \<Rightarrow> nat \<Rightarrow> sample_filter \<Rightarrow> (u32, u64, perf_thread) history_entry \<Rightarrow> sample_info list" where
  "spanned_samples pv src f th =
     (case get_filter_timespan th f (pv_session_start pv) of
        (a, b) \<Rightarrow> thread_samples (pv_context pv) (entry_id th) a b (pv_source_ids pv ! src))"

fun collect_threads ::
  "perf_provider \<Rightarrow> nat \<Rightarrow> sample_filter \<Rightarrow> nat list \<Rightarrow> error + sample_info list list" where
  "collect_threads pv src f [] = Inr []"
| "collect_threads pv src f (t # ts) =
     (if t \<in> excluded_threads f then collect_threads pv src f ts
      else bind_result (get_thread_from_id (pv_context pv) t) (\<lambda>th_opt.
        case th_opt of
          None \<Rightarrow> collect_threads pv src f ts
        | Some th \<Rightarrow>
            (let xs = spanned_samples pv src f th in
             if xs = [] then collect_threads pv src f ts
             else bind_result (collect_threads pv src f ts) (\<lambda>xss. Inr (xs # xss)))))"

definition perf_sample_infos ::
  "(sample_queue \<Rightarrow> nat) \<Rightarrow> perf_provider \<Rightarrow> nat \<Rightarrow> nat \<Rightarrow> sample_filter \<Rightarrow> error + sample_info list" where
  "perf_sample_infos top_index pv src pid f =
     bind_result (at_or_throw (get_process_threads (pv_context pv) pid)) (\<lambda>ts.
     bind_result (collect_threads pv src f ts) (\<lambda>xss.
       case merged_samples info_timestamp top_index xss of None \<Rightarrow> Inl Undefined | Some xs \<Rightarrow> Inr xs))"

definition perf_samples ::
  "symbol_source \<Rightarrow> (sample_queue \<Rightarrow> nat) \<Rightarrow> perf_provider \<Rightarrow> nat \<Rightarrow> nat \<Rightarrow> sample_filter \<Rightarrow> error + sample_data list" where
  "perf_samples symbols top_index pv src pid f =
     (if pid \<in> excluded_processes f then Inr []
      else if src \<ge> length (pv_source_ids pv) then Inr []
      else bind_result (at_or_throw (process_id_to_key (pv_context pv) pid)) (\<lambda>key.
        bind_result (perf_sample_infos top_index pv src pid f) (\<lambda>xs.
          map_result (perf_sample symbols pv (fst key)) xs)))"

definition perf_count_thread_samples :: "perf_provider \<Rightarrow> nat \<Rightarrow> nat \<Rightarrow> sample_filter \<Rightarrow> error + nat" where
  "perf_count_thread_samples pv src t f =
     (if t \<in> excluded_threads f then Inr 0
      else if src \<ge> length (pv_source_ids pv) then Inr 0
      else bind_result (get_thread_from_id (pv_context pv) t) (\<lambda>th_opt.
        case th_opt of None \<Rightarrow> Inr 0 | Some th \<Rightarrow> Inr (length (spanned_samples pv src f th))))"

definition perf_count_samples :: "perf_provider \<Rightarrow> nat \<Rightarrow> nat \<Rightarrow> sample_filter \<Rightarrow> error + nat" where
  "perf_count_samples pv src pid f =
     (if pid \<in> excluded_processes f then Inr 0
      else if src \<ge> length (pv_source_ids pv) then Inr 0
      else bind_result (at_or_throw (get_process_threads (pv_context pv) pid)) (\<lambda>ts.
        map_sum id sum_list (map_result (\<lambda>t. perf_count_thread_samples pv src t f) ts)))"

section \<open>Sources and totals\<close>

text \<open>\<open>process\<close>: the name of a source from the descriptions of the events.\<close>

fun source_name_of :: "event_desc_data list \<Rightarrow> u64 option \<Rightarrow> string option" where
  "source_name_of [] event_id = None"
| "source_name_of (d # ds) event_id =
     (case event_id of
        None \<Rightarrow> Some (desc_event_string d)
      | Some i \<Rightarrow> if i \<in> set (desc_ids d) then Some (desc_event_string d) else source_name_of ds event_id)"

definition name_source ::
  "event_desc_data list \<Rightarrow> perf_context \<Rightarrow> nat list \<times> (nat \<rightharpoonup> string) \<Rightarrow> nat \<Rightarrow> nat list \<times> (nat \<rightharpoonup> string)" where
  "name_source ds c = (\<lambda>(ids, names) src.
     let name = (case source_name_of ds (hd (the (pc_source_events c src))) of
           Some n \<Rightarrow> n
         | None \<Rightarrow> ''unknown event '' @ dec (length ids + 1))
     in (ids @ [src], names(src \<mapsto> name)))"

record source_tally =
  tally_count :: nat
  tally_start :: u64
  tally_end :: u64

definition no_tally :: source_tally where
  "no_tally = \<lparr>tally_count = 0, tally_start = - 1, tally_end = 0\<rparr>"

definition tally_samples :: "sample_info list \<Rightarrow> source_tally \<Rightarrow> source_tally" where
  "tally_samples xs t =
     (let t1 = (if xs \<noteq> [] then t\<lparr>tally_start := min (tally_start t) (info_timestamp (hd xs)),
                                  tally_end := max (tally_end t) (info_timestamp (last xs))\<rparr>
                else t)
      in t1\<lparr>tally_count := tally_count t1 + length xs\<rparr>)"

definition own_samples :: "perf_context \<Rightarrow> (u32, u64, perf_thread) history_entry \<Rightarrow> nat \<Rightarrow> sample_info list" where
  "own_samples c th src = thread_samples c (entry_id th) (timestamp th) (life_end_time (payload th)) src"

record totals =
  tot_sources :: "source_tally list"
  tot_samples :: nat
  tot_threads :: nat

definition tally_thread :: "perf_context \<Rightarrow> nat list \<Rightarrow> (u32, u64, perf_thread) history_entry \<Rightarrow> totals \<Rightarrow> totals" where
  "tally_thread c ids th t =
     t\<lparr>tot_sources := map2 (\<lambda>src. tally_samples (own_samples c th src)) ids (tot_sources t),
       tot_samples := foldl (\<lambda>n src. n + length (own_samples c th src)) (tot_samples t) ids\<rparr>"

fun tally_threads :: "perf_context \<Rightarrow> nat list \<Rightarrow> nat list \<Rightarrow> totals \<Rightarrow> error + totals" where
  "tally_threads c ids [] t = Inr t"
| "tally_threads c ids (u # us) t =
     bind_result (get_thread_from_id c u) (\<lambda>th_opt.
       tally_threads c ids us (case th_opt of None \<Rightarrow> t | Some th \<Rightarrow> tally_thread c ids th t))"

fun tally_processes :: "perf_context \<Rightarrow> nat list \<Rightarrow> perf_key list \<Rightarrow> totals \<Rightarrow> error + totals" where
  "tally_processes c ids [] t = Inr t"
| "tally_processes c ids (k # ks) t =
     (case history_find_at (pc_processes c) (fst k) (snd k) False of
        None \<Rightarrow> tally_processes c ids ks t
      | Some p \<Rightarrow>
          bind_result (at_or_throw (get_process_threads c (unique_id_of p))) (\<lambda>ts.
          bind_result (tally_threads c ids ts (t\<lparr>tot_threads := tot_threads t + length ts\<rparr>)) (\<lambda>t1.
            tally_processes c ids ks t1)))"

text \<open>The session. A time in nanoseconds is a signed 64 bit number.\<close>

definition widen_session :: "int \<times> int \<Rightarrow> source_tally \<Rightarrow> int \<times> int" where
  "widen_session = (\<lambda>(a, b) t.
     if tally_start t > tally_end t then (a, b)
     else (min a (sint (tally_start t)), max b (sint (tally_end t))))"

definition sampling_rate :: "source_tally \<Rightarrow> double_value" where
  "sampling_rate t =
     (if tally_start t > tally_end t then zero_double
      else let runtime = sint (tally_end t) - sint (tally_start t) in
        if runtime = 0 then zero_double else other_double (int (tally_count t)) runtime)"

fun join_words :: "string list \<Rightarrow> string" where
  "join_words [] = []"
| "join_words (x # xs) = foldl (\<lambda>result entry. result @ '' '' @ entry) x xs"

definition or_unknown :: "string option \<Rightarrow> string" where
  "or_unknown x = (case x of Some s \<Rightarrow> s | None \<Rightarrow> ''[unknown]'')"

definition process_recording ::
  "int \<Rightarrow> perf_metadata \<Rightarrow> nat list \<Rightarrow> perf_key list \<Rightarrow> perf_context \<Rightarrow> error + perf_provider" where
  "process_recording date md source_order process_order c =
     (case foldl (name_source (md_event_desc md) c) ([], Map.empty) source_order of
        (ids0, names) \<Rightarrow>
      let ids = sort ids0 in
      bind_result (tally_processes c ids process_order
          \<lparr>tot_sources = map (\<lambda>_. no_tally) ids, tot_samples = 0, tot_threads = 0\<rparr>) (\<lambda>t.
      let sources = map (\<lambda>i. \<lparr>source_id = i, source_name = the (names (ids ! i)),
              number_of_samples = tally_count (tot_sources t ! i),
              average_sampling_rate = sampling_rate (tot_sources t ! i),
              has_stacks = sample_source_has_stacks c (ids ! i)\<rparr>) [0..<length ids];
          (start_time, end_time) = foldl widen_session
              (case md_sample_time md of Some st \<Rightarrow> st | None \<Rightarrow> (2 ^ 63 - 1, - (2 ^ 63))) (tot_sources t);
          runtime = (if start_time < end_time then end_time - start_time else 0)
      in Inr \<lparr>pv_context = c, pv_build_ids = md_build_ids md,
          pv_session = \<lparr>command_line = (case md_cmdline md of Some ws \<Rightarrow> join_words ws | None \<Rightarrow> ''[unknown]''),
             session_date = date, session_runtime = runtime, number_of_processes = length process_order,
             number_of_threads = tot_threads t, session_samples = tot_samples t\<rparr>,
          pv_system = \<lparr>hostname = or_unknown (md_hostname md), platform = or_unknown (md_os_release md),
             architecture = or_unknown (md_arch md), cpu_name = or_unknown (md_cpu_desc md),
             number_of_processors = (case md_nr_cpus md of Some n \<Rightarrow> unat (fst n) | None \<Rightarrow> 0)\<rparr>,
          pv_sources = sources, pv_source_ids = ids,
          pv_session_start = of_int start_time, pv_session_end = of_int end_time,
          pv_process_order = process_order\<rparr>))"

section \<open>Processes and threads\<close>

definition perf_sampling_processes :: "perf_provider \<Rightarrow> nat list" where
  "perf_sampling_processes pv =
     concat (map (\<lambda>k. case history_find_at (pc_processes (pv_context pv)) (fst k) (snd k) False of
         None \<Rightarrow> []
       | Some p \<Rightarrow> (case life_unique_id (payload p) of None \<Rightarrow> [] | Some u \<Rightarrow> [u])) (pv_process_order pv))"

definition session_time :: "perf_provider \<Rightarrow> u64 \<Rightarrow> int" where
  "session_time pv t = from_relative_timestamp t (pv_session_start pv)"

definition perf_process_info :: "perf_provider \<Rightarrow> nat \<Rightarrow> error + process_info" where
  "perf_process_info pv u =
     bind_result (at_or_throw (process_id_to_key (pv_context pv) u)) (\<lambda>key.
       case history_find_at (pc_processes (pv_context pv)) (fst key) (snd key) False of
         None \<Rightarrow> Inl (Throw (''Invalid process '' @ dec (unat (fst key)) @ '' @'' @ dec (unat (snd key))))
       | Some p \<Rightarrow> Inr \<lparr>process_key = u, process_os_id = unat (entry_id p), process_name = or_unknown (life_name (payload p)),
           process_start_time = session_time pv (timestamp p),
           process_end_time = session_time pv (case life_end_time (payload p) of Some e \<Rightarrow> e | None \<Rightarrow> pv_session_end pv),
           process_context_switches = None, process_counters = []\<rparr>)"

fun threads_info_of :: "perf_provider \<Rightarrow> int \<Rightarrow> nat list \<Rightarrow> error + thread_info list" where
  "threads_info_of pv process_end [] = Inr []"
| "threads_info_of pv process_end (u # us) =
     bind_result (get_thread_from_id (pv_context pv) u) (\<lambda>th_opt.
       case th_opt of
         None \<Rightarrow> threads_info_of pv process_end us
       | Some th \<Rightarrow> bind_result (threads_info_of pv process_end us) (\<lambda>infos.
           Inr (\<lparr>thread_key = u, thread_os_id = unat (entry_id th), thread_name = life_name (payload th),
             thread_start_time = session_time pv (timestamp th),
             thread_end_time = (case life_end_time (payload th) of Some e \<Rightarrow> session_time pv e | None \<Rightarrow> process_end),
             thread_context_switches = None, thread_counters = []\<rparr> # infos)))"

definition perf_threads_info :: "perf_provider \<Rightarrow> nat \<Rightarrow> error + thread_info list" where
  "perf_threads_info pv u =
     bind_result (perf_process_info pv u) (\<lambda>p.
     bind_result (at_or_throw (get_process_threads (pv_context pv) u)) (\<lambda>ts.
       threads_info_of pv (process_end_time p) ts))"

section \<open>Taking and counting the samples of known threads\<close>

definition threads_known :: "perf_context \<Rightarrow> nat list \<Rightarrow> bool" where
  "threads_known c ts \<longleftrightarrow> (\<forall>t \<in> set ts. thread_id_to_key c t \<noteq> None)"

definition thread_spans :: "perf_provider \<Rightarrow> nat \<Rightarrow> sample_filter \<Rightarrow> nat \<Rightarrow> sample_info list" where
  "thread_spans pv src f t =
     (if t \<in> excluded_threads f then []
      else case get_thread_from_id (pv_context pv) t of Inr (Some th) \<Rightarrow> spanned_samples pv src f th | _ \<Rightarrow> [])"

lemma collect_threads_spans:
  "threads_known (pv_context pv) ts \<Longrightarrow>
     collect_threads pv src f ts = Inr (filter (\<lambda>xs. xs \<noteq> []) (map (thread_spans pv src f) ts))"
proof (induction ts)
  case (Cons t ts)
  then obtain k where "thread_id_to_key (pv_context pv) t = Some k" by (auto simp: threads_known_def)
  moreover have "threads_known (pv_context pv) ts" using Cons.prems by (simp add: threads_known_def)
  ultimately show ?case
    using Cons.IH by (simp add: thread_spans_def get_thread_from_id_def Let_def split: option.split)
qed simp

lemma count_thread_spans:
  "src < length (pv_source_ids pv) \<Longrightarrow> threads_known (pv_context pv) [t] \<Longrightarrow>
     perf_count_thread_samples pv src t f = Inr (length (thread_spans pv src f t))"
  by (auto simp: perf_count_thread_samples_def thread_spans_def get_thread_from_id_def threads_known_def split: option.split)

lemma count_spans:
  assumes "src < length (pv_source_ids pv)" "u \<notin> excluded_processes f"
    "get_process_threads (pv_context pv) u = Some ts" "threads_known (pv_context pv) ts"
  shows "perf_count_samples pv src u f = Inr (length (concat (map (thread_spans pv src f) ts)))"
proof -
  have "\<forall>t \<in> set ts. perf_count_thread_samples pv src t f = Inr (length (thread_spans pv src f t))"
    using assms(1,4) by (auto intro!: count_thread_spans simp: threads_known_def)
  from map_result_all [OF this] assms(1-3) show ?thesis
    by (simp add: perf_count_samples_def length_concat comp_def)
qed

lemma concat_nonempty: "concat (filter (\<lambda>xs. xs \<noteq> []) xss) = concat xss"
  by (induction xss) auto

lemma spans_sorted:
  assumes "\<forall>tid. sorted (map info_timestamp (samples_of (pv_context pv) tid (pv_source_ids pv ! src)))"
  shows "sorted (map info_timestamp (thread_spans pv src f t))"
  by (auto simp: thread_spans_def spanned_samples_def thread_samples_interval [OF assms [rule_format]]
      intro: sorted_filter assms [rule_format] split: sum.split option.split prod.split)

lemma taken_spans:
  assumes "get_process_threads (pv_context pv) u = Some ts" "threads_known (pv_context pv) ts" "top_spec top_index"
    "\<forall>tid. sorted (map info_timestamp (samples_of (pv_context pv) tid (pv_source_ids pv ! src)))"
  shows "\<exists>xs. perf_sample_infos top_index pv src u f = Inr xs \<and> sorted (map info_timestamp xs) \<and>
    mset xs = mset (concat (map (thread_spans pv src f) ts))"
proof -
  let ?xss = "filter (\<lambda>xs. xs \<noteq> []) (map (thread_spans pv src f) ts)"
  have "\<forall>xs \<in> set ?xss. xs \<noteq> [] \<and> sorted (map info_timestamp xs)" using spans_sorted [OF assms(4)] by auto
  from merged_samples_ok [OF this assms(3)] assms(1) collect_threads_spans [OF assms(2), of src f]
  show ?thesis by (auto simp: perf_sample_infos_def concat_nonempty)
qed

section \<open>Providers of whole recordings\<close>

lemma name_source_ids: "fst (foldl (name_source ds c) (ids, names) so) = ids @ so"
  by (induction so arbitrary: ids names) (auto simp: name_source_def)

lemma process_recording_sel:
  assumes "process_recording date md so po c = Inr pv"
  shows "pv_context pv = c" "pv_process_order pv = po" "length (pv_sources pv) = length (pv_source_ids pv)"
    "mset (pv_source_ids pv) = mset so"
    "\<exists>t. tally_processes c (pv_source_ids pv) po
       \<lparr>tot_sources = map (\<lambda>_. no_tally) (pv_source_ids pv), tot_samples = 0, tot_threads = 0\<rparr> = Inr t \<and>
       tot_samples t = session_samples (pv_session pv) \<and>
       (\<forall>i < length (pv_sources pv). number_of_samples (pv_sources pv ! i) = tally_count (tot_sources t ! i))"
proof -
  obtain ids names where names: "foldl (name_source (md_event_desc md) c) ([], Map.empty) so = (ids, names)"
    by (metis surj_pair)
  obtain t where t: "tally_processes c (sort ids) po
      \<lparr>tot_sources = map (\<lambda>_. no_tally) (sort ids), tot_samples = 0, tot_threads = 0\<rparr> = Inr t"
    using assms by (auto simp: process_recording_def names Let_def bind_result_Inr)
  obtain a b where ab: "foldl widen_session (case md_sample_time md of None \<Rightarrow> (2 ^ 63 - 1, - (2 ^ 63)) | Some st \<Rightarrow> st)
      (tot_sources t) = (a, b)" by (metis surj_pair)
  note eq = assms [unfolded process_recording_def Let_def names prod.case t ab bind_result_simps sum.inject, symmetric]
  show "pv_context pv = c" "pv_process_order pv = po" "length (pv_sources pv) = length (pv_source_ids pv)"
    by (simp_all add: eq)
  show "mset (pv_source_ids pv) = mset so" using name_source_ids [of "md_event_desc md" c "[]" Map.empty so] by (simp add: eq names)
  show "\<exists>t. tally_processes c (pv_source_ids pv) po
       \<lparr>tot_sources = map (\<lambda>_. no_tally) (pv_source_ids pv), tot_samples = 0, tot_threads = 0\<rparr> = Inr t \<and>
       tot_samples t = session_samples (pv_session pv) \<and>
       (\<forall>i < length (pv_sources pv). number_of_samples (pv_sources pv ! i) = tally_count (tot_sources t ! i))"
    using t by (intro exI [of _ t]) (simp add: eq)
qed

definition recorded :: "perf_event list \<Rightarrow> perf_context \<Rightarrow> perf_provider \<Rightarrow> bool" where
  "recorded es c pv \<longleftrightarrow>
     (\<exists>ip_hash ord event_ord c0 date md source_order process_order.
        handle_events ip_hash es empty_context = Some c0 \<and> key_order_spec ord \<and> c = finish ord event_ord c0 \<and>
        set process_order = pc_sampled_processes c \<and>
        process_recording date md source_order process_order c = Inr pv)"

text \<open>What is known of the processes a provider of a recording lists.\<close>

lemma recorded_process:
  assumes "recorded es c pv" "distinct_times (pc_processes c)" "u \<in> set (perf_sampling_processes pv)"
  shows "\<exists>ts. get_process_threads c u = Some ts \<and> threads_known c ts"
proof -
  obtain ip_hash ord eo c0 date md so po
    where run: "handle_events ip_hash es empty_context = Some c0" "key_order_spec ord" "c = finish ord eo c0"
      "set po = pc_sampled_processes c" "process_recording date md so po c = Inr pv"
    using assms(1) unfolding recorded_def by blast
  obtain k where k: "k \<in> pc_sampled_processes c"
    and u: "u \<in> set (case history_find_at (pc_processes c) (fst k) (snd k) False of None \<Rightarrow> []
        | Some p \<Rightarrow> (case life_unique_id (payload p) of None \<Rightarrow> [] | Some u \<Rightarrow> [u]))"
    using assms(3) run(4) unfolding perf_sampling_processes_def process_recording_sel(1,2) [OF run(5)] by auto
  obtain p where p: "history_find_at (pc_processes c) (fst k) (snd k) False = Some p" "life_unique_id (payload p) = Some u"
    using u by (cases "history_find_at (pc_processes c) (fst k) (snd k) False";
        cases "life_unique_id (payload (the (history_find_at (pc_processes c) (fst k) (snd k) False)))") auto
  have "u = unique_id_of p" using p(2) by (simp add: unique_id_of_def)
  with sampled_process_lookups [OF run(1,3,2) assms(2) k] p(1) show ?thesis
    unfolding threads_known_def by (metis option.distinct(1) option.inject)
qed

lemma recorded_sorted:
  assumes "recorded es c pv" "sorted (sample_times es)"
  shows "pv_context pv = c" "sorted (map info_timestamp (samples_of c tid src))"
  using assms process_recording_sel(1) stored_samples_sorted [OF _ assms(2)] unfolding recorded_def by blast+

text \<open>A recording can always be loaded: no lookup of \<open>process\<close> fails.\<close>

lemma tally_threads_Inr: "threads_known c us \<Longrightarrow> \<exists>t'. tally_threads c ids us t = Inr t'"
proof (induction us arbitrary: t)
  case (Cons u us)
  then obtain k where "thread_id_to_key c u = Some k" "threads_known c us" by (auto simp: threads_known_def)
  with Cons.IH show ?case by (simp add: get_thread_from_id_def)
qed simp

lemma tally_processes_Inr:
  assumes "\<forall>k \<in> set ks. \<forall>p. history_find_at (pc_processes c) (fst k) (snd k) False = Some p \<longrightarrow>
    (\<exists>ts. get_process_threads c (unique_id_of p) = Some ts \<and> threads_known c ts)"
  shows "\<exists>t'. tally_processes c ids ks t = Inr t'"
  using assms
proof (induction ks arbitrary: t)
  case (Cons k ks)
  show ?case
  proof (cases "history_find_at (pc_processes c) (fst k) (snd k) False")
    case None
    with Cons show ?thesis by simp
  next
    case (Some p)
    with Cons.prems obtain ts where ts: "get_process_threads c (unique_id_of p) = Some ts" "threads_known c ts" by auto
    obtain t1 where "tally_threads c ids ts (t\<lparr>tot_threads := tot_threads t + length ts\<rparr>) = Inr t1"
      using tally_threads_Inr [OF ts(2)] by blast
    with Some ts(1) Cons show ?thesis by simp
  qed
qed simp

lemma recording_loads:
  assumes run: "handle_events ip_hash es empty_context = Some c0" and c: "c = finish ord eo c0"
    and ord: "key_order_spec ord" and times: "distinct_times (pc_processes c)" and po: "set po = pc_sampled_processes c"
  shows "\<exists>pv. process_recording date md so po c = Inr pv"
proof -
  have "\<exists>ts. get_process_threads c (unique_id_of p) = Some ts \<and> threads_known c ts"
    if "k \<in> set po" "history_find_at (pc_processes c) (fst k) (snd k) False = Some p" for k p
    using sampled_process_lookups [OF run c ord times] that po unfolding threads_known_def
    by (metis option.distinct(1) option.inject)
  then have tally: "\<exists>t'. tally_processes c ids po t = Inr t'" for ids t by (intro tally_processes_Inr) blast
  obtain ids names where names: "foldl (name_source (md_event_desc md) c) ([], Map.empty) so = (ids, names)"
    by (metis surj_pair)
  obtain t where t: "tally_processes c (sort ids) po
      \<lparr>tot_sources = map (\<lambda>_. no_tally) (sort ids), tot_samples = 0, tot_threads = 0\<rparr> = Inr t"
    using tally by blast
  show ?thesis by (simp add: process_recording_def names Let_def t split: prod.split)
qed

text \<open>What the totals count.\<close>

lemma no_filter_spans: "spanned_samples pv src no_filter th = own_samples (pv_context pv) th (pv_source_ids pv ! src)"
  by (simp add: spanned_samples_def own_samples_def get_filter_timespan_def no_filter_def)

lemma tally_thread_count:
  assumes "length (tot_sources t) = length ids" "i < length ids"
  shows "length (tot_sources (tally_thread c ids th t)) = length ids"
    "tally_count (tot_sources (tally_thread c ids th t) ! i) = tally_count (tot_sources t ! i) + length (own_samples c th (ids ! i))"
  using assms by (simp_all add: tally_thread_def tally_samples_def Let_def)

lemma tally_threads_count:
  assumes "pv_context pv = c" "pv_source_ids pv = ids" "i < length ids" "tally_threads c ids us t = Inr t'"
    "length (tot_sources t) = length ids"
  shows "length (tot_sources t') = length ids \<and>
    (\<exists>ns. map_result (\<lambda>u. perf_count_thread_samples pv i u no_filter) us = Inr ns \<and>
      tally_count (tot_sources t' ! i) = tally_count (tot_sources t ! i) + sum_list ns)"
  using assms(4,5)
proof (induction us arbitrary: t)
  case (Cons u us)
  obtain x where x: "get_thread_from_id c u = Inr x"
      "tally_threads c ids us (case x of None \<Rightarrow> t | Some th \<Rightarrow> tally_thread c ids th t) = Inr t'"
    using Cons.prems(1) by (auto simp: bind_result_Inr)
  let ?t = "case x of None \<Rightarrow> t | Some th \<Rightarrow> tally_thread c ids th t"
  let ?n = "case x of None \<Rightarrow> 0 | Some th \<Rightarrow> length (own_samples c th (ids ! i))"
  have step: "length (tot_sources ?t) = length ids" "tally_count (tot_sources ?t ! i) = tally_count (tot_sources t ! i) + ?n"
    using tally_thread_count [OF Cons.prems(2) assms(3)] Cons.prems(2) by (simp_all split: option.split)
  have "perf_count_thread_samples pv i u no_filter = Inr ?n"
    using x(1) assms(1-3)
    by (auto simp: perf_count_thread_samples_def no_filter_spans split: option.split) (simp_all add: no_filter_def)
  with Cons.IH [OF x(2) step(1)] step(2) show ?case by auto
qed simp

lemma tally_processes_count:
  assumes "pv_context pv = c" "pv_source_ids pv = ids" "i < length ids" "tally_processes c ids ks t = Inr t'"
    "length (tot_sources t) = length ids"
    "\<And>k p. history_find_at (pc_processes c) (fst k) (snd k) False = Some p \<Longrightarrow> life_unique_id (payload p) = Some (unique_id_of p)"
  shows "\<exists>ns. map_result (\<lambda>u. perf_count_samples pv i u no_filter) (concat (map (\<lambda>k.
        case history_find_at (pc_processes c) (fst k) (snd k) False of
          None \<Rightarrow> []
        | Some p \<Rightarrow> (case life_unique_id (payload p) of None \<Rightarrow> [] | Some u \<Rightarrow> [u])) ks)) = Inr ns \<and>
      tally_count (tot_sources t' ! i) = tally_count (tot_sources t ! i) + sum_list ns"
  using assms(4,5)
proof (induction ks arbitrary: t)
  case (Cons k ks)
  show ?case
  proof (cases "history_find_at (pc_processes c) (fst k) (snd k) False")
    case None
    with Cons show ?thesis by simp
  next
    case (Some p)
    then obtain ts t1 where ts: "get_process_threads c (unique_id_of p) = Some ts"
        "tally_threads c ids ts (t\<lparr>tot_threads := tot_threads t + length ts\<rparr>) = Inr t1"
        "tally_processes c ids ks t1 = Inr t'"
      using Cons.prems(1) by (auto simp: bind_result_Inr)
    obtain ns where ns: "length (tot_sources t1) = length ids"
        "map_result (\<lambda>u. perf_count_thread_samples pv i u no_filter) ts = Inr ns"
        "tally_count (tot_sources t1 ! i) = tally_count (tot_sources t ! i) + sum_list ns"
      using tally_threads_count [OF assms(1-3) ts(2)] Cons.prems(2) by auto
    have "perf_count_samples pv i (unique_id_of p) no_filter = Inr (sum_list ns)"
      using ts(1) ns(2) assms(1-3) by (simp add: perf_count_samples_def) (simp add: no_filter_def)
    with Cons.IH [OF ts(3) ns(1)] ns(3) Some assms(6) show ?thesis by auto
  qed
qed simp

text \<open>A process none of whose mappings were recorded has no module map; the lookup throws.\<close>

definition reads_frame :: "perf_context \<Rightarrow> sample_info \<Rightarrow> bool" where
  "reads_frame c s \<longleftrightarrow>
     (case info_stack_index s of
        Some i \<Rightarrow> (\<exists>ip \<in> set (stack_get (pc_stacks c) i). \<not> ip \<ge> context_marker_max)
      | None \<Rightarrow> info_instruction_pointer s \<noteq> None)"

lemma resolve_frame_throws: "resolve_frame symbols pv pid time ip = Inl e \<Longrightarrow> e = OutOfRange"
  by (cases "get_modules (pv_context pv) pid") (auto simp: resolve_frame_def split: option.splits)

lemma perf_sample_throws: "perf_sample symbols pv pid s = Inl e \<Longrightarrow> e = OutOfRange"
  unfolding perf_sample_def
  by (cases "info_stack_index s"; cases "info_instruction_pointer s")
    (auto dest!: bind_result_Inl map_result_error resolve_frame_throws)

lemma perf_sample_unmapped:
  assumes "get_modules (pv_context pv) pid = None" "reads_frame (pv_context pv) s"
  shows "perf_sample symbols pv pid s = Inl OutOfRange"
proof -
  have r: "resolve_frame symbols pv pid time ip = Inl OutOfRange" for time ip
    using assms(1) by (simp add: resolve_frame_def)
  show ?thesis
  proof (cases "info_stack_index s")
    case None
    with assms(2) r show ?thesis by (auto simp: perf_sample_def reads_frame_def)
  next
    case (Some i)
    then obtain ip where "ip \<in> set (stack_get (pc_stacks (pv_context pv)) i)" "\<not> ip \<ge> context_marker_max"
      using assms(2) by (auto simp: reads_frame_def)
    then have "map_result (resolve_frame symbols pv pid (info_timestamp s))
        (filter (\<lambda>ip. \<not> ip \<ge> context_marker_max) (rev (stack_get (pc_stacks (pv_context pv)) i))) = Inl OutOfRange"
      using r by (intro map_result_fails [of _ _ _ ip]) auto
    with Some show ?thesis by (simp add: perf_sample_def)
  qed
qed

lemma mapped_samples_read:
  assumes "perf_sample_infos top_index pv src u f = Inr xs" "process_id_to_key (pv_context pv) u = Some key"
    "get_modules (pv_context pv) (fst key) \<noteq> None"
  shows "\<exists>ys. perf_samples symbols top_index pv src u f = Inr ys"
proof -
  obtain ms where "get_modules (pv_context pv) (fst key) = Some ms" using assms(3) by blast
  then have r: "\<exists>fr. resolve_frame symbols pv (fst key) time ip = Inr fr" for time ip
    by (auto simp: resolve_frame_def split: option.split)
  have "\<exists>ys. map_result (resolve_frame symbols pv (fst key) time) ips = Inr ys" for time ips
    using r by (intro map_result_total) blast
  with r have "\<exists>y. perf_sample symbols pv (fst key) s = Inr y" for s
    unfolding perf_sample_def by (auto split: option.split) (metis bind_result_simps(2))+
  then have "\<exists>ys. map_result (perf_sample symbols pv (fst key)) xs = Inr ys"
    by (intro map_result_total) blast
  with assms(1,2) show ?thesis by (simp add: perf_samples_def)
qed

section \<open>What is told of a recording\<close>


text \<open>The number of samples a provider tells for a process and a filter is the number of samples it
  gives, without reading them.\<close>
lemma perf_counts_what_it_gives:
  assumes "recorded es c pv" "sorted (sample_times es)" "distinct_times (pc_processes c)" "top_spec top_index"
    "u \<in> set (perf_sampling_processes pv)" "src < length (pv_source_ids pv)" "u \<notin> excluded_processes f"
    "perf_samples symbols top_index pv src u f = Inr xs"
  shows "perf_count_samples pv src u f = Inr (length xs)"
proof -
  note c = recorded_sorted [OF assms(1,2)]
  obtain ts where ts: "get_process_threads c u = Some ts" "threads_known c ts"
    using recorded_process [OF assms(1,3,5)] by blast
  obtain ys where ys: "perf_sample_infos top_index pv src u f = Inr ys"
      "mset ys = mset (concat (map (thread_spans pv src f) ts))"
    using taken_spans [of pv u ts top_index src f] c assms(4) ts by auto
  have "length xs = length ys"
    using assms(6-8) ys(1) by (auto simp: perf_samples_def bind_result_Inr dest: map_result_length)
  also have "\<dots> = length (concat (map (thread_spans pv src f) ts))" using ys(2) by (rule mset_eq_length)
  finally show ?thesis using count_spans [of src pv u f ts] assms(6,7) ts c(1) by simp
qed

text \<open>The number of samples told for a source is the sum of what the provider counts for each process it
  lists, without a filter.\<close>
lemma source_totals_add_up:
  assumes "recorded es c pv" "src < length (pv_sources pv)"
  shows "\<exists>ns. map_result (\<lambda>u. perf_count_samples pv src u no_filter) (perf_sampling_processes pv) = Inr ns \<and>
    number_of_samples (pv_sources pv ! src) = sum_list ns"
proof -
  obtain ip_hash ord eo c0 date md so po
    where run: "handle_events ip_hash es empty_context = Some c0" "key_order_spec ord" "c = finish ord eo c0"
      "process_recording date md so po c = Inr pv"
    using assms(1) unfolding recorded_def by blast
  note sel = process_recording_sel [OF run(4)]
  obtain t where t: "tally_processes c (pv_source_ids pv) po
       \<lparr>tot_sources = map (\<lambda>_. no_tally) (pv_source_ids pv), tot_samples = 0, tot_threads = 0\<rparr> = Inr t"
      "number_of_samples (pv_sources pv ! src) = tally_count (tot_sources t ! src)"
    using sel(5) assms(2) by blast
  have "src < length (pv_source_ids pv)" using assms(2) sel(3) by simp
  from tally_processes_count [OF sel(1) refl this t(1)] found_process_id [OF run(1,3,2)] this t(2)
  show ?thesis by (auto simp: perf_sampling_processes_def sel(1,2) no_tally_def)
qed

text \<open>If no mapping of a process was recorded, reading its samples throws \<open>std::out_of_range\<close> as soon as
  one of them has a frame, although generic symbols would do: a module that is not found is handled, a
  missing module map is not.\<close>
lemma unmapped_process_throws:
  assumes "process_id_to_key (pv_context pv) u = Some key" "get_modules (pv_context pv) (fst key) = None"
    "perf_sample_infos top_index pv src u f = Inr xs" "s \<in> set xs" "reads_frame (pv_context pv) s"
    "u \<notin> excluded_processes f" "src < length (pv_source_ids pv)"
  shows "perf_samples symbols top_index pv src u f = Inl OutOfRange"
proof -
  have "map_result (perf_sample symbols pv (fst key)) xs = Inl OutOfRange"
    using perf_sample_throws perf_sample_unmapped [OF assms(2,5)] assms(4)
    by (intro map_result_fails [of _ _ _ s]) blast+
  with assms show ?thesis by (simp add: perf_samples_def)
qed

section \<open>Examples\<close>

fun earliest_index :: "sample_queue \<Rightarrow> nat" where
  "earliest_index [] = 0"
| "earliest_index [x] = 0"
| "earliest_index (x # y # q) =
     (let k = earliest_index (y # q) in if fst x \<le> fst ((y # q) ! k) then 0 else Suc k)"

lemma earliest_index_spec: "top_spec earliest_index"
proof -
  have "q \<noteq> [] \<longrightarrow> earliest_index q < length q \<and> (\<forall>x \<in> set q. fst (q ! earliest_index q) \<le> fst x)" for q
    by (induction q rule: earliest_index.induct) (auto simp: Let_def)
  then show ?thesis by (simp add: top_spec_def)
qed

definition example_recording :: perf_provider where
  "example_recording = projr (process_recording 0 no_metadata [0] [(7, 100)] finished_example)"

lemma example_loaded:
  "process_recording 0 no_metadata [0] [(7, 100)] finished_example = Inr example_recording"
proof -
  obtain pv where "process_recording 0 no_metadata [0] [(7, 100)] finished_example = Inr pv"
    using recording_loads [OF recording_run(1) finished_example_def sorted_order_spec finished_run(1), of "[(7, 100)]"
      0 no_metadata "[0]"] by (auto simp: finished_run(3))
  then show ?thesis by (simp add: example_recording_def)
qed

lemma example_recorded: "recorded example_events finished_example example_recording"
proof -
  have "set [(7, 100)] = pc_sampled_processes finished_example" by (simp add: finished_run(3))
  then show ?thesis
    unfolding recorded_def using recording_run(1) sorted_order_spec finished_example_def example_loaded by blast
qed

lemma example_listed: "first_process_id \<in> set (perf_sampling_processes example_recording)"
  using process_recording_sel(1,2) [OF example_loaded]
  by (simp add: perf_sampling_processes_def example_lookup named_process_def unnamed_process_def)

lemma example_times: "sorted (sample_times example_events)"
  by (simp add: example_events_def sample_times_def example_event_def)


lemma example_read:
  "\<exists>xs. perf_samples symbols earliest_index example_recording 0 first_process_id no_filter = Inr xs"
proof -
  note sel = process_recording_sel [OF example_loaded]
  have key: "process_id_to_key finished_example first_process_id = Some (7, 100)"
    by (simp add: finished_example_def finish_def process_id_to_key_def numbered_keys)
  obtain ts where ts: "get_process_threads finished_example first_process_id = Some ts" "threads_known finished_example ts"
    using recorded_process [OF example_recorded finished_run(1) example_listed] by blast
  obtain xs where "perf_sample_infos earliest_index example_recording 0 first_process_id no_filter = Inr xs"
    using taken_spans [of example_recording first_process_id ts earliest_index 0 no_filter] ts earliest_index_spec
      recorded_sorted(2) [OF example_recorded example_times] sel(1) by auto
  from mapped_samples_read [OF this] key example_modules sel(1) show ?thesis by auto
qed

lemma perf_counts_what_it_gives_witness:
  "\<exists>xs. perf_samples (\<lambda>_. generic_symbol []) earliest_index example_recording 0 first_process_id no_filter = Inr xs \<and>
     perf_count_samples example_recording 0 first_process_id no_filter = Inr (length xs)"
proof -
  obtain xs where xs: "perf_samples (\<lambda>_. generic_symbol []) earliest_index example_recording 0 first_process_id no_filter = Inr xs"
    using example_read by blast
  have "0 < length (pv_source_ids example_recording)"
    using process_recording_sel(4) [OF example_loaded] by (cases "pv_source_ids example_recording") auto
  moreover have "first_process_id \<notin> excluded_processes no_filter" by (simp add: no_filter_def)
  ultimately show ?thesis
    using perf_counts_what_it_gives [OF example_recorded example_times finished_run(1) earliest_index_spec example_listed
      _ _ xs] xs by blast
qed

lemma source_totals_add_up_witness:
  "\<exists>ns. map_result (\<lambda>u. perf_count_samples example_recording 0 u no_filter) (perf_sampling_processes example_recording) = Inr ns \<and>
     number_of_samples (pv_sources example_recording ! 0) = sum_list ns"
proof -
  have "0 < length (pv_sources example_recording)"
    using process_recording_sel(3,4) [OF example_loaded] by (cases "pv_source_ids example_recording") auto
  then show ?thesis by (rule source_totals_add_up [OF example_recorded])
qed

text \<open>A thread with one sample in a process that maps nothing.\<close>

definition bare_sample :: sample_info where
  "bare_sample = \<lparr>info_thread_id = 7, info_timestamp = 120, info_instruction_pointer = Some 4096, info_stack_index = None\<rparr>"

definition bare_context :: perf_context where
  "bare_context = empty_context\<lparr>
     pc_threads := [7 \<mapsto> [\<lparr>entry_id = 7, timestamp = 100, payload = (new_thread 7 None)\<lparr>life_unique_id := Some 2\<rparr>\<rparr>]],
     pc_threads_per_process := [1 \<mapsto> [2]], pc_process_keys := [1 \<mapsto> (7, 100)], pc_thread_keys := [2 \<mapsto> (7, 100)],
     pc_samples := [0 \<mapsto> [7 \<mapsto> store_sample bare_sample empty_storage]]\<rparr>"

definition bare_recording :: perf_provider where
  "bare_recording = example_recording\<lparr>pv_context := bare_context, pv_source_ids := [0], pv_session_start := 0\<rparr>"

lemma bare_infos: "perf_sample_infos earliest_index bare_recording 0 1 no_filter = Inr [bare_sample]"
  by (simp add: perf_sample_infos_def bare_recording_def bare_context_def get_process_threads_def no_filter_def
      get_thread_from_id_def thread_id_to_key_def history_find_at_def spanned_samples_def get_filter_timespan_def
      new_thread_def thread_samples_def samples_of_def lower_bound_index_def store_sample_def empty_storage_def Let_def
      bare_sample_def merged_samples_def initial_queue_def merge_threads.simps take_run.simps remove_nth_def)

lemma unmapped_process_throws_witness:
  "perf_samples (\<lambda>_. generic_symbol []) earliest_index bare_recording 0 1 no_filter = Inl OutOfRange"
  by (rule unmapped_process_throws [OF _ _ bare_infos, of "(7, 100)" bare_sample])
    (simp_all add: bare_recording_def bare_context_def empty_context_def process_id_to_key_def get_modules_def
      reads_frame_def bare_sample_def no_filter_def)

end
