(* ===== verification/Bytes.thy ===== *)
theory Bytes
  imports Outcome
begin

text \<open>
  Integers and strings in files: \<open>snail/common/parser/extract.hpp\<close> and \<open>read.hpp\<close>. The machine that runs the
  program is little endian. Reading outside of a buffer, and using an integer that could not be read from a
  stream, is \<open>Undefined\<close>.
\<close>

section \<open>Byte order\<close>

datatype endian = little_endian | big_endian

abbreviation (input) native :: endian where "native \<equiv> little_endian"

fun le_value :: "u8 list \<Rightarrow> nat" where
  "le_value [] = 0"
| "le_value (b # bs) = unat b + 256 * le_value bs"

fun le_bytes :: "nat \<Rightarrow> nat \<Rightarrow> u8 list" where
  "le_bytes 0 v = []"
| "le_bytes (Suc n) v = of_nat (v mod 256) # le_bytes n (v div 256)"

text \<open>\<open>std::byteswap\<close> of an integer of \<open>n\<close> bytes.\<close>

definition byteswap :: "nat \<Rightarrow> nat \<Rightarrow> nat" where
  "byteswap n v = le_value (rev (le_bytes n v))"

text \<open>A number as a machine of some byte order writes it.\<close>

definition encode :: "endian \<Rightarrow> nat \<Rightarrow> nat \<Rightarrow> u8 list" where
  "encode order n v = (case order of little_endian \<Rightarrow> le_bytes n v | big_endian \<Rightarrow> rev (le_bytes n v))"

definition decode :: "endian \<Rightarrow> u8 list \<Rightarrow> nat" where
  "decode order bs = (case order of little_endian \<Rightarrow> le_value bs | big_endian \<Rightarrow> le_value (rev bs))"

section \<open>Buffers\<close>

definition extract_nat :: "endian \<Rightarrow> nat \<Rightarrow> u8 list \<Rightarrow> nat \<Rightarrow> error + nat" where
  "extract_nat order n bytes off =
     (if off + n > length bytes then Inl Undefined
      else let v = le_value (take n (drop off bytes)) in
        if n > 1 \<and> order \<noteq> native then Inr (byteswap n v) else Inr v)"

definition extract_int :: "endian \<Rightarrow> u8 list \<Rightarrow> nat \<Rightarrow> error + 'a::len word" where
  "extract_int order bytes off = map_sum id of_nat (extract_nat order (LENGTH('a) div 8) bytes off)"

text \<open>\<open>extract_move\<close> and \<open>extract_move_back\<close> return the new offset beside the value.\<close>

definition extract_move :: "endian \<Rightarrow> u8 list \<Rightarrow> nat \<Rightarrow> error + 'a::len word \<times> nat" where
  "extract_move order bytes off =
     bind_result (extract_int order bytes off) (\<lambda>v. Inr (v, off + LENGTH('a) div 8))"

definition extract_move_if :: "bool \<Rightarrow> endian \<Rightarrow> u8 list \<Rightarrow> nat \<Rightarrow> error + 'a::len word option \<times> nat" where
  "extract_move_if condition order bytes off =
     (if \<not> condition then Inr (None, off)
      else bind_result (extract_move order bytes off) (\<lambda>(v, off1). Inr (Some v, off1)))"

definition extract_move_back :: "endian \<Rightarrow> u8 list \<Rightarrow> nat \<Rightarrow> error + 'a::len word \<times> nat" where
  "extract_move_back order bytes off =
     (if off < LENGTH('a) div 8 then Inl Undefined
      else let off1 = off - LENGTH('a) div 8 in bind_result (extract_int order bytes off1) (\<lambda>v. Inr (v, off1)))"

definition extract_move_back_if :: "bool \<Rightarrow> endian \<Rightarrow> u8 list \<Rightarrow> nat \<Rightarrow> error + 'a::len word option \<times> nat" where
  "extract_move_back_if condition order bytes off =
     (if \<not> condition then Inr (None, off)
      else bind_result (extract_move_back order bytes off) (\<lambda>(v, off1). Inr (Some v, off1)))"

definition byte_char :: "u8 \<Rightarrow> char" where
  "byte_char b = char_of (unat b)"

text \<open>A string of \<open>char\<close>s ends before a zero byte, which has to be there.\<close>

definition extract_string :: "u8 list \<Rightarrow> nat \<Rightarrow> error + string" where
  "extract_string bytes off =
     (let s = takeWhile (\<lambda>b. b \<noteq> 0) (drop off bytes) in
      if off + length s < length bytes then Inr (map byte_char s) else Inl Undefined)"

definition subspan :: "nat \<Rightarrow> nat \<Rightarrow> u8 list \<Rightarrow> error + u8 list" where
  "subspan off n bytes = (if off + n > length bytes then Inl Undefined else Inr (take n (drop off bytes)))"

definition subspan_from :: "nat \<Rightarrow> u8 list \<Rightarrow> error + u8 list" where
  "subspan_from off bytes = (if off > length bytes then Inl Undefined else Inr (drop off bytes))"

section \<open>Streams\<close>

text \<open>An input file: its content, the position, and whether an operation failed. A failed stream stays
  failed; a read that runs into the end gives what there is.\<close>

record fstream =
  fs_content :: "u8 list"
  fs_position :: nat
  fs_good :: bool

definition stream_seek :: "nat \<Rightarrow> fstream \<Rightarrow> fstream" where
  "stream_seek off s =
     (if \<not> fs_good s then s else if off < 2 ^ 63 then s\<lparr>fs_position := off\<rparr> else s\<lparr>fs_good := False\<rparr>)"

definition stream_read :: "nat \<Rightarrow> fstream \<Rightarrow> u8 list \<times> fstream" where
  "stream_read n s =
     (if \<not> fs_good s then ([], s)
      else let bs = take n (drop (fs_position s) (fs_content s))
           in (bs, s\<lparr>fs_position := fs_position s + length bs, fs_good := (length bs = n)\<rparr>))"

definition read_int :: "endian \<Rightarrow> fstream \<Rightarrow> error + 'a::len word \<times> fstream" where
  "read_int order s =
     (case stream_read (LENGTH('a) div 8) s of
        (bs, s1) \<Rightarrow> bind_result (extract_int order bs 0) (\<lambda>v. Inr (v, s1)))"

text \<open>The buffer has one byte more than the length tells, so it ends with a zero; its size is computed with
  32 bits.\<close>

definition read_string :: "endian \<Rightarrow> fstream \<Rightarrow> error + string \<times> fstream" where
  "read_string order s =
     bind_result (read_int order s) (\<lambda>(n :: u32, s1).
       if n + 1 = 0 then Inl Undefined
       else case stream_read (unat n) s1 of
         (bs, s2) \<Rightarrow> Inr (map byte_char (takeWhile (\<lambda>b. b \<noteq> 0) bs), s2))"

fun read_times :: "(fstream \<Rightarrow> error + 'a \<times> fstream) \<Rightarrow> nat \<Rightarrow> fstream \<Rightarrow> error + 'a list \<times> fstream" where
  "read_times g 0 s = Inr ([], s)"
| "read_times g (Suc n) s =
     bind_result (g s) (\<lambda>(x, s1). bind_result (read_times g n s1) (\<lambda>(xs, s2). Inr (x # xs, s2)))"

definition read_string_list :: "endian \<Rightarrow> fstream \<Rightarrow> error + string list \<times> fstream" where
  "read_string_list order s =
     bind_result (read_int order s) (\<lambda>(n :: u32, s1). read_times (read_string order) (unat n) s1)"

section \<open>Values and bytes\<close>

lemma length_le_bytes [simp]: "length (le_bytes n v) = n"
  by (induction n arbitrary: v) auto

lemma length_encode [simp]: "length (encode order n v) = n"
  by (simp add: encode_def split: endian.split)

lemma le_value_bytes: "le_value (le_bytes n v) = v mod 256 ^ n"
proof (induction n arbitrary: v)
  case (Suc n)
  have "v mod 256 + 256 * (v div 256 mod 256 ^ n) = v mod (256 * 256 ^ n)"
    by (simp add: mod_mult2_eq)
  with Suc show ?case by (simp add: unat_of_nat)
qed simp

lemma le_bytes_value: "le_bytes (length bs) (le_value bs) = bs"
proof (induction bs)
  case (Cons b bs)
  have "unat b < 2 ^ LENGTH(8)" by (rule unsigned_less)
  with Cons show ?case by simp
qed simp

lemma le_value_less: "le_value bs < 256 ^ length bs"
  by (metis le_bytes_value le_value_bytes mod_less_divisor zero_less_numeral zero_less_power)

lemma decode_encode: "decode order (encode order n v) = v mod 256 ^ n"
  by (simp add: decode_def encode_def le_value_bytes split: endian.split)

lemma encode_decode: "encode order (length bs) (decode order bs) = bs"
  using le_bytes_value [of bs] le_bytes_value [of "rev bs"]
  by (simp add: decode_def encode_def split: endian.split)

text \<open>The swap makes reading independent of the machine.\<close>

lemma extract_nat_decode:
  "off + n \<le> length bytes \<Longrightarrow> extract_nat order n bytes off = Inr (decode order (take n (drop off bytes)))"
proof -
  assume n: "off + n \<le> length bytes"
  let ?bs = "take n (drop off bytes)"
  have len: "length ?bs = n" using n by simp
  have "byteswap n (le_value ?bs) = le_value (rev ?bs)"
    unfolding byteswap_def using le_bytes_value [of ?bs] len by simp
  moreover have "le_value (rev ?bs) = le_value ?bs" if "\<not> n > 1"
    using that len by (cases ?bs) (auto simp: length_Suc_conv)
  ultimately show ?thesis
    using n by (cases order) (auto simp: extract_nat_def decode_def Let_def)
qed

lemma extract_nat_bounds: "extract_nat order n bytes off = Inr v \<longleftrightarrow>
    off + n \<le> length bytes \<and> v = decode order (take n (drop off bytes))"
  using extract_nat_decode [of off n bytes order]
  by (cases "off + n \<le> length bytes") (auto simp: extract_nat_def)

lemma extract_int_Inr: "extract_int order bytes off = Inr (v :: 'a::len word) \<longleftrightarrow>
    off + LENGTH('a) div 8 \<le> length bytes \<and> v = of_nat (decode order (take (LENGTH('a) div 8) (drop off bytes)))"
  by (auto simp: extract_int_def map_sum_Inr extract_nat_bounds)

lemma extract_encoded:
  assumes "length pre = off" "8 * n = LENGTH('a::len)"
  shows "extract_int order (pre @ encode order n (unat v) @ post) off = Inr (v :: 'a word)"
proof -
  have n: "LENGTH('a) div 8 = n" using assms(2) by simp
  have "(256 :: nat) ^ n = 2 ^ LENGTH('a)" unfolding assms(2) [symmetric] power_mult by simp
  then have "unat v < 256 ^ n" using unsigned_less [of v] by simp
  with assms(1) show ?thesis unfolding extract_int_Inr n by (simp add: decode_encode)
qed

end
