(* ===== verification/Chunks.thy ===== *)
theory Chunks
  imports Bytes
begin

text \<open>
  Reading a section of a file in chunks: \<open>snail/common/chunked_reader.hpp\<close>, and the loop over the events of
  a section, \<open>read_events\<close> in \<open>snail/perf_data/perf_data_file.cpp\<close>. Shown: a section of whole events is split
  into exactly these events, whatever the chunks cut through; a section with one to seven bytes more never
  ends. Sizes are \<open>nat\<close>s; assertions are left out.
\<close>

section \<open>The reader\<close>

text \<open>\<open>rd_chunk_size\<close> is the size of the span \<open>current_chunk_data_\<close>, which starts at the front of the buffer.\<close>

record reader =
  rd_stream :: fstream
  rd_buffer :: "u8 list"
  rd_total :: nat
  rd_total_processed :: nat
  rd_chunk_size :: nat
  rd_chunk_processed :: nat
  rd_exhausted :: bool

definition chunked_reader :: "nat \<Rightarrow> nat \<Rightarrow> nat \<Rightarrow> fstream \<Rightarrow> error + reader" where
  "chunked_reader chunk_max off desired_size s =
     (let s1 = stream_seek off s in
      if \<not> fs_good s1 then Inl (Throw ''Failed to move to offset'')
      else Inr \<lparr>rd_stream = s1, rd_buffer = replicate chunk_max 0, rd_total = desired_size, rd_total_processed = 0,
        rd_chunk_size = 0, rd_chunk_processed = 0, rd_exhausted = True\<rparr>)"

text \<open>The left over bytes are taken from the end of the buffer, not from the end of the chunk.\<close>

definition keep_left_over :: "nat \<Rightarrow> u8 list \<Rightarrow> u8 list" where
  "keep_left_over n buffer = drop (length buffer - n) buffer @ drop n buffer"

definition read_next_chunk :: "reader \<Rightarrow> error + bool \<times> reader" where
  "read_next_chunk r =
     (let left_over = rd_chunk_size r - rd_chunk_processed r;
          buffer1 = keep_left_over left_over (rd_buffer r);
          processed1 = rd_total_processed r + rd_chunk_processed r;
          r1 = r\<lparr>rd_buffer := buffer1, rd_total_processed := processed1\<rparr>;
          remaining = rd_total r - processed1
      in if remaining = 0 then Inr (False, r1)
         else if \<not> fs_good (rd_stream r) then Inl (Throw ''Failed to read chunk from stream: stream is an invalid state.'')
         else let to_read = min (remaining - left_over) (length buffer1 - left_over) in
           case stream_read to_read (rd_stream r) of
             (bs, s1) \<Rightarrow>
               if length bs \<noteq> to_read then Inl (Throw ''ERROR: Could not read from stream'')
               else Inr (True, r1\<lparr>rd_stream := s1,
                 rd_buffer := take left_over buffer1 @ bs @ drop (left_over + to_read) buffer1,
                 rd_chunk_size := to_read + left_over, rd_chunk_processed := 0, rd_exhausted := False\<rparr>))"

definition retrieve_data :: "nat \<Rightarrow> bool \<Rightarrow> reader \<Rightarrow> u8 list \<times> reader" where
  "retrieve_data n peek r =
     (if rd_chunk_size r - rd_chunk_processed r < n then ([], r\<lparr>rd_exhausted := True\<rparr>)
      else (take n (drop (rd_chunk_processed r) (take (rd_chunk_size r) (rd_buffer r))),
        if peek then r else r\<lparr>rd_chunk_processed := rd_chunk_processed r + n\<rparr>))"

definition keep_going :: "reader \<Rightarrow> error + bool \<times> reader" where
  "keep_going r =
     (if rd_total_processed r = rd_total r then Inr (False, r)
      else if rd_exhausted r \<or> \<not> rd_chunk_processed r < rd_chunk_size r then read_next_chunk r
      else Inr (True, r))"

section \<open>Events\<close>

text \<open>The header of an event (\<open>event_header_view\<close>): its type, flags, and the size of the event with it.\<close>

definition event_type_of :: "endian \<Rightarrow> u8 list \<Rightarrow> error + u32" where
  "event_type_of order header = extract_int order header 0"

definition event_misc :: "endian \<Rightarrow> u8 list \<Rightarrow> error + u16" where
  "event_misc order header = extract_int order header 4"

definition event_size :: "endian \<Rightarrow> u8 list \<Rightarrow> error + nat" where
  "event_size order header = bind_result (extract_int order header 6) (\<lambda>n :: u16. Inr (unat n))"

text \<open>\<open>canceled k\<close> is what the cancellation token tells in round \<open>k\<close>. An event whose size is too small
  ends the loop with a message on the standard output.\<close>

partial_function (option) read_events_loop ::
  "endian \<Rightarrow> (u8 list \<Rightarrow> 's \<Rightarrow> error + 's) \<Rightarrow> (nat \<Rightarrow> bool) \<Rightarrow> nat \<Rightarrow> reader \<Rightarrow> 's \<Rightarrow> (error + 's \<times> fstream) option" where
  "read_events_loop order callback canceled k r s =
     (case keep_going r of
        Inl e \<Rightarrow> Some (Inl e)
      | Inr (keeps_going, r1) \<Rightarrow>
          if \<not> keeps_going \<or> canceled k then Some (Inr (s, rd_stream r1))
          else (case retrieve_data 8 True r1 of
            (header, r2) \<Rightarrow>
              if length header \<noteq> 8 then read_events_loop order callback canceled (Suc k) r2 s
              else (case event_size order header of
                Inl e \<Rightarrow> Some (Inl e)
              | Inr n \<Rightarrow>
                  if n < 8 then Some (Inr (s, rd_stream r2))
                  else (case retrieve_data n False r2 of
                    (event, r3) \<Rightarrow>
                      if length event \<noteq> n then read_events_loop order callback canceled (Suc k) r3 s
                      else (case callback event s of
                        Inl e \<Rightarrow> Some (Inl e)
                      | Inr s1 \<Rightarrow> read_events_loop order callback canceled (Suc k) r3 s1)))))"

definition max_chunk_size :: nat where "max_chunk_size = 0xFFFF + 1"

definition read_events ::
  "endian \<Rightarrow> nat \<Rightarrow> nat \<Rightarrow> (u8 list \<Rightarrow> 's \<Rightarrow> error + 's) \<Rightarrow> (nat \<Rightarrow> bool) \<Rightarrow> fstream \<Rightarrow> 's \<Rightarrow> (error + 's \<times> fstream) option" where
  "read_events order off n callback canceled file s =
     (case chunked_reader max_chunk_size off n file of
        Inl e \<Rightarrow> Some (Inl e)
      | Inr r \<Rightarrow> read_events_loop order callback canceled 0 r s)"

section \<open>What a reader still has to give\<close>

definition in_chunk :: "reader \<Rightarrow> u8 list" where
  "in_chunk r = drop (rd_chunk_processed r) (take (rd_chunk_size r) (rd_buffer r))"

definition reader_ok :: "u8 list \<Rightarrow> reader \<Rightarrow> bool" where
  "reader_ok section_bytes r \<longleftrightarrow>
     fs_good (rd_stream r) \<and> rd_chunk_processed r \<le> rd_chunk_size r \<and> rd_chunk_size r \<le> length (rd_buffer r) \<and>
     rd_total r = rd_total_processed r + rd_chunk_processed r + length section_bytes \<and>
     length (in_chunk r) \<le> length section_bytes \<and>
     fs_position (rd_stream r) + length section_bytes \<le> length (fs_content (rd_stream r)) + length (in_chunk r) \<and>
     section_bytes = in_chunk r @ take (length section_bytes - length (in_chunk r))
       (drop (fs_position (rd_stream r)) (fs_content (rd_stream r))) \<and>
     (length (in_chunk r) = length section_bytes \<or> in_chunk r = [] \<or> rd_chunk_size r = length (rd_buffer r))"

lemma length_in_chunk: "rd_chunk_size r \<le> length (rd_buffer r) \<Longrightarrow> length (in_chunk r) = rd_chunk_size r - rd_chunk_processed r"
  by (simp add: in_chunk_def)

lemma retrieve_data_eq:
  assumes "reader_ok bs r"
  shows "retrieve_data n peek r =
    (if length (in_chunk r) < n then ([], r\<lparr>rd_exhausted := True\<rparr>)
     else (take n bs, if peek then r else r\<lparr>rd_chunk_processed := rd_chunk_processed r + n\<rparr>))"
proof -
  have len: "rd_chunk_size r \<le> length (rd_buffer r)" and "\<exists>zs. bs = in_chunk r @ zs"
    using assms unfolding reader_ok_def by blast+
  then obtain zs where "bs = in_chunk r @ zs" by blast
  then have "take n bs = take n (in_chunk r)" if "\<not> length (in_chunk r) < n" using that by simp
  then show ?thesis
    using length_in_chunk [OF len] by (auto simp: retrieve_data_def in_chunk_def)
qed

lemma in_chunk_exhausted [simp]: "in_chunk (r\<lparr>rd_exhausted := x\<rparr>) = in_chunk r"
  by (simp add: in_chunk_def)

lemma reader_ok_exhausted: "reader_ok bs r \<Longrightarrow> reader_ok bs (r\<lparr>rd_exhausted := x\<rparr>)"
  by (simp add: reader_ok_def)

lemma reader_ok_advance:
  assumes ok: "reader_ok bs r" and n: "n \<le> length (in_chunk r)"
  shows "reader_ok (drop n bs) (r\<lparr>rd_chunk_processed := rd_chunk_processed r + n\<rparr>)"
proof -
  let ?r = "r\<lparr>rd_chunk_processed := rd_chunk_processed r + n\<rparr>"
  let ?l = "length (in_chunk r)"
  let ?t = "take (length bs - ?l) (drop (fs_position (rd_stream r)) (fs_content (rd_stream r)))"
  have chunk: "in_chunk ?r = drop n (in_chunk r)" by (simp add: in_chunk_def add.commute)
  have o: "rd_chunk_size r \<le> length (rd_buffer r)" "?l \<le> length bs" "bs = in_chunk r @ ?t"
    using ok by (auto simp: reader_ok_def)
  have size: "rd_chunk_processed r + n \<le> rd_chunk_size r"
    using n length_in_chunk [OF o(1)] ok unfolding reader_ok_def by linarith
  have rest: "length (drop n bs) - length (drop n (in_chunk r)) = length bs - ?l" using n o(2) by simp
  have "drop n (in_chunk r @ ?t) = drop n (in_chunk r) @ ?t" using n by simp
  then have bytes: "drop n bs = drop n (in_chunk r) @ ?t" using o(3) by simp
  have total: "rd_total r = rd_total_processed r + rd_chunk_processed r + length bs" "n \<le> length bs"
    using ok n o(2) by (auto simp: reader_ok_def)
  have room: "fs_position (rd_stream r) + length bs \<le> length (fs_content (rd_stream r)) + ?l"
      "fs_good (rd_stream r)" "?l = length bs \<or> in_chunk r = [] \<or> rd_chunk_size r = length (rd_buffer r)"
    using ok by (simp_all add: reader_ok_def)
  have full: "length (drop n (in_chunk r)) = length (drop n bs) \<or> drop n (in_chunk r) = [] \<or>
      rd_chunk_size r = length (rd_buffer r)"
    using room(3) n by auto
  show ?thesis unfolding reader_ok_def chunk rest
    using size o(1) bytes total room(1,2) full n o(2) by (intro conjI) simp_all
qed

lemma stream_read_ok:
  "fs_good s \<Longrightarrow> fs_position s + n \<le> length (fs_content s) \<Longrightarrow>
     stream_read n s = (take n (drop (fs_position s) (fs_content s)), s\<lparr>fs_position := fs_position s + n\<rparr>)"
  by (cases s) (simp add: stream_read_def)

text \<open>The next chunk: as much as fits of what is left.\<close>

lemma kept_bytes:
  assumes "rd_chunk_processed r \<le> rd_chunk_size r" "in_chunk r = [] \<or> rd_chunk_size r = length (rd_buffer r)"
    "rd_chunk_size r \<le> length (rd_buffer r)" "l = length (in_chunk r)"
  shows "length (keep_left_over l (rd_buffer r)) = length (rd_buffer r)"
    "take l (keep_left_over l (rd_buffer r)) = in_chunk r"
proof -
  have l: "l = rd_chunk_size r - rd_chunk_processed r" using length_in_chunk [OF assms(3)] assms(4) by simp
  show "length (keep_left_over l (rd_buffer r)) = length (rd_buffer r)"
    using l assms(3) by (auto simp: keep_left_over_def)
  show "take l (keep_left_over l (rd_buffer r)) = in_chunk r"
  proof (cases "in_chunk r = []")
    case False
    with assms(1,2) l show ?thesis by (auto simp: keep_left_over_def in_chunk_def)
  qed (simp add: assms(4))
qed

lemma next_chunk:
  assumes ok: "reader_ok bs r" and cut: "length (in_chunk r) < length bs"
  shows "\<exists>r'. read_next_chunk r = Inr (True, r') \<and> reader_ok bs r' \<and> \<not> rd_exhausted r' \<and>
    length (rd_buffer r') = length (rd_buffer r) \<and> fs_content (rd_stream r') = fs_content (rd_stream r) \<and>
    length (in_chunk r') = min (length bs) (length (rd_buffer r))"
proof -
  obtain s l where s: "s = rd_stream r" and l: "l = length (in_chunk r)" by blast
  have o: "fs_good s" "rd_chunk_processed r \<le> rd_chunk_size r" "rd_chunk_size r \<le> length (rd_buffer r)"
      "rd_total r = rd_total_processed r + rd_chunk_processed r + length bs"
      "fs_position s + length bs \<le> length (fs_content s) + l"
      "bs = in_chunk r @ take (length bs - l) (drop (fs_position s) (fs_content s))"
      "in_chunk r = [] \<or> rd_chunk_size r = length (rd_buffer r)"
    using ok cut unfolding reader_ok_def s l by auto
  have left: "rd_chunk_size r - rd_chunk_processed r = l" using length_in_chunk [OF o(3)] l by simp
  have lmax: "l \<le> length (rd_buffer r)" using left o(3) by simp
  obtain b where b: "b = keep_left_over l (rd_buffer r)" by blast
  have b': "length b = length (rd_buffer r)" "take l b = in_chunk r"
    using kept_bytes [OF o(2,7,3) l] b by simp_all
  obtain n where n: "n = min (length bs - l) (length b - l)" by blast
  have nle: "n \<le> length bs - l" "l + n \<le> length (rd_buffer r)" "l + n = min (length bs) (length (rd_buffer r))"
    using n b'(1) cut l lmax by auto
  obtain new where new: "new = take n (drop (fs_position s) (fs_content s))" by blast
  have fits: "fs_position s + n \<le> length (fs_content s)" using o(5) nle(1) l cut by simp
  then have ln: "length new = n" using new by simp
  let ?r = "r\<lparr>rd_buffer := take l b @ new @ drop (l + n) b, rd_total_processed := rd_total_processed r + rd_chunk_processed r,
      rd_stream := s\<lparr>fs_position := fs_position s + n\<rparr>,
      rd_chunk_size := n + l, rd_chunk_processed := 0, rd_exhausted := False\<rparr>"
  have run: "read_next_chunk r = Inr (True, ?r)"
  proof -
    have rem: "rd_total r - (rd_total_processed r + rd_chunk_processed r) = length bs" "length bs \<noteq> 0"
        "\<not> rd_total r \<le> rd_total_processed r + rd_chunk_processed r"
      using o(4) cut by auto
    show ?thesis
      by (simp add: read_next_chunk_def Let_def left b [symmetric] s [symmetric] rem n [symmetric] o(1) ln
          stream_read_ok [OF o(1) fits, folded new] del: length_0_conv)
  qed
  have buf: "length (rd_buffer ?r) = length (rd_buffer r)" using b'(1) ln nle(2) by simp
  have chunk: "in_chunk ?r = in_chunk r @ new" using b' ln lmax l by (simp add: in_chunk_def)
  have size: "length (in_chunk ?r) = l + n" unfolding chunk using ln l by simp
  obtain tail where tail: "tail = take (length bs - (l + n)) (drop (fs_position s + n) (fs_content s))" by blast
  have "take (length bs - l) (drop (fs_position s) (fs_content s)) = take (n + (length bs - (l + n))) (drop (fs_position s) (fs_content s))"
    using nle(1) cut l by simp
  also have "\<dots> = new @ tail" unfolding take_add new tail by (simp add: add.commute)
  finally have bytes: "bs = in_chunk ?r @ tail" using o(6) unfolding chunk by simp
  have pos: "fs_position (rd_stream ?r) = fs_position s + n" "fs_content (rd_stream ?r) = fs_content s" by simp_all
  have okr: "reader_ok bs ?r"
    unfolding reader_ok_def size buf
  proof (intro conjI)
    show "bs = in_chunk ?r @ take (length bs - (l + n)) (drop (fs_position (rd_stream ?r)) (fs_content (rd_stream ?r)))"
      unfolding pos using bytes unfolding tail .
    show "l + n = length bs \<or> in_chunk ?r = [] \<or> rd_chunk_size ?r = length (rd_buffer r)" using nle(3) by auto
  qed (use o(1,4,5) nle in simp_all)
  show ?thesis
  proof (intro exI conjI)
    show "read_next_chunk r = Inr (True, ?r)" by (rule run)
    show "reader_ok bs ?r" by (rule okr)
    show "length (rd_buffer ?r) = length (rd_buffer r)" by (rule buf)
    show "length (in_chunk ?r) = min (length bs) (length (rd_buffer r))" using size nle(3) by simp
  qed (simp_all add: s)
qed

text \<open>A reader that gives only what is there is never exhausted with the last bytes in its chunk.\<close>

definition reader_live :: "u8 list \<Rightarrow> reader \<Rightarrow> bool" where
  "reader_live bs r \<longleftrightarrow> reader_ok bs r \<and> 0 < length (rd_buffer r) \<and>
     (in_chunk r = bs \<longrightarrow> bs \<noteq> [] \<longrightarrow> \<not> rd_exhausted r)"

lemma in_chunk_all: "reader_ok bs r \<Longrightarrow> in_chunk r = bs \<longleftrightarrow> length (in_chunk r) = length bs"
  unfolding reader_ok_def by (metis append_self_conv diff_self_eq_0 take0)

lemma keep_going_more:
  assumes live: "reader_live bs r" and more: "bs \<noteq> []"
  shows "\<exists>r'. keep_going r = Inr (True, r') \<and> reader_live bs r' \<and> length (rd_buffer r') = length (rd_buffer r) \<and>
    fs_content (rd_stream r') = fs_content (rd_stream r) \<and>
    (if rd_exhausted r \<or> in_chunk r = []
     then \<not> rd_exhausted r' \<and> length (in_chunk r') = min (length bs) (length (rd_buffer r)) else r' = r)"
proof -
  have ok: "reader_ok bs r" and room: "0 < length (rd_buffer r)" using live by (simp_all add: reader_live_def)
  have size: "length (in_chunk r) = rd_chunk_size r - rd_chunk_processed r" "length (in_chunk r) \<le> length bs"
      "rd_total r = rd_total_processed r + rd_chunk_processed r + length bs"
    using ok length_in_chunk unfolding reader_ok_def by blast+
  have total: "rd_total_processed r \<noteq> rd_total r" using size(3) more by simp
  have empty: "in_chunk r = [] \<longleftrightarrow> \<not> rd_chunk_processed r < rd_chunk_size r" 
    unfolding length_0_conv [symmetric] size(1) by auto
  show ?thesis
  proof (cases "rd_exhausted r \<or> in_chunk r = []")
    case True
    then have "in_chunk r \<noteq> bs" using live more by (auto simp: reader_live_def)
    then have "length (in_chunk r) < length bs" using size(2) in_chunk_all [OF ok] by simp
    from next_chunk [OF ok this] True room total empty show ?thesis
      by (auto simp: keep_going_def reader_live_def)
  next
    case False
    with total empty live show ?thesis by (simp add: keep_going_def)
  qed
qed

lemma keep_going_done: "reader_ok [] r \<Longrightarrow> \<exists>r'. keep_going r = Inr (False, r') \<and> rd_stream r' = rd_stream r"
proof -
  assume ok: "reader_ok [] r"
  then have "rd_chunk_size r - rd_chunk_processed r = 0"
    using length_in_chunk [of r] by (simp add: reader_ok_def)
  with ok show ?thesis by (auto simp: keep_going_def reader_ok_def read_next_chunk_def Let_def)
qed

lemma retrieve_live:
  assumes "reader_live bs r" "n \<le> length bs" "0 < n"
  shows "if length (in_chunk r) < n
    then \<exists>r'. retrieve_data n peek r = ([], r') \<and> reader_live bs r' \<and> rd_exhausted r' \<and> length (rd_buffer r') = length (rd_buffer r) \<and>
      rd_stream r' = rd_stream r
    else \<exists>r'. retrieve_data n peek r = (take n bs, r') \<and> reader_live (if peek then bs else drop n bs) r' \<and>
      length (rd_buffer r') = length (rd_buffer r) \<and> rd_stream r' = rd_stream r \<and> (peek \<longrightarrow> r' = r)"
proof -
  have ok: "reader_ok bs r" using assms(1) by (simp add: reader_live_def)
  show ?thesis
  proof (cases "length (in_chunk r) < n")
    case True
    then have "in_chunk r \<noteq> bs" using assms(2) by auto
    with True assms(1) reader_ok_exhausted [OF ok, of True] show ?thesis
      by (simp add: retrieve_data_eq [OF ok] reader_live_def)
  next
    case False
    let ?r = "r\<lparr>rd_chunk_processed := rd_chunk_processed r + n\<rparr>"
    have chunk: "in_chunk ?r = drop n (in_chunk r)" by (simp add: in_chunk_def add.commute)
    have "in_chunk r = bs" if "in_chunk ?r = drop n bs"
    proof -
      have "length (in_chunk r) - n = length bs - n" using that unfolding chunk by (metis length_drop)
      then show ?thesis unfolding in_chunk_all [OF ok] using False assms(2) by linarith
    qed
    then have "reader_live (drop n bs) ?r"
      using assms(1,2) False reader_ok_advance [OF ok, of n] by (auto simp: reader_live_def)
    with False assms(1) show ?thesis by (simp add: retrieve_data_eq [OF ok])
  qed
qed

section \<open>The loop over the events\<close>

definition event_ok :: "endian \<Rightarrow> u8 list \<Rightarrow> bool" where
  "event_ok order ev \<longleftrightarrow> 8 \<le> length ev \<and> event_size order (take 8 ev) = Inr (length ev)"

fun handle_all :: "('e \<Rightarrow> 's \<Rightarrow> error + 's) \<Rightarrow> 'e list \<Rightarrow> 's \<Rightarrow> error + 's" where
  "handle_all callback [] s = Inr s"
| "handle_all callback (e # es) s = bind_result (callback e s) (handle_all callback es)"

lemma event_ok_size: "event_ok order ev \<Longrightarrow> length ev < max_chunk_size"
proof -
  assume "event_ok order ev"
  then obtain n :: u16 where n: "unat n = length ev" by (auto simp: event_ok_def event_size_def bind_result_Inr)
  have "unat n < 2 ^ LENGTH(16)" by (rule unsigned_less)
  with n show ?thesis by (simp add: max_chunk_size_def)
qed

lemma round_ready:
  assumes going: "keep_going r = Inr (True, r1)" and live: "reader_live (ev @ rest) r1"
    and ev: "event_ok order ev" and there: "length ev \<le> length (in_chunk r1)"
  shows "\<exists>r3. read_events_loop order callback (\<lambda>_. False) k r s =
      (case callback ev s of Inl e \<Rightarrow> Some (Inl e)
        | Inr s1 \<Rightarrow> read_events_loop order callback (\<lambda>_. False) (Suc k) r3 s1) \<and>
    reader_live rest r3 \<and> length (rd_buffer r3) = length (rd_buffer r1) \<and> rd_stream r3 = rd_stream r1"
proof -
  have size: "8 \<le> length ev" "event_size order (take 8 ev) = Inr (length ev)" using ev by (simp_all add: event_ok_def)
  then have pos: "0 < length ev" by linarith
  have "retrieve_data 8 True r1 = (take 8 ev, r1)"
    using retrieve_live [OF live, of 8 True] size(1) there by auto
  moreover obtain r3 where "retrieve_data (length ev) False r1 = (ev, r3)" "reader_live rest r3"
      "length (rd_buffer r3) = length (rd_buffer r1)" "rd_stream r3 = rd_stream r1"
    using retrieve_live [OF live, of "length ev" False] there pos by auto
  ultimately show ?thesis
    using size by (intro exI [of _ r3]) (simp add: read_events_loop.simps [of _ _ _ _ r] going)
qed

lemma round_short:
  assumes going: "keep_going r = Inr (True, r1)" and live: "reader_live (ev @ rest) r1"
    and ev: "event_ok order ev" and short: "length (in_chunk r1) < length ev"
  shows "\<exists>r2. read_events_loop order callback (\<lambda>_. False) k r s = read_events_loop order callback (\<lambda>_. False) (Suc k) r2 s \<and>
    reader_live (ev @ rest) r2 \<and> rd_exhausted r2 \<and> length (rd_buffer r2) = length (rd_buffer r1) \<and>
    rd_stream r2 = rd_stream r1"
proof -
  have size: "8 \<le> length ev" "event_size order (take 8 ev) = Inr (length ev)" using ev by (simp_all add: event_ok_def)
  show ?thesis
  proof (cases "length (in_chunk r1) < 8")
    case True
    with retrieve_live [OF live, of 8 True] size(1) obtain r2 where "retrieve_data 8 True r1 = ([], r2)"
        "reader_live (ev @ rest) r2" "rd_exhausted r2" "length (rd_buffer r2) = length (rd_buffer r1)" "rd_stream r2 = rd_stream r1"
      by auto
    then show ?thesis by (intro exI [of _ r2]) (simp add: read_events_loop.simps [of _ _ _ _ r] going)
  next
    case False
    then have header: "retrieve_data 8 True r1 = (take 8 ev, r1)"
      using retrieve_live [OF live, of 8 True] size(1) by auto
    have "0 < length ev" "ev \<noteq> []" using size(1) by auto
    with retrieve_live [OF live, of "length ev" False] short obtain r2 where "retrieve_data (length ev) False r1 = ([], r2)"
        "reader_live (ev @ rest) r2" "rd_exhausted r2" "length (rd_buffer r2) = length (rd_buffer r1)" "rd_stream r2 = rd_stream r1"
      by auto
    with header size \<open>ev \<noteq> []\<close> show ?thesis by (intro exI [of _ r2]) (simp add: read_events_loop.simps [of _ _ _ _ r] going)
  qed
qed

lemma one_event:
  assumes live: "reader_live (ev @ rest) r" and ev: "event_ok order ev" and room: "max_chunk_size \<le> length (rd_buffer r)"
  shows "\<exists>k' r3. read_events_loop order callback (\<lambda>_. False) k r s =
      (case callback ev s of Inl e \<Rightarrow> Some (Inl e)
        | Inr s1 \<Rightarrow> read_events_loop order callback (\<lambda>_. False) k' r3 s1) \<and>
    reader_live rest r3 \<and> max_chunk_size \<le> length (rd_buffer r3) \<and> fs_content (rd_stream r3) = fs_content (rd_stream r)"
proof -
  have more: "ev @ rest \<noteq> []" using ev by (auto simp: event_ok_def)
  have fits: "length ev \<le> min (length (ev @ rest)) n" if "max_chunk_size \<le> n" for n
    using event_ok_size [OF ev] that by simp
  obtain r1 where r1: "keep_going r = Inr (True, r1)" "reader_live (ev @ rest) r1"
      "length (rd_buffer r1) = length (rd_buffer r)" "fs_content (rd_stream r1) = fs_content (rd_stream r)"
    using keep_going_more [OF live more] by blast
  show ?thesis
  proof (cases "length ev \<le> length (in_chunk r1)")
    case True
    from round_ready [OF r1(1,2) ev True] r1(3,4) room show ?thesis by metis
  next
    case False
    then obtain r2 where r2: "read_events_loop order callback (\<lambda>_. False) k r s = read_events_loop order callback (\<lambda>_. False) (Suc k) r2 s"
        "reader_live (ev @ rest) r2" "rd_exhausted r2" "length (rd_buffer r2) = length (rd_buffer r1)" "rd_stream r2 = rd_stream r1"
      using round_short [OF r1(1,2) ev] by (metis not_less)
    obtain r4 where r4: "keep_going r2 = Inr (True, r4)" "reader_live (ev @ rest) r4"
        "length (rd_buffer r4) = length (rd_buffer r2)" "fs_content (rd_stream r4) = fs_content (rd_stream r2)"
        "length (in_chunk r4) = min (length (ev @ rest)) (length (rd_buffer r2))"
      using keep_going_more [OF r2(2) more] r2(3) by auto
    have "length ev \<le> length (in_chunk r4)" using r4(5) fits r2(4) r1(3) room by simp
    from round_ready [OF r4(1,2) ev this] r4(3,4) r2(1,4,5) r1(3,4) room show ?thesis by metis
  qed
qed

lemma all_events:
  assumes "reader_live (concat evs) r" "\<forall>ev \<in> set evs. event_ok order ev" "max_chunk_size \<le> length (rd_buffer r)"
  shows "\<exists>file. read_events_loop order callback (\<lambda>_. False) k r s =
      Some (map_sum id (\<lambda>s'. (s', file)) (handle_all callback evs s)) \<and>
    fs_good file \<and> fs_content file = fs_content (rd_stream r)"
  using assms
proof (induction evs arbitrary: k r s)
  case Nil
  then obtain r' where "keep_going r = Inr (False, r')" "rd_stream r' = rd_stream r"
    using keep_going_done [of r] by (auto simp: reader_live_def)
  moreover have "fs_good (rd_stream r)" using Nil(1) by (simp add: reader_live_def reader_ok_def)
  ultimately show ?case
    by (intro exI [of _ "rd_stream r"]) (simp add: read_events_loop.simps [of _ _ _ _ r])
next
  case (Cons ev evs)
  obtain k' r3 where r3: "read_events_loop order callback (\<lambda>_. False) k r s =
      (case callback ev s of Inl e \<Rightarrow> Some (Inl e)
        | Inr s1 \<Rightarrow> read_events_loop order callback (\<lambda>_. False) k' r3 s1)"
    "reader_live (concat evs) r3" "max_chunk_size \<le> length (rd_buffer r3)" "fs_content (rd_stream r3) = fs_content (rd_stream r)"
    using one_event [of ev "concat evs" r order callback k s] Cons.prems by auto
  have good: "fs_good (rd_stream r3)" using r3(2) by (simp add: reader_live_def reader_ok_def)
  show ?case
  proof (cases "callback ev s")
    case (Inl e)
    with r3(1,4) good show ?thesis by (intro exI [of _ "rd_stream r3"]) simp
  next
    case (Inr s1)
    with Cons.IH [OF r3(2) _ r3(3), of k' s1] Cons.prems(2) r3(1,4) show ?thesis by simp
  qed
qed

text \<open>The start of a section that is inside of the file.\<close>

definition section_at :: "nat \<Rightarrow> nat \<Rightarrow> fstream \<Rightarrow> u8 list" where
  "section_at off n file = take n (drop off (fs_content file))"

lemma chunked_reader_live:
  assumes "fs_good file" "off < 2 ^ 63" "off + n \<le> length (fs_content file)" "0 < chunk_max"
  shows "\<exists>r. chunked_reader chunk_max off n file = Inr r \<and> reader_live (section_at off n file) r \<and>
    length (rd_buffer r) = chunk_max \<and> fs_content (rd_stream r) = fs_content file"
  using assms
  by (auto simp: chunked_reader_def stream_seek_def Let_def section_at_def reader_live_def reader_ok_def in_chunk_def)

text \<open>A section that consists of whole events is read as exactly these events, in their order and each once,
  although chunks of 64 KiB cut through events and headers; the loop ends. The first exception of a
  handler ends it too.\<close>

lemma events_are_read:
  assumes "fs_good file" "off < 2 ^ 63" "off + n \<le> length (fs_content file)"
    "section_at off n file = concat evs" "\<forall>ev \<in> set evs. event_ok order ev"
  shows "\<exists>file'. read_events order off n callback (\<lambda>_. False) file s =
      Some (map_sum id (\<lambda>s'. (s', file')) (handle_all callback evs s)) \<and>
    fs_good file' \<and> fs_content file' = fs_content file"
proof -
  have "0 < max_chunk_size" by (simp add: max_chunk_size_def)
  from chunked_reader_live [OF assms(1,2,3) this] obtain r where r: "chunked_reader max_chunk_size off n file = Inr r"
      "reader_live (concat evs) r" "length (rd_buffer r) = max_chunk_size" "fs_content (rd_stream r) = fs_content file"
    unfolding assms(4) by blast
  from all_events [OF r(2) assms(5), of callback 0 s] r(1,3,4) show ?thesis by (auto simp: read_events_def)
qed

section \<open>Bytes that are no event\<close>

text \<open>A reader with some bytes left that are too few for a header.\<close>

definition stuck :: "nat \<Rightarrow> reader \<Rightarrow> bool" where
  "stuck m r \<longleftrightarrow> 0 < m \<and> m < 8 \<and> fs_good (rd_stream r) \<and>
     rd_chunk_processed r \<le> rd_chunk_size r \<and> rd_chunk_size r \<le> length (rd_buffer r) \<and>
     rd_total r = rd_total_processed r + rd_chunk_processed r + m \<and>
     rd_chunk_size r - rd_chunk_processed r \<le> m \<and>
     fs_position (rd_stream r) + m + rd_chunk_processed r \<le> length (fs_content (rd_stream r)) + rd_chunk_size r"

lemma stuck_next_chunk:
  assumes st: "stuck m r"
  shows "\<exists>r'. read_next_chunk r = Inr (True, r') \<and> stuck m r'"
proof -
  obtain l s where l: "l = rd_chunk_size r - rd_chunk_processed r" and s: "s = rd_stream r" by blast
  obtain b where b: "b = keep_left_over l (rd_buffer r)" by blast
  have o: "fs_good s" "rd_total r = rd_total_processed r + rd_chunk_processed r + m" "l \<le> m" "0 < m" "m < 8"
      "fs_position s + m \<le> length (fs_content s) + l" "l \<le> length (rd_buffer r)"
    using st unfolding stuck_def l s by auto
  have lb: "length b = length (rd_buffer r)" using o(7) by (simp add: b keep_left_over_def)
  obtain n where n: "n = min (m - l) (length b - l)" by blast
  have fits: "fs_position s + n \<le> length (fs_content s)" using o(3,6) n by simp
  obtain new where new: "new = take n (drop (fs_position s) (fs_content s))" by blast
  have ln: "length new = n" using fits by (simp add: new)
  let ?r = "r\<lparr>rd_buffer := take l b @ new @ drop (l + n) b, rd_total_processed := rd_total_processed r + rd_chunk_processed r,
      rd_stream := s\<lparr>fs_position := fs_position s + n\<rparr>,
      rd_chunk_size := n + l, rd_chunk_processed := 0, rd_exhausted := False\<rparr>"
  have rem: "rd_total r - (rd_total_processed r + rd_chunk_processed r) = m" using o(2) by simp
  have run: "read_next_chunk r = Inr (True, ?r)"
    using o(4) by (simp add: read_next_chunk_def Let_def l [symmetric] b [symmetric] s [symmetric] rem n [symmetric] o(1) ln
        stream_read_ok [OF o(1) fits, folded new] o(2))
  have "length (rd_buffer ?r) = length (rd_buffer r)" "n + l \<le> length (rd_buffer r)" "n + l \<le> m"
    using ln lb n o(3,7) by auto
  then have "stuck m ?r" using o n by (simp add: stuck_def)
  with run show ?thesis by blast
qed

lemma stuck_round:
  assumes st: "stuck m r"
  shows "\<exists>r1 r2. keep_going r = Inr (True, r1) \<and> retrieve_data 8 True r1 = ([], r2) \<and> stuck m r2"
proof -
  have "\<exists>r1. keep_going r = Inr (True, r1) \<and> stuck m r1"
    using stuck_next_chunk [OF st] st by (auto simp: keep_going_def stuck_def)
  then obtain r1 where r1: "keep_going r = Inr (True, r1)" "stuck m r1" by blast
  then have "rd_chunk_size r1 - rd_chunk_processed r1 < 8" by (simp add: stuck_def)
  then have "retrieve_data 8 True r1 = ([], r1\<lparr>rd_exhausted := True\<rparr>)" by (simp add: retrieve_data_def)
  moreover have "stuck m (r1\<lparr>rd_exhausted := True\<rparr>)" using r1(2) by (simp add: stuck_def)
  ultimately show ?thesis using r1(1) by blast
qed

lemma stuck_never_returns:
  assumes "stuck m r"
  shows "read_events_loop order callback (\<lambda>_. False) k r s = None"
proof -
  have "\<not> (stuck m r \<and> canceled = (\<lambda>_. False))"
    if r: "read_events_loop order callback canceled k r s = Some x" for canceled x
  proof (rule read_events_loop.raw_induct [where P = "\<lambda>order callback canceled k r s x. \<not> (stuck m r \<and> canceled = (\<lambda>_. False))",
        OF _ r], goal_cases)
    case (1 f order callback canceled k r s x)
    show ?case
    proof
      assume now: "stuck m r \<and> canceled = (\<lambda>_. False)"
      then obtain r1 r2 where "keep_going r = Inr (True, r1)" "retrieve_data 8 True r1 = ([], r2)" "stuck m r2"
        using stuck_round by blast
      then have "f order callback (\<lambda>_. False) (Suc k) r2 s = Some x" using 1(2) now by simp
      with 1(1) \<open>stuck m r2\<close> show False by blast
    qed
  qed
  with assms show ?thesis by (cases "read_events_loop order callback (\<lambda>_. False) k r s") auto
qed

lemma live_stuck:
  assumes "reader_live tail r" "0 < length tail" "length tail < 8"
  shows "stuck (length tail) r"
proof -
  have "rd_chunk_processed r \<le> rd_chunk_size r" "rd_chunk_size r \<le> length (rd_buffer r)" "fs_good (rd_stream r)"
      "rd_total r = rd_total_processed r + rd_chunk_processed r + length tail" "length (in_chunk r) \<le> length tail"
      "fs_position (rd_stream r) + length tail \<le> length (fs_content (rd_stream r)) + length (in_chunk r)"
    using assms(1) by (simp_all add: reader_live_def reader_ok_def)
  moreover from this have "length (in_chunk r) + rd_chunk_processed r = rd_chunk_size r"
    using length_in_chunk [of r] by simp
  ultimately show ?thesis using assms(2,3) unfolding stuck_def by linarith
qed

text \<open>A section that ends with one to seven bytes after its last event is never read to its end: the
  reader always has some bytes left, and never enough for a header. Nothing but a cancellation or an
  exception of a handler ends the loop.\<close>
lemma trailing_bytes_never_end:
  assumes inside: "fs_good file" "off < 2 ^ 63" "off + n \<le> length (fs_content file)"
    and bytes: "section_at off n file = concat evs @ tail" "0 < length tail" "length tail < 8"
    and evs: "\<forall>ev \<in> set evs. event_ok order ev" and handled: "handle_all callback evs s = Inr s'"
  shows "read_events order off n callback (\<lambda>_. False) file s = None"
proof -
  have never: "read_events_loop order callback (\<lambda>_. False) k r s = None"
    if "reader_live (concat evs @ tail) r" "\<forall>ev \<in> set evs. event_ok order ev" "max_chunk_size \<le> length (rd_buffer r)"
      "handle_all callback evs s = Inr s'" for k r s
    using that
  proof (induction evs arbitrary: k r s)
    case Nil
    with bytes(2,3) stuck_never_returns [OF live_stuck] show ?case by simp
  next
    case (Cons ev evs)
    then obtain s1 where s1: "callback ev s = Inr s1" "handle_all callback evs s1 = Inr s'" by (auto simp: bind_result_Inr)
    obtain k' r3 where "read_events_loop order callback (\<lambda>_. False) k r s =
        (case callback ev s of Inl e \<Rightarrow> Some (Inl e)
          | Inr s1 \<Rightarrow> read_events_loop order callback (\<lambda>_. False) k' r3 s1)"
      "reader_live (concat evs @ tail) r3" "max_chunk_size \<le> length (rd_buffer r3)"
      using one_event [of ev "concat evs @ tail" r order callback k s] Cons.prems by auto
    with s1 Cons.IH [of r3 s1 k'] Cons.prems(2) show ?case by simp
  qed
  have "0 < max_chunk_size" by (simp add: max_chunk_size_def)
  from chunked_reader_live [OF inside this] obtain r where r: "chunked_reader max_chunk_size off n file = Inr r"
      "reader_live (concat evs @ tail) r" "length (rd_buffer r) = max_chunk_size"
    unfolding bytes(1) by blast
  from never [OF r(2) evs _ handled, of 0] r(1,3) show ?thesis by (simp add: read_events_def)
qed

section \<open>Examples\<close>

text \<open>Two events without a body, at offset 2, and a section with three bytes more.\<close>

definition small_event :: "u8 list" where
  "small_event = [68, 0, 0, 0, 0, 0, 8, 0]"

definition example_file :: fstream where
  "example_file = \<lparr>fs_content = [1, 2] @ small_event @ small_event @ [3, 4, 5], fs_position = 0, fs_good = True\<rparr>"

lemma small_event_ok: "event_ok little_endian small_event"
  by (simp add: event_ok_def small_event_def event_size_def extract_int_def extract_nat_def Let_def)

lemma trailing_bytes_never_end_witness:
  "read_events little_endian 2 19 (\<lambda>ev n. Inr (n + length ev)) (\<lambda>_. False) example_file 0 = None"
  by (rule trailing_bytes_never_end [of _ _ _ "[small_event, small_event]" "[3, 4, 5]" _ _ _ 16])
    (simp_all add: example_file_def section_at_def small_event_ok [unfolded small_event_def] small_event_def)

end
