(* ===== verification/PerfEvents.thy ===== *)
theory PerfEvents
  imports Chunks PerfMetadata PerfContext
begin

unbundle bit_operations_syntax

text \<open>
  From bytes to events: \<open>snail/perf_data/parser/records/kernel.hpp\<close> and \<open>kernel.cpp\<close>, the attributes of an
  event (\<open>parser/event_attributes.hpp\<close>, \<open>detail/attributes_database.cpp\<close>) and the observers
  (\<open>dispatching_event_observer.hpp\<close>), with the handlers that the process context registers. Assertions are
  left out.
\<close>

section \<open>Sample ids\<close>

abbreviation has_flag :: "u64 \<Rightarrow> nat \<Rightarrow> bool" where "has_flag w n \<equiv> bit w n"

record sample_id =
  sid_pid :: "u32 option"
  sid_tid :: "u32 option"
  sid_time :: "u64 option"
  sid_id :: "u64 option"
  sid_stream_id :: "u64 option"
  sid_cpu :: "u32 option"
  sid_res :: "u32 option"

text \<open>Both assign the id twice: a field that is not there overwrites it with nothing.\<close>

definition parse_sample_id :: "u64 \<Rightarrow> endian \<Rightarrow> u8 list \<Rightarrow> error + sample_id" where
  "parse_sample_id fmt order bs =
     bind_result (extract_move_if (has_flag fmt format_tid) order bs 0) (\<lambda>(pid, o1).
     bind_result (extract_move_if (has_flag fmt format_tid) order bs o1) (\<lambda>(tid, o2).
     bind_result (extract_move_if (has_flag fmt format_time) order bs o2) (\<lambda>(time, o3).
     bind_result (extract_move_if (has_flag fmt format_id) order bs o3) (\<lambda>(id1 :: u64 option, o4).
     bind_result (extract_move_if (has_flag fmt format_stream_id) order bs o4) (\<lambda>(stream, o5).
     bind_result (extract_move_if (has_flag fmt format_cpu) order bs o5) (\<lambda>(cpu, o6).
     bind_result (extract_move_if (has_flag fmt format_cpu) order bs o6) (\<lambda>(res, o7).
     bind_result (extract_move_if (has_flag fmt format_identifier) order bs o7) (\<lambda>(id2, o8).
       Inr \<lparr>sid_pid = pid, sid_tid = tid, sid_time = time, sid_id = id2, sid_stream_id = stream,
         sid_cpu = cpu, sid_res = res\<rparr>))))))))"

definition parse_sample_id_back :: "u64 \<Rightarrow> endian \<Rightarrow> u8 list \<Rightarrow> error + sample_id" where
  "parse_sample_id_back fmt order bs =
     bind_result (extract_move_back_if (has_flag fmt format_identifier) order bs (length bs)) (\<lambda>(id2 :: u64 option, o1).
     bind_result (extract_move_back_if (has_flag fmt format_cpu) order bs o1) (\<lambda>(res, o2).
     bind_result (extract_move_back_if (has_flag fmt format_cpu) order bs o2) (\<lambda>(cpu, o3).
     bind_result (extract_move_back_if (has_flag fmt format_stream_id) order bs o3) (\<lambda>(stream, o4).
     bind_result (extract_move_back_if (has_flag fmt format_id) order bs o4) (\<lambda>(id1, o5).
     bind_result (extract_move_back_if (has_flag fmt format_time) order bs o5) (\<lambda>(time, o6).
     bind_result (extract_move_back_if (has_flag fmt format_tid) order bs o6) (\<lambda>(tid, o7).
     bind_result (extract_move_back_if (has_flag fmt format_tid) order bs o7) (\<lambda>(pid, o8).
       Inr \<lparr>sid_pid = pid, sid_tid = tid, sid_time = time, sid_id = id1, sid_stream_id = stream,
         sid_cpu = cpu, sid_res = res\<rparr>))))))))"

section \<open>Samples\<close>

record parsed_sample =
  ps_attributes :: nat
  ps_id :: "u64 option"
  ps_ip :: "u64 option"
  ps_pid :: "u32 option"
  ps_tid :: "u32 option"
  ps_time :: "u64 option"
  ps_addr :: "u64 option"
  ps_stream_id :: "u64 option"
  ps_cpu :: "u32 option"
  ps_res :: "u32 option"
  ps_period :: "u64 option"
  ps_ips :: "u64 list option"
  ps_data :: "u8 list option"

fun extract_items :: "endian \<Rightarrow> u8 list \<Rightarrow> nat \<Rightarrow> nat \<Rightarrow> error + 'a::len word list \<times> nat" where
  "extract_items order bs 0 off = Inr ([], off)"
| "extract_items order bs (Suc n) off =
     bind_result (extract_move order bs off) (\<lambda>(x, o1).
     bind_result (extract_items order bs n o1) (\<lambda>(xs, o2). Inr (x # xs, o2)))"

definition extract_vector_if :: "bool \<Rightarrow> endian \<Rightarrow> u8 list \<Rightarrow> nat \<Rightarrow> error + 'a::len word list option \<times> nat" where
  "extract_vector_if condition order bs off =
     (if \<not> condition then Inr (None, off)
      else bind_result (extract_move order bs off) (\<lambda>(n :: u64, o1).
        bind_result (extract_items order bs (unat n) o1) (\<lambda>(xs, o2). Inr (Some xs, o2))))"

definition event_header_size :: nat where "event_header_size = 8"

definition parse_sample :: "nat \<Rightarrow> u64 \<Rightarrow> endian \<Rightarrow> u8 list \<Rightarrow> error + parsed_sample" where
  "parse_sample attrs fmt order bs =
     bind_result (extract_move_if (has_flag fmt format_identifier) order bs event_header_size) (\<lambda>(id1 :: u64 option, o1).
     bind_result (extract_move_if (has_flag fmt format_ip) order bs o1) (\<lambda>(ip, o2).
     bind_result (extract_move_if (has_flag fmt format_tid) order bs o2) (\<lambda>(pid, o3).
     bind_result (extract_move_if (has_flag fmt format_tid) order bs o3) (\<lambda>(tid, o4).
     bind_result (extract_move_if (has_flag fmt format_time) order bs o4) (\<lambda>(time, o5).
     bind_result (extract_move_if (has_flag fmt format_addr) order bs o5) (\<lambda>(addr, o6).
     bind_result (extract_move_if (has_flag fmt format_id) order bs o6) (\<lambda>(id2, o7).
     bind_result (extract_move_if (has_flag fmt format_stream_id) order bs o7) (\<lambda>(stream, o8).
     bind_result (extract_move_if (has_flag fmt format_cpu) order bs o8) (\<lambda>(cpu, o9).
     bind_result (extract_move_if (has_flag fmt format_cpu) order bs o9) (\<lambda>(res, o10).
     bind_result (extract_move_if (has_flag fmt format_period) order bs o10) (\<lambda>(period, o11).
     bind_result (extract_vector_if (has_flag fmt format_call_chain) order bs o11) (\<lambda>(ips, o12).
     bind_result (extract_vector_if (has_flag fmt format_raw) order bs o12) (\<lambda>(raw_data, o13).
       Inr \<lparr>ps_attributes = attrs, ps_id = id2, ps_ip = ip, ps_pid = pid, ps_tid = tid, ps_time = time, ps_addr = addr,
         ps_stream_id = stream, ps_cpu = cpu, ps_res = res, ps_period = period, ps_ips = ips, ps_data = raw_data\<rparr>)))))))))))))"

section \<open>The other events\<close>

text \<open>The body of an event is what follows its header.\<close>

definition event_body :: "u8 list \<Rightarrow> error + u8 list" where
  "event_body bs = subspan_from event_header_size bs"

definition parse_comm :: "u64 \<Rightarrow> endian \<Rightarrow> u8 list \<Rightarrow> error + perf_event" where
  "parse_comm fmt order bs =
     bind_result (event_body bs) (\<lambda>body.
     bind_result (extract_int order body 0) (\<lambda>pid.
     bind_result (extract_int order body 4) (\<lambda>tid.
     bind_result (parse_sample_id_back fmt order body) (\<lambda>sid.
     bind_result (extract_string body 8) (\<lambda>name.
       Inr (Comm_event pid tid (sid_time sid) name))))))"

definition parse_fork :: "endian \<Rightarrow> u8 list \<Rightarrow> error + perf_event" where
  "parse_fork order bs =
     bind_result (event_body bs) (\<lambda>body.
     bind_result (extract_int order body 0) (\<lambda>pid.
     bind_result (extract_int order body 8) (\<lambda>tid.
     bind_result (extract_int order body 16) (\<lambda>time.
       Inr (Fork_event pid tid time)))))"

definition mmap_build_id_flag :: u16 where "mmap_build_id_flag = 0x4000"

definition max_build_id_size :: nat where "max_build_id_size = 20"

definition parse_build_id :: "endian \<Rightarrow> u8 list \<Rightarrow> u8 list \<Rightarrow> error + u8 list option" where
  "parse_build_id order header body =
     bind_result (event_misc order header) (\<lambda>misc.
       if misc AND mmap_build_id_flag = 0 then Inr None
       else bind_result (extract_int order body 32) (\<lambda>n :: u8.
         if unat n > max_build_id_size then Inl Undefined
         else bind_result (subspan 36 (unat n) body) (\<lambda>bid. Inr (Some bid))))"

definition parse_mmap2 :: "u64 \<Rightarrow> endian \<Rightarrow> u8 list \<Rightarrow> error + perf_event" where
  "parse_mmap2 fmt order bs =
     bind_result (event_body bs) (\<lambda>body.
     bind_result (extract_int order body 0) (\<lambda>pid.
     bind_result (parse_build_id order (take event_header_size bs) body) (\<lambda>bid.
     bind_result (extract_int order body 8) (\<lambda>addr.
     bind_result (extract_int order body 16) (\<lambda>len.
     bind_result (extract_string body 64) (\<lambda>name.
     bind_result (extract_int order body 24) (\<lambda>pgoff.
     bind_result (parse_sample_id_back fmt order body) (\<lambda>sid.
       Inr (Mmap2_event pid addr len pgoff bid name (sid_time sid))))))))))"

definition event_of_sample :: "parsed_sample \<Rightarrow> perf_event" where
  "event_of_sample s =
     Sample_event \<lparr>sample_attributes = ps_attributes s, sample_event_id = ps_id s, sample_ip = ps_ip s,
       sample_tid = ps_tid s, sample_time = ps_time s, sample_ips = ps_ips s\<rparr>"

section \<open>Attributes\<close>

definition calculate_id_offset :: "u64 \<Rightarrow> nat option" where
  "calculate_id_offset fmt =
     (if has_flag fmt format_identifier then Some 0
      else if \<not> has_flag fmt format_id then None
      else Some ((if has_flag fmt format_ip then 8 else 0) + (if has_flag fmt format_tid then 8 else 0) +
        (if has_flag fmt format_time then 8 else 0) + (if has_flag fmt format_addr then 8 else 0)))"

definition calculate_id_back_offset :: "u64 \<Rightarrow> nat option" where
  "calculate_id_back_offset fmt =
     (if has_flag fmt format_identifier then Some 8
      else if \<not> has_flag fmt format_id then None
      else Some (8 + (if has_flag fmt format_cpu then 8 else 0) + (if has_flag fmt format_stream_id then 8 else 0)))"

text \<open>\<open>id_to_attributes\<close> points into \<open>all_attributes\<close>: the index.\<close>

record attributes_database =
  all_attributes :: "event_attributes list"
  id_to_attributes :: "u64 \<rightharpoonup> nat"
  id_offset :: "nat option"
  id_back_offset :: "nat option"

definition empty_database :: attributes_database where
  "empty_database = \<lparr>all_attributes = [], id_to_attributes = Map.empty, id_offset = None, id_back_offset = None\<rparr>"

definition check_attributes :: "event_attributes \<Rightarrow> event_attributes \<Rightarrow> error + unit" where
  "check_attributes main a =
     (if calculate_id_offset (attr_sample_format main) \<noteq> calculate_id_offset (attr_sample_format a) \<or>
         calculate_id_back_offset (attr_sample_format main) \<noteq> calculate_id_back_offset (attr_sample_format a)
      then Inl (Throw ''Invalid perf.data file: non-matching id positions'')
      else if has_flag (attr_flags main) flag_sample_id_all \<noteq> has_flag (attr_flags a) flag_sample_id_all
      then Inl (Throw ''Invalid perf.data file: non-matching sample_id_all'')
      else if attr_read_format main \<noteq> attr_read_format a
      then Inl (Throw ''Invalid perf.data file: non-matching read_format'')
      else Inr ())"

definition validate :: "attributes_database \<Rightarrow> error + attributes_database" where
  "validate db =
     (case all_attributes db of
        [] \<Rightarrow> Inl (Throw ''Invalid perf.data file: empty event attributes'')
      | main # _ \<Rightarrow>
          if has_flag (attr_sample_format main) format_read \<and> \<not> has_flag (attr_read_format main) read_format_id
          then Inl (Throw ''Invalid perf.data file: non-matching read format'')
          else bind_result (map_result (check_attributes main) (all_attributes db)) (\<lambda>_.
            Inr (db\<lparr>id_offset := calculate_id_offset (attr_sample_format main),
                    id_back_offset := calculate_id_back_offset (attr_sample_format main)\<rparr>)))"

text \<open>Filling the database: later ids replace earlier ones (\<open>extract_event_attributes_database\<close> and
  \<open>read_attributes_section\<close> end the same way).\<close>

definition fill_database :: "(event_attributes \<times> u64 list) list \<Rightarrow> error + attributes_database" where
  "fill_database descs =
     validate (foldl (\<lambda>db (a, ids).
         db\<lparr>all_attributes := all_attributes db @ [a],
            id_to_attributes := foldl (\<lambda>m i. m(i \<mapsto> length (all_attributes db))) (id_to_attributes db) ids\<rparr>)
       empty_database descs)"

abbreviation (input) sample_type :: u32 where "sample_type \<equiv> 9"

text \<open>The index of the attributes of an event, from its body.\<close>

definition get_event_attributes :: "attributes_database \<Rightarrow> endian \<Rightarrow> u32 \<Rightarrow> u8 list \<Rightarrow> error + nat" where
  "get_event_attributes db order type body =
     (case all_attributes db of
        [] \<Rightarrow> Inl Undefined
      | main # others \<Rightarrow>
          if others = [] then Inr 0
          else if \<not> has_flag (attr_flags main) flag_sample_id_all \<and> type \<noteq> sample_type then Inr 0
          else bind_result
            (if type = sample_type
             then (case id_offset db of None \<Rightarrow> Inl Undefined | Some off \<Rightarrow> extract_int order body off)
             else (case id_back_offset db of None \<Rightarrow> Inl Undefined
                | Some off \<Rightarrow> if off > length body then Inl Undefined else extract_int order body (length body - off)))
            (\<lambda>i :: u64.
               if i = 0 then Inr 0
               else (case id_to_attributes db i of
                  None \<Rightarrow> Inl (Throw ''Could not find event attributes for ID'')
                | Some k \<Rightarrow> Inr k)))"

section \<open>Observers\<close>

type_synonym 's kernel_handler = "nat \<Rightarrow> u8 list \<Rightarrow> endian \<Rightarrow> 's \<Rightarrow> error + 's"
type_synonym 's non_kernel_handler = "u8 list \<Rightarrow> endian \<Rightarrow> 's \<Rightarrow> error + 's"

record 's observer =
  kernel_handlers :: "u32 \<rightharpoonup> 's kernel_handler list"
  non_kernel_handlers :: "u32 \<rightharpoonup> 's non_kernel_handler list"

definition register_kernel_event :: "u32 \<Rightarrow> 's kernel_handler \<Rightarrow> 's observer \<Rightarrow> 's observer" where
  "register_kernel_event type h ob =
     ob\<lparr>kernel_handlers := (kernel_handlers ob)(type \<mapsto>
       (case kernel_handlers ob type of None \<Rightarrow> [] | Some hs \<Rightarrow> hs) @ [h])\<rparr>"

definition dispatch_kernel :: "'s observer \<Rightarrow> u32 \<Rightarrow> nat \<Rightarrow> u8 list \<Rightarrow> endian \<Rightarrow> 's \<Rightarrow> error + 's" where
  "dispatch_kernel ob type attrs bs order s =
     (case kernel_handlers ob type of
        None \<Rightarrow> Inr s
      | Some hs \<Rightarrow> handle_all (\<lambda>h. h attrs bs order) hs s)"

definition dispatch_non_kernel :: "'s observer \<Rightarrow> u32 \<Rightarrow> u8 list \<Rightarrow> endian \<Rightarrow> 's \<Rightarrow> error + 's" where
  "dispatch_non_kernel ob type bs order s =
     (case non_kernel_handlers ob type of
        None \<Rightarrow> Inr s
      | Some hs \<Rightarrow> handle_all (\<lambda>h. h bs order) hs s)"

text \<open>The handlers of the process context. \<open>format_of\<close> reads the sample format of the attributes.\<close>

definition context_handler ::
  "(u64 \<Rightarrow> u64) \<Rightarrow> (nat \<Rightarrow> endian \<Rightarrow> u8 list \<Rightarrow> error + perf_event) \<Rightarrow> perf_context kernel_handler" where
  "context_handler ip_hash parse attrs bs order c =
     bind_result (parse attrs order bs) (\<lambda>e.
       case handle_event ip_hash e c of None \<Rightarrow> Inl Undefined | Some c1 \<Rightarrow> Inr c1)"

definition context_observer :: "(u64 \<Rightarrow> u64) \<Rightarrow> (nat \<Rightarrow> u64) \<Rightarrow> perf_context observer" where
  "context_observer ip_hash format_of =
     register_kernel_event sample_type (context_handler ip_hash
         (\<lambda>a order bs. map_sum id event_of_sample (parse_sample a (format_of a) order bs)))
       (register_kernel_event 10 (context_handler ip_hash (\<lambda>a. parse_mmap2 (format_of a)))
       (register_kernel_event 7 (context_handler ip_hash (\<lambda>a. parse_fork))
       (register_kernel_event 3 (context_handler ip_hash (\<lambda>a. parse_comm (format_of a)))
         \<lparr>kernel_handlers = Map.empty, non_kernel_handlers = Map.empty\<rparr>)))"

definition is_kernel_event :: "u32 \<Rightarrow> bool" where
  "is_kernel_event type \<longleftrightarrow> 1 \<le> type \<and> type \<le> 21"

text \<open>What \<open>read_data_section\<close> does with an event.\<close>

definition data_callback :: "attributes_database \<Rightarrow> 's observer \<Rightarrow> endian \<Rightarrow> u8 list \<Rightarrow> 's \<Rightarrow> error + 's" where
  "data_callback db ob order bs s =
     bind_result (event_type_of order bs) (\<lambda>type.
       if is_kernel_event type
       then bind_result (event_body bs) (\<lambda>body.
         bind_result (get_event_attributes db order type body) (\<lambda>attrs.
           dispatch_kernel ob type attrs bs order s))
       else dispatch_non_kernel ob type bs order s)"

section \<open>Records as they are written\<close>

text \<open>The specification of the layout: the fields one after another, each if its flag is set. The id \<open>i\<close> of
  the event is written as identifier and as id.\<close>

definition put :: "endian \<Rightarrow> 'a::len word \<Rightarrow> u8 list" where
  "put order v = encode order (LENGTH('a) div 8) (unat v)"

definition put_opt :: "endian \<Rightarrow> 'a::len word option \<Rightarrow> u8 list" where
  "put_opt order x = (case x of None \<Rightarrow> [] | Some v \<Rightarrow> put order v)"

definition put_vector :: "endian \<Rightarrow> 'a::len word list option \<Rightarrow> u8 list" where
  "put_vector order x =
     (case x of None \<Rightarrow> [] | Some vs \<Rightarrow> put order (of_nat (length vs) :: u64) @ concat (map (put order) vs))"

definition flag_opt :: "bool \<Rightarrow> 'a \<Rightarrow> 'a option" where
  "flag_opt b x = (if b then Some x else None)"

definition encode_sample :: "u64 \<Rightarrow> endian \<Rightarrow> u64 \<Rightarrow> parsed_sample \<Rightarrow> u8 list" where
  "encode_sample fmt order i s =
     put_opt order (flag_opt (has_flag fmt format_identifier) i) @ put_opt order (ps_ip s) @
     put_opt order (ps_pid s) @ put_opt order (ps_tid s) @ put_opt order (ps_time s) @ put_opt order (ps_addr s) @
     put_opt order (flag_opt (has_flag fmt format_id) i) @ put_opt order (ps_stream_id s) @ put_opt order (ps_cpu s) @
     put_opt order (ps_res s) @ put_opt order (ps_period s) @ put_vector order (ps_ips s) @ put_vector order (ps_data s)"

definition encode_sample_id :: "u64 \<Rightarrow> endian \<Rightarrow> u64 \<Rightarrow> sample_id \<Rightarrow> u8 list" where
  "encode_sample_id fmt order i s =
     put_opt order (sid_pid s) @ put_opt order (sid_tid s) @ put_opt order (sid_time s) @
     put_opt order (flag_opt (has_flag fmt format_id) i) @ put_opt order (sid_stream_id s) @ put_opt order (sid_cpu s) @
     put_opt order (sid_res s) @ put_opt order (flag_opt (has_flag fmt format_identifier) i)"

definition sample_fits :: "u64 \<Rightarrow> parsed_sample \<Rightarrow> bool" where
  "sample_fits fmt s \<longleftrightarrow>
     (ps_ip s \<noteq> None) = has_flag fmt format_ip \<and> (ps_pid s \<noteq> None) = has_flag fmt format_tid \<and>
     (ps_tid s \<noteq> None) = has_flag fmt format_tid \<and> (ps_time s \<noteq> None) = has_flag fmt format_time \<and>
     (ps_addr s \<noteq> None) = has_flag fmt format_addr \<and> (ps_stream_id s \<noteq> None) = has_flag fmt format_stream_id \<and>
     (ps_cpu s \<noteq> None) = has_flag fmt format_cpu \<and> (ps_res s \<noteq> None) = has_flag fmt format_cpu \<and>
     (ps_period s \<noteq> None) = has_flag fmt format_period \<and> (ps_ips s \<noteq> None) = has_flag fmt format_call_chain \<and>
     (ps_data s \<noteq> None) = has_flag fmt format_raw \<and>
     (\<forall>xs. ps_ips s = Some xs \<longrightarrow> length xs < 2 ^ 64) \<and> (\<forall>xs. ps_data s = Some xs \<longrightarrow> length xs < 2 ^ 64)"

definition sample_id_fits :: "u64 \<Rightarrow> sample_id \<Rightarrow> bool" where
  "sample_id_fits fmt s \<longleftrightarrow>
     (sid_pid s \<noteq> None) = has_flag fmt format_tid \<and> (sid_tid s \<noteq> None) = has_flag fmt format_tid \<and>
     (sid_time s \<noteq> None) = has_flag fmt format_time \<and> (sid_stream_id s \<noteq> None) = has_flag fmt format_stream_id \<and>
     (sid_cpu s \<noteq> None) = has_flag fmt format_cpu \<and> (sid_res s \<noteq> None) = has_flag fmt format_cpu"

section \<open>Reading what was written\<close>

text \<open>A position in a buffer, by what follows it and by what is before it.\<close>

definition at_bytes :: "u8 list \<Rightarrow> nat \<Rightarrow> u8 list \<Rightarrow> bool" where
  "at_bytes bs off xs \<longleftrightarrow> off \<le> length bs \<and> drop off bs = xs"

lemma length_put [simp]: "length (put order (v :: 'a::len word)) = LENGTH('a) div 8"
  by (simp add: put_def)

lemma extract_at:
  assumes "at_bytes bs off (put order (v :: 'a::len word) @ post)" "8 * n = LENGTH('a)"
  shows "extract_int order bs off = Inr v" "at_bytes bs (off + n) post"
proof -
  have off: "off \<le> length bs" "drop off bs = put order v @ post" using assms(1) by (auto simp: at_bytes_def)
  have n: "LENGTH('a) div 8 = n" using assms(2) by simp
  have bs: "bs = take off bs @ encode order n (unat v) @ post"
    using off append_take_drop_id [of off bs] by (simp add: put_def n)
  show "extract_int order bs off = Inr v"
    using extract_encoded [OF _ assms(2), of "take off bs" off order v post] off(1) bs by simp
  have "length bs = off + n + length post" using arg_cong [OF bs, of length] off(1) by simp
  moreover have "drop (off + n) bs = drop n (drop off bs)" by (simp add: add.commute)
  then have "drop (off + n) bs = post" unfolding off(2) by (simp add: n)
  ultimately show "at_bytes bs (off + n) post" by (simp add: at_bytes_def)
qed

lemma extract_if_at:
  assumes "at_bytes bs off (put_opt order (x :: 'a::len word option) @ post)" "8 * n = LENGTH('a)" "(x \<noteq> None) = c"
  shows "\<exists>o1. extract_move_if c order bs off = Inr (x, o1) \<and> at_bytes bs o1 post"
proof (cases x)
  case None
  with assms show ?thesis by (simp add: extract_move_if_def put_opt_def)
next
  case (Some v)
  have n: "LENGTH('a) div 8 = n" using assms(2) by simp
  from Some assms(1) have "at_bytes bs off (put order v @ post)" by (simp add: put_opt_def)
  from extract_at [OF this assms(2)] Some assms(3) show ?thesis
    by (auto simp: extract_move_if_def extract_move_def n)
qed

lemma extract_items_at:
  assumes "at_bytes bs off (concat (map (put order) (vs :: 'a::len word list)) @ post)" "8 * n = LENGTH('a)"
  shows "\<exists>o1. extract_items order bs (length vs) off = Inr (vs, o1) \<and> at_bytes bs o1 post"
  using assms(1)
proof (induction vs arbitrary: off)
  case (Cons v vs)
  have n: "LENGTH('a) div 8 = n" using assms(2) by simp
  from Cons.prems have "at_bytes bs off (put order v @ concat (map (put order) vs) @ post)" by simp
  from extract_at [OF this assms(2)] Cons.IH [of "off + n"] show ?case by (auto simp: extract_move_def n)
qed simp

lemma extract_vector_at:
  assumes "at_bytes bs off (put_vector order (x :: 'a::len word list option) @ post)" "8 * n = LENGTH('a)" "(x \<noteq> None) = c"
    "\<forall>vs. x = Some vs \<longrightarrow> length vs < 2 ^ 64"
  shows "\<exists>o1. extract_vector_if c order bs off = Inr (x, o1) \<and> at_bytes bs o1 post"
proof (cases x)
  case None
  with assms show ?thesis by (simp add: extract_vector_if_def put_vector_def)
next
  case (Some vs)
  from Some assms(1) have a: "at_bytes bs off (put order (of_nat (length vs) :: u64) @ concat (map (put order) vs) @ post)"
    by (simp add: put_vector_def)
  have 8: "8 * 8 = LENGTH(64)" by simp
  have len: "unat (of_nat (length vs) :: u64) = length vs"
    using Some assms(4) by (simp add: unat_of_nat)
  from extract_at [OF a 8] extract_items_at [OF _ assms(2), of bs "off + 8" order vs post] Some assms(3) len show ?thesis
    by (auto simp: extract_vector_if_def extract_move_def)
qed

text \<open>The same as rules for a chain of reads.\<close>

lemma bind_if_at:
  assumes "at_bytes bs off (put_opt order (x :: 'a::len word option) @ post)" "8 * n = LENGTH('a)" "(x \<noteq> None) = c"
    "\<And>o1. at_bytes bs o1 post \<Longrightarrow> k x o1 = r"
  shows "bind_result (extract_move_if c order bs off) (\<lambda>(y, o1). k y o1) = r"
  using extract_if_at [OF assms(1-3)] assms(4) by auto

lemma bind_vector_at:
  assumes "at_bytes bs off (put_vector order (x :: 'a::len word list option) @ post)" "8 * n = LENGTH('a)" "(x \<noteq> None) = c"
    "\<forall>vs. x = Some vs \<longrightarrow> length vs < 2 ^ 64" "\<And>o1. at_bytes bs o1 post \<Longrightarrow> k x o1 = r"
  shows "bind_result (extract_vector_if c order bs off) (\<lambda>(y, o1). k y o1) = r"
  using extract_vector_at [OF assms(1-4)] assms(5) by auto

lemma word_sizes: "8 * 8 = LENGTH(64)" "8 * 4 = LENGTH(32)" "8 * 1 = LENGTH(8)"
  by simp_all

lemma flag_opt_Some [simp]: "(flag_opt b x \<noteq> None) = b" "(flag_opt b x = None) = (\<not> b)"
  by (simp_all add: flag_opt_def)

definition at_back :: "u8 list \<Rightarrow> nat \<Rightarrow> u8 list \<Rightarrow> bool" where
  "at_back bs off xs \<longleftrightarrow> off \<le> length bs \<and> take off bs = xs"

lemma bind_back_if_at:
  assumes "at_back bs off (pre @ put_opt order (x :: 'a::len word option))" "8 * n = LENGTH('a)" "(x \<noteq> None) = c"
    "\<And>o1. at_back bs o1 pre \<Longrightarrow> k x o1 = r"
  shows "bind_result (extract_move_back_if c order bs off) (\<lambda>(y, o1). k y o1) = r"
proof (cases x)
  case None
  with assms show ?thesis by (simp add: extract_move_back_if_def put_opt_def)
next
  case (Some v)
  have n: "LENGTH('a) div 8 = n" using assms(2) by simp
  have off: "off \<le> length bs" "take off bs = pre @ put order v"
    using assms(1) Some by (auto simp: at_back_def put_opt_def)
  have len: "off = length pre + n" using arg_cong [OF off(2), of length] off(1) n by simp
  have "bs = pre @ put order v @ drop off bs" using off(2) append_take_drop_id [of off bs] by (metis append.assoc)
  then have "drop (length pre) bs = put order v @ drop off bs" by (metis append_eq_conv_conj)
  then have "at_bytes bs (length pre) (put order v @ drop off bs)" using off(1) len by (simp add: at_bytes_def)
  from extract_at(1) [OF this assms(2)] have e: "extract_int order bs (length pre) = Inr v" .
  have "take (length pre) (take off bs) = pre" unfolding off(2) by simp
  then have "take (length pre) bs = pre" using len by simp
  then have "at_back bs (length pre) pre" using off(1) len by (simp add: at_back_def)
  from assms(4) [OF this] e Some assms(3) len n show ?thesis
    by (auto simp: extract_move_back_if_def extract_move_back_def Let_def)
qed


text \<open>The sample id at the end of an event is read back from behind, whatever is before it, and one at the
  front from the front. The two parsers differ in the id: from behind it is the id of the format, from
  the front the identifier, and it is lost if the format has only the other one.\<close>
lemma sample_id_roundtrip:
  assumes fits: "sample_id_fits fmt s"
  shows "parse_sample_id_back fmt order (body @ encode_sample_id fmt order i s) =
      Inr (s\<lparr>sid_id := flag_opt (has_flag fmt format_id) i\<rparr>) \<and>
    parse_sample_id fmt order (encode_sample_id fmt order i s @ body) =
      Inr (s\<lparr>sid_id := flag_opt (has_flag fmt format_identifier) i\<rparr>)"
proof
  have f: "(sid_pid s \<noteq> None) = has_flag fmt format_tid" "(sid_tid s \<noteq> None) = has_flag fmt format_tid"
     "(sid_time s \<noteq> None) = has_flag fmt format_time" "(sid_stream_id s \<noteq> None) = has_flag fmt format_stream_id"
     "(sid_cpu s \<noteq> None) = has_flag fmt format_cpu" "(sid_res s \<noteq> None) = has_flag fmt format_cpu"
    using fits unfolding sample_id_fits_def by blast+
  obtain bs where bs: "bs = body @ encode_sample_id fmt order i s" by blast
  have start: "at_back bs (length bs) (body @ encode_sample_id fmt order i s)"
    by (simp add: bs at_back_def)
  show "parse_sample_id_back fmt order (body @ encode_sample_id fmt order i s) =
      Inr (s\<lparr>sid_id := flag_opt (has_flag fmt format_id) i\<rparr>)"
    unfolding parse_sample_id_back_def bs [symmetric]
    by (rule bind_back_if_at [OF start [unfolded encode_sample_id_def append.assoc [symmetric]] word_sizes(1) flag_opt_Some(1)],
        (erule bind_back_if_at, rule word_sizes, rule f flag_opt_Some(1))+, simp)
  obtain bs where bs: "bs = encode_sample_id fmt order i s @ body" by blast
  have start: "at_bytes bs 0 (encode_sample_id fmt order i s @ body)" by (simp add: bs at_bytes_def)
  show "parse_sample_id fmt order (encode_sample_id fmt order i s @ body) =
      Inr (s\<lparr>sid_id := flag_opt (has_flag fmt format_identifier) i\<rparr>)"
    unfolding parse_sample_id_def bs [symmetric]
    by (rule bind_if_at [OF start [unfolded encode_sample_id_def append.assoc] word_sizes(2) f(1)],
        (erule bind_if_at, rule word_sizes, rule f flag_opt_Some(1))+, simp)
qed

section \<open>Finding the attributes of an event\<close>

lemma length_put_opt: "length (put_opt order (x :: 'a::len word option)) = (if x = None then 0 else LENGTH('a) div 8)"
  by (simp add: put_opt_def split: option.split)

lemma sample_id_at:
  assumes "sample_fits fmt s" "calculate_id_offset fmt = Some off"
  shows "extract_int order (encode_sample fmt order i s) off = Inr i"
proof (cases "has_flag fmt format_identifier")
  case True
  then have "off = 0" "\<exists>post. encode_sample fmt order i s = put order i @ post"
    using assms(2) by (auto simp: calculate_id_offset_def encode_sample_def flag_opt_def put_opt_def)
  then obtain post where "at_bytes (encode_sample fmt order i s) off (put order i @ post)" by (auto simp: at_bytes_def)
  from extract_at(1) [OF this word_sizes(1)] show ?thesis .
next
  case False
  then have id: "has_flag fmt format_id"
      "off = (if has_flag fmt format_ip then 8 else 0) + (if has_flag fmt format_tid then 8 else 0) +
        (if has_flag fmt format_time then 8 else 0) + (if has_flag fmt format_addr then 8 else 0)"
    using assms(2) by (auto simp: calculate_id_offset_def split: if_splits)
  let ?pre = "put_opt order (ps_ip s) @ put_opt order (ps_pid s) @ put_opt order (ps_tid s) @ put_opt order (ps_time s) @
      put_opt order (ps_addr s)"
  have "length ?pre = off"
  proof -
    have "ps_ip s = None \<longleftrightarrow> \<not> has_flag fmt format_ip" "ps_pid s = None \<longleftrightarrow> \<not> has_flag fmt format_tid"
        "ps_tid s = None \<longleftrightarrow> \<not> has_flag fmt format_tid" "ps_time s = None \<longleftrightarrow> \<not> has_flag fmt format_time"
        "ps_addr s = None \<longleftrightarrow> \<not> has_flag fmt format_addr"
      using assms(1) unfolding sample_fits_def by blast+
    then show ?thesis unfolding id(2) by (simp add: length_put_opt)
  qed
  moreover obtain post where "encode_sample fmt order i s = ?pre @ put order i @ post"
    using False id(1) by (simp add: encode_sample_def flag_opt_def put_opt_def [of order "None"] put_opt_def [of order "Some i"])
  ultimately have "at_bytes (encode_sample fmt order i s) off (put order i @ post)"
    by (simp add: at_bytes_def)
  from extract_at(1) [OF this word_sizes(1)] show ?thesis .
qed

lemma trailing_id_at:
  assumes "sample_id_fits fmt s" "calculate_id_back_offset fmt = Some off"
  shows "off \<le> length (body @ encode_sample_id fmt order i s)"
    "extract_int order (body @ encode_sample_id fmt order i s) (length (body @ encode_sample_id fmt order i s) - off) = Inr i"
proof -
  have "\<exists>pre post. encode_sample_id fmt order i s = pre @ put order i @ post \<and> length post + 8 = off"
  proof (cases "has_flag fmt format_identifier")
    case True
    then have "off = 8" using assms(2) by (simp add: calculate_id_back_offset_def)
    with True show ?thesis
      by (simp add: encode_sample_id_def flag_opt_def put_opt_def [of order "Some i"])
  next
    case False
    then have id: "has_flag fmt format_id"
        "off = 8 + (if has_flag fmt format_cpu then 8 else 0) + (if has_flag fmt format_stream_id then 8 else 0)"
      using assms(2) by (auto simp: calculate_id_back_offset_def split: if_splits)
    let ?post = "put_opt order (sid_stream_id s) @ put_opt order (sid_cpu s) @ put_opt order (sid_res s)"
    let ?pre = "put_opt order (sid_pid s) @ put_opt order (sid_tid s) @ put_opt order (sid_time s)"
    have "length ?post + 8 = off"
    proof -
      have "sid_stream_id s = None \<longleftrightarrow> \<not> has_flag fmt format_stream_id" "sid_cpu s = None \<longleftrightarrow> \<not> has_flag fmt format_cpu"
          "sid_res s = None \<longleftrightarrow> \<not> has_flag fmt format_cpu"
        using assms(1) unfolding sample_id_fits_def by blast+
      then show ?thesis unfolding id(2) by (simp add: length_put_opt)
    qed
    moreover have "encode_sample_id fmt order i s = ?pre @ put order i @ ?post"
      using False id(1) by (simp add: encode_sample_id_def flag_opt_def put_opt_def [of order "None"] put_opt_def [of order "Some i"])
    ultimately show ?thesis by blast
  qed
  then obtain pre post where e: "encode_sample_id fmt order i s = pre @ put order i @ post" "length post + 8 = off" by blast
  let ?bs = "body @ encode_sample_id fmt order i s"
  have len: "length ?bs = length (body @ pre) + off" using e by simp
  then show "off \<le> length ?bs" by simp
  have "at_bytes ?bs (length ?bs - off) (put order i @ post)" using len by (simp add: at_bytes_def e(1))
  from extract_at(1) [OF this word_sizes(1)]
  show "extract_int order ?bs (length ?bs - off) = Inr i" .
qed

definition add_attributes :: "attributes_database \<Rightarrow> event_attributes \<times> u64 list \<Rightarrow> attributes_database" where
  "add_attributes db = (\<lambda>(a, ids).
     db\<lparr>all_attributes := all_attributes db @ [a],
        id_to_attributes := foldl (\<lambda>m i. m(i \<mapsto> length (all_attributes db))) (id_to_attributes db) ids\<rparr>)"

lemma fold_ids: "foldl (\<lambda>m i. m(i \<mapsto> (n :: nat))) m ids i = (if i \<in> set ids then Some n else m i)"
  by (induction ids arbitrary: m) auto

lemma add_attributes_sel [simp]:
  "all_attributes (add_attributes db d) = all_attributes db @ [fst d]"
  "id_to_attributes (add_attributes db d) i =
     (if i \<in> set (snd d) then Some (length (all_attributes db)) else id_to_attributes db i)"
  by (simp_all add: add_attributes_def fold_ids split: prod.split)

lemma add_all_attributes:
  "all_attributes (foldl add_attributes db descs) = all_attributes db @ map fst descs"
  by (induction descs arbitrary: db) simp_all

lemma add_all_ids:
  "id_to_attributes (foldl add_attributes db descs) i =
     (if \<exists>d \<in> set descs. i \<in> set (snd d)
      then Some (length (all_attributes db) + Max {k. k < length descs \<and> i \<in> set (snd (descs ! k))})
      else id_to_attributes db i)"
proof (induction descs rule: rev_induct)
  case (snoc d descs)
  show ?case
  proof (cases "i \<in> set (snd d)")
    case True
    have "Max {k. k < length (descs @ [d]) \<and> i \<in> set (snd ((descs @ [d]) ! k))} = length descs"
      using True by (intro Max_eqI) (auto simp: nth_append)
    with True show ?thesis by (simp add: add_all_attributes)
  next
    case False
    have "{k. k < length (descs @ [d]) \<and> i \<in> set (snd ((descs @ [d]) ! k))} = {k. k < length descs \<and> i \<in> set (snd (descs ! k))}"
      using False by (auto simp: nth_append less_Suc_eq)
    with False snoc show ?thesis by simp
  qed
qed simp

lemma fill_database_add: "fill_database descs = validate (foldl add_attributes empty_database descs)"
  by (simp add: fill_database_def add_attributes_def [abs_def])

lemma map_result_member: "map_result g xs = Inr ys \<Longrightarrow> x \<in> set xs \<Longrightarrow> \<exists>y. g x = Inr y"
  by (induction xs arbitrary: ys) (auto simp: bind_result_Inr)

lemma validated:
  assumes "validate db = Inr db'" "a \<in> set (all_attributes db)"
  shows "all_attributes db' = all_attributes db" "id_to_attributes db' = id_to_attributes db"
    "id_offset db' = calculate_id_offset (attr_sample_format a)"
    "id_back_offset db' = calculate_id_back_offset (attr_sample_format a)"
    "has_flag (attr_flags (hd (all_attributes db))) flag_sample_id_all = has_flag (attr_flags a) flag_sample_id_all"
proof -
  obtain main others where main: "all_attributes db = main # others" using assms(2) by (cases "all_attributes db") auto
  obtain r where r: "map_result (check_attributes main) (main # others) = r" by blast
  have "bind_result r (\<lambda>_. Inr (db\<lparr>id_offset := calculate_id_offset (attr_sample_format main),
        id_back_offset := calculate_id_back_offset (attr_sample_format main)\<rparr>)) = Inr db'"
    using assms(1) unfolding validate_def main list.case r by (metis Inl_Inr_False)
  then obtain us where "r = Inr us" and db': "db' = db\<lparr>id_offset := calculate_id_offset (attr_sample_format main),
        id_back_offset := calculate_id_back_offset (attr_sample_format main)\<rparr>"
    unfolding bind_result_Inr by blast
  then have us: "map_result (check_attributes main) (all_attributes db) = Inr us" using r main by simp
  obtain u where "check_attributes main a = Inr u"
    using map_result_member [OF us assms(2)] by blast
  then have c: "calculate_id_offset (attr_sample_format main) = calculate_id_offset (attr_sample_format a)"
      "calculate_id_back_offset (attr_sample_format main) = calculate_id_back_offset (attr_sample_format a)"
      "has_flag (attr_flags main) flag_sample_id_all = has_flag (attr_flags a) flag_sample_id_all"
    unfolding check_attributes_def by (metis Inl_Inr_False)+
  show "all_attributes db' = all_attributes db" "id_to_attributes db' = id_to_attributes db"
    by (simp_all add: db')
  show "id_offset db' = calculate_id_offset (attr_sample_format a)"
    "id_back_offset db' = calculate_id_back_offset (attr_sample_format a)"
    using c(1,2) by (simp_all add: db')
  show "has_flag (attr_flags (hd (all_attributes db))) flag_sample_id_all = has_flag (attr_flags a) flag_sample_id_all"
    using c(3) by (simp add: main)
qed

text \<open>Every event finds the attributes it was recorded with: in a database that was accepted, the id in a
  sample, and the id at the end of any other event, lead to the last attributes that were given this id,
  wherever the format has put it.\<close>
lemma events_find_their_attributes:
  assumes db: "fill_database descs = Inr db" and k: "k < length descs" "descs ! k = (a, ids)"
    and i: "i \<in> set ids" "i \<noteq> 0" "\<forall>j. k < j \<longrightarrow> j < length descs \<longrightarrow> i \<notin> set (snd (descs ! j))"
    and fmt: "fmt = attr_sample_format a" "has_flag fmt format_identifier \<or> has_flag fmt format_id"
    and fits: "sample_fits fmt s" "sample_id_fits fmt sid"
    and type: "type \<noteq> sample_type" "has_flag (attr_flags a) flag_sample_id_all"
  shows "get_event_attributes db order sample_type (encode_sample fmt order i s) = Inr k \<and>
    get_event_attributes db order type (body @ encode_sample_id fmt order i sid) = Inr k"
proof -
  let ?db = "foldl add_attributes empty_database descs"
  have ain: "a \<in> set (all_attributes ?db)"
    using k nth_mem [OF k(1)] by (force simp: add_all_attributes empty_database_def)
  note v = validated [OF db [unfolded fill_database_add] ain]
  have "Max {j. j < length descs \<and> i \<in> set (snd (descs ! j))} = k"
    using k i(1,3) by (intro Max_eqI) (auto simp: not_less [symmetric])
  moreover have "\<exists>d \<in> set descs. i \<in> set (snd d)" using k i(1) nth_mem [OF k(1)] by (metis snd_conv)
  ultimately have map: "id_to_attributes db i = Some k"
    unfolding v(2) add_all_ids by (simp add: empty_database_def)
  have all: "all_attributes db = map fst descs" by (simp add: v(1) add_all_attributes empty_database_def)
  obtain main others where main: "all_attributes db = main # others" using k(1) all by (cases descs) auto
  have single: "k = 0" if "others = []" using k(1) arg_cong [OF main, of length] that by (simp add: all)
  have flag: "has_flag (attr_flags main) flag_sample_id_all" using v(5) type(2) main unfolding v(1) by simp
  obtain off where off: "calculate_id_offset fmt = Some off"
    by (cases "calculate_id_offset fmt") (use fmt(2) in \<open>simp_all add: calculate_id_offset_def split: if_splits\<close>)
  obtain behind where behind: "calculate_id_back_offset fmt = Some behind"
    by (cases "calculate_id_back_offset fmt") (use fmt(2) in \<open>simp_all add: calculate_id_back_offset_def split: if_splits\<close>)
  have offs: "id_offset db = Some off" "id_back_offset db = Some behind" using v(3,4) off behind fmt(1) by simp_all
  note id = sample_id_at [OF fits(1) off, of order i] trailing_id_at [OF fits(2) behind, where body = body and order = order and i = i]
  show ?thesis
  proof (cases "others = []")
    case True
    then show ?thesis using main single by (simp add: get_event_attributes_def)
  next
    case False
    then show ?thesis using main flag offs id map i(2) type(1) by (simp add: get_event_attributes_def not_less)
  qed
qed

section \<open>Events as values\<close>

text \<open>The specification of the observers: an event of the context, or none if no handler is registered.\<close>

definition parse_event :: "(nat \<Rightarrow> u64) \<Rightarrow> endian \<Rightarrow> u32 \<Rightarrow> nat \<Rightarrow> u8 list \<Rightarrow> error + perf_event option" where
  "parse_event format_of order type a bs =
     (if type = sample_type then map_sum id (Some \<circ> event_of_sample) (parse_sample a (format_of a) order bs)
      else if type = 10 then map_sum id Some (parse_mmap2 (format_of a) order bs)
      else if type = 7 then map_sum id Some (parse_fork order bs)
      else if type = 3 then map_sum id Some (parse_comm (format_of a) order bs)
      else Inr None)"

definition event_of_bytes :: "attributes_database \<Rightarrow> (nat \<Rightarrow> u64) \<Rightarrow> endian \<Rightarrow> u8 list \<Rightarrow> error + perf_event option" where
  "event_of_bytes db format_of order bs =
     bind_result (event_type_of order bs) (\<lambda>type.
       if is_kernel_event type
       then bind_result (event_body bs) (\<lambda>body.
         bind_result (get_event_attributes db order type body) (\<lambda>a. parse_event format_of order type a bs))
       else Inr None)"

definition handle_parsed :: "(u64 \<Rightarrow> u64) \<Rightarrow> perf_event option \<Rightarrow> perf_context \<Rightarrow> error + perf_context" where
  "handle_parsed ip_hash e c =
     (case e of None \<Rightarrow> Inr c
      | Some e \<Rightarrow> (case handle_event ip_hash e c of None \<Rightarrow> Inl Undefined | Some c1 \<Rightarrow> Inr c1))"

lemma bind_result_assoc [simp]: "bind_result (bind_result r k) g = bind_result r (\<lambda>x. bind_result (k x) g)"
  by (cases r) simp_all

lemma bind_result_map: "bind_result (map_sum id h r) k = bind_result r (\<lambda>x. k (h x))"
  by (cases r) simp_all

lemma bind_result_Inr_right [simp]: "bind_result r Inr = r"
  by (cases r) simp_all

lemma handle_all_end [simp]: "bind_result r (handle_all callback []) = r"
  by (cases r) simp_all

lemma dispatch_context:
  "dispatch_kernel (context_observer ip_hash format_of) type a bs order c =
     bind_result (parse_event format_of order type a bs) (\<lambda>e. handle_parsed ip_hash e c)"
  by (simp add: dispatch_kernel_def context_observer_def register_kernel_event_def parse_event_def context_handler_def
      handle_parsed_def bind_result_map)

lemma callback_event:
  "data_callback db (context_observer ip_hash format_of) order bs c =
     bind_result (event_of_bytes db format_of order bs) (\<lambda>e. handle_parsed ip_hash e c)"
proof (cases "event_type_of order bs")
  case (Inr type)
  show ?thesis
  proof (cases "is_kernel_event type")
    case False
    with Inr show ?thesis
      by (simp add: data_callback_def event_of_bytes_def dispatch_non_kernel_def context_observer_def
          register_kernel_event_def handle_parsed_def)
  qed (simp add: data_callback_def event_of_bytes_def Inr dispatch_context)
qed (simp add: data_callback_def event_of_bytes_def)

lemma handle_all_parsed:
  assumes "map_result (event_of_bytes db format_of order) evs = Inr es"
  shows "handle_all (data_callback db (context_observer ip_hash format_of) order) evs c =
    (case handle_events ip_hash (concat (map (\<lambda>e. case e of None \<Rightarrow> [] | Some e \<Rightarrow> [e]) es)) c of
       None \<Rightarrow> Inl Undefined | Some c1 \<Rightarrow> Inr c1)"
  using assms
proof (induction evs arbitrary: es c)
  case (Cons ev evs)
  then obtain e es' where e: "event_of_bytes db format_of order ev = Inr e"
      "map_result (event_of_bytes db format_of order) evs = Inr es'" "es = e # es'" by (auto simp: bind_result_Inr)
  let ?all = "handle_all (data_callback db (context_observer ip_hash format_of) order)"
  have "data_callback db (context_observer ip_hash format_of) order ev c = handle_parsed ip_hash e c"
    by (simp add: callback_event e(1))
  then have step: "?all (ev # evs) c = bind_result (handle_parsed ip_hash e c) (?all evs)" by simp
  note ih = Cons.IH [OF e(2)]
  show ?case unfolding step e(3)
  proof (cases e)
    case (Some x)
    then show "bind_result (handle_parsed ip_hash e c) (?all evs) =
        (case handle_events ip_hash (concat (map (\<lambda>e. case e of None \<Rightarrow> [] | Some e \<Rightarrow> [e]) (e # es'))) c of
          None \<Rightarrow> Inl Undefined | Some c1 \<Rightarrow> Inr c1)"
      by (cases "handle_event ip_hash x c") (simp_all add: handle_parsed_def ih)
  qed (simp add: handle_parsed_def ih)
qed simp

section \<open>Sources without an id\<close>

lemma context_sources_by_none:
  assumes "handle_event ip_hash e c = Some c'" "\<forall>s. e = Sample_event s \<longrightarrow> sample_event_id s = None"
    "dom (pc_event_sources c) \<subseteq> {None}"
  shows "dom (pc_event_sources c') \<subseteq> {None}"
proof (cases e)
  case (Sample_event s)
  then have none: "sample_event_id s = None" using assms(2) by simp
  show ?thesis
  proof (cases "sample_tid s = None \<or> sample_time s = None")
    case True
    then have "c' = c" using assms(1) Sample_event by (auto simp: handle_event_def handle_sample_def split: option.splits)
    with assms(3) show ?thesis by simp
  next
    case False
    then obtain tid time where "sample_tid s = Some tid" "sample_time s = Some time" by auto
    then have "pc_event_sources c' = pc_event_sources c \<or> (\<exists>k. pc_event_sources c' = (pc_event_sources c)(None \<mapsto> k))"
      using assms(1) none unfolding Sample_event handle_event_def handle_sample_def
      by (cases "map_of (pc_sample_sources c) (sample_attributes s)") (auto simp: Let_def split: prod.splits)
    with assms(3) show ?thesis by (elim disjE exE) simp_all
  qed
next
  case Comm_event
  with assms(1) have "pc_event_sources c' = pc_event_sources c"
    by (auto simp: handle_event_def handle_comm_def Let_def split: option.splits if_splits prod.splits)
  with assms(3) show ?thesis by simp
next
  case Fork_event
  with assms(1) have "pc_event_sources c' = pc_event_sources c"
    by (auto simp: handle_event_def handle_fork_def Let_def split: option.splits if_splits prod.splits)
  with assms(3) show ?thesis by simp
next
  case Mmap2_event
  with assms(1) have "pc_event_sources c' = pc_event_sources c"
    by (auto simp: handle_event_def handle_mmap2_def Let_def split: option.splits)
  with assms(3) show ?thesis by simp
qed

lemma parse_sample_without_id:
  assumes "parse_sample a fmt order bs = Inr p" "\<not> has_flag fmt format_id"
  shows "ps_id p = None"
proof -
  have skip: "extract_move_if False order bs o6 = Inr (None :: u64 option, o6)" for o6 by (simp add: extract_move_if_def)
  show ?thesis using assms by (auto simp: parse_sample_def bind_result_Inr skip)
qed

lemma samples_without_id:
  assumes "event_of_bytes db format_of order bs = Inr (Some (Sample_event s))" "\<forall>a. \<not> has_flag (format_of a) format_id"
  shows "sample_event_id s = None"
proof -
  obtain type a where "parse_event format_of order type a bs = Inr (Some (Sample_event s))"
    using assms(1) by (auto simp: event_of_bytes_def bind_result_Inr split: if_splits)
  moreover have "parse_event format_of order type a bs \<noteq> Inr (Some (Sample_event s))" if "type \<noteq> sample_type"
    using that by (simp add: parse_event_def parse_mmap2_def parse_fork_def parse_comm_def bind_result_Inr map_sum_Inr)
  ultimately have "map_sum id (Some \<circ> event_of_sample) (parse_sample a (format_of a) order bs) = Inr (Some (Sample_event s))"
    by (cases "type = sample_type") (simp_all add: parse_event_def)
  then obtain p where p: "parse_sample a (format_of a) order bs = Inr p" "event_of_sample p = Sample_event s"
    by (auto simp: map_sum_Inr)
  have "ps_id p = None" using parse_sample_without_id [OF p(1)] assms(2) by blast
  with p(2) show ?thesis by (auto simp: event_of_sample_def)
qed

lemma sources_by_none:
  assumes "handle_all (data_callback db (context_observer ip_hash format_of) order) evs c = Inr c'"
    "\<forall>a. \<not> has_flag (format_of a) format_id" "dom (pc_event_sources c) \<subseteq> {None}" "unfinished c"
  shows "dom (pc_event_sources c') \<subseteq> {None} \<and> unfinished c'"
  using assms(1,3,4)
proof (induction evs arbitrary: c)
  case (Cons ev evs)
  then obtain c1 where c1: "data_callback db (context_observer ip_hash format_of) order ev c = Inr c1"
      "handle_all (data_callback db (context_observer ip_hash format_of) order) evs c1 = Inr c'"
    by (auto simp: bind_result_Inr)
  obtain e where e: "event_of_bytes db format_of order ev = Inr e" "handle_parsed ip_hash e c = Inr c1"
    using c1(1) by (auto simp: callback_event bind_result_Inr)
  have "dom (pc_event_sources c1) \<subseteq> {None} \<and> unfinished c1"
  proof (cases e)
    case None
    with e(2) Cons.prems(2,3) show ?thesis by (simp add: handle_parsed_def)
  next
    case (Some x)
    then have x: "handle_event ip_hash x c = Some c1" using e(2) by (auto simp: handle_parsed_def split: option.splits)
    moreover have "\<forall>s. x = Sample_event s \<longrightarrow> sample_event_id s = None"
      using samples_without_id [OF _ assms(2)] e(1) Some by blast
    ultimately show ?thesis using context_sources_by_none Cons.prems(2) handle_event_unfinished [OF Cons.prems(3) x] by blast
  qed
  then show ?case using Cons.IH [OF c1(2)] by blast
qed simp

lemma assign_names_sources:
  "pc_event_sources (assign_names ord c) = pc_event_sources c" "pc_source_events (assign_names ord c) = pc_source_events c"
proof -
  note step = foldl_invariant [where P = "\<lambda>d. pc_event_sources d = pc_event_sources c \<and> pc_source_events d = pc_source_events c"]
  have "pc_event_sources (assign_names ord c) = pc_event_sources c \<and> pc_source_events (assign_names ord c) = pc_source_events c"
    unfolding assign_names_def Let_def
    by (intro step) (auto simp: name_process_def name_thread_def Let_def)
  then show "pc_event_sources (assign_names ord c) = pc_event_sources c" "pc_source_events (assign_names ord c) = pc_source_events c"
    by blast+
qed

lemma finish_sources:
  "pc_source_events (finish ord eo c) = foldl (\<lambda>m e.
     m(the (pc_event_sources c e) \<mapsto> (case m (the (pc_event_sources c e)) of None \<Rightarrow> [] | Some es \<Rightarrow> es) @ [e]))
     (pc_source_events c) (eo (dom (pc_event_sources c)))"
  by (simp add: finish_def find_sampled_processes_def revert_event_sources_def connect_threads_def assign_ids_def Let_def
      assign_names_sources split: prod.split)

text \<open>If the samples carry an identifier and no id, which is how recordings of several events are written, then
  whatever the events are, all their sources are filed under the id None, and after finishing at most one
  of them is there to be listed.\<close>
lemma sources_without_ids_collapse:
  assumes "handle_all (data_callback db (context_observer ip_hash format_of) order) evs empty_context = Inr c"
    "\<forall>a. \<not> has_flag (format_of a) format_id" "\<forall>A. finite A \<longrightarrow> set (event_ord A) = A \<and> distinct (event_ord A)"
  shows "\<exists>src. dom (pc_source_events (finish ord event_ord c)) \<subseteq> {src}"
proof -
  have none: "dom (pc_event_sources c) \<subseteq> {None}" and un: "unfinished c"
    using sources_by_none [OF assms(1,2)] context_wf_empty(2) by (simp_all add: empty_context_def)
  have "finite (dom (pc_event_sources c))" using none by (rule finite_subset) simp
  then have ord: "set (event_ord (dom (pc_event_sources c))) \<subseteq> {None}" "distinct (event_ord (dom (pc_event_sources c)))"
    using assms(3) none by auto
  then have "event_ord (dom (pc_event_sources c)) = [] \<or> event_ord (dom (pc_event_sources c)) = [None]"
    by (cases "event_ord (dom (pc_event_sources c))" rule: remdups_adj.cases) auto
  moreover have "pc_source_events c = Map.empty" using un by (simp add: unfinished_def)
  ultimately show ?thesis unfolding finish_sources by auto
qed

section \<open>Examples\<close>

definition example_format :: u64 where "example_format = 0x10427"

definition example_sample :: parsed_sample where
  "example_sample = \<lparr>ps_attributes = 0, ps_id = None, ps_ip = Some 0x1010, ps_pid = Some 7, ps_tid = Some 8, ps_time = Some 120,
     ps_addr = None, ps_stream_id = None, ps_cpu = None, ps_res = None, ps_period = None, ps_ips = Some [0x1010, 0x2020],
     ps_data = Some [1, 2, 3]\<rparr>"

text \<open>The header of a sample, and the attributes of two events.\<close>

definition sample_header :: "u8 list" where
  "sample_header = [9, 0, 0, 0, 0, 0, 67, 0]"

definition attributes_with :: "u64 \<Rightarrow> event_attributes" where
  "attributes_with fmt = \<lparr>attr_type = 0, attr_sample_period_freq = 4000, attr_sample_format = fmt, attr_read_format = 4,
     attr_flags = 0x40000, attr_precise_ip = can_have_arbitrary_skid, attr_name = None\<rparr>"

lemma example_flags [simp]:
  "has_flag example_format 0" "has_flag example_format (Suc 0)" "has_flag example_format 2" "\<not> has_flag example_format 3"
  "has_flag example_format 5" "\<not> has_flag example_format 6" "\<not> has_flag example_format 7" "\<not> has_flag example_format 8"
  "\<not> has_flag example_format 9" "has_flag example_format 10" "has_flag example_format 16"
  by (simp_all add: example_format_def bit_numeral_rec)

lemma example_fits: "sample_fits example_format example_sample"
  by (simp add: sample_fits_def example_sample_def)


definition example_sample_id :: sample_id where
  "example_sample_id = \<lparr>sid_pid = Some 7, sid_tid = Some 8, sid_time = Some 99, sid_id = None, sid_stream_id = None,
     sid_cpu = None, sid_res = None\<rparr>"

lemma example_id_fits: "sample_id_fits example_format example_sample_id"
  by (simp add: sample_id_fits_def example_sample_id_def)

lemma sample_id_roundtrip_witness:
  "parse_sample_id_back example_format big_endian ([1, 2] @ encode_sample_id example_format big_endian 77 example_sample_id) =
     Inr example_sample_id"
  using sample_id_roundtrip [OF example_id_fits, of big_endian "[1, 2]" 77]
  by (simp add: flag_opt_def example_sample_id_def)

lemma example_offsets: "calculate_id_offset example_format = Some 0" "calculate_id_back_offset example_format = Some 8"
  by (simp_all add: calculate_id_offset_def calculate_id_back_offset_def)

definition example_descs :: "(event_attributes \<times> u64 list) list" where
  "example_descs = [(attributes_with example_format, [5, 6]), (attributes_with example_format, [77, 78])]"

lemma example_database:
  "\<exists>db. fill_database example_descs = Inr db"
  by (simp add: fill_database_def example_descs_def attributes_with_def validate_def empty_database_def check_attributes_def)

lemma events_find_their_attributes_witness:
  "\<exists>db. fill_database example_descs = Inr db \<and>
     get_event_attributes db big_endian sample_type (encode_sample example_format big_endian 77 example_sample) = Inr 1 \<and>
     get_event_attributes db big_endian 3 ([1, 2] @ encode_sample_id example_format big_endian 77 example_sample_id) = Inr 1"
proof -
  obtain db where db: "fill_database example_descs = Inr db" using example_database by blast
  have "example_descs ! 1 = (attributes_with example_format, [77, 78])" "1 < length example_descs"
    "\<forall>j. 1 < j \<longrightarrow> j < length example_descs \<longrightarrow> 77 \<notin> set (snd (example_descs ! j))"
    by (simp_all add: example_descs_def)
  note * = events_find_their_attributes [OF db this(2,1) _ _ this(3) _ _ example_fits example_id_fits, of 3 big_endian "[1, 2]"]
  have "has_flag (attr_flags (attributes_with example_format)) flag_sample_id_all"
    by (simp add: attributes_with_def bit_numeral_rec)
  moreover have "(77 :: u64) \<noteq> 0" "(3 :: u32) \<noteq> 9" by simp_all
  ultimately show ?thesis using * db by (simp add: attributes_with_def)
qed

text \<open>Two samples of different events, with identifiers only.\<close>

definition id_format :: u64 where "id_format = 0x10006"

definition id_sample :: "u8 \<Rightarrow> u8 list" where
  "id_sample i = [9, 0, 0, 0, 0, 0, 32, 0, i, 0, 0, 0, 0, 0, 0, 0, 7, 0, 0, 0, 8, 0, 0, 0, 120, 0, 0, 0, 0, 0, 0, 0]"

definition id_event :: "nat \<Rightarrow> perf_event" where
  "id_event a = Sample_event \<lparr>sample_attributes = a, sample_event_id = None, sample_ip = None, sample_tid = Some 8,
     sample_time = Some 120, sample_ips = None\<rparr>"

lemma id_flags [simp]:
  "\<not> has_flag id_format 0" "has_flag id_format 1" "has_flag id_format (Suc 0)" "has_flag id_format 2" "\<not> has_flag id_format 3"
  "\<not> has_flag id_format 5" "\<not> has_flag id_format 6" "\<not> has_flag id_format 7" "\<not> has_flag id_format 8"
  "\<not> has_flag id_format 9" "\<not> has_flag id_format 10" "has_flag id_format 16"
  by (simp_all add: id_format_def bit_numeral_rec)

definition id_database :: attributes_database where
  "id_database = \<lparr>all_attributes = [attributes_with id_format, attributes_with id_format],
     id_to_attributes = [5 \<mapsto> 0, 77 \<mapsto> 1], id_offset = Some 0, id_back_offset = Some 8\<rparr>"

lemma id_database_filled:
  "fill_database [(attributes_with id_format, [5]), (attributes_with id_format, [77])] = Inr id_database"
  by (simp add: fill_database_def attributes_with_def validate_def empty_database_def check_attributes_def id_database_def
      calculate_id_offset_def calculate_id_back_offset_def)

lemma id_samples_parsed:
  "event_of_bytes id_database (\<lambda>_. id_format) little_endian (id_sample 5) = Inr (Some (id_event 0))"
  "event_of_bytes id_database (\<lambda>_. id_format) little_endian (id_sample 77) = Inr (Some (id_event 1))"
  by (simp_all add: event_of_bytes_def event_type_of_def id_sample_def extract_int_def extract_nat_def is_kernel_event_def
      event_body_def subspan_from_def event_header_size_def get_event_attributes_def id_database_def parse_event_def parse_sample_def
      extract_move_if_def extract_move_def extract_vector_if_def event_of_sample_def id_event_def attributes_with_def)

definition event_sequence :: event_order where
  "event_sequence A = (if None \<in> A then [None] else []) @ map Some (sorted_list_of_set (Option.these A))"

lemma event_sequence_ok: "\<forall>A. finite A \<longrightarrow> set (event_sequence A) = A \<and> distinct (event_sequence A)"
proof (intro allI impI)
  fix A :: "u64 option set"
  assume "finite A"
  then have "finite (Option.these A)" by (simp add: Option.these_def)
  then have "set (event_sequence A) = (if None \<in> A then {None} else {}) \<union> Some ` Option.these A" by (simp add: event_sequence_def)
  also have "\<dots> = A" by (auto simp: Some_image_these_eq) (metis option.exhaust)
  finally show "set (event_sequence A) = A \<and> distinct (event_sequence A)"
    by (auto simp: event_sequence_def distinct_map)
qed

lemma sources_without_ids_collapse_witness:
  "\<exists>c. handle_all (data_callback id_database (context_observer (\<lambda>x. x) (\<lambda>_. id_format)) little_endian)
       [id_sample 5, id_sample 77] empty_context = Inr c \<and> length (pc_sample_sources c) = 2 \<and>
     (\<exists>src. dom (pc_source_events (finish sorted_order event_sequence c)) \<subseteq> {src})"
proof -
  have parsed: "map_result (event_of_bytes id_database (\<lambda>_. id_format) little_endian) [id_sample 5, id_sample 77] =
      Inr [Some (id_event 0), Some (id_event 1)]" by (simp add: id_samples_parsed)
  obtain c where c: "handle_events (\<lambda>x. x) [id_event 0, id_event 1] empty_context = Some c" "length (pc_sample_sources c) = 2"
    by (simp add: id_event_def handle_event_def handle_sample_def empty_context_def Let_def)
  have run: "handle_all (data_callback id_database (context_observer (\<lambda>x. x) (\<lambda>_. id_format)) little_endian)
      [id_sample 5, id_sample 77] empty_context = Inr c"
    unfolding handle_all_parsed [OF parsed] using c(1) by simp
  from sources_without_ids_collapse [OF run _ event_sequence_ok, of sorted_order] run c(2) show ?thesis by auto
qed

end
