(* ===== verification/PerfFile.thy ===== *)
theory PerfFile
  imports PerfEvents
begin

text \<open>
  Linux recordings as files: \<open>snail/perf_data/perf_data_file.cpp\<close>, the header and its parts
  (\<open>parser/header.hpp\<close>, \<open>parser/header_feature.hpp\<close>, \<open>detail/file_header.hpp\<close>), the attributes in a file
  (\<open>parser/event_attributes.hpp\<close>) and \<open>perf_data_metadata\<close>. A set of features is a list of 256 bits.
  Messages on the standard output and assertions are left out.
\<close>

section \<open>Headers\<close>

record file_section =
  sec_offset :: u64
  sec_size :: u64

definition file_section_size :: nat where "file_section_size = 16"

definition section_view :: "endian \<Rightarrow> u8 list \<Rightarrow> error + file_section" where
  "section_view order bs =
     bind_result (extract_int order bs 0) (\<lambda>off.
     bind_result (extract_int order bs 8) (\<lambda>n. Inr \<lparr>sec_offset = off, sec_size = n\<rparr>))"

abbreviation (input) feature_build_id :: nat where "feature_build_id \<equiv> 2"
abbreviation (input) feature_hostname :: nat where "feature_hostname \<equiv> 3"
abbreviation (input) feature_event_desc :: nat where "feature_event_desc \<equiv> 12"
abbreviation (input) last_feature :: nat where "last_feature \<equiv> 32"

type_synonym feature_flags = "bool list"

definition test_feature :: "feature_flags \<Rightarrow> nat \<Rightarrow> error + bool" where
  "test_feature flags n = (if n < length flags then Inr (flags ! n) else Inl (Throw ''bitset::test''))"

text \<open>The bits of a number of words, the lowest bit of a word first.\<close>

fun extract_bitset :: "nat \<Rightarrow> endian \<Rightarrow> u8 list \<Rightarrow> nat \<Rightarrow> nat \<Rightarrow> error + bool list" where
  "extract_bitset word_bytes order bs off 0 = Inr []"
| "extract_bitset word_bytes order bs off (Suc n) =
     bind_result (extract_nat order word_bytes bs off) (\<lambda>current.
     bind_result (extract_bitset word_bytes order bs (off + word_bytes) n) (\<lambda>flags.
       Inr (map (\<lambda>b. current div 2 ^ b mod 2 = 1) [0..<8 * word_bytes] @ flags)))"

definition additional_features :: "endian \<Rightarrow> u8 list \<Rightarrow> error + feature_flags" where
  "additional_features order bs =
     (let off = 24 + file_section_size * 3 in
      bind_result (extract_bitset 8 order bs off 4) (\<lambda>flags.
        if order = native \<or> flags ! feature_hostname then Inr flags
        else bind_result (extract_bitset 4 order bs off 8) (\<lambda>flags32.
          if flags32 ! feature_hostname then Inr flags32
          else Inr ((replicate 256 False)[feature_build_id := True]))))"

definition header_size :: nat where "header_size = 56 + file_section_size * 3"

record perf_header =
  ph_byte_order :: endian
  ph_size :: u64
  ph_attribute_size :: u64
  ph_attributes :: file_section
  ph_data :: file_section
  ph_event_types :: file_section
  ph_features :: feature_flags

definition magic_v2 :: u64 where "magic_v2 = 0x32454c4946524550"
definition magic_v2_swapped :: u64 where "magic_v2_swapped = 0x50455246494c4532"

definition read_header :: "endian \<Rightarrow> u8 list \<Rightarrow> error + perf_header" where
  "read_header order bs =
     bind_result (extract_int order bs 8) (\<lambda>size :: u64.
       if unat size \<noteq> header_size then Inl (Throw ''Invalid perf.data file: Invalid header size.'')
       else bind_result (extract_int order bs 16) (\<lambda>attribute_size.
         bind_result (bind_result (subspan_from 24 bs) (section_view order)) (\<lambda>attributes.
         bind_result (bind_result (subspan_from (24 + file_section_size) bs) (section_view order)) (\<lambda>data.
         bind_result (bind_result (subspan_from (24 + file_section_size * 2) bs) (section_view order)) (\<lambda>event_types.
         bind_result (additional_features order bs) (\<lambda>flags.
           Inr \<lparr>ph_byte_order = order, ph_size = size, ph_attribute_size = attribute_size, ph_attributes = attributes,
             ph_data = data, ph_event_types = event_types, ph_features = flags\<rparr>))))))"

section \<open>Attributes\<close>

definition event_attributes_size :: nat where "event_attributes_size = 134"

definition precise_ip_of :: "u64 \<Rightarrow> skid_constraint_type" where
  "precise_ip_of flags =
     (let n = unat (drop_bit 15 flags AND 3) in
      if n = 0 then can_have_arbitrary_skid else if n = 1 then must_have_constant_skid
      else if n = 2 then requested_to_have_0_skid else must_have_0_skid)"

definition instantiate_attributes :: "endian \<Rightarrow> u8 list \<Rightarrow> error + event_attributes" where
  "instantiate_attributes order bs =
     bind_result (extract_int order bs 0) (\<lambda>type.
     bind_result (extract_int order bs 40) (\<lambda>flags.
     bind_result (extract_int order bs 16) (\<lambda>period.
     bind_result (extract_int order bs 24) (\<lambda>fmt.
     bind_result (extract_int order bs 32) (\<lambda>read_format.
       Inr \<lparr>attr_type = type, attr_sample_period_freq = period, attr_sample_format = fmt, attr_read_format = read_format,
         attr_flags = flags, attr_precise_ip = precise_ip_of flags, attr_name = None\<rparr>)))))"

text \<open>An entry of the section of attributes: the bytes of the attributes and the section of the ids. With a
  size that does not match there is None: the section is given up.\<close>

definition attribute_entry :: "perf_header \<Rightarrow> u8 list \<Rightarrow> error + (u8 list \<times> file_section) option" where
  "attribute_entry h bs =
     bind_result (subspan 0 (min (unat (ph_attribute_size h)) event_attributes_size) bs) (\<lambda>attributes.
     bind_result (extract_int (ph_byte_order h) attributes 4) (\<lambda>n :: u32.
       if unat n \<noteq> unat (ph_attribute_size h) then Inr None
       else bind_result (subspan_from (unat (ph_attribute_size h)) bs) (\<lambda>ids.
         bind_result (section_view (ph_byte_order h) ids) (\<lambda>sec. Inr (Some (attributes, sec))))))"

partial_function (option) read_ids_loop :: "endian \<Rightarrow> reader \<Rightarrow> u64 list \<Rightarrow> (error + u64 list \<times> fstream) option" where
  "read_ids_loop order r ids =
     (case keep_going r of
        Inl e \<Rightarrow> Some (Inl e)
      | Inr (keeps_going, r1) \<Rightarrow>
          if \<not> keeps_going then Some (Inr (ids, rd_stream r1))
          else (case retrieve_data 8 False r1 of
            (bs, r2) \<Rightarrow>
              if length bs \<noteq> 8 then read_ids_loop order r2 ids
              else (case extract_int order bs 0 of
                Inl e \<Rightarrow> Some (Inl e)
              | Inr i \<Rightarrow> read_ids_loop order r2 (ids @ [i]))))"

text \<open>\<open>stream_position_resetter\<close>: after reading something else the stream is where it was.\<close>

definition reset_position :: "fstream \<Rightarrow> fstream \<Rightarrow> fstream" where
  "reset_position before after = (if fs_good before then stream_seek (fs_position before) after else after)"

definition read_ids :: "endian \<Rightarrow> file_section \<Rightarrow> fstream \<Rightarrow> (error + u64 list \<times> fstream) option" where
  "read_ids order sec s =
     (case chunked_reader 0xFF (unat (sec_offset sec)) (unat (sec_size sec)) s of
        Inl e \<Rightarrow> Some (Inl e)
      | Inr r \<Rightarrow> map_option (map_sum id (apsnd (reset_position s))) (read_ids_loop order r []))"

partial_function (option) read_attributes_loop ::
  "perf_header \<Rightarrow> reader \<Rightarrow> (event_attributes \<times> u64 list) list \<Rightarrow>
   (error + (event_attributes \<times> u64 list) list option \<times> fstream) option" where
  "read_attributes_loop h r descs =
     (case keep_going r of
        Inl e \<Rightarrow> Some (Inl e)
      | Inr (keeps_going, r1) \<Rightarrow>
          if \<not> keeps_going then Some (Inr (Some descs, rd_stream r1))
          else (case retrieve_data (unat (ph_attribute_size h + 16)) False r1 of
            (bs, r2) \<Rightarrow>
              if length bs \<noteq> unat (ph_attribute_size h + 16) then read_attributes_loop h r2 descs
              else (case attribute_entry h bs of
                Inl e \<Rightarrow> Some (Inl e)
              | Inr None \<Rightarrow> Some (Inr (None, rd_stream r2))
              | Inr (Some (attributes, sec)) \<Rightarrow>
                  (case read_ids (ph_byte_order h) sec (rd_stream r2) of
                     None \<Rightarrow> None
                   | Some (Inl e) \<Rightarrow> Some (Inl e)
                   | Some (Inr (ids, s1)) \<Rightarrow>
                       (case instantiate_attributes (ph_byte_order h) attributes of
                          Inl e \<Rightarrow> Some (Inl e)
                        | Inr a \<Rightarrow> read_attributes_loop h (r2\<lparr>rd_stream := s1\<rparr>) (descs @ [(a, ids)]))))))"

text \<open>The database that was given in is kept when the section is given up.\<close>

definition read_attributes_section ::
  "perf_header \<Rightarrow> attributes_database \<Rightarrow> fstream \<Rightarrow> (error + attributes_database \<times> fstream) option" where
  "read_attributes_section h db s =
     (case chunked_reader max_chunk_size (unat (sec_offset (ph_attributes h))) (unat (sec_size (ph_attributes h))) s of
        Inl e \<Rightarrow> Some (Inl e)
      | Inr r \<Rightarrow>
          (case read_attributes_loop h r [] of
             None \<Rightarrow> None
           | Some (Inl e) \<Rightarrow> Some (Inl e)
           | Some (Inr (None, s1)) \<Rightarrow> Some (Inr (db, s1))
           | Some (Inr (Some descs, s1)) \<Rightarrow>
               Some (bind_result (fill_database descs) (\<lambda>db1. Inr (db1, s1)))))"

section \<open>Metadata\<close>

function proceed_from :: "feature_flags \<Rightarrow> nat \<Rightarrow> error + nat" where
  "proceed_from flags n =
     bind_result (test_feature flags n) (\<lambda>b.
       if \<not> b \<and> n < last_feature then proceed_from flags (n + 1) else Inr n)"
  by pat_completeness auto
termination by (relation "measure (\<lambda>(flags, n). last_feature - n)") auto

declare proceed_from.simps [simp del]

definition proceed_to_next_feature :: "feature_flags \<Rightarrow> nat \<Rightarrow> error + nat" where
  "proceed_to_next_feature flags current = proceed_from flags (current + 1)"

definition default_build_id_size :: nat where "default_build_id_size = 20"

text \<open>A build id event, and its handler: a build id that is longer than the buffer is copied beyond its end.\<close>

definition build_id_event :: "endian \<Rightarrow> u8 list \<Rightarrow> error + string \<times> u8 list" where
  "build_id_event order bs =
     bind_result (event_body bs) (\<lambda>body.
     bind_result (extract_string body 28) (\<lambda>filename.
     bind_result (event_misc order bs) (\<lambda>misc.
     bind_result (if misc AND 0x8000 \<noteq> 0 then bind_result (extract_int order body 24) (\<lambda>n :: u8. Inr (unat n))
       else Inr default_build_id_size) (\<lambda>n.
     bind_result (subspan 4 n body) (\<lambda>bid.
       Inr (filename, bid))))))"

definition add_build_id :: "endian \<Rightarrow> u8 list \<Rightarrow> perf_metadata \<Rightarrow> error + perf_metadata" where
  "add_build_id order bs md =
     bind_result (build_id_event order bs) (\<lambda>(filename, bid).
       if length bid > max_build_id_size then Inl Undefined
       else Inr (md\<lparr>md_build_ids := Some ((case md_build_ids md of None \<Rightarrow> Map.empty | Some m \<Rightarrow> m)(filename \<mapsto> bid))\<rparr>))"

text \<open>A description of an event. The buffer of the attributes keeps what an earlier description has left
  in it, which is only read if the stream has failed.\<close>

definition read_event_desc :: "endian \<Rightarrow> u32 \<Rightarrow> fstream \<Rightarrow> error + event_desc_data \<times> fstream" where
  "read_event_desc order attr_size s =
     (case stream_read (min (unat attr_size) event_attributes_size) s of
        (attributes, s1) \<Rightarrow>
          let s2 = (if unat attr_size > event_attributes_size
                    then stream_seek (fs_position s1 + (unat attr_size - event_attributes_size)) s1 else s1) in
          bind_result (read_int order s2) (\<lambda>(nr_ids :: u32, s3).
          bind_result (read_string order s3) (\<lambda>(name, s4).
          bind_result (read_times (read_int order) (unat nr_ids) s4) (\<lambda>(ids, s5).
          bind_result (instantiate_attributes order attributes) (\<lambda>a.
            Inr (\<lparr>desc_attribute = a, desc_event_string = name, desc_ids = ids\<rparr>, s5))))))"

definition read_event_descs :: "endian \<Rightarrow> fstream \<Rightarrow> error + event_desc_data list \<times> fstream" where
  "read_event_descs order s =
     bind_result (read_int order s) (\<lambda>(nr_events :: u32, s1).
     bind_result (read_int order s1) (\<lambda>(attr_size, s2).
       read_times (read_event_desc order attr_size) (unat nr_events) s2))"

definition read_pair :: "endian \<Rightarrow> fstream \<Rightarrow> error + ('a::len word \<times> 'a word) \<times> fstream" where
  "read_pair order s =
     bind_result (read_int order s) (\<lambda>(a, s1). bind_result (read_int order s1) (\<lambda>(b, s2). Inr ((a, b), s2)))"

definition read_feature ::
  "perf_header \<Rightarrow> nat \<Rightarrow> file_section \<Rightarrow> fstream \<Rightarrow> perf_metadata \<Rightarrow> (error + perf_metadata \<times> fstream) option" where
  "read_feature h feature sec s md =
     (let order = ph_byte_order h;
          text = read_string order s;
          store = (\<lambda>g r. Some (bind_result r (\<lambda>(x, s1). Inr (g x, s1))))
      in if feature = feature_build_id then
           read_events order (unat (sec_offset sec)) (unat (sec_size sec)) (add_build_id order) (\<lambda>_. False) s md
         else if feature = feature_hostname then store (\<lambda>x. md\<lparr>md_hostname := Some x\<rparr>) text
         else if feature = 4 then store (\<lambda>x. md\<lparr>md_os_release := Some x\<rparr>) text
         else if feature = 5 then store (\<lambda>x. md\<lparr>md_version := Some x\<rparr>) text
         else if feature = 6 then store (\<lambda>x. md\<lparr>md_arch := Some x\<rparr>) text
         else if feature = 7 then
           Some (bind_result (read_pair order s) (\<lambda>(x, s1). Inr (md\<lparr>md_nr_cpus := Some x\<rparr>, s1)))
         else if feature = 8 then store (\<lambda>x. md\<lparr>md_cpu_desc := Some x\<rparr>) text
         else if feature = 9 then store (\<lambda>x. md\<lparr>md_cpu_id := Some x\<rparr>) text
         else if feature = 10 then
           Some (bind_result (read_int order s) (\<lambda>(x, s1). Inr (md\<lparr>md_total_mem := Some x\<rparr>, s1)))
         else if feature = 11 then
           Some (bind_result (read_string_list order s) (\<lambda>(x, s1). Inr (md\<lparr>md_cmdline := Some x\<rparr>, s1)))
         else if feature = feature_event_desc then
           Some (bind_result (read_event_descs order s) (\<lambda>(x, s1). Inr (md\<lparr>md_event_desc := md_event_desc md @ x\<rparr>, s1)))
         else if feature = 21 then
           Some (bind_result (read_pair order s) (\<lambda>((a :: u64, b), s1).
             Inr (md\<lparr>md_sample_time := Some (sint a, sint b)\<rparr>, s1)))
         else if feature = 23 then
           Some (bind_result (read_int order s) (\<lambda>(x, s1). Inr (md\<lparr>md_clockid := Some x\<rparr>, s1)))
         else Some (Inr (md, s)))"

partial_function (option) read_metadata_loop ::
  "perf_header \<Rightarrow> nat \<Rightarrow> reader \<Rightarrow> perf_metadata \<Rightarrow> (error + perf_metadata \<times> fstream) option" where
  "read_metadata_loop h feature r md =
     (case keep_going r of
        Inl e \<Rightarrow> Some (Inl e)
      | Inr (keeps_going, r1) \<Rightarrow>
          if \<not> keeps_going then Some (Inr (md, rd_stream r1))
          else (case proceed_to_next_feature (ph_features h) feature of
            Inl e \<Rightarrow> Some (Inl e)
          | Inr n \<Rightarrow>
              (case retrieve_data file_section_size False r1 of
                 (bs, r2) \<Rightarrow>
                   if length bs \<noteq> file_section_size then read_metadata_loop h n r2 md
                   else (case section_view (ph_byte_order h) bs of
                     Inl e \<Rightarrow> Some (Inl e)
                   | Inr sec \<Rightarrow>
                       (case read_feature h n sec (stream_seek (unat (sec_offset sec)) (rd_stream r2)) md of
                          None \<Rightarrow> None
                        | Some (Inl e) \<Rightarrow> Some (Inl e)
                        | Some (Inr (md1, s1)) \<Rightarrow>
                            read_metadata_loop h n (r2\<lparr>rd_stream := reset_position (rd_stream r2) s1\<rparr>) md1)))))"

definition active_features :: "feature_flags \<Rightarrow> nat" where
  "active_features flags = length (filter id flags)"

definition read_metadata :: "perf_header \<Rightarrow> fstream \<Rightarrow> perf_metadata \<Rightarrow> (error + perf_metadata \<times> fstream) option" where
  "read_metadata h s md =
     (let n = active_features (ph_features h) in
      if n = 0 then Some (Inr (md, s))
      else case chunked_reader 512 (unat (sec_offset (ph_data h) + sec_size (ph_data h))) (n * file_section_size) s of
        Inl e \<Rightarrow> Some (Inl e)
      | Inr r \<Rightarrow> read_metadata_loop h 0 r md)"

definition extract_event_attributes_database :: "perf_metadata \<Rightarrow> error + attributes_database" where
  "extract_event_attributes_database md = fill_database (map (\<lambda>d. (desc_attribute d, desc_ids d)) (md_event_desc md))"

section \<open>Recordings\<close>

definition read_data_section ::
  "perf_header \<Rightarrow> attributes_database \<Rightarrow> 's observer \<Rightarrow> (nat \<Rightarrow> bool) \<Rightarrow> fstream \<Rightarrow> 's \<Rightarrow> (error + 's \<times> fstream) option" where
  "read_data_section h db ob canceled s c =
     read_events (ph_byte_order h) (unat (sec_offset (ph_data h))) (unat (sec_size (ph_data h)))
       (data_callback db ob (ph_byte_order h)) canceled s c"

record perf_data_file =
  pf_stream :: "fstream option"
  pf_header :: "perf_header option"
  pf_metadata :: "perf_metadata option"

definition closed_file :: perf_data_file where
  "closed_file = \<lparr>pf_stream = None, pf_header = None, pf_metadata = None\<rparr>"

definition close_recording :: "perf_data_file \<Rightarrow> perf_data_file" where
  "close_recording pf = pf\<lparr>pf_stream := None, pf_header := None\<rparr>"

text \<open>Opening a stream that is open fails, and leaves it open.\<close>

definition open_stream :: "u8 list option \<Rightarrow> fstream option \<Rightarrow> fstream option" where
  "open_stream disk s =
     (case s of
        Some s \<Rightarrow> Some (s\<lparr>fs_good := False\<rparr>)
      | None \<Rightarrow> map_option (\<lambda>bs. \<lparr>fs_content = bs, fs_position = 0, fs_good = True\<rparr>) disk)"

text \<open>\<open>disk\<close> is the content of the file, if there is one.\<close>

definition open_recording :: "u8 list option \<Rightarrow> perf_data_file \<Rightarrow> (error + unit) \<times> perf_data_file" where
  "open_recording disk pf =
     (case open_stream disk (pf_stream pf) of
        None \<Rightarrow> (Inl (Throw ''Could not open file''), pf)
      | Some s \<Rightarrow>
          (case stream_read header_size s of
             (bs, s1) \<Rightarrow>
               let pf1 = pf\<lparr>pf_stream := Some s1\<rparr> in
               if \<not> fs_good s1 \<or> fs_position s1 < header_size
               then (Inl (Throw ''Invalid perf.data file: insufficient size for header.''), close_recording pf1)
               else (case extract_int native bs 0 of
                 Inl e \<Rightarrow> (Inl e, pf1)
               | Inr magic \<Rightarrow>
                   if magic \<noteq> magic_v2 \<and> magic \<noteq> magic_v2_swapped
                   then (Inl (Throw ''Invalid perf.data file: Invalid magic header.''), close_recording pf1)
                   else (case read_header (if magic = magic_v2 then native else big_endian) bs of
                     Inl e \<Rightarrow> (Inl e, close_recording pf1)
                   | Inr h \<Rightarrow> (Inr (), pf1\<lparr>pf_header := Some h\<rparr>)))))"

text \<open>The database of the attributes, from the section of attributes or from the metadata. \<open>empty_database\<close>
  is what stays if the section is given up.\<close>

definition read_descriptions :: "perf_header \<Rightarrow> fstream \<Rightarrow> (error + attributes_database \<times> perf_metadata \<times> fstream) option" where
  "read_descriptions h s =
     (let has_desc = ph_features h ! feature_event_desc in
      case (if has_desc then Some (Inr (empty_database, s)) else read_attributes_section h empty_database s) of
        None \<Rightarrow> None
      | Some (Inl e) \<Rightarrow> Some (Inl e)
      | Some (Inr (db, s1)) \<Rightarrow>
          (case read_metadata h s1 no_metadata of
             None \<Rightarrow> None
           | Some (Inl e) \<Rightarrow> Some (Inl e)
           | Some (Inr (md, s2)) \<Rightarrow>
               Some (bind_result (if has_desc then extract_event_attributes_database md else Inr db) (\<lambda>db1.
                 Inr (db1, md, s2)))))"

text \<open>\<open>format_of\<close> of a handler reads the attributes that the event refers to.\<close>

definition process_recording_file ::
  "(attributes_database \<Rightarrow> 's observer) \<Rightarrow> (nat \<Rightarrow> bool) \<Rightarrow> perf_data_file \<Rightarrow> 's \<Rightarrow> (error + 's \<times> perf_data_file) option" where
  "process_recording_file observe canceled pf c =
     (case (pf_stream pf, pf_header pf) of
        (None, _) \<Rightarrow> Some (Inl (Throw ''Cannot process file: file is not open.''))
      | (Some s, None) \<Rightarrow> Some (Inl (Throw ''Cannot process file: missing header data.''))
      | (Some s, Some h) \<Rightarrow>
          (case read_descriptions h s of
             None \<Rightarrow> None
           | Some (Inl e) \<Rightarrow> Some (Inl e)
           | Some (Inr (db, md, s1)) \<Rightarrow>
               (case read_data_section h db (observe db) canceled s1 c of
                  None \<Rightarrow> None
                | Some (Inl e) \<Rightarrow> Some (Inl e)
                | Some (Inr (c1, s2)) \<Rightarrow> Some (Inr (c1, pf\<lparr>pf_stream := Some s2, pf_metadata := Some md\<rparr>)))))"

definition format_in :: "attributes_database \<Rightarrow> nat \<Rightarrow> u64" where
  "format_in db k = attr_sample_format (all_attributes db ! k)"

section \<open>Opening\<close>

lemma extract_inside: "off + LENGTH('a) div 8 \<le> length bs \<Longrightarrow> \<exists>v :: 'a::len word. extract_int order bs off = Inr v"
  by (simp add: extract_int_def extract_nat_decode)

lemma section_inside_header: "off + 16 \<le> length bs \<Longrightarrow> \<exists>sec. bind_result (subspan_from off bs) (section_view order) = Inr sec"
proof -
  assume off: "off + 16 \<le> length bs"
  then have "0 + LENGTH(64) div 8 \<le> length (drop off bs)" "8 + LENGTH(64) div 8 \<le> length (drop off bs)" by simp_all
  from extract_inside [OF this(1), of order] extract_inside [OF this(2), of order] off show ?thesis
    by (auto simp: subspan_from_def section_view_def)
qed

lemma bitset_inside:
  "off + w * n \<le> length bs \<Longrightarrow> \<exists>flags. extract_bitset w order bs off n = Inr flags \<and> length flags = 8 * w * n"
proof (induction n arbitrary: off)
  case (Suc n)
  then have "off + w + w * n \<le> length bs" by simp
  from Suc.IH [OF this] obtain fs where "extract_bitset w order bs (off + w) n = Inr fs" "length fs = 8 * w * n" by blast
  with Suc.prems show ?case by (simp add: extract_nat_decode)
qed simp

lemma header_inside:
  assumes len: "length bs = header_size"
  shows "case read_header order bs of Inl e \<Rightarrow> e \<noteq> Undefined
    | Inr h \<Rightarrow> ph_byte_order h = order \<and> unat (ph_size h) = header_size \<and> length (ph_features h) = 256"
proof -
  have l: "length bs = 104" using len by (simp add: header_size_def file_section_size_def)
  obtain n :: u64 where n: "extract_int order bs 8 = Inr n" using extract_inside [of 8 bs order, where 'a = 64] l by auto
  obtain m :: u64 where m: "extract_int order bs 16 = Inr m" using extract_inside [of 16 bs order, where 'a = 64] l by auto
  obtain a where a: "bind_result (subspan_from 24 bs) (section_view order) = Inr a" using section_inside_header [of 24 bs order] l by auto
  obtain d where d: "bind_result (subspan_from 40 bs) (section_view order) = Inr d" using section_inside_header [of 40 bs order] l by auto
  obtain t where t: "bind_result (subspan_from 56 bs) (section_view order) = Inr t" using section_inside_header [of 56 bs order] l by auto
  obtain f where f: "extract_bitset 8 order bs 72 4 = Inr f" "length f = 256" using bitset_inside [of 72 8 4 bs order] l by auto
  obtain g where g: "extract_bitset 4 order bs 72 8 = Inr g" "length g = 256" using bitset_inside [of 72 4 8 bs order] l by auto
  have "\<exists>flags. additional_features order bs = Inr flags \<and> length flags = 256"
    using f g by (auto simp: additional_features_def file_section_size_def Let_def)
  then obtain flags where flags: "additional_features order bs = Inr flags" "length flags = 256" by blast
  show ?thesis using n m a d t flags by (simp add: read_header_def file_section_size_def)
qed

text \<open>C26: Opening either gives a header, of the right size and with its 256 features, and a stream right behind it, or it
  fails with an exception of its own and leaves the file closed, however short or damaged the content is.\<close>
theorem open_gives_header_or_closes:
  "case open_recording disk closed_file of
     (Inl e, pf) \<Rightarrow> e \<noteq> Undefined \<and> pf = closed_file
   | (Inr _, pf) \<Rightarrow> \<exists>h s. pf_header pf = Some h \<and> pf_stream pf = Some s \<and> pf_metadata pf = None \<and>
       length (ph_features h) = 256 \<and> unat (ph_size h) = header_size \<and>
       fs_good s \<and> disk = Some (fs_content s) \<and> fs_position s = header_size \<and> header_size \<le> length (fs_content s)"
proof (cases disk)
  case None
  then show ?thesis by (simp add: open_recording_def open_stream_def closed_file_def)
next
  case (Some content)
  let ?s = "\<lparr>fs_content = content, fs_position = 0, fs_good = True\<rparr>"
  show ?thesis
  proof (cases "header_size \<le> length content")
    case False
    then show ?thesis using Some
      by (simp add: open_recording_def open_stream_def closed_file_def stream_read_def Let_def close_recording_def)
  next
    case True
    have read: "stream_read header_size ?s = (take header_size content, ?s\<lparr>fs_position := header_size\<rparr>)"
      using True by (simp add: stream_read_def Let_def)
    have len: "length (take header_size content) = header_size" using True by simp
    then obtain magic :: u64 where magic: "extract_int native (take header_size content) 0 = Inr magic"
      using extract_inside [of 0 "take header_size content" native, where 'a = 64] by (auto simp: header_size_def file_section_size_def)
    show ?thesis
    proof (cases "magic \<noteq> magic_v2 \<and> magic \<noteq> magic_v2_swapped")
      case True
      then show ?thesis using Some read magic
        by (simp add: open_recording_def open_stream_def closed_file_def Let_def close_recording_def)
    next
      case good: False
      obtain order where order: "order = (if magic = magic_v2 then native else big_endian)" by blast
      have "open_recording disk closed_file = (case read_header order (take header_size content) of
          Inl e \<Rightarrow> (Inl e, closed_file)
        | Inr h \<Rightarrow> (Inr (), \<lparr>pf_stream = Some (?s\<lparr>fs_position := header_size\<rparr>), pf_header = Some h, pf_metadata = None\<rparr>))"
        using Some read magic good True order
        by (auto simp: open_recording_def open_stream_def closed_file_def Let_def close_recording_def split: sum.split)
      with header_inside [OF len, of order] Some True show ?thesis
        by (cases "read_header order (take header_size content)") simp_all
    qed
  qed
qed

end
