(* ===== verification/PerfRecording.thy ===== *)
theory PerfRecording
  imports PerfFile
begin

text \<open>
  Linux recordings as they are written, and that \<open>PerfFile\<close> reads them: headers of machines of both byte orders,
  descriptions of events, sections of attributes, and the processing of a whole file as the list of its
  events.
\<close>

section \<open>Files as they are written\<close>

fun bits_value :: "bool list \<Rightarrow> nat" where
  "bits_value [] = 0"
| "bits_value (b # bs) = of_bool b + 2 * bits_value bs"

text \<open>Flags in words of some size, as the machine that writes the file has them.\<close>

fun put_flags :: "nat \<Rightarrow> endian \<Rightarrow> nat \<Rightarrow> bool list \<Rightarrow> u8 list" where
  "put_flags word_bytes order 0 flags = []"
| "put_flags word_bytes order (Suc n) flags =
     encode order word_bytes (bits_value (take (8 * word_bytes) flags)) @
     put_flags word_bytes order n (drop (8 * word_bytes) flags)"

definition put_section :: "endian \<Rightarrow> file_section \<Rightarrow> u8 list" where
  "put_section order sec = put order (sec_offset sec) @ put order (sec_size sec)"

definition encode_header :: "nat \<Rightarrow> perf_header \<Rightarrow> u8 list" where
  "encode_header word_bytes h =
     (let order = ph_byte_order h in
      put order magic_v2 @ put order (ph_size h) @ put order (ph_attribute_size h) @ put_section order (ph_attributes h) @
      put_section order (ph_data h) @ put_section order (ph_event_types h) @
      put_flags word_bytes order (32 div word_bytes) (ph_features h))"

lemma bits_value_less: "bits_value bs < 2 ^ length bs"
proof (induction bs)
  case (Cons b bs)
  then show ?case by (cases b) auto
qed simp

lemma bits_of_value: "map (\<lambda>b. bits_value bs div 2 ^ b mod 2 = 1) [0..<length bs] = bs"
proof (induction bs)
  case (Cons b bs)
  have tail: "(of_bool b + 2 * bits_value bs) div 2 ^ Suc k = bits_value bs div 2 ^ k" for k
    by (cases b) (simp_all add: div_mult2_eq)
  have "map (\<lambda>k. bits_value (b # bs) div 2 ^ k mod 2 = 1) [0..<length (b # bs)] =
      (bits_value (b # bs) mod 2 = 1) # map (\<lambda>k. bits_value (b # bs) div 2 ^ Suc k mod 2 = 1) [0..<length bs]"
    by (simp add: upt_conv_Cons map_Suc_upt [symmetric] del: upt_Suc)
  also have "\<dots> = b # bs" using Cons by (simp add: tail del: power_Suc)
  finally show ?case .
qed simp

lemma extract_nat_at:
  assumes "at_bytes bs off (encode order n v @ post)" "v < 256 ^ n"
  shows "extract_nat order n bs off = Inr v" "at_bytes bs (off + n) post"
proof -
  have off: "off \<le> length bs" "drop off bs = encode order n v @ post" using assms(1) by (auto simp: at_bytes_def)
  have "length bs - off = n + length post" using arg_cong [OF off(2), of length] by simp
  then have len: "off + n \<le> length bs" using off(1) by simp
  show "extract_nat order n bs off = Inr v"
    using assms(2) len off(2) by (simp add: extract_nat_decode decode_encode)
  have "drop (off + n) bs = drop n (drop off bs)" by (simp add: add.commute)
  then show "at_bytes bs (off + n) post" using len by (simp add: off(2) at_bytes_def)
qed

lemma extract_bitset_at:
  assumes "at_bytes bs off (put_flags w order n flags @ post)" "length flags = 8 * w * n"
  shows "extract_bitset w order bs off n = Inr flags"
  using assms
proof (induction n arbitrary: off flags)
  case (Suc n)
  let ?now = "take (8 * w) flags"
  have len: "length ?now = 8 * w" using Suc.prems(2) by simp
  have "bits_value ?now < 256 ^ w" using bits_value_less [of ?now] by (simp only: len power_mult) simp
  from extract_nat_at [OF _ this, of bs off order] Suc.prems(1)
  have r: "extract_nat order w bs off = Inr (bits_value ?now)"
      "at_bytes bs (off + w) (put_flags w order n (drop (8 * w) flags) @ post)" by simp_all
  have "map (\<lambda>b. bits_value ?now div 2 ^ b mod 2 = 1) [0..<8 * w] = ?now" using bits_of_value [of ?now] unfolding len .
  with Suc.IH [OF r(2)] Suc.prems(2) r(1) show ?case by simp
qed simp

lemma length_put_flags: "length (put_flags w order n flags) = w * n"
  by (induction n arbitrary: flags) simp_all

lemma le_value_append: "le_value (xs @ ys) = le_value xs + 256 ^ length xs * le_value ys"
  by (induction xs) (simp_all add: algebra_simps)

text \<open>Two words of four bytes that are read as one of eight, in big endian.\<close>

lemma two_words:
  assumes "at_bytes bs off (encode big_endian 4 v @ encode big_endian 4 u @ post)" "v < 256 ^ 4" "u < 256 ^ 4"
  shows "extract_nat big_endian 8 bs off = Inr (u + 256 ^ 4 * v)"
proof -
  have "encode big_endian 8 (u + 256 ^ 4 * v) = encode big_endian 4 v @ encode big_endian 4 u"
  proof -
    let ?xs = "encode big_endian 4 v @ encode big_endian 4 u"
    have "decode big_endian ?xs = u + 256 ^ 4 * v"
      using assms(2,3) by (simp add: decode_def encode_def le_value_append le_value_bytes)
    then show ?thesis using encode_decode [of big_endian ?xs] by simp
  qed
  with assms(1) have "at_bytes bs off (encode big_endian 8 (u + 256 ^ 4 * v) @ post)" by simp
  from extract_nat_at(1) [OF this] assms(2,3) show ?thesis by simp
qed

lemma low_bit: "((u :: nat) + 256 ^ 4 * v) div 2 ^ 3 mod 2 = u div 2 ^ 3 mod 2"
proof -
  have "u + 256 ^ 4 * v = u + 2 ^ 3 * (2 * (268435456 * v))" by simp
  then have "(u + 256 ^ 4 * v) div 2 ^ 3 = u div 2 ^ 3 + 2 * (268435456 * v)" by (simp only: div_mult_self2) simp
  then show ?thesis by (simp only: mod_mult_self2)
qed

lemma nth_of_range: "n < m \<Longrightarrow> (map f [0..<m] @ fs) ! n = f n"
  by (simp add: nth_append)

text \<open>A foreign machine of 32 bits: the first look, with words of 64 bits, sees feature 35 where the host
  name should be.\<close>

lemma foreign_hostname:
  assumes at: "at_bytes bs off (put_flags 4 big_endian 8 flags @ post)" and len: "length flags = 256"
  shows "\<exists>fs. extract_bitset 8 big_endian bs off 4 = Inr fs \<and> fs ! feature_hostname = flags ! 35"
proof -
  have n8: "(8 :: nat) = Suc (Suc 6)" by simp
  let ?v = "bits_value (take 32 flags)" and ?u = "bits_value (take 32 (drop 32 flags))"
  have v: "?v < 256 ^ 4" "?u < 256 ^ 4"
    using bits_value_less [of "take 32 flags"] bits_value_less [of "take 32 (drop 32 flags)"] len by simp_all
  have words: "put_flags 4 big_endian 8 flags = encode big_endian 4 ?v @ encode big_endian 4 ?u @ put_flags 4 big_endian 6 (drop 64 flags)"
    unfolding n8 put_flags.simps by simp
  from two_words [OF _ v] at have first: "extract_nat big_endian 8 bs off = Inr (?u + 256 ^ 4 * ?v)"
    unfolding words by simp
  have "length bs = off + length (put_flags 4 big_endian 8 flags @ post)"
    using at unfolding at_bytes_def by (metis le_add_diff_inverse length_drop)
  then have room: "off + 32 \<le> length bs" by (simp add: length_put_flags)
  have "\<exists>fs. extract_bitset 8 big_endian bs o1 n = Inr fs" if "o1 + 8 * n \<le> length bs" for o1 n
    using that
  proof (induction n arbitrary: o1)
    case (Suc n)
    then have "o1 + 8 + 8 * n \<le> length bs" by simp
    from Suc.IH [OF this] obtain fs where "extract_bitset 8 big_endian bs (o1 + 8) n = Inr fs" by blast
    with Suc.prems show ?case by (simp add: extract_nat_decode)
  qed simp
  from this [of "off + 8" 3] room obtain fs where fs: "extract_bitset 8 big_endian bs (off + 8) 3 = Inr fs" by auto
  let ?x = "?u + 256 ^ 4 * ?v"
  have "extract_bitset 8 big_endian bs off (Suc 3) = Inr (map (\<lambda>b. ?x div 2 ^ b mod 2 = 1) [0..<8 * 8] @ fs)"
    using first fs by (simp only: extract_bitset.simps bind_result_simps)
  then have "extract_bitset 8 big_endian bs off 4 = Inr (map (\<lambda>b. ?x div 2 ^ b mod 2 = 1) [0..<64] @ fs)" by simp
  moreover have "(map (\<lambda>b. ?x div 2 ^ b mod 2 = 1) [0..<64] @ fs) ! 3 = (?x div 2 ^ 3 mod 2 = 1)"
    by (rule nth_of_range) simp
  moreover have "?x div 2 ^ 3 mod 2 = ?u div 2 ^ 3 mod 2" by (rule low_bit)
  moreover have "map (\<lambda>b. ?u div 2 ^ b mod 2 = 1) [0..<32] ! 3 = take 32 (drop 32 flags) ! 3"
    using bits_of_value [of "take 32 (drop 32 flags)"] len by simp
  moreover have "(map (\<lambda>b. ?u div 2 ^ b mod 2 = 1) [0..<32] @ []) ! 3 = (?u div 2 ^ 3 mod 2 = 1)"
    by (rule nth_of_range) simp
  moreover have "take 32 (drop 32 flags) ! 3 = flags ! 35" using len by simp
  ultimately show ?thesis by (metis append_Nil2)
qed

lemma at_bytes_skip:
  assumes "at_bytes bs off (xs @ post)" "length xs = n"
  shows "at_bytes bs (off + n) post"
proof -
  have d: "off \<le> length bs" "drop off bs = xs @ post" using assms(1) by (simp_all add: at_bytes_def)
  then have "drop (off + n) bs = post" using assms(2) drop_drop [of n off bs] by (simp add: add.commute)
  moreover have "length bs - off = n + length post" using arg_cong [OF d(2), of length] assms(2) by simp
  then have "off + n \<le> length bs" using d(1) by linarith
  ultimately show ?thesis by (simp add: at_bytes_def)
qed

lemma section_at_bytes:
  assumes "at_bytes bs off (put_section order sec @ post)"
  shows "bind_result (subspan_from off bs) (section_view order) = Inr sec" "at_bytes bs (off + 16) post"
proof -
  have d: "off \<le> length bs" "drop off bs = put order (sec_offset sec) @ put order (sec_size sec) @ post"
    using assms by (simp_all add: at_bytes_def put_section_def)
  then have at: "at_bytes (drop off bs) 0 (put order (sec_offset sec) @ put order (sec_size sec) @ post)"
    by (simp add: at_bytes_def)
  note e = extract_at [OF this word_sizes(1)]
  have "extract_int order (drop off bs) 8 = Inr (sec_size sec)" using extract_at(1) [OF e(2) word_sizes(1)] by simp
  with d(1) e(1) show "bind_result (subspan_from off bs) (section_view order) = Inr sec"
    by (simp add: subspan_from_def section_view_def)
  show "at_bytes bs (off + 16) post" by (rule at_bytes_skip [OF assms]) (simp add: put_section_def)
qed

lemma features_at:
  assumes at: "at_bytes bs 72 (put_flags w order (32 div w) flags @ post)" and len: "length flags = 256"
    and machine: "w = 8 \<or> w = 4 \<and> order = big_endian \<and> \<not> flags ! 35"
    and host: "order = big_endian \<longrightarrow> flags ! feature_hostname"
  shows "additional_features order bs = Inr flags"
proof (cases "w = 8")
  case True
  then have "extract_bitset 8 order bs 72 4 = Inr flags"
    using extract_bitset_at [of bs 72 8 order 4 flags post] at len by simp
  then show ?thesis using host by (cases order) (simp_all add: additional_features_def file_section_size_def)
next
  case False
  then have w: "w = 4" "order = big_endian" "\<not> flags ! 35" using machine by auto
  have at4: "at_bytes bs 72 (put_flags 4 big_endian 8 flags @ post)" using at w by simp
  obtain fs where "extract_bitset 8 big_endian bs 72 4 = Inr fs" "\<not> fs ! feature_hostname"
    using foreign_hostname [OF at4 len] w(3) by auto
  moreover have "extract_bitset 4 big_endian bs 72 8 = Inr flags"
    using extract_bitset_at [OF at4] len by simp
  ultimately show ?thesis using host w(2) by (simp add: additional_features_def file_section_size_def)
qed

lemma le_bytes_numeral: "le_bytes (numeral k) v = of_nat (v mod 256) # le_bytes (pred_numeral k) (v div 256)"
  by (simp only: numeral_eq_Suc [of k] le_bytes.simps)

text \<open>C27: The header of a recording is read back as it was written, all sections and the set of features, if a
  64 bit machine of either byte order wrote it, or a foreign one of 32 bits: in a foreign order the host name has to
  be among the features, and with 32 bits the unused feature 35 has to be absent.\<close>
theorem header_roundtrip:
  assumes h: "length (ph_features h) = 256" "unat (ph_size h) = header_size"
    and machine: "w = 8 \<or> w = 4 \<and> ph_byte_order h = big_endian \<and> \<not> ph_features h ! 35"
    and host: "ph_byte_order h = big_endian \<longrightarrow> ph_features h ! feature_hostname"
  shows "open_recording (Some (encode_header w h @ beyond)) closed_file =
    (Inr (), \<lparr>pf_stream = Some \<lparr>fs_content = encode_header w h @ beyond, fs_position = header_size, fs_good = True\<rparr>,
       pf_header = Some h, pf_metadata = None\<rparr>)"
proof -
  obtain order where order: "ph_byte_order h = order" by blast
  obtain bs where bs: "encode_header w h = bs" by blast
  have w: "w * (32 div w) = 32" using machine by auto
  have len: "length bs = header_size"
    using w by (simp add: bs [symmetric] encode_header_def Let_def put_section_def length_put_flags header_size_def file_section_size_def)
  have at0: "at_bytes bs 0 (put order magic_v2 @ put order (ph_size h) @ put order (ph_attribute_size h) @
      put_section order (ph_attributes h) @ put_section order (ph_data h) @ put_section order (ph_event_types h) @
      put_flags w order (32 div w) (ph_features h) @ [])"
    by (simp add: bs [symmetric] encode_header_def Let_def order at_bytes_def)
  note e0 = extract_at [OF at0 word_sizes(1)]
  note e1 = extract_at [OF e0(2) word_sizes(1)]
  note e2 = extract_at [OF e1(2) word_sizes(1)]
  note s0 = section_at_bytes [OF e2(2)]
  note s1 = section_at_bytes [OF s0(2)]
  note s2 = section_at_bytes [OF s1(2)]
  have flags: "additional_features order bs = Inr (ph_features h)"
    by (rule features_at [where post = "[]", OF _ h(1)]) (use s2(2) machine host order in auto)
  have head: "read_header order bs = Inr h"
    using e1(1) e2(1) s0(1) s1(1) s2(1) flags h(2) order
    by (simp add: read_header_def file_section_size_def)
  have "take 8 bs = put order magic_v2"
    using at0 by (simp add: at_bytes_def)
  then have magic: "extract_int native bs 0 = Inr (if order = native then magic_v2 else magic_v2_swapped)"
    using len by (cases order) (simp_all add: extract_int_def extract_nat_decode header_size_def file_section_size_def decode_def
        put_def encode_def le_value_bytes le_bytes_numeral magic_v2_def magic_v2_swapped_def)
  have "magic_v2 \<noteq> magic_v2_swapped" by (simp add: magic_v2_def magic_v2_swapped_def)
  then show ?thesis unfolding bs using magic head len
    by (cases order) (simp_all add: open_recording_def open_stream_def closed_file_def stream_read_def Let_def)
qed

section \<open>Items of one size\<close>

text \<open>A loop that takes items of a fixed size from a reader has the next one after at most two rounds.\<close>

lemma next_item:
  assumes step: "\<And>r r1. keep_going r = Inr (True, r1) \<Longrightarrow>
      F r = (case retrieve_data n False r1 of (bs, r2) \<Rightarrow> if length bs \<noteq> n then F r2 else G bs r2)"
    and live: "reader_live (item @ later) r" and n: "length item = n" "0 < n" "n \<le> length (rd_buffer r)"
  shows "\<exists>r3. F r = G item r3 \<and> reader_live later r3 \<and> length (rd_buffer r3) = length (rd_buffer r) \<and>
    fs_content (rd_stream r3) = fs_content (rd_stream r)"
proof -
  have more: "item @ later \<noteq> []" using n by auto
  have ready: "\<exists>r3. F q = G item r3 \<and> reader_live later r3 \<and> length (rd_buffer r3) = length (rd_buffer q1) \<and> rd_stream r3 = rd_stream q1"
    if "keep_going q = Inr (True, q1)" "reader_live (item @ later) q1" "n \<le> length (in_chunk q1)" for q q1
    using retrieve_live [OF that(2), of n False] step [OF that(1)] that(3) n by auto
  obtain r1 where r1: "keep_going r = Inr (True, r1)" "reader_live (item @ later) r1"
      "length (rd_buffer r1) = length (rd_buffer r)" "fs_content (rd_stream r1) = fs_content (rd_stream r)"
    using keep_going_more [OF live more] by blast
  show ?thesis
  proof (cases "n \<le> length (in_chunk r1)")
    case True
    from ready [OF r1(1,2) True] r1(3,4) show ?thesis by auto
  next
    case False
    then obtain r2 where r2: "retrieve_data n False r1 = ([], r2)" "reader_live (item @ later) r2" "rd_exhausted r2"
        "length (rd_buffer r2) = length (rd_buffer r1)" "rd_stream r2 = rd_stream r1"
      using retrieve_live [OF r1(2), of n False] n by auto
    have again: "F r = F r2" using step [OF r1(1)] r2(1) n by simp
    obtain r4 where r4: "keep_going r2 = Inr (True, r4)" "reader_live (item @ later) r4"
        "length (rd_buffer r4) = length (rd_buffer r2)" "fs_content (rd_stream r4) = fs_content (rd_stream r2)"
        "length (in_chunk r4) = min (length (item @ later)) (length (rd_buffer r2))"
      using keep_going_more [OF r2(2) more] r2(3) by auto
    have "n \<le> length (in_chunk r4)" using r4(5) r2(4) r1(3) n by simp
    from ready [OF r4(1,2) this] r4(3,4) r2(4,5) r1(3,4) again show ?thesis by auto
  qed
qed

lemma all_ids:
  assumes "reader_live (concat (map (put order) ids)) r" "8 \<le> length (rd_buffer r)"
  shows "\<exists>s. read_ids_loop order r acc = Some (Inr (acc @ ids, s)) \<and> fs_good s \<and> fs_content s = fs_content (rd_stream r)"
  using assms
proof (induction ids arbitrary: r acc)
  case Nil
  then obtain r' where "keep_going r = Inr (False, r')" "rd_stream r' = rd_stream r"
    using keep_going_done [of r] by (auto simp: reader_live_def)
  with Nil(1) show ?case by (simp add: read_ids_loop.simps [of _ r] reader_live_def reader_ok_def)
next
  case (Cons i ids)
  have live: "reader_live (put order i @ concat (map (put order) ids)) r" using Cons.prems(1) by simp
  have step: "read_ids_loop order r acc = (case retrieve_data 8 False r1 of (bs, r2) \<Rightarrow>
      if length bs \<noteq> 8 then read_ids_loop order r2 acc
      else (case extract_int order bs 0 of Inl e \<Rightarrow> Some (Inl e) | Inr i \<Rightarrow> read_ids_loop order r2 (acc @ [i])))"
    if "keep_going r = Inr (True, r1)" for r r1
    by (simp add: read_ids_loop.simps [of _ r] that)
  from next_item [where F = "\<lambda>r. read_ids_loop order r acc", OF step live _ _ Cons.prems(2)] obtain r3 where
      r3: "read_ids_loop order r acc = (case extract_int order (put order i) 0 of
        Inl e \<Rightarrow> Some (Inl e) | Inr i \<Rightarrow> read_ids_loop order r3 (acc @ [i]))"
      "reader_live (concat (map (put order) ids)) r3" "length (rd_buffer r3) = length (rd_buffer r)"
      "fs_content (rd_stream r3) = fs_content (rd_stream r)"
    by auto
  have "at_bytes (put order i) 0 (put order i @ [])" by (simp add: at_bytes_def)
  from extract_at(1) [OF this word_sizes(1)] have "read_ids_loop order r acc = read_ids_loop order r3 (acc @ [i])"
    using r3(1) by simp
  with Cons.IH [OF r3(2), where acc = "acc @ [i]"] Cons.prems(2) r3(3,4) show ?case by simp
qed

text \<open>A section inside of a file.\<close>

definition section_inside :: "u8 list \<Rightarrow> file_section \<Rightarrow> bool" where
  "section_inside content sec \<longleftrightarrow> unat (sec_offset sec) < 2 ^ 63 \<and> unat (sec_offset sec) + unat (sec_size sec) \<le> length content"

definition section_bytes :: "u8 list \<Rightarrow> file_section \<Rightarrow> u8 list" where
  "section_bytes content sec = take (unat (sec_size sec)) (drop (unat (sec_offset sec)) content)"

lemma reset_same:
  "fs_good s \<Longrightarrow> fs_position s < 2 ^ 63 \<Longrightarrow> fs_good s' \<Longrightarrow> fs_content s' = fs_content s \<Longrightarrow> reset_position s s' = s"
  by (simp add: reset_position_def stream_seek_def)

lemma ids_are_read:
  assumes "fs_good s" "fs_position s < 2 ^ 63" "section_inside (fs_content s) sec"
    "section_bytes (fs_content s) sec = concat (map (put order) ids)"
  shows "read_ids order sec s = Some (Inr (ids, s))"
proof -
  have "section_at (unat (sec_offset sec)) (unat (sec_size sec)) s = concat (map (put order) ids)"
    using assms(4) by (simp add: section_at_def section_bytes_def)
  with chunked_reader_live [of s "unat (sec_offset sec)" "unat (sec_size sec)" 255] assms(1,3) obtain r where
      r: "chunked_reader 255 (unat (sec_offset sec)) (unat (sec_size sec)) s = Inr r"
      "reader_live (concat (map (put order) ids)) r" "length (rd_buffer r) = 255" "fs_content (rd_stream r) = fs_content s"
    by (auto simp: section_inside_def)
  obtain s' where "read_ids_loop order r [] = Some (Inr (ids, s'))" "fs_good s'" "fs_content s' = fs_content s"
    using all_ids [OF r(2), of "[]"] r(3,4) by auto
  with r(1) reset_same [OF assms(1,2), of s'] show ?thesis by (simp add: read_ids_def)
qed

text \<open>An entry of the section of attributes, and what it stands for.\<close>

definition entry_ok :: "perf_header \<Rightarrow> u8 list \<Rightarrow> u8 list \<Rightarrow> event_attributes \<times> u64 list \<Rightarrow> bool" where
  "entry_ok h content bs = (\<lambda>(a, ids).
     length bs = unat (ph_attribute_size h + 16) \<and>
     (\<exists>attributes sec. attribute_entry h bs = Inr (Some (attributes, sec)) \<and>
        instantiate_attributes (ph_byte_order h) attributes = Inr a \<and> section_inside content sec \<and>
        section_bytes content sec = concat (map (put (ph_byte_order h)) ids)))"

lemma live_position: "reader_live bs r \<Longrightarrow> fs_good (rd_stream r) \<and> fs_position (rd_stream r) \<le> length (fs_content (rd_stream r))"
  by (auto simp: reader_live_def reader_ok_def)

lemma all_entries:
  assumes "reader_live (concat bss) r" "unat (ph_attribute_size h + 16) \<le> length (rd_buffer r)" "0 < unat (ph_attribute_size h + 16)"
    "length content < 2 ^ 63" "fs_content (rd_stream r) = content" "list_all2 (entry_ok h content) bss descs"
  shows "\<exists>s. read_attributes_loop h r acc = Some (Inr (Some (acc @ descs), s)) \<and> fs_good s \<and> fs_content s = content"
  using assms
proof (induction bss arbitrary: r acc descs)
  case Nil
  then obtain r' where "keep_going r = Inr (False, r')" "rd_stream r' = rd_stream r"
    using keep_going_done [of r] by (auto simp: reader_live_def)
  with Nil live_position [OF Nil(1)] show ?case by (simp add: read_attributes_loop.simps [of _ r])
next
  case (Cons bs bss)
  let ?n = "unat (ph_attribute_size h + 16)"
  obtain a ids descs' where d: "descs = (a, ids) # descs'" "entry_ok h content bs (a, ids)" "list_all2 (entry_ok h content) bss descs'"
    using Cons.prems(6) by (auto simp: list_all2_Cons1)
  obtain attributes sec where e: "length bs = ?n" "attribute_entry h bs = Inr (Some (attributes, sec))"
      "instantiate_attributes (ph_byte_order h) attributes = Inr a" "section_inside content sec"
      "section_bytes content sec = concat (map (put (ph_byte_order h)) ids)"
    using d(2) by (auto simp: entry_ok_def)
  have live: "reader_live (bs @ concat bss) r" using Cons.prems(1) by simp
  let ?G = "\<lambda>bs r2. case attribute_entry h bs of
      Inl e \<Rightarrow> Some (Inl e)
    | Inr None \<Rightarrow> Some (Inr (None, rd_stream r2))
    | Inr (Some (attributes, sec)) \<Rightarrow>
        (case read_ids (ph_byte_order h) sec (rd_stream r2) of
           None \<Rightarrow> None
         | Some (Inl e) \<Rightarrow> Some (Inl e)
         | Some (Inr (ids, s1)) \<Rightarrow>
             (case instantiate_attributes (ph_byte_order h) attributes of
                Inl e \<Rightarrow> Some (Inl e)
              | Inr a \<Rightarrow> read_attributes_loop h (r2\<lparr>rd_stream := s1\<rparr>) (acc @ [(a, ids)])))"
  have step: "read_attributes_loop h r acc = (case retrieve_data ?n False r1 of (bs, r2) \<Rightarrow>
      if length bs \<noteq> ?n then read_attributes_loop h r2 acc else ?G bs r2)"
    if "keep_going r = Inr (True, r1)" for r r1
    by (simp add: read_attributes_loop.simps [of _ r] that)
  obtain r3 where r3: "read_attributes_loop h r acc = ?G bs r3" "reader_live (concat bss) r3"
      "length (rd_buffer r3) = length (rd_buffer r)" "fs_content (rd_stream r3) = content"
    using next_item [where F = "\<lambda>r. read_attributes_loop h r acc" and G = ?G, OF step live e(1) Cons.prems(3,2)]
    unfolding Cons.prems(5) by blast
  have "read_ids (ph_byte_order h) sec (rd_stream r3) = Some (Inr (ids, rd_stream r3))"
    using ids_are_read [of "rd_stream r3" sec "ph_byte_order h" ids] live_position [OF r3(2)] e(4,5) r3(4) Cons.prems(4) by simp
  then have "read_attributes_loop h r acc = read_attributes_loop h r3 (acc @ [(a, ids)])"
    unfolding r3(1) using e(2,3) by simp
  with Cons.IH [OF r3(2) _ Cons.prems(3,4) r3(4) d(3), where acc = "acc @ [(a, ids)]"] Cons.prems(2) r3(3) d(1) show ?case by simp
qed

lemma attributes_are_read:
  assumes s: "fs_good s" "length (fs_content s) < 2 ^ 63" and sec: "section_inside (fs_content s) (ph_attributes h)"
    and n: "0 < unat (ph_attribute_size h + 16)" "unat (ph_attribute_size h + 16) \<le> max_chunk_size"
    and bytes: "section_bytes (fs_content s) (ph_attributes h) = concat bss" "list_all2 (entry_ok h (fs_content s)) bss descs"
  shows "\<exists>s'. read_attributes_section h db s = Some (bind_result (fill_database descs) (\<lambda>db. Inr (db, s'))) \<and>
    fs_good s' \<and> fs_content s' = fs_content s"
proof -
  have "section_at (unat (sec_offset (ph_attributes h))) (unat (sec_size (ph_attributes h))) s = concat bss"
    using bytes(1) by (simp add: section_at_def section_bytes_def)
  moreover have "0 < max_chunk_size" by (simp add: max_chunk_size_def)
  ultimately obtain r where
      r: "chunked_reader max_chunk_size (unat (sec_offset (ph_attributes h))) (unat (sec_size (ph_attributes h))) s = Inr r"
      "reader_live (concat bss) r" "length (rd_buffer r) = max_chunk_size" "fs_content (rd_stream r) = fs_content s"
    using chunked_reader_live [of s "unat (sec_offset (ph_attributes h))" "unat (sec_size (ph_attributes h))" max_chunk_size]
      s(1) sec by (auto simp: section_inside_def)
  obtain s' where "read_attributes_loop h r [] = Some (Inr (Some descs, s'))" "fs_good s'" "fs_content s' = fs_content s"
    using all_entries [OF r(2) _ n(1) s(2) r(4) bytes(2), of "[]"] r(3) n(2) by auto
  with r(1) show ?thesis by (auto simp: read_attributes_section_def)
qed

section \<open>Attributes as they are written\<close>

definition encode_attributes :: "endian \<Rightarrow> u32 \<Rightarrow> u64 \<Rightarrow> event_attributes \<Rightarrow> u8 list \<Rightarrow> u8 list" where
  "encode_attributes order n config a padding =
     put order (attr_type a) @ put order n @ put order config @ put order (attr_sample_period_freq a) @
     put order (attr_sample_format a) @ put order (attr_read_format a) @ put order (attr_flags a) @ padding"

definition attributes_ok :: "event_attributes \<Rightarrow> bool" where
  "attributes_ok a \<longleftrightarrow> attr_precise_ip a = precise_ip_of (attr_flags a) \<and> attr_name a = None"

lemma attributes_at:
  assumes "attributes_ok a"
  shows "instantiate_attributes order (encode_attributes order n config a padding) = Inr a"
    "extract_int order (encode_attributes order n config a padding) 4 = Inr n"
proof -
  obtain bs where bs: "bs = encode_attributes order n config a padding" by blast
  have at0: "at_bytes bs 0 (put order (attr_type a) @ put order n @ put order config @ put order (attr_sample_period_freq a) @
      put order (attr_sample_format a) @ put order (attr_read_format a) @ put order (attr_flags a) @ padding)"
    by (simp add: bs encode_attributes_def at_bytes_def)
  note e0 = extract_at [OF at0 word_sizes(2)]
  note e1 = extract_at [OF e0(2) word_sizes(2)]
  note e2 = extract_at [OF e1(2) word_sizes(1)]
  note e3 = extract_at [OF e2(2) word_sizes(1)]
  note e4 = extract_at [OF e3(2) word_sizes(1)]
  note e5 = extract_at [OF e4(2) word_sizes(1)]
  note e6 = extract_at [OF e5(2) word_sizes(1)]
  show "extract_int order (encode_attributes order n config a padding) 4 = Inr n" using e1(1) bs by simp
  show "instantiate_attributes order (encode_attributes order n config a padding) = Inr a"
    unfolding bs [symmetric] using e0(1) e3(1) e4(1) e5(1) e6(1) assms
    by (simp add: instantiate_attributes_def attributes_ok_def)
qed

definition encode_entry :: "endian \<Rightarrow> u32 \<Rightarrow> u64 \<Rightarrow> event_attributes \<Rightarrow> u8 list \<Rightarrow> file_section \<Rightarrow> u8 list" where
  "encode_entry order n config a padding sec = encode_attributes order n config a padding @ put_section order sec"

lemma length_attributes: "length (encode_attributes order n config a padding) = 48 + length padding"
  by (simp add: encode_attributes_def)

lemma entry_ok_encoded:
  assumes a: "attributes_ok a" and n: "unat n = 48 + length padding" "unat (ph_attribute_size h) = unat n"
    "unat (ph_attribute_size h + 16) = unat n + 16"
    and ids: "section_inside content sec" "section_bytes content sec = concat (map (put (ph_byte_order h)) ids)"
  shows "entry_ok h content (encode_entry (ph_byte_order h) n config a padding sec) (a, ids)"
proof -
  obtain order where order: "ph_byte_order h = order" by blast
  let ?as = "encode_attributes order n config a padding"
  let ?bs = "encode_entry order n config a padding sec"
  let ?k = "min (unat n) event_attributes_size"
  have len: "length ?as = unat n" "length ?bs = unat n + 16"
    using n(1) by (simp_all add: length_attributes encode_entry_def put_section_def)
  have k: "?k = 48 + (?k - 48)" using n(1) by (simp add: event_attributes_size_def)
  have cut: "take ?k ?bs = encode_attributes order n config a (take (?k - 48) padding)"
    using k n(1) by (simp add: encode_entry_def encode_attributes_def put_section_def event_attributes_size_def min_def)
  have "at_bytes ?bs (unat n) (put_section order sec @ [])"
    using len by (simp add: at_bytes_def encode_entry_def)
  from section_at_bytes(1) [OF this] len have sec: "section_view order (drop (unat n) ?bs) = Inr sec"
    by (simp add: subspan_from_def)
  have "attribute_entry h ?bs = Inr (Some (encode_attributes order n config a (take (?k - 48) padding), sec))"
    using len sec cut attributes_at(2) [OF a, of order n config "take (?k - 48) padding"]
    by (simp add: attribute_entry_def order n(2) subspan_def subspan_from_def)
  then show ?thesis
    using attributes_at(1) [OF a, of order n config "take (?k - 48) padding"] ids n(3) len(2)
    by (simp add: entry_ok_def order)
qed

section \<open>Descriptions of events as they are written\<close>

definition stream_at :: "fstream \<Rightarrow> u8 list \<Rightarrow> bool" where
  "stream_at s xs \<longleftrightarrow> fs_good s \<and> length (fs_content s) < 2 ^ 63 \<and> fs_position s \<le> length (fs_content s) \<and>
     drop (fs_position s) (fs_content s) = xs"

definition put_string :: "endian \<Rightarrow> nat \<Rightarrow> string \<Rightarrow> u8 list" where
  "put_string order padding str =
     put order (of_nat (length str + padding) :: u32) @ map (\<lambda>c. of_nat (of_char c)) str @ replicate padding 0"

definition encode_desc :: "endian \<Rightarrow> u32 \<Rightarrow> u8 list \<Rightarrow> event_desc_data \<Rightarrow> u8 list" where
  "encode_desc order n padding d =
     encode_attributes order n 0 (desc_attribute d) padding @ put order (of_nat (length (desc_ids d)) :: u32) @
     put_string order 8 (desc_event_string d) @ concat (map (put order) (desc_ids d))"

definition desc_ok :: "event_desc_data \<Rightarrow> bool" where
  "desc_ok d \<longleftrightarrow> attributes_ok (desc_attribute d) \<and> length (desc_ids d) < 2 ^ 32 \<and>
     char_of (0 :: nat) \<notin> set (desc_event_string d) \<and> length (desc_event_string d) + 8 < 2 ^ 32 - 1"

lemma stream_read_at:
  assumes "stream_at s (xs @ post)" "length xs = n"
  shows "\<exists>s1. stream_read n s = (xs, s1) \<and> stream_at s1 post"
proof -
  have d: "fs_good s" "fs_position s \<le> length (fs_content s)" "drop (fs_position s) (fs_content s) = xs @ post"
      "length (fs_content s) < 2 ^ 63"
    using assms(1) by (simp_all add: stream_at_def)
  have "length (fs_content s) - fs_position s = n + length post" using arg_cong [OF d(3), of length] assms(2) by simp
  then have len: "fs_position s + n \<le> length (fs_content s)" using d(2) by linarith
  have "drop (fs_position s + n) (fs_content s) = drop n (drop (fs_position s) (fs_content s))" by (simp add: add.commute)
  then have "drop (fs_position s + n) (fs_content s) = post" unfolding d(3) using assms(2) by simp
  then have "stream_at (s\<lparr>fs_position := fs_position s + n\<rparr>) post" using d(1,4) len by (simp add: stream_at_def)
  moreover have "take n (drop (fs_position s) (fs_content s)) = xs" unfolding d(3) using assms(2) by simp
  ultimately show ?thesis using stream_read_ok [OF d(1) len] by auto
qed

lemma stream_skip_at:
  assumes "stream_at s (xs @ post)"
  shows "stream_at (stream_seek (fs_position s + length xs) s) post"
proof -
  obtain s1 where "stream_read (length xs) s = (xs, s1)" "stream_at s1 post"
    using stream_read_at [OF assms refl] by blast
  moreover have "fs_position s + length xs \<le> length (fs_content s)" "fs_good s" "length (fs_content s) < 2 ^ 63"
  proof -
    have "length (fs_content s) - fs_position s = length xs + length post" "fs_position s \<le> length (fs_content s)"
      using assms by (auto simp: stream_at_def dest: arg_cong [of _ _ length])
    then show "fs_position s + length xs \<le> length (fs_content s)" by linarith
  qed (use assms in \<open>simp_all add: stream_at_def\<close>)
  ultimately show ?thesis using stream_read_ok [of s "length xs"] by (auto simp: stream_seek_def)
qed

lemma read_int_at:
  assumes "stream_at s (put order (v :: 'a::len word) @ post)" "8 * n = LENGTH('a)"
  shows "\<exists>s1. read_int order s = Inr (v, s1) \<and> stream_at s1 post"
proof -
  have "length (put order v) = LENGTH('a) div 8" by simp
  from stream_read_at [OF assms(1) this] obtain s1 where "stream_read (LENGTH('a) div 8) s = (put order v, s1)" "stream_at s1 post"
    by blast
  moreover have "at_bytes (put order v) 0 (put order v @ [])" by (simp add: at_bytes_def)
  from extract_at(1) [OF this assms(2)] have "extract_int order (put order v) 0 = Inr v" .
  ultimately show ?thesis by (simp add: read_int_def)
qed

lemma bind_int_at:
  assumes "stream_at s (put order (v :: 'a::len word) @ post)" "8 * n = LENGTH('a)" "\<And>s1. stream_at s1 post \<Longrightarrow> k v s1 = r"
  shows "bind_result (read_int order s) (\<lambda>(v, s1). k v s1) = r"
  using read_int_at [OF assms(1,2)] assms(3) by auto

lemma chars_of_bytes:
  assumes "char_of (0 :: nat) \<notin> set str"
  shows "map byte_char (takeWhile (\<lambda>b. b \<noteq> 0) (map (\<lambda>c. of_nat (of_char c)) str @ replicate n 0)) = str"
proof -
  have low: "of_char c < (256 :: nat)" for c :: char by (metis of_char_mod_256 mod_less_divisor zero_less_numeral)
  have "unat (of_nat (of_char c) :: u8) = of_char c" for c :: char
    using low [of c] by (simp add: unat_of_nat)
  then have byte: "byte_char (of_nat (of_char c)) = c" for c :: char by (simp add: byte_char_def)
  have "of_nat (of_char c) \<noteq> (0 :: u8)" if "c \<noteq> char_of (0 :: nat)" for c :: char
  proof
    assume "of_nat (of_char c) = (0 :: u8)"
    then have "c = byte_char 0" using byte [of c] by simp
    with that show False by (simp add: byte_char_def)
  qed
  with assms byte show ?thesis
  proof (induction str)
    case Nil
    then show ?case by (cases n) simp_all
  qed auto
qed

lemma read_string_at:
  assumes "stream_at s (put_string order padding str @ post)" "char_of (0 :: nat) \<notin> set str" "length str + padding < 2 ^ 32 - 1"
  shows "\<exists>s1. read_string order s = Inr (str, s1) \<and> stream_at s1 post"
proof -
  obtain n where n: "n = (of_nat (length str + padding) :: u32)" by blast
  let ?bs = "map (\<lambda>c. of_nat (of_char c)) str @ replicate padding 0 :: u8 list"
  have len: "length ?bs = unat n" unfolding n unat_of_nat using assms(3) by simp
  have "stream_at s (put order n @ ?bs @ post)" using assms(1) by (simp add: put_string_def n)
  from read_int_at [OF this word_sizes(2)] obtain s1 where s1: "read_int order s = Inr (n, s1)" "stream_at s1 (?bs @ post)" by blast
  obtain s2 where s2: "stream_read (unat n) s1 = (?bs, s2)" "stream_at s2 post" using stream_read_at [OF s1(2) len] by blast
  have "n + 1 \<noteq> 0"
  proof
    assume "n + 1 = 0"
    then have "n = - 1" by (simp add: eq_neg_iff_add_eq_0)
    then have "unat n = 2 ^ 32 - 1" by (simp add: unsigned_minus_1_eq_mask mask_eq_exp_minus_1)
    with len assms(3) show False by simp
  qed
  with s1(1) s2 chars_of_bytes [OF assms(2), of padding] show ?thesis by (simp add: read_string_def)
qed

lemma read_times_at:
  assumes "\<And>s x later. x \<in> set xs \<Longrightarrow> stream_at s (enc x @ later) \<Longrightarrow> \<exists>s1. g s = Inr (x, s1) \<and> stream_at s1 later"
    "stream_at s (concat (map enc xs) @ post)"
  shows "\<exists>s1. read_times g (length xs) s = Inr (xs, s1) \<and> stream_at s1 post"
  using assms
proof (induction xs arbitrary: s)
  case (Cons x xs)
  have "stream_at s (enc x @ concat (map enc xs) @ post)" using Cons.prems(2) by simp
  then obtain s1 where s1: "g s = Inr (x, s1)" "stream_at s1 (concat (map enc xs) @ post)"
    using Cons.prems(1) by fastforce
  from Cons.IH [OF _ s1(2)] Cons.prems(1) obtain s2 where "read_times g (length xs) s1 = Inr (xs, s2)" "stream_at s2 post"
    by auto
  with s1(1) show ?case by simp
qed simp

lemma read_desc_at:
  assumes ok: "desc_ok d" "unat n = 48 + length padding" and at: "stream_at s (encode_desc order n padding d @ post)"
  shows "\<exists>s1. read_event_desc order n s = Inr (d, s1) \<and> stream_at s1 post"
proof -
  let ?k = "min (unat n) event_attributes_size"
  let ?as = "encode_attributes order n 0 (desc_attribute d) padding"
  let ?bs = "encode_attributes order n 0 (desc_attribute d) (take (?k - 48) padding)"
  let ?later = "put order (of_nat (length (desc_ids d)) :: u32) @ put_string order 8 (desc_event_string d) @
      concat (map (put order) (desc_ids d)) @ post"
  have d: "attributes_ok (desc_attribute d)" "length (desc_ids d) < 2 ^ 32" "char_of (0 :: nat) \<notin> set (desc_event_string d)"
      "length (desc_event_string d) + 8 < 2 ^ 32 - 1"
    using ok(1) by (simp_all add: desc_ok_def)
  have k: "48 \<le> ?k" using ok(2) by (simp add: event_attributes_size_def)
  have cut: "?as = ?bs @ drop (?k - 48) padding" by (simp add: encode_attributes_def)
  have len: "length ?bs = ?k" using k ok(2) by (simp add: length_attributes)
  have "stream_at s (?bs @ drop (?k - 48) padding @ ?later)" using at cut by (simp add: encode_desc_def)
  from stream_read_at [OF this len] obtain s1 where s1: "stream_read ?k s = (?bs, s1)" "stream_at s1 (drop (?k - 48) padding @ ?later)"
    by blast
  obtain s2 where s2: "s2 = (if unat n > event_attributes_size
      then stream_seek (fs_position s1 + (unat n - event_attributes_size)) s1 else s1)" by blast
  have "stream_at s2 ?later"
  proof (cases "unat n > event_attributes_size")
    case True
    then have "length (drop (?k - 48) padding) = unat n - event_attributes_size" using ok(2) k by simp
    with stream_skip_at [OF s1(2)] True s2 show ?thesis by simp
  next
    case False
    then have "drop (?k - 48) padding = []" using ok(2) by simp
    with s1(2) False s2 show ?thesis by simp
  qed
  then obtain s3 where s3: "read_int order s2 = Inr (of_nat (length (desc_ids d)) :: u32, s3)"
      "stream_at s3 (put_string order 8 (desc_event_string d) @ concat (map (put order) (desc_ids d)) @ post)"
    using read_int_at [OF _ word_sizes(2)] by blast
  obtain s4 where s4: "read_string order s3 = Inr (desc_event_string d, s4)"
      "stream_at s4 (concat (map (put order) (desc_ids d)) @ post)"
    using read_string_at [OF s3(2) d(3,4)] by blast
  obtain s5 where s5: "read_times (read_int order) (length (desc_ids d)) s4 = Inr (desc_ids d, s5)" "stream_at s5 post"
    using read_times_at [OF _ s4(2), of "read_int order"] read_int_at [OF _ word_sizes(1)] by blast
  have "unat (of_nat (length (desc_ids d)) :: u32) = length (desc_ids d)" using d(2) by (simp add: unat_of_nat)
  then have "read_event_desc order n s = Inr (d, s5)"
    using s1(1) s2 s3(1) s4(1) s5(1) attributes_at(1) [OF d(1), of order n 0 "take (?k - 48) padding"]
    by (simp add: read_event_desc_def Let_def)
  with s5(2) show ?thesis by blast
qed

text \<open>The descriptions of the events in the metadata are read back as they were written, with all attributes,
  names and ids, also when the writer knew more attributes than this program; then the stream is right
  behind them.\<close>
lemma event_descs_roundtrip:
  assumes "\<forall>d \<in> set ds. desc_ok d" "unat n = 48 + length padding" "length ds < 2 ^ 32"
    "stream_at s (put order (of_nat (length ds) :: u32) @ put order n @ concat (map (encode_desc order n padding) ds) @ post)"
  shows "\<exists>s1. read_event_descs order s = Inr (ds, s1) \<and> stream_at s1 post"
proof -
  obtain s1 where s1: "read_int order s = Inr (of_nat (length ds) :: u32, s1)"
      "stream_at s1 (put order n @ concat (map (encode_desc order n padding) ds) @ post)"
    using read_int_at [OF assms(4) word_sizes(2)] by blast
  obtain s2 where s2: "read_int order s1 = Inr (n, s2)" "stream_at s2 (concat (map (encode_desc order n padding) ds) @ post)"
    using read_int_at [OF s1(2) word_sizes(2)] by blast
  obtain s3 where s3: "read_times (read_event_desc order n) (length ds) s2 = Inr (ds, s3)" "stream_at s3 post"
    using read_times_at [OF _ s2(2), of "read_event_desc order n"] read_desc_at [OF _ assms(2)] assms(1) by blast
  have "unat (of_nat (length ds) :: u32) = length ds" using assms(3) by (simp add: unat_of_nat)
  with s1(1) s2(1) s3 show ?thesis by (simp add: read_event_descs_def)
qed

section \<open>Whole recordings\<close>

definition some_events :: "perf_event option list \<Rightarrow> perf_event list" where
  "some_events es = concat (map (\<lambda>e. case e of None \<Rightarrow> [] | Some e \<Rightarrow> [e]) es)"

text \<open>C25: A recording is processed as the list of its events: once the descriptions are read, a data section of
  whole events that can be parsed leads to the context that handling the parsed events leads to, in the order of
  the file; and processing ends.\<close>
theorem recording_is_read:
  assumes pf: "pf_stream pf = Some s" "pf_header pf = Some h"
    and descs: "read_descriptions h s = Some (Inr (db, md, s1))" "fs_good s1"
    and data: "section_inside (fs_content s1) (ph_data h)" "section_bytes (fs_content s1) (ph_data h) = concat evs"
    and evs: "\<forall>ev \<in> set evs. event_ok (ph_byte_order h) ev"
      "map_result (event_of_bytes db (format_in db) (ph_byte_order h)) evs = Inr es"
  shows "\<exists>s2. process_recording_file (\<lambda>db. context_observer ip_hash (format_in db)) (\<lambda>_. False) pf c =
    Some (case handle_events ip_hash (some_events es) c of
        None \<Rightarrow> Inl Undefined
      | Some c' \<Rightarrow> Inr (c', pf\<lparr>pf_stream := Some s2, pf_metadata := Some md\<rparr>))"
proof -
  let ?cb = "data_callback db (context_observer ip_hash (format_in db)) (ph_byte_order h)"
  have "section_at (unat (sec_offset (ph_data h))) (unat (sec_size (ph_data h))) s1 = concat evs"
    using data(2) by (simp add: section_at_def section_bytes_def)
  with events_are_read [OF descs(2) _ _ _ evs(1), of "unat (sec_offset (ph_data h))" "unat (sec_size (ph_data h))" ?cb c] data(1)
  obtain s2 where run: "read_events (ph_byte_order h) (unat (sec_offset (ph_data h))) (unat (sec_size (ph_data h))) ?cb (\<lambda>_. False) s1 c =
      Some (map_sum id (\<lambda>s'. (s', s2)) (handle_all ?cb evs c))"
    by (auto simp: section_inside_def)
  show ?thesis
    using pf descs(1) run handle_all_parsed [OF evs(2), of ip_hash c]
    by (intro exI [of _ s2]) (simp add: process_recording_file_def read_data_section_def some_events_def split: option.split)
qed

section \<open>Examples\<close>

text \<open>A recording of two events with an id each, and a sample of both.\<close>

definition example_header :: perf_header where
  "example_header = \<lparr>ph_byte_order = little_endian, ph_size = 104, ph_attribute_size = 48,
     ph_attributes = \<lparr>sec_offset = 104, sec_size = 128\<rparr>, ph_data = \<lparr>sec_offset = 248, sec_size = 64\<rparr>,
     ph_event_types = \<lparr>sec_offset = 0, sec_size = 0\<rparr>, ph_features = replicate 256 False\<rparr>"

definition id_entry :: "u64 \<Rightarrow> u8 list" where
  "id_entry off = encode_entry little_endian 48 0 (attributes_with id_format) [] \<lparr>sec_offset = off, sec_size = 8\<rparr>"

definition example_content :: "u8 list" where
  "example_content = encode_header 8 example_header @ (id_entry 232 @ id_entry 240) @ put little_endian (5 :: u64) @
     put little_endian (77 :: u64) @ (id_sample 5 @ id_sample 77)"

lemma example_lengths:
  "length (encode_header 8 example_header) = 104" "length (id_entry off) = 64" "length (id_sample i) = 32"
  by (simp_all add: encode_header_def example_header_def Let_def put_section_def length_put_flags id_entry_def encode_entry_def
      length_attributes id_sample_def)

lemma section_inside_append:
  assumes "content = pre @ xs @ post" "length pre = unat (sec_offset sec)" "length xs = unat (sec_size sec)" "length content < 2 ^ 63"
  shows "section_inside content sec" "section_bytes content sec = xs"
  using assms by (simp_all add: section_inside_def section_bytes_def)

lemma example_sections:
  "section_inside example_content (ph_attributes example_header)"
  "section_bytes example_content (ph_attributes example_header) = concat [id_entry 232, id_entry 240]"
  "section_inside example_content (ph_data example_header)"
  "section_bytes example_content (ph_data example_header) = concat [id_sample 5, id_sample 77]"
  "section_inside example_content \<lparr>sec_offset = 232, sec_size = 8\<rparr>"
  "section_bytes example_content \<lparr>sec_offset = 232, sec_size = 8\<rparr> = concat (map (put little_endian) [5 :: u64])"
  "section_inside example_content \<lparr>sec_offset = 240, sec_size = 8\<rparr>"
  "section_bytes example_content \<lparr>sec_offset = 240, sec_size = 8\<rparr> = concat (map (put little_endian) [77 :: u64])"
  "length example_content = 312"
proof -
  show len: "length example_content = 312" by (simp add: example_content_def example_lengths)
  let ?h = "encode_header 8 example_header" and ?e = "id_entry 232 @ id_entry 240" and ?i = "put little_endian (5 :: u64)"
  let ?j = "put little_endian (77 :: u64)" and ?d = "id_sample 5 @ id_sample 77"
  have 1: "example_content = ?h @ ?e @ (?i @ ?j @ ?d)" and 2: "example_content = (?h @ ?e) @ ?i @ (?j @ ?d)"
    and 3: "example_content = (?h @ ?e @ ?i) @ ?j @ ?d" and 4: "example_content = (?h @ ?e @ ?i @ ?j) @ ?d @ []"
    by (simp_all add: example_content_def)
  show "section_inside example_content (ph_attributes example_header)"
    by (rule section_inside_append(1) [OF 1]) (simp_all add: example_lengths, simp_all add: example_header_def len)
  show "section_bytes example_content (ph_attributes example_header) = concat [id_entry 232, id_entry 240]"
    using section_inside_append(2) [OF 1, of "ph_attributes example_header"]
    by (simp add: example_lengths len) (simp add: example_header_def)
  show "section_inside example_content (ph_data example_header)"
    by (rule section_inside_append(1) [OF 4]) (simp_all add: example_lengths, simp_all add: example_header_def len)
  show "section_bytes example_content (ph_data example_header) = concat [id_sample 5, id_sample 77]"
    using section_inside_append(2) [OF 4, of "ph_data example_header"]
    by (simp add: example_lengths len) (simp add: example_header_def)
  show "section_inside example_content \<lparr>sec_offset = 232, sec_size = 8\<rparr>"
    by (rule section_inside_append(1) [OF 2]) (simp_all add: example_lengths len)
  show "section_bytes example_content \<lparr>sec_offset = 232, sec_size = 8\<rparr> = concat (map (put little_endian) [5 :: u64])"
    using section_inside_append(2) [OF 2, of "\<lparr>sec_offset = 232, sec_size = 8\<rparr>"] by (simp add: example_lengths len)
  show "section_inside example_content \<lparr>sec_offset = 240, sec_size = 8\<rparr>"
    by (rule section_inside_append(1) [OF 3]) (simp_all add: example_lengths len)
  show "section_bytes example_content \<lparr>sec_offset = 240, sec_size = 8\<rparr> = concat (map (put little_endian) [77 :: u64])"
    using section_inside_append(2) [OF 3, of "\<lparr>sec_offset = 240, sec_size = 8\<rparr>"] by (simp add: example_lengths len)
qed

lemma id_attributes_ok: "attributes_ok (attributes_with id_format)"
  by (simp add: attributes_ok_def attributes_with_def precise_ip_of_def Let_def)

definition example_stream :: fstream where
  "example_stream = \<lparr>fs_content = example_content, fs_position = header_size, fs_good = True\<rparr>"

lemma example_descriptions:
  "\<exists>s1. read_descriptions example_header example_stream = Some (Inr (id_database, no_metadata, s1)) \<and>
    fs_good s1 \<and> fs_content s1 = example_content"
proof -
  have entry: "entry_ok example_header example_content (id_entry off) (attributes_with id_format, [i])"
    if "section_inside example_content \<lparr>sec_offset = off, sec_size = 8\<rparr>"
      "section_bytes example_content \<lparr>sec_offset = off, sec_size = 8\<rparr> = concat (map (put little_endian) [i])" for off i
    using entry_ok_encoded [OF id_attributes_ok _ _ _ that(1), of 48 "[]" example_header "[i]" 0] that(2)
    by (simp add: example_header_def id_entry_def)
  let ?descs = "[(attributes_with id_format, [5]), (attributes_with id_format, [77 :: u64])]"
  have stream: "fs_good example_stream" "fs_content example_stream = example_content" "length (fs_content example_stream) < 2 ^ 63"
    by (simp_all add: example_stream_def example_sections(9))
  have "0 < unat (ph_attribute_size example_header + 16)" "unat (ph_attribute_size example_header + 16) \<le> max_chunk_size"
    by (simp_all add: example_header_def max_chunk_size_def)
  from attributes_are_read [OF stream(1,3) _ this, unfolded stream(2), OF example_sections(1,2), of ?descs empty_database]
    entry [OF example_sections(5,6)] entry [OF example_sections(7,8)] id_database_filled
  obtain s1 where s1: "read_attributes_section example_header empty_database example_stream = Some (Inr (id_database, s1))"
      "fs_good s1" "fs_content s1 = example_content"
    by auto
  have "filter id (replicate n False) = []" for n by (induction n) simp_all
  then have "active_features (ph_features example_header) = 0" by (simp add: active_features_def example_header_def)
  then have "read_metadata example_header s1 no_metadata = Some (Inr (no_metadata, s1))" by (simp add: read_metadata_def)
  moreover have "\<not> ph_features example_header ! feature_event_desc" by (simp add: example_header_def)
  ultimately show ?thesis using s1 by (simp add: read_descriptions_def)
qed

lemma id_events_parsed:
  "event_of_bytes id_database (format_in id_database) little_endian (id_sample 5) = Inr (Some (id_event 0))"
  "event_of_bytes id_database (format_in id_database) little_endian (id_sample 77) = Inr (Some (id_event 1))"
  by (simp_all add: format_in_def event_of_bytes_def event_type_of_def id_sample_def extract_int_def extract_nat_def is_kernel_event_def
      event_body_def subspan_from_def event_header_size_def get_event_attributes_def id_database_def parse_event_def parse_sample_def
      extract_move_if_def extract_move_def extract_vector_if_def event_of_sample_def id_event_def attributes_with_def)

lemma recording_is_read_witness:
  "\<exists>c s2. process_recording_file (\<lambda>db. context_observer (\<lambda>x. x) (format_in db)) (\<lambda>_. False)
      \<lparr>pf_stream = Some example_stream, pf_header = Some example_header, pf_metadata = None\<rparr> empty_context =
    Some (Inr (c, \<lparr>pf_stream = Some s2, pf_header = Some example_header, pf_metadata = Some no_metadata\<rparr>)) \<and>
    length (pc_sample_sources c) = 2"
proof -
  obtain s1 where s1: "read_descriptions example_header example_stream = Some (Inr (id_database, no_metadata, s1))"
      "fs_good s1" "fs_content s1 = example_content" using example_descriptions by blast
  have ok: "event_ok little_endian (id_sample i)" for i
    by (simp add: event_ok_def id_sample_def event_size_def extract_int_def extract_nat_def Let_def)
  have parsed: "map_result (event_of_bytes id_database (format_in id_database) little_endian) [id_sample 5, id_sample 77] =
      Inr [Some (id_event 0), Some (id_event 1)]"
    by (simp add: id_events_parsed)
  obtain c where c: "handle_events (\<lambda>x. x) [id_event 0, id_event 1] empty_context = Some c" "length (pc_sample_sources c) = 2"
    by (simp add: id_event_def handle_event_def handle_sample_def empty_context_def Let_def)
  let ?pf = "\<lparr>pf_stream = Some example_stream, pf_header = Some example_header, pf_metadata = None\<rparr>"
  have order: "ph_byte_order example_header = little_endian" by (simp add: example_header_def)
  from recording_is_read [of ?pf, OF _ _ s1(1,2), unfolded s1(3), OF _ _ example_sections(3,4), unfolded order, OF _ _ _ parsed,
      of "\<lambda>x. x" empty_context] ok c
  show ?thesis by (simp add: some_events_def) blast
qed

lemma header_roundtrip_witness:
  "open_recording (Some (encode_header 8 example_header @ [1, 2])) closed_file =
    (Inr (), \<lparr>pf_stream = Some \<lparr>fs_content = encode_header 8 example_header @ [1, 2], fs_position = 104, fs_good = True\<rparr>,
       pf_header = Some example_header, pf_metadata = None\<rparr>)"
  using header_roundtrip [of example_header 8 "[1, 2]"]
  by (simp add: example_header_def header_size_def file_section_size_def)

lemma event_descs_roundtrip_witness:
  "\<exists>s1. read_event_descs big_endian \<lparr>fs_content = put big_endian (1 :: u32) @ put big_endian (50 :: u32) @
       encode_desc big_endian 50 [1, 2] \<lparr>desc_attribute = attributes_with id_format, desc_event_string = ''cycles'', desc_ids = [5, 6]\<rparr>,
       fs_position = 0, fs_good = True\<rparr> =
     Inr ([\<lparr>desc_attribute = attributes_with id_format, desc_event_string = ''cycles'', desc_ids = [5, 6]\<rparr>], s1)"
proof -
  let ?d = "\<lparr>desc_attribute = attributes_with id_format, desc_event_string = ''cycles'', desc_ids = [5, 6]\<rparr>"
  have ok: "\<forall>d \<in> set [?d]. desc_ok d" using id_attributes_ok by (simp add: desc_ok_def char_of_def)
  have "stream_at \<lparr>fs_content = put big_endian (1 :: u32) @ put big_endian (50 :: u32) @ encode_desc big_endian 50 [1, 2] ?d,
       fs_position = 0, fs_good = True\<rparr>
      (put big_endian (of_nat (length [?d]) :: u32) @ put big_endian (50 :: u32) @ concat (map (encode_desc big_endian 50 [1, 2]) [?d]) @ [])"
    by (simp add: stream_at_def encode_desc_def length_attributes put_string_def)
  from event_descs_roundtrip [OF ok _ _ this] show ?thesis by auto
qed

end
