(* ===== verification/EtlContext.thy ===== *)
theory EtlContext
  imports PerfContext Outcome Transport
begin

text \<open>
  What is known of the processes of a Windows recording: \<open>snail/analysis/detail/etl_file_process_context.cpp\<close>.
  The handlers take the values they read of their event; strings of the file are UTF-16, and the
  conversions of the library utfcpp are the record \<open>utf_library\<close>. Reading the last address of an empty stack is
  \<open>Undefined\<close>, assertions are left out. \<open>history_modify\<close>, \<open>add_to_set\<close> and \<open>key_order\<close> are those of
  \<open>PerfContext\<close>, the scanning of digits that of \<open>Transport\<close>. A pointer to a vector of samples is the place where
  the context keeps it, which never moves.
\<close>

section \<open>Data\<close>

record utf_library =
  utf_16to8 :: "u16 list \<Rightarrow> error + string"
  utf_8to16 :: "string \<Rightarrow> error + u16 list"
  utf_replace_invalid :: "string \<Rightarrow> string"

record guid =
  guid_data_1 :: u32
  guid_data_2 :: u16
  guid_data_3 :: u16
  guid_data_4 :: "u8 list"

record pdb_info =
  pdb_name :: string
  pdb_guid :: guid
  pdb_age :: u32

record etl_process =
  ep_image_filename :: string
  ep_command_line :: "u16 list"
  ep_parent_id :: u32
  ep_end_time :: "u64 option"
  ep_unique_id :: "nat option"

definition same_etl_process :: "etl_process \<Rightarrow> etl_process \<Rightarrow> bool" where
  "same_etl_process l r \<longleftrightarrow> ep_image_filename l = ep_image_filename r \<and> ep_command_line l = ep_command_line r"

record etl_thread =
  et_process_id :: u32
  et_end_time :: "u64 option"
  et_unique_id :: "nat option"
  et_name :: "u16 list option"
  et_context_switches :: nat
  et_pmc_counts :: "u64 list"

definition same_etl_thread :: "etl_thread \<Rightarrow> etl_thread \<Rightarrow> bool" where
  "same_etl_thread l r \<longleftrightarrow> et_process_id l = et_process_id r"

record etl_module =
  em_filename :: string
  em_checksum :: u32
  em_pdb_info :: "pdb_info option"

record etl_sample =
  es_thread_id :: u32
  es_timestamp :: u64
  es_instruction_pointer :: u64
  es_user_stack :: "nat option"
  es_user_timestamp :: u64
  es_kernel_stack :: "nat option"
  es_kernel_timestamp :: u64

definition new_sample :: "u32 \<Rightarrow> u64 \<Rightarrow> u64 \<Rightarrow> etl_sample" where
  "new_sample tid time ip = \<lparr>es_thread_id = tid, es_timestamp = time, es_instruction_pointer = ip,
     es_user_stack = None, es_user_timestamp = 0, es_kernel_stack = None, es_kernel_timestamp = 0\<rparr>"

record pdb_info_storage =
  pis_event_timestamp :: u64
  pis_image_base :: u64
  pis_info :: pdb_info

record pmc_sample_storage =
  pss_source :: u16
  pss_samples :: "etl_sample list"

datatype samples_place = Regular_samples u32 | Pmc_samples u32 nat

record sample_stack_ref =
  ssr_samples :: samples_place
  ssr_sample_index :: nat
  ssr_is_kernel_stack :: bool
  ssr_stack_event_timestamp :: u64

record pmc_counter =
  pmc_total_count :: u64
  pmc_prev_enter_count :: "u64 option"

definition new_counter :: pmc_counter where
  "new_counter = \<lparr>pmc_total_count = 0, pmc_prev_enter_count = None\<rparr>"

record context_switch_data =
  cs_exit_count :: nat
  cs_enter_count :: nat
  cs_first_time :: u64
  cs_last_time :: u64
  cs_counters :: "pmc_counter list"

definition new_switch_data :: "u64 \<Rightarrow> context_switch_data" where
  "new_switch_data time = \<lparr>cs_exit_count = 0, cs_enter_count = 0, cs_first_time = time, cs_last_time = 0, cs_counters = []\<rparr>"

text \<open>The entries of \<open>profiler_processes_\<close> repeat their keys: a set of keys.\<close>

record etl_context =
  ec_partitions_per_disk :: "u32 \<rightharpoonup> u32"
  ec_partition_volumes :: "u32 \<rightharpoonup> string"
  ec_nt_to_dos :: "string \<rightharpoonup> string"
  ec_system_root :: "string option"
  ec_processes :: "(u32, u64, etl_process) history"
  ec_threads :: "(u32, u64, etl_thread) history"
  ec_threads_per_process_id :: "u32 \<rightharpoonup> perf_key list"
  ec_profiler_processes :: "perf_key set"
  ec_pdb_infos :: "u32 \<rightharpoonup> pdb_info_storage list"
  ec_modules :: "u32 \<rightharpoonup> (etl_module, u64) module_map"
  ec_samples :: "u32 \<rightharpoonup> etl_sample list"
  ec_pmc_samples :: "u32 \<rightharpoonup> pmc_sample_storage list"
  ec_cached_samples :: "u64 \<rightharpoonup> sample_stack_ref list"
  ec_source_names :: "u16 \<rightharpoonup> u16 list"
  ec_sources_with_stacks :: "u16 set"
  ec_has_context_switches :: bool
  ec_switch_data :: "u32 \<rightharpoonup> context_switch_data"
  ec_threads_per_process :: "nat \<rightharpoonup> nat list"
  ec_process_keys :: "nat \<rightharpoonup> perf_key"
  ec_thread_keys :: "nat \<rightharpoonup> perf_key"
  ec_pmc_names :: "u16 list list"
  ec_stacks :: stack_cache
  ec_computer_name :: "u16 list option"
  ec_processor_architecture :: "u16 option"
  ec_processor_name :: "u16 list option"
  ec_os_name :: "u16 list option"

definition empty_etl_context :: etl_context where
  "empty_etl_context =
     \<lparr>ec_partitions_per_disk = Map.empty, ec_partition_volumes = Map.empty, ec_nt_to_dos = Map.empty, ec_system_root = None,
      ec_processes = Map.empty, ec_threads = Map.empty, ec_threads_per_process_id = Map.empty, ec_profiler_processes = {},
      ec_pdb_infos = Map.empty, ec_modules = Map.empty, ec_samples = Map.empty, ec_pmc_samples = Map.empty,
      ec_cached_samples = Map.empty, ec_source_names = Map.empty, ec_sources_with_stacks = {},
      ec_has_context_switches = False, ec_switch_data = Map.empty, ec_threads_per_process = Map.empty,
      ec_process_keys = Map.empty, ec_thread_keys = Map.empty, ec_pmc_names = [], ec_stacks = empty_stack_cache,
      ec_computer_name = None, ec_processor_architecture = None, ec_processor_name = None, ec_os_name = None\<rparr>"

section \<open>Events\<close>

text \<open>What the header of the file tells, \<open>etl_file::header_data\<close>: times in units of 100 ns, those of the ticks
  unsigned.\<close>

datatype compression_format = No_compression | Lznt1 | Xpress | Xpress_huff | Other_compression u16

record etl_header_data =
  ed_start_time :: int
  ed_end_time :: int
  ed_start_time_qpc_ticks :: u64
  ed_qpc_frequency :: u64
  ed_pointer_size :: u32
  ed_number_of_processors :: u32
  ed_number_of_buffers :: u32
  ed_buffer_size :: u32
  ed_log_file_mode :: u32
  ed_compression_format :: compression_format

record etl_header =
  eh_type :: u16
  eh_timestamp :: u64

text \<open>What the handlers read. The values of the counters of a context switch are there if its header is a
  \<open>perfinfo_trace_header_view\<close>.\<close>

datatype etl_event =
    Cpu_event "u16 list" u16
  | Physical_disk_event u32 u32
  | Logical_disk_event u32 u32 "u16 list"
  | Pnp_event "u16 list" "u16 list"
  | Build_info_event "u16 list"
  | System_paths_event "u16 list"
  | Volume_mapping_event "u16 list" "u16 list"
  | Process_event u32 u32 string "u16 list"
  | Thread_event u32 u32 "u16 list option"
  | Context_switch_event u32 u32 "u64 list option"
  | Image_load_event u32 u64 u64 u32 "u16 list"
  | Pdb_info_event u32 u64 pdb_info
  | Sampled_profile_event u32 u64
  | Pmc_profile_event u32 u16 u64
  | Profile_interval_event u32 "u16 list"
  | Pmc_config_event "u16 list list"
  | Stack_event u32 u64 "u64 list"
  | Stack_key_event u32 u64 u64
  | Stack_definition_event u64 "u64 list"
  | Profiling_started_event u32
  | Profile_target_event u32

definition is_kernel_address :: "u64 \<Rightarrow> u32 \<Rightarrow> bool" where
  "is_kernel_address address pointer_size =
     (if pointer_size = 4 then address \<ge> 0x80000000 else address \<ge> 0x800000000000)"

abbreviation (input) default_timer_pmc_source :: u16 where "default_timer_pmc_source \<equiv> 0"

subsection \<open>The system\<close>

text \<open>The partitions of the disks before, then the number on the disk.\<close>

definition handle_logical_disk :: "utf_library \<Rightarrow> u32 \<Rightarrow> u32 \<Rightarrow> u16 list \<Rightarrow> etl_context \<Rightarrow> error + etl_context" where
  "handle_logical_disk utf disk_number partition_number drive_letter c =
     (let partitions = ec_partitions_per_disk c;
          global = foldl (\<lambda>n disk. n + the (partitions disk)) partition_number
            (takeWhile (\<lambda>disk. disk < disk_number) (sorted_list_of_set (dom partitions)))
      in bind_result (utf_16to8 utf drive_letter) (\<lambda>volume.
        Inr (c\<lparr>ec_partition_volumes := (ec_partition_volumes c)(global \<mapsto> volume)\<rparr>)))"

definition intel_processor :: "u16 list" where
  "intel_processor = map (\<lambda>ch. of_nat (of_char ch)) ''Intel Processor''"

definition handle_pnp :: "u16 list \<Rightarrow> u16 list \<Rightarrow> etl_context \<Rightarrow> etl_context" where
  "handle_pnp device_description friendly_name c =
     (if ec_processor_name c \<noteq> None then c
      else if device_description = intel_processor then c\<lparr>ec_processor_name := Some friendly_name\<rparr> else c)"

definition handle_system_paths :: "utf_library \<Rightarrow> u16 list \<Rightarrow> etl_context \<Rightarrow> error + etl_context" where
  "handle_system_paths utf directory c =
     (if ec_system_root c \<noteq> None then Inr c
      else bind_result (utf_16to8 utf directory) (\<lambda>s. Inr (c\<lparr>ec_system_root := Some s\<rparr>)))"

definition handle_volume_mapping :: "utf_library \<Rightarrow> u16 list \<Rightarrow> u16 list \<Rightarrow> etl_context \<Rightarrow> error + etl_context" where
  "handle_volume_mapping utf nt_path dos_path c =
     bind_result (utf_16to8 utf dos_path) (\<lambda>dos.
     bind_result (utf_16to8 utf nt_path) (\<lambda>nt.
       Inr (c\<lparr>ec_nt_to_dos := (ec_nt_to_dos c)(nt \<mapsto> dos)\<rparr>)))"

subsection \<open>Processes and threads\<close>

definition handle_process ::
  "utf_library \<Rightarrow> etl_header \<Rightarrow> u32 \<Rightarrow> u32 \<Rightarrow> string \<Rightarrow> u16 list \<Rightarrow> etl_context \<Rightarrow> etl_context" where
  "handle_process utf h pid parent image_filename command_line c =
     (if eh_type h = 1 \<or> eh_type h = 3
      then c\<lparr>ec_processes := fst (history_insert same_etl_process (ec_processes c) pid (eh_timestamp h)
              \<lparr>ep_image_filename = utf_replace_invalid utf image_filename, ep_command_line = command_line,
               ep_parent_id = parent, ep_end_time = None, ep_unique_id = None\<rparr>)\<rparr>
      else if eh_type h = 2 \<or> eh_type h = 4
      then c\<lparr>ec_processes := history_modify (ec_processes c) pid (eh_timestamp h)
              (ep_end_time_update (\<lambda>_. Some (eh_timestamp h)))\<rparr>
      else c)"

text \<open>Counts of context switches that wait are added to a thread.\<close>

definition add_switch_data :: "context_switch_data \<Rightarrow> etl_thread \<Rightarrow> etl_thread" where
  "add_switch_data d t =
     (let counts = et_pmc_counts t @ replicate (length (cs_counters d) - length (et_pmc_counts t)) 0
      in t\<lparr>et_context_switches := et_context_switches t + cs_exit_count d,
           et_pmc_counts := map (\<lambda>k. if k < length (cs_counters d) then counts ! k + pmc_total_count (cs_counters d ! k) else counts ! k)
             [0..<length counts]\<rparr>)"

text \<open>The last entry of an id.\<close>

definition modify_last :: "('i, 'ts, 'd) history \<Rightarrow> 'i \<Rightarrow> ('d \<Rightarrow> 'd) \<Rightarrow> ('i, 'ts, 'd) history" where
  "modify_last h i g =
     (case h i of
        None \<Rightarrow> h
      | Some es \<Rightarrow> h(i \<mapsto> butlast es @ [(last es)\<lparr>payload := g (payload (last es))\<rparr>]))"

definition start_thread :: "etl_header \<Rightarrow> u32 \<Rightarrow> u32 \<Rightarrow> u16 list option \<Rightarrow> etl_context \<Rightarrow> etl_context" where
  "start_thread h tid pid name c =
     (case history_insert same_etl_thread (ec_threads c) tid (eh_timestamp h)
         \<lparr>et_process_id = pid, et_end_time = None, et_unique_id = None, et_name = name, et_context_switches = 0, et_pmc_counts = []\<rparr> of
        (threads1, is_new_thread) \<Rightarrow>
          let c1 = c\<lparr>ec_threads := threads1\<rparr> in
          if is_new_thread
          then c1\<lparr>ec_threads_per_process_id := add_to_set pid (tid, eh_timestamp h) (ec_threads_per_process_id c1)\<rparr>
          else c1)"

definition end_thread :: "etl_header \<Rightarrow> u32 \<Rightarrow> etl_context \<Rightarrow> etl_context" where
  "end_thread h tid c =
     c\<lparr>ec_threads := history_modify (ec_threads c) tid (eh_timestamp h) (et_end_time_update (\<lambda>_. Some (eh_timestamp h)))\<rparr>"

definition is_start :: "etl_header \<Rightarrow> bool" where
  "is_start h \<longleftrightarrow> eh_type h = 1 \<or> eh_type h = 3"

definition is_end :: "etl_header \<Rightarrow> bool" where
  "is_end h \<longleftrightarrow> eh_type h = 2 \<or> eh_type h = 4"

definition add_waiting :: "etl_header \<Rightarrow> u32 \<Rightarrow> etl_context \<Rightarrow> etl_context" where
  "add_waiting h tid c =
     (case ec_switch_data c tid of
        None \<Rightarrow> c
      | Some d \<Rightarrow>
          c\<lparr>ec_threads := (if is_start h then modify_last (ec_threads c) tid (add_switch_data d)
              else if is_end h then history_modify (ec_threads c) tid (eh_timestamp h) (add_switch_data d)
              else ec_threads c),
            ec_switch_data := (ec_switch_data c)(tid := None)\<rparr>)"

definition handle_thread :: "etl_header \<Rightarrow> u32 \<Rightarrow> u32 \<Rightarrow> u16 list option \<Rightarrow> etl_context \<Rightarrow> etl_context" where
  "handle_thread h tid pid name c =
     add_waiting h tid
       (if is_start h then start_thread h tid pid name c else if is_end h then end_thread h tid c else c)"

text \<open>A context switch counts for the thread that stops and the one that goes on; the values of the
  counters for what ran between two switches of a thread. Thread 0 is no thread.\<close>

definition resize_counters :: "nat \<Rightarrow> pmc_counter list \<Rightarrow> pmc_counter list" where
  "resize_counters n cs = cs @ replicate (n - length cs) new_counter"

definition leave_counter :: "u64 \<Rightarrow> pmc_counter \<Rightarrow> pmc_counter" where
  "leave_counter value k =
     (case pmc_prev_enter_count k of
        None \<Rightarrow> k
      | Some prev \<Rightarrow>
          k\<lparr>pmc_total_count := pmc_total_count k + (if prev > value then value else value - prev),
            pmc_prev_enter_count := None\<rparr>)"

definition update_switch_data ::
  "u32 \<Rightarrow> (context_switch_data \<Rightarrow> context_switch_data) \<Rightarrow> etl_context \<Rightarrow> etl_context" where
  "update_switch_data tid g c =
     c\<lparr>ec_switch_data := (ec_switch_data c)(tid \<mapsto> g (the (ec_switch_data c tid)))\<rparr>"

definition get_switch_data :: "u32 \<Rightarrow> u64 \<Rightarrow> etl_context \<Rightarrow> etl_context" where
  "get_switch_data tid time c =
     (if ec_switch_data c tid = None then c\<lparr>ec_switch_data := (ec_switch_data c)(tid \<mapsto> new_switch_data time)\<rparr> else c)"

definition count_pmc :: "u32 \<Rightarrow> u32 \<Rightarrow> nat \<Rightarrow> u64 \<Rightarrow> etl_context \<Rightarrow> etl_context" where
  "count_pmc old_tid new_tid k value c =
     (let c1 = (if old_tid = 0 then c
                else update_switch_data old_tid (\<lambda>d. d\<lparr>cs_counters := (cs_counters d)[k := leave_counter value (cs_counters d ! k)]\<rparr>) c)
      in update_switch_data new_tid
           (\<lambda>d. d\<lparr>cs_counters := (cs_counters d)[k := (cs_counters d ! k)\<lparr>pmc_prev_enter_count := Some value\<rparr>]\<rparr>) c1)"

definition handle_context_switch :: "etl_header \<Rightarrow> u32 \<Rightarrow> u32 \<Rightarrow> u64 list option \<Rightarrow> etl_context \<Rightarrow> etl_context" where
  "handle_context_switch h old_tid new_tid values c =
     (let time = eh_timestamp h;
          c1 = get_switch_data new_tid time (get_switch_data old_tid time (c\<lparr>ec_has_context_switches := True\<rparr>));
          seen = (\<lambda>d. d\<lparr>cs_last_time := max (cs_last_time d) time\<rparr>);
          c2 = update_switch_data new_tid seen (update_switch_data old_tid seen c1);
          c3 = update_switch_data new_tid (\<lambda>d. d\<lparr>cs_enter_count := cs_enter_count d + 1\<rparr>)
                 (update_switch_data old_tid (\<lambda>d. d\<lparr>cs_exit_count := cs_exit_count d + 1\<rparr>) c2)
      in case values of
           None \<Rightarrow> c3
         | Some vs \<Rightarrow>
             let resize = (\<lambda>d. d\<lparr>cs_counters := resize_counters (length vs) (cs_counters d)\<rparr>);
                 c4 = update_switch_data new_tid resize (update_switch_data old_tid resize c3)
             in foldl (\<lambda>c k. count_pmc old_tid new_tid k (vs ! k) c) c4 [0..<length vs])"

subsection \<open>Modules\<close>

text \<open>The latest information with the time and base of the image is taken out of the list.\<close>

definition take_pdb_info :: "u64 \<Rightarrow> u64 \<Rightarrow> pdb_info_storage list \<Rightarrow> pdb_info option \<times> pdb_info_storage list" where
  "take_pdb_info time image_base infos =
     (let matches = (\<lambda>k. pis_event_timestamp (infos ! k) = time \<and> pis_image_base (infos ! k) = image_base) in
      case List.find matches (rev [0..<length infos]) of
        None \<Rightarrow> (None, infos)
      | Some k \<Rightarrow> (Some (pis_info (infos ! k)), take k infos @ drop (Suc k) infos))"

definition same_etl_module :: "etl_module \<Rightarrow> etl_module \<Rightarrow> bool" where
  "same_etl_module l r \<longleftrightarrow> em_filename l = em_filename r \<and> em_checksum l = em_checksum r \<and> em_pdb_info l = em_pdb_info r"

definition handle_image_load ::
  "utf_library \<Rightarrow> etl_header \<Rightarrow> u32 \<Rightarrow> u64 \<Rightarrow> u64 \<Rightarrow> u32 \<Rightarrow> u16 list \<Rightarrow> etl_context \<Rightarrow> error + etl_context" where
  "handle_image_load utf h pid image_base image_size checksum file_name c =
     (if eh_type h \<noteq> 10 \<and> eh_type h \<noteq> 3 then Inr c
      else
        let modules = (case ec_modules c pid of None \<Rightarrow> mm_empty | Some m \<Rightarrow> m);
            infos = (case ec_pdb_infos c pid of None \<Rightarrow> [] | Some is \<Rightarrow> is)
        in case take_pdb_info (eh_timestamp h) image_base infos of
          (pdb, infos1) \<Rightarrow>
            bind_result (utf_16to8 utf file_name) (\<lambda>filename.
              case mm_insert same_etl_module modules \<lparr>mi_base = image_base, mi_size = image_size,
                  mi_payload = \<lparr>em_filename = filename, em_checksum = checksum, em_pdb_info = pdb\<rparr>\<rparr> (eh_timestamp h) of
                None \<Rightarrow> Inl Undefined
              | Some m \<Rightarrow> Inr (c\<lparr>ec_modules := (ec_modules c)(pid \<mapsto> m), ec_pdb_infos := (ec_pdb_infos c)(pid \<mapsto> infos1)\<rparr>)))"

definition handle_pdb_info :: "etl_header \<Rightarrow> u32 \<Rightarrow> u64 \<Rightarrow> pdb_info \<Rightarrow> etl_context \<Rightarrow> etl_context" where
  "handle_pdb_info h pid image_base info c =
     c\<lparr>ec_pdb_infos := (ec_pdb_infos c)(pid \<mapsto> (case ec_pdb_infos c pid of None \<Rightarrow> [] | Some is \<Rightarrow> is) @
        [\<lparr>pis_event_timestamp = eh_timestamp h, pis_image_base = image_base, pis_info = info\<rparr>])\<rparr>"

subsection \<open>Samples\<close>

definition handle_sampled_profile :: "etl_header \<Rightarrow> u32 \<Rightarrow> u64 \<Rightarrow> etl_context \<Rightarrow> etl_context" where
  "handle_sampled_profile h tid ip c =
     c\<lparr>ec_samples := (ec_samples c)(tid \<mapsto> (case ec_samples c tid of None \<Rightarrow> [] | Some xs \<Rightarrow> xs) @
        [new_sample tid (eh_timestamp h) ip])\<rparr>"

fun add_pmc_sample :: "u16 \<Rightarrow> etl_sample \<Rightarrow> pmc_sample_storage list \<Rightarrow> pmc_sample_storage list" where
  "add_pmc_sample src s [] = [\<lparr>pss_source = src, pss_samples = [s]\<rparr>]"
| "add_pmc_sample src s (p # ps) =
     (if pss_source p = src then p\<lparr>pss_samples := pss_samples p @ [s]\<rparr> # ps else p # add_pmc_sample src s ps)"

definition handle_pmc_profile :: "etl_header \<Rightarrow> u32 \<Rightarrow> u16 \<Rightarrow> u64 \<Rightarrow> etl_context \<Rightarrow> etl_context" where
  "handle_pmc_profile h tid src ip c =
     c\<lparr>ec_pmc_samples := (ec_pmc_samples c)(tid \<mapsto> add_pmc_sample src (new_sample tid (eh_timestamp h) ip)
        (case ec_pmc_samples c tid of None \<Rightarrow> [] | Some ps \<Rightarrow> ps))\<rparr>"

definition handle_profile_interval :: "etl_header \<Rightarrow> u32 \<Rightarrow> u16 list \<Rightarrow> etl_context \<Rightarrow> etl_context" where
  "handle_profile_interval h src name c =
     (if eh_type h \<noteq> 73 then c else c\<lparr>ec_source_names := (ec_source_names c)(ucast src \<mapsto> name)\<rparr>)"

subsection \<open>Stacks\<close>

text \<open>The vectors of samples, by their place.\<close>

definition samples_at :: "etl_context \<Rightarrow> samples_place \<Rightarrow> etl_sample list" where
  "samples_at c p =
     (case p of
        Regular_samples tid \<Rightarrow> (case ec_samples c tid of None \<Rightarrow> [] | Some xs \<Rightarrow> xs)
      | Pmc_samples tid k \<Rightarrow> (case ec_pmc_samples c tid of None \<Rightarrow> [] | Some ps \<Rightarrow> if k < length ps then pss_samples (ps ! k) else []))"

definition set_samples_at :: "samples_place \<Rightarrow> etl_sample list \<Rightarrow> etl_context \<Rightarrow> etl_context" where
  "set_samples_at p xs c =
     (case p of
        Regular_samples tid \<Rightarrow> c\<lparr>ec_samples := (ec_samples c)(tid \<mapsto> xs)\<rparr>
      | Pmc_samples tid k \<Rightarrow> (case ec_pmc_samples c tid of None \<Rightarrow> c
          | Some ps \<Rightarrow> c\<lparr>ec_pmc_samples := (ec_pmc_samples c)(tid \<mapsto> ps[k := (ps ! k)\<lparr>pss_samples := xs\<rparr>])\<rparr>))"

text \<open>The loop backwards over the samples of a thread: the index of the last one of the given time, unless an
  earlier one comes first.\<close>

fun find_sample_back :: "u64 \<Rightarrow> etl_sample list \<Rightarrow> nat \<Rightarrow> nat option" where
  "find_sample_back time xs 0 = None"
| "find_sample_back time xs (Suc k) =
     (if es_timestamp (xs ! k) < time then None
      else if es_timestamp (xs ! k) > time then find_sample_back time xs k
      else Some k)"

definition find_sample :: "u64 \<Rightarrow> etl_sample list \<Rightarrow> nat option" where
  "find_sample time xs = find_sample_back time xs (length xs)"

definition set_stack :: "bool \<Rightarrow> nat \<Rightarrow> u64 \<Rightarrow> etl_sample \<Rightarrow> etl_sample" where
  "set_stack in_kernel index time s =
     (if in_kernel then s\<lparr>es_kernel_stack := Some index, es_kernel_timestamp := time\<rparr>
      else s\<lparr>es_user_stack := Some index, es_user_timestamp := time\<rparr>)"

text \<open>The places of the samples of a thread with their sources: the regular ones, then the counters.\<close>

definition places_of :: "etl_context \<Rightarrow> u32 \<Rightarrow> (samples_place \<times> u16) list" where
  "places_of c tid =
     (if ec_samples c tid = None then [] else [(Regular_samples tid, default_timer_pmc_source)]) @
     (case ec_pmc_samples c tid of None \<Rightarrow> [] | Some ps \<Rightarrow> map (\<lambda>k. (Pmc_samples tid k, pss_source (ps ! k))) [0..<length ps])"

definition attach_stack ::
  "(u64 \<Rightarrow> u64) \<Rightarrow> u32 \<Rightarrow> u64 \<Rightarrow> u64 \<Rightarrow> u64 list \<Rightarrow> samples_place \<times> u16 \<Rightarrow> etl_context \<Rightarrow> error + etl_context" where
  "attach_stack ip_hash pointer_size time event_time stack = (\<lambda>(p, src) c.
     case find_sample event_time (samples_at c p) of
       None \<Rightarrow> Inr c
     | Some k \<Rightarrow>
         if stack = [] then Inl Undefined
         else case stack_insert ip_hash (ec_stacks c) stack of
           (stacks1, index) \<Rightarrow>
             let xs = samples_at c p;
                 c1 = set_samples_at p (xs[k := set_stack (is_kernel_address (last stack) pointer_size) index time (xs ! k)]) c
             in Inr (c1\<lparr>ec_stacks := stacks1, ec_sources_with_stacks := insert src (ec_sources_with_stacks c1)\<rparr>))"

fun fold_result :: "('x \<Rightarrow> 's \<Rightarrow> error + 's) \<Rightarrow> 'x list \<Rightarrow> 's \<Rightarrow> error + 's" where
  "fold_result g [] s = Inr s"
| "fold_result g (x # xs) s = bind_result (g x s) (fold_result g xs)"

definition handle_stack ::
  "(u64 \<Rightarrow> u64) \<Rightarrow> u32 \<Rightarrow> etl_header \<Rightarrow> u32 \<Rightarrow> u64 \<Rightarrow> u64 list \<Rightarrow> etl_context \<Rightarrow> error + etl_context" where
  "handle_stack ip_hash pointer_size h tid event_time stack c =
     fold_result (attach_stack ip_hash pointer_size (eh_timestamp h) event_time stack) (places_of c tid) c"

definition remember_sample ::
  "bool \<Rightarrow> u64 \<Rightarrow> u64 \<Rightarrow> u64 \<Rightarrow> samples_place \<times> u16 \<Rightarrow> etl_context \<Rightarrow> etl_context" where
  "remember_sample in_kernel time event_time key = (\<lambda>(p, src) c.
     case find_sample event_time (samples_at c p) of
       None \<Rightarrow> c
     | Some k \<Rightarrow>
         c\<lparr>ec_cached_samples := (ec_cached_samples c)(key \<mapsto> (case ec_cached_samples c key of None \<Rightarrow> [] | Some rs \<Rightarrow> rs) @
             [\<lparr>ssr_samples = p, ssr_sample_index = k, ssr_is_kernel_stack = in_kernel, ssr_stack_event_timestamp = time\<rparr>]),
           ec_sources_with_stacks := insert src (ec_sources_with_stacks c)\<rparr>)"

definition handle_stack_key :: "etl_header \<Rightarrow> u32 \<Rightarrow> u64 \<Rightarrow> u64 \<Rightarrow> etl_context \<Rightarrow> etl_context" where
  "handle_stack_key h tid event_time key c =
     fold (remember_sample (eh_type h = 37) (eh_timestamp h) event_time key) (places_of c tid) c"

definition apply_stack :: "nat \<Rightarrow> sample_stack_ref \<Rightarrow> etl_context \<Rightarrow> etl_context" where
  "apply_stack index r c =
     (let xs = samples_at c (ssr_samples r); k = ssr_sample_index r
      in set_samples_at (ssr_samples r)
           (xs[k := set_stack (ssr_is_kernel_stack r) index (ssr_stack_event_timestamp r) (xs ! k)]) c)"

definition handle_stack_definition ::
  "(u64 \<Rightarrow> u64) \<Rightarrow> etl_header \<Rightarrow> u64 \<Rightarrow> u64 list \<Rightarrow> etl_context \<Rightarrow> error + etl_context" where
  "handle_stack_definition ip_hash h key stack c =
     (if eh_type h = 34 then Inr c
      else case ec_cached_samples c key of
        None \<Rightarrow> Inr c
      | Some refs \<Rightarrow>
          case stack_insert ip_hash (ec_stacks c) stack of
            (stacks1, index) \<Rightarrow>
              if stack = [] then Inl Undefined
              else Inr ((fold (apply_stack index) refs (c\<lparr>ec_stacks := stacks1\<rparr>))
                \<lparr>ec_cached_samples := (ec_cached_samples c)(key := None)\<rparr>))"

subsection \<open>All events\<close>

definition handle_etl_event ::
  "utf_library \<Rightarrow> (u64 \<Rightarrow> u64) \<Rightarrow> u32 \<Rightarrow> etl_header \<Rightarrow> etl_event \<Rightarrow> etl_context \<Rightarrow> error + etl_context" where
  "handle_etl_event utf ip_hash pointer_size h e c =
     (case e of
        Cpu_event name arch \<Rightarrow> Inr (c\<lparr>ec_computer_name := Some name, ec_processor_architecture := Some arch\<rparr>)
      | Physical_disk_event disk n \<Rightarrow> Inr (c\<lparr>ec_partitions_per_disk := (ec_partitions_per_disk c)(disk \<mapsto> n)\<rparr>)
      | Logical_disk_event disk n letter \<Rightarrow> handle_logical_disk utf disk n letter c
      | Pnp_event description name \<Rightarrow> Inr (handle_pnp description name c)
      | Build_info_event name \<Rightarrow> Inr (if ec_os_name c \<noteq> None then c else c\<lparr>ec_os_name := Some name\<rparr>)
      | System_paths_event directory \<Rightarrow> handle_system_paths utf directory c
      | Volume_mapping_event nt dos \<Rightarrow> handle_volume_mapping utf nt dos c
      | Process_event pid parent name command_line \<Rightarrow> Inr (handle_process utf h pid parent name command_line c)
      | Thread_event tid pid name \<Rightarrow> Inr (handle_thread h tid pid name c)
      | Context_switch_event old_tid new_tid values \<Rightarrow> Inr (handle_context_switch h old_tid new_tid values c)
      | Image_load_event pid image_base image_size checksum name \<Rightarrow>
          handle_image_load utf h pid image_base image_size checksum name c
      | Pdb_info_event pid image_base info \<Rightarrow> Inr (handle_pdb_info h pid image_base info c)
      | Sampled_profile_event tid ip \<Rightarrow> Inr (handle_sampled_profile h tid ip c)
      | Pmc_profile_event tid src ip \<Rightarrow> Inr (handle_pmc_profile h tid src ip c)
      | Profile_interval_event src name \<Rightarrow> Inr (handle_profile_interval h src name c)
      | Pmc_config_event names \<Rightarrow> Inr (c\<lparr>ec_pmc_names := names\<rparr>)
      | Stack_event tid time stack \<Rightarrow> handle_stack ip_hash pointer_size h tid time stack c
      | Stack_key_event tid time key \<Rightarrow> Inr (handle_stack_key h tid time key c)
      | Stack_definition_event key stack \<Rightarrow> handle_stack_definition ip_hash h key stack c
      | Profiling_started_event pid \<Rightarrow> Inr (c\<lparr>ec_profiler_processes := insert (pid, eh_timestamp h) (ec_profiler_processes c)\<rparr>)
      | Profile_target_event pid \<Rightarrow> Inr (c\<lparr>ec_profiler_processes := insert (pid, eh_timestamp h) (ec_profiler_processes c)\<rparr>))"

definition handle_etl_events ::
  "utf_library \<Rightarrow> (u64 \<Rightarrow> u64) \<Rightarrow> u32 \<Rightarrow> (etl_header \<times> etl_event) list \<Rightarrow> etl_context \<Rightarrow> error + etl_context" where
  "handle_etl_events utf ip_hash pointer_size =
     fold_result (\<lambda>(h, e). handle_etl_event utf ip_hash pointer_size h e)"

end
