(* ===== verification/EtlTraces.thy ===== *)
theory EtlTraces
  imports Bytes EtlContext
begin

text \<open>
  Buffers and traces of Event Trace Log files: the views in \<open>snail/etl/parser/\<close> and the functions of
  \<open>snail/etl/etl_file.cpp\<close> that cut a buffer into traces. Such files are little endian. A trace is its kind, the
  bytes of its header and those behind it. Assertions are left out: reading outside of a buffer is \<open>Undefined\<close>.
\<close>

section \<open>Values\<close>

abbreviation (input) u8_at :: "u8 list \<Rightarrow> nat \<Rightarrow> error + u8" where "u8_at bytes off \<equiv> extract_int little_endian bytes off"
abbreviation (input) u16_at :: "u8 list \<Rightarrow> nat \<Rightarrow> error + u16" where "u16_at bytes off \<equiv> extract_int little_endian bytes off"
abbreviation (input) u32_at :: "u8 list \<Rightarrow> nat \<Rightarrow> error + u32" where "u32_at bytes off \<equiv> extract_int little_endian bytes off"
abbreviation (input) u64_at :: "u8 list \<Rightarrow> nat \<Rightarrow> error + u64" where "u64_at bytes off \<equiv> extract_int little_endian bytes off"

definition extract_pointer :: "u8 list \<Rightarrow> nat \<Rightarrow> u32 \<Rightarrow> error + u64" where
  "extract_pointer bytes off pointer_size =
     (if pointer_size = 4 then map_sum id ucast (u32_at bytes off) else u64_at bytes off)"

text \<open>A string of 16 bit units ends before a zero unit, or with the data.\<close>

fun take_u16string :: "u8 list \<Rightarrow> error + u16 list" where
  "take_u16string [] = Inr []"
| "take_u16string [_] = Inl Undefined"
| "take_u16string (a # b # bytes) =
     (if a = 0 \<and> b = 0 then Inr []
      else map_sum id ((#) (of_nat (le_value [a, b]))) (take_u16string bytes))"

definition extract_u16string :: "u8 list \<Rightarrow> nat \<Rightarrow> error + u16 list" where
  "extract_u16string bytes off = take_u16string (drop off bytes)"

definition instantiate_guid :: "u8 list \<Rightarrow> nat \<Rightarrow> error + guid" where
  "instantiate_guid bytes off =
     bind_result (u32_at bytes off) (\<lambda>d1.
     bind_result (u16_at bytes (off + 4)) (\<lambda>d2.
     bind_result (u16_at bytes (off + 6)) (\<lambda>d3.
     bind_result (subspan (off + 8) 8 bytes) (\<lambda>d4.
       Inr \<lparr>guid_data_1 = d1, guid_data_2 = d2, guid_data_3 = d3, guid_data_4 = d4\<rparr>))))"

section \<open>Buffers\<close>

text \<open>\<open>wmi_buffer_header_view\<close> with the \<open>wnode_header_view\<close> at its front.\<close>

definition buffer_header_size :: nat where "buffer_header_size = 72"

record buffer_header =
  bh_buffer_size :: u32
  bh_saved_offset :: u32
  bh_sequence_number :: int
  bh_processor_index :: u16
  bh_state :: u32
  bh_compressed :: bool
  bh_buffer_type :: u16

definition buffer_header_view :: "u8 list \<Rightarrow> error + buffer_header" where
  "buffer_header_view bytes =
     bind_result (u32_at bytes 0) (\<lambda>buffer_size.
     bind_result (u32_at bytes 4) (\<lambda>saved_offset.
     bind_result (u64_at bytes 24) (\<lambda>sequence_number.
     bind_result (u16_at bytes 40) (\<lambda>processor_index.
     bind_result (u32_at bytes 44) (\<lambda>state.
     bind_result (u16_at bytes 52) (\<lambda>flags.
     bind_result (u16_at bytes 54) (\<lambda>buffer_type.
       Inr \<lparr>bh_buffer_size = buffer_size, bh_saved_offset = saved_offset, bh_sequence_number = sint sequence_number,
         bh_processor_index = processor_index, bh_state = state, bh_compressed = bit flags 6, bh_buffer_type = buffer_type\<rparr>)))))))"

section \<open>Traces\<close>

text \<open>\<open>generic_trace_marker_view\<close>, and the kinds of headers that \<open>process_next_trace\<close> tells apart.\<close>

definition valid_marker :: "u8 \<Rightarrow> bool" where
  "valid_marker flags \<longleftrightarrow> bit flags 7 \<and> bit flags 6 \<and> \<not> bit flags 4"

datatype trace_kind = System_trace | Compact_trace | Perfinfo_trace | Full_header_trace | Instance_trace | Event_header_trace

definition trace_kind_of :: "u8 \<Rightarrow> error + trace_kind" where
  "trace_kind_of header_type =
     (if header_type = 1 \<or> header_type = 2 then Inr System_trace
      else if header_type = 3 \<or> header_type = 4 then Inr Compact_trace
      else if header_type = 16 \<or> header_type = 17 then Inr Perfinfo_trace
      else if header_type = 10 \<or> header_type = 20 then Inr Full_header_trace
      else if header_type = 11 \<or> header_type = 21 then Inr Instance_trace
      else if header_type = 18 \<or> header_type = 19 then Inr Event_header_trace
      else Inl (Throw (''Unsupported trace header type '' @ dec (unat header_type))))"

definition next_trace_kind :: "u8 list \<Rightarrow> error + trace_kind" where
  "next_trace_kind bytes = bind_result (u8_at bytes 2) trace_kind_of"

definition trace_static_size :: "trace_kind \<Rightarrow> nat" where
  "trace_static_size k =
     (case k of System_trace \<Rightarrow> 32 | Compact_trace \<Rightarrow> 24 | Perfinfo_trace \<Rightarrow> 16 | Full_header_trace \<Rightarrow> 48
      | Instance_trace \<Rightarrow> 72 | Event_header_trace \<Rightarrow> 80)"

text \<open>The time of a trace: \<open>system_time\<close> or \<open>timestamp\<close>.\<close>

definition trace_time :: "trace_kind \<Rightarrow> u8 list \<Rightarrow> error + u64" where
  "trace_time k bytes = u64_at bytes (if k = Perfinfo_trace then 8 else 16)"

definition peak_next_event_time :: "u8 list \<Rightarrow> error + u64" where
  "peak_next_event_time bytes = bind_result (next_trace_kind bytes) (\<lambda>k. trace_time k bytes)"

text \<open>The size of the trace with its header is in the packet, or at the front.\<close>

definition trace_size :: "trace_kind \<Rightarrow> u8 list \<Rightarrow> error + nat" where
  "trace_size k bytes =
     bind_result (u16_at bytes (if k \<in> {System_trace, Compact_trace, Perfinfo_trace} then 4 else 0)) (\<lambda>n. Inr (unat n))"

text \<open>Counters behind the header of a \<open>perfinfo_trace_header_view\<close>.\<close>

definition ext_pmc_count :: "u16 \<Rightarrow> nat" where
  "ext_pmc_count ext_header = unat (drop_bit 8 (ext_header AND 0x0700))"

definition has_ext_pebs :: "u16 \<Rightarrow> bool" where
  "has_ext_pebs ext_header \<longleftrightarrow> bit ext_header 15"

definition peak_extended_size :: "u8 list \<Rightarrow> error + nat" where
  "peak_extended_size bytes =
     bind_result (u16_at bytes 0) (\<lambda>ext_header. Inr ((if has_ext_pebs ext_header then 8 else 0) + ext_pmc_count ext_header * 8))"

record etl_trace =
  tr_kind :: trace_kind
  tr_header :: "u8 list"
  tr_user_data :: "u8 list"

text \<open>\<open>span::subspan\<close> with a count that is a difference: if it is -1, the count is \<open>dynamic_extent\<close>, the rest.\<close>

definition subspan_difference :: "nat \<Rightarrow> nat \<Rightarrow> nat \<Rightarrow> u8 list \<Rightarrow> error + u8 list" where
  "subspan_difference off a b bytes =
     (if a \<ge> b then subspan off (a - b) bytes else if a + 1 = b then subspan_from off bytes else Inl Undefined)"

text \<open>\<open>process_type_1_trace\<close>, \<open>process_perfinfo_trace\<close>, \<open>process_type_2_trace\<close> and \<open>process_event_header_trace\<close>: the
  trace for the callback, and its size.\<close>

definition split_trace :: "trace_kind \<Rightarrow> u8 list \<Rightarrow> error + etl_trace \<times> nat" where
  "split_trace k bytes =
     bind_result (if k = Perfinfo_trace then peak_extended_size bytes else Inr 0) (\<lambda>extended_size.
     bind_result (subspan 0 (trace_static_size k + extended_size) bytes) (\<lambda>header.
     bind_result (trace_size k header) (\<lambda>n.
     bind_result (subspan_difference (length header) n (length header) bytes) (\<lambda>user_data.
       Inr (\<lparr>tr_kind = k, tr_header = header, tr_user_data = user_data\<rparr>, n)))))"

text \<open>Traces are aligned to 8 bytes.\<close>

definition align8 :: "nat \<Rightarrow> nat" where
  "align8 n = (if n mod 8 > 0 then n + (8 - n mod 8) else n)"

definition next_trace :: "u8 list \<Rightarrow> error + etl_trace \<times> nat" where
  "next_trace bytes =
     bind_result (next_trace_kind bytes) (\<lambda>k.
     bind_result (split_trace k bytes) (\<lambda>(t, n). Inr (t, align8 n)))"

end
