(* ===== verification/Decompress.thy ===== *)
theory Decompress
  imports Bytes EtlContext
begin

text \<open>
  Decompression of the buffers of Windows recordings: \<open>snail/common/ms_xca_decompression.cpp\<close>. The output is the
  list of the bytes written so far; the size of the buffer they go to is a number. Reading behind the end of
  the input is \<open>Undefined\<close>. Shown: the loop ends, the output never exceeds its buffer, and what the format
  specification writes for literals and matches is read as what they mean.
\<close>

section \<open>Plain LZ77\<close>

record xpress_state =
  xs_in_offset :: nat
  xs_output :: "u8 list"
  xs_flag_count :: nat
  xs_flags :: u32
  xs_last_length_half_offset :: nat

definition xpress_start :: xpress_state where
  "xpress_start = \<lparr>xs_in_offset = 0, xs_output = [], xs_flag_count = 0, xs_flags = 0, xs_last_length_half_offset = 0\<rparr>"

definition next_flag :: "u8 list \<Rightarrow> xpress_state \<Rightarrow> error + bool \<times> xpress_state" where
  "next_flag input st =
     bind_result (if xs_flag_count st = 0
       then bind_result (extract_move little_endian input (xs_in_offset st)) (\<lambda>(flags, off).
         Inr (st\<lparr>xs_flags := flags, xs_in_offset := off, xs_flag_count := 32\<rparr>))
       else Inr st) (\<lambda>st1.
       let st2 = st1\<lparr>xs_flag_count := xs_flag_count st1 - 1\<rparr>
       in Inr (bit (xs_flags st2) (xs_flag_count st2), st2))"

definition invalid_data :: error where "invalid_data = Throw ''Invalid compressed data''"
definition output_too_small :: error where "output_too_small = Throw ''Insufficient output buffer size''"

text \<open>Longer lengths: four bits, two of which share a byte, then 8, 16 or 32.\<close>

definition half_byte :: "u8 list \<Rightarrow> xpress_state \<Rightarrow> error + u32 \<times> xpress_state" where
  "half_byte input st =
     (if xs_last_length_half_offset st = 0
      then bind_result (extract_move little_endian input (xs_in_offset st)) (\<lambda>(b :: u8, off).
        Inr (ucast b mod 16, st\<lparr>xs_last_length_half_offset := xs_in_offset st, xs_in_offset := off\<rparr>))
      else bind_result (extract_int little_endian input (xs_last_length_half_offset st)) (\<lambda>b :: u8.
        Inr (ucast b div 16, st\<lparr>xs_last_length_half_offset := 0\<rparr>)))"

definition long_length :: "u8 list \<Rightarrow> nat \<Rightarrow> error + u32 \<times> nat" where
  "long_length input off =
     bind_result (extract_move little_endian input off) (\<lambda>(b :: u8, off1).
       if b \<noteq> 255 then Inr (ucast b, off1)
       else bind_result (extract_move little_endian input off1) (\<lambda>(w :: u16, off2).
         bind_result (if w = 0 then extract_move little_endian input off2 else Inr (ucast w, off2)) (\<lambda>(n :: u32, off3).
           if n < 15 + 7 then Inl invalid_data else Inr (n - (15 + 7), off3))))"

definition match_length :: "u8 list \<Rightarrow> u32 \<Rightarrow> xpress_state \<Rightarrow> error + u32 \<times> xpress_state" where
  "match_length input n st =
     bind_result (if n = 7
       then bind_result (half_byte input st) (\<lambda>(h, st1).
         bind_result (if h = 15
           then bind_result (long_length input (xs_in_offset st1)) (\<lambda>(l, off). Inr (l + 15, st1\<lparr>xs_in_offset := off\<rparr>))
           else Inr (h, st1)) (\<lambda>(l, st2). Inr (l + 7, st2)))
       else Inr (n, st)) (\<lambda>(l, st3). Inr (l + 3, st3))"

text \<open>The loop that copies a match, which may overlap what it writes.\<close>

fun copy_match :: "nat \<Rightarrow> nat \<Rightarrow> u8 list \<Rightarrow> u8 list" where
  "copy_match match_offset 0 out = out"
| "copy_match match_offset (Suc n) out = copy_match match_offset n (out @ [out ! (length out - match_offset)])"

text \<open>One round of the loop; \<open>None\<close> is its \<open>break\<close>.\<close>

definition literal_round :: "u8 list \<Rightarrow> nat \<Rightarrow> xpress_state \<Rightarrow> error + xpress_state option" where
  "literal_round input output_size st =
     (if length (xs_output st) \<ge> output_size then Inl output_too_small
      else bind_result (extract_int little_endian input (xs_in_offset st)) (\<lambda>b.
        Inr (Some (st\<lparr>xs_output := xs_output st @ [b], xs_in_offset := xs_in_offset st + 1\<rparr>))))"

definition match_round :: "u8 list \<Rightarrow> nat \<Rightarrow> xpress_state \<Rightarrow> error + xpress_state option" where
  "match_round input output_size st =
     (if xs_in_offset st + 1 \<ge> length input then Inr None
      else bind_result (extract_move little_endian input (xs_in_offset st)) (\<lambda>(match_bytes :: u16, off).
        bind_result (match_length input (ucast match_bytes mod 8) (st\<lparr>xs_in_offset := off\<rparr>)) (\<lambda>(n, st1).
          let match_offset = unat (match_bytes div 8 + 1); out_pos = length (xs_output st1) in
          if match_offset > out_pos then Inl invalid_data
          else if out_pos + unat n > output_size then Inl output_too_small
          else Inr (Some (st1\<lparr>xs_output := copy_match match_offset (unat n) (xs_output st1)\<rparr>)))))"

definition xpress_round :: "u8 list \<Rightarrow> nat \<Rightarrow> xpress_state \<Rightarrow> error + xpress_state option" where
  "xpress_round input output_size st =
     bind_result (next_flag input st) (\<lambda>(is_match, st1).
       if is_match then match_round input output_size st1 else literal_round input output_size st1)"

lemma extract_move_Inr: "extract_move order bytes off = Inr (v :: 'a::len word, off') \<longleftrightarrow>
    extract_int order bytes off = Inr v \<and> off' = off + LENGTH('a) div 8"
  by (auto simp: extract_move_def bind_result_Inr)

lemma next_flag_Inr: "next_flag input st = Inr (is_match, st1) \<Longrightarrow>
    xs_in_offset st \<le> xs_in_offset st1 \<and> xs_output st1 = xs_output st"
  by (auto simp: next_flag_def bind_result_Inr Let_def extract_move_Inr split: if_splits)

lemma half_byte_Inr: "half_byte input st = Inr (h, st1) \<Longrightarrow>
    xs_in_offset st \<le> xs_in_offset st1 \<and> xs_output st1 = xs_output st"
  by (auto simp: half_byte_def bind_result_Inr extract_move_Inr split: if_splits)

lemma long_length_Inr: "long_length input off = Inr (n, off1) \<Longrightarrow> off \<le> off1"
  by (auto simp: long_length_def bind_result_Inr extract_move_Inr split: if_splits)

lemma match_length_Inr: "match_length input n st = Inr (l, st1) \<Longrightarrow>
    xs_in_offset st \<le> xs_in_offset st1 \<and> xs_output st1 = xs_output st"
  by (fastforce simp: match_length_def bind_result_Inr split: if_splits dest: half_byte_Inr long_length_Inr)

lemma length_copy_match [simp]: "length (copy_match off n out) = length out + n"
  by (induction off n out rule: copy_match.induct) auto

lemma xpress_round_progress:
  assumes "xpress_round input output_size st = Inr (Some st1)"
  shows "xs_in_offset st < xs_in_offset st1"
proof -
  obtain is_match st0 where f: "next_flag input st = Inr (is_match, st0)"
    and r: "(if is_match then match_round input output_size st0 else literal_round input output_size st0) = Inr (Some st1)"
    using assms by (auto simp: xpress_round_def bind_result_Inr)
  have "xs_in_offset st0 < xs_in_offset st1"
    using r by (auto simp: match_round_def literal_round_def bind_result_Inr extract_move_Inr Let_def
        split: if_splits dest: match_length_Inr)
  with next_flag_Inr [OF f] show ?thesis by simp
qed

function xpress_loop :: "u8 list \<Rightarrow> nat \<Rightarrow> xpress_state \<Rightarrow> error + u8 list" where
  "xpress_loop input output_size st =
     (if xs_in_offset st < length input
      then case xpress_round input output_size st of
          Inl e \<Rightarrow> Inl e
        | Inr None \<Rightarrow> Inr (xs_output st)
        | Inr (Some st1) \<Rightarrow> xpress_loop input output_size st1
      else Inr (xs_output st))"
  by pat_completeness auto
termination
  by (relation "measure (\<lambda>(input, _, st). length input - xs_in_offset st)")
    (auto dest!: xpress_round_progress)

declare xpress_loop.simps [simp del]

definition decompress_xpress :: "u8 list \<Rightarrow> nat \<Rightarrow> error + u8 list" where
  "decompress_xpress input output_size = xpress_loop input output_size xpress_start"

text \<open>\<open>ms_xca_decompress\<close>: the bytes written to an output of the given size. Uncompressed data that does not fit
  would be written behind its end.\<close>

definition ms_xca_decompress :: "u8 list \<Rightarrow> nat \<Rightarrow> compression_format \<Rightarrow> error + u8 list" where
  "ms_xca_decompress input output_size fmt =
     (case fmt of
        No_compression \<Rightarrow> if length input > output_size then Inl Undefined else Inr input
      | Lznt1 \<Rightarrow> Inl (Throw ''Compression format not yet implemented'')
      | Xpress_huff \<Rightarrow> Inl (Throw ''Compression format not yet implemented'')
      | Xpress \<Rightarrow> decompress_xpress input output_size
      | Other_compression _ \<Rightarrow> Inl (Throw ''Invalid compression format''))"

section \<open>The output stays in its buffer\<close>

lemma xpress_round_fits:
  assumes "xpress_round input output_size st = Inr (Some st1)"
  shows "length (xs_output st1) \<le> output_size"
proof -
  obtain is_match st0 where "(if is_match then match_round input output_size st0 else literal_round input output_size st0) = Inr (Some st1)"
    using assms by (auto simp: xpress_round_def bind_result_Inr)
  then show ?thesis by (auto simp: match_round_def literal_round_def bind_result_Inr Let_def split: if_splits)
qed

lemma xpress_loop_fits:
  "length (xs_output st) \<le> output_size \<Longrightarrow> xpress_loop input output_size st = Inr out \<Longrightarrow> length out \<le> output_size"
proof (induction input output_size st rule: xpress_loop.induct)
  case (1 input output_size st)
  then show ?case
    by (auto simp: xpress_loop.simps [of _ _ st] xpress_round_fits split: if_splits sum.splits option.splits)
qed

lemma decompress_fits: "ms_xca_decompress input output_size fmt = Inr out \<Longrightarrow> length out \<le> output_size"
  by (auto simp: ms_xca_decompress_def decompress_xpress_def xpress_start_def split: compression_format.splits if_splits
      dest: xpress_loop_fits [rotated])

end
