(* ===== verification/PdbResolver.thy ===== *)
theory PdbResolver
  imports DwarfResolver EtlContext
begin

text \<open>
  Symbols of a Windows recording: \<open>snail/analysis/detail/pdb_resolver.cpp\<close> (built with LLVM, on a POSIX
  system) and the download function of \<open>snail/analysis/detail/download.cpp\<close>. What LLVM and libcurl do with a
  file is a record of functions; the regular files are a state, since invalid files are removed from the cache
  directory and others are downloaded into it. Directories, messages and exceptions of the file system are left
  out.
\<close>

section \<open>What the resolver asks for\<close>

type_synonym 'f files = "string \<rightharpoonup> 'f"

datatype curl_code = Curl_ok | Http_returned_error | Other_curl_error

text \<open>\<open>curl_perform\<close>: \<open>None\<close> if the library cannot be initialized; the body if any of it was written.
  \<open>pdb_file_guid\<close>: \<open>None\<close> if the headers or streams of the file cannot be parsed. \<open>image_pdb_info\<close>: the
  checksum of a COFF file and its PDB 7.0 record. A function symbol has its first line.\<close>

record 'f curl_result =
  result_code :: curl_code
  curl_message :: string
  http_code :: nat
  curl_body :: "'f option"

record pdb_function =
  function_name :: string
  function_address :: u64
  function_length :: u64
  function_first_line :: "(string \<times> nat) option"

record ('f, 's) pdb_env =
  curl_perform :: "string \<Rightarrow> 'f curl_result option"
  is_pdb_file :: "'f \<Rightarrow> bool"
  pdb_file_guid :: "'f \<Rightarrow> guid option"
  image_pdb_info :: "'f \<Rightarrow> (u32 \<times> pdb_info option) option"
  load_pdb :: "'f \<Rightarrow> 's option"
  function_symbol :: "'s \<Rightarrow> u32 \<Rightarrow> pdb_function option"
  public_symbol :: "'s \<Rightarrow> u32 \<Rightarrow> (string \<times> u64) option"
  lines_at :: "'s \<Rightarrow> u32 \<Rightarrow> u32 \<Rightarrow> (string \<times> nat) option"
  llvm_demangle :: "string \<Rightarrow> string"
  replace_regex :: "string \<Rightarrow> string \<Rightarrow> string \<Rightarrow> string"

record pdb_config =
  pdb_options :: pdb_symbol_find_options
  pdb_path_map :: "path_mapper list"
  pdb_filter :: filter_options

record pdb_module =
  pm_filename :: string
  pm_base :: u64
  pm_checksum :: u32
  pm_pdb_info :: "pdb_info option"
  pm_process_id :: u32
  pm_load_timestamp :: u64

section \<open>Downloads\<close>

definition try_download_file :: "('f, 's) pdb_env \<Rightarrow> string \<Rightarrow> string \<Rightarrow> 'f files \<Rightarrow> (error + bool) \<times> 'f files" where
  "try_download_file env url output_path files =
     (case curl_perform env url of
        None \<Rightarrow> (Inl (Throw ''Failed to initialize curl''), files)
      | Some r \<Rightarrow>
          let files1 = (case curl_body r of None \<Rightarrow> files | Some f \<Rightarrow> files(output_path \<mapsto> f))
          in if result_code r = Http_returned_error \<and> http_code r = 404 then (Inr False, files1)
             else if result_code r \<noteq> Curl_ok
             then (Inl (Throw (''Failed to download file: '' @ curl_message r)), files1(output_path := None))
             else (Inr True, files1))"

section \<open>Finding a PDB\<close>

datatype check_pdb_result = valid_pdb | not_a_pdb | invalid_pdb | incorrect_guid

definition check_pdb :: "('f, 's) pdb_env \<Rightarrow> 'f files \<Rightarrow> string \<Rightarrow> pdb_info option \<Rightarrow> check_pdb_result" where
  "check_pdb env files path expected =
     (case files path of
        None \<Rightarrow> not_a_pdb
      | Some f \<Rightarrow>
          if \<not> is_pdb_file env f then not_a_pdb
          else case expected of
            None \<Rightarrow> valid_pdb
          | Some info \<Rightarrow>
              (case pdb_file_guid env f of
                 None \<Rightarrow> invalid_pdb
               | Some g \<Rightarrow> if g \<noteq> pdb_guid info then incorrect_guid else valid_pdb))"

definition try_get_pdb_info_from_module :: "('f, 's) pdb_env \<Rightarrow> 'f files \<Rightarrow> string \<Rightarrow> u32 \<Rightarrow> pdb_info option" where
  "try_get_pdb_info_from_module env files path checksum =
     (case files path of
        None \<Rightarrow> None
      | Some f \<Rightarrow>
          (case image_pdb_info env f of
             None \<Rightarrow> None
           | Some (image_checksum, info) \<Rightarrow> if image_checksum \<noteq> checksum then None else info))"

text \<open>Paths of POSIX: \<open>parent_path\<close>, \<open>replace_extension(".pdb")\<close>.\<close>

definition parent_path :: "string \<Rightarrow> string" where
  "parent_path p =
     (let dir = rev (dropWhile (\<lambda>ch. ch \<noteq> CHR ''/'') (rev p));
          stripped = rev (dropWhile (\<lambda>ch. ch = CHR ''/'') (rev dir))
      in if stripped = [] \<and> dir \<noteq> [] then ''/'' else stripped)"

definition replace_extension_pdb :: "string \<Rightarrow> string" where
  "replace_extension_pdb f =
     (let stem = (if f = ''.'' \<or> f = ''..'' then f
                  else case after_last (CHR ''.'') f of
                    None \<Rightarrow> f
                  | Some ext \<Rightarrow> if length ext + 1 = length f then f else take (length f - (length ext + 1)) f)
      in stem @ ''.pdb'')"

definition upper_hex :: "nat \<Rightarrow> nat \<Rightarrow> string" where
  "upper_hex k n = map (\<lambda>ch. if 97 \<le> (of_char ch :: nat) then char_of ((of_char ch :: nat) - 32) else ch) (hex k n)"

definition guid_text :: "guid \<Rightarrow> string" where
  "guid_text g = upper_hex 8 (unat (guid_data_1 g)) @ upper_hex 4 (unat (guid_data_2 g)) @ upper_hex 4 (unat (guid_data_3 g)) @
     concat (map (\<lambda>b. upper_hex 2 (unat b)) (guid_data_4 g))"

text \<open>\<open>(int)age\<close>, in decimal.\<close>

definition int_text :: "int \<Rightarrow> string" where
  "int_text n = (if n < 0 then ''-'' @ dec (nat (- n)) else dec (nat n))"

text \<open>The name of the PDB file in the path a module refers to, also if that is a path of Windows.\<close>

definition reference_name :: "string \<Rightarrow> string" where
  "reference_name ref =
     (let name = path_filename ref in
      if name = ref \<and> CHR '':'' \<in> set ref
      then (case after_last (CHR 0x5C) ref of None \<Rightarrow> name | Some t \<Rightarrow> t)
      else name)"

definition is_absolute :: "string \<Rightarrow> bool" where
  "is_absolute p \<longleftrightarrow> p \<noteq> [] \<and> hd p = CHR ''/''"

fun try_symbol_servers ::
  "('f, 's) pdb_env \<Rightarrow> pdb_info option \<Rightarrow> string \<Rightarrow> string \<Rightarrow> string list \<Rightarrow> 'f files \<Rightarrow> string option \<times> 'f files" where
  "try_symbol_servers env info url_tail cache_path [] files = (None, files)"
| "try_symbol_servers env info url_tail cache_path (url # urls) files =
     (case try_download_file env (url @ ''/'' @ url_tail) cache_path files of
        (downloaded, files1) \<Rightarrow>
          if downloaded = Inr True
          then if check_pdb env files1 cache_path info = valid_pdb then (Some cache_path, files1)
               else try_symbol_servers env info url_tail cache_path urls (files1(cache_path := None))
          else try_symbol_servers env info url_tail cache_path urls files1)"

text \<open>Where a PDB is kept after a download.\<close>

definition pdb_cache_path :: "pdb_symbol_find_options \<Rightarrow> string \<Rightarrow> pdb_info \<Rightarrow> string" where
  "pdb_cache_path opts name info =
     path_join (path_join (path_join (symbol_cache_dir opts) name) (guid_text (pdb_guid info) @ dec (unat (pdb_age info)))) name"

definition retrieve_pdb ::
  "('f, 's) pdb_env \<Rightarrow> pdb_info \<Rightarrow> pdb_symbol_find_options \<Rightarrow> string \<Rightarrow> 'f files \<Rightarrow> string option \<times> 'f files" where
  "retrieve_pdb env info opts name files =
     (let cache_path = pdb_cache_path opts name info;
          url_tail = name @ ''/'' @ guid_text (pdb_guid info) @ int_text (sint (pdb_age info)) @ ''/'' @ name
      in if check_pdb env files cache_path (Some info) = valid_pdb then (Some cache_path, files)
         else let files1 = files(cache_path := None)
              in if symbol_server_urls opts = [] then (None, files1)
                 else try_symbol_servers env (Some info) url_tail cache_path (symbol_server_urls opts) files1)"

definition find_by_name ::
  "('f, 's) pdb_env \<Rightarrow> string \<Rightarrow> pdb_info option \<Rightarrow> pdb_symbol_find_options \<Rightarrow> string \<Rightarrow> 'f files \<Rightarrow> string option \<times> 'f files" where
  "find_by_name env module_path info opts name files =
     (case List.find (\<lambda>p. check_pdb env files p info = valid_pdb)
         (path_join (parent_path module_path) name # map (\<lambda>d. path_join d name) (search_dirs opts)) of
        Some p \<Rightarrow> (Some p, files)
      | None \<Rightarrow> (case info of None \<Rightarrow> (None, files) | Some i \<Rightarrow> retrieve_pdb env i opts name files))"

definition find_or_retrieve_pdb ::
  "('f, 's) pdb_env \<Rightarrow> string \<Rightarrow> pdb_info option \<Rightarrow> pdb_symbol_find_options \<Rightarrow> path_mapper list \<Rightarrow> 'f files \<Rightarrow>
   string option \<times> 'f files" where
  "find_or_retrieve_pdb env module_path info opts path_map files =
     (case info of
        None \<Rightarrow> find_by_name env module_path info opts (replace_extension_pdb (path_filename module_path)) files
      | Some i \<Rightarrow>
          let ref = fst (path_map_try_apply (replace_regex env) path_map (pdb_name i))
          in if is_absolute ref \<and> check_pdb env files ref info = valid_pdb then (Some ref, files)
             else find_by_name env module_path info opts (reference_name ref) files)"

section \<open>Sessions and symbols\<close>

record 's pdb_resolver =
  pdb_session_cache :: "module_key \<rightharpoonup> 's option"
  pdb_symbol_cache :: "module_key \<times> u64 \<rightharpoonup> symbol_info"

definition empty_pdb_resolver :: "'s pdb_resolver" where
  "empty_pdb_resolver = \<lparr>pdb_session_cache = Map.empty, pdb_symbol_cache = Map.empty\<rparr>"

definition pdb_module_key :: "pdb_module \<Rightarrow> module_key" where
  "pdb_module_key m = (pm_process_id m, pm_load_timestamp m)"

text \<open>What \<open>get_pdb_session\<close> does when its cache has nothing for the module.\<close>

definition load_session :: "('f, 's) pdb_env \<Rightarrow> pdb_config \<Rightarrow> pdb_module \<Rightarrow> 'f files \<Rightarrow> 's option \<times> 'f files" where
  "load_session env cfg m files =
     (let path = fst (path_map_try_apply (replace_regex env) (pdb_path_map cfg) (pm_filename m)) in
      if \<not> filter_check (pdb_filter cfg) path then (None, files)
      else
        let info = (case pm_pdb_info m of Some i \<Rightarrow> Some i | None \<Rightarrow> try_get_pdb_info_from_module env files path (pm_checksum m))
        in case find_or_retrieve_pdb env path info (pdb_options cfg) (pdb_path_map cfg) files of
          (None, files1) \<Rightarrow> (None, files1)
        | (Some p, files1) \<Rightarrow> (Option.bind (files1 p) (load_pdb env), files1))"

definition get_pdb_session ::
  "('f, 's) pdb_env \<Rightarrow> pdb_config \<Rightarrow> pdb_module \<Rightarrow> 's pdb_resolver \<times> 'f files \<Rightarrow> 's option \<times> 's pdb_resolver \<times> 'f files" where
  "get_pdb_session env cfg m = (\<lambda>(r, files).
     case pdb_session_cache r (pdb_module_key m) of
       Some x \<Rightarrow> (x, r, files)
     | None \<Rightarrow>
         (case load_session env cfg m files of
            (x, files1) \<Rightarrow> (x, r\<lparr>pdb_session_cache := (pdb_session_cache r)(pdb_module_key m \<mapsto> x)\<rparr>, files1)))"

definition make_generic_pdb_symbol :: "u64 \<Rightarrow> 's pdb_resolver \<Rightarrow> symbol_info \<times> 's pdb_resolver" where
  "make_generic_pdb_symbol a r =
     (case pdb_symbol_cache r ((0, 0), a) of
        Some y \<Rightarrow> (y, r)
      | None \<Rightarrow>
          let y = generic_symbol (address_text a)
          in (y, r\<lparr>pdb_symbol_cache := (pdb_symbol_cache r)(((0, 0), a) \<mapsto> y)\<rparr>))"

definition make_module_generic_pdb_symbol :: "pdb_module \<Rightarrow> u64 \<Rightarrow> 's pdb_resolver \<Rightarrow> symbol_info \<times> 's pdb_resolver" where
  "make_module_generic_pdb_symbol m a r =
     (case pdb_symbol_cache r (pdb_module_key m, a) of
        Some y \<Rightarrow> (y, r)
      | None \<Rightarrow>
          let y = generic_symbol (module_file_name (pm_filename m) @ ''!'' @ address_text a)
          in (y, r\<lparr>pdb_symbol_cache := (pdb_symbol_cache r)((pdb_module_key m, a) \<mapsto> y)\<rparr>))"

definition extract_symbol_function_name ::
  "('f, 's) pdb_env \<Rightarrow> pdb_function option \<Rightarrow> (string \<times> u64) option \<Rightarrow> string option" where
  "extract_symbol_function_name env f p =
     (case (f, p) of
        (None, None) \<Rightarrow> None
      | (None, Some (n, _)) \<Rightarrow> Some (llvm_demangle env n)
      | (Some fn, None) \<Rightarrow> Some (function_name fn)
      | (Some fn, Some (n, a)) \<Rightarrow> Some (if a = function_address fn then llvm_demangle env n else function_name fn))"

text \<open>The lines of a function: its first, and the one of the address.\<close>

definition add_lines :: "('f, 's) pdb_env \<Rightarrow> 's \<Rightarrow> u32 \<Rightarrow> pdb_function \<Rightarrow> symbol_info \<Rightarrow> symbol_info" where
  "add_lines env s rva fn y =
     (let y1 = (case function_first_line fn of
            None \<Rightarrow> y
          | Some (source, n) \<Rightarrow> y\<lparr>symbol_file := source, symbol_function_line := n\<rparr>)
      in case lines_at env s rva (ucast (function_length fn)) of
           None \<Rightarrow> y1
         | Some (source, n) \<Rightarrow> y1\<lparr>symbol_file := source, symbol_line := n\<rparr>)"

definition pdb_symbol_in :: "('f, 's) pdb_env \<Rightarrow> 's \<Rightarrow> u32 \<Rightarrow> symbol_info option" where
  "pdb_symbol_in env s rva =
     (let f = function_symbol env s rva in
      case extract_symbol_function_name env f (public_symbol env s rva) of
        None \<Rightarrow> None
      | Some n \<Rightarrow>
          let y = \<lparr>symbol_text = n, symbol_is_generic = False, symbol_file = [], symbol_function_line = 0, symbol_line = 0\<rparr>
          in Some (case f of None \<Rightarrow> y | Some fn \<Rightarrow> add_lines env s rva fn y))"

definition resolve_pdb_symbol ::
  "('f, 's) pdb_env \<Rightarrow> pdb_config \<Rightarrow> pdb_module \<Rightarrow> u64 \<Rightarrow> 's pdb_resolver \<times> 'f files \<Rightarrow> symbol_info \<times> 's pdb_resolver \<times> 'f files" where
  "resolve_pdb_symbol env cfg m a = (\<lambda>(r, files).
     case pdb_symbol_cache r (pdb_module_key m, a) of
       Some y \<Rightarrow> (y, r, files)
     | None \<Rightarrow>
         (case get_pdb_session env cfg m (r, files) of
            (None, r1, files1) \<Rightarrow> (case make_module_generic_pdb_symbol m a r1 of (y, r2) \<Rightarrow> (y, r2, files1))
          | (Some s, r1, files1) \<Rightarrow>
              (case pdb_symbol_in env s (ucast (a - pm_base m)) of
                 None \<Rightarrow> (case make_module_generic_pdb_symbol m a r1 of (y, r2) \<Rightarrow> (y, r2, files1))
               | Some y \<Rightarrow> (y, r1\<lparr>pdb_symbol_cache := (pdb_symbol_cache r1)((pdb_module_key m, a) \<mapsto> y)\<rparr>, files1))))"

section \<open>Properties\<close>

text \<open>What trying the servers does to the files.\<close>

lemma try_download_frame:
  "try_download_file env url path files = (r, files') \<Longrightarrow> q \<noteq> path \<Longrightarrow> files' q = files q"
  by (auto simp: try_download_file_def Let_def split: option.splits if_splits)

text \<open>\<open>CURLOPT_FAILONERROR\<close>: nothing of an error page is written.\<close>

definition fails_on_error :: "('f, 's) pdb_env \<Rightarrow> bool" where
  "fails_on_error env \<longleftrightarrow> (\<forall>url r. curl_perform env url = Some r \<longrightarrow> result_code r = Http_returned_error \<longrightarrow> curl_body r = None)"

lemma try_download_failed:
  assumes "try_download_file env url path files = (r, files')" "fails_on_error env" "r \<noteq> Inr True" "files path = None"
  shows "files' path = None"
  using assms by (auto simp: try_download_file_def fails_on_error_def Let_def split: option.splits if_splits)

lemma try_symbol_servers_result:
  "try_symbol_servers env info url_tail path urls files = (p, files') \<Longrightarrow>
     (\<forall>q. q \<noteq> path \<longrightarrow> files' q = files q) \<and> (p \<noteq> None \<longrightarrow> p = Some path \<and> check_pdb env files' path info = valid_pdb) \<and>
     (fails_on_error env \<longrightarrow> files path = None \<longrightarrow> p = None \<longrightarrow> files' path = None)"
proof (induction urls arbitrary: files)
  case (Cons url urls)
  obtain r files1 where r: "try_download_file env (url @ ''/'' @ url_tail) path files = (r, files1)" by fastforce
  note frame = try_download_frame [OF r]
  show ?case
  proof (cases "r = Inr True \<and> check_pdb env files1 path info = valid_pdb")
    case True
    with Cons.prems r frame show ?thesis by auto
  next
    case False
    obtain files2 where files2: "files2 = (if r = Inr True then files1(path := None) else files1)" by blast
    have run: "try_symbol_servers env info url_tail path urls files2 = (p, files')"
      using Cons.prems r False by (auto simp: files2 split: if_splits)
    have 2: "\<forall>q. q \<noteq> path \<longrightarrow> files2 q = files q" "fails_on_error env \<longrightarrow> files path = None \<longrightarrow> files2 path = None"
      using frame try_download_failed [OF r] by (auto simp: files2)
    show ?thesis using Cons.IH [OF run] 2 by simp
  qed
qed simp

lemma retrieve_pdb_result:
  assumes "retrieve_pdb env info opts name files = (p, files')"
  shows "(\<forall>q. q \<noteq> pdb_cache_path opts name info \<longrightarrow> files' q = files q) \<and>
    (p \<noteq> None \<longrightarrow> p = Some (pdb_cache_path opts name info) \<and>
      check_pdb env files' (pdb_cache_path opts name info) (Some info) = valid_pdb) \<and>
    (fails_on_error env \<longrightarrow> p = None \<longrightarrow> files' (pdb_cache_path opts name info) = None)"
proof -
  let ?path = "pdb_cache_path opts name info"
  show ?thesis
  proof (cases "check_pdb env files ?path (Some info) = valid_pdb \<or> symbol_server_urls opts = []")
    case True
    with assms show ?thesis by (auto simp: retrieve_pdb_def Let_def split: if_splits)
  next
    case False
    with assms have "try_symbol_servers env (Some info) (name @ ''/'' @ guid_text (pdb_guid info) @ int_text (sint (pdb_age info)) @ ''/'' @ name)
        ?path (symbol_server_urls opts) (files(?path := None)) = (p, files')"
      by (simp add: retrieve_pdb_def Let_def)
    from try_symbol_servers_result [OF this] show ?thesis by simp
  qed
qed

text \<open>C34: A PDB that is used is the right one: what the search gives is, with the files it leaves, a valid PDB,
  and has the GUID of the module if one is known. The search changes no file but the one in the cache
  directory for that PDB; and if it finds nothing for a module with a GUID, it leaves none there, so a file that
  was downloaded and is wrong is gone.\<close>
theorem found_pdb_is_valid:
  assumes "find_or_retrieve_pdb env module_path info opts path_map files = (p, files')"
  shows "(\<forall>path. p = Some path \<longrightarrow> check_pdb env files' path info = valid_pdb) \<and>
    (info = None \<longrightarrow> files' = files) \<and>
    (\<forall>i. info = Some i \<longrightarrow>
      (let cached = pdb_cache_path opts (reference_name (fst (path_map_try_apply (replace_regex env) path_map (pdb_name i)))) i
       in (\<forall>q. q \<noteq> cached \<longrightarrow> files' q = files q) \<and> (fails_on_error env \<longrightarrow> p = None \<longrightarrow> files' cached = None)))"
proof -
  have by_name: "(\<forall>path. p = Some path \<longrightarrow> check_pdb env files' path info = valid_pdb) \<and> (info = None \<longrightarrow> files' = files) \<and>
      (\<forall>i. info = Some i \<longrightarrow> (\<forall>q. q \<noteq> pdb_cache_path opts name i \<longrightarrow> files' q = files q) \<and>
        (fails_on_error env \<longrightarrow> p = None \<longrightarrow> files' (pdb_cache_path opts name i) = None))"
    if "find_by_name env module_path info opts name files = (p, files')" for name
  proof (cases "List.find (\<lambda>p. check_pdb env files p info = valid_pdb)
         (path_join (parent_path module_path) name # map (\<lambda>d. path_join d name) (search_dirs opts))")
    case (Some q)
    then have "check_pdb env files q info = valid_pdb" unfolding find_Some_iff by blast
    with that Some show ?thesis by (auto simp: find_by_name_def)
  next
    case None
    show ?thesis
    proof (cases info)
      case (Some i)
      with that None have "retrieve_pdb env i opts name files = (p, files')" by (simp add: find_by_name_def del: find.simps)
      from retrieve_pdb_result [OF this] Some show ?thesis by auto
    qed (use that None in \<open>simp add: find_by_name_def del: find.simps\<close>)
  qed
  show ?thesis
  proof (cases info)
    case None
    with assms have "find_by_name env module_path info opts (replace_extension_pdb (path_filename module_path)) files = (p, files')"
      by (simp add: find_or_retrieve_pdb_def)
    from by_name [OF this] None show ?thesis by auto
  next
    case (Some i)
    let ?ref = "fst (path_map_try_apply (replace_regex env) path_map (pdb_name i))"
    show ?thesis
    proof (cases "is_absolute ?ref \<and> check_pdb env files ?ref info = valid_pdb")
      case True
      with assms Some show ?thesis by (auto simp: find_or_retrieve_pdb_def Let_def)
    next
      case False
      with assms Some have "find_by_name env module_path info opts (reference_name ?ref) files = (p, files')"
        by (auto simp: find_or_retrieve_pdb_def Let_def)
      from by_name [OF this] Some show ?thesis by (simp add: Let_def)
    qed
  qed
qed

section \<open>Example\<close>

text \<open>A server has the PDB.\<close>

definition example_info :: pdb_info where
  "example_info = \<lparr>pdb_name = ''app.pdb'', pdb_guid = \<lparr>guid_data_1 = 1, guid_data_2 = 2, guid_data_3 = 3,
     guid_data_4 = [0, 1, 2, 3, 4, 5, 6, 7]\<rparr>, pdb_age = 1\<rparr>"

definition example_env :: "(nat, unit) pdb_env" where
  "example_env = \<lparr>curl_perform = (\<lambda>url. Some \<lparr>result_code = Curl_ok, curl_message = [], http_code = 200, curl_body = Some 1\<rparr>),
     is_pdb_file = (\<lambda>f. f = 1), pdb_file_guid = (\<lambda>f. Some (pdb_guid example_info)), image_pdb_info = (\<lambda>f. None),
     load_pdb = (\<lambda>f. Some ()), function_symbol = (\<lambda>s a. None), public_symbol = (\<lambda>s a. None),
     lines_at = (\<lambda>s a n. None), llvm_demangle = (\<lambda>n. n), replace_regex = (\<lambda>i p r. i)\<rparr>"

definition example_pdb_options :: pdb_symbol_find_options where
  "example_pdb_options = \<lparr>search_dirs = [''/symbols''], symbol_cache_dir = ''/cache'', symbol_server_urls = [''http://server'']\<rparr>"

theorem found_pdb_is_valid_witness:
  "\<exists>path files'. find_or_retrieve_pdb example_env ''/bin/app.exe'' (Some example_info) example_pdb_options [] Map.empty =
     (Some path, files') \<and> check_pdb example_env files' path (Some example_info) = valid_pdb \<and> files' ''/bin/app.exe'' = None"
proof -
  let ?cached = "pdb_cache_path example_pdb_options (reference_name ''app.pdb'') example_info"
  have path: "take 6 ?cached = ''/cache''"
    by (simp add: pdb_cache_path_def path_join_def example_pdb_options_def)
  obtain p files' where run: "find_or_retrieve_pdb example_env ''/bin/app.exe'' (Some example_info) example_pdb_options [] Map.empty = (p, files')"
    by fastforce
  moreover have "p \<noteq> None"
    using run
    by (auto simp: find_or_retrieve_pdb_def find_by_name_def retrieve_pdb_def try_download_file_def check_pdb_def Let_def
        example_env_def example_pdb_options_def split: if_splits)
  then obtain path where p: "p = Some path" by blast
  moreover have "take 6 ''/bin/app.exe'' \<noteq> take 6 ?cached" unfolding path by simp
  then have "''/bin/app.exe'' \<noteq> ?cached" by metis
  ultimately show ?thesis
    using found_pdb_is_valid [OF run] by (intro exI [of _ path] exI [of _ files']) (simp add: Let_def example_info_def)
qed

end
