(* ===== verification/EtlFile.thy ===== *)
theory EtlFile
  imports EtlTraces Decompress SampleMerge PdbResolver
begin

text \<open>
  Reading Event Trace Log files: \<open>snail/etl/etl_file.cpp\<close>. The file is a sequence of buffers, each of one
  processor; opening reads the header in the first one, processing gives all traces to an observer: those of a
  processor in the order of its buffers, the processors merged by the times of their next traces. The
  progress that is reported on the way is left out.
\<close>

section \<open>Opening\<close>

definition from_nt_timestamp :: "u64 \<Rightarrow> error + int" where
  "from_nt_timestamp t =
     (let unix = sint t - 116444736000000000 in if unix < - (2 ^ 63) then Inl Undefined else Inr unix)"

definition compression_format_of :: "u32 \<Rightarrow> compression_format" where
  "compression_format_of state =
     (let f = state AND 0xFFFF in
      if f = 0 then No_compression else if f = 2 then Lznt1 else if f = 3 then Xpress else if f = 4 then Xpress_huff
      else Other_compression (ucast f))"

definition invalid_etl :: "string \<Rightarrow> error" where "invalid_etl what = Throw (''Invalid ETL file: '' @ what)"

definition min_buffer_size :: nat where "min_buffer_size = buffer_header_size + trace_static_size System_trace"

text \<open>\<open>event_trace_v2_header_event_view\<close> and what \<open>open\<close> keeps of it.\<close>

definition header_event_view :: "u32 \<Rightarrow> u64 \<Rightarrow> u8 list \<Rightarrow> error + etl_header_data" where
  "header_event_view state ticks b =
     bind_result (u32_at b 44) (\<lambda>pointer_size. let pointers = 2 * unat pointer_size in
     bind_result (u32_at b 32) (\<lambda>log_file_mode.
     bind_result (u64_at b (248 + pointers)) (\<lambda>start_time.
     bind_result (from_nt_timestamp start_time) (\<lambda>start_sys.
     bind_result (u64_at b 16) (\<lambda>end_time.
     bind_result (from_nt_timestamp end_time) (\<lambda>end_sys.
     bind_result (u64_at b (240 + pointers)) (\<lambda>perf_freq.
     bind_result (u32_at b 12) (\<lambda>number_of_processors.
     bind_result (u32_at b 36) (\<lambda>buffers_written.
     bind_result (u32_at b 0) (\<lambda>buffer_size.
       Inr \<lparr>ed_start_time = start_sys, ed_end_time = end_sys, ed_start_time_qpc_ticks = ticks,
         ed_qpc_frequency = perf_freq, ed_pointer_size = pointer_size, ed_number_of_processors = number_of_processors,
         ed_number_of_buffers = buffers_written, ed_buffer_size = buffer_size, ed_log_file_mode = log_file_mode,
         ed_compression_format = (if bit log_file_mode 26 then compression_format_of state else No_compression)\<rparr>))))))))))"

definition read_header_record :: "u32 \<Rightarrow> u8 list \<Rightarrow> error + etl_header_data" where
  "read_header_record state b =
     bind_result (u8_at b 3) (\<lambda>flags.
     if \<not> valid_marker flags then Inl (invalid_etl ''invalid trace marker'')
     else bind_result (u8_at b 2) (\<lambda>header_type.
     if header_type \<noteq> 1 \<and> header_type \<noteq> 2 then Inl (invalid_etl ''invalid trace header type'')
     else bind_result (u8_at b 7) (\<lambda>g. bind_result (u8_at b 6) (\<lambda>t. bind_result (u16_at b 0) (\<lambda>v.
     if g \<noteq> 0 \<or> t \<noteq> 0 \<or> v \<noteq> 2 then Inl (invalid_etl ''invalid initial event trace header record.'')
     else bind_result (subspan_from (trace_static_size System_trace) b) (\<lambda>event.
          bind_result (u64_at b 16) (\<lambda>ticks. header_event_view state ticks event)))))))"

text \<open>\<open>tellg\<close> is -1 once the stream has failed.\<close>

definition tell :: "fstream \<Rightarrow> int" where
  "tell s = (if fs_good s then int (fs_position s) else -1)"

definition open_etl :: "u8 list option \<Rightarrow> error + etl_header_data \<times> fstream" where
  "open_etl disk =
     (case disk of
        None \<Rightarrow> Inl (Throw ''Could not open file'')
      | Some content \<Rightarrow>
          (case stream_read buffer_header_size \<lparr>fs_content = content, fs_position = 0, fs_good = True\<rparr> of
             (bs, s1) \<Rightarrow>
               if tell s1 < int buffer_header_size then Inl (invalid_etl ''insufficient size for buffer header'')
               else bind_result (buffer_header_view bs) (\<lambda>bh.
                 if bh_buffer_type bh \<noteq> 4 then Inl (invalid_etl ''invalid buffer header type'')
                 else if bh_compressed bh then Inl (invalid_etl ''header buffer should not be compressed'')
                 else if unat (bh_buffer_size bh) < min_buffer_size
                 then Inl (invalid_etl (''invalid header buffer size. Is '' @ dec (unat (bh_buffer_size bh)) @
                   '' but should be at least '' @ dec min_buffer_size @ ''.''))
                 else case stream_read (unat (bh_buffer_size bh) - buffer_header_size) s1 of
                   (b, s2) \<Rightarrow>
                     if tell s2 < int min_buffer_size then Inl (invalid_etl ''insufficient size for buffer'')
                     else bind_result (read_header_record (bh_state bh) b) (\<lambda>fh. Inr (fh, stream_seek 0 s2)))))"

section \<open>Observers\<close>

text \<open>\<open>event_observer\<close>: the state of an observer and what it does with buffers and traces.\<close>

record 's etl_observer =
  on_buffer :: "etl_header_data \<Rightarrow> buffer_header \<Rightarrow> 's \<Rightarrow> error + 's"
  on_trace :: "etl_header_data \<Rightarrow> etl_trace \<Rightarrow> 's \<Rightarrow> error + 's"

section \<open>Buffers of processors\<close>

record file_buffer_info =
  fb_start_pos :: nat
  fb_sequence_number :: int

record processor_data =
  pr_buffer :: "u8 list"
  pr_payload :: "u8 list"
  pr_offset :: nat
  pr_remaining :: "file_buffer_info list"

definition new_processor :: processor_data where
  "new_processor = \<lparr>pr_buffer = [], pr_payload = [], pr_offset = 0, pr_remaining = []\<rparr>"

text \<open>The first pass notes where the buffers of each processor are. An index that is the number of the processors
  passes the check, and is outside of the vector.\<close>

definition collect_buffer ::
  "etl_header_data \<Rightarrow> nat \<Rightarrow> fstream \<times> processor_data list \<Rightarrow> error + fstream \<times> processor_data list" where
  "collect_buffer fh buffer_index = (\<lambda>(s, prs).
     case stream_read buffer_header_size s of
       (bs, s1) \<Rightarrow>
         if tell s1 - tell s < int buffer_header_size
         then Inl (invalid_etl (''insufficient size for buffer header (index '' @ dec buffer_index @ ''). Expected '' @
           dec buffer_header_size @ '' but read only '' @ int_text (tell s1 - tell s) @ ''.''))
         else bind_result (buffer_header_view bs) (\<lambda>bh.
           if bh_sequence_number bh > uint (ed_number_of_buffers fh)
           then Inl (invalid_etl (''invalid header sequence value. Expected at max '' @ dec (unat (ed_number_of_buffers fh)) @
             '' buffers but sequence number is '' @ int_text (bh_sequence_number bh) @ ''.''))
           else if bh_buffer_size bh > ed_buffer_size fh
           then Inl (Throw (''Unsupported ETL file: buffer size ('' @ dec buffer_index @ '') has buffer size '' @
             dec (unat (bh_buffer_size bh)) @ '' but size according to header event is '' @ dec (unat (ed_buffer_size fh))))
           else let i = unat (bh_processor_index bh) in
             if i > unat (ed_number_of_processors fh)
             then Inl (invalid_etl (''invalid processor index. Expected at max '' @ dec (unat (ed_number_of_processors fh)) @
               '' processors but process index is '' @ dec i @ ''.''))
             else if i \<ge> length prs then Inl Undefined
             else Inr (stream_seek (fs_position s + unat (bh_buffer_size bh)) s1,
               prs[i := (prs ! i)\<lparr>pr_remaining := pr_remaining (prs ! i) @
                 [\<lparr>fb_start_pos = fs_position s, fb_sequence_number = bh_sequence_number bh\<rparr>]\<rparr>])))"

text \<open>\<open>None\<close> if the process is canceled; \<open>canceled\<close> tells that of each time it is asked.\<close>

fun collect_buffers ::
  "etl_header_data \<Rightarrow> (nat \<Rightarrow> bool) \<Rightarrow> nat \<Rightarrow> nat \<Rightarrow> fstream \<times> processor_data list \<Rightarrow>
   error + (fstream \<times> processor_data list) option" where
  "collect_buffers fh canceled 0 buffer_index st = Inr (Some st)"
| "collect_buffers fh canceled (Suc n) buffer_index st =
     (if canceled buffer_index then Inr None
      else bind_result (collect_buffer fh buffer_index st) (collect_buffers fh canceled n (Suc buffer_index)))"

subsection \<open>Reading a buffer\<close>

text \<open>The stream, and the vector for compressed data, which keeps what it has from before.\<close>

record reading =
  rs_stream :: fstream
  rs_temp :: "u8 list"

definition overwrite :: "nat \<Rightarrow> 'a list \<Rightarrow> 'a list \<Rightarrow> 'a list" where
  "overwrite off xs ys = take off ys @ xs @ drop (off + length xs) ys"

text \<open>Read what is behind the header of a buffer: into the buffer itself, or into the temporary one.\<close>

definition read_rest :: "nat \<Rightarrow> buffer_header \<Rightarrow> u8 list \<Rightarrow> reading \<Rightarrow> error + u8 list \<times> reading" where
  "read_rest start bh data w =
     (let size = unat (bh_buffer_size bh); saved = unat (bh_saved_offset bh) in
      if \<not> bh_compressed bh
      then if saved > size
        then Inl (invalid_etl (''buffer offset ('' @ dec saved @ '') exceeds buffer size ('' @ dec size @ '').''))
        else if size < buffer_header_size then Inl Undefined
        else case stream_read (size - buffer_header_size) (rs_stream w) of
          (bs, s1) \<Rightarrow> if buffer_header_size + length bs > length data then Inl Undefined
            else Inr (overwrite buffer_header_size bs data, w\<lparr>rs_stream := s1\<rparr>)
      else if size < buffer_header_size then Inl (Throw ''vector::_M_default_append'')
      else let n = size - buffer_header_size in
        case stream_read n (rs_stream w) of
          (bs, s1) \<Rightarrow>
            Inr (data, \<lparr>rs_stream = s1,
              rs_temp = overwrite 0 bs (take n (rs_temp w) @ replicate (n - length (rs_temp w)) 0)\<rparr>))"

text \<open>The number of the bytes behind the header that were read is unsigned, so it is huge if the stream has failed.\<close>

definition check_rest :: "nat \<Rightarrow> buffer_header \<Rightarrow> fstream \<Rightarrow> error + unit" where
  "check_rest start bh s =
     (let expected = (uint (bh_buffer_size bh) - int buffer_header_size) mod 2 ^ 64;
          got = (tell s - int start - int buffer_header_size) mod 2 ^ 64 in
      if got < expected
      then Inl (invalid_etl (''insufficient size for buffer payload. Expected '' @ int_text expected @
        '' but read only '' @ int_text got @ ''.''))
      else Inr ())"

definition unpack_payload ::
  "etl_header_data \<Rightarrow> buffer_header \<Rightarrow> u8 list \<Rightarrow> u8 list \<Rightarrow> error + u8 list \<times> u8 list" where
  "unpack_payload fh bh data temp =
     bind_result (subspan_difference buffer_header_size (unat (bh_saved_offset bh)) buffer_header_size data) (\<lambda>payload.
       if \<not> bh_compressed bh then Inr (payload, data)
       else bind_result (ms_xca_decompress temp (length payload) (ed_compression_format fh)) (\<lambda>out.
         let payload_size = (uint (bh_saved_offset bh) - int buffer_header_size) mod 2 ^ 64 in
         if int (length out) \<noteq> payload_size
         then Inl (invalid_etl (''uncompressed size does not patch payload size. Expected '' @ int_text payload_size @
           '' but got '' @ dec (length out) @ ''.''))
         else Inr (out, overwrite buffer_header_size out data)))"

definition read_buffer ::
  "'s etl_observer \<Rightarrow> etl_header_data \<Rightarrow> processor_data \<Rightarrow> reading \<Rightarrow> 's \<Rightarrow> error + processor_data \<times> reading \<times> 's" where
  "read_buffer ob fh pr w c =
     (let start = fb_start_pos (last (pr_remaining pr)); data = pr_buffer pr in
      case stream_read buffer_header_size (stream_seek start (rs_stream w)) of
        (bs, s1) \<Rightarrow>
          if length bs > length data then Inl Undefined
          else if tell s1 - int start < int buffer_header_size
          then Inl (invalid_etl (''insufficient size for buffer header. Expected '' @ dec buffer_header_size @
            '' but read only '' @ int_text (tell s1 - int start) @ ''.''))
          else let data1 = overwrite 0 bs data in
            bind_result (subspan 0 buffer_header_size data1) (\<lambda>header.
            bind_result (buffer_header_view header) (\<lambda>bh.
            bind_result (on_buffer ob fh bh c) (\<lambda>c1.
              if unat (bh_saved_offset bh) > length data
              then Inl (invalid_etl (''buffer offset ('' @ dec (unat (bh_saved_offset bh)) @
                '') exceeds maximum buffer size ('' @ dec (length data) @ '').''))
              else bind_result (read_rest start bh data1 (w\<lparr>rs_stream := s1\<rparr>)) (\<lambda>(data2, w2).
                bind_result (check_rest start bh (rs_stream w2)) (\<lambda>_.
                bind_result (unpack_payload fh bh data2 (rs_temp w2)) (\<lambda>(payload, data3).
                  Inr (\<lparr>pr_buffer = data3, pr_payload = payload, pr_offset = 0,
                    pr_remaining = butlast (pr_remaining pr)\<rparr>, w2, c1))))))))"

section \<open>Processing\<close>

text \<open>Before a processor's first trace: sort its buffers and read the first. \<open>sort_buffers\<close> sorts by
  falling sequence numbers; \<open>std::sort\<close> leaves open in which order equal ones come.\<close>

definition sort_spec :: "(file_buffer_info list \<Rightarrow> file_buffer_info list) \<Rightarrow> bool" where
  "sort_spec sort_buffers \<longleftrightarrow>
     (\<forall>bs. mset (sort_buffers bs) = mset bs \<and> sorted (rev (map fb_sequence_number (sort_buffers bs))))"

definition current_bytes :: "processor_data \<Rightarrow> error + u8 list" where
  "current_bytes pr = subspan_from (pr_offset pr) (pr_payload pr)"

definition next_event_time :: "processor_data \<Rightarrow> error + u64" where
  "next_event_time pr = bind_result (current_bytes pr) peak_next_event_time"

definition start_processor ::
  "'s etl_observer \<Rightarrow> (file_buffer_info list \<Rightarrow> file_buffer_info list) \<Rightarrow> etl_header_data \<Rightarrow>
   processor_data \<Rightarrow> reading \<Rightarrow> 's \<Rightarrow> error + processor_data \<times> reading \<times> 's \<times> u64" where
  "start_processor ob sort_buffers fh pr w c =
     bind_result (read_buffer ob fh (pr\<lparr>pr_remaining := sort_buffers (pr_remaining pr),
         pr_buffer := replicate (unat (ed_buffer_size fh)) 0\<rparr>) w c) (\<lambda>(pr1, w1, c1).
       bind_result (next_event_time pr1) (\<lambda>t. Inr (pr1, w1, c1, t)))"

fun start_processors ::
  "'s etl_observer \<Rightarrow> (file_buffer_info list \<Rightarrow> file_buffer_info list) \<Rightarrow> etl_header_data \<Rightarrow> (nat \<Rightarrow> bool) \<Rightarrow>
   nat list \<Rightarrow> sample_queue \<Rightarrow> processor_data list \<Rightarrow> reading \<Rightarrow> 's \<Rightarrow>
   error + (sample_queue \<times> processor_data list \<times> reading) option \<times> 's" where
  "start_processors ob sort_buffers fh canceled [] q prs w c = Inr (Some (q, prs, w), c)"
| "start_processors ob sort_buffers fh canceled (i # is) q prs w c =
     (if canceled i then Inr (None, c)
      else if pr_remaining (prs ! i) = [] then start_processors ob sort_buffers fh canceled is q prs w c
      else bind_result (start_processor ob sort_buffers fh (prs ! i) w c) (\<lambda>(pr, w1, c1, t).
        start_processors ob sort_buffers fh canceled is (q @ [(t, i)]) (prs[i := pr]) w1 c1))"

text \<open>One trace of a processor, and its next buffer if that one is exhausted; whether there is more.\<close>

definition advance ::
  "'s etl_observer \<Rightarrow> etl_header_data \<Rightarrow> processor_data \<Rightarrow> reading \<Rightarrow> 's \<Rightarrow>
   error + processor_data \<times> reading \<times> 's \<times> bool" where
  "advance ob fh pr w c =
     bind_result (current_bytes pr) (\<lambda>bytes.
     bind_result (next_trace bytes) (\<lambda>(tr, n).
     bind_result (on_trace ob fh tr c) (\<lambda>c1.
       let pr1 = pr\<lparr>pr_offset := pr_offset pr + n\<rparr> in
       if pr_offset pr1 \<ge> length (pr_payload pr1)
       then if pr_remaining pr1 = [] then Inr (pr1, w, c1, False)
         else bind_result (read_buffer ob fh pr1 w c1) (\<lambda>(pr2, w2, c2). Inr (pr2, w2, c2, True))
       else Inr (pr1, w, c1, True))))"

lemma next_trace_parts:
  assumes "next_trace bytes = Inr (tr, n)"
  obtains k extended header m user where
    "next_trace_kind bytes = Inr k" "subspan 0 (trace_static_size k + extended) bytes = Inr header"
    "subspan_difference (length header) m (length header) bytes = Inr user"
    "tr = \<lparr>tr_kind = k, tr_header = header, tr_user_data = user\<rparr>" "n = align8 m"
  using assms by (auto simp: next_trace_def split_trace_def bind_result_Inr)

lemma trace_static_size_ge: "16 \<le> trace_static_size k"
  by (cases k) (simp_all add: trace_static_size_def)

lemma subspan_length: "subspan off n bytes = Inr xs \<Longrightarrow> length xs = n"
  by (auto simp: subspan_def split: if_splits)

lemma align8_ge: "m \<le> align8 m"
  unfolding align8_def by presburger

lemma subspan_difference_ge: "subspan_difference off m b bytes = Inr xs \<Longrightarrow> b \<le> Suc m"
  by (simp add: subspan_difference_def split: if_splits)

lemma next_trace_pos:
  assumes "next_trace bytes = Inr (tr, n)"
  shows "0 < n"
proof -
  obtain k extended header m user where p: "subspan 0 (trace_static_size k + extended) bytes = Inr header"
    "subspan_difference (length header) m (length header) bytes = Inr user" "n = align8 m"
    using assms by (rule next_trace_parts)
  have "15 \<le> m" using subspan_difference_ge [OF p(2)] subspan_length [OF p(1)] trace_static_size_ge [of k] by simp
  then show ?thesis using align8_ge [of m] p(3) by simp
qed

lemma read_buffer_steps:
  assumes "read_buffer ob fh pr w c = Inr (pr1, w1, c1)"
  obtains bs s1 bh data2 payload data3 where
    "stream_read buffer_header_size (stream_seek (fb_start_pos (last (pr_remaining pr))) (rs_stream w)) = (bs, s1)"
    "subspan 0 buffer_header_size (overwrite 0 bs (pr_buffer pr)) = Inr (take buffer_header_size (overwrite 0 bs (pr_buffer pr)))"
    "buffer_header_view (take buffer_header_size (overwrite 0 bs (pr_buffer pr))) = Inr bh"
    "on_buffer ob fh bh c = Inr c1"
    "read_rest (fb_start_pos (last (pr_remaining pr))) bh (overwrite 0 bs (pr_buffer pr)) (w\<lparr>rs_stream := s1\<rparr>) = Inr (data2, w1)"
    "unpack_payload fh bh data2 (rs_temp w1) = Inr (payload, data3)"
    "pr1 = \<lparr>pr_buffer = data3, pr_payload = payload, pr_offset = 0, pr_remaining = butlast (pr_remaining pr)\<rparr>"
proof -
  obtain bs s1 where r: "stream_read buffer_header_size (stream_seek (fb_start_pos (last (pr_remaining pr))) (rs_stream w)) = (bs, s1)"
    by (metis prod.exhaust)
  obtain header bh where h: "subspan 0 buffer_header_size (overwrite 0 bs (pr_buffer pr)) = Inr header"
    "buffer_header_view header = Inr bh" "on_buffer ob fh bh c = Inr c1"
    and k: "bind_result (read_rest (fb_start_pos (last (pr_remaining pr))) bh (overwrite 0 bs (pr_buffer pr)) (w\<lparr>rs_stream := s1\<rparr>))
      (\<lambda>(data2, w2). bind_result (check_rest (fb_start_pos (last (pr_remaining pr))) bh (rs_stream w2)) (\<lambda>_.
        bind_result (unpack_payload fh bh data2 (rs_temp w2)) (\<lambda>(payload, data3).
          Inr (\<lparr>pr_buffer = data3, pr_payload = payload, pr_offset = 0, pr_remaining = butlast (pr_remaining pr)\<rparr>, w2, c1)))) =
      Inr (pr1, w1, c1)"
    using assms unfolding read_buffer_def Let_def r prod.case
    by (auto simp: bind_result_Inr split: if_splits prod.splits)
  have "header = take buffer_header_size (overwrite 0 bs (pr_buffer pr))" using h(1) by (simp add: subspan_def split: if_splits)
  then show ?thesis using h k by (auto simp: bind_result_Inr intro: that [OF r])
qed

lemma read_buffer_remaining: "read_buffer ob fh pr w c = Inr (pr1, w1, c1) \<Longrightarrow> pr_remaining pr1 = butlast (pr_remaining pr)"
  by (erule read_buffer_steps) simp

definition left_to_read :: "processor_data \<Rightarrow> nat" where
  "left_to_read pr = length (pr_payload pr) - pr_offset pr"

lemma advance_cases:
  assumes "advance ob fh pr w c = Inr (pr1, w1, c1, goes_on)"
  obtains bytes tr n c0 where "current_bytes pr = Inr bytes" "next_trace bytes = Inr (tr, n)" "on_trace ob fh tr c = Inr c0"
    "(if pr_offset pr + n < length (pr_payload pr)
      then (pr1, w1, c1, goes_on) = (pr\<lparr>pr_offset := pr_offset pr + n\<rparr>, w, c0, True)
      else if pr_remaining pr = [] then (pr1, w1, c1, goes_on) = (pr\<lparr>pr_offset := pr_offset pr + n\<rparr>, w, c0, False)
      else read_buffer ob fh (pr\<lparr>pr_offset := pr_offset pr + n\<rparr>) w c0 = Inr (pr1, w1, c1) \<and> goes_on)"
proof -
  obtain bytes tr n c0 where b: "current_bytes pr = Inr bytes" "next_trace bytes = Inr (tr, n)" "on_trace ob fh tr c = Inr c0"
    using assms by (auto simp: advance_def bind_result_Inr)
  show ?thesis
    by (rule that [OF b]) (use assms in \<open>auto simp: advance_def b Let_def bind_result_Inr not_le split: if_splits\<close>)
qed

lemma advance_progress:
  assumes "advance ob fh pr w c = Inr (pr1, w1, c1, True)"
  shows "length (pr_remaining pr1) < length (pr_remaining pr) \<or>
    length (pr_remaining pr1) = length (pr_remaining pr) \<and> left_to_read pr1 < left_to_read pr"
proof -
  obtain bytes tr n c0 where b: "next_trace bytes = Inr (tr, n)"
    "(if pr_offset pr + n < length (pr_payload pr)
      then (pr1, w1, c1, True) = (pr\<lparr>pr_offset := pr_offset pr + n\<rparr>, w, c0, True)
      else if pr_remaining pr = [] then (pr1, w1, c1, True) = (pr\<lparr>pr_offset := pr_offset pr + n\<rparr>, w, c0, False)
      else read_buffer ob fh (pr\<lparr>pr_offset := pr_offset pr + n\<rparr>) w c0 = Inr (pr1, w1, c1) \<and> True)"
    using assms by (rule advance_cases)
  show ?thesis
    using b(2) next_trace_pos [OF b(1)] by (auto simp: left_to_read_def dest!: read_buffer_remaining split: if_splits)
qed

text \<open>The inner loop: one processor, until the next trace of another one is earlier.\<close>

function run_processor ::
  "'s etl_observer \<Rightarrow> etl_header_data \<Rightarrow> (sample_queue \<Rightarrow> nat) \<Rightarrow> sample_queue \<Rightarrow> processor_data \<Rightarrow> reading \<Rightarrow> 's \<Rightarrow>
   error + processor_data \<times> reading \<times> 's \<times> u64 option" where
  "run_processor ob fh top_index q pr w c =
     (case advance ob fh pr w c of
        Inl e \<Rightarrow> Inl e
      | Inr (pr1, w1, c1, False) \<Rightarrow> Inr (pr1, w1, c1, None)
      | Inr (pr1, w1, c1, True) \<Rightarrow>
          (case next_event_time pr1 of
             Inl e \<Rightarrow> Inl e
           | Inr t \<Rightarrow>
               if q \<noteq> [] \<and> fst (q ! top_index q) < t then Inr (pr1, w1, c1, Some t)
               else run_processor ob fh top_index q pr1 w1 c1))"
  by pat_completeness auto
termination
  by (relation "(\<lambda>(_, _, _, _, pr, _, _). length (pr_remaining pr)) <*mlex*>
        measure (\<lambda>(_, _, _, _, pr, _, _). left_to_read pr)")
    (auto simp: mlex_prod_def dest!: advance_progress)

declare run_processor.simps [simp del]

partial_function (option) run_queue ::
  "'s etl_observer \<Rightarrow> etl_header_data \<Rightarrow> (sample_queue \<Rightarrow> nat) \<Rightarrow> (nat \<Rightarrow> bool) \<Rightarrow> nat \<Rightarrow>
   sample_queue \<Rightarrow> processor_data list \<Rightarrow> reading \<Rightarrow> 's \<Rightarrow> (error + 's) option" where
  "run_queue ob fh top_index canceled k q prs w c =
     (if q = [] \<or> canceled k then Some (Inr c)
      else let i = snd (q ! top_index q); q1 = remove_nth (top_index q) q in
        case run_processor ob fh top_index q1 (prs ! i) w c of
          Inl e \<Rightarrow> Some (Inl e)
        | Inr (pr, w1, c1, r) \<Rightarrow>
            run_queue ob fh top_index canceled (Suc k) (case r of None \<Rightarrow> q1 | Some t \<Rightarrow> q1 @ [(t, i)]) (prs[i := pr]) w1 c1)"

text \<open>\<open>etl_file::process\<close>. The cancellation is asked for by the three loops one after the other.\<close>

definition process_etl ::
  "'s etl_observer \<Rightarrow> (file_buffer_info list \<Rightarrow> file_buffer_info list) \<Rightarrow> (sample_queue \<Rightarrow> nat) \<Rightarrow> (nat \<Rightarrow> bool) \<Rightarrow>
   etl_header_data \<Rightarrow> fstream \<Rightarrow> 's \<Rightarrow> (error + 's) option" where
  "process_etl ob sort_buffers top_index canceled fh s c =
     (let n = unat (ed_number_of_buffers fh); m = unat (ed_number_of_processors fh) in
      case collect_buffers fh canceled n 0 (s, replicate m new_processor) of
        Inl e \<Rightarrow> Some (Inl e)
      | Inr None \<Rightarrow> Some (Inr c)
      | Inr (Some (s1, prs)) \<Rightarrow>
          (case start_processors ob sort_buffers fh (\<lambda>i. canceled (n + i)) [0..<m] [] prs \<lparr>rs_stream = s1, rs_temp = []\<rparr> c of
             Inl e \<Rightarrow> Some (Inl e)
           | Inr (None, c1) \<Rightarrow> Some (Inr c1)
           | Inr (Some (q, prs1, w), c1) \<Rightarrow> run_queue ob fh top_index (\<lambda>k. canceled (n + m + k)) 0 q prs1 w c1))"

end
