(* ===== verification/EtlFinish.thy ===== *)
theory EtlFinish
  imports EtlContext
begin

text \<open>
  \<open>finish\<close> of \<open>snail/analysis/detail/etl_file_process_context.cpp\<close>, and its accessors: unique ids, threads of
  processes, paths of modules, names of sources, the counts that still wait, and the processes to show. The
  iteration orders of the unordered maps are arguments.
\<close>

section \<open>Ids\<close>

fun number_processes :: "nat \<Rightarrow> (u32, u64, etl_process) history_entry list \<Rightarrow> (u32, u64, etl_process) history_entry list" where
  "number_processes n [] = []"
| "number_processes n (e # es) = e\<lparr>payload := (payload e)\<lparr>ep_unique_id := Some n\<rparr>\<rparr> # number_processes (Suc n) es"

fun number_threads :: "nat \<Rightarrow> (u32, u64, etl_thread) history_entry list \<Rightarrow> (u32, u64, etl_thread) history_entry list" where
  "number_threads n [] = []"
| "number_threads n (e # es) = e\<lparr>payload := (payload e)\<lparr>et_unique_id := Some n\<rparr>\<rparr> # number_threads (Suc n) es"

text \<open>The entries of one id: their keys, and for a process an empty set of threads each and its modules.\<close>

definition number_keys :: "nat \<Rightarrow> u32 \<Rightarrow> (u32, u64, 'd) history_entry list \<Rightarrow> (nat \<rightharpoonup> perf_key) \<Rightarrow> (nat \<rightharpoonup> perf_key)" where
  "number_keys n i es keys = foldl (\<lambda>keys k. keys(n + k \<mapsto> (i, timestamp (es ! k)))) keys [0..<length es]"

definition number_process_id :: "nat \<times> etl_context \<Rightarrow> u32 \<Rightarrow> nat \<times> etl_context" where
  "number_process_id = (\<lambda>(n, c) i.
     let es = history_entries (ec_processes c) i in
     (n + length es, c\<lparr>ec_processes := (ec_processes c)(i \<mapsto> number_processes n es),
        ec_process_keys := number_keys n i es (ec_process_keys c),
        ec_threads_per_process := foldl (\<lambda>m k. m(n + k \<mapsto> (case m (n + k) of None \<Rightarrow> [] | Some ts \<Rightarrow> ts)))
          (ec_threads_per_process c) [0..<length es],
        ec_modules := (ec_modules c)(i \<mapsto> (case ec_modules c i of None \<Rightarrow> mm_empty | Some m \<Rightarrow> m))\<rparr>))"

definition number_thread_id :: "nat \<times> etl_context \<Rightarrow> u32 \<Rightarrow> nat \<times> etl_context" where
  "number_thread_id = (\<lambda>(n, c) i.
     let es = history_entries (ec_threads c) i in
     (n + length es, c\<lparr>ec_threads := (ec_threads c)(i \<mapsto> number_threads n es),
        ec_thread_keys := number_keys n i es (ec_thread_keys c)\<rparr>))"

definition assign_etl_ids :: "key_order \<Rightarrow> etl_context \<Rightarrow> etl_context" where
  "assign_etl_ids ord c =
     (let c1 = snd (foldl number_process_id (first_process_id, c) (ord 0 (dom (ec_processes c))))
      in snd (foldl number_thread_id (first_thread_id, c1) (ord 1 (dom (ec_threads c1)))))"

definition connect_etl_thread :: "u32 \<Rightarrow> etl_context \<Rightarrow> perf_key \<Rightarrow> etl_context" where
  "connect_etl_thread pid c key =
     (case history_find_at (ec_processes c) pid (snd key) False of
        None \<Rightarrow> c
      | Some p \<Rightarrow>
          (case history_find_at (ec_threads c) (fst key) (snd key) False of
             None \<Rightarrow> c
           | Some t \<Rightarrow> c\<lparr>ec_threads_per_process := add_to_set (the (ep_unique_id (payload p))) (the (et_unique_id (payload t)))
               (ec_threads_per_process c)\<rparr>))"

definition connect_etl_threads :: "key_order \<Rightarrow> etl_context \<Rightarrow> etl_context" where
  "connect_etl_threads ord c =
     foldl (\<lambda>c pid. foldl (connect_etl_thread pid) c (the (ec_threads_per_process_id c pid))) c
       (ord 2 (dom (ec_threads_per_process_id c)))"

section \<open>Paths\<close>

abbreviation (input) backslash :: char where "backslash \<equiv> CHR 0x5C"

definition nt_drive_name_prefix :: string where
  "nt_drive_name_prefix = backslash # ''Device'' @ backslash # ''HarddiskVolume''"

definition nt_system_root_name_prefix :: string where
  "nt_system_root_name_prefix = backslash # ''SystemRoot'' @ [backslash]"

definition default_system_root :: string where
  "default_system_root = ''C:'' @ backslash # ''WINDOWS'' @ [backslash]"

text \<open>A number of 32 bits that is the whole string.\<close>

definition from_chars_all :: "string \<Rightarrow> u32 option" where
  "from_chars_all s =
     (if s \<noteq> [] \<and> list_all is_digit s \<and> digits_value s < 2 ^ 32 then Some (of_nat (digits_value s)) else None)"

definition starts_with :: "string \<Rightarrow> string \<Rightarrow> bool" where
  "starts_with s p \<longleftrightarrow> take (length p) s = p"

definition map_drive_path :: "(u32 \<rightharpoonup> string) \<Rightarrow> string \<Rightarrow> string" where
  "map_drive_path volumes path =
     (let tail = drop (length nt_drive_name_prefix) path;
          number = takeWhile (\<lambda>ch. ch \<noteq> backslash) tail
      in case from_chars_all number of
           None \<Rightarrow> path
         | Some n \<Rightarrow> (case volumes n of None \<Rightarrow> path | Some volume \<Rightarrow> volume @ drop (length number) tail))"

definition map_nt_path :: "(string set \<Rightarrow> string list) \<Rightarrow> etl_context \<Rightarrow> string \<Rightarrow> string" where
  "map_nt_path path_ord c path =
     (case (if starts_with path [backslash] then List.find (starts_with path) (path_ord (dom (ec_nt_to_dos c))) else None) of
        Some nt_prefix \<Rightarrow> the (ec_nt_to_dos c nt_prefix) @ drop (length nt_prefix) path
      | None \<Rightarrow>
          if starts_with path nt_drive_name_prefix then map_drive_path (ec_partition_volumes c) path
          else if starts_with path nt_system_root_name_prefix
          then (case ec_system_root c of None \<Rightarrow> default_system_root | Some r \<Rightarrow> r) @ drop (length nt_system_root_name_prefix) path
          else path)"

definition map_module :: "(string \<Rightarrow> string) \<Rightarrow> etl_module module_info \<Rightarrow> etl_module module_info" where
  "map_module g m = m\<lparr>mi_payload := (mi_payload m)\<lparr>em_filename := g (em_filename (mi_payload m))\<rparr>\<rparr>"

definition map_paths :: "(string set \<Rightarrow> string list) \<Rightarrow> etl_context \<Rightarrow> etl_context" where
  "map_paths path_ord c =
     c\<lparr>ec_modules := (\<lambda>pid. map_option (\<lambda>m. m\<lparr>mm_modules := map (map_module (map_nt_path path_ord c)) (mm_modules m)\<rparr>)
         (ec_modules c pid))\<rparr>"

section \<open>Names of sources\<close>

definition unknown_name :: "utf_library \<Rightarrow> u16 \<Rightarrow> error + u16 list" where
  "unknown_name utf src = utf_8to16 utf (''Unknown ('' @ dec (unat src) @ '')'')"

definition name_default_source :: "utf_library \<Rightarrow> key_order \<Rightarrow> etl_context \<Rightarrow> error + etl_context" where
  "name_default_source utf ord c =
     (if ec_source_names c default_timer_pmc_source = None \<and>
         list_ex (\<lambda>tid. the (ec_samples c tid) \<noteq> []) (ord 3 (dom (ec_samples c)))
      then bind_result (unknown_name utf default_timer_pmc_source) (\<lambda>name.
        Inr (c\<lparr>ec_source_names := (ec_source_names c)(default_timer_pmc_source \<mapsto> name)\<rparr>))
      else Inr c)"

text \<open>The first source of a thread without a name gets one; the loop over the sources of the thread ends
  with it.\<close>

definition name_pmc_source :: "utf_library \<Rightarrow> u32 \<Rightarrow> etl_context \<Rightarrow> error + etl_context" where
  "name_pmc_source utf tid c =
     (case List.find (\<lambda>p. ec_source_names c (pss_source p) = None \<and> pss_samples p \<noteq> []) (the (ec_pmc_samples c tid)) of
        None \<Rightarrow> Inr c
      | Some p \<Rightarrow> bind_result (unknown_name utf (pss_source p)) (\<lambda>name.
          Inr (c\<lparr>ec_source_names := (ec_source_names c)(pss_source p \<mapsto> name)\<rparr>)))"

definition name_sources :: "utf_library \<Rightarrow> key_order \<Rightarrow> etl_context \<Rightarrow> error + etl_context" where
  "name_sources utf ord c =
     bind_result (name_default_source utf ord c) (\<lambda>c1.
       fold_result (name_pmc_source utf) (ord 4 (dom (ec_pmc_samples c1))) c1)"

section \<open>Counts that wait\<close>

text \<open>Entries are told apart by their position.\<close>

definition find_index_at :: "('i, 'ts::linorder, 'd) history \<Rightarrow> 'i \<Rightarrow> 'ts \<Rightarrow> nat option" where
  "find_index_at h i t =
     (case h i of
        None \<Rightarrow> None
      | Some es \<Rightarrow> Some (length es - 1 - length (takeWhile (\<lambda>e. \<not> timestamp e \<le> t) (rev es))))"

definition flush_switch_data :: "u32 \<Rightarrow> etl_context \<Rightarrow> etl_context" where
  "flush_switch_data tid c =
     (let d = the (ec_switch_data c tid);
          start_thread = find_index_at (ec_threads c) tid (cs_first_time d);
          end_thread = find_index_at (ec_threads c) tid (cs_last_time d)
      in if start_thread = None \<and> end_thread = None then c
         else if start_thread \<noteq> end_thread then c
         else c\<lparr>ec_threads := history_modify (ec_threads c) tid (cs_first_time d) (add_switch_data d)\<rparr>)"

definition flush_all_switch_data :: "key_order \<Rightarrow> etl_context \<Rightarrow> etl_context" where
  "flush_all_switch_data ord c = fold flush_switch_data (ord 5 (dom (ec_switch_data c))) c"

section \<open>The processes to show\<close>

definition get_etl_process_threads :: "etl_context \<Rightarrow> nat \<Rightarrow> error + nat list" where
  "get_etl_process_threads c p = at_or_throw (ec_threads_per_process c p)"

fun any_thread_sampled :: "etl_context \<Rightarrow> nat list \<Rightarrow> error + bool" where
  "any_thread_sampled c [] = Inr False"
| "any_thread_sampled c (u # us) =
     bind_result (at_or_throw (ec_thread_keys c u)) (\<lambda>key.
       case history_find_at (ec_threads c) (fst key) (snd key) False of
         None \<Rightarrow> any_thread_sampled c us
       | Some t \<Rightarrow>
           if (case ec_samples c (entry_id t) of None \<Rightarrow> False | Some xs \<Rightarrow> xs \<noteq> []) \<or>
              (case ec_pmc_samples c (entry_id t) of None \<Rightarrow> False | Some ps \<Rightarrow> ps \<noteq> [])
           then Inr True else any_thread_sampled c us)"

definition all_processes :: "key_order \<Rightarrow> etl_context \<Rightarrow> (u32, u64, etl_process) history_entry list" where
  "all_processes ord c = concat (map (history_entries (ec_processes c)) (ord 6 (dom (ec_processes c))))"

definition entry_key :: "(u32, u64, 'd) history_entry \<Rightarrow> perf_key" where
  "entry_key e = (entry_id e, timestamp e)"

definition add_sampled_process :: "(u32, u64, etl_process) history_entry \<Rightarrow> etl_context \<Rightarrow> error + etl_context" where
  "add_sampled_process e c =
     bind_result (get_etl_process_threads c (the (ep_unique_id (payload e)))) (\<lambda>us.
     bind_result (any_thread_sampled c us) (\<lambda>has_samples.
       Inr (if has_samples then c\<lparr>ec_profiler_processes := insert (entry_key e) (ec_profiler_processes c)\<rparr> else c)))"

text \<open>The children of the processes, as pairs.\<close>

definition child_of :: "etl_context \<Rightarrow> (u32, u64, etl_process) history_entry \<Rightarrow> (perf_key \<times> perf_key) list" where
  "child_of c e =
     (if ep_image_filename (payload e) = ''conhost.exe'' then []
      else case history_find_at (ec_processes c) (ep_parent_id (payload e)) (timestamp e) False of
        None \<Rightarrow> []
      | Some p \<Rightarrow> [(entry_key p, entry_key e)])"

definition children_per_process :: "key_order \<Rightarrow> etl_context \<Rightarrow> (perf_key \<times> perf_key) list" where
  "children_per_process ord c = concat (map (child_of c) (all_processes ord c))"

definition children_of :: "(perf_key \<times> perf_key) list \<Rightarrow> perf_key \<Rightarrow> perf_key list" where
  "children_of children k = map snd (filter (\<lambda>x. fst x = k) children)"

text \<open>A profiled process may be known by the time its profiling started, not by its own: then the process it
  belongs to is looked up.\<close>

definition children_found ::
  "(u32, u64, etl_process) history \<Rightarrow> (perf_key \<times> perf_key) list \<Rightarrow> perf_key \<Rightarrow> perf_key list" where
  "children_found processes children k =
     (if children_of children k \<noteq> [] then children_of children k
      else case history_find_at processes (fst k) (snd k) False of
        None \<Rightarrow> []
      | Some p \<Rightarrow> children_of children (entry_key p))"

definition new_profiled ::
  "(u32, u64, etl_process) history \<Rightarrow> (perf_key \<times> perf_key) list \<Rightarrow> perf_key set \<Rightarrow> perf_key set \<Rightarrow> perf_key set" where
  "new_profiled processes children profiled previous = (\<Union>k \<in> previous. set (children_found processes children k)) - profiled"

lemma children_found_subset: "set (children_found processes children k) \<subseteq> snd ` set children"
  by (auto simp: children_found_def children_of_def split: option.splits)

function add_children ::
  "(u32, u64, etl_process) history \<Rightarrow> (perf_key \<times> perf_key) list \<Rightarrow> perf_key set \<Rightarrow> perf_key set \<Rightarrow> perf_key set" where
  "add_children processes children profiled previous =
     (let added = new_profiled processes children profiled previous
      in if added = {} then profiled else add_children processes children (profiled \<union> added) added)"
  by pat_completeness auto

termination
proof (relation "measure (\<lambda>(processes, children, profiled, previous). card (snd ` set children - profiled))", simp, goal_cases)
  case (1 processes children profiled previous added)
  have "added \<subseteq> snd ` set children - profiled"
    unfolding 1(1) new_profiled_def using children_found_subset by fast
  then have "snd ` set children - (profiled \<union> added) \<subset> snd ` set children - profiled" using 1(2) by auto
  then have "card (snd ` set children - (profiled \<union> added)) < card (snd ` set children - profiled)"
    by (intro psubset_card_mono) auto
  then show ?case by simp
qed

declare add_children.simps [simp del]

definition find_profiled :: "key_order \<Rightarrow> etl_context \<Rightarrow> error + etl_context" where
  "find_profiled ord c =
     (if ec_profiler_processes c = {} then fold_result add_sampled_process (all_processes ord c) c
      else Inr (c\<lparr>ec_profiler_processes :=
        add_children (ec_processes c) (children_per_process ord c) (ec_profiler_processes c) (ec_profiler_processes c)\<rparr>))"

definition etl_finish :: "utf_library \<Rightarrow> key_order \<Rightarrow> (string set \<Rightarrow> string list) \<Rightarrow> etl_context \<Rightarrow> error + etl_context" where
  "etl_finish utf ord path_ord c =
     (let c1 = connect_etl_threads ord (assign_etl_ids ord c);
          c2 = map_paths path_ord c1
      in bind_result (name_sources utf ord c2) (\<lambda>c3. find_profiled ord (flush_all_switch_data ord c3)))"

section \<open>Queries\<close>

definition source_samples :: "etl_context \<Rightarrow> u32 \<Rightarrow> u16 \<Rightarrow> etl_sample list" where
  "source_samples c tid src =
     (let regular = (case ec_samples c tid of None \<Rightarrow> [] | Some xs \<Rightarrow> xs);
          fallback = (if src = default_timer_pmc_source then regular else [])
      in case ec_pmc_samples c tid of
           None \<Rightarrow> fallback
         | Some ps \<Rightarrow>
             (case List.find (\<lambda>p. pss_source p = src) ps of None \<Rightarrow> fallback | Some p \<Rightarrow> pss_samples p))"

definition etl_thread_samples :: "etl_context \<Rightarrow> u32 \<Rightarrow> u64 \<Rightarrow> u64 option \<Rightarrow> u16 \<Rightarrow> etl_sample list" where
  "etl_thread_samples c tid start_time end_time src =
     (let xs = source_samples c tid src;
          range_first = lower_bound_index es_timestamp xs start_time
      in if xs = [] \<or> range_first = length xs then []
         else let range_end = (case end_time of None \<Rightarrow> length xs | Some t \<Rightarrow> upper_bound_index es_timestamp xs t)
              in if range_first > range_end then [] else take (range_end - range_first) (drop range_first xs))"

definition get_etl_modules :: "etl_context \<Rightarrow> u32 \<Rightarrow> error + (etl_module, u64) module_map" where
  "get_etl_modules c pid = at_or_throw (ec_modules c pid)"

definition etl_process_key :: "etl_context \<Rightarrow> nat \<Rightarrow> error + perf_key" where
  "etl_process_key c p = at_or_throw (ec_process_keys c p)"

definition etl_thread_key :: "etl_context \<Rightarrow> nat \<Rightarrow> error + perf_key" where
  "etl_thread_key c t = at_or_throw (ec_thread_keys c t)"

definition etl_source_has_stacks :: "etl_context \<Rightarrow> u16 \<Rightarrow> bool" where
  "etl_source_has_stacks c src \<longleftrightarrow> src \<in> ec_sources_with_stacks c"

definition pmc_name :: "etl_context \<Rightarrow> nat \<Rightarrow> u16 list option" where
  "pmc_name c k = (if k \<ge> length (ec_pmc_names c) then None else Some (ec_pmc_names c ! k))"

end
