(* ===== verification/EtlReady.thy ===== *)
theory EtlReady
  imports EtlFinish
begin

text \<open>
  What \<open>finish\<close> makes of the events of a Windows recording: it never fails, every process and thread gets
  a unique id that its accessors know, and the processes to show are the profiled ones with all that descend
  from them.
\<close>

section \<open>Numbering\<close>

text \<open>What both loops of \<open>assign_unique_ids\<close> do with a history.\<close>

definition numbered :: "(nat \<Rightarrow> 'd \<Rightarrow> 'd) \<Rightarrow> nat \<Rightarrow> (u32, u64, 'd) history_entry list \<Rightarrow> (u32, u64, 'd) history_entry list" where
  "numbered g n es = map (\<lambda>k. (es ! k)\<lparr>payload := g (n + k) (payload (es ! k))\<rparr>) [0..<length es]"

definition number_step :: "(nat \<Rightarrow> 'd \<Rightarrow> 'd) \<Rightarrow> nat \<times> (u32, u64, 'd) history \<times> (nat \<rightharpoonup> perf_key) \<Rightarrow> u32 \<Rightarrow>
    nat \<times> (u32, u64, 'd) history \<times> (nat \<rightharpoonup> perf_key)" where
  "number_step g = (\<lambda>(n, h, keys) i.
     (n + length (history_entries h i), h(i \<mapsto> numbered g n (history_entries h i)),
      number_keys n i (history_entries h i) keys))"

lemma numbered_Cons:
  "numbered g n (e # es) = e\<lparr>payload := g n (payload e)\<rparr> # numbered g (Suc n) es"
proof -
  have split: "[0..<length (e # es)] = 0 # map Suc [0..<length es]" by (simp add: map_Suc_upt upt_conv_Cons del: upt_Suc)
  show ?thesis unfolding numbered_def split by simp
qed

lemma number_processes_numbered: "number_processes n es = numbered (\<lambda>u. ep_unique_id_update (\<lambda>_. Some u)) n es"
  by (induction n es rule: number_processes.induct) (simp_all add: numbered_Cons, simp add: numbered_def)

lemma number_threads_numbered: "number_threads n es = numbered (\<lambda>u. et_unique_id_update (\<lambda>_. Some u)) n es"
  by (induction n es rule: number_threads.induct) (simp_all add: numbered_Cons, simp add: numbered_def)

lemma numbered_maps:
  "map timestamp (numbered g n es) = map timestamp es" "map entry_id (numbered g n es) = map entry_id es"
  "length (numbered g n es) = length es"
  by (induction es arbitrary: n) (auto simp: numbered_Cons, simp_all add: numbered_def)

lemma numbered_keeps:
  "(\<And>u x. f (g u x) = f x) \<Longrightarrow> map (\<lambda>e. f (payload e)) (numbered g n es) = map (\<lambda>e. f (payload e)) es"
  by (induction es arbitrary: n) (auto simp: numbered_Cons, simp_all add: numbered_def)

lemma number_keys_at:
  "number_keys n i es keys u = (if n \<le> u \<and> u < n + length es then Some (i, timestamp (es ! (u - n))) else keys u)"
  unfolding number_keys_def by (rule fold_keys)

lemma number_steps:
  assumes "distinct ids" "foldl (number_step g) (n, h, keys) ids = (n', h', keys')"
  shows "n \<le> n' \<and> (\<forall>j. j \<notin> set ids \<longrightarrow> h' j = h j) \<and> (\<forall>u < n. keys' u = keys u) \<and>
    (\<forall>j \<in> set ids. \<exists>m \<ge> n. m + length (history_entries h j) \<le> n' \<and>
       h' j = Some (numbered g m (history_entries h j)) \<and>
       (\<forall>k < length (history_entries h j). keys' (m + k) = Some (j, timestamp (history_entries h j ! k))))"
  using assms
proof (induction ids arbitrary: n h keys)
  case (Cons i ids)
  let ?es = "history_entries h i"
  let ?h = "h(i \<mapsto> numbered g n ?es)"
  let ?keys = "number_keys n i ?es keys"
  have run: "foldl (number_step g) (n + length ?es, ?h, ?keys) ids = (n', h', keys')"
    using Cons.prems(2) by (simp add: number_step_def)
  have i: "i \<notin> set ids" "distinct ids" using Cons.prems(1) by auto
  have e: "history_entries ?h j = (if j = i then numbered g n ?es else history_entries h j)" for j
    by (simp add: history_entries_def)
  note ih = Cons.IH [OF i(2) run]
  have le: "n + length ?es \<le> n'" using ih by blast
  have h': "h' i = Some (numbered g n ?es)" using ih i by simp
  have keys: "keys' u = (if n \<le> u then Some (i, timestamp (?es ! (u - n))) else keys u)" if "u < n + length ?es" for u
    using ih that by (simp add: number_keys_at)
  have own: "\<exists>m \<ge> n. m + length (history_entries h j) \<le> n' \<and>
       h' j = Some (numbered g m (history_entries h j)) \<and>
       (\<forall>k < length (history_entries h j). keys' (m + k) = Some (j, timestamp (history_entries h j ! k)))"
    if "j \<in> set (i # ids)" for j
  proof (cases "j = i")
    case True
    with le h' keys show ?thesis by (intro exI [of _ n]) auto
  next
    case False
    then have "j \<in> set ids" using that by simp
    then obtain m where "m \<ge> n + length ?es" "m + length (history_entries ?h j) \<le> n'"
        "h' j = Some (numbered g m (history_entries ?h j))"
        "\<forall>k < length (history_entries ?h j). keys' (m + k) = Some (j, timestamp (history_entries ?h j ! k))"
      using ih by blast
    with False show ?thesis unfolding e by (intro exI [of _ m]) auto
  qed
  show ?case
  proof (intro conjI)
    show "n \<le> n'" using le by simp
    show "\<forall>j. j \<notin> set (i # ids) \<longrightarrow> h' j = h j" using ih by simp
    show "\<forall>u < n. keys' u = keys u" using keys by simp
  qed (use own in blast)
qed simp

definition keys_known :: "('d \<Rightarrow> nat option) \<Rightarrow> nat \<Rightarrow> nat \<Rightarrow> (u32, u64, 'd) history \<Rightarrow> (nat \<rightharpoonup> perf_key) \<Rightarrow> bool" where
  "keys_known get n n' h keys \<longleftrightarrow> (\<forall>i. \<forall>e \<in> set (history_entries h i).
     \<exists>u. get (payload e) = Some u \<and> n \<le> u \<and> u < n' \<and> keys u = Some (i, timestamp e))"

lemma number_history:
  assumes ord: "key_order_spec ord" "finite (dom h)" and wf: "history_wf h"
    and run: "foldl (number_step g) (n, h, keys) (ord k (dom h)) = (n', h', keys')"
    and get: "\<And>u x. get (g u x) = Some u"
  shows "history_wf h' \<and> dom h' = dom h \<and> keys_known get n n' h' keys' \<and>
    (\<forall>j. \<exists>m. history_entries h' j = numbered g m (history_entries h j))"
proof -
  have ids: "set (ord k (dom h)) = dom h" "distinct (ord k (dom h))"
    using ord by (auto simp: key_order_spec_def)
  note spec = number_steps [OF ids(2) run]
  have e: "\<exists>m. history_entries h' j = numbered g m (history_entries h j) \<and> n \<le> m \<and>
      (history_entries h j \<noteq> [] \<longrightarrow> m + length (history_entries h j) \<le> n') \<and>
      (\<forall>i < length (history_entries h j). keys' (m + i) = Some (j, timestamp (history_entries h j ! i)))" for j
  proof (cases "j \<in> dom h")
    case True
    then obtain m where "h' j = Some (numbered g m (history_entries h j))" "n \<le> m" "m + length (history_entries h j) \<le> n'"
        "\<forall>i < length (history_entries h j). keys' (m + i) = Some (j, timestamp (history_entries h j ! i))"
      using spec ids(1) by blast
    then show ?thesis by (intro exI [of _ m]) (simp add: history_entries_def [of h'])
  next
    case False
    then have "h' j = h j" "h j = None" using spec ids(1) by auto
    then show ?thesis by (auto simp: history_entries_def numbered_def)
  qed
  have dom: "dom h' = dom h"
  proof -
    have "j \<in> dom h' \<longleftrightarrow> j \<in> dom h" for j
      using spec ids(1) by (cases "j \<in> dom h") (auto simp: domIff)
    then show ?thesis by blast
  qed
  have "keys_known get n n' h' keys'"
    unfolding keys_known_def
  proof (intro allI ballI)
    fix j x
    assume x: "x \<in> set (history_entries h' j)"
    obtain m where m: "history_entries h' j = numbered g m (history_entries h j)" "n \<le> m"
        "history_entries h j \<noteq> [] \<longrightarrow> m + length (history_entries h j) \<le> n'"
        "\<forall>i < length (history_entries h j). keys' (m + i) = Some (j, timestamp (history_entries h j ! i))"
      using e by blast
    obtain i where i: "i < length (history_entries h j)" "x = numbered g m (history_entries h j) ! i"
      using x unfolding m(1) by (auto simp: in_set_conv_nth numbered_maps)
    with m show "\<exists>u. get (payload x) = Some u \<and> n \<le> u \<and> u < n' \<and> keys' u = Some (j, timestamp x)"
      by (intro exI [of _ "m + i"]) (auto simp: numbered_def get)
  qed
  moreover have "history_wf h'"
  proof -
    have "\<exists>m. history_entries h' j = numbered g m (history_entries h j)" for j using e by blast
    then have "map timestamp (history_entries h' j) = map timestamp (history_entries h j)"
        "map entry_id (history_entries h' j) = map entry_id (history_entries h j)" for j
      using numbered_maps by metis+
    with wf show ?thesis unfolding history_wf_entries dom by (metis map_is_Nil_conv)
  qed
  ultimately show ?thesis using e dom by blast
qed

section \<open>What the events build up\<close>

definition etl_wf :: "etl_context \<Rightarrow> bool" where
  "etl_wf c \<longleftrightarrow> history_wf (ec_processes c) \<and> history_wf (ec_threads c) \<and>
     finite (dom (ec_processes c)) \<and> finite (dom (ec_threads c)) \<and> finite (dom (ec_threads_per_process_id c)) \<and>
     finite (dom (ec_samples c)) \<and> finite (dom (ec_pmc_samples c)) \<and> finite (dom (ec_switch_data c))"

definition etl_unfinished :: "etl_context \<Rightarrow> bool" where
  "etl_unfinished c \<longleftrightarrow> ec_threads_per_process c = Map.empty \<and> ec_process_keys c = Map.empty \<and> ec_thread_keys c = Map.empty"

text \<open>The part of the context that the events of stacks and the like leave alone.\<close>

definition same_lives :: "etl_context \<Rightarrow> etl_context \<Rightarrow> bool" where
  "same_lives c c' \<longleftrightarrow> ec_processes c' = ec_processes c \<and> ec_threads c' = ec_threads c \<and>
     ec_threads_per_process_id c' = ec_threads_per_process_id c \<and> ec_threads_per_process c' = ec_threads_per_process c \<and>
     ec_process_keys c' = ec_process_keys c \<and> ec_thread_keys c' = ec_thread_keys c \<and>
     (finite (dom (ec_samples c)) \<longrightarrow> finite (dom (ec_samples c'))) \<and>
     (finite (dom (ec_pmc_samples c)) \<longrightarrow> finite (dom (ec_pmc_samples c'))) \<and>
     ec_switch_data c' = ec_switch_data c"

lemma same_lives_refl: "same_lives c c"
  by (simp add: same_lives_def)

lemma same_lives_trans: "same_lives c c1 \<Longrightarrow> same_lives c1 c2 \<Longrightarrow> same_lives c c2"
  by (simp add: same_lives_def)

lemma fold_result_invariant:
  "P c \<Longrightarrow> (\<And>x c c'. P c \<Longrightarrow> g x c = Inr c' \<Longrightarrow> P c') \<Longrightarrow> fold_result g xs c = Inr c' \<Longrightarrow> P c'"
proof (induction xs arbitrary: c)
  case (Cons x xs)
  from Cons.prems(3) obtain c1 where "g x c = Inr c1" "fold_result g xs c1 = Inr c'"
    by (cases "g x c") (auto simp: bind_result_def)
  with Cons show ?case by blast
qed simp

lemma fold_invariant_simple: "P c \<Longrightarrow> (\<And>x c. P c \<Longrightarrow> P (g x c)) \<Longrightarrow> P (fold g xs c)"
  by (induction xs arbitrary: c) auto

lemma same_lives_set: "same_lives c (set_samples_at p xs c)"
  by (auto simp: same_lives_def set_samples_at_def split: samples_place.splits option.splits)

lemma find_sample_back_Some:
  "find_sample_back time xs n = Some k \<Longrightarrow> k < n \<and> es_timestamp (xs ! k) = time"
  by (induction n) (auto split: if_splits)

lemma find_sample_Some: "find_sample time xs = Some k \<Longrightarrow> k < length xs \<and> es_timestamp (xs ! k) = time"
  unfolding find_sample_def by (rule find_sample_back_Some)

lemma attach_stack_lives:
  assumes "attach_stack ip_hash ps time et stack x c = Inr c'"
  shows "same_lives c c'"
proof (cases x)
  case (Pair p src)
  show ?thesis
  proof (cases "find_sample et (samples_at c p)")
    case (Some k)
    then obtain xs stacks1 srcs where "c' = (set_samples_at p xs c)\<lparr>ec_stacks := stacks1, ec_sources_with_stacks := srcs\<rparr>"
      using assms by (auto simp: attach_stack_def Pair Let_def split: prod.splits if_splits)
    with same_lives_set [of c p xs] show ?thesis by (simp add: same_lives_def)
  qed (use assms in \<open>auto simp: attach_stack_def Pair same_lives_refl\<close>)
qed

lemma handle_stack_lives: "handle_stack ip_hash ps h tid et stack c = Inr c' \<Longrightarrow> same_lives c c'"
  unfolding handle_stack_def
  by (rule fold_result_invariant [where P = "same_lives c"])
    (auto intro: same_lives_refl same_lives_trans attach_stack_lives)

lemma remember_sample_lives: "same_lives c (remember_sample b time et key x c)"
  by (cases x) (auto simp: remember_sample_def same_lives_def split: option.splits)

lemma handle_stack_key_lives: "same_lives c (handle_stack_key h tid et key c)"
  unfolding handle_stack_key_def
  by (rule fold_invariant_simple) (auto intro: same_lives_refl same_lives_trans remember_sample_lives)

lemma apply_stack_lives: "same_lives c (apply_stack index r c)"
  unfolding apply_stack_def Let_def by (rule same_lives_set)

lemma handle_stack_definition_lives:
  assumes "handle_stack_definition ip_hash h key stack c = Inr c'"
  shows "same_lives c c'"
proof -
  have "same_lives c (fold (apply_stack index) refs c1)" if "same_lives c c1" for index refs c1
    by (rule fold_invariant_simple) (use that in \<open>auto intro: same_lives_trans apply_stack_lives\<close>)
  moreover have "same_lives c (c\<lparr>ec_stacks := s\<rparr>)" for s by (simp add: same_lives_def)
  ultimately have kept: "same_lives c (fold (apply_stack index) refs (c\<lparr>ec_stacks := s\<rparr>))" for index refs s by blast
  then have "same_lives c ((fold (apply_stack index) refs (c\<lparr>ec_stacks := s\<rparr>))\<lparr>ec_cached_samples := m\<rparr>)" for index refs s m
    using kept [of index refs s] by (simp add: same_lives_def)
  with assms show ?thesis
    by (auto simp: handle_stack_definition_def same_lives_refl split: if_splits option.splits prod.splits)
qed

lemma lives_wf: "etl_wf c \<Longrightarrow> same_lives c c' \<Longrightarrow> etl_wf c'"
  by (simp add: etl_wf_def same_lives_def)

lemma lives_unfinished: "etl_unfinished c \<Longrightarrow> same_lives c c' \<Longrightarrow> etl_unfinished c'"
  by (simp add: etl_unfinished_def same_lives_def)

subsection \<open>The other events\<close>

lemma modify_last_entries:
  assumes "history_wf h"
  shows "map timestamp (history_entries (modify_last h i g) j) = map timestamp (history_entries h j)"
    "map entry_id (history_entries (modify_last h i g) j) = map entry_id (history_entries h j)"
    "(\<And>x. f (g x) = f x) \<Longrightarrow>
       map (\<lambda>e. f (payload e)) (history_entries (modify_last h i g) j) = map (\<lambda>e. f (payload e)) (history_entries h j)"
proof -
  have last: "f (last es) = f (es ! (length es - 1))" if "es \<noteq> []" for f :: "('a, 'b, 'c) history_entry \<Rightarrow> 'x" and es
    using that by (simp add: last_conv_nth)
  have split: "butlast es @ [x] = es[length es - 1 := x]" if "es \<noteq> []" for es :: "('a, 'b, 'c) history_entry list" and x
    using that by (metis append_butlast_last_id length_butlast list_update_length)
  have entries: "history_entries (modify_last h i g) j = (case h j of None \<Rightarrow> [] | Some es \<Rightarrow>
      if j = i then es[length es - 1 := (es ! (length es - 1))\<lparr>payload := g (payload (es ! (length es - 1)))\<rparr>] else es)"
    using history_wfD(1) [OF assms]
    by (auto simp: modify_last_def history_entries_def split last_conv_nth split: option.split)
  show "map timestamp (history_entries (modify_last h i g) j) = map timestamp (history_entries h j)"
    "map entry_id (history_entries (modify_last h i g) j) = map entry_id (history_entries h j)"
    "(\<And>x. f (g x) = f x) \<Longrightarrow>
       map (\<lambda>e. f (payload e)) (history_entries (modify_last h i g) j) = map (\<lambda>e. f (payload e)) (history_entries h j)"
    unfolding entries by (auto simp: map_update_same history_entries_def split: option.split)
qed

lemma dom_modify_last: "dom (modify_last h i g) = dom h"
  by (auto simp: modify_last_def split: option.splits)

lemma modify_last_wf:
  assumes "history_wf h"
  shows "history_wf (modify_last h i g)"
  using assms unfolding history_wf_entries dom_modify_last modify_last_entries [OF assms]
  by (metis map_is_Nil_conv modify_last_entries(1) [OF assms])

lemmas etl_ops = history_insert_wf history_modify_wf modify_last_wf dom_history_insert dom_history_modify dom_modify_last

lemma handle_process_wf:
  "etl_wf c \<Longrightarrow> etl_wf (handle_process utf h pid parent name command_line c)"
  by (auto simp: handle_process_def etl_wf_def etl_ops)

lemma start_thread_wf:
  assumes "etl_wf c"
  shows "etl_wf (start_thread h tid pid name c)"
proof -
  let ?t = "\<lparr>et_process_id = pid, et_end_time = None, et_unique_id = None, et_name = name, et_context_switches = 0, et_pmc_counts = []\<rparr>"
  obtain threads added where i: "history_insert same_etl_thread (ec_threads c) tid (eh_timestamp h) ?t = (threads, added)"
    by fastforce
  have wf: "history_wf (ec_threads c)" "finite (dom (ec_threads c))" using assms by (simp_all add: etl_wf_def)
  have "history_wf threads" "dom threads = insert tid (dom (ec_threads c))"
    using history_insert_wf [OF wf(1), of same_etl_thread tid "eh_timestamp h" ?t]
      dom_history_insert [of same_etl_thread "ec_threads c" tid "eh_timestamp h" ?t] by (simp_all add: i)
  with assms wf(2) show ?thesis by (auto simp: start_thread_def i etl_wf_def Let_def)
qed

lemma end_thread_wf: "etl_wf c \<Longrightarrow> etl_wf (end_thread h tid c)"
  by (simp add: end_thread_def etl_wf_def etl_ops)

lemma add_waiting_wf: "etl_wf c \<Longrightarrow> etl_wf (add_waiting h tid c)"
  by (simp add: add_waiting_def etl_wf_def etl_ops split: option.split)

lemma handle_thread_wf: "etl_wf c \<Longrightarrow> etl_wf (handle_thread h tid pid name c)"
  by (simp add: handle_thread_def add_waiting_wf start_thread_wf end_thread_wf)

lemma thread_unfinished: "etl_unfinished c \<Longrightarrow> etl_unfinished (handle_thread h tid pid name c)"
  by (auto simp: handle_thread_def add_waiting_def start_thread_def end_thread_def etl_unfinished_def Let_def
      split: option.split prod.split)

lemma dom_updated_switch_data: "finite (dom (ec_switch_data c)) \<Longrightarrow> finite (dom (ec_switch_data (update_switch_data tid g c)))"
  by (simp add: update_switch_data_def)

text \<open>A context switch touches the counts that wait, and nothing else.\<close>

definition switches_only :: "etl_context \<Rightarrow> etl_context \<Rightarrow> bool" where
  "switches_only c c' \<longleftrightarrow> c' = c\<lparr>ec_has_context_switches := True, ec_switch_data := ec_switch_data c'\<rparr> \<and>
     (finite (dom (ec_switch_data c)) \<longrightarrow> finite (dom (ec_switch_data c')))"

lemma switches_only_steps:
  "switches_only c (c\<lparr>ec_has_context_switches := True\<rparr>)"
  "switches_only c c1 \<Longrightarrow> switches_only c (update_switch_data tid g c1)"
  "switches_only c c1 \<Longrightarrow> switches_only c (get_switch_data tid time c1)"
  "switches_only c c1 \<Longrightarrow> switches_only c (count_pmc old_tid new_tid k value c1)"
proof -
  have update: "switches_only c c1 \<Longrightarrow> switches_only c (update_switch_data tid g c1)" for tid g c1
    by (cases c; cases c1) (simp add: switches_only_def update_switch_data_def)
  show "switches_only c (c\<lparr>ec_has_context_switches := True\<rparr>)"
    by (cases c) (simp add: switches_only_def)
  show "switches_only c c1 \<Longrightarrow> switches_only c (update_switch_data tid g c1)" by (rule update)
  show "switches_only c c1 \<Longrightarrow> switches_only c (get_switch_data tid time c1)"
    by (cases c; cases c1) (simp add: switches_only_def get_switch_data_def)
  show "switches_only c c1 \<Longrightarrow> switches_only c (count_pmc old_tid new_tid k value c1)"
    by (simp add: count_pmc_def Let_def update)
qed

lemma handle_context_switch_only: "switches_only c (handle_context_switch h old_tid new_tid values c)"
proof -
  have many: "switches_only c1 (foldl (\<lambda>c k. count_pmc old_tid new_tid k (vs ! k) c) c2 ks)"
    if "switches_only c1 c2" for c1 c2 vs ks
    by (rule foldl_invariant) (use that in \<open>auto intro: switches_only_steps\<close>)
  show ?thesis
    by (auto simp: handle_context_switch_def Let_def split: option.split intro!: many switches_only_steps)
qed

lemma switches_only_wf:
  assumes "switches_only c c'"
  shows "etl_wf c \<Longrightarrow> etl_wf c'" "etl_unfinished c \<Longrightarrow> etl_unfinished c'"
proof -
  have "c' = c\<lparr>ec_has_context_switches := True, ec_switch_data := ec_switch_data c'\<rparr>"
    "finite (dom (ec_switch_data c)) \<longrightarrow> finite (dom (ec_switch_data c'))"
    using assms unfolding switches_only_def by blast+
  then obtain m where "c' = c\<lparr>ec_has_context_switches := True, ec_switch_data := m\<rparr>" "finite (dom (ec_switch_data c)) \<longrightarrow> finite (dom m)"
    by blast
  then show "etl_wf c \<Longrightarrow> etl_wf c'" "etl_unfinished c \<Longrightarrow> etl_unfinished c'"
    by (simp_all add: etl_wf_def etl_unfinished_def)
qed

lemma handle_etl_event_wf:
  assumes "etl_wf c \<and> etl_unfinished c" "handle_etl_event utf ip_hash ps h e c = Inr c'"
  shows "etl_wf c' \<and> etl_unfinished c'"
proof -
  have lives: ?thesis if "same_lives c c'" using that assms(1) lives_wf lives_unfinished by blast
  show ?thesis
  proof (cases e)
    case (Stack_event tid time stack)
    with assms(2) show ?thesis by (intro lives) (auto simp: handle_etl_event_def handle_stack_lives)
  next
    case (Stack_key_event tid time key)
    with assms(2) show ?thesis by (intro lives) (auto simp: handle_etl_event_def handle_stack_key_lives)
  next
    case (Stack_definition_event key stack)
    with assms(2) show ?thesis by (intro lives) (auto simp: handle_etl_event_def handle_stack_definition_lives)
  next
    case (Process_event pid parent name command_line)
    with assms show ?thesis
      by (auto simp: handle_etl_event_def handle_process_wf) (simp add: handle_process_def etl_unfinished_def)
  next
    case (Thread_event tid pid name)
    with assms show ?thesis by (auto simp: handle_etl_event_def handle_thread_wf thread_unfinished)
  next
    case (Context_switch_event old_tid new_tid vs)
    with assms show ?thesis
      using switches_only_wf [OF handle_context_switch_only] by (auto simp: handle_etl_event_def)
  qed (insert assms, auto simp: handle_etl_event_def handle_logical_disk_def handle_pnp_def handle_system_paths_def
      handle_volume_mapping_def handle_image_load_def handle_pdb_info_def handle_sampled_profile_def handle_pmc_profile_def
      handle_profile_interval_def bind_result_def Let_def etl_wf_def etl_unfinished_def
      split: sum.splits if_splits prod.splits option.splits)
qed

lemma empty_etl_wf: "etl_wf empty_etl_context" "etl_unfinished empty_etl_context"
  by (simp_all add: etl_wf_def etl_unfinished_def empty_etl_context_def history_wf_empty)

lemma handle_etl_events_wf:
  assumes "handle_etl_events utf ip_hash ps es empty_etl_context = Inr c"
  shows "etl_wf c \<and> etl_unfinished c"
proof (rule fold_result_invariant [where P = "\<lambda>c. etl_wf c \<and> etl_unfinished c"])
  show "fold_result (\<lambda>(h, e). handle_etl_event utf ip_hash ps h e) es empty_etl_context = Inr c"
    using assms by (simp add: handle_etl_events_def)
  show "etl_wf empty_etl_context \<and> etl_unfinished empty_etl_context" by (simp add: empty_etl_wf)
  show "etl_wf c' \<and> etl_unfinished c'"
    if "etl_wf c \<and> etl_unfinished c" "(\<lambda>(h, e). handle_etl_event utf ip_hash ps h e) x c = Inr c'" for x c c'
  proof (cases x)
    case (Pair h e)
    with that(2) have "handle_etl_event utf ip_hash ps h e c = Inr c'" by simp
    then show ?thesis by (rule handle_etl_event_wf [OF that(1)])
  qed
qed

section \<open>What finishing makes of it\<close>

definition thread_known :: "etl_context \<Rightarrow> nat \<Rightarrow> bool" where
  "thread_known c t \<longleftrightarrow> (\<exists>j. \<exists>e \<in> set (history_entries (ec_threads c) j). et_unique_id (payload e) = Some t)"

definition etl_ready :: "etl_context \<Rightarrow> bool" where
  "etl_ready c \<longleftrightarrow> etl_wf c \<and>
     (\<forall>i. \<forall>e \<in> set (history_entries (ec_processes c) i). \<exists>u ts. ep_unique_id (payload e) = Some u \<and>
        ec_process_keys c u = Some (i, timestamp e) \<and> ec_threads_per_process c u = Some ts) \<and>
     (\<forall>i. \<forall>e \<in> set (history_entries (ec_threads c) i). \<exists>u. et_unique_id (payload e) = Some u \<and>
        ec_thread_keys c u = Some (i, timestamp e)) \<and>
     (\<forall>u ts. ec_threads_per_process c u = Some ts \<longrightarrow> (\<forall>t \<in> set ts. thread_known c t)) \<and>
     dom (ec_processes c) \<subseteq> dom (ec_modules c)"

subsection \<open>Ids\<close>

definition with_empty_sets :: "nat \<Rightarrow> nat \<Rightarrow> (nat \<rightharpoonup> nat list) \<Rightarrow> (nat \<rightharpoonup> nat list)" where
  "with_empty_sets n l m = foldl (\<lambda>m k. m(n + k \<mapsto> (case m (n + k) of None \<Rightarrow> [] | Some ts \<Rightarrow> ts))) m [0..<l]"

lemma with_empty_sets_at:
  "with_empty_sets n l m u = (if n \<le> u \<and> u < n + l \<and> m u = None then Some [] else m u)"
  unfolding with_empty_sets_def by (induction l) auto

lemma number_process_ids:
  "foldl number_process_id (n, c) ids = (n', c') \<Longrightarrow>
     foldl (number_step (\<lambda>u. ep_unique_id_update (\<lambda>_. Some u))) (n, ec_processes c, ec_process_keys c) ids =
       (n', ec_processes c', ec_process_keys c') \<and> n \<le> n' \<and>
     (\<exists>ps keys tpp modules. c' = c\<lparr>ec_processes := ps, ec_process_keys := keys, ec_threads_per_process := tpp, ec_modules := modules\<rparr> \<and>
        (\<forall>u. tpp u = (if n \<le> u \<and> u < n' \<and> ec_threads_per_process c u = None then Some [] else ec_threads_per_process c u)) \<and>
        dom modules = dom (ec_modules c) \<union> set ids)"
proof (induction ids arbitrary: n c)
  case Nil
  then show ?case
    by (simp, intro exI [of _ "ec_processes c"] exI [of _ "ec_process_keys c"] exI [of _ "ec_threads_per_process c"]
        exI [of _ "ec_modules c"]) simp
next
  case (Cons i ids)
  let ?es = "history_entries (ec_processes c) i"
  let ?c = "c\<lparr>ec_processes := (ec_processes c)(i \<mapsto> number_processes n ?es),
        ec_process_keys := number_keys n i ?es (ec_process_keys c),
        ec_threads_per_process := with_empty_sets n (length ?es) (ec_threads_per_process c),
        ec_modules := (ec_modules c)(i \<mapsto> (case ec_modules c i of None \<Rightarrow> mm_empty | Some m \<Rightarrow> m))\<rparr>"
  have step: "number_process_id (n, c) i = (n + length ?es, ?c)"
    by (simp add: number_process_id_def Let_def with_empty_sets_def)
  have "foldl number_process_id (n + length ?es, ?c) ids = (n', c')" using Cons.prems step by simp
  note ih = Cons.IH [OF this]
  have num: "number_step (\<lambda>u. ep_unique_id_update (\<lambda>_. Some u)) (n, ec_processes c, ec_process_keys c) i =
      (n + length ?es, ec_processes ?c, ec_process_keys ?c)"
    by (simp add: number_step_def number_processes_numbered)
  have 1: "foldl (number_step (\<lambda>u. ep_unique_id_update (\<lambda>_. Some u))) (n, ec_processes c, ec_process_keys c) (i # ids) =
      (n', ec_processes c', ec_process_keys c')"
    unfolding foldl_Cons num by (rule conjunct1 [OF ih])
  obtain ps keys tpp modules where c': "c' = ?c\<lparr>ec_processes := ps, ec_process_keys := keys, ec_threads_per_process := tpp, ec_modules := modules\<rparr>"
      "\<forall>u. tpp u = (if n + length ?es \<le> u \<and> u < n' \<and> ec_threads_per_process ?c u = None then Some [] else ec_threads_per_process ?c u)"
      "dom modules = dom (ec_modules ?c) \<union> set ids"
    using conjunct2 [OF conjunct2 [OF ih]] by blast
  have le: "n + length ?es \<le> n'" using ih by blast
  have "c' = c\<lparr>ec_processes := ps, ec_process_keys := keys, ec_threads_per_process := tpp, ec_modules := modules\<rparr>"
    using c'(1) by simp
  moreover have "tpp u = (if n \<le> u \<and> u < n' \<and> ec_threads_per_process c u = None then Some [] else ec_threads_per_process c u)" for u
    using c'(2) le by (auto simp: with_empty_sets_at)
  moreover have "dom modules = dom (ec_modules c) \<union> set (i # ids)" using c'(3) by auto
  ultimately have "\<exists>ps keys tpp modules. c' = c\<lparr>ec_processes := ps, ec_process_keys := keys, ec_threads_per_process := tpp, ec_modules := modules\<rparr> \<and>
        (\<forall>u. tpp u = (if n \<le> u \<and> u < n' \<and> ec_threads_per_process c u = None then Some [] else ec_threads_per_process c u)) \<and>
        dom modules = dom (ec_modules c) \<union> set (i # ids)" by blast
  with 1 le show ?case by simp
qed

lemma number_thread_ids:
  "foldl number_thread_id (n, c) ids = (n', c') \<Longrightarrow>
     foldl (number_step (\<lambda>u. et_unique_id_update (\<lambda>_. Some u))) (n, ec_threads c, ec_thread_keys c) ids =
       (n', ec_threads c', ec_thread_keys c') \<and>
     (\<exists>ts keys. c' = c\<lparr>ec_threads := ts, ec_thread_keys := keys\<rparr>)"
proof (induction ids arbitrary: n c)
  case Nil
  then show ?case by (simp, intro exI [of _ "ec_threads c"] exI [of _ "ec_thread_keys c"]) simp
next
  case (Cons i ids)
  let ?es = "history_entries (ec_threads c) i"
  let ?c = "c\<lparr>ec_threads := (ec_threads c)(i \<mapsto> number_threads n ?es), ec_thread_keys := number_keys n i ?es (ec_thread_keys c)\<rparr>"
  have step: "number_thread_id (n, c) i = (n + length ?es, ?c)"
    by (simp add: number_thread_id_def Let_def)
  have "foldl number_thread_id (n + length ?es, ?c) ids = (n', c')" using Cons.prems step by simp
  note ih = Cons.IH [OF this]
  have num: "number_step (\<lambda>u. et_unique_id_update (\<lambda>_. Some u)) (n, ec_threads c, ec_thread_keys c) i =
      (n + length ?es, ec_threads ?c, ec_thread_keys ?c)"
    by (simp add: number_step_def number_threads_numbered)
  have "foldl (number_step (\<lambda>u. et_unique_id_update (\<lambda>_. Some u))) (n, ec_threads c, ec_thread_keys c) (i # ids) =
      (n', ec_threads c', ec_thread_keys c')"
    unfolding foldl_Cons num by (rule conjunct1 [OF ih])
  moreover obtain ts keys where "c' = ?c\<lparr>ec_threads := ts, ec_thread_keys := keys\<rparr>" using ih by blast
  then have "c' = c\<lparr>ec_threads := ts, ec_thread_keys := keys\<rparr>" by simp
  ultimately show ?case by blast
qed

lemma assign_etl_ids_ready:
  assumes ord: "key_order_spec ord" and wf: "etl_wf c" "etl_unfinished c"
  shows "etl_ready (assign_etl_ids ord c) \<and> (\<exists>ps pkeys tpp modules ts tkeys. assign_etl_ids ord c =
    c\<lparr>ec_processes := ps, ec_process_keys := pkeys, ec_threads_per_process := tpp, ec_modules := modules,
      ec_threads := ts, ec_thread_keys := tkeys\<rparr>)" (is ?ready)
    "\<exists>m. history_entries (ec_threads (assign_etl_ids ord c)) j =
       numbered (\<lambda>u. et_unique_id_update (\<lambda>_. Some u)) m (history_entries (ec_threads c) j)" (is ?threads)
proof -
  let ?gp = "\<lambda>u. ep_unique_id_update (\<lambda>_. Some u)" and ?gt = "\<lambda>u. et_unique_id_update (\<lambda>_. Some u)"
  obtain n c1 where p: "foldl number_process_id (first_process_id, c) (ord 0 (dom (ec_processes c))) = (n, c1)" by fastforce
  obtain m c2 where t: "foldl number_thread_id (first_thread_id, c1) (ord 1 (dom (ec_threads c1))) = (m, c2)" by fastforce
  have fin: "assign_etl_ids ord c = c2" by (simp add: assign_etl_ids_def p t [unfolded One_nat_def])
  note np = number_process_ids [OF p] and nt = number_thread_ids [OF t]
  obtain ps pkeys tpp modules where c1: "c1 = c\<lparr>ec_processes := ps, ec_process_keys := pkeys, ec_threads_per_process := tpp, ec_modules := modules\<rparr>"
      "\<And>u. tpp u = (if first_process_id \<le> u \<and> u < n \<and> ec_threads_per_process c u = None then Some [] else ec_threads_per_process c u)"
      "dom modules = dom (ec_modules c) \<union> set (ord 0 (dom (ec_processes c)))"
    using np by blast
  obtain ts tkeys where c2: "c2 = c1\<lparr>ec_threads := ts, ec_thread_keys := tkeys\<rparr>" using nt by blast
  have whole: "c2 = c\<lparr>ec_processes := ps, ec_process_keys := pkeys, ec_threads_per_process := tpp, ec_modules := modules,
      ec_threads := ts, ec_thread_keys := tkeys\<rparr>" unfolding c2 c1(1) by simp
  have h: "history_wf (ec_processes c)" "finite (dom (ec_processes c))" "history_wf (ec_threads c)" "finite (dom (ec_threads c))"
    using wf(1) by (simp_all add: etl_wf_def)
  have runp: "foldl (number_step ?gp) (first_process_id, ec_processes c, ec_process_keys c) (ord 0 (dom (ec_processes c))) = (n, ps, pkeys)"
    using np c1(1) by simp
  have runt: "foldl (number_step ?gt) (first_thread_id, ec_threads c, ec_thread_keys c) (ord 1 (dom (ec_threads c))) = (m, ts, tkeys)"
    using nt c1(1) c2 by simp
  note hp = number_history [OF ord h(2,1) runp, where get = ep_unique_id, simplified]
  note ht = number_history [OF ord h(4,3) runt, where get = et_unique_id, simplified]
  have "etl_wf c2" using wf(1) hp ht by (simp add: whole etl_wf_def)
  moreover have "\<exists>u xs. ep_unique_id (payload e) = Some u \<and> pkeys u = Some (i, timestamp e) \<and> tpp u = Some xs"
    if "e \<in> set (history_entries ps i)" for i e
  proof -
    obtain u where "ep_unique_id (payload e) = Some u" "first_process_id \<le> u" "u < n" "pkeys u = Some (i, timestamp e)"
      using hp \<open>e \<in> set (history_entries ps i)\<close> unfolding keys_known_def by blast
    then show ?thesis unfolding c1(2) by (cases "ec_threads_per_process c u") auto
  qed
  moreover have "\<exists>u. et_unique_id (payload e) = Some u \<and> tkeys u = Some (i, timestamp e)"
    if "e \<in> set (history_entries ts i)" for i e
    using ht that unfolding keys_known_def by blast
  moreover have xs: "xs = []" if "tpp u = Some xs" for u xs
    using wf(2) that unfolding c1(2) by (simp add: etl_unfinished_def split: if_splits)
  moreover have "dom ps \<subseteq> dom modules"
    using hp c1(3) ord h(2) by (auto simp: key_order_spec_def)
  ultimately have ready: "etl_ready c2" unfolding etl_ready_def by (auto simp: whole dest: xs)
  show ?ready unfolding fin by (intro conjI exI) (rule ready, rule whole)
  show ?threads unfolding fin whole using ht by simp
qed

subsection \<open>The later steps\<close>

lemma etl_ready_wf: "etl_ready c \<Longrightarrow> etl_wf c"
  unfolding etl_ready_def by blast

lemma etl_ready_entry:
  assumes "etl_ready c"
  shows "history_find_at (ec_processes c) i t s = Some p \<Longrightarrow> \<exists>u ts. ep_unique_id (payload p) = Some u \<and> ec_threads_per_process c u = Some ts"
    "history_find_at (ec_threads c) i t s = Some e \<Longrightarrow> \<exists>u. et_unique_id (payload e) = Some u \<and> thread_known c u"
proof -
  have wf: "history_wf (ec_processes c)" "history_wf (ec_threads c)" using assms by (simp_all add: etl_ready_def etl_wf_def)
  show "\<exists>u ts. ep_unique_id (payload p) = Some u \<and> ec_threads_per_process c u = Some ts"
    if "history_find_at (ec_processes c) i t s = Some p"
    using find_entry(1) [OF wf(1) that] assms unfolding etl_ready_def by blast
  show "\<exists>u. et_unique_id (payload e) = Some u \<and> thread_known c u" if "history_find_at (ec_threads c) i t s = Some e"
    using find_entry(1) [OF wf(2) that] assms unfolding etl_ready_def thread_known_def by blast
qed

lemma connect_thread_ready:
  assumes "etl_ready c"
  shows "etl_ready (connect_etl_thread pid c key)"
proof (cases "history_find_at (ec_processes c) pid (snd key) False")
  case (Some p)
  note p = Some
  show ?thesis
  proof (cases "history_find_at (ec_threads c) (fst key) (snd key) False")
    case (Some t)
    obtain u where "et_unique_id (payload t) = Some u" "thread_known c u" using etl_ready_entry(2) [OF assms Some] by blast
    let ?u = "the (ep_unique_id (payload p))"
    let ?m = "add_to_set ?u u (ec_threads_per_process c)"
    have c': "connect_etl_thread pid c key = c\<lparr>ec_threads_per_process := ?m\<rparr>"
      using p Some \<open>et_unique_id (payload t) = Some u\<close> by (simp add: connect_etl_thread_def)
    have known: "thread_known (c\<lparr>ec_threads_per_process := m\<rparr>) = thread_known c" for m by (simp add: thread_known_def fun_eq_iff)
    have "\<exists>ts. ?m v = Some ts" if "ec_threads_per_process c v = Some ts'" for v ts'
      using that by (simp add: add_to_set_def)
    moreover have "thread_known c t" if "?m v = Some ts" "t \<in> set ts" for v ts t
    proof -
      have "t \<in> members ?m v" using that by (simp add: members_def)
      then have "t = u \<or> t \<in> members (ec_threads_per_process c) v" by (auto simp: members_add split: if_splits)
      with \<open>thread_known c u\<close> assms show ?thesis by (auto simp: members_def etl_ready_def split: option.splits)
    qed
    moreover have "etl_wf (c\<lparr>ec_threads_per_process := ?m\<rparr>)" using assms by (simp add: etl_ready_def etl_wf_def)
    ultimately show ?thesis
      using assms unfolding c' etl_ready_def known by simp metis
  qed (simp add: connect_etl_thread_def p assms)
qed (simp add: connect_etl_thread_def assms)

lemma connect_etl_threads_ready: "etl_ready c \<Longrightarrow> etl_ready (connect_etl_threads ord c)"
  unfolding connect_etl_threads_def
  by (intro foldl_invariant [where P = etl_ready] connect_thread_ready)

lemma etl_ready_other:
  assumes "etl_ready c" "etl_wf c'" "ec_processes c' = ec_processes c" "ec_process_keys c' = ec_process_keys c"
    "ec_threads_per_process c' = ec_threads_per_process c" "ec_thread_keys c' = ec_thread_keys c"
    "dom (ec_modules c') = dom (ec_modules c)"
    "\<And>j. map timestamp (history_entries (ec_threads c') j) = map timestamp (history_entries (ec_threads c) j)"
    "\<And>j. map (\<lambda>e. et_unique_id (payload e)) (history_entries (ec_threads c') j) =
       map (\<lambda>e. et_unique_id (payload e)) (history_entries (ec_threads c) j)"
  shows "etl_ready c'"
proof -
  have entry: "\<exists>x \<in> set (history_entries (ec_threads c) j). timestamp x = timestamp e \<and> et_unique_id (payload x) = et_unique_id (payload e)"
    if "e \<in> set (history_entries (ec_threads c') j)" for e j
    using map_pair_in [OF assms(8) assms(9) that] .
  have "thread_known c' = thread_known c"
  proof -
    have "thread_known d t \<longleftrightarrow> (\<exists>j. Some t \<in> set (map (\<lambda>e. et_unique_id (payload e)) (history_entries (ec_threads d) j)))" for d t
      unfolding thread_known_def by (auto simp: image_iff) metis+
    then show ?thesis by (simp only: assms(9) fun_eq_iff simp_thms)
  qed
  moreover have "\<exists>u. et_unique_id (payload e) = Some u \<and> ec_thread_keys c u = Some (j, timestamp e)"
    if "e \<in> set (history_entries (ec_threads c') j)" for e j
    using entry [OF that] assms(1) unfolding etl_ready_def by metis
  ultimately show ?thesis using assms(1-7) unfolding etl_ready_def by simp
qed

lemma map_paths_ready: "etl_ready c \<Longrightarrow> etl_ready (map_paths path_ord c)"
  by (rule etl_ready_other [of c])
    (auto simp: map_paths_def etl_wf_def dom_def map_option_case split: option.splits dest: etl_ready_wf)

definition names_only :: "etl_context \<Rightarrow> etl_context \<Rightarrow> bool" where
  "names_only c c' \<longleftrightarrow> (\<exists>names. c' = c\<lparr>ec_source_names := names\<rparr>)"

lemma names_only_refl: "names_only c c"
  unfolding names_only_def by (intro exI [of _ "ec_source_names c"]) simp

lemma names_only_trans: "names_only c c1 \<Longrightarrow> names_only c1 c2 \<Longrightarrow> names_only c c2"
  by (auto simp: names_only_def)

lemma name_pmc_source_names: "name_pmc_source utf tid c = Inr c' \<Longrightarrow> names_only c c'"
  by (auto simp: name_pmc_source_def bind_result_def names_only_refl split: option.splits sum.splits)
    (auto simp: names_only_def)

lemma name_default_source_names: "name_default_source utf ord c = Inr c' \<Longrightarrow> names_only c c'"
  by (auto simp: name_default_source_def bind_result_def names_only_refl split: if_splits sum.splits)
    (auto simp: names_only_def)

lemma name_sources_names:
  assumes "name_sources utf ord c = Inr c'"
  shows "names_only c c'"
proof -
  obtain c1 where c1: "name_default_source utf ord c = Inr c1"
      "fold_result (name_pmc_source utf) (ord 4 (dom (ec_pmc_samples c1))) c1 = Inr c'"
    using assms by (auto simp: name_sources_def bind_result_def split: sum.splits)
  show ?thesis
    by (rule fold_result_invariant [where P = "names_only c", OF _ _ c1(2)])
      (use name_default_source_names [OF c1(1)] name_pmc_source_names names_only_trans in blast)+
qed

lemma names_only_ready:
  assumes "names_only c c'" "etl_ready c"
  shows "etl_ready c'"
proof -
  obtain names where "c' = c\<lparr>ec_source_names := names\<rparr>" using assms(1) unfolding names_only_def by blast
  moreover have "etl_wf c" using assms(2) unfolding etl_ready_def by blast
  ultimately show ?thesis by (intro etl_ready_other [OF assms(2)]) (simp_all add: etl_wf_def)
qed

lemma flush_switch_data_ready:
  assumes "etl_ready c"
  shows "etl_ready (flush_switch_data tid c)"
proof -
  let ?c = "\<lambda>t g. c\<lparr>ec_threads := history_modify (ec_threads c) tid t (add_switch_data g)\<rparr>"
  have wf: "etl_wf c" using assms unfolding etl_ready_def by blast
  have "et_unique_id (add_switch_data g t) = et_unique_id t" for g t by (simp add: add_switch_data_def Let_def)
  then have "etl_ready (?c t g)" for t g
    by (intro etl_ready_other [OF assms]) (use wf in \<open>simp_all add: etl_wf_def etl_ops history_modify_entries\<close>)
  with assms show ?thesis by (simp add: flush_switch_data_def Let_def)
qed

lemma flush_all_ready: "etl_ready c \<Longrightarrow> etl_ready (flush_all_switch_data ord c)"
  unfolding flush_all_switch_data_def by (rule fold_invariant_simple) (auto intro: flush_switch_data_ready)

subsection \<open>The search for the processes to show\<close>

lemma any_thread_sampled_defined:
  assumes "etl_ready c" "\<forall>t \<in> set us. thread_known c t"
  shows "\<exists>b. any_thread_sampled c us = Inr b"
  using assms(2)
proof (induction us)
  case (Cons u us)
  obtain j e where "e \<in> set (history_entries (ec_threads c) j)" "et_unique_id (payload e) = Some u"
    using Cons.prems unfolding thread_known_def by auto
  then have "\<exists>key. ec_thread_keys c u = Some key" using assms(1) unfolding etl_ready_def by (metis option.inject)
  with Cons show ?case
    by (auto simp: bind_result_def at_or_throw_def split: option.splits)
qed auto

definition profiled_only :: "etl_context \<Rightarrow> etl_context \<Rightarrow> bool" where
  "profiled_only c c' \<longleftrightarrow> (\<exists>ks. c' = c\<lparr>ec_profiler_processes := ks\<rparr>)"

lemma profiled_only_refl: "profiled_only c c"
  unfolding profiled_only_def by (intro exI [of _ "ec_profiler_processes c"]) simp

lemma profiled_only_ready:
  assumes "profiled_only c c'" "etl_ready c"
  shows "etl_ready c'"
proof -
  obtain ks where "c' = c\<lparr>ec_profiler_processes := ks\<rparr>" using assms(1) unfolding profiled_only_def by blast
  moreover have "etl_wf c" using assms(2) unfolding etl_ready_def by blast
  ultimately show ?thesis by (intro etl_ready_other [OF assms(2)]) (simp_all add: etl_wf_def)
qed

lemma add_sampled_process_defined:
  assumes "etl_ready c" "e \<in> set (history_entries (ec_processes c) i)"
  shows "\<exists>c'. add_sampled_process e c = Inr c' \<and> profiled_only c c'"
proof -
  obtain u ts where u: "ep_unique_id (payload e) = Some u" "ec_threads_per_process c u = Some ts"
    using assms unfolding etl_ready_def by blast
  moreover have "\<forall>t \<in> set ts. thread_known c t" using assms(1) u(2) unfolding etl_ready_def by blast
  ultimately obtain b where "any_thread_sampled c ts = Inr b" using any_thread_sampled_defined [OF assms(1)] by blast
  with u have "add_sampled_process e c = Inr (if b then c\<lparr>ec_profiler_processes := insert (entry_key e) (ec_profiler_processes c)\<rparr> else c)"
    by (simp add: add_sampled_process_def get_etl_process_threads_def at_or_throw_def bind_result_def)
  then show ?thesis using profiled_only_refl by (auto simp: profiled_only_def)
qed

lemma add_sampled_processes_defined:
  "etl_ready c \<Longrightarrow> \<forall>e \<in> set es. \<exists>i. e \<in> set (history_entries (ec_processes c) i) \<Longrightarrow>
     \<exists>c'. fold_result add_sampled_process es c = Inr c' \<and> profiled_only c c'"
proof (induction es arbitrary: c)
  case (Cons e es)
  obtain i where "e \<in> set (history_entries (ec_processes c) i)" using Cons.prems(2) by auto
  then obtain c1 where c1: "add_sampled_process e c = Inr c1" "profiled_only c c1"
    using add_sampled_process_defined [OF Cons.prems(1)] by blast
  have "ec_processes c1 = ec_processes c" using c1(2) by (auto simp: profiled_only_def)
  then obtain c2 where "fold_result add_sampled_process es c1 = Inr c2" "profiled_only c1 c2"
    using Cons.IH [of c1] Cons.prems profiled_only_ready [OF c1(2)] by auto
  with c1 show ?case by (auto simp: bind_result_def profiled_only_def)
qed (simp add: profiled_only_refl)

lemma find_profiled_defined:
  assumes "etl_ready c"
  shows "\<exists>c'. find_profiled ord c = Inr c' \<and> profiled_only c c'"
proof (cases "ec_profiler_processes c = {}")
  case True
  have "\<forall>e \<in> set (all_processes ord c). \<exists>i. e \<in> set (history_entries (ec_processes c) i)"
    by (auto simp: all_processes_def)
  from add_sampled_processes_defined [OF assms this] True show ?thesis by (simp add: find_profiled_def)
next
  case False
  then show ?thesis by (auto simp: find_profiled_def profiled_only_def)
qed

section \<open>The search along the children\<close>

text \<open>The relation the search follows, from a profiled process to its children.\<close>

definition profiled_children :: "(u32, u64, etl_process) history \<Rightarrow> (perf_key \<times> perf_key) list \<Rightarrow> perf_key rel" where
  "profiled_children processes children = {(k, k'). k' \<in> set (children_found processes children k)}"

lemma add_children_closure:
  assumes "previous \<subseteq> profiled" "profiled_children processes children `` (profiled - previous) \<subseteq> profiled"
  shows "add_children processes children profiled previous = (profiled_children processes children)\<^sup>* `` profiled"
  using assms
proof (induction processes children profiled previous rule: add_children.induct)
  case (1 processes children profiled previous)
  let ?R = "profiled_children processes children"
  let ?added = "new_profiled processes children profiled previous"
  have added: "?added = ?R `` previous - profiled"
    by (auto simp: new_profiled_def profiled_children_def)
  show ?case
  proof (cases "?added = {}")
    case True
    then have "?R `` previous \<subseteq> profiled" unfolding added by blast
    then have "?R `` profiled \<subseteq> profiled" using "1.prems" by blast
    then have "?R\<^sup>* `` profiled = profiled" by (rule Image_closed_trancl)
    with True show ?thesis by (simp add: add_children.simps [of _ _ profiled] Let_def)
  next
    case False
    have "?R `` (profiled \<union> ?added - ?added) \<subseteq> profiled \<union> ?added"
      unfolding added using "1.prems" by blast
    with "1.IH" [OF refl False] have "add_children processes children (profiled \<union> ?added) ?added = ?R\<^sup>* `` (profiled \<union> ?added)"
      by blast
    moreover have "?R\<^sup>* `` (profiled \<union> ?added) = ?R\<^sup>* `` profiled"
    proof
      show "?R\<^sup>* `` (profiled \<union> ?added) \<subseteq> ?R\<^sup>* `` profiled"
      proof
        fix k
        assume "k \<in> ?R\<^sup>* `` (profiled \<union> ?added)"
        then obtain j where j: "j \<in> profiled \<union> ?added" "(j, k) \<in> ?R\<^sup>*" by blast
        show "k \<in> ?R\<^sup>* `` profiled"
        proof (cases "j \<in> profiled")
          case False
          then obtain i where "i \<in> previous" "(i, j) \<in> ?R" using j(1) unfolding added by blast
          then show ?thesis using j(2) "1.prems"(1) converse_rtrancl_into_rtrancl [of i j ?R k] by blast
        qed (use j(2) in blast)
      qed
    qed blast
    ultimately show ?thesis using False by (simp add: add_children.simps [of _ _ profiled] Let_def)
  qed
qed

section \<open>Finished recordings\<close>

lemma unknown_name_defined:
  assumes "\<forall>s. list_all (\<lambda>ch. (of_char ch :: nat) < 128) s \<longrightarrow> (\<exists>w. utf_8to16 utf s = Inr w)"
  shows "\<exists>w. unknown_name utf src = Inr w"
proof -
  have "list_all (\<lambda>ch. (of_char ch :: nat) < 128) (dec n)" for n
    using dec_props(1) [of n] by (auto simp: list_all_iff is_digit_def)
  with assms show ?thesis by (simp add: unknown_name_def)
qed

lemma name_sources_defined:
  assumes "\<forall>s. list_all (\<lambda>ch. (of_char ch :: nat) < 128) s \<longrightarrow> (\<exists>w. utf_8to16 utf s = Inr w)"
  shows "\<exists>c'. name_sources utf ord c = Inr c'"
proof -
  have "\<exists>c'. name_pmc_source utf tid d = Inr c'" for tid d
  proof -
    have "unknown_name utf src \<noteq> Inl x" for src x using unknown_name_defined [OF assms, of src] by auto
    then show ?thesis by (auto simp: name_pmc_source_def bind_result_def split: option.split sum.splits)
  qed
  then have "\<exists>c'. fold_result (name_pmc_source utf) ids d = Inr c'" for ids d
  proof (induction ids arbitrary: d)
    case (Cons i ids)
    then obtain d1 where "name_pmc_source utf i d = Inr d1" by blast
    with Cons show ?case by (simp add: bind_result_def)
  qed simp
  moreover have "\<exists>c'. name_default_source utf ord c = Inr c'"
    using unknown_name_defined [OF assms, of default_timer_pmc_source] by (auto simp: name_default_source_def bind_result_def)
  ultimately show ?thesis by (auto simp: name_sources_def bind_result_def)
qed

text \<open>What is left of the context before the search, in terms of the one that is finished.\<close>

definition profiled_from :: "key_order \<Rightarrow> etl_context \<Rightarrow> etl_context \<Rightarrow> etl_context \<Rightarrow> bool" where
  "profiled_from ord c0 d c \<longleftrightarrow> etl_ready d \<and> find_profiled ord d = Inr c \<and> profiled_only d c \<and>
     ec_profiler_processes d = ec_profiler_processes c0"

lemma flush_all_profiler: "ec_profiler_processes (flush_all_switch_data ord c) = ec_profiler_processes c"
  unfolding flush_all_switch_data_def
  by (rule fold_invariant_simple [where P = "\<lambda>d. ec_profiler_processes d = ec_profiler_processes c"])
    (simp_all add: flush_switch_data_def Let_def)

lemma connect_profiler: "ec_profiler_processes (connect_etl_threads ord c) = ec_profiler_processes c"
  unfolding connect_etl_threads_def
  by (intro foldl_invariant [where P = "\<lambda>d. ec_profiler_processes d = ec_profiler_processes c"])
    (simp_all add: connect_etl_thread_def split: option.split)

lemma etl_finish_steps:
  assumes ord: "key_order_spec ord" and wf: "etl_wf c0" "etl_unfinished c0"
    and names: "name_sources utf ord (map_paths path_ord (connect_etl_threads ord (assign_etl_ids ord c0))) = Inr c3"
  shows "\<exists>c d. etl_finish utf ord path_ord c0 = Inr c \<and> profiled_from ord c0 d c"
proof -
  let ?c2 = "map_paths path_ord (connect_etl_threads ord (assign_etl_ids ord c0))"
  obtain ps pkeys tpp modules ts tkeys where a: "etl_ready (assign_etl_ids ord c0)" "assign_etl_ids ord c0 =
      c0\<lparr>ec_processes := ps, ec_process_keys := pkeys, ec_threads_per_process := tpp, ec_modules := modules,
        ec_threads := ts, ec_thread_keys := tkeys\<rparr>"
    using assign_etl_ids_ready(1) [OF ord wf] by blast
  have "etl_ready ?c2" using a(1) by (intro map_paths_ready connect_etl_threads_ready)
  moreover have "ec_profiler_processes ?c2 = ec_profiler_processes c0"
    by (simp add: map_paths_def connect_profiler a(2))
  moreover have "names_only ?c2 c3" by (rule name_sources_names [OF names])
  moreover have "ec_profiler_processes c3 = ec_profiler_processes ?c2"
    using \<open>names_only ?c2 c3\<close> by (auto simp: names_only_def)
  ultimately have d: "etl_ready (flush_all_switch_data ord c3)"
      "ec_profiler_processes (flush_all_switch_data ord c3) = ec_profiler_processes c0"
    by (simp_all add: flush_all_ready names_only_ready flush_all_profiler)
  obtain c where c: "find_profiled ord (flush_all_switch_data ord c3) = Inr c" "profiled_only (flush_all_switch_data ord c3) c"
    using find_profiled_defined [OF d(1)] by blast
  then have "etl_finish utf ord path_ord c0 = Inr c"
    using names by (simp add: etl_finish_def bind_result_def Let_def)
  with c d show ?thesis unfolding profiled_from_def by blast
qed

lemma connect_processes: "ec_processes (connect_etl_threads ord c) = ec_processes c"
  unfolding connect_etl_threads_def
  by (intro foldl_invariant [where P = "\<lambda>d. ec_processes d = ec_processes c"])
    (simp_all add: connect_etl_thread_def split: option.split)

lemma flush_all_processes: "ec_processes (flush_all_switch_data ord c) = ec_processes c"
  unfolding flush_all_switch_data_def
  by (rule fold_invariant_simple [where P = "\<lambda>d. ec_processes d = ec_processes c"])
    (simp_all add: flush_switch_data_def Let_def)

lemma etl_finish_from:
  assumes "key_order_spec ord" "handle_etl_events utf ip_hash ps es empty_etl_context = Inr c0"
    "etl_finish utf ord path_ord c0 = Inr c"
  shows "\<exists>d. profiled_from ord c0 d c"
proof -
  have wf: "etl_wf c0" "etl_unfinished c0" using handle_etl_events_wf [OF assms(2)] by auto
  obtain c3 where "name_sources utf ord (map_paths path_ord (connect_etl_threads ord (assign_etl_ids ord c0))) = Inr c3"
    using assms(3) by (auto simp: etl_finish_def bind_result_def Let_def split: sum.splits)
  from etl_finish_steps [OF assms(1) wf this] assms(3) show ?thesis by auto
qed

lemma etl_finish_named:
  assumes "key_order_spec ord" "etl_wf c0" "etl_unfinished c0" "etl_finish utf ord path_ord c0 = Inr c"
  shows "\<exists>c3. names_only (map_paths path_ord (connect_etl_threads ord (assign_etl_ids ord c0))) c3 \<and>
    profiled_only (flush_all_switch_data ord c3) c"
proof -
  let ?c2 = "map_paths path_ord (connect_etl_threads ord (assign_etl_ids ord c0))"
  obtain c3 where c3: "name_sources utf ord ?c2 = Inr c3" "find_profiled ord (flush_all_switch_data ord c3) = Inr c"
    using assms(4) by (auto simp: etl_finish_def bind_result_def Let_def split: sum.splits)
  have names: "names_only ?c2 c3" by (rule name_sources_names [OF c3(1)])
  have "etl_ready (assign_etl_ids ord c0)" by (rule conjunct1 [OF assign_etl_ids_ready(1) [OF assms(1-3)]])
  then have "etl_ready ?c2" by (rule map_paths_ready [OF connect_etl_threads_ready])
  then have "etl_ready (flush_all_switch_data ord c3)"
    by (rule flush_all_ready [OF names_only_ready [OF names]])
  from find_profiled_defined [OF this, of ord] c3(2) have "profiled_only (flush_all_switch_data ord c3) c" by simp
  with names show ?thesis by blast
qed

lemma etl_finish_processes:
  assumes "key_order_spec ord" "etl_wf c0" "etl_unfinished c0" "etl_finish utf ord path_ord c0 = Inr c"
  shows "ec_processes c = ec_processes (assign_etl_ids ord c0)"
proof -
  obtain c3 where c3: "names_only (map_paths path_ord (connect_etl_threads ord (assign_etl_ids ord c0))) c3"
      "profiled_only (flush_all_switch_data ord c3) c"
    using etl_finish_named [OF assms] by blast
  have "ec_processes c = ec_processes (flush_all_switch_data ord c3)" using c3(2) unfolding profiled_only_def by fastforce
  also have "\<dots> = ec_processes (map_paths path_ord (connect_etl_threads ord (assign_etl_ids ord c0)))"
    using c3(1) unfolding names_only_def by (fastforce simp: flush_all_processes)
  finally show ?thesis by (simp add: map_paths_def connect_processes)
qed

lemma etl_ready_lookups:
  assumes "etl_ready c" "e \<in> set (history_entries (ec_processes c) i)"
  shows "\<exists>u ts m. ep_unique_id (payload e) = Some u \<and> etl_process_key c u = Inr (i, timestamp e) \<and>
    get_etl_process_threads c u = Inr ts \<and> get_etl_modules c i = Inr m \<and>
    (\<forall>t \<in> set ts. \<exists>key th. etl_thread_key c t = Inr key \<and> history_find_at (ec_threads c) (fst key) (snd key) False = Some th)"
proof -
  obtain u ts where u: "ep_unique_id (payload e) = Some u" "ec_process_keys c u = Some (i, timestamp e)"
      "ec_threads_per_process c u = Some ts"
    using assms unfolding etl_ready_def by blast
  have "i \<in> dom (ec_processes c)" using assms(2) by (cases "ec_processes c i") (auto simp: history_entries_def)
  then obtain m where m: "ec_modules c i = Some m" using assms(1) unfolding etl_ready_def by blast
  have wf: "history_wf (ec_threads c)" using assms(1) by (simp add: etl_ready_def etl_wf_def)
  have "\<exists>key th. etl_thread_key c t = Inr key \<and> history_find_at (ec_threads c) (fst key) (snd key) False = Some th"
    if "t \<in> set ts" for t
  proof -
    have "thread_known c t" using assms(1) u(3) that unfolding etl_ready_def by blast
    then obtain j x where x: "x \<in> set (history_entries (ec_threads c) j)" "et_unique_id (payload x) = Some t"
      unfolding thread_known_def by blast
    then have "ec_thread_keys c t = Some (j, timestamp x)" using assms(1) unfolding etl_ready_def by (metis option.inject)
    with find_some [OF wf x(1)] show ?thesis by (auto simp: etl_thread_key_def at_or_throw_def)
  qed
  with u m show ?thesis
    by (simp add: etl_process_key_def get_etl_process_threads_def get_etl_modules_def at_or_throw_def)
qed

text \<open>C33: Finishing a recording never fails, and no accessor fails afterwards for a process that is there: its
  unique id leads back to its key, its threads and its modules are there, and each of its threads is found.
  (\<open>utf8to16\<close> only throws for strings that are not UTF-8.)\<close>
theorem finished_etl_accessible:
  assumes run: "handle_etl_events utf ip_hash ps es empty_etl_context = Inr c0" and ord: "key_order_spec ord"
    and utf: "\<forall>s. list_all (\<lambda>ch. (of_char ch :: nat) < 128) s \<longrightarrow> (\<exists>w. utf_8to16 utf s = Inr w)"
  shows "\<exists>c. etl_finish utf ord path_ord c0 = Inr c \<and> (\<forall>i. \<forall>e \<in> set (history_entries (ec_processes c) i).
    \<exists>u ts m. ep_unique_id (payload e) = Some u \<and> etl_process_key c u = Inr (i, timestamp e) \<and>
      get_etl_process_threads c u = Inr ts \<and> get_etl_modules c i = Inr m \<and>
      (\<forall>t \<in> set ts. \<exists>key th. etl_thread_key c t = Inr key \<and> history_find_at (ec_threads c) (fst key) (snd key) False = Some th))"
proof -
  have wf: "etl_wf c0" "etl_unfinished c0" using handle_etl_events_wf [OF run] by auto
  obtain c3 where "name_sources utf ord (map_paths path_ord (connect_etl_threads ord (assign_etl_ids ord c0))) = Inr c3"
    using name_sources_defined [OF utf] by blast
  then obtain c d where c: "etl_finish utf ord path_ord c0 = Inr c" "profiled_from ord c0 d c"
    using etl_finish_steps [OF ord wf] by blast
  then have "etl_ready c" using profiled_only_ready unfolding profiled_from_def by blast
  with c(1) etl_ready_lookups show ?thesis by blast
qed

section \<open>The processes to show\<close>

text \<open>A process starts another one: the parent id of the later one leads to the earlier one at the time of the
  start. Consoles are left out.\<close>

definition starts_process :: "etl_context \<Rightarrow> perf_key rel" where
  "starts_process c = {(k, k'). \<exists>p q e. history_find_at (ec_processes c) (fst k) (snd k) False = Some p \<and>
     e \<in> set (history_entries (ec_processes c) (fst k')) \<and> entry_key e = k' \<and>
     ep_image_filename (payload e) \<noteq> ''conhost.exe'' \<and>
     history_find_at (ec_processes c) (ep_parent_id (payload e)) (timestamp e) False = Some q \<and> entry_key q = entry_key p}"

lemma entry_key_in:
  assumes "history_wf h" "e \<in> set (history_entries h i)"
  shows "entry_key e = (i, timestamp e)" "e \<in> set (history_entries h (fst (entry_key e)))"
proof -
  have "entry_id e = i" using assms by (cases "h i") (auto simp: history_entries_def dest: history_wfD(2))
  with assms(2) show "entry_key e = (i, timestamp e)" "e \<in> set (history_entries h (fst (entry_key e)))"
    by (simp_all add: entry_key_def)
qed

lemma children_of_set:
  assumes "key_order_spec ord" "etl_wf c"
  shows "set (children_of (children_per_process ord c) k) = {k'. \<exists>q e. e \<in> set (history_entries (ec_processes c) (fst k')) \<and>
    entry_key e = k' \<and> ep_image_filename (payload e) \<noteq> ''conhost.exe'' \<and>
    history_find_at (ec_processes c) (ep_parent_id (payload e)) (timestamp e) False = Some q \<and> entry_key q = k}"
proof -
  have wf: "history_wf (ec_processes c)" "finite (dom (ec_processes c))" using assms(2) by (simp_all add: etl_wf_def)
  have "set (ord 6 (dom (ec_processes c))) = dom (ec_processes c)" using assms(1) wf(2) by (simp add: key_order_spec_def)
  moreover have "i \<in> dom (ec_processes c)" if "e \<in> set (history_entries (ec_processes c) i)" for e i
    using that by (cases "ec_processes c i") (auto simp: history_entries_def)
  ultimately have all: "e \<in> set (all_processes ord c) \<longleftrightarrow> e \<in> set (history_entries (ec_processes c) (fst (entry_key e)))" for e
    unfolding all_processes_def using entry_key_in(2) [OF wf(1)] by fastforce
  have pairs: "set (children_per_process ord c) = {(entry_key q, entry_key e) | q e. e \<in> set (all_processes ord c) \<and>
      ep_image_filename (payload e) \<noteq> ''conhost.exe'' \<and>
      history_find_at (ec_processes c) (ep_parent_id (payload e)) (timestamp e) False = Some q}"
  proof -
    have "set (child_of c e) = {(entry_key q, entry_key e) | q. ep_image_filename (payload e) \<noteq> ''conhost.exe'' \<and>
      history_find_at (ec_processes c) (ep_parent_id (payload e)) (timestamp e) False = Some q}" for e
      by (auto simp: child_of_def split: option.splits)
    then show ?thesis unfolding children_per_process_def by auto
  qed
  have of: "k' \<in> set (children_of cs k) \<longleftrightarrow> (k, k') \<in> set cs" for cs k'
    by (force simp: children_of_def)
  show ?thesis unfolding set_eq_iff of pairs all by blast
qed

lemma profiled_children_starts:
  assumes "key_order_spec ord" "etl_wf c"
  shows "profiled_children (ec_processes c) (children_per_process ord c) = starts_process c"
proof -
  let ?ch = "children_of (children_per_process ord c)"
  have wf: "history_wf (ec_processes c)" using assms(2) by (simp add: etl_wf_def)
  have own: "\<exists>p. history_find_at (ec_processes c) (fst k) (snd k) False = Some p \<and> entry_key p = k" if "?ch k \<noteq> []" for k
  proof -
    obtain k' where "k' \<in> set (?ch k)" using \<open>?ch k \<noteq> []\<close> by (cases "?ch k") auto
    then obtain q t i where q: "history_find_at (ec_processes c) i t False = Some q" "entry_key q = k"
      unfolding children_of_set [OF assms] by blast
    note q' = find_entry [OF wf q(1)]
    obtain x where x: "history_find_at (ec_processes c) i (timestamp q) False = Some x" "timestamp x = timestamp q"
      using find_own_time [OF wf q'(1)] by blast
    have "k = (i, timestamp q)" using q(2) q'(2) by (auto simp: entry_key_def)
    with x find_entry(2) [OF wf x(1)] show ?thesis by (auto simp: entry_key_def)
  qed
  have "set (children_found (ec_processes c) (children_per_process ord c) k) =
      (case history_find_at (ec_processes c) (fst k) (snd k) False of None \<Rightarrow> {} | Some p \<Rightarrow> set (?ch (entry_key p)))" for k
    using own [of k] by (cases "?ch k = []") (auto simp: children_found_def split: option.split)
  then have "(k, k') \<in> profiled_children (ec_processes c) (children_per_process ord c) \<longleftrightarrow> (k, k') \<in> starts_process c" for k k'
    unfolding profiled_children_def starts_process_def by (auto simp: children_of_set [OF assms] split: option.splits)
  then show ?thesis by auto
qed

text \<open>C32: If the recording names the processes it was made of, the processes to show are exactly these with
  all that descend from them: what can be reached from them by starting processes.\<close>
theorem profiled_processes_closed:
  assumes run: "handle_etl_events utf ip_hash ps es empty_etl_context = Inr c0" and ord: "key_order_spec ord"
    and fin: "etl_finish utf ord path_ord c0 = Inr c" and named: "ec_profiler_processes c0 \<noteq> {}"
  shows "ec_profiler_processes c = (starts_process c)\<^sup>* `` ec_profiler_processes c0"
proof -
  obtain d where d: "etl_ready d" "find_profiled ord d = Inr c" "profiled_only d c"
      "ec_profiler_processes d = ec_profiler_processes c0"
    using etl_finish_from [OF ord run fin] unfolding profiled_from_def by blast
  have wf: "etl_wf d" using d(1) by (rule etl_ready_wf)
  have same: "starts_process d = starts_process c"
  proof -
    have "ec_processes d = ec_processes c" using d(3) by (auto simp: profiled_only_def)
    then show ?thesis unfolding starts_process_def by simp
  qed
  have "ec_profiler_processes c = add_children (ec_processes d) (children_per_process ord d)
      (ec_profiler_processes c0) (ec_profiler_processes c0)"
    using d(2,4) named by (auto simp: find_profiled_def)
  also have "\<dots> = (profiled_children (ec_processes d) (children_per_process ord d))\<^sup>* `` ec_profiler_processes c0"
    by (rule add_children_closure) simp_all
  finally show ?thesis using profiled_children_starts [OF ord wf] same by simp
qed

section \<open>Example\<close>

text \<open>A program that is profiled starts another one.\<close>

definition ascii_library :: utf_library where
  "ascii_library = \<lparr>utf_16to8 = (\<lambda>ws. Inr (map (\<lambda>w. char_of (unat w)) ws)),
     utf_8to16 = (\<lambda>s. Inr (map (\<lambda>ch. of_nat (of_char ch)) s)), utf_replace_invalid = (\<lambda>s. s)\<rparr>"

definition etl_example :: "(etl_header \<times> etl_event) list" where
  "etl_example =
     [(\<lparr>eh_type = 1, eh_timestamp = 100\<rparr>, Process_event 7 1 ''app.exe'' []),
      (\<lparr>eh_type = 1, eh_timestamp = 110\<rparr>, Thread_event 8 7 None),
      (\<lparr>eh_type = 32, eh_timestamp = 120\<rparr>, Profile_target_event 7),
      (\<lparr>eh_type = 1, eh_timestamp = 150\<rparr>, Process_event 9 7 ''tool.exe'' [])]"

definition example_process :: "string \<Rightarrow> u32 \<Rightarrow> etl_process" where
  "example_process name parent = \<lparr>ep_image_filename = name, ep_command_line = [], ep_parent_id = parent,
     ep_end_time = None, ep_unique_id = None\<rparr>"

definition etl_example_context :: etl_context where
  "etl_example_context = empty_etl_context
     \<lparr>ec_processes := [7 \<mapsto> [\<lparr>entry_id = 7, timestamp = 100, payload = example_process ''app.exe'' 1\<rparr>],
        9 \<mapsto> [\<lparr>entry_id = 9, timestamp = 150, payload = example_process ''tool.exe'' 7\<rparr>]],
      ec_threads := [8 \<mapsto> [\<lparr>entry_id = 8, timestamp = 110, payload = \<lparr>et_process_id = 7, et_end_time = None, et_unique_id = None,
        et_name = None, et_context_switches = 0, et_pmc_counts = []\<rparr>\<rparr>]],
      ec_threads_per_process_id := [7 \<mapsto> [(8, 110)]], ec_profiler_processes := {(7, 120)}\<rparr>"

lemma etl_example_run:
  "handle_etl_events ascii_library (\<lambda>ip. ip) 8 etl_example empty_etl_context = Inr etl_example_context"
  by (simp add: handle_etl_events_def etl_example_def etl_example_context_def handle_etl_event_def handle_process_def
      handle_thread_def start_thread_def add_waiting_def is_start_def history_insert_def add_to_set_def bind_result_def
      empty_etl_context_def ascii_library_def example_process_def insort_insert_key_def Let_def)

lemma ascii_library_total: "\<forall>s. list_all (\<lambda>ch. (of_char ch :: nat) < 128) s \<longrightarrow> (\<exists>w. utf_8to16 ascii_library s = Inr w)"
  by (simp add: ascii_library_def)

lemma etl_example_processes:
  "ec_processes (assign_etl_ids sorted_order etl_example_context) =
     [7 \<mapsto> [\<lparr>entry_id = 7, timestamp = 100, payload = (example_process ''app.exe'' 1)\<lparr>ep_unique_id := Some first_process_id\<rparr>\<rparr>],
      9 \<mapsto> [\<lparr>entry_id = 9, timestamp = 150, payload = (example_process ''tool.exe'' 7)\<lparr>ep_unique_id := Some (Suc first_process_id)\<rparr>\<rparr>]]"
  by (simp add: etl_example_context_def Let_def assign_etl_ids_def sorted_order_def empty_etl_context_def
      number_process_id_def number_thread_id_def history_entries_def example_process_def fun_upd_twist)

lemma etl_example_finished:
  "\<exists>c. etl_finish ascii_library sorted_order (\<lambda>_. []) etl_example_context = Inr c \<and>
     ec_processes c = ec_processes (assign_etl_ids sorted_order etl_example_context)"
proof -
  have wf: "etl_wf etl_example_context" "etl_unfinished etl_example_context"
    using handle_etl_events_wf [OF etl_example_run] by auto
  obtain c3 where c3: "name_sources ascii_library sorted_order
      (map_paths (\<lambda>_. []) (connect_etl_threads sorted_order (assign_etl_ids sorted_order etl_example_context))) = Inr c3"
    using name_sources_defined [OF ascii_library_total] by blast
  then obtain c where c: "etl_finish ascii_library sorted_order (\<lambda>_. []) etl_example_context = Inr c"
    using etl_finish_steps [OF sorted_order_spec wf c3] by blast
  with etl_finish_processes [OF sorted_order_spec wf c] show ?thesis by blast
qed

theorem finished_etl_accessible_witness:
  "\<exists>c e u ts. etl_finish ascii_library sorted_order (\<lambda>_. []) etl_example_context = Inr c \<and>
     history_entries (ec_processes c) 7 = [e] \<and> ep_unique_id (payload e) = Some u \<and>
     etl_process_key c u = Inr (7, 100) \<and> get_etl_process_threads c u = Inr ts"
proof -
  obtain c where c: "etl_finish ascii_library sorted_order (\<lambda>_. []) etl_example_context = Inr c"
      "ec_processes c = ec_processes (assign_etl_ids sorted_order etl_example_context)" using etl_example_finished by blast
  then obtain e where e: "history_entries (ec_processes c) 7 = [e]" "timestamp e = 100"
    by (simp add: etl_example_processes history_entries_def)
  with finished_etl_accessible [OF etl_example_run sorted_order_spec ascii_library_total, of "\<lambda>_. []"] c(1)
  show ?thesis by force
qed

theorem profiled_processes_closed_witness:
  "\<exists>c. etl_finish ascii_library sorted_order (\<lambda>_. []) etl_example_context = Inr c \<and>
     (9, 150) \<in> ec_profiler_processes c"
proof -
  obtain c where c: "etl_finish ascii_library sorted_order (\<lambda>_. []) etl_example_context = Inr c"
      "ec_processes c = ec_processes (assign_etl_ids sorted_order etl_example_context)"
    using etl_example_finished by blast
  moreover have "((7, 120), (9, 150)) \<in> starts_process c"
    by (simp add: starts_process_def c(2) etl_example_processes history_find_at_def history_entries_def example_process_def
        entry_key_def)
  moreover have "ec_profiler_processes etl_example_context = {(7, 120)}" by (simp add: etl_example_context_def)
  ultimately show ?thesis
    using profiled_processes_closed [OF etl_example_run sorted_order_spec c(1)] by auto
qed

end
