(* ===== verification/EtlSamples.thy ===== *)
theory EtlSamples
  imports EtlReady
begin

text \<open>
  What a Windows recording keeps of its samples: all of them, each under its thread and source, and with no stack
  that the recording does not have for it. Context switches are counted once.
\<close>

section \<open>What is kept of the samples\<close>

type_synonym sample_view = "u32 \<times> u64 \<times> u64"

definition etl_sample_view :: "etl_sample \<Rightarrow> sample_view" where
  "etl_sample_view s = (es_thread_id s, es_timestamp s, es_instruction_pointer s)"

definition regular_event :: "u32 \<Rightarrow> etl_header \<times> etl_event \<Rightarrow> sample_view list" where
  "regular_event tid = (\<lambda>(h, e). case e of
     Sampled_profile_event t ip \<Rightarrow> if t = tid then [(tid, eh_timestamp h, ip)] else []
   | _ \<Rightarrow> [])"

definition pmc_event :: "u32 \<Rightarrow> u16 \<Rightarrow> etl_header \<times> etl_event \<Rightarrow> sample_view list" where
  "pmc_event tid src = (\<lambda>(h, e). case e of
     Pmc_profile_event t k ip \<Rightarrow> if t = tid \<and> k = src then [(tid, eh_timestamp h, ip)] else []
   | _ \<Rightarrow> [])"

definition regular_views :: "etl_context \<Rightarrow> u32 \<Rightarrow> sample_view list" where
  "regular_views c tid = map etl_sample_view (case ec_samples c tid of None \<Rightarrow> [] | Some xs \<Rightarrow> xs)"

definition storage_views :: "pmc_sample_storage list \<Rightarrow> (u16 \<times> sample_view list) list" where
  "storage_views ps = map (\<lambda>p. (pss_source p, map etl_sample_view (pss_samples p))) ps"

definition pmc_views :: "etl_context \<Rightarrow> u32 \<Rightarrow> (u16 \<times> sample_view list) list" where
  "pmc_views c tid = storage_views (case ec_pmc_samples c tid of None \<Rightarrow> [] | Some ps \<Rightarrow> ps)"

definition some_if :: "'a list \<Rightarrow> 'a list option" where
  "some_if xs = (if xs = [] then None else Some xs)"

definition etl_filed :: "(etl_header \<times> etl_event) list \<Rightarrow> etl_context \<Rightarrow> bool" where
  "etl_filed es c \<longleftrightarrow>
     (\<forall>tid. regular_views c tid = concat (map (regular_event tid) es)) \<and>
     (\<forall>tid src. map_of (pmc_views c tid) src = some_if (concat (map (pmc_event tid src) es)))"

lemma storage_views_add:
  "map_of (storage_views (add_pmc_sample src s ps)) k =
     (if k = src then Some ((case map_of (storage_views ps) src of None \<Rightarrow> [] | Some vs \<Rightarrow> vs) @ [etl_sample_view s])
      else map_of (storage_views ps) k)"
  by (induction src s ps rule: add_pmc_sample.induct) (auto simp: storage_views_def)

lemma find_storage_view:
  "map_option (\<lambda>p. map etl_sample_view (pss_samples p)) (List.find (\<lambda>p. pss_source p = src) ps) = map_of (storage_views ps) src"
  by (induction ps) (auto simp: storage_views_def)

text \<open>Giving samples stacks changes none of it.\<close>

definition same_views :: "etl_context \<Rightarrow> etl_context \<Rightarrow> bool" where
  "same_views c c' \<longleftrightarrow> regular_views c' = regular_views c \<and> pmc_views c' = pmc_views c"

lemma same_views_refl: "same_views c c" by (simp add: same_views_def)

lemma same_views_trans: "same_views c c1 \<Longrightarrow> same_views c1 c2 \<Longrightarrow> same_views c c2"
  by (simp add: same_views_def)

lemma same_views_other:
  "ec_samples c' = ec_samples c \<Longrightarrow> ec_pmc_samples c' = ec_pmc_samples c \<Longrightarrow> same_views c c'"
  by (simp add: same_views_def regular_views_def [abs_def] pmc_views_def [abs_def])

lemma view_set_stack [simp]: "etl_sample_view (set_stack in_kernel index time s) = etl_sample_view s"
  by (simp add: etl_sample_view_def set_stack_def)

lemma same_views_set:
  assumes "map etl_sample_view xs = map etl_sample_view (samples_at c p)"
  shows "same_views c (set_samples_at p xs c)"
proof (cases p)
  case (Regular_samples tid)
  with assms show ?thesis
    by (auto simp: same_views_def regular_views_def pmc_views_def set_samples_at_def samples_at_def fun_eq_iff)
next
  case (Pmc_samples tid k)
  show ?thesis
  proof (cases "ec_pmc_samples c tid")
    case (Some ps)
    have "storage_views (ps[k := (ps ! k)\<lparr>pss_samples := xs\<rparr>]) = storage_views ps"
      unfolding storage_views_def
      by (rule map_update_same) (use assms Some in \<open>simp add: Pmc_samples samples_at_def\<close>)
    with Some show ?thesis
      by (auto simp: Pmc_samples same_views_def regular_views_def pmc_views_def set_samples_at_def fun_eq_iff)
  qed (simp add: Pmc_samples set_samples_at_def same_views_refl)
qed

lemma update_view:
  "k < length xs \<Longrightarrow> map etl_sample_view (xs[k := set_stack b i t (xs ! k)]) = map etl_sample_view xs"
  by (rule map_update_same) simp

lemma attach_stack_views:
  assumes "attach_stack ip_hash ps time et stack x c = Inr c'"
  shows "same_views c c'"
proof (cases x)
  case (Pair p src)
  show ?thesis
  proof (cases "find_sample et (samples_at c p)")
    case (Some k)
    note k = conjunct1 [OF find_sample_Some [OF Some]]
    obtain b i stacks1 srcs where c': "c' = (set_samples_at p ((samples_at c p)[k := set_stack b i time (samples_at c p ! k)]) c)
        \<lparr>ec_stacks := stacks1, ec_sources_with_stacks := srcs\<rparr>"
      using assms Some by (auto simp: attach_stack_def Pair Let_def split: prod.splits if_splits)
    show ?thesis unfolding c'
      by (rule same_views_trans [OF same_views_set same_views_other]) (simp_all add: update_view k)
  qed (use assms in \<open>auto simp: attach_stack_def Pair same_views_refl\<close>)
qed

lemma handle_stack_views: "handle_stack ip_hash ps h tid et stack c = Inr c' \<Longrightarrow> same_views c c'"
  unfolding handle_stack_def
  by (rule fold_result_invariant [where P = "same_views c"])
    (auto intro: same_views_refl same_views_trans attach_stack_views)

lemma fold_steps:
  assumes "\<And>x c. R c (g x c)" "\<And>c. R c c" "\<And>c c1 c2. R c c1 \<Longrightarrow> R c1 c2 \<Longrightarrow> R c c2"
  shows "R c (fold g xs c)"
  by (induction xs arbitrary: c) (auto intro: assms)

lemma handle_stack_key_views: "same_views c (handle_stack_key h tid et key c)"
proof -
  have "same_views c (remember_sample b time et key x c)" for b time x c
    by (cases x) (auto simp: remember_sample_def intro: same_views_refl same_views_other split: option.splits)
  then show ?thesis unfolding handle_stack_key_def
    by (rule fold_steps [where R = same_views, OF _ same_views_refl same_views_trans])
qed

lemma apply_stack_views:
  "same_views c (apply_stack index r c)"
proof (cases "ssr_sample_index r < length (samples_at c (ssr_samples r))")
  case True
  then show ?thesis unfolding apply_stack_def Let_def by (intro same_views_set update_view)
qed (simp add: apply_stack_def Let_def same_views_set list_update_beyond)

lemma handle_stack_definition_views:
  assumes "handle_stack_definition ip_hash h key stack c = Inr c'"
  shows "same_views c c'"
proof -
  have "same_views c ((fold (apply_stack index) refs (c\<lparr>ec_stacks := s\<rparr>))\<lparr>ec_cached_samples := m\<rparr>)" for index refs s m
  proof -
    have 1: "same_views c (c\<lparr>ec_stacks := s\<rparr>)" by (rule same_views_other) simp_all
    have 2: "same_views d (fold (apply_stack index) refs d)" for d
      by (rule fold_steps [where R = same_views, OF apply_stack_views same_views_refl same_views_trans])
    have 3: "same_views d (d\<lparr>ec_cached_samples := m\<rparr>)" for d by (rule same_views_other) simp_all
    show ?thesis by (rule same_views_trans [OF 1 same_views_trans [OF 2 3]])
  qed
  with assms show ?thesis
    by (auto simp: handle_stack_definition_def same_views_refl split: if_splits option.splits prod.splits)
qed

text \<open>Events that are no samples.\<close>

definition is_sample_event :: "etl_event \<Rightarrow> bool" where
  "is_sample_event e \<longleftrightarrow> (case e of Sampled_profile_event _ _ \<Rightarrow> True | Pmc_profile_event _ _ _ \<Rightarrow> True | _ \<Rightarrow> False)"

lemma no_sample_event:
  "\<not> is_sample_event e \<Longrightarrow> regular_event tid (h, e) = [] \<and> pmc_event tid src (h, e) = []"
  by (cases e) (simp_all add: is_sample_event_def regular_event_def pmc_event_def)

definition is_stack_event :: "etl_event \<Rightarrow> bool" where
  "is_stack_event e \<longleftrightarrow> (case e of Stack_event _ _ _ \<Rightarrow> True | Stack_key_event _ _ _ \<Rightarrow> True
     | Stack_definition_event _ _ \<Rightarrow> True | _ \<Rightarrow> False)"

text \<open>What all the other events leave alone.\<close>

definition same_samples :: "etl_context \<Rightarrow> etl_context \<Rightarrow> bool" where
  "same_samples c c' \<longleftrightarrow> ec_samples c' = ec_samples c \<and> ec_pmc_samples c' = ec_pmc_samples c \<and>
     ec_stacks c' = ec_stacks c \<and> ec_cached_samples c' = ec_cached_samples c"

lemma other_events:
  assumes "\<not> is_sample_event e" "\<not> is_stack_event e" "handle_etl_event utf ip_hash ps h e c = Inr c'"
  shows "same_samples c c'"
proof (cases e)
  case (Context_switch_event old_tid new_tid vs)
  have "switches_only c c'"
    using assms(3) handle_context_switch_only [of c h old_tid new_tid vs] by (simp add: Context_switch_event handle_etl_event_def)
  then obtain m where "c' = c\<lparr>ec_has_context_switches := True, ec_switch_data := m\<rparr>" unfolding switches_only_def by blast
  then show ?thesis by (simp add: same_samples_def)
qed (insert assms, auto simp: is_sample_event_def is_stack_event_def same_samples_def handle_etl_event_def
    handle_logical_disk_def handle_pnp_def
    handle_system_paths_def handle_volume_mapping_def handle_process_def handle_thread_def start_thread_def end_thread_def
    add_waiting_def handle_image_load_def handle_pdb_info_def handle_profile_interval_def bind_result_def Let_def
    split: sum.splits if_splits prod.splits option.splits)

lemma no_sample_views:
  assumes "\<not> is_sample_event e" "handle_etl_event utf ip_hash ps h e c = Inr c'"
  shows "same_views c c'"
proof (cases "is_stack_event e")
  case False
  with other_events [OF assms(1) False assms(2)] show ?thesis
    by (intro same_views_other) (simp_all add: same_samples_def)
next
  case True
  with assms(2) show ?thesis
    by (auto simp: is_stack_event_def handle_etl_event_def handle_stack_views handle_stack_key_views handle_stack_definition_views
        split: etl_event.splits)
qed

lemma same_views_filed:
  assumes "etl_filed es c" "same_views c c'" "\<not> is_sample_event e"
  shows "etl_filed (es @ [(h, e)]) c'"
  using assms by (simp add: etl_filed_def same_views_def no_sample_event)

lemma handle_etl_event_filed:
  assumes f: "etl_filed es c" and run: "handle_etl_event utf ip_hash ps h e c = Inr c'"
  shows "etl_filed (es @ [(h, e)]) c'"
proof (cases "is_sample_event e")
  case False
  from same_views_filed [OF f no_sample_views [OF this run] this] show ?thesis .
next
  case True
  then consider tid ip where "e = Sampled_profile_event tid ip" | tid src ip where "e = Pmc_profile_event tid src ip"
    by (cases e) (auto simp: is_sample_event_def)
  then show ?thesis
  proof cases
    case 1
    with run have c': "c' = handle_sampled_profile h tid ip c" by (simp add: handle_etl_event_def)
    have "regular_views c' t = regular_views c t @ regular_event t (h, e)" "pmc_views c' = pmc_views c" for t
      by (auto simp: c' 1 handle_sampled_profile_def regular_views_def pmc_views_def regular_event_def new_sample_def
          etl_sample_view_def fun_eq_iff split: option.split)
    with f show ?thesis by (simp add: etl_filed_def 1 pmc_event_def)
  next
    case 2
    with run have c': "c' = handle_pmc_profile h tid src ip c" by (simp add: handle_etl_event_def)
    have "regular_views c' = regular_views c"
      by (simp add: c' handle_pmc_profile_def regular_views_def fun_eq_iff)
    moreover have "map_of (pmc_views c' t) k = (if t = tid \<and> k = src
        then Some ((case map_of (pmc_views c t) k of None \<Rightarrow> [] | Some vs \<Rightarrow> vs) @ [(tid, eh_timestamp h, ip)])
        else map_of (pmc_views c t) k)" for t k
      by (simp add: c' handle_pmc_profile_def pmc_views_def storage_views_add new_sample_def etl_sample_view_def)
    ultimately show ?thesis
      using f by (auto simp: etl_filed_def 2 pmc_event_def regular_event_def some_if_def)
  qed
qed

lemma handle_etl_events_append:
  assumes step: "\<And>es h e c c'. P es c \<Longrightarrow> handle_etl_event utf ip_hash ps h e c = Inr c' \<Longrightarrow> P (es @ [(h, e)]) c'"
  shows "P es0 c \<Longrightarrow> handle_etl_events utf ip_hash ps es c = Inr c' \<Longrightarrow> P (es0 @ es) c'"
proof (induction es arbitrary: es0 c)
  case (Cons x es)
  obtain h e where x: "x = (h, e)" by fastforce
  obtain c1 where c1: "handle_etl_event utf ip_hash ps h e c = Inr c1" "handle_etl_events utf ip_hash ps es c1 = Inr c'"
    using Cons.prems(2) by (auto simp: handle_etl_events_def x bind_result_def split: sum.splits)
  from Cons.IH [OF step [OF Cons.prems(1) c1(1)] c1(2)] show ?case by (simp add: x)
qed (simp add: handle_etl_events_def)

lemma etl_filed_empty: "etl_filed [] empty_etl_context"
  by (simp add: etl_filed_def regular_views_def pmc_views_def storage_views_def some_if_def empty_etl_context_def)

lemma source_sample_views:
  assumes "etl_filed es c"
  shows "map etl_sample_view (source_samples c tid src) =
    (if concat (map (pmc_event tid src) es) \<noteq> [] then concat (map (pmc_event tid src) es)
     else if src = default_timer_pmc_source then concat (map (regular_event tid) es) else [])"
proof -
  have pmc: "(case ec_pmc_samples c tid of None \<Rightarrow> None | Some ps \<Rightarrow>
      map_option (\<lambda>p. map etl_sample_view (pss_samples p)) (List.find (\<lambda>p. pss_source p = src) ps)) =
      some_if (concat (map (pmc_event tid src) es))"
  proof -
    have "map_of (pmc_views c tid) src = some_if (concat (map (pmc_event tid src) es))" using assms by (simp add: etl_filed_def)
    then show ?thesis by (cases "ec_pmc_samples c tid") (simp_all add: pmc_views_def find_storage_view storage_views_def [of "[]"])
  qed
  have "map etl_sample_view (case ec_samples c tid of None \<Rightarrow> [] | Some xs \<Rightarrow> xs) = concat (map (regular_event tid) es)"
    using assms by (simp add: etl_filed_def regular_views_def)
  with pmc show ?thesis
    by (auto simp: source_samples_def Let_def some_if_def split: option.splits if_splits)
qed

lemma handle_etl_events_filed:
  assumes "handle_etl_events utf ip_hash ps es empty_etl_context = Inr c"
  shows "etl_filed es c"
  using handle_etl_events_append [where P = etl_filed, OF handle_etl_event_filed etl_filed_empty assms] by simp

text \<open>C29: Every sample of a recording is filed once, under its thread and its source, in the order of the
  events, with its thread, time and instruction pointer. The samples of the timer come from the source 0; if
  there are also samples of a counter with that number, a query gets those alone.\<close>
theorem etl_samples_are_filed:
  assumes run: "handle_etl_events utf ip_hash ps es empty_etl_context = Inr c"
  shows "map (\<lambda>s. (es_thread_id s, es_timestamp s, es_instruction_pointer s)) (source_samples c tid src) =
    (if concat (map (pmc_event tid src) es) \<noteq> [] then concat (map (pmc_event tid src) es)
     else if src = default_timer_pmc_source then concat (map (regular_event tid) es) else [])"
  using source_sample_views [OF handle_etl_events_filed [OF run]] by (simp add: etl_sample_view_def [abs_def])

section \<open>Where the stacks come from\<close>

text \<open>The recording has the stack for the samples of a thread of a time: it came with its stack, or with a key and
  the key with the stack.\<close>

definition stack_recorded ::
  "u32 \<Rightarrow> (etl_header \<times> etl_event) list \<Rightarrow> u32 \<Rightarrow> u64 \<Rightarrow> bool \<Rightarrow> u64 list \<Rightarrow> u64 \<Rightarrow> bool" where
  "stack_recorded pointer_size es tid time in_kernel stack event_time \<longleftrightarrow>
     (\<exists>h. (h, Stack_event tid time stack) \<in> set es \<and> eh_timestamp h = event_time \<and> stack \<noteq> [] \<and>
        is_kernel_address (last stack) pointer_size = in_kernel) \<or>
     (\<exists>h key h'. (h, Stack_key_event tid time key) \<in> set es \<and> eh_timestamp h = event_time \<and> (eh_type h = 37) = in_kernel \<and>
        (h', Stack_definition_event key stack) \<in> set es \<and> eh_type h' \<noteq> 34 \<and> stack \<noteq> [])"

definition index_recorded ::
  "u32 \<Rightarrow> (etl_header \<times> etl_event) list \<Rightarrow> stack_cache \<Rightarrow> u32 \<Rightarrow> u64 \<Rightarrow> bool \<Rightarrow> nat option \<Rightarrow> u64 \<Rightarrow> bool" where
  "index_recorded pointer_size es cache tid time in_kernel index event_time \<longleftrightarrow>
     (\<forall>i. index = Some i \<longrightarrow> i < length (stacks cache) \<and>
        stack_recorded pointer_size es tid time in_kernel (stack_get cache i) event_time)"

definition sample_sound :: "u32 \<Rightarrow> (etl_header \<times> etl_event) list \<Rightarrow> stack_cache \<Rightarrow> u32 \<Rightarrow> etl_sample \<Rightarrow> bool" where
  "sample_sound pointer_size es cache tid s \<longleftrightarrow>
     index_recorded pointer_size es cache tid (es_timestamp s) False (es_user_stack s) (es_user_timestamp s) \<and>
     index_recorded pointer_size es cache tid (es_timestamp s) True (es_kernel_stack s) (es_kernel_timestamp s)"

fun place_thread :: "samples_place \<Rightarrow> u32" where
  "place_thread (Regular_samples tid) = tid"
| "place_thread (Pmc_samples tid k) = tid"

definition ref_sound :: "(etl_header \<times> etl_event) list \<Rightarrow> (samples_place \<Rightarrow> etl_sample list) \<Rightarrow> u64 \<Rightarrow> sample_stack_ref \<Rightarrow> bool" where
  "ref_sound es at key r \<longleftrightarrow> ssr_sample_index r < length (at (ssr_samples r)) \<and>
     (\<exists>h. (h, Stack_key_event (place_thread (ssr_samples r)) (es_timestamp (at (ssr_samples r) ! ssr_sample_index r)) key) \<in> set es \<and>
        eh_timestamp h = ssr_stack_event_timestamp r \<and> (eh_type h = 37) = ssr_is_kernel_stack r)"

definition etl_sound :: "(u64 \<Rightarrow> u64) \<Rightarrow> u32 \<Rightarrow> (etl_header \<times> etl_event) list \<Rightarrow> etl_context \<Rightarrow> bool" where
  "etl_sound ip_hash pointer_size es c \<longleftrightarrow> cache_wf ip_hash (ec_stacks c) \<and>
     (\<forall>p. \<forall>s \<in> set (samples_at c p). sample_sound pointer_size es (ec_stacks c) (place_thread p) s) \<and>
     (\<forall>key refs. ec_cached_samples c key = Some refs \<longrightarrow> (\<forall>r \<in> set refs. ref_sound es (samples_at c) key r))"

lemma index_recorded_mono:
  assumes "index_recorded ps es cache tid time b i et" "set es \<subseteq> set es'"
    "\<forall>k < length (stacks cache). k < length (stacks cache') \<and> stack_get cache' k = stack_get cache k"
  shows "index_recorded ps es' cache' tid time b i et"
proof -
  have "stack_recorded ps es tid time b stack et \<Longrightarrow> stack_recorded ps es' tid time b stack et" for stack
    using assms(2) unfolding stack_recorded_def by blast
  with assms show ?thesis by (auto simp: index_recorded_def)
qed

lemma sample_sound_mono:
  assumes "sample_sound ps es cache tid s" "set es \<subseteq> set es'"
    "\<forall>k < length (stacks cache). k < length (stacks cache') \<and> stack_get cache' k = stack_get cache k"
  shows "sample_sound ps es' cache' tid s"
  using assms index_recorded_mono [OF _ assms(2,3)] by (simp add: sample_sound_def)

lemma ref_sound_mono:
  "ref_sound es at key r \<Longrightarrow> set es \<subseteq> set es' \<Longrightarrow> ref_sound es' at key r"
  unfolding ref_sound_def by blast

lemma cache_grows:
  assumes "cache_wf ip_hash cache" "stack_insert ip_hash cache stack = (cache', i)"
  shows "\<forall>k < length (stacks cache). k < length (stacks cache') \<and> stack_get cache' k = stack_get cache k"
    "i < length (stacks cache')" "stack_get cache' i = stack"
  using stack_insert_cases [OF assms] by (auto simp: stack_get_def nth_append split: if_splits)

lemma etl_sound_more:
  assumes "etl_sound ip_hash ps es c" "set es \<subseteq> set es'"
  shows "etl_sound ip_hash ps es' c"
proof -
  have "sample_sound ps es' (ec_stacks c) tid s" if "sample_sound ps es (ec_stacks c) tid s" for tid s
    using sample_sound_mono [OF that assms(2)] by blast
  with assms ref_sound_mono [OF _ assms(2)] show ?thesis unfolding etl_sound_def by blast
qed

lemma etl_sound_same:
  assumes "etl_sound ip_hash ps es c" "samples_at c' = samples_at c" "ec_stacks c' = ec_stacks c"
    "ec_cached_samples c' = ec_cached_samples c"
  shows "etl_sound ip_hash ps es c'"
  using assms by (simp add: etl_sound_def)

lemma samples_at_set:
  assumes "samples_at c p \<noteq> []"
  shows "samples_at (set_samples_at p xs c) q = (if q = p then xs else samples_at c q)"
  using assms
  by (cases p; cases q) (auto simp: samples_at_def set_samples_at_def split: option.splits if_splits)

lemma samples_at_record [simp]:
  "samples_at (c\<lparr>ec_stacks := s\<rparr>) = samples_at c" "samples_at (c\<lparr>ec_cached_samples := m\<rparr>) = samples_at c"
  "samples_at (c\<lparr>ec_sources_with_stacks := srcs\<rparr>) = samples_at c"
  by (simp_all add: samples_at_def fun_eq_iff split: samples_place.split)

lemma set_samples_at_sel [simp]:
  "ec_stacks (set_samples_at p xs c) = ec_stacks c" "ec_cached_samples (set_samples_at p xs c) = ec_cached_samples c"
  "ec_sources_with_stacks (set_samples_at p xs c) = ec_sources_with_stacks c"
  by (auto simp: set_samples_at_def split: samples_place.split option.split)

lemma set_samples_at_record: "(set_samples_at p xs c)\<lparr>ec_stacks := s\<rparr> = set_samples_at p xs (c\<lparr>ec_stacks := s\<rparr>)"
  by (simp add: set_samples_at_def split: samples_place.split option.split)

lemma etl_sound_cache:
  assumes "etl_sound ip_hash ps es c" "stack_insert ip_hash (ec_stacks c) stack = (cache, i)"
  shows "etl_sound ip_hash ps es (c\<lparr>ec_stacks := cache\<rparr>)"
proof -
  have wf: "cache_wf ip_hash (ec_stacks c)" using assms(1) by (simp add: etl_sound_def)
  have "sample_sound ps es cache tid s" if "sample_sound ps es (ec_stacks c) tid s" for tid s
    by (rule sample_sound_mono [OF that order_refl cache_grows(1) [OF wf assms(2)]])
  with assms(1) cache_wf_insert [OF wf assms(2)] show ?thesis unfolding etl_sound_def by simp
qed

text \<open>One sample gets a stack that is recorded for it.\<close>

lemma set_stack_sound:
  assumes snd: "etl_sound ip_hash ps es c"
    and i: "i < length (stacks (ec_stacks c))"
    and k: "k < length (samples_at c p)"
    and rec: "stack_recorded ps es (place_thread p) (es_timestamp (samples_at c p ! k)) b (stack_get (ec_stacks c) i) t"
  shows "etl_sound ip_hash ps es (set_samples_at p ((samples_at c p)[k := set_stack b i t (samples_at c p ! k)]) c)"
    (is "etl_sound _ _ _ ?c")
proof -
  let ?xs = "samples_at c p" and ?s = "set_stack b i t (samples_at c p ! k)"
  have "?xs \<noteq> []" using k by auto
  note at = samples_at_set [OF this]
  have old: "sample_sound ps es (ec_stacks c) (place_thread q) s" if "s \<in> set (samples_at c q)" for q s
    using snd that unfolding etl_sound_def by blast
  have "index_recorded ps es (ec_stacks c) (place_thread p) (es_timestamp (?xs ! k)) b (Some i) t"
    using i rec by (simp add: index_recorded_def)
  then have "sample_sound ps es (ec_stacks c) (place_thread p) ?s"
    using old [of "?xs ! k" p] k by (auto simp: sample_sound_def set_stack_def)
  then have "\<forall>s \<in> set (samples_at ?c q). sample_sound ps es (ec_stacks c) (place_thread q) s" for q
    using old set_update_subset_insert [of ?xs k ?s] by (auto simp: at)
  moreover have "ref_sound es (samples_at ?c) key r" if "ref_sound es (samples_at c) key r" for key r
  proof -
    have "length (samples_at ?c q) = length (samples_at c q)" for q by (simp add: at)
    moreover have "es_timestamp (samples_at ?c q ! n) = es_timestamp (samples_at c q ! n)" for q n
      using k by (cases "n = k") (auto simp: at set_stack_def)
    ultimately show ?thesis using that by (simp add: ref_sound_def)
  qed
  ultimately show ?thesis using snd unfolding etl_sound_def by simp
qed

lemma attach_stack_sound:
  assumes snd: "etl_sound ip_hash ps es c" and run: "attach_stack ip_hash ps (eh_timestamp h) et stack x c = Inr c'"
    and event: "(h, Stack_event (place_thread (fst x)) et stack) \<in> set es"
  shows "etl_sound ip_hash ps es c'"
proof (cases x)
  case (Pair p src)
  show ?thesis
  proof (cases "find_sample et (samples_at c p)")
    case (Some k)
    note k = find_sample_Some [OF Some]
    obtain cache i where ins: "stack_insert ip_hash (ec_stacks c) stack = (cache, i)" by fastforce
    let ?b = "is_kernel_address (last stack) ps"
    have ne: "stack \<noteq> []" and c': "c' = (set_samples_at p ((samples_at c p)[k := set_stack ?b i (eh_timestamp h) (samples_at c p ! k)])
        (c\<lparr>ec_stacks := cache\<rparr>))\<lparr>ec_sources_with_stacks := insert src (ec_sources_with_stacks c)\<rparr>"
      using run Some by (simp_all add: attach_stack_def Pair Let_def ins set_samples_at_record split: if_splits)
    have wf: "cache_wf ip_hash (ec_stacks c)" using snd by (simp add: etl_sound_def)
    note grow = cache_grows [OF wf ins]
    have "stack_recorded ps es (place_thread p) et ?b stack (eh_timestamp h)"
      using event ne by (auto simp: stack_recorded_def Pair)
    then have "etl_sound ip_hash ps es (set_samples_at p ((samples_at c p)[k := set_stack ?b i (eh_timestamp h) (samples_at c p ! k)])
        (c\<lparr>ec_stacks := cache\<rparr>))"
      using set_stack_sound [OF etl_sound_cache [OF snd ins], of i k p ?b "eh_timestamp h"] k grow(2,3) by simp
    then show ?thesis unfolding c' by (rule etl_sound_same) simp_all
  qed (use run snd in \<open>simp add: attach_stack_def Pair\<close>)
qed

lemma places_of_thread: "x \<in> set (places_of c tid) \<Longrightarrow> place_thread (fst x) = tid"
  by (auto simp: places_of_def split: if_splits option.splits)

lemma handle_stack_sound:
  assumes "etl_sound ip_hash ps es c" "handle_stack ip_hash ps h tid et stack c = Inr c'"
    "(h, Stack_event tid et stack) \<in> set es"
  shows "etl_sound ip_hash ps es c'"
proof -
  have "fold_result (attach_stack ip_hash ps (eh_timestamp h) et stack) xs d = Inr d' \<Longrightarrow> etl_sound ip_hash ps es d \<Longrightarrow>
      \<forall>x \<in> set xs. place_thread (fst x) = tid \<Longrightarrow> etl_sound ip_hash ps es d'" for xs d d'
  proof (induction xs arbitrary: d)
    case (Cons x xs)
    then obtain d1 where d1: "attach_stack ip_hash ps (eh_timestamp h) et stack x d = Inr d1"
        "fold_result (attach_stack ip_hash ps (eh_timestamp h) et stack) xs d1 = Inr d'"
      by (auto simp: bind_result_def split: sum.splits)
    have "etl_sound ip_hash ps es d1"
      using attach_stack_sound [OF Cons.prems(2) d1(1)] assms(3) Cons.prems(3) by simp
    with Cons d1 show ?case by simp
  qed simp
  with assms places_of_thread show ?thesis unfolding handle_stack_def by blast
qed

lemma remember_sample_sound:
  assumes snd: "etl_sound ip_hash ps es c" and event: "(h, Stack_key_event (place_thread (fst x)) et key) \<in> set es"
  shows "etl_sound ip_hash ps es (remember_sample (eh_type h = 37) (eh_timestamp h) et key x c)"
proof (cases x)
  case (Pair p src)
  show ?thesis
  proof (cases "find_sample et (samples_at c p)")
    case (Some k)
    let ?r = "\<lparr>ssr_samples = p, ssr_sample_index = k, ssr_is_kernel_stack = (eh_type h = 37), ssr_stack_event_timestamp = eh_timestamp h\<rparr>"
    let ?m = "(ec_cached_samples c)(key \<mapsto> (case ec_cached_samples c key of None \<Rightarrow> [] | Some rs \<Rightarrow> rs) @ [?r])"
    have "ref_sound es (samples_at c) key ?r" using find_sample_Some [OF Some] event by (auto simp: ref_sound_def Pair)
    then have "ref_sound es (samples_at c) k' r" if "?m k' = Some refs" "r \<in> set refs" for k' refs r
      using that snd by (auto simp: etl_sound_def split: if_splits option.splits)
    then have "etl_sound ip_hash ps es (c\<lparr>ec_cached_samples := ?m\<rparr>)"
      using snd unfolding etl_sound_def by simp
    then have "etl_sound ip_hash ps es (c\<lparr>ec_cached_samples := ?m, ec_sources_with_stacks := insert src (ec_sources_with_stacks c)\<rparr>)"
      by (rule etl_sound_same) simp_all
    with Some show ?thesis by (simp add: remember_sample_def Pair)
  qed (use snd in \<open>simp add: remember_sample_def Pair\<close>)
qed

lemma handle_stack_key_sound:
  assumes "etl_sound ip_hash ps es c" "(h, Stack_key_event tid et key) \<in> set es"
  shows "etl_sound ip_hash ps es (handle_stack_key h tid et key c)"
proof -
  have "etl_sound ip_hash ps es (fold (remember_sample (eh_type h = 37) (eh_timestamp h) et key) xs d)"
    if "etl_sound ip_hash ps es d" "\<forall>x \<in> set xs. place_thread (fst x) = tid" for xs d
    using that by (induction xs arbitrary: d) (auto simp: assms(2) remember_sample_sound)
  with assms(1) places_of_thread show ?thesis unfolding handle_stack_key_def by blast
qed

lemma apply_stack_sound:
  assumes snd: "etl_sound ip_hash ps es c" and refs: "ec_cached_samples c key = Some refs" "r \<in> set refs"
    and i: "i < length (stacks (ec_stacks c))"
    and event: "(h', Stack_definition_event key (stack_get (ec_stacks c) i)) \<in> set es" "eh_type h' \<noteq> 34" "stack_get (ec_stacks c) i \<noteq> []"
  shows "etl_sound ip_hash ps es (apply_stack i r c)"
proof -
  have r: "ref_sound es (samples_at c) key r" using snd refs unfolding etl_sound_def by blast
  then obtain h where h: "(h, Stack_key_event (place_thread (ssr_samples r)) (es_timestamp (samples_at c (ssr_samples r) ! ssr_sample_index r)) key) \<in> set es"
      "eh_timestamp h = ssr_stack_event_timestamp r" "(eh_type h = 37) = ssr_is_kernel_stack r"
    unfolding ref_sound_def by blast
  have "stack_recorded ps es (place_thread (ssr_samples r)) (es_timestamp (samples_at c (ssr_samples r) ! ssr_sample_index r))
      (ssr_is_kernel_stack r) (stack_get (ec_stacks c) i) (ssr_stack_event_timestamp r)"
    using h event unfolding stack_recorded_def by blast
  with set_stack_sound [OF snd i] r show ?thesis
    by (simp add: apply_stack_def Let_def ref_sound_def)
qed

lemma apply_stack_sel [simp]:
  "ec_stacks (apply_stack i r c) = ec_stacks c" "ec_cached_samples (apply_stack i r c) = ec_cached_samples c"
  by (simp_all add: apply_stack_def Let_def)

lemma handle_stack_definition_sound:
  assumes snd: "etl_sound ip_hash ps es c" and run: "handle_stack_definition ip_hash h' key stack c = Inr c'"
    and event: "(h', Stack_definition_event key stack) \<in> set es"
  shows "etl_sound ip_hash ps es c'"
proof (cases "eh_type h' = 34 \<or> ec_cached_samples c key = None")
  case True
  with run snd show ?thesis by (auto simp: handle_stack_definition_def split: if_splits)
next
  case False
  then obtain refs where refs: "ec_cached_samples c key = Some refs" by blast
  obtain cache i where ins: "stack_insert ip_hash (ec_stacks c) stack = (cache, i)" by fastforce
  have ne: "stack \<noteq> []" and c': "c' = (fold (apply_stack i) refs (c\<lparr>ec_stacks := cache\<rparr>))\<lparr>ec_cached_samples := (ec_cached_samples c)(key := None)\<rparr>"
    using run False by (simp_all add: handle_stack_definition_def refs ins split: if_splits)
  have "cache_wf ip_hash (ec_stacks c)" using snd by (simp add: etl_sound_def)
  note grow = cache_grows [OF this ins]
  have "etl_sound ip_hash ps es (fold (apply_stack i) rs d) \<and> ec_cached_samples (fold (apply_stack i) rs d) = ec_cached_samples c"
    if "etl_sound ip_hash ps es d" "ec_stacks d = cache" "ec_cached_samples d = ec_cached_samples c" "set rs \<subseteq> set refs" for rs d
    using that
  proof (induction rs arbitrary: d)
    case (Cons r rs)
    have "etl_sound ip_hash ps es (apply_stack i r d)"
      by (rule apply_stack_sound [OF Cons.prems(1), of key refs]) (use Cons.prems refs grow event ne False in auto)
    with Cons show ?case by simp
  qed simp
  from this [OF etl_sound_cache [OF snd ins], of refs] show ?thesis
    unfolding c' etl_sound_def by auto
qed

lemma etl_sound_append:
  assumes snd: "etl_sound ip_hash ps es c" and other: "ec_stacks c' = ec_stacks c" "ec_cached_samples c' = ec_cached_samples c"
    and at: "\<And>p. samples_at c' p = samples_at c p \<or> samples_at c' p = samples_at c p @ [s]"
    and s: "es_user_stack s = None" "es_kernel_stack s = None"
  shows "etl_sound ip_hash ps es c'"
proof -
  have "sample_sound ps es (ec_stacks c) tid s" for tid using s by (simp add: sample_sound_def index_recorded_def)
  then have "\<forall>x \<in> set (samples_at c' p). sample_sound ps es (ec_stacks c) (place_thread p) x" for p
    using snd at [of p] unfolding etl_sound_def by auto
  moreover have "ref_sound es (samples_at c') key r" if "ref_sound es (samples_at c) key r" for key r
    using that at [of "ssr_samples r"] by (auto simp: ref_sound_def nth_append)
  ultimately show ?thesis using snd unfolding etl_sound_def other by blast
qed

lemma add_pmc_sample_at:
  "(if k < length (add_pmc_sample src s ps) then pss_samples (add_pmc_sample src s ps ! k) else []) =
     (if k < length ps then pss_samples (ps ! k) else []) \<or>
   (if k < length (add_pmc_sample src s ps) then pss_samples (add_pmc_sample src s ps ! k) else []) =
     (if k < length ps then pss_samples (ps ! k) else []) @ [s]"
proof (induction src s ps arbitrary: k rule: add_pmc_sample.induct)
  case (1 src s)
  then show ?case by simp
next
  case (2 src s p ps)
  show ?case
  proof (cases k)
    case 0
    then show ?thesis by simp
  next
    case (Suc n)
    with 2 [of n] show ?thesis by auto
  qed
qed

lemma handle_sampled_profile_sound:
  "etl_sound ip_hash ps es c \<Longrightarrow> etl_sound ip_hash ps es (handle_sampled_profile h tid ip c)"
  by (rule etl_sound_append [where s = "new_sample tid (eh_timestamp h) ip"])
    (auto simp: handle_sampled_profile_def new_sample_def samples_at_def split: samples_place.split)

lemma handle_pmc_profile_sound:
  assumes "etl_sound ip_hash ps es c"
  shows "etl_sound ip_hash ps es (handle_pmc_profile h tid src ip c)"
proof (rule etl_sound_append [OF assms, where s = "new_sample tid (eh_timestamp h) ip"])
  fix p
  let ?s = "new_sample tid (eh_timestamp h) ip" and ?ps = "case ec_pmc_samples c tid of None \<Rightarrow> [] | Some ps \<Rightarrow> ps"
  show "samples_at (handle_pmc_profile h tid src ip c) p = samples_at c p \<or>
      samples_at (handle_pmc_profile h tid src ip c) p = samples_at c p @ [?s]"
  proof (cases p)
    case (Pmc_samples t k)
    show ?thesis
    proof (cases "t = tid")
      case True
      have "samples_at c p = (if k < length ?ps then pss_samples (?ps ! k) else [])"
        by (simp add: samples_at_def Pmc_samples True split: option.split)
      with add_pmc_sample_at [of k src ?s ?ps] show ?thesis
        by (simp add: handle_pmc_profile_def samples_at_def Pmc_samples True)
    qed (simp add: handle_pmc_profile_def samples_at_def Pmc_samples)
  qed (simp add: handle_pmc_profile_def samples_at_def)
qed (simp_all add: handle_pmc_profile_def new_sample_def)

lemma handle_etl_event_sound:
  assumes snd0: "etl_sound ip_hash ps es0 c" and run: "handle_etl_event utf ip_hash ps h e c = Inr c'"
  shows "etl_sound ip_hash ps (es0 @ [(h, e)]) c'"
proof -
  let ?es = "es0 @ [(h, e)]"
  have snd: "etl_sound ip_hash ps ?es c" by (rule etl_sound_more [OF snd0]) auto
  show ?thesis
  proof (cases "is_sample_event e \<or> is_stack_event e")
    case False
    then have "same_samples c c'" using other_events [OF _ _ run] by blast
    then show ?thesis by (intro etl_sound_same [OF snd]) (simp_all add: same_samples_def samples_at_def [abs_def])
  next
    case True
    then consider tid time stack where "e = Stack_event tid time stack" | tid time key where "e = Stack_key_event tid time key"
      | key stack where "e = Stack_definition_event key stack" | tid ip where "e = Sampled_profile_event tid ip"
      | tid src ip where "e = Pmc_profile_event tid src ip"
      by (cases e) (auto simp: is_sample_event_def is_stack_event_def)
    then show ?thesis
    proof cases
      case 1
      with run show ?thesis by (intro handle_stack_sound [OF snd]) (auto simp: handle_etl_event_def)
    next
      case 2
      with run have "c' = handle_stack_key h tid time key c" by (simp add: handle_etl_event_def)
      then show ?thesis using handle_stack_key_sound [OF snd] 2 by auto
    next
      case 3
      with run show ?thesis by (intro handle_stack_definition_sound [OF snd]) (auto simp: handle_etl_event_def)
    next
      case 4
      with run have "c' = handle_sampled_profile h tid ip c" by (simp add: handle_etl_event_def)
      then show ?thesis using handle_sampled_profile_sound [OF snd] by simp
    next
      case 5
      with run have "c' = handle_pmc_profile h tid src ip c" by (simp add: handle_etl_event_def)
      then show ?thesis using handle_pmc_profile_sound [OF snd] by simp
    qed
  qed
qed

lemma empty_etl_sound: "etl_sound ip_hash ps [] empty_etl_context"
  by (simp add: etl_sound_def empty_etl_context_def cache_wf_empty samples_at_def split: samples_place.split)

lemma source_samples_placed:
  assumes "s \<in> set (source_samples c tid src)"
  shows "\<exists>p. place_thread p = tid \<and> s \<in> set (samples_at c p)"
proof -
  have regular: ?thesis if "ec_samples c tid = Some xs" "s \<in> set xs" for xs
    by (rule exI [of _ "Regular_samples tid"]) (simp add: samples_at_def that)
  show ?thesis
  proof (cases "\<exists>ps p. ec_pmc_samples c tid = Some ps \<and> List.find (\<lambda>p. pss_source p = src) ps = Some p")
    case True
    then obtain ps p where p: "ec_pmc_samples c tid = Some ps" "List.find (\<lambda>p. pss_source p = src) ps = Some p" by blast
    then obtain k where "k < length ps" "p = ps ! k" by (auto simp: find_Some_iff)
    with p assms show ?thesis
      by (intro exI [of _ "Pmc_samples tid k"]) (simp add: samples_at_def source_samples_def)
  next
    case False
    then have "s \<in> set (case ec_samples c tid of None \<Rightarrow> [] | Some xs \<Rightarrow> xs)"
    proof (cases "ec_pmc_samples c tid")
      case None
      with assms show ?thesis by (cases "src = 0") (simp_all add: source_samples_def Let_def)
    next
      case (Some ps)
      with False have "List.find (\<lambda>p. pss_source p = src) ps = None" by (cases "List.find (\<lambda>p. pss_source p = src) ps") auto
      with Some assms show ?thesis by (cases "src = 0") (simp_all add: source_samples_def Let_def)
    qed
    with regular show ?thesis by (cases "ec_samples c tid") auto
  qed
qed

text \<open>C30: Stacks are not mixed up: if a sample of a thread has a stack for the user or the kernel part, then
  its index is one of the stack cache, and the recording has that very stack for this thread and the time of the
  sample, either in an event of its own or as the definition of a key that was given for them, of the same
  part and with the time that is kept.\<close>
theorem etl_stacks_are_recorded:
  assumes run: "handle_etl_events utf ip_hash ps es empty_etl_context = Inr c"
    and s: "s \<in> set (source_samples c tid src)"
  shows "(es_user_stack s = Some i \<longrightarrow> i < length (stacks (ec_stacks c)) \<and>
      stack_recorded ps es tid (es_timestamp s) False (stack_get (ec_stacks c) i) (es_user_timestamp s)) \<and>
    (es_kernel_stack s = Some i \<longrightarrow> i < length (stacks (ec_stacks c)) \<and>
      stack_recorded ps es tid (es_timestamp s) True (stack_get (ec_stacks c) i) (es_kernel_timestamp s))"
proof -
  have "etl_sound ip_hash ps es c"
    using handle_etl_events_append [where P = "etl_sound ip_hash ps", OF handle_etl_event_sound empty_etl_sound run] by simp
  moreover obtain p where "place_thread p = tid" "s \<in> set (samples_at c p)" using source_samples_placed [OF s] by blast
  ultimately have "sample_sound ps es (ec_stacks c) tid s" unfolding etl_sound_def by blast
  then show ?thesis by (simp add: sample_sound_def index_recorded_def)
qed

section \<open>Example\<close>

definition stack_example :: "(etl_header \<times> etl_event) list" where
  "stack_example =
     [(\<lparr>eh_type = 46, eh_timestamp = 200\<rparr>, Sampled_profile_event 8 0x1010),
      (\<lparr>eh_type = 32, eh_timestamp = 201\<rparr>, Stack_event 8 200 [0x1010, 0x1020]),
      (\<lparr>eh_type = 46, eh_timestamp = 210\<rparr>, Sampled_profile_event 8 0x1018)]"

lemma stack_example_run:
  "\<exists>c. handle_etl_events utf (\<lambda>ip. ip) 8 stack_example empty_etl_context = Inr c \<and>
     source_samples c 8 0 = [(new_sample 8 200 0x1010)\<lparr>es_user_stack := Some 0, es_user_timestamp := 201\<rparr>, new_sample 8 210 0x1018]"
proof -
  obtain cache where i: "stack_insert (\<lambda>ip. ip) empty_stack_cache [0x1010, 0x1020] = (cache, 0)"
    using stack_insert_cases [OF cache_wf_empty, of "\<lambda>ip. ip" "[0x1010, 0x1020]"]
    by (cases "stack_insert (\<lambda>ip. ip) empty_stack_cache [0x1010, 0x1020]") (auto simp: empty_stack_cache_def)
  show ?thesis
    by (simp add: handle_etl_events_def stack_example_def handle_etl_event_def handle_sampled_profile_def bind_result_def
        handle_stack_def places_of_def attach_stack_def samples_at_def set_samples_at_def find_sample_def new_sample_def
        empty_etl_context_def i set_stack_def is_kernel_address_def source_samples_def Let_def)
qed

theorem etl_samples_are_filed_witness:
  "\<exists>c. handle_etl_events ascii_library (\<lambda>ip. ip) 8 stack_example empty_etl_context = Inr c \<and>
     map (\<lambda>s. (es_thread_id s, es_timestamp s, es_instruction_pointer s)) (source_samples c 8 0) =
       [(8, 200, 0x1010), (8, 210, 0x1018)]"
proof -
  obtain c where c: "handle_etl_events ascii_library (\<lambda>ip. ip) 8 stack_example empty_etl_context = Inr c"
    using stack_example_run by blast
  with etl_samples_are_filed [OF c, of 8 0] show ?thesis
    by (simp add: stack_example_def pmc_event_def regular_event_def)
qed

theorem etl_stacks_are_recorded_witness:
  "\<exists>c s. handle_etl_events ascii_library (\<lambda>ip. ip) 8 stack_example empty_etl_context = Inr c \<and>
     s \<in> set (source_samples c 8 0) \<and> es_user_stack s = Some 0 \<and>
     stack_recorded 8 stack_example 8 200 False (stack_get (ec_stacks c) 0) 201"
proof -
  obtain c where c: "handle_etl_events ascii_library (\<lambda>ip. ip) 8 stack_example empty_etl_context = Inr c"
      "source_samples c 8 0 = [(new_sample 8 200 0x1010)\<lparr>es_user_stack := Some 0, es_user_timestamp := 201\<rparr>, new_sample 8 210 0x1018]"
    using stack_example_run by blast
  let ?s = "(new_sample 8 200 0x1010)\<lparr>es_user_stack := Some 0, es_user_timestamp := 201\<rparr>"
  have s: "?s \<in> set (source_samples c 8 0)" by (simp add: c(2))
  with c etl_stacks_are_recorded [OF c(1) s, of 0] show ?thesis
    by (intro exI [of _ c] exI [of _ ?s]) (simp add: new_sample_def)
qed

end
