(* ===== verification/EtlSwitches.thy ===== *)
theory EtlSwitches
  imports EtlSamples
begin

text \<open>
  The counts of context switches of a Windows recording: what waits for a thread, what it has, and that
  nothing is counted twice.
\<close>

section \<open>Context switches\<close>

definition switch_total :: "(u32, u64, etl_thread) history \<Rightarrow> u32 \<Rightarrow> nat" where
  "switch_total h i = (\<Sum>e \<leftarrow> history_entries h i. et_context_switches (payload e))"

definition waiting_switches :: "etl_context \<Rightarrow> u32 \<Rightarrow> nat" where
  "waiting_switches c i = (case ec_switch_data c i of None \<Rightarrow> 0 | Some d \<Rightarrow> cs_exit_count d)"

definition switches_from :: "u32 \<Rightarrow> etl_header \<times> etl_event \<Rightarrow> bool" where
  "switches_from i = (\<lambda>(h, e). case e of Context_switch_event old_tid _ _ \<Rightarrow> old_tid = i | _ \<Rightarrow> False)"

definition switches_bounded :: "(etl_header \<times> etl_event) list \<Rightarrow> etl_context \<Rightarrow> bool" where
  "switches_bounded es c \<longleftrightarrow>
     (\<forall>i. switch_total (ec_threads c) i + waiting_switches c i \<le> length (filter (switches_from i) es))"

lemma sum_update:
  "f y \<le> f (xs ! k) + d \<Longrightarrow> sum_list (map f (xs[k := y])) \<le> sum_list (map f xs) + (d :: nat)"
proof (induction xs arbitrary: k)
  case (Cons x xs)
  show ?case
  proof (cases k)
    case (Suc n)
    with Cons.IH [of n] Cons.prems show ?thesis by simp
  qed (use Cons.prems in simp)
qed simp

lemma total_modify:
  assumes "\<And>t. et_context_switches (g t) \<le> et_context_switches t + d"
  shows "switch_total (history_modify h i t g) j \<le> switch_total h j + (if j = i then d else 0)"
proof (cases "h i")
  case (Some es)
  let ?k = "length es - 1 - length (takeWhile (\<lambda>e. \<not> timestamp e \<le> t) (rev es))"
  let ?f = "\<lambda>e. et_context_switches (payload e)"
  have "sum_list (map ?f (es[?k := (es ! ?k)\<lparr>payload := g (payload (es ! ?k))\<rparr>])) \<le> sum_list (map ?f es) + d"
    by (rule sum_update) (use assms [of "payload (es ! ?k)"] in simp)
  with Some show ?thesis by (simp add: switch_total_def history_modify_def history_entries_def Let_def)
qed (simp add: history_modify_def)

lemma total_modify_last:
  assumes "\<And>t. et_context_switches (g t) \<le> et_context_switches t + d" "history_wf h"
  shows "switch_total (modify_last h i g) j \<le> switch_total h j + (if j = i then d else 0)"
proof (cases "h i")
  case (Some es)
  let ?f = "\<lambda>e. et_context_switches (payload e)"
  have "es \<noteq> []" by (rule history_wfD(1) [OF assms(2) Some])
  then obtain ys x where es: "es = ys @ [x]" by (cases es rule: rev_cases) auto
  with Some assms(1) [of "payload x"] show ?thesis
    by (simp add: switch_total_def modify_last_def history_entries_def)
qed (simp add: modify_last_def)

lemma total_insert:
  "et_context_switches p = 0 \<Longrightarrow> switch_total (fst (history_insert eq h i t p)) j = switch_total h j"
  by (simp add: switch_total_def history_insert_def history_entries_def Let_def split: option.split)

lemma add_switch_data_count: "et_context_switches (add_switch_data d t) = et_context_switches t + cs_exit_count d"
  by (simp add: add_switch_data_def Let_def)

lemma start_thread_total: "switch_total (ec_threads (start_thread h tid pid name c)) i = switch_total (ec_threads c) i"
proof -
  let ?t = "\<lparr>et_process_id = pid, et_end_time = None, et_unique_id = None, et_name = name, et_context_switches = 0, et_pmc_counts = []\<rparr>"
  have "ec_threads (start_thread h tid pid name c) = fst (history_insert same_etl_thread (ec_threads c) tid (eh_timestamp h) ?t)"
    by (simp add: start_thread_def Let_def split: prod.split)
  then show ?thesis by (simp add: total_insert)
qed

lemma end_thread_total: "switch_total (ec_threads (end_thread h tid c)) i \<le> switch_total (ec_threads c) i"
  using total_modify [of "et_end_time_update (\<lambda>_. Some (eh_timestamp h))" 0 "ec_threads c" tid "eh_timestamp h" i]
  by (simp add: end_thread_def)

lemma add_waiting_total:
  assumes "etl_wf c"
  shows "switch_total (ec_threads (add_waiting h tid c)) i + waiting_switches (add_waiting h tid c) i \<le>
    switch_total (ec_threads c) i + waiting_switches c i"
proof (cases "ec_switch_data c tid")
  case (Some d)
  have wf: "history_wf (ec_threads c)" using assms by (simp add: etl_wf_def)
  have "et_context_switches (add_switch_data d t) \<le> et_context_switches t + cs_exit_count d" for t
    by (simp add: add_switch_data_count)
  note le = total_modify [where g = "add_switch_data d", OF this, of "ec_threads c" tid "eh_timestamp h" i]
    total_modify_last [where g = "add_switch_data d", OF this wf, of tid i]
  show ?thesis using le Some by (simp add: add_waiting_def waiting_switches_def split: if_splits)
qed (simp add: add_waiting_def)

lemma handle_thread_total:
  assumes "etl_wf c"
  shows "switch_total (ec_threads (handle_thread h tid pid name c)) i + waiting_switches (handle_thread h tid pid name c) i \<le>
    switch_total (ec_threads c) i + waiting_switches c i"
proof -
  let ?c = "if is_start h then start_thread h tid pid name c else if is_end h then end_thread h tid c else c"
  have "etl_wf ?c" using assms by (simp add: start_thread_wf end_thread_wf)
  moreover have "ec_switch_data ?c = ec_switch_data c"
    by (simp add: start_thread_def end_thread_def Let_def split: prod.split)
  then have "waiting_switches ?c i = waiting_switches c i" by (simp add: waiting_switches_def)
  moreover have "switch_total (ec_threads ?c) i \<le> switch_total (ec_threads c) i"
    by (simp add: start_thread_total end_thread_total)
  ultimately show ?thesis using add_waiting_total [of ?c h tid i] by (simp add: handle_thread_def)
qed

text \<open>A context switch.\<close>

definition has_switches :: "etl_context \<Rightarrow> u32 \<Rightarrow> bool" where
  "has_switches c i \<longleftrightarrow> ec_switch_data c i \<noteq> None"

lemma has_update: "has_switches c i \<Longrightarrow> has_switches (update_switch_data tid g c) i"
  by (simp add: update_switch_data_def has_switches_def)

lemma has_get: "has_switches (get_switch_data tid time c) tid"
  "has_switches c i \<Longrightarrow> has_switches (get_switch_data tid time c) i"
  by (auto simp: get_switch_data_def has_switches_def)

lemma waiting_update_same:
  assumes "has_switches c tid" "\<And>d. cs_exit_count (g d) = cs_exit_count d"
  shows "waiting_switches (update_switch_data tid g c) = waiting_switches c"
  using assms by (auto simp: has_switches_def waiting_switches_def update_switch_data_def fun_eq_iff)

lemma waiting_update_exit:
  "has_switches c tid \<Longrightarrow> waiting_switches (update_switch_data tid (\<lambda>d. d\<lparr>cs_exit_count := cs_exit_count d + 1\<rparr>) c) i =
     waiting_switches c i + (if i = tid then 1 else 0)"
  by (auto simp: has_switches_def waiting_switches_def update_switch_data_def)

lemma waiting_get: "waiting_switches (get_switch_data tid time c) = waiting_switches c"
  by (auto simp: get_switch_data_def waiting_switches_def new_switch_data_def fun_eq_iff)

lemma count_pmc_waiting:
  assumes "has_switches c old_tid" "has_switches c new_tid"
  shows "waiting_switches (count_pmc old_tid new_tid k v c) = waiting_switches c"
    "has_switches (count_pmc old_tid new_tid k v c) old_tid" "has_switches (count_pmc old_tid new_tid k v c) new_tid"
  using assms by (cases "old_tid = 0", simp_all add: count_pmc_def Let_def waiting_update_same has_update)+

lemma handle_context_switch_waiting:
  "waiting_switches (handle_context_switch h old_tid new_tid vs c) i = waiting_switches c i + (if i = old_tid then 1 else 0)"
proof -
  let ?has = "\<lambda>c. has_switches c old_tid \<and> has_switches c new_tid"
  let ?seen = "\<lambda>d. d\<lparr>cs_last_time := max (cs_last_time d) (eh_timestamp h)\<rparr>"
  obtain c2 where c2: "c2 = update_switch_data new_tid ?seen (update_switch_data old_tid ?seen
      (get_switch_data new_tid (eh_timestamp h) (get_switch_data old_tid (eh_timestamp h) (c\<lparr>ec_has_context_switches := True\<rparr>))))"
    by blast
  have 2: "?has c2" unfolding c2 by (intro conjI has_update has_get)
  have w2: "waiting_switches c2 = waiting_switches c" unfolding c2
    by (simp add: waiting_update_same has_update has_get waiting_get) (simp add: waiting_switches_def fun_eq_iff)
  obtain c3 where c3: "c3 = update_switch_data new_tid (\<lambda>d. d\<lparr>cs_enter_count := cs_enter_count d + 1\<rparr>)
      (update_switch_data old_tid (\<lambda>d. d\<lparr>cs_exit_count := cs_exit_count d + 1\<rparr>) c2)" by blast
  have 3: "?has c3" unfolding c3 using 2 by (simp add: has_update)
  have w3: "waiting_switches c3 i = waiting_switches c i + (if i = old_tid then 1 else 0)"
    unfolding c3 using 2 waiting_update_exit [of c2 old_tid i]
    by (subst waiting_update_same) (simp_all add: has_update w2)
  have run: "handle_context_switch h old_tid new_tid vs c = (case vs of None \<Rightarrow> c3 | Some vs \<Rightarrow>
      let resize = (\<lambda>d. d\<lparr>cs_counters := resize_counters (length vs) (cs_counters d)\<rparr>);
          c4 = update_switch_data new_tid resize (update_switch_data old_tid resize c3)
      in foldl (\<lambda>c k. count_pmc old_tid new_tid k (vs ! k) c) c4 [0..<length vs])"
    unfolding handle_context_switch_def Let_def c2 c3 by (rule refl)
  show ?thesis
  proof (cases vs)
    case (Some pmc)
    let ?resize = "\<lambda>d. d\<lparr>cs_counters := resize_counters (length pmc) (cs_counters d)\<rparr>"
    let ?c4 = "update_switch_data new_tid ?resize (update_switch_data old_tid ?resize c3)"
    have "?has ?c4 \<and> waiting_switches ?c4 = waiting_switches c3"
      using 3 by (simp add: has_update waiting_update_same)
    then have "?has (foldl (\<lambda>c k. count_pmc old_tid new_tid k (pmc ! k) c) ?c4 ks) \<and>
        waiting_switches (foldl (\<lambda>c k. count_pmc old_tid new_tid k (pmc ! k) c) ?c4 ks) = waiting_switches c3" for ks
      by (intro foldl_invariant [where P = "\<lambda>c. ?has c \<and> waiting_switches c = waiting_switches c3"])
        (simp_all add: count_pmc_waiting)
    then show ?thesis unfolding run using w3 by (simp add: Some Let_def)
  qed (unfold run, simp add: w3)
qed

text \<open>All events.\<close>

definition is_counted_event :: "etl_event \<Rightarrow> bool" where
  "is_counted_event e \<longleftrightarrow> (case e of Context_switch_event _ _ _ \<Rightarrow> True | Thread_event _ _ _ \<Rightarrow> True | _ \<Rightarrow> False)"

definition same_counts :: "etl_context \<Rightarrow> etl_context \<Rightarrow> bool" where
  "same_counts c c' \<longleftrightarrow> ec_threads c' = ec_threads c \<and> ec_switch_data c' = ec_switch_data c"

lemma uncounted_events:
  assumes "\<not> is_counted_event e" "handle_etl_event utf ip_hash ps h e c = Inr c'"
  shows "same_counts c c'"
proof (cases "is_stack_event e")
  case True
  with assms have "same_lives c c'"
    by (auto simp: is_stack_event_def handle_etl_event_def handle_stack_lives handle_stack_key_lives handle_stack_definition_lives
        split: etl_event.splits)
  then show ?thesis by (simp add: same_lives_def same_counts_def)
next
  case False
  show ?thesis
    by (cases e; insert assms False; auto simp: same_counts_def is_counted_event_def is_stack_event_def handle_etl_event_def
      handle_logical_disk_def handle_pnp_def handle_system_paths_def
      handle_volume_mapping_def handle_process_def handle_image_load_def handle_pdb_info_def handle_sampled_profile_def
      handle_pmc_profile_def handle_profile_interval_def bind_result_def Let_def
      split: sum.splits if_splits prod.splits option.splits)
qed

lemma handle_etl_event_switches:
  assumes b: "etl_wf c \<and> etl_unfinished c \<and> switches_bounded es c" and run: "handle_etl_event utf ip_hash ps h e c = Inr c'"
  shows "etl_wf c' \<and> etl_unfinished c' \<and> switches_bounded (es @ [(h, e)]) c'"
proof -
  have more: "switches_bounded (es @ [(h, e)]) c'"
    if "\<And>i. switch_total (ec_threads c') i + waiting_switches c' i \<le> switch_total (ec_threads c) i + waiting_switches c i"
  proof -
    have "switch_total (ec_threads c) i + waiting_switches c i \<le> length (filter (switches_from i) es)" for i
      using b by (simp add: switches_bounded_def)
    then have "switch_total (ec_threads c') i + waiting_switches c' i \<le> length (filter (switches_from i) es)" for i
      using that [of i] le_trans by blast
    then show ?thesis by (auto simp: switches_bounded_def intro: le_SucI)
  qed
  have "switches_bounded (es @ [(h, e)]) c'"
  proof (cases "is_counted_event e")
    case False
    from uncounted_events [OF this run] show ?thesis by (intro more) (simp add: same_counts_def waiting_switches_def)
  next
    case True
    then consider old_tid new_tid vs where "e = Context_switch_event old_tid new_tid vs" | tid pid name where "e = Thread_event tid pid name"
      by (cases e) (auto simp: is_counted_event_def)
    then show ?thesis
    proof cases
      case (1 old_tid new_tid vs)
      with run have c': "c' = handle_context_switch h old_tid new_tid vs c" by (simp add: handle_etl_event_def)
      obtain m where "c' = c\<lparr>ec_has_context_switches := True, ec_switch_data := m\<rparr>"
        using handle_context_switch_only [of c h old_tid new_tid vs] unfolding c' switches_only_def by blast
      then have "ec_threads c' = ec_threads c" by simp
      moreover have "waiting_switches c' i = waiting_switches c i + (if i = old_tid then 1 else 0)" for i
        unfolding c' by (rule handle_context_switch_waiting)
      ultimately show ?thesis using b by (auto simp: switches_bounded_def switches_from_def 1)
    next
      case (2 tid pid name)
      with run have "c' = handle_thread h tid pid name c" by (simp add: handle_etl_event_def)
      with handle_thread_total b show ?thesis by (intro more) blast
    qed
  qed
  with handle_etl_event_wf [OF _ run] b show ?thesis by blast
qed

lemma empty_switches: "switches_bounded [] empty_etl_context"
  by (simp add: switches_bounded_def switch_total_def waiting_switches_def empty_etl_context_def history_entries_def)

lemma flush_total:
  assumes "ec_switch_data c tid \<noteq> None"
  shows "switch_total (ec_threads (flush_switch_data tid c)) i \<le>
    switch_total (ec_threads c) i + (if i = tid then waiting_switches c i else 0)"
proof -
  obtain d where d: "ec_switch_data c tid = Some d" using assms by blast
  have "et_context_switches (add_switch_data d t) \<le> et_context_switches t + cs_exit_count d" for t
    by (simp add: add_switch_data_count)
  from total_modify [where g = "add_switch_data d", OF this, of "ec_threads c" tid "cs_first_time d" i] d show ?thesis
    by (auto simp: flush_switch_data_def Let_def waiting_switches_def)
qed

lemma flush_sel: "ec_switch_data (flush_switch_data tid c) = ec_switch_data c"
  by (simp add: flush_switch_data_def Let_def)

lemma flush_all_total:
  assumes "distinct ids" "set ids \<subseteq> dom (ec_switch_data c)"
  shows "switch_total (ec_threads (fold flush_switch_data ids c)) i \<le>
    switch_total (ec_threads c) i + (if i \<in> set ids then waiting_switches c i else 0)"
  using assms
proof (induction ids arbitrary: c)
  case (Cons x ids)
  have w: "waiting_switches (flush_switch_data x c) i = waiting_switches c i" by (simp add: waiting_switches_def flush_sel)
  have "ec_switch_data c x \<noteq> None" using Cons.prems(2) by auto
  from flush_total [OF this, of i] Cons.IH [of "flush_switch_data x c"] Cons.prems
  show ?case by (auto simp: flush_sel w split: if_splits)
qed simp

lemma connect_counts:
  "ec_threads (connect_etl_threads ord c) = ec_threads c" "ec_switch_data (connect_etl_threads ord c) = ec_switch_data c"
proof -
  have "ec_threads (connect_etl_threads ord c) = ec_threads c \<and> ec_switch_data (connect_etl_threads ord c) = ec_switch_data c"
    unfolding connect_etl_threads_def
    by (intro foldl_invariant [where P = "\<lambda>d. ec_threads d = ec_threads c \<and> ec_switch_data d = ec_switch_data c"])
      (simp_all add: connect_etl_thread_def split: option.split)
  then show "ec_threads (connect_etl_threads ord c) = ec_threads c" "ec_switch_data (connect_etl_threads ord c) = ec_switch_data c"
    by auto
qed

text \<open>C31: Context switches are never counted twice: after a recording is finished, the counts of all entries of a
  thread id add up to no more than the context switches away from that id in the recording, however starts
  and ends of threads, the reuse of ids and the counts that wait interleave.\<close>
theorem context_switches_not_doubled:
  assumes run: "handle_etl_events utf ip_hash ps es empty_etl_context = Inr c0" and ord: "key_order_spec ord"
    and fin: "etl_finish utf ord path_ord c0 = Inr c"
  shows "(\<Sum>e \<leftarrow> history_entries (ec_threads c) i. et_context_switches (payload e)) \<le> length (filter (switches_from i) es)"
proof -
  have "etl_wf c0 \<and> etl_unfinished c0 \<and> switches_bounded ([] @ es) c0"
    by (rule handle_etl_events_append [where P = "\<lambda>es c. etl_wf c \<and> etl_unfinished c \<and> switches_bounded es c", OF _ _ run])
      (use empty_switches empty_etl_wf in \<open>auto dest: handle_etl_event_switches [rotated]\<close>)
  then have wf: "etl_wf c0" "etl_unfinished c0" and b: "switches_bounded es c0" by auto
  obtain c3 where c3: "names_only (map_paths path_ord (connect_etl_threads ord (assign_etl_ids ord c0))) c3"
      "profiled_only (flush_all_switch_data ord c3) c"
    using etl_finish_named [OF ord wf fin] by blast
  have same: "ec_threads c3 = ec_threads (assign_etl_ids ord c0)" "ec_switch_data c3 = ec_switch_data c0"
    using c3(1) conjunct2 [OF assign_etl_ids_ready(1) [OF ord wf]]
    by (auto simp: names_only_def map_paths_def connect_counts)
  have "switch_total (ec_threads (assign_etl_ids ord c0)) i = switch_total (ec_threads c0) i"
  proof -
    obtain m where "history_entries (ec_threads (assign_etl_ids ord c0)) i =
        numbered (\<lambda>u. et_unique_id_update (\<lambda>_. Some u)) m (history_entries (ec_threads c0) i)"
      using assign_etl_ids_ready(2) [OF ord wf] by blast
    then have "map (\<lambda>e. et_context_switches (payload e)) (history_entries (ec_threads (assign_etl_ids ord c0)) i) =
        map (\<lambda>e. et_context_switches (payload e)) (history_entries (ec_threads c0) i)"
      by (simp add: numbered_keeps)
    then show ?thesis by (simp add: switch_total_def)
  qed
  moreover have "distinct (ord 5 (dom (ec_switch_data c3)))" "set (ord 5 (dom (ec_switch_data c3))) \<subseteq> dom (ec_switch_data c3)"
    using ord wf(1) by (simp_all add: key_order_spec_def etl_wf_def same)
  from flush_all_total [OF this, of i]
  have "switch_total (ec_threads (flush_all_switch_data ord c3)) i \<le> switch_total (ec_threads c3) i + waiting_switches c0 i"
    by (auto simp: flush_all_switch_data_def waiting_switches_def same split: if_splits)
  moreover have "ec_threads c = ec_threads (flush_all_switch_data ord c3)" using c3(2) unfolding profiled_only_def by fastforce
  ultimately have "switch_total (ec_threads c) i \<le> switch_total (ec_threads c0) i + waiting_switches c0 i"
    by (simp add: same)
  also have "\<dots> \<le> length (filter (switches_from i) es)" using b by (simp add: switches_bounded_def)
  finally show ?thesis by (simp add: switch_total_def)
qed

section \<open>Example\<close>

definition switch_example :: "(etl_header \<times> etl_event) list" where
  "switch_example =
     [(\<lparr>eh_type = 1, eh_timestamp = 110\<rparr>, Thread_event 8 7 None),
      (\<lparr>eh_type = 36, eh_timestamp = 200\<rparr>, Context_switch_event 8 9 None),
      (\<lparr>eh_type = 2, eh_timestamp = 300\<rparr>, Thread_event 8 7 None)]"

theorem context_switches_not_doubled_witness:
  "\<exists>c0 c. handle_etl_events ascii_library (\<lambda>ip. ip) 8 switch_example empty_etl_context = Inr c0 \<and>
     etl_finish ascii_library sorted_order (\<lambda>_. []) c0 = Inr c \<and>
     (\<Sum>e \<leftarrow> history_entries (ec_threads c) 8. et_context_switches (payload e)) \<le> 1"
proof -
  obtain c0 where c0: "handle_etl_events ascii_library (\<lambda>ip. ip) 8 switch_example empty_etl_context = Inr c0"
    by (simp add: handle_etl_events_def switch_example_def handle_etl_event_def bind_result_def)
  then have wf: "etl_wf c0" "etl_unfinished c0" using handle_etl_events_wf by blast+
  obtain c3 where "name_sources ascii_library sorted_order
      (map_paths (\<lambda>_. []) (connect_etl_threads sorted_order (assign_etl_ids sorted_order c0))) = Inr c3"
    using name_sources_defined [OF ascii_library_total] by blast
  from etl_finish_steps [OF sorted_order_spec wf this]
  obtain c where c: "etl_finish ascii_library sorted_order (\<lambda>_. []) c0 = Inr c" by blast
  have "length (filter (switches_from 8) switch_example) = 1" by (simp add: switch_example_def switches_from_def)
  with context_switches_not_doubled [OF c0 sorted_order_spec c, of 8] c0 c show ?thesis by auto
qed

text \<open>The loop over the sources of a thread ends with the first one it names: a second one without a name stays
  without it.\<close>

lemma one_source_named_per_thread:
  assumes "ec_pmc_samples c tid = Some ps" "p \<in> set ps" "q \<in> set ps" "pss_source p \<noteq> pss_source q"
    "ec_source_names c (pss_source p) = None" "ec_source_names c (pss_source q) = None"
    "name_pmc_source utf tid c = Inr c'"
  shows "ec_source_names c' (pss_source p) = None \<or> ec_source_names c' (pss_source q) = None"
  using assms by (auto simp: name_pmc_source_def bind_result_def split: option.splits sum.splits)

end
