(* ===== verification/EtlProvider.thy ===== *)
theory EtlProvider
  imports PerfProvider EtlSwitches PdbResolver
begin

text \<open>
  The data provider of Windows recordings: \<open>snail/analysis/etl_data_provider.cpp\<close>, on top of a finished process
  context. The symbols are a function of module and address, as the resolver computes them. A generator is the
  list of what it yields; an exception ends it. A frequency of 0 would divide by zero; the recorded one is
  positive.
\<close>

section \<open>Times\<close>

text \<open>Ticks of the performance counter, for a duration whose unit is \<open>num / den\<close> seconds: the arithmetic is
  that of unsigned 64 bit numbers, since the frequency is one; the result is converted to a signed number.\<close>

definition to_qpc_ticks :: "nat \<Rightarrow> nat \<Rightarrow> int \<Rightarrow> u64 \<Rightarrow> int" where
  "to_qpc_ticks num den n frequency =
     (let scaled = unat (of_nat num * frequency); g = gcd scaled den
      in sint ((of_int n * of_nat (scaled div g)) div of_nat (den div g) :: u64))"

definition from_qpc_ticks :: "nat \<Rightarrow> nat \<Rightarrow> int \<Rightarrow> u64 \<Rightarrow> int" where
  "from_qpc_ticks num den ticks frequency =
     (let scaled = unat (of_nat num * frequency); g = gcd den scaled
      in sint ((of_int ticks * of_nat (den div g)) div of_nat (scaled div g) :: u64))"

abbreviation (input) nanoseconds :: nat where "nanoseconds \<equiv> 10 ^ 9"
abbreviation (input) nt_units :: nat where "nt_units \<equiv> 10 ^ 7"

definition from_relative_qpc_ticks :: "u64 \<Rightarrow> u64 \<Rightarrow> u64 \<Rightarrow> int" where
  "from_relative_qpc_ticks ticks start frequency =
     (if ticks < start then 0 else from_qpc_ticks 1 nanoseconds (sint (ticks - start)) frequency)"

definition filter_ticks :: "int \<Rightarrow> u64 \<Rightarrow> u64 \<Rightarrow> u64" where
  "filter_ticks time session_start frequency = session_start + of_int (max (to_qpc_ticks 1 nanoseconds time frequency) 0)"

definition etl_filter_timespan ::
  "(u32, u64, etl_thread) history_entry \<Rightarrow> sample_filter \<Rightarrow> u64 \<Rightarrow> u64 \<Rightarrow> u64 \<times> u64 option" where
  "etl_filter_timespan th f session_start frequency =
     (let filter_min = map_option (\<lambda>t. filter_ticks t session_start frequency) (min_time f);
          filter_max = map_option (\<lambda>t. filter_ticks t session_start frequency) (max_time f);
          sample_min = (case filter_min of Some t \<Rightarrow> max t (timestamp th) | None \<Rightarrow> timestamp th);
          sample_max = (case filter_max of
              Some t \<Rightarrow> (case et_end_time (payload th) of Some e \<Rightarrow> Some (min t e) | None \<Rightarrow> Some t)
            | None \<Rightarrow> et_end_time (payload th))
      in (sample_min, sample_max))"

section \<open>The provider\<close>

text \<open>\<open>wp_process_order\<close> is the order in which the profiled processes are iterated.\<close>

record etl_provider =
  wp_context :: etl_context
  wp_session :: session_info
  wp_system :: system_info
  wp_sources :: "sample_source_info list"
  wp_source_ids :: "u16 list"
  wp_session_start :: u64
  wp_session_end :: u64
  wp_frequency :: u64
  wp_pointer_size :: u32
  wp_process_order :: "perf_key list"

type_synonym etl_symbol_source = "pdb_module option \<times> u64 \<Rightarrow> symbol_info"

definition etl_thread_from_id :: "etl_context \<Rightarrow> nat \<Rightarrow> error + (u32, u64, etl_thread) history_entry option" where
  "etl_thread_from_id c t =
     bind_result (etl_thread_key c t) (\<lambda>key. Inr (history_find_at (ec_threads c) (fst key) (snd key) False))"

section \<open>Frames\<close>

definition etl_resolve_frame :: "etl_symbol_source \<Rightarrow> etl_provider \<Rightarrow> u32 \<Rightarrow> u64 \<Rightarrow> u64 \<Rightarrow> error + stack_frame" where
  "etl_resolve_frame symbols wp pid ip time =
     bind_result (get_etl_modules (wp_context wp) pid) (\<lambda>modules.
       case mm_find modules ip time True of
         None \<Rightarrow> Inr (frame_of_symbol (symbols (None, ip)) ''[unknown]'')
       | Some (m, load_time) \<Rightarrow>
           Inr (frame_of_symbol
             (symbols (Some \<lparr>pm_filename = em_filename (mi_payload m), pm_base = mi_base m,
                pm_checksum = em_checksum (mi_payload m), pm_pdb_info = em_pdb_info (mi_payload m),
                pm_process_id = pid, pm_load_timestamp = load_time\<rparr>, ip))
             (em_filename (mi_payload m))))"

abbreviation (input) kernel_process_id :: u32 where "kernel_process_id \<equiv> 0"

definition stack_frames :: "etl_symbol_source \<Rightarrow> etl_provider \<Rightarrow> u32 \<Rightarrow> nat option \<Rightarrow> u64 \<Rightarrow> error + stack_frame list" where
  "stack_frames symbols wp pid index time =
     (case index of
        None \<Rightarrow> Inr []
      | Some i \<Rightarrow> map_result (\<lambda>ip. etl_resolve_frame symbols wp pid ip time) (rev (stack_get (ec_stacks (wp_context wp)) i)))"

text \<open>What a consumer reads of a sample: the stacks if there is one, otherwise the frame.\<close>

definition etl_sample_data :: "etl_symbol_source \<Rightarrow> etl_provider \<Rightarrow> u32 \<Rightarrow> etl_sample \<Rightarrow> error + sample_data" where
  "etl_sample_data symbols wp pid s =
     (if es_user_stack s = None \<and> es_kernel_stack s = None
      then bind_result (etl_resolve_frame symbols wp pid (es_instruction_pointer s) (es_timestamp s)) (\<lambda>fr.
        Inr \<lparr>has_stack = False, has_frame = True, reversed_stack = [], frame = fr\<rparr>)
      else bind_result (stack_frames symbols wp pid (es_user_stack s) (es_user_timestamp s)) (\<lambda>user.
        bind_result (stack_frames symbols wp kernel_process_id (es_kernel_stack s) (es_kernel_timestamp s)) (\<lambda>kernel.
          Inr \<lparr>has_stack = True, has_frame = True, reversed_stack = user @ kernel, frame = no_frame\<rparr>)))"

section \<open>Samples\<close>

definition etl_spanned_samples :: "etl_provider \<Rightarrow> nat \<Rightarrow> sample_filter \<Rightarrow> (u32, u64, etl_thread) history_entry \<Rightarrow> etl_sample list" where
  "etl_spanned_samples wp src f th =
     (case etl_filter_timespan th f (wp_session_start wp) (wp_frequency wp) of
        (a, b) \<Rightarrow> etl_thread_samples (wp_context wp) (entry_id th) a b (wp_source_ids wp ! src))"

fun etl_collect_threads ::
  "etl_provider \<Rightarrow> nat \<Rightarrow> sample_filter \<Rightarrow> nat list \<Rightarrow> error + etl_sample list list" where
  "etl_collect_threads wp src f [] = Inr []"
| "etl_collect_threads wp src f (t # ts) =
     (if t \<in> excluded_threads f then etl_collect_threads wp src f ts
      else bind_result (etl_thread_from_id (wp_context wp) t) (\<lambda>th_opt.
        case th_opt of
          None \<Rightarrow> etl_collect_threads wp src f ts
        | Some th \<Rightarrow>
            (let xs = etl_spanned_samples wp src f th in
             if xs = [] then etl_collect_threads wp src f ts
             else bind_result (etl_collect_threads wp src f ts) (\<lambda>xss. Inr (xs # xss)))))"

definition etl_sample_infos ::
  "(sample_queue \<Rightarrow> nat) \<Rightarrow> etl_provider \<Rightarrow> nat \<Rightarrow> nat \<Rightarrow> sample_filter \<Rightarrow> error + etl_sample list" where
  "etl_sample_infos top_index wp src pid f =
     bind_result (get_etl_process_threads (wp_context wp) pid) (\<lambda>ts.
     bind_result (etl_collect_threads wp src f ts) (\<lambda>xss.
       case merged_samples es_timestamp top_index xss of None \<Rightarrow> Inl Undefined | Some xs \<Rightarrow> Inr xs))"

definition etl_samples ::
  "etl_symbol_source \<Rightarrow> (sample_queue \<Rightarrow> nat) \<Rightarrow> etl_provider \<Rightarrow> nat \<Rightarrow> nat \<Rightarrow> sample_filter \<Rightarrow> error + sample_data list" where
  "etl_samples symbols top_index wp src pid f =
     (if pid \<in> excluded_processes f then Inr []
      else if src \<ge> length (wp_source_ids wp) then Inr []
      else bind_result (etl_process_key (wp_context wp) pid) (\<lambda>key.
        bind_result (etl_sample_infos top_index wp src pid f) (\<lambda>xs.
          map_result (etl_sample_data symbols wp (fst key)) xs)))"

definition etl_count_thread_samples :: "etl_provider \<Rightarrow> nat \<Rightarrow> nat \<Rightarrow> sample_filter \<Rightarrow> error + nat" where
  "etl_count_thread_samples wp src t f =
     (if t \<in> excluded_threads f then Inr 0
      else if src \<ge> length (wp_source_ids wp) then Inr 0
      else bind_result (etl_thread_from_id (wp_context wp) t) (\<lambda>th_opt.
        case th_opt of None \<Rightarrow> Inr 0 | Some th \<Rightarrow> Inr (length (etl_spanned_samples wp src f th))))"

definition etl_count_samples :: "etl_provider \<Rightarrow> nat \<Rightarrow> nat \<Rightarrow> sample_filter \<Rightarrow> error + nat" where
  "etl_count_samples wp src pid f =
     (if pid \<in> excluded_processes f then Inr 0
      else bind_result (get_etl_process_threads (wp_context wp) pid) (\<lambda>ts.
        map_sum id sum_list (map_result (\<lambda>t. etl_count_thread_samples wp src t f) ts)))"

section \<open>Loading\<close>

definition tally_etl_samples :: "etl_sample list \<Rightarrow> source_tally \<Rightarrow> source_tally" where
  "tally_etl_samples xs t =
     (let t1 = (if xs \<noteq> [] then t\<lparr>tally_start := min (tally_start t) (es_timestamp (hd xs)),
                                  tally_end := max (tally_end t) (es_timestamp (last xs))\<rparr>
                else t)
      in t1\<lparr>tally_count := tally_count t1 + length xs\<rparr>)"

definition own_etl_samples :: "etl_context \<Rightarrow> (u32, u64, etl_thread) history_entry \<Rightarrow> u16 \<Rightarrow> etl_sample list" where
  "own_etl_samples c th src = etl_thread_samples c (entry_id th) (timestamp th) (et_end_time (payload th)) src"

definition tally_etl_thread :: "etl_context \<Rightarrow> u16 list \<Rightarrow> (u32, u64, etl_thread) history_entry \<Rightarrow> totals \<Rightarrow> totals" where
  "tally_etl_thread c ids th t =
     t\<lparr>tot_sources := map2 (\<lambda>src. tally_etl_samples (own_etl_samples c th src)) ids (tot_sources t),
       tot_samples := foldl (\<lambda>n src. n + length (own_etl_samples c th src)) (tot_samples t) ids\<rparr>"

fun tally_etl_threads :: "etl_context \<Rightarrow> u16 list \<Rightarrow> nat list \<Rightarrow> totals \<Rightarrow> error + totals" where
  "tally_etl_threads c ids [] t = Inr t"
| "tally_etl_threads c ids (u # us) t =
     bind_result (etl_thread_from_id c u) (\<lambda>th_opt.
       tally_etl_threads c ids us (case th_opt of None \<Rightarrow> t | Some th \<Rightarrow> tally_etl_thread c ids th t))"

fun tally_etl_processes :: "etl_context \<Rightarrow> u16 list \<Rightarrow> perf_key list \<Rightarrow> totals \<Rightarrow> error + totals" where
  "tally_etl_processes c ids [] t = Inr t"
| "tally_etl_processes c ids (k # ks) t =
     (case history_find_at (ec_processes c) (fst k) (snd k) False of
        None \<Rightarrow> tally_etl_processes c ids ks t
      | Some p \<Rightarrow>
          bind_result (get_etl_process_threads c (the (ep_unique_id (payload p)))) (\<lambda>ts.
          bind_result (tally_etl_threads c ids ts (t\<lparr>tot_threads := tot_threads t + length ts\<rparr>)) (\<lambda>t1.
            tally_etl_processes c ids ks t1)))"

text \<open>The rate takes the ticks for units of 100 ns.\<close>

definition etl_sampling_rate :: "source_tally \<Rightarrow> double_value" where
  "etl_sampling_rate t =
     (if tally_start t > tally_end t then zero_double
      else let runtime = sint (tally_end t) - sint (tally_start t) in
        if runtime = 0 then zero_double else other_double (int (tally_count t)) runtime)"

definition u16_text :: "string \<Rightarrow> u16 list" where
  "u16_text s = map (\<lambda>ch. of_nat (of_char ch)) s"

fun contains_text :: "u16 list \<Rightarrow> u16 list \<Rightarrow> bool" where
  "contains_text [] t = (t = [])"
| "contains_text (x # xs) t = (take (length t) (x # xs) = t \<or> contains_text xs t)"

definition is_profiler :: "etl_process \<Rightarrow> bool" where
  "is_profiler p \<longleftrightarrow>
     ascii_iequals (ep_image_filename p) ''vsdiagnostics.exe'' \<and> contains_text (ep_command_line p) (u16_text '' start '') \<or>
     ascii_iequals (ep_image_filename p) ''xperf.exe'' \<and>
       (contains_text (ep_command_line p) (u16_text '' -start '') \<or> contains_text (ep_command_line p) (u16_text '' -on ''))"

fun find_command_line :: "utf_library \<Rightarrow> (u32, u64, etl_process) history \<Rightarrow> u32 list \<Rightarrow> error + string" where
  "find_command_line utf h [] = Inr ''[unknown]''"
| "find_command_line utf h (i # is) =
     (let p = payload (hd (history_entries h i)) in
      if is_profiler p then utf_16to8 utf (ep_command_line p) else find_command_line utf h is)"

definition win_architecture_to_str :: "u16 \<Rightarrow> string" where
  "win_architecture_to_str arch =
     (case map_of [(0, ''x86''), (1, ''MIPS''), (2, ''Alpha''), (3, ''PowerPC''), (5, ''ARM''), (6, ''ia64''), (9, ''x64''),
         (12, ''ARM64'')] arch of None \<Rightarrow> ''[unknown]'' | Some s \<Rightarrow> s)"

definition text_or :: "utf_library \<Rightarrow> string \<Rightarrow> u16 list option \<Rightarrow> error + string" where
  "text_or utf other s = (case s of None \<Rightarrow> Inr other | Some ws \<Rightarrow> utf_16to8 utf ws)"

text \<open>Casts of durations round towards zero.\<close>

definition whole_seconds :: "int \<Rightarrow> int" where
  "whole_seconds t = sgn t * (\<bar>t\<bar> div 10 ^ 7)"

definition make_source :: "etl_context \<Rightarrow> u16 list \<Rightarrow> string list \<Rightarrow> totals \<Rightarrow> nat \<Rightarrow> sample_source_info" where
  "make_source c ids names t i =
     \<lparr>source_id = i, source_name = names ! i, number_of_samples = tally_count (tot_sources t ! i),
      average_sampling_rate = etl_sampling_rate (tot_sources t ! i), has_stacks = etl_source_has_stacks c (ids ! i)\<rparr>"

definition process_etl_recording ::
  "utf_library \<Rightarrow> etl_header_data \<Rightarrow> perf_key list \<Rightarrow> u32 list \<Rightarrow> etl_context \<Rightarrow> error + etl_provider" where
  "process_etl_recording utf header process_order id_order c =
     (let ids = sorted_list_of_set (dom (ec_source_names c)) in
      bind_result (map_result (\<lambda>src. utf_16to8 utf (the (ec_source_names c src))) ids) (\<lambda>names.
      bind_result (tally_etl_processes c ids process_order
          \<lparr>tot_sources = map (\<lambda>_. no_tally) ids, tot_samples = 0, tot_threads = 0\<rparr>) (\<lambda>t.
      bind_result (find_command_line utf (ec_processes c) id_order) (\<lambda>command.
      bind_result (text_or utf ''[unknown]'' (ec_computer_name c)) (\<lambda>host.
      bind_result (text_or utf ''Windows'' (ec_os_name c)) (\<lambda>os.
      bind_result (text_or utf ''[unknown]'' (ec_processor_name c)) (\<lambda>cpu.
        let runtime = ed_end_time header - ed_start_time header
        in Inr \<lparr>wp_context = c,
          wp_session = \<lparr>command_line = command, session_date = whole_seconds (ed_start_time header),
            session_runtime = runtime * 100, number_of_processes = length process_order,
            number_of_threads = tot_threads t, session_samples = tot_samples t\<rparr>,
          wp_system = \<lparr>hostname = host, platform = os,
            architecture = (case ec_processor_architecture c of None \<Rightarrow> ''[unknown]'' | Some a \<Rightarrow> win_architecture_to_str a),
            cpu_name = cpu, number_of_processors = unat (ed_number_of_processors header)\<rparr>,
          wp_sources = map (make_source c ids names t) [0..<length ids], wp_source_ids = ids,
          wp_session_start = ed_start_time_qpc_ticks header,
          wp_session_end = ed_start_time_qpc_ticks header + of_int (to_qpc_ticks 1 nt_units runtime (ed_qpc_frequency header)),
          wp_frequency = ed_qpc_frequency header, wp_pointer_size = ed_pointer_size header,
          wp_process_order = process_order\<rparr>)))))))"

section \<open>Processes and threads\<close>

definition etl_sampling_processes :: "etl_provider \<Rightarrow> nat list" where
  "etl_sampling_processes wp =
     concat (map (\<lambda>k. case history_find_at (ec_processes (wp_context wp)) (fst k) (snd k) False of
         None \<Rightarrow> []
       | Some p \<Rightarrow> (case ep_unique_id (payload p) of None \<Rightarrow> [] | Some u \<Rightarrow> [u])) (wp_process_order wp))"

definition etl_session_time :: "etl_provider \<Rightarrow> u64 \<Rightarrow> int" where
  "etl_session_time wp t = from_relative_qpc_ticks t (wp_session_start wp) (wp_frequency wp)"

definition add_counts :: "u64 list \<Rightarrow> u64 list \<Rightarrow> u64 list" where
  "add_counts totals counts =
     (let resized = totals @ replicate (length counts - length totals) 0
      in map (\<lambda>k. if k < length counts then resized ! k + counts ! k else resized ! k) [0..<length resized])"

definition switches_of :: "etl_context \<Rightarrow> nat \<Rightarrow> nat option" where
  "switches_of c n = (if ec_has_context_switches c then Some n else None)"

definition named_counter :: "utf_library \<Rightarrow> etl_context \<Rightarrow> nat \<times> u64 \<Rightarrow> error + pmc_counter_info" where
  "named_counter utf c = (\<lambda>(k, n).
     case pmc_name c k of
       None \<Rightarrow> Inr \<lparr>counter_name = None, counter_count = unat n\<rparr>
     | Some name \<Rightarrow> bind_result (utf_16to8 utf name) (\<lambda>s. Inr \<lparr>counter_name = Some s, counter_count = unat n\<rparr>))"

definition named_counters :: "utf_library \<Rightarrow> etl_context \<Rightarrow> u64 list \<Rightarrow> error + pmc_counter_info list" where
  "named_counters utf c counts = map_result (named_counter utf c) (enumerate 0 counts)"

fun sum_threads :: "etl_context \<Rightarrow> nat list \<Rightarrow> nat \<times> u64 list \<Rightarrow> error + nat \<times> u64 list" where
  "sum_threads c [] acc = Inr acc"
| "sum_threads c (u # us) acc =
     bind_result (etl_thread_from_id c u) (\<lambda>th_opt.
       sum_threads c us (case th_opt of
           None \<Rightarrow> acc
         | Some th \<Rightarrow> (fst acc + et_context_switches (payload th), add_counts (snd acc) (et_pmc_counts (payload th)))))"

definition etl_process_info :: "utf_library \<Rightarrow> etl_provider \<Rightarrow> nat \<Rightarrow> error + process_info" where
  "etl_process_info utf wp u =
     (let c = wp_context wp in
      bind_result (etl_process_key c u) (\<lambda>key.
        case history_find_at (ec_processes c) (fst key) (snd key) False of
          None \<Rightarrow> Inl (Throw (''Invalid process '' @ dec (unat (fst key)) @ '' @'' @ dec (unat (snd key))))
        | Some p \<Rightarrow>
            bind_result (get_etl_process_threads c u) (\<lambda>ts.
            bind_result (sum_threads c ts (0, [])) (\<lambda>(switches, counts).
            bind_result (named_counters utf c counts) (\<lambda>counters.
              Inr \<lparr>process_key = u, process_os_id = unat (entry_id p), process_name = ep_image_filename (payload p),
                process_start_time = etl_session_time wp (timestamp p),
                process_end_time = etl_session_time wp (case ep_end_time (payload p) of Some e \<Rightarrow> e | None \<Rightarrow> wp_session_end wp),
                process_context_switches = switches_of c switches, process_counters = counters\<rparr>)))))"

fun etl_threads_info_of :: "utf_library \<Rightarrow> etl_provider \<Rightarrow> int \<Rightarrow> nat list \<Rightarrow> error + thread_info list" where
  "etl_threads_info_of utf wp process_end [] = Inr []"
| "etl_threads_info_of utf wp process_end (u # us) =
     bind_result (etl_thread_from_id (wp_context wp) u) (\<lambda>th_opt.
       case th_opt of
         None \<Rightarrow> etl_threads_info_of utf wp process_end us
       | Some th \<Rightarrow>
           bind_result (named_counters utf (wp_context wp) (et_pmc_counts (payload th))) (\<lambda>counters.
           bind_result (etl_threads_info_of utf wp process_end us) (\<lambda>infos.
             Inr (\<lparr>thread_key = u, thread_os_id = unat (entry_id th), thread_name = None,
               thread_start_time = etl_session_time wp (timestamp th),
               thread_end_time = (case et_end_time (payload th) of Some e \<Rightarrow> etl_session_time wp e | None \<Rightarrow> process_end),
               thread_context_switches = switches_of (wp_context wp) (et_context_switches (payload th)),
               thread_counters = counters\<rparr> # infos))))"

definition etl_threads_info :: "utf_library \<Rightarrow> etl_provider \<Rightarrow> nat \<Rightarrow> error + thread_info list" where
  "etl_threads_info utf wp u =
     bind_result (etl_process_info utf wp u) (\<lambda>p.
     bind_result (get_etl_process_threads (wp_context wp) u) (\<lambda>ts.
       etl_threads_info_of utf wp (process_end_time p) ts))"

section \<open>Ticks\<close>

lemma gcd_parts:
  fixes f d :: nat
  assumes "0 < f" "0 < d"
  shows "f div gcd f d * gcd f d = f" "0 < f div gcd f d"
    "d div gcd f d * gcd f d = d" "0 < d div gcd f d"
  using assms by (auto simp: div_greater_zero_iff dvd_imp_le)

lemma word_scale:
  assumes "a * b < 2 ^ 64"
  shows "unat ((of_nat a * of_nat b :: u64) div of_nat c) = a * b div (c mod 2 ^ 64)"
  using assms by (simp add: unat_div unat_of_nat flip: of_nat_mult)

lemma cancel_scale:
  assumes "f = a * g" "d = b * g" "0 < g"
  shows "t * a div b = t * f div (d :: nat)"
proof -
  have "t * f div d = (t * a) * g div (b * g)" unfolding assms(1,2) by (simp only: mult.assoc)
  also have "\<dots> = t * a div b" using assms(3) by (simp only: div_mult_mult2)
  finally show ?thesis by simp
qed

lemma len64: "LENGTH(64) - Suc 0 = 63"
  by simp

lemma sint_small: "unat (w :: u64) < 2 ^ 63 \<Longrightarrow> sint w = int (unat w)"
proof -
  assume a: "unat w < 2 ^ 63"
  have n: "- (2 ^ 63) \<le> int n \<and> int n < 2 ^ 63" if "n < 2 ^ 63" for n :: nat
    using of_nat_less_iff [of n "2 ^ 63", where 'a = int] that by simp
  have u: "uint w = int (unat w)" by (rule uint_nat)
  have "- (2 ^ 63) \<le> uint w" "uint w < 2 ^ 63" unfolding u using n [OF a] by blast+
  then have "signed_take_bit 63 (uint w) = uint w" by (rule signed_take_bit_int_eq_self)
  then show ?thesis unfolding sint_uint len64 u .
qed

lemma scaled_ticks:
  fixes n a b :: nat
  assumes "n * a < 2 ^ 63" "0 < b" "b < 2 ^ 64"
  shows "sint ((of_nat n * of_nat a :: u64) div of_nat b) = int (n * a div b)"
proof -
  have "unat ((of_nat n * of_nat a :: u64) div of_nat b) = n * a div b"
    using word_scale [of n a b] assms by simp
  moreover have "n * a div b < 2 ^ 63" using assms(1) div_le_dividend [of "n * a" b] by linarith
  ultimately show ?thesis using sint_small by metis
qed

text \<open>Where the reduced product does not overflow, a conversion is the exact quotient, rounded down.\<close>

lemma to_qpc_ticks_exact:
  assumes "nat t * (unat f div gcd (unat f) (10 ^ 9)) < 2 ^ 63" "0 < unat f" "0 \<le> t"
  shows "to_qpc_ticks 1 nanoseconds t f = int (nat t * unat f div 10 ^ 9)"
proof -
  let ?g = "gcd (unat f) (10 ^ 9)"
  note g = gcd_parts [OF assms(2), of "10 ^ 9", simplified]
  have "(10 ^ 9 div ?g :: nat) \<le> 10 ^ 9" by (rule div_le_dividend)
  moreover have "(10 ^ 9 :: nat) < 2 ^ 64" by simp
  ultimately have small: "10 ^ 9 div ?g < (2 :: nat) ^ 64" by (rule le_less_trans)
  have q: "nat t * (unat f div ?g) div (10 ^ 9 div ?g) = nat t * unat f div 10 ^ 9"
    by (rule cancel_scale [where g = ?g]) (use assms(2) in simp_all)
  have t: "(of_int t :: u64) = of_nat (nat t)" using assms(3) by simp
  have p: "0 < (10 ^ 9 div ?g :: nat)" using gcd_parts(4) [OF assms(2), of "10 ^ 9"] by simp
  show ?thesis unfolding to_qpc_ticks_def Let_def t q [symmetric]
    using scaled_ticks [OF assms(1) p small] by simp
qed

lemma from_qpc_ticks_exact:
  assumes "n * (10 ^ 9 div gcd (10 ^ 9) (unat f)) < 2 ^ 63" "0 < unat f"
  shows "from_qpc_ticks 1 nanoseconds (int n) f = int (n * 10 ^ 9 div unat f)"
proof -
  let ?g = "gcd (10 ^ 9) (unat f)"
  have "unat f div ?g \<le> unat f" by (rule div_le_dividend)
  moreover have "unat f < 2 ^ 64" using unsigned_less [of f] by simp
  ultimately have small: "unat f div ?g < 2 ^ 64" by (rule le_less_trans)
  have q: "n * (10 ^ 9 div ?g) div (unat f div ?g) = n * 10 ^ 9 div unat f"
    by (rule cancel_scale [where g = ?g]) (use assms(2) in simp_all)
  have p: "0 < unat f div ?g" using gcd_parts(4) [of "10 ^ 9" "unat f"] assms(2) by simp
  show ?thesis unfolding from_qpc_ticks_def Let_def q [symmetric]
    using scaled_ticks [OF assms(1) p small] by simp
qed

lemma there_and_back:
  fixes t f d :: nat
  assumes "0 < f" "0 < d"
  shows "t * f div d * d div f \<le> t" "(t - t * f div d * d div f) * f < d + f"
proof -
  let ?q = "t * f div d" let ?r = "?q * d div f"
  have q: "?q * d \<le> t * f" "t * f < ?q * d + d"
    using div_mult_mod_eq [of "t * f" d] mod_less_divisor [OF assms(2), of "t * f"] by linarith+
  have r: "?r * f \<le> ?q * d" "?q * d < ?r * f + f"
    using div_mult_mod_eq [of "?q * d" f] mod_less_divisor [OF assms(1), of "?q * d"] by linarith+
  from q r have "?r * f \<le> t * f" by linarith
  with assms(1) show le: "?r \<le> t" by simp
  have "t * f < ?r * f + (d + f)" using q r by linarith
  then show "(t - ?r) * f < d + f" unfolding diff_mult_distrib using assms by linarith
qed

text \<open>C35: A time that is converted to ticks of the performance counter and back is never later and off by less than
  one tick and a nanosecond, whatever the frequency, as long as the products of the reduced fractions fit into 63
  bits.\<close>
theorem ticks_roundtrip:
  assumes "t * (unat f div gcd (unat f) (10 ^ 9)) < 2 ^ 63" "0 < unat f"
    "(t * unat f div 10 ^ 9) * (10 ^ 9 div gcd (10 ^ 9) (unat f)) < 2 ^ 63"
  shows "let back_again = from_qpc_ticks 1 nanoseconds (to_qpc_ticks 1 nanoseconds (int t) f) f
    in back_again \<le> int t \<and> (t - nat back_again) * unat f < 10 ^ 9 + unat f"
proof -
  have "from_qpc_ticks 1 nanoseconds (to_qpc_ticks 1 nanoseconds (int t) f) f = int (t * unat f div 10 ^ 9 * 10 ^ 9 div unat f)"
    using to_qpc_ticks_exact [of "int t" f] from_qpc_ticks_exact [OF assms(3,2)] assms(1,2) by simp
  with there_and_back [OF assms(2), of "10 ^ 9" t] show ?thesis by (simp add: Let_def)
qed

theorem ticks_roundtrip_witness:
  "let back_again = from_qpc_ticks 1 nanoseconds (to_qpc_ticks 1 nanoseconds (int 1234567890) 10000000) 10000000
    in back_again \<le> int 1234567890 \<and> (1234567890 - nat back_again) * unat (10000000 :: u64) < 10 ^ 9 + unat (10000000 :: u64)"
  by (rule ticks_roundtrip) (simp_all add: gcd_non_0_nat)

end
