(* ===== verification/EtlQueries.thy ===== *)
theory EtlQueries
  imports EtlProvider
begin

text \<open>
  What the provider of Windows recordings gives for a process: its samples in order, and their number.
\<close>

section \<open>Samples of a process\<close>

text \<open>What the samples of a thread are: those of the source in the times of the thread and the filter.\<close>

definition in_timespan :: "u64 \<times> u64 option \<Rightarrow> etl_sample \<Rightarrow> bool" where
  "in_timespan span s \<longleftrightarrow> fst span \<le> es_timestamp s \<and>
     (case snd span of None \<Rightarrow> True | Some t \<Rightarrow> es_timestamp s \<le> t)"

definition etl_thread_spans :: "etl_provider \<Rightarrow> nat \<Rightarrow> sample_filter \<Rightarrow> nat \<Rightarrow> etl_sample list" where
  "etl_thread_spans wp src f t =
     (if t \<in> excluded_threads f then []
      else case etl_thread_from_id (wp_context wp) t of
        Inr (Some th) \<Rightarrow> filter (in_timespan (etl_filter_timespan th f (wp_session_start wp) (wp_frequency wp)))
          (source_samples (wp_context wp) (entry_id th) (wp_source_ids wp ! src))
      | _ \<Rightarrow> [])"

definition etl_threads_known :: "etl_context \<Rightarrow> nat list \<Rightarrow> bool" where
  "etl_threads_known c ts \<longleftrightarrow> (\<forall>t \<in> set ts. \<exists>key. etl_thread_key c t = Inr key)"

definition sources_sorted :: "etl_context \<Rightarrow> bool" where
  "sources_sorted c \<longleftrightarrow> (\<forall>tid src. sorted (map es_timestamp (source_samples c tid src)))"

lemma etl_thread_samples_interval:
  assumes "sources_sorted c"
  shows "etl_thread_samples c tid a b src = filter (in_timespan (a, b)) (source_samples c tid src)"
proof -
  have "sorted (map es_timestamp (source_samples c tid src))" using assms by (simp add: sources_sorted_def)
  note span = sorted_span [OF this, of a b, unfolded Let_def]
  show ?thesis
  proof (cases "source_samples c tid src = []")
    case True
    then show ?thesis by (simp add: etl_thread_samples_def Let_def)
  next
    case False
    then show ?thesis unfolding etl_thread_samples_def Let_def in_timespan_def fst_conv snd_conv
      by (simp only: simp_thms span)
  qed
qed

lemma etl_spanned: "sources_sorted (wp_context wp) \<Longrightarrow> etl_spanned_samples wp src f th =
    filter (in_timespan (etl_filter_timespan th f (wp_session_start wp) (wp_frequency wp)))
      (source_samples (wp_context wp) (entry_id th) (wp_source_ids wp ! src))"
  by (cases "etl_filter_timespan th f (wp_session_start wp) (wp_frequency wp)")
    (simp add: etl_spanned_samples_def etl_thread_samples_interval)

lemma etl_collect_spans:
  assumes "sources_sorted (wp_context wp)"
  shows "etl_threads_known (wp_context wp) ts \<Longrightarrow>
     etl_collect_threads wp src f ts = Inr (filter (\<lambda>xs. xs \<noteq> []) (map (etl_thread_spans wp src f) ts))"
proof (induction ts)
  case (Cons t ts)
  then obtain key where "etl_thread_key (wp_context wp) t = Inr key" by (auto simp: etl_threads_known_def)
  moreover have "etl_threads_known (wp_context wp) ts" using Cons.prems by (simp add: etl_threads_known_def)
  ultimately show ?case
    using Cons.IH by (simp add: etl_thread_spans_def etl_thread_from_id_def etl_spanned [OF assms] Let_def split: option.split)
qed simp

lemma etl_count_spans:
  assumes "sources_sorted (wp_context wp)" "etl_threads_known (wp_context wp) ts" "src < length (wp_source_ids wp)"
    "u \<notin> excluded_processes f" "get_etl_process_threads (wp_context wp) u = Inr ts"
  shows "etl_count_samples wp src u f = Inr (length (concat (map (etl_thread_spans wp src f) ts)))"
proof -
  have "\<forall>t \<in> set ts. etl_count_thread_samples wp src t f = Inr (length (etl_thread_spans wp src f t))"
  proof
    fix t assume "t \<in> set ts"
    then obtain key where "etl_thread_key (wp_context wp) t = Inr key" using assms(2) by (auto simp: etl_threads_known_def)
    with assms(3) show "etl_count_thread_samples wp src t f = Inr (length (etl_thread_spans wp src f t))"
      by (simp add: etl_count_thread_samples_def etl_thread_spans_def etl_thread_from_id_def etl_spanned [OF assms(1)] split: option.split)
  qed
  from map_result_all [OF this] assms(4,5) show ?thesis by (simp add: etl_count_samples_def length_concat comp_def)
qed

lemma etl_taken_spans:
  assumes "sources_sorted (wp_context wp)" "etl_threads_known (wp_context wp) ts" "top_spec top_index"
    "get_etl_process_threads (wp_context wp) u = Inr ts"
  shows "\<exists>xs. etl_sample_infos top_index wp src u f = Inr xs \<and> sorted (map es_timestamp xs) \<and>
    mset xs = mset (concat (map (etl_thread_spans wp src f) ts))"
proof -
  let ?xss = "filter (\<lambda>xs. xs \<noteq> []) (map (etl_thread_spans wp src f) ts)"
  have "sorted (map es_timestamp (etl_thread_spans wp src f t))" for t
    using assms(1) by (auto simp: etl_thread_spans_def sources_sorted_def intro: sorted_filter split: sum.split option.split)
  then have "\<forall>xs \<in> set ?xss. xs \<noteq> [] \<and> sorted (map es_timestamp xs)" by auto
  from merged_samples_ok [OF this assms(3)] assms(4) etl_collect_spans [OF assms(1,2), of src f]
  show ?thesis by (auto simp: etl_sample_infos_def concat_nonempty)
qed

text \<open>Finishing does not touch the samples.\<close>

lemma finish_keeps_samples:
  assumes "key_order_spec ord" "handle_etl_events utf ip_hash ps es empty_etl_context = Inr c0"
    "etl_finish utf ord path_ord c0 = Inr c"
  shows "source_samples c = source_samples c0"
proof -
  have wf: "etl_wf c0" "etl_unfinished c0" using handle_etl_events_wf [OF assms(2)] by auto
  obtain c3 where c3: "names_only (map_paths path_ord (connect_etl_threads ord (assign_etl_ids ord c0))) c3"
      "profiled_only (flush_all_switch_data ord c3) c"
    using etl_finish_named [OF assms(1) wf assms(3)] by blast
  let ?P = "\<lambda>d. ec_samples d = ec_samples c0 \<and> ec_pmc_samples d = ec_pmc_samples c0"
  have "?P (assign_etl_ids ord c0)" using conjunct2 [OF assign_etl_ids_ready(1) [OF assms(1) wf]] by auto
  then have "?P (connect_etl_threads ord (assign_etl_ids ord c0))"
    unfolding connect_etl_threads_def
    by (intro foldl_invariant [where P = ?P]) (simp_all add: connect_etl_thread_def split: option.split)
  then have "?P c3" using c3(1) by (auto simp: names_only_def map_paths_def)
  then have "?P (flush_all_switch_data ord c3)"
    unfolding flush_all_switch_data_def
    by (intro fold_invariant_simple [where P = ?P]) (simp_all add: flush_switch_data_def Let_def)
  then have "?P c" using c3(2) by (auto simp: profiled_only_def)
  then show ?thesis by (simp add: source_samples_def fun_eq_iff)
qed

text \<open>The times of the samples in a recording.\<close>

definition etl_sample_times :: "(etl_header \<times> etl_event) list \<Rightarrow> u64 list" where
  "etl_sample_times es = map (\<lambda>x. eh_timestamp (fst x)) (filter (\<lambda>x. is_sample_event (snd x)) es)"

lemma etl_sample_times_Cons: "etl_sample_times (x # es) = (if is_sample_event (snd x) then [eh_timestamp (fst x)] else []) @ etl_sample_times es"
  by (simp add: etl_sample_times_def)

lemma sample_event_time:
  assumes "v \<in> set (regular_event tid x) \<or> v \<in> set (pmc_event tid src x)"
  shows "is_sample_event (snd x) \<and> fst (snd v) = eh_timestamp (fst x)"
  using assms by (cases x; cases "snd x") (auto simp: regular_event_def pmc_event_def is_sample_event_def split: if_splits)

lemma one_sample_event: "length (regular_event tid x) \<le> 1" "length (pmc_event tid src x) \<le> 1"
  by (cases x; cases "snd x"; simp add: regular_event_def pmc_event_def)+

text \<open>Views that an event gives at most one of, at its time.\<close>

lemma event_times_sorted:
  assumes "sorted (etl_sample_times es)" "\<And>x. length (g x) \<le> 1"
    "\<And>v x. v \<in> set (g x) \<Longrightarrow> is_sample_event (snd x) \<and> fst (snd v) = eh_timestamp (fst x)"
  shows "sorted (map (\<lambda>v. fst (snd v)) (concat (map g es)))"
  using assms(1)
proof (induction es)
  case (Cons x es)
  have tail: "sorted (etl_sample_times es)" using Cons.prems by (simp add: etl_sample_times_Cons sorted_append)
  have later: "fst (snd v) \<in> set (etl_sample_times es)" if v: "v \<in> set (concat (map g es))" for v
  proof -
    obtain y where "y \<in> set es" "v \<in> set (g y)" using v by auto
    with assms(3) [OF this(2)] show ?thesis by (auto simp: etl_sample_times_def)
  qed
  have "\<forall>v \<in> set (g x). \<forall>w \<in> set (concat (map g es)). fst (snd v) \<le> fst (snd w)"
  proof (intro ballI)
    fix v w assume v: "v \<in> set (g x)" and w: "w \<in> set (concat (map g es))"
    show "fst (snd v) \<le> fst (snd w)"
      using Cons.prems assms(3) [OF v] later [OF w] by (auto simp: etl_sample_times_Cons)
  qed
  moreover have "sorted (map (\<lambda>v. fst (snd v)) (g x))"
    using assms(2) [of x] by (cases "g x" rule: remdups_adj.cases) auto
  ultimately show ?case using Cons.IH [OF tail] by (simp add: sorted_append del: set_concat)
qed simp

lemma recorded_sources_sorted:
  assumes "handle_etl_events utf ip_hash ps es empty_etl_context = Inr c" "sorted (etl_sample_times es)"
  shows "sources_sorted c"
proof -
  have r: "sorted (map (\<lambda>v. fst (snd v)) (concat (map (regular_event tid) es)))" for tid
    by (rule event_times_sorted [OF assms(2) one_sample_event(1)]) (rule sample_event_time, blast)
  have p: "sorted (map (\<lambda>v. fst (snd v)) (concat (map (pmc_event tid src) es)))" for tid src
    by (rule event_times_sorted [OF assms(2) one_sample_event(2)]) (rule sample_event_time, blast)
  have "sorted (map es_timestamp (source_samples c tid src))" for tid src
  proof -
    have "map es_timestamp (source_samples c tid src) = map (\<lambda>v. fst (snd v)) (map etl_sample_view (source_samples c tid src))"
      by (simp add: etl_sample_view_def)
    then show ?thesis unfolding source_sample_views [OF handle_etl_events_filed [OF assms(1)]] using r p by auto
  qed
  then show ?thesis by (simp add: sources_sorted_def)
qed

lemma process_etl_recording_context: "process_etl_recording utf header po io c = Inr wp \<Longrightarrow> wp_context wp = c"
  by (auto simp: process_etl_recording_def bind_result_Inr Let_def)

text \<open>A finished context can always be loaded if the names in it are UTF-16.\<close>

lemma etl_ready_thread_keys:
  assumes "etl_ready c" "ec_threads_per_process c u = Some ts"
  shows "etl_threads_known c ts"
  unfolding etl_threads_known_def
proof
  fix t assume "t \<in> set ts"
  then have "thread_known c t" using assms unfolding etl_ready_def by blast
  then obtain j e where "e \<in> set (history_entries (ec_threads c) j)" "et_unique_id (payload e) = Some t"
    unfolding thread_known_def by blast
  then have "ec_thread_keys c t = Some (j, timestamp e)" using assms(1) unfolding etl_ready_def by fastforce
  then show "\<exists>key. etl_thread_key c t = Inr key" by (simp add: etl_thread_key_def at_or_throw_def)
qed

lemma tally_etl_threads_Inr: "etl_threads_known c us \<Longrightarrow> \<exists>t'. tally_etl_threads c ids us t = Inr t'"
proof (induction us arbitrary: t)
  case (Cons u us)
  then obtain k where "etl_thread_key c u = Inr k" "etl_threads_known c us" by (auto simp: etl_threads_known_def)
  with Cons.IH show ?case by (simp add: etl_thread_from_id_def)
qed simp

lemma tally_etl_processes_Inr: "etl_ready c \<Longrightarrow> \<exists>t'. tally_etl_processes c ids ks t = Inr t'"
proof (induction ks arbitrary: t)
  case (Cons k ks)
  show ?case
  proof (cases "history_find_at (ec_processes c) (fst k) (snd k) False")
    case None
    with Cons show ?thesis by simp
  next
    case (Some p)
    from etl_ready_entry(1) [OF Cons.prems Some] obtain u ts where u: "ep_unique_id (payload p) = Some u"
        "ec_threads_per_process c u = Some ts" by blast
    obtain t1 where "tally_etl_threads c ids ts (t\<lparr>tot_threads := tot_threads t + length ts\<rparr>) = Inr t1"
      using tally_etl_threads_Inr [OF etl_ready_thread_keys [OF Cons.prems u(2)]] by blast
    with Some u Cons show ?thesis by (simp add: get_etl_process_threads_def at_or_throw_def)
  qed
qed simp

lemma etl_recording_loads:
  assumes "etl_ready c" "\<And>ws. \<exists>s. utf_16to8 utf ws = Inr s"
  shows "\<exists>wp. process_etl_recording utf header po io c = Inr wp \<and> wp_source_ids wp = sorted_list_of_set (dom (ec_source_names c))"
proof -
  let ?ids = "sorted_list_of_set (dom (ec_source_names c))"
  have names: "\<exists>ns. map_result (\<lambda>src. utf_16to8 utf (the (ec_source_names c src))) ids = Inr ns" for ids
    using assms(2) by (intro map_result_total) blast
  have tally: "\<exists>t'. tally_etl_processes c ?ids po t = Inr t'" for t by (rule tally_etl_processes_Inr [OF assms(1)])
  have command: "\<exists>s. find_command_line utf (ec_processes c) order = Inr s" for order
    using assms(2) by (induction order) (auto simp: Let_def)
  have texts: "\<exists>s. text_or utf d x = Inr s" for d x using assms(2) by (auto simp: text_or_def split: option.split)
  obtain ns t s1 s2 s3 s4 where "map_result (\<lambda>src. utf_16to8 utf (the (ec_source_names c src))) ?ids = Inr ns"
      "tally_etl_processes c ?ids po \<lparr>tot_sources = map (\<lambda>_. no_tally) ?ids, tot_samples = 0, tot_threads = 0\<rparr> = Inr t"
      "find_command_line utf (ec_processes c) io = Inr s1" "text_or utf ''[unknown]'' (ec_computer_name c) = Inr s2"
      "text_or utf ''Windows'' (ec_os_name c) = Inr s3" "text_or utf ''[unknown]'' (ec_processor_name c) = Inr s4"
    using names tally command texts by metis
  then show ?thesis by (simp add: process_etl_recording_def Let_def)
qed

text \<open>For every process of a loaded recording, listed or not, the samples of a source come in the order of
  their times, each sample of the threads of the process within the times of the thread and the filter exactly
  once, and the count that is told without reading them is their number. The merge of the threads ends. The
  file must have its samples in the order of their times.\<close>
lemma etl_samples_in_order:
  assumes run: "handle_etl_events utf ip_hash ps es empty_etl_context = Inr c0" and ord: "key_order_spec ord"
    and fin: "etl_finish utf ord path_ord c0 = Inr c" and loaded: "process_etl_recording utf header po io c = Inr wp"
    and times: "sorted (etl_sample_times es)" and top: "top_spec top_index"
    and e: "e \<in> set (history_entries (ec_processes c) i)"
    and src: "src < length (wp_source_ids wp)" and u: "the (ep_unique_id (payload e)) \<notin> excluded_processes f"
  shows "\<exists>u ts xs. ep_unique_id (payload e) = Some u \<and> get_etl_process_threads c u = Inr ts \<and>
    etl_sample_infos top_index wp src u f = Inr xs \<and> sorted (map es_timestamp xs) \<and>
    mset xs = mset (concat (map (etl_thread_spans wp src f) ts)) \<and> etl_count_samples wp src u f = Inr (length xs)"
proof -
  note c = process_etl_recording_context [OF loaded]
  obtain d where "profiled_from ord c0 d c" using etl_finish_from [OF ord run fin] by blast
  then have "etl_ready c" using profiled_only_ready unfolding profiled_from_def by blast
  from etl_ready_lookups [OF this e] obtain v ts where v: "ep_unique_id (payload e) = Some v" "get_etl_process_threads c v = Inr ts"
      "etl_threads_known c ts" unfolding etl_threads_known_def by blast
  have "sources_sorted c" using recorded_sources_sorted [OF run times] finish_keeps_samples [OF ord run fin]
    by (simp add: sources_sorted_def)
  then have spans: "\<exists>xs. etl_sample_infos top_index wp src v f = Inr xs \<and> sorted (map es_timestamp xs) \<and>
      mset xs = mset (concat (map (etl_thread_spans wp src f) ts))"
    "etl_count_samples wp src v f = Inr (length (concat (map (etl_thread_spans wp src f) ts)))"
    using etl_taken_spans [of wp ts top_index v src f] etl_count_spans [of wp ts src v f] v top src u unfolding c by simp_all
  then obtain xs where xs: "etl_sample_infos top_index wp src v f = Inr xs" "sorted (map es_timestamp xs)"
      "mset xs = mset (concat (map (etl_thread_spans wp src f) ts))" by blast
  moreover have "length xs = length (concat (map (etl_thread_spans wp src f) ts))" using xs(3) by (rule mset_eq_length)
  ultimately show ?thesis using v(1,2) spans(2) by (intro exI [of _ v] exI [of _ ts] exI [of _ xs]) simp
qed

definition sample_example :: "(etl_header \<times> etl_event) list" where
  "sample_example = etl_example @
     [(\<lparr>eh_type = 73, eh_timestamp = 160\<rparr>, Profile_interval_event 0 [84]),
      (\<lparr>eh_type = 46, eh_timestamp = 200\<rparr>, Sampled_profile_event 8 0x1010),
      (\<lparr>eh_type = 46, eh_timestamp = 210\<rparr>, Sampled_profile_event 8 0x1018)]"

definition sample_example_context :: etl_context where
  "sample_example_context = etl_example_context\<lparr>ec_source_names := [0 \<mapsto> [84]],
     ec_samples := [8 \<mapsto> [new_sample 8 200 0x1010, new_sample 8 210 0x1018]]\<rparr>"

lemma fold_result_append: "fold_result g (xs @ ys) s = bind_result (fold_result g xs s) (fold_result g ys)"
  by (induction xs arbitrary: s) (simp_all add: bind_result_def split: sum.split)

lemma sample_example_run:
  "handle_etl_events ascii_library (\<lambda>ip. ip) 8 sample_example empty_etl_context = Inr sample_example_context"
  using etl_example_run
  by (simp add: handle_etl_events_def sample_example_def fold_result_append handle_etl_event_def handle_profile_interval_def
      handle_sampled_profile_def sample_example_context_def bind_result_def)
    (simp add: etl_example_context_def empty_etl_context_def)

lemma sample_example_finished:
  "\<exists>c e. etl_finish ascii_library sorted_order (\<lambda>_. []) sample_example_context = Inr c \<and> etl_ready c \<and>
     dom (ec_source_names c) = {0} \<and> e \<in> set (history_entries (ec_processes c) 7)"
proof -
  let ?c0 = sample_example_context
  let ?c2 = "map_paths (\<lambda>_. []) (connect_etl_threads sorted_order (assign_etl_ids sorted_order ?c0))"
  have wf: "etl_wf ?c0" "etl_unfinished ?c0" using handle_etl_events_wf [OF sample_example_run] by auto
  have named: "ec_source_names ?c2 = [0 \<mapsto> [84]]" "ec_pmc_samples ?c2 = Map.empty"
  proof -
    let ?P = "\<lambda>d. ec_source_names d = [0 \<mapsto> [84]] \<and> ec_pmc_samples d = Map.empty"
    have "?P ?c0" by (simp add: sample_example_context_def etl_example_context_def empty_etl_context_def)
    then have "?P (assign_etl_ids sorted_order ?c0)"
      using conjunct2 [OF assign_etl_ids_ready(1) [OF sorted_order_spec wf]] by auto
    then have "?P (connect_etl_threads sorted_order (assign_etl_ids sorted_order ?c0))"
      unfolding connect_etl_threads_def
      by (intro foldl_invariant [where P = ?P]) (simp_all add: connect_etl_thread_def split: option.split)
    then show "ec_source_names ?c2 = [0 \<mapsto> [84]]" "ec_pmc_samples ?c2 = Map.empty" by (simp_all add: map_paths_def)
  qed
  then have c3: "name_sources ascii_library sorted_order ?c2 = Inr ?c2"
    by (simp add: name_sources_def name_default_source_def sorted_order_def)
  obtain c d where c: "etl_finish ascii_library sorted_order (\<lambda>_. []) ?c0 = Inr c" "profiled_from sorted_order ?c0 d c"
    using etl_finish_steps [OF sorted_order_spec wf c3] by blast
  then have ready: "etl_ready c" using profiled_only_ready unfolding profiled_from_def by blast
  have f: "find_profiled sorted_order (flush_all_switch_data sorted_order ?c2) = Inr c"
    using c(1) c3 by (simp add: etl_finish_def Let_def)
  have "etl_ready ?c2" by (intro map_paths_ready connect_etl_threads_ready conjunct1 [OF assign_etl_ids_ready(1) [OF sorted_order_spec wf]])
  then have "etl_ready (flush_all_switch_data sorted_order ?c2)" by (rule flush_all_ready)
  from find_profiled_defined [OF this, of sorted_order] f have "profiled_only (flush_all_switch_data sorted_order ?c2) c" by simp
  moreover have "ec_source_names (flush_all_switch_data sorted_order ?c2) = ec_source_names ?c2"
    unfolding flush_all_switch_data_def
    by (rule fold_invariant_simple [where P = "\<lambda>d. ec_source_names d = ec_source_names ?c2"]) (simp_all add: flush_switch_data_def Let_def)
  ultimately have "ec_source_names c = [0 \<mapsto> [84]]" using named(1) by (auto simp: profiled_only_def)
  moreover have "history_entries (ec_processes c) 7 \<noteq> []"
  proof -
    have "ec_processes (assign_etl_ids sorted_order ?c0) = ec_processes (assign_etl_ids sorted_order etl_example_context)"
      by (simp add: sample_example_context_def etl_example_context_def Let_def assign_etl_ids_def sorted_order_def empty_etl_context_def
          number_process_id_def number_thread_id_def history_entries_def example_process_def)
    then show ?thesis using etl_finish_processes [OF sorted_order_spec wf c(1)]
      by (simp add: etl_example_processes history_entries_def)
  qed
  ultimately show ?thesis using c(1) ready by (cases "history_entries (ec_processes c) 7") auto
qed

definition example_header :: etl_header_data where
  "example_header = \<lparr>ed_start_time = 132000000000000000, ed_end_time = 132000000010000000, ed_start_time_qpc_ticks = 90,
     ed_qpc_frequency = 10000000, ed_pointer_size = 8, ed_number_of_processors = 4, ed_number_of_buffers = 2,
     ed_buffer_size = 65536, ed_log_file_mode = 0, ed_compression_format = No_compression\<rparr>"

theorem etl_samples_in_order_witness:
  "\<exists>c wp u xs. etl_finish ascii_library sorted_order (\<lambda>_. []) sample_example_context = Inr c \<and>
     process_etl_recording ascii_library example_header [(7, 120), (9, 150)] [7, 9] c = Inr wp \<and>
     etl_sample_infos earliest_index wp 0 u no_filter = Inr xs \<and> sorted (map es_timestamp xs) \<and>
     etl_count_samples wp 0 u no_filter = Inr (length xs)"
proof -
  obtain c e where c: "etl_finish ascii_library sorted_order (\<lambda>_. []) sample_example_context = Inr c" "etl_ready c"
      "dom (ec_source_names c) = {0}" "e \<in> set (history_entries (ec_processes c) 7)"
    using sample_example_finished by blast
  have "\<exists>s. utf_16to8 ascii_library ws = Inr s" for ws by (simp add: ascii_library_def)
  from etl_recording_loads [OF c(2) this, of example_header "[(7, 120), (9, 150)]" "[7, 9]"] obtain wp where
    wp: "process_etl_recording ascii_library example_header [(7, 120), (9, 150)] [7, 9] c = Inr wp" "wp_source_ids wp = [0]"
    using c(3) by auto
  have times: "sorted (etl_sample_times sample_example)"
    by (simp add: etl_sample_times_def sample_example_def etl_example_def is_sample_event_def)
  obtain u ts xs where "etl_sample_infos earliest_index wp 0 u no_filter = Inr xs" "sorted (map es_timestamp xs)"
      "etl_count_samples wp 0 u no_filter = Inr (length xs)"
    using etl_samples_in_order [OF sample_example_run sorted_order_spec c(1) wp(1) times earliest_index_spec c(4), of 0 no_filter] wp(2)
    by (auto simp: no_filter_def)
  with c(1) wp(1) show ?thesis by blast
qed

end
