(* ===== verification/EtlMerge.thy ===== *)
theory EtlMerge
  imports EtlFile EtlQueries
begin

text \<open>
  What processing an Event Trace Log file means: every buffer gives the traces in its payload, those of a
  processor come in the order of the sequence numbers of its buffers, and \<open>process\<close> gives the observer all of
  them, each once, in the order of their times. The loops of \<open>process\<close> are shown to do what \<open>merge_threads\<close>
  does with the traces that are read in advance.
\<close>

section \<open>The traces of a file\<close>

function payload_traces :: "u8 list \<Rightarrow> error + etl_trace list" where
  "payload_traces bytes =
     (case next_trace bytes of
        Inl e \<Rightarrow> Inl e
      | Inr (tr, n) \<Rightarrow> if n \<ge> length bytes then Inr [tr] else map_sum id ((#) tr) (payload_traces (drop n bytes)))"
  by pat_completeness auto
termination by (relation "measure length") (auto dest: next_trace_pos)

declare payload_traces.simps [simp del]

definition stored_payload :: "etl_header_data \<Rightarrow> u8 list \<Rightarrow> nat \<Rightarrow> error + u8 list" where
  "stored_payload fh content pos =
     bind_result (subspan pos buffer_header_size content) (\<lambda>header.
     bind_result (buffer_header_view header) (\<lambda>bh.
       let size = unat (bh_buffer_size bh); saved = unat (bh_saved_offset bh) in
       if size < buffer_header_size \<or> saved < buffer_header_size \<or> unat (ed_buffer_size fh) < size \<or>
         unat (ed_buffer_size fh) < saved then Inl Undefined
       else bind_result (subspan (pos + buffer_header_size) (size - buffer_header_size) content) (\<lambda>body.
         if bh_compressed bh
         then bind_result (ms_xca_decompress body (saved - buffer_header_size) (ed_compression_format fh)) (\<lambda>out.
           if length out = saved - buffer_header_size then Inr out else Inl Undefined)
         else subspan 0 (saved - buffer_header_size) body)))"

definition stored_traces :: "etl_header_data \<Rightarrow> u8 list \<Rightarrow> file_buffer_info list \<Rightarrow> error + etl_trace list" where
  "stored_traces fh content bs =
     map_sum id concat (map_result (\<lambda>b. bind_result (stored_payload fh content (fb_start_pos b)) payload_traces) bs)"

definition trace_stamp :: "etl_trace \<Rightarrow> u64" where
  "trace_stamp tr = (case trace_time (tr_kind tr) (tr_header tr) of Inl _ \<Rightarrow> 0 | Inr t \<Rightarrow> t)"

section \<open>One buffer\<close>

lemma extract_int_take:
  assumes "off + LENGTH('a) div 8 \<le> m" "m \<le> length bytes"
  shows "(extract_int order (take m bytes) off :: error + 'a::len word) = extract_int order bytes off"
proof -
  have "take (LENGTH('a) div 8) (drop off (take m bytes)) = take (LENGTH('a) div 8) (drop off bytes)"
    using assms by (simp add: drop_take min_def)
  then show ?thesis using assms by (simp add: extract_int_def extract_nat_def Let_def)
qed

lemma peak_time:
  assumes "next_trace bytes = Inr (tr, n)"
  shows "peak_next_event_time bytes = Inr (trace_stamp tr)"
proof -
  obtain k extended header m user where p: "next_trace_kind bytes = Inr k"
    "subspan 0 (trace_static_size k + extended) bytes = Inr header" "tr = \<lparr>tr_kind = k, tr_header = header, tr_user_data = user\<rparr>"
    using assms by (rule next_trace_parts)
  have h: "header = take (trace_static_size k + extended) bytes" "trace_static_size k + extended \<le> length bytes"
    using p(2) by (auto simp: subspan_def split: if_splits)
  have at: "(if k = Perfinfo_trace then 8 else 16) + LENGTH(64) div 8 \<le> trace_static_size k + extended"
    by (cases k) (simp_all add: trace_static_size_def)
  have "trace_time k header = trace_time k bytes"
    unfolding trace_time_def h(1) by (rule extract_int_take [OF at h(2)])
  moreover have "\<exists>t. trace_time k bytes = Inr t"
    using at h(2) unfolding trace_time_def by (simp add: extract_int_Inr)
  ultimately show ?thesis using p(1,3) by (auto simp: peak_next_event_time_def trace_stamp_def)
qed

lemma payload_traces_first:
  assumes "payload_traces bytes = Inr trs"
  obtains tr n rest where "next_trace bytes = Inr (tr, n)" "trs = tr # rest"
    "if n \<ge> length bytes then rest = [] else payload_traces (drop n bytes) = Inr rest"
  using assms by (auto simp: payload_traces.simps [of bytes] map_sum_Inr split: sum.splits if_splits)

lemma payload_traces_time:
  assumes "payload_traces bytes = Inr trs"
  shows "trs \<noteq> [] \<and> bytes \<noteq> [] \<and> peak_next_event_time bytes = Inr (trace_stamp (List.hd trs))"
proof -
  obtain tr n rest where p: "next_trace bytes = Inr (tr, n)" "trs = tr # rest" using assms by (rule payload_traces_first)
  obtain k extended header m user where "subspan 0 (trace_static_size k + extended) bytes = Inr header"
    using p(1) by (rule next_trace_parts)
  then have "bytes \<noteq> []" using trace_static_size_ge [of k] by (auto simp: subspan_def split: if_splits)
  with p peak_time [OF p(1)] show ?thesis by simp
qed

text \<open>A stream of a file, at some place.\<close>

definition reads_file :: "u8 list \<Rightarrow> reading \<Rightarrow> bool" where
  "reads_file content w \<longleftrightarrow> fs_good (rs_stream w) \<and> fs_content (rs_stream w) = content \<and> length content < 2 ^ 62"

lemma seek_and_read:
  assumes "fs_good s" "fs_content s = content" "length content < 2 ^ 62" "pos + n \<le> length content"
  shows "stream_read n (stream_seek pos s) = (take n (drop pos content), s\<lparr>fs_position := pos + n\<rparr>)"
  using assms by (simp add: stream_read_def stream_seek_def)

lemma length_overwrite [simp]: "off + length xs \<le> length ys \<Longrightarrow> length (overwrite off xs ys) = length ys"
  by (simp add: overwrite_def)

lemma take_overwrite_0: "take (length xs) (overwrite 0 xs ys) = xs"
  by (simp add: overwrite_def)

text \<open>What a buffer holds, in the parts that \<open>read_buffer\<close> works on.\<close>

lemma stored_payload_parts:
  assumes "stored_payload fh content pos = Inr pl"
  obtains bh body where "pos + buffer_header_size \<le> length content"
    "buffer_header_view (take buffer_header_size (drop pos content)) = Inr bh"
    "buffer_header_size \<le> unat (bh_buffer_size bh)" "buffer_header_size \<le> unat (bh_saved_offset bh)"
    "unat (bh_buffer_size bh) \<le> unat (ed_buffer_size fh)" "unat (bh_saved_offset bh) \<le> unat (ed_buffer_size fh)"
    "pos + unat (bh_buffer_size bh) \<le> length content"
    "body = take (unat (bh_buffer_size bh) - buffer_header_size) (drop (pos + buffer_header_size) content)"
    "if bh_compressed bh
     then ms_xca_decompress body (unat (bh_saved_offset bh) - buffer_header_size) (ed_compression_format fh) = Inr pl \<and>
       length pl = unat (bh_saved_offset bh) - buffer_header_size
     else unat (bh_saved_offset bh) \<le> unat (bh_buffer_size bh) \<and>
       pl = take (unat (bh_saved_offset bh) - buffer_header_size) body"
proof -
  obtain header bh where h: "subspan pos buffer_header_size content = Inr header" "buffer_header_view header = Inr bh"
    using assms by (auto simp: stored_payload_def bind_result_Inr)
  let ?size = "unat (bh_buffer_size bh)" and ?saved = "unat (bh_saved_offset bh)"
  obtain body where b: "buffer_header_size \<le> ?size" "buffer_header_size \<le> ?saved" "?size \<le> unat (ed_buffer_size fh)"
    "?saved \<le> unat (ed_buffer_size fh)" "subspan (pos + buffer_header_size) (?size - buffer_header_size) content = Inr body"
    and k: "(if bh_compressed bh
         then bind_result (ms_xca_decompress body (?saved - buffer_header_size) (ed_compression_format fh)) (\<lambda>out.
           if length out = ?saved - buffer_header_size then Inr out else Inl Undefined)
         else subspan 0 (?saved - buffer_header_size) body) = Inr pl"
    using assms unfolding stored_payload_def h bind_result_simps Let_def
    by (auto simp: bind_result_Inr not_less split: if_splits)
  have body: "body = take (?size - buffer_header_size) (drop (pos + buffer_header_size) content)"
      "pos + ?size \<le> length content"
    using b(1,5) by (auto simp: subspan_def split: if_splits)
  have "if bh_compressed bh
     then ms_xca_decompress body (?saved - buffer_header_size) (ed_compression_format fh) = Inr pl \<and>
       length pl = ?saved - buffer_header_size
     else ?saved \<le> ?size \<and> pl = take (?saved - buffer_header_size) body"
    using k b(1) body by (auto simp: bind_result_Inr subspan_def split: if_splits)
  moreover have "header = take buffer_header_size (drop pos content)" "pos + buffer_header_size \<le> length content"
    using h(1) by (auto simp: subspan_def split: if_splits)
  ultimately show ?thesis using h(2) b(1-4) body by (intro that [of bh body]) simp_all
qed

lemma read_rest_stored:
  assumes size: "buffer_header_size \<le> unat (bh_buffer_size bh)" "unat (bh_buffer_size bh) \<le> length data"
    and saved: "bh_compressed bh \<or> unat (bh_saved_offset bh) \<le> unat (bh_buffer_size bh)"
    and s: "fs_good (rs_stream w)" "pos + unat (bh_buffer_size bh) \<le> length (fs_content (rs_stream w))"
      "fs_position (rs_stream w) = pos + buffer_header_size"
    and body: "body = take (unat (bh_buffer_size bh) - buffer_header_size) (drop (pos + buffer_header_size) (fs_content (rs_stream w)))"
  shows "\<exists>temp. read_rest pos bh data w =
    Inr (if bh_compressed bh then data else overwrite buffer_header_size body data,
      \<lparr>rs_stream = (rs_stream w)\<lparr>fs_position := pos + unat (bh_buffer_size bh)\<rparr>,
       rs_temp = if bh_compressed bh then body else temp\<rparr>)"
proof -
  let ?n = "unat (bh_buffer_size bh) - buffer_header_size"
  have len: "length body = ?n" using size s(2) by (simp add: body)
  have r: "stream_read ?n (rs_stream w) = (body, (rs_stream w)\<lparr>fs_position := pos + unat (bh_buffer_size bh)\<rparr>)"
    using s size len by (simp add: stream_read_def Let_def flip: body)
  show ?thesis
  proof (cases "bh_compressed bh")
    case True
    have "overwrite 0 body xs = body" if "length xs = ?n" for xs :: "u8 list" using that len by (simp add: overwrite_def)
    with True size r show ?thesis by (simp add: read_rest_def Let_def min_def)
  next
    case False
    with saved size r len show ?thesis by (cases w) (auto simp: read_rest_def Let_def)
  qed
qed

lemma check_rest_stored:
  assumes "fs_good s" "fs_position s = pos + unat (bh_buffer_size bh)" "buffer_header_size \<le> unat (bh_buffer_size bh)"
  shows "check_rest pos bh s = Inr ()"
  using assms by (simp add: check_rest_def tell_def Let_def)

lemma unpack_stored:
  assumes saved: "buffer_header_size \<le> unat (bh_saved_offset bh)" "unat (bh_saved_offset bh) \<le> length data"
    and size: "unat (bh_buffer_size bh) \<le> length data" "buffer_header_size \<le> unat (bh_buffer_size bh)"
    and body: "length body = unat (bh_buffer_size bh) - buffer_header_size" "bh_compressed bh \<Longrightarrow> temp = body"
    and pl: "if bh_compressed bh
     then ms_xca_decompress body (unat (bh_saved_offset bh) - buffer_header_size) (ed_compression_format fh) = Inr pl \<and>
       length pl = unat (bh_saved_offset bh) - buffer_header_size
     else unat (bh_saved_offset bh) \<le> unat (bh_buffer_size bh) \<and>
       pl = take (unat (bh_saved_offset bh) - buffer_header_size) body"
  shows "\<exists>data1. unpack_payload fh bh (if bh_compressed bh then data else overwrite buffer_header_size body data) temp =
    Inr (pl, data1) \<and> length data1 = length data"
proof -
  let ?n = "unat (bh_saved_offset bh) - buffer_header_size"
  have span: "subspan_difference buffer_header_size (unat (bh_saved_offset bh)) buffer_header_size xs =
      Inr (take ?n (drop buffer_header_size xs))" if "length xs = length data" for xs :: "u8 list"
    using that saved by (simp add: subspan_difference_def subspan_def)
  show ?thesis
  proof (cases "bh_compressed bh")
    case True
    have len: "length (take ?n (drop buffer_header_size data)) = ?n" using saved by simp
    have small: "(uint (bh_saved_offset bh) - int buffer_header_size) mod 2 ^ 64 = int ?n"
    proof -
      have "uint (bh_saved_offset bh) < 2 ^ 64" using unsigned_less [of "bh_saved_offset bh", where 'a = int] by simp
      moreover have "int ?n = uint (bh_saved_offset bh) - int buffer_header_size" using saved(1) by (simp add: of_nat_diff)
      moreover have "0 \<le> int ?n" by simp
      ultimately show ?thesis by simp
    qed
    show ?thesis using True pl body(2) saved span [OF refl] small len by (simp add: unpack_payload_def)
  next
    case False
    have "take ?n (drop buffer_header_size (overwrite buffer_header_size body data)) = take ?n body"
      using False pl body(1) size saved by (simp add: overwrite_def)
    moreover have "length (overwrite buffer_header_size body data) = length data" using body(1) size by simp
    ultimately show ?thesis using False pl span by (simp add: unpack_payload_def)
  qed
qed

lemma read_stored_buffer:
  assumes stored: "stored_payload fh content (fb_start_pos b) = Inr pl"
    and r: "pr_remaining pr = bs @ [b]" and len: "length (pr_buffer pr) = unat (ed_buffer_size fh)"
    and w: "reads_file content w" and ob: "on_buffer ob = (\<lambda>_ _ c. Inr c)"
  shows "\<exists>data w1. read_buffer ob fh pr w c =
      Inr (\<lparr>pr_buffer = data, pr_payload = pl, pr_offset = 0, pr_remaining = bs\<rparr>, w1, c) \<and>
    length data = unat (ed_buffer_size fh) \<and> reads_file content w1"
proof -
  let ?pos = "fb_start_pos b" and ?n = buffer_header_size
  obtain bh body where b: "?pos + ?n \<le> length content" "buffer_header_view (take ?n (drop ?pos content)) = Inr bh"
    "?n \<le> unat (bh_buffer_size bh)" "?n \<le> unat (bh_saved_offset bh)" "unat (bh_buffer_size bh) \<le> unat (ed_buffer_size fh)"
    "unat (bh_saved_offset bh) \<le> unat (ed_buffer_size fh)" "?pos + unat (bh_buffer_size bh) \<le> length content"
    "body = take (unat (bh_buffer_size bh) - ?n) (drop (?pos + ?n) content)"
    and k: "if bh_compressed bh
     then ms_xca_decompress body (unat (bh_saved_offset bh) - buffer_header_size) (ed_compression_format fh) = Inr pl \<and>
       length pl = unat (bh_saved_offset bh) - buffer_header_size
     else unat (bh_saved_offset bh) \<le> unat (bh_buffer_size bh) \<and>
       pl = take (unat (bh_saved_offset bh) - buffer_header_size) body"
    using stored by (rule stored_payload_parts)
  let ?h = "take ?n (drop ?pos content)" and ?s = "(rs_stream w)\<lparr>fs_position := ?pos + ?n\<rparr>"
  let ?data = "overwrite 0 ?h (pr_buffer pr)"
  have s: "fs_good (rs_stream w)" "fs_content (rs_stream w) = content" "length content < 2 ^ 62"
    using w by (simp_all add: reads_file_def)
  have h: "length ?h = ?n" using b(1) by simp
  have data: "length ?data = unat (ed_buffer_size fh)" using h b(3,5) len by simp
  have first: "stream_read ?n (stream_seek ?pos (rs_stream w)) = (?h, ?s)" by (rule seek_and_read [OF s b(1)])
  have span: "subspan 0 ?n ?data = Inr ?h"
    using data b(3,5) take_overwrite_0 [of ?h "pr_buffer pr"] h by (simp add: subspan_def)
  obtain temp where rest: "read_rest ?pos bh ?data (w\<lparr>rs_stream := ?s\<rparr>) =
      Inr (if bh_compressed bh then ?data else overwrite ?n body ?data,
        \<lparr>rs_stream = ?s\<lparr>fs_position := ?pos + unat (bh_buffer_size bh)\<rparr>, rs_temp = if bh_compressed bh then body else temp\<rparr>)"
    using read_rest_stored [of bh ?data "w\<lparr>rs_stream := ?s\<rparr>" ?pos body] b(3,5,7,8) data s k by (auto split: if_splits)
  let ?w = "\<lparr>rs_stream = ?s\<lparr>fs_position := ?pos + unat (bh_buffer_size bh)\<rparr>, rs_temp = if bh_compressed bh then body else temp\<rparr>"
  have check: "check_rest ?pos bh (rs_stream ?w) = Inr ()" by (rule check_rest_stored) (use s(1) b(3) in simp_all)
  have "length body = unat (bh_buffer_size bh) - ?n" using b(3,7,8) by simp
  then obtain data1 where unpack: "unpack_payload fh bh (if bh_compressed bh then ?data else overwrite ?n body ?data) (rs_temp ?w) =
      Inr (pl, data1)" "length data1 = length ?data"
    using unpack_stored [of bh ?data body "rs_temp ?w" fh pl] b(3-6) data k by auto
  have "tell ?s - int ?pos = int ?n" using s(1) by (simp add: tell_def)
  then have "read_buffer ob fh pr w c = Inr (\<lparr>pr_buffer = data1, pr_payload = pl, pr_offset = 0, pr_remaining = bs\<rparr>, ?w, c)"
    using first span rest check unpack(1) b(2,3,5,6) h len ob r
    by (simp add: read_buffer_def Let_def del: length_take)
  then show ?thesis using unpack(2) data s by (auto simp: reads_file_def)
qed

section \<open>One processor\<close>

text \<open>A processor between two traces, and those it has left.\<close>

definition processor_left :: "etl_header_data \<Rightarrow> u8 list \<Rightarrow> processor_data \<Rightarrow> etl_trace list \<Rightarrow> bool" where
  "processor_left fh content pr trs \<longleftrightarrow>
     length (pr_buffer pr) = unat (ed_buffer_size fh) \<and> pr_offset pr < length (pr_payload pr) \<and>
     (\<exists>xs ys. payload_traces (drop (pr_offset pr) (pr_payload pr)) = Inr xs \<and>
       stored_traces fh content (rev (pr_remaining pr)) = Inr ys \<and> trs = xs @ ys)"

lemma processor_left_time:
  assumes "processor_left fh content pr trs"
  shows "trs \<noteq> [] \<and> next_event_time pr = Inr (trace_stamp (List.hd trs))"
proof -
  obtain xs ys where x: "payload_traces (drop (pr_offset pr) (pr_payload pr)) = Inr xs" "trs = xs @ ys"
    and o: "pr_offset pr < length (pr_payload pr)"
    using assms by (auto simp: processor_left_def)
  have "current_bytes pr = Inr (drop (pr_offset pr) (pr_payload pr))" using o by (simp add: current_bytes_def subspan_from_def)
  with payload_traces_time [OF x(1)] x(2) show ?thesis by (simp add: next_event_time_def)
qed

lemma stored_traces_Nil [simp]: "stored_traces fh content [] = Inr []"
  by (simp add: stored_traces_def)

lemma stored_traces_Cons: "stored_traces fh content (b # bs) = Inr trs \<longleftrightarrow>
    (\<exists>pl xs ys. stored_payload fh content (fb_start_pos b) = Inr pl \<and> payload_traces pl = Inr xs \<and>
      stored_traces fh content bs = Inr ys \<and> trs = xs @ ys)"
  by (auto simp: stored_traces_def map_sum_Inr bind_result_Inr)

lemma read_first_buffer:
  assumes "stored_traces fh content (rev (pr_remaining pr)) = Inr trs" "pr_remaining pr \<noteq> []"
    and "length (pr_buffer pr) = unat (ed_buffer_size fh)" "reads_file content w" "on_buffer ob = (\<lambda>_ _ c. Inr c)"
  shows "\<exists>pr1 w1. read_buffer ob fh pr w c = Inr (pr1, w1, c) \<and> processor_left fh content pr1 trs \<and> reads_file content w1"
proof -
  obtain bs b where bs: "pr_remaining pr = bs @ [b]" using assms(2) by (metis rev_exhaust)
  then obtain pl xs ys where p: "stored_payload fh content (fb_start_pos b) = Inr pl" "payload_traces pl = Inr xs"
    "stored_traces fh content (rev bs) = Inr ys" "trs = xs @ ys"
    using assms(1) by (auto simp: stored_traces_Cons)
  obtain data w1 where r: "read_buffer ob fh pr w c =
      Inr (\<lparr>pr_buffer = data, pr_payload = pl, pr_offset = 0, pr_remaining = bs\<rparr>, w1, c)"
    "length data = unat (ed_buffer_size fh)" "reads_file content w1"
    using read_stored_buffer [OF p(1) bs assms(3-5)] by blast
  have "processor_left fh content \<lparr>pr_buffer = data, pr_payload = pl, pr_offset = 0, pr_remaining = bs\<rparr> trs"
    using r(2) p payload_traces_time [OF p(2)] by (simp add: processor_left_def)
  with r show ?thesis by blast
qed

lemma advance_left:
  assumes l: "processor_left fh content pr (tr # trs)" and w: "reads_file content w" and ob: "on_buffer ob = (\<lambda>_ _ c. Inr c)"
  shows "case on_trace ob fh tr c of
      Inl e \<Rightarrow> advance ob fh pr w c = Inl e
    | Inr c1 \<Rightarrow> \<exists>pr1 w1. advance ob fh pr w c = Inr (pr1, w1, c1, trs \<noteq> []) \<and> reads_file content w1 \<and>
        (trs \<noteq> [] \<longrightarrow> processor_left fh content pr1 trs)"
proof -
  let ?bytes = "drop (pr_offset pr) (pr_payload pr)"
  obtain xs ys where x: "payload_traces ?bytes = Inr xs" "stored_traces fh content (rev (pr_remaining pr)) = Inr ys"
    "tr # trs = xs @ ys" and o: "pr_offset pr < length (pr_payload pr)" and len: "length (pr_buffer pr) = unat (ed_buffer_size fh)"
    using l by (auto simp: processor_left_def)
  obtain tr1 n rest where p: "next_trace ?bytes = Inr (tr1, n)" "xs = tr1 # rest"
    "if n \<ge> length ?bytes then rest = [] else payload_traces (drop n ?bytes) = Inr rest"
    using x(1) by (rule payload_traces_first)
  have tr: "tr1 = tr" "trs = rest @ ys" using x(3) p(2) by simp_all
  have bytes: "current_bytes pr = Inr ?bytes" using o by (simp add: current_bytes_def subspan_from_def)
  let ?pr = "pr\<lparr>pr_offset := pr_offset pr + n\<rparr>"
  show ?thesis
  proof (cases "on_trace ob fh tr c")
    case (Inl e)
    then show ?thesis using bytes p(1) tr(1) by (simp add: advance_def)
  next
    case (Inr c1)
    show ?thesis
    proof (cases "pr_offset pr + n < length (pr_payload pr)")
      case True
      then have rest: "payload_traces (drop (pr_offset ?pr) (pr_payload ?pr)) = Inr rest"
        using p(3) by (simp add: add.commute not_le split: if_splits)
      then have "processor_left fh content ?pr trs" using True x(2) tr(2) len by (simp add: processor_left_def)
      moreover have "trs \<noteq> []" using payload_traces_time [OF rest] tr(2) by simp
      ultimately show ?thesis using True Inr bytes p(1) tr(1) w by (simp add: advance_def Let_def)
    next
      case False
      then have fin: "rest = []" "length (pr_payload pr) \<le> pr_offset pr + n" using p(3) by (simp_all split: if_splits)
      show ?thesis
      proof (cases "pr_remaining pr = []")
        case True
        with fin tr(2) x(2) have "trs = []" by simp
        with True fin Inr bytes p(1) tr(1) w show ?thesis by (simp add: advance_def Let_def)
      next
        case more: False
        obtain pr1 w1 where r: "read_buffer ob fh ?pr w c1 = Inr (pr1, w1, c1)" "processor_left fh content pr1 trs" "reads_file content w1"
          using read_first_buffer [of fh content ?pr trs w ob c1] x(2) fin(1) tr(2) more len w ob by auto
        then show ?thesis using more fin Inr bytes p(1) tr(1) processor_left_time [OF r(2)] by (simp add: advance_def Let_def)
      qed
    qed
  qed
qed

text \<open>The inner loop takes the run of traces that \<open>take_run\<close> takes.\<close>

lemma run_processor_takes:
  assumes "processor_left fh content pr (pending d)" "reads_file content w" "on_buffer ob = (\<lambda>_ _ c. Inr c)"
    "take_run trace_stamp top_index q d = (xs, d1, r)"
  shows "case fold_result (on_trace ob fh) xs c of
      Inl e \<Rightarrow> run_processor ob fh top_index q pr w c = Inl e
    | Inr c1 \<Rightarrow> \<exists>pr1 w1. run_processor ob fh top_index q pr w c = Inr (pr1, w1, c1, r) \<and> reads_file content w1 \<and>
        (r \<noteq> None \<longrightarrow> processor_left fh content pr1 (pending d1))"
  using assms(1,2,4)
proof (induction trace_stamp top_index q d arbitrary: pr w c xs d1 r rule: take_run.induct)
  case (1 top_index q d)
  let ?s = "td_samples d ! td_next d" and ?d = "d\<lparr>td_next := Suc (td_next d)\<rparr>"
  have d: "td_next d < length (td_samples d)" using processor_left_time [OF 1(2)] by (simp add: pending_def)
  then have p: "pending d = ?s # pending ?d" by (simp add: pending_def Cons_nth_drop_Suc)
  have one: "take_run trace_stamp top_index q d =
      (if pending ?d = [] then ([?s], ?d, None)
       else let t = trace_stamp (List.hd (pending ?d)) in
         if q \<noteq> [] \<and> fst (q ! top_index q) < t then ([?s], ?d, Some t)
         else case take_run trace_stamp top_index q ?d of (xs, d2, r) \<Rightarrow> (?s # xs, d2, r))"
    by (simp add: take_run.simps [of _ _ _ d] pending_def hd_drop_conv_nth Let_def)
  note adv = advance_left [OF 1(2) [unfolded p] 1(3) assms(3), of c]
  show ?case
  proof (cases "on_trace ob fh ?s c")
    case (Inl e)
    moreover from this have "run_processor ob fh top_index q pr w c = Inl e"
      using adv by (simp add: run_processor.simps [of _ _ _ _ pr])
    moreover have "\<exists>zs. xs = ?s # zs" using 1(4) unfolding one by (auto simp: Let_def split: if_splits prod.splits)
    ultimately show ?thesis by auto
  next
    case (Inr c1)
    then obtain pr1 w1 where a: "advance ob fh pr w c = Inr (pr1, w1, c1, pending ?d \<noteq> [])" "reads_file content w1"
      "pending ?d \<noteq> [] \<Longrightarrow> processor_left fh content pr1 (pending ?d)"
      using adv by auto
    show ?thesis
    proof (cases "pending ?d = []")
      case True
      with one 1(4) a Inr show ?thesis by (simp add: run_processor.simps [of _ _ _ _ pr])
    next
      case False
      note left = a(3) [OF False]
      let ?t = "trace_stamp (List.hd (pending ?d))"
      have time: "next_event_time pr1 = Inr ?t" using processor_left_time [OF left] by simp
      show ?thesis
      proof (cases "q \<noteq> [] \<and> fst (q ! top_index q) < ?t")
        case True
        with False one 1(4) a Inr time left show ?thesis
          by (auto simp: run_processor.simps [of _ _ _ _ pr] Let_def)
      next
        case stay: False
        obtain zs where run: "take_run trace_stamp top_index q ?d = (zs, d1, r)" "xs = ?s # zs"
          using 1(4) False stay unfolding one by (auto simp: Let_def split: prod.splits)
        have step: "run_processor ob fh top_index q pr w c = run_processor ob fh top_index q pr1 w1 c1"
          using a(1) False time stay by (auto simp: run_processor.simps [of _ _ _ _ pr])
        have "td_next ?d < length (td_samples ?d)" using False by (simp add: pending_def)
        moreover have "\<not> (q \<noteq> [] \<and> fst (q ! top_index q) < trace_stamp (td_samples ?d ! td_next ?d))"
          using stay False by (simp add: pending_def hd_drop_conv_nth)
        ultimately have "case fold_result (on_trace ob fh) zs c1 of
              Inl e \<Rightarrow> run_processor ob fh top_index q pr1 w1 c1 = Inl e
            | Inr c2 \<Rightarrow> \<exists>pr2 w2. run_processor ob fh top_index q pr1 w1 c1 = Inr (pr2, w2, c2, r) \<and> reads_file content w2 \<and>
                (r \<noteq> None \<longrightarrow> processor_left fh content pr2 (pending d1))"
          by (intro 1(1) [OF refl refl _ refl _ left a(2) run(1)]) simp_all
        then show ?thesis unfolding step run(2) fold_result.simps Inr bind_result_simps .
      qed
    qed
  qed
qed

section \<open>All processors\<close>

text \<open>The processors that wait in the queue have what the threads have that \<open>merge_threads\<close> works on.\<close>

definition waiting_left ::
  "etl_header_data \<Rightarrow> u8 list \<Rightarrow> sample_queue \<Rightarrow> processor_data list \<Rightarrow> etl_trace thread_sample_data list \<Rightarrow> bool" where
  "waiting_left fh content q prs data \<longleftrightarrow> length prs = length data \<and>
     (\<forall>x \<in> set q. processor_left fh content (prs ! snd x) (pending (data ! snd x)))"

lemma waiting_left_round:
  assumes l: "waiting_left fh content q prs data" and ok: "queue_ok trace_stamp q data" and k: "k < length q"
    and i: "i = snd (q ! k)" and pr: "r \<noteq> None \<longrightarrow> processor_left fh content pr (pending d)"
  shows "waiting_left fh content (case r of None \<Rightarrow> remove_nth k q | Some t \<Rightarrow> remove_nth k q @ [(t, i)]) (prs[i := pr]) (data[i := d])"
proof -
  have set: "set (remove_nth k q) = {x \<in> set q. snd x \<noteq> i}" and len: "i < length data"
    using remove_nth_set(1) [OF k] ok i k by (auto simp: queue_ok_def)
  have "processor_left fh content (prs[i := pr] ! snd x) (pending (data[i := d] ! snd x))" if "x \<in> set (remove_nth k q)" for x
    using that l unfolding set waiting_left_def by simp
  moreover have "length prs = length data" using l by (simp add: waiting_left_def)
  ultimately show ?thesis using pr len by (cases r) (auto simp: waiting_left_def)
qed

lemma run_queue_merges:
  assumes "queue_ok trace_stamp q data" "waiting_left fh content q prs data" "reads_file content w"
    and top: "top_spec top_index" and ob: "on_buffer ob = (\<lambda>_ _ c. Inr c)"
  shows "\<exists>ys. merge_threads trace_stamp top_index q data = Some ys \<and>
    run_queue ob fh top_index (\<lambda>_. False) k q prs w c = Some (fold_result (on_trace ob fh) ys c)"
  using assms(1-3)
proof (induction "length (concat (map pending data))" arbitrary: q data prs w c k rule: less_induct)
  case less
  show ?case
  proof (cases "q = []")
    case True
    then show ?thesis unfolding merge_threads.simps [of _ _ q] run_queue.simps [of _ _ _ _ _ q] by simp
  next
    case False
    let ?k = "top_index q" and ?q = "remove_nth (top_index q) q"
    obtain i where i: "i = snd (q ! ?k)" by blast
    have k: "?k < length q" using top False by (auto simp: top_spec_def)
    have ik: "i < length data" "pending (data ! i) \<noteq> []" using less.prems(1) k i by (auto simp: queue_ok_def)
    have left: "processor_left fh content (prs ! i) (pending (data ! i))"
      using less.prems(2) k i by (auto simp: waiting_left_def)
    obtain xs d r where run: "take_run trace_stamp top_index ?q (data ! i) = (xs, d, r)" by (metis prod_cases3)
    have p: "xs \<noteq> []" "pending (data ! i) = xs @ pending d" using take_run_pending [OF run ik(2)] by blast+
    let ?next = "case r of None \<Rightarrow> ?q | Some t \<Rightarrow> ?q @ [(t, i)]"
    have ok: "queue_ok trace_stamp ?next (data[i := d])" by (rule queue_ok_round [OF less.prems(1) k i run])
    have "length (concat (map pending data)) = length xs + length (concat (map pending (data[i := d])))"
      using arg_cong [OF mset_pending_update [OF ik(1) p(2)], of size] by (simp only: size_union size_mset)
    then have smaller: "length (concat (map pending (data[i := d]))) < length (concat (map pending data))"
      using p(1) by (cases xs) auto
    obtain ys where merge: "merge_threads trace_stamp top_index ?next (data[i := d]) = Some ys"
      using merge_threads_ok [OF ok top] by blast
    have m: "merge_threads trace_stamp top_index q data = Some (xs @ ys)"
      using False run merge by (simp add: merge_threads.simps [of _ _ q] Let_def flip: i)
    have step: "run_queue ob fh top_index (\<lambda>_. False) k q prs w c =
        (case run_processor ob fh top_index ?q (prs ! i) w c of
          Inl e \<Rightarrow> Some (Inl e)
        | Inr (pr, w1, c1, r) \<Rightarrow>
            run_queue ob fh top_index (\<lambda>_. False) (Suc k) (case r of None \<Rightarrow> ?q | Some t \<Rightarrow> ?q @ [(t, i)]) (prs[i := pr]) w1 c1)"
      using False by (simp add: run_queue.simps [of _ _ _ _ _ q] Let_def flip: i)
    note takes = run_processor_takes [OF left less.prems(3) ob run, of c]
    have "run_queue ob fh top_index (\<lambda>_. False) k q prs w c = Some (fold_result (on_trace ob fh) (xs @ ys) c)"
    proof (cases "fold_result (on_trace ob fh) xs c")
      case (Inl e)
      with takes show ?thesis by (simp add: step fold_result_append)
    next
      case (Inr c1)
      then obtain pr1 w1 where r1: "run_processor ob fh top_index ?q (prs ! i) w c = Inr (pr1, w1, c1, r)" "reads_file content w1"
        "r \<noteq> None \<longrightarrow> processor_left fh content pr1 (pending d)"
        using takes by auto
      have "waiting_left fh content ?next (prs[i := pr1]) (data[i := d])"
        by (rule waiting_left_round [OF less.prems(2,1) k i r1(3)])
      then have "run_queue ob fh top_index (\<lambda>_. False) (Suc k) ?next (prs[i := pr1]) w1 c1 = Some (fold_result (on_trace ob fh) ys c1)"
        using less.hyps [OF smaller ok _ r1(2)] merge by fastforce
      then show ?thesis using r1(1) Inr by (simp add: step fold_result_append)
    qed
    with m show ?thesis by blast
  qed
qed

subsection \<open>Their first buffers\<close>

lemma start_processor_left:
  assumes "stored_traces fh content (rev (sort_buffers (pr_remaining pr))) = Inr trs" "sort_spec sort_buffers" "pr_remaining pr \<noteq> []"
    "reads_file content w" "on_buffer ob = (\<lambda>_ _ c. Inr c)"
  shows "\<exists>pr1 w1. start_processor ob sort_buffers fh pr w c = Inr (pr1, w1, c, trace_stamp (List.hd trs)) \<and>
    processor_left fh content pr1 trs \<and> reads_file content w1"
proof -
  have "sort_buffers (pr_remaining pr) \<noteq> []"
    using assms(2,3) unfolding sort_spec_def by (metis mset_zero_iff)
  then obtain pr1 w1 where r: "read_buffer ob fh (pr\<lparr>pr_remaining := sort_buffers (pr_remaining pr),
         pr_buffer := replicate (unat (ed_buffer_size fh)) 0\<rparr>) w c = Inr (pr1, w1, c)"
      "processor_left fh content pr1 trs" "reads_file content w1"
    using read_first_buffer [of fh content "pr\<lparr>pr_remaining := sort_buffers (pr_remaining pr),
         pr_buffer := replicate (unat (ed_buffer_size fh)) 0\<rparr>" trs w ob c] assms(1,4,5) by auto
  then show ?thesis using processor_left_time [OF r(2)] by (simp add: start_processor_def)
qed

lemma start_processors_left:
  assumes sort: "sort_spec sort_buffers" and ob: "on_buffer ob = (\<lambda>_ _ c. Inr c)"
    and "distinct js" "\<forall>j \<in> set js. j < length prs \<and>
      stored_traces fh content (rev (sort_buffers (pr_remaining (prs ! j)))) = Inr (tss ! j)" "reads_file content w"
  shows "\<exists>prs1 w1. start_processors ob sort_buffers fh (\<lambda>_. False) js q prs w c =
      Inr (Some (q @ map (\<lambda>j. (trace_stamp (List.hd (tss ! j)), j)) (filter (\<lambda>j. tss ! j \<noteq> []) js), prs1, w1), c) \<and>
    reads_file content w1 \<and> length prs1 = length prs \<and> (\<forall>j. j \<notin> set js \<longrightarrow> prs1 ! j = prs ! j) \<and>
    (\<forall>j \<in> set js. tss ! j \<noteq> [] \<longrightarrow> processor_left fh content (prs1 ! j) (tss ! j))"
  using assms(3-)
proof (induction js arbitrary: q prs w)
  case Nil
  then show ?case by simp
next
  case (Cons j js)
  have j: "j < length prs" "stored_traces fh content (rev (sort_buffers (pr_remaining (prs ! j)))) = Inr (tss ! j)"
    "j \<notin> set js" "distinct js" using Cons.prems by simp_all
  show ?case
  proof (cases "pr_remaining (prs ! j) = []")
    case True
    then have "sort_buffers (pr_remaining (prs ! j)) = []" using sort unfolding sort_spec_def by (metis mset_zero_iff)
    then have empty: "tss ! j = []" using j(2) by simp
    show ?thesis
      using Cons.IH [OF j(4) _ Cons.prems(3), of prs q] Cons.prems(2) True empty by auto
  next
    case False
    obtain pr1 w1 where s: "start_processor ob sort_buffers fh (prs ! j) w c = Inr (pr1, w1, c, trace_stamp (List.hd (tss ! j)))"
      "processor_left fh content pr1 (tss ! j)" "reads_file content w1"
      using start_processor_left [OF j(2) sort False Cons.prems(3) ob] by blast
    have some: "tss ! j \<noteq> []" using processor_left_time [OF s(2)] by simp
    have others: "\<forall>i \<in> set js. i < length (prs[j := pr1]) \<and>
        stored_traces fh content (rev (sort_buffers (pr_remaining (prs[j := pr1] ! i)))) = Inr (tss ! i)"
      using Cons.prems(2) j(3) by (auto simp: nth_list_update)
    obtain prs2 w2 where n: "start_processors ob sort_buffers fh (\<lambda>_. False) js (q @ [(trace_stamp (List.hd (tss ! j)), j)]) (prs[j := pr1]) w1 c =
        Inr (Some ((q @ [(trace_stamp (List.hd (tss ! j)), j)]) @
          map (\<lambda>j. (trace_stamp (List.hd (tss ! j)), j)) (filter (\<lambda>j. tss ! j \<noteq> []) js), prs2, w2), c)"
      "reads_file content w2" "length prs2 = length prs" "\<forall>i. i \<notin> set js \<longrightarrow> prs2 ! i = prs[j := pr1] ! i"
      "\<forall>i \<in> set js. tss ! i \<noteq> [] \<longrightarrow> processor_left fh content (prs2 ! i) (tss ! i)"
      using Cons.IH [OF j(4) others s(3), of "q @ [(trace_stamp (List.hd (tss ! j)), j)]"] by auto
    have "prs2 ! j = pr1" using n(4) j(1,3) by simp
    then show ?thesis using n s some False by (auto simp: nth_list_update)
  qed
qed

section \<open>The whole file\<close>

lemma collect_buffer_stream:
  assumes "collect_buffer fh k (s, prs) = Inr (s1, prs1)" "fs_good s" "length (fs_content s) < 2 ^ 62"
  shows "fs_good s1 \<and> fs_content s1 = fs_content s \<and> length prs1 = length prs"
proof -
  let ?bs = "take buffer_header_size (drop (fs_position s) (fs_content s))"
  let ?s = "s\<lparr>fs_position := fs_position s + length ?bs, fs_good := (length ?bs = buffer_header_size)\<rparr>"
  have r: "stream_read buffer_header_size s = (?bs, ?s)" using assms(2) by (simp add: stream_read_def Let_def)
  have "\<not> tell ?s - tell s < int buffer_header_size"
    using assms(1) unfolding collect_buffer_def r prod.case by (auto split: if_splits)
  then have len: "length ?bs = buffer_header_size" using assms(2) by (auto simp: tell_def split: if_splits)
  then have pos: "fs_position s < length (fs_content s)" by (simp add: buffer_header_size_def split: if_splits)
  have "\<exists>bh :: buffer_header. s1 = stream_seek (fs_position s + unat (bh_buffer_size bh)) ?s \<and> length prs1 = length prs"
    using assms(1) unfolding collect_buffer_def r prod.case Let_def
    by (auto simp: bind_result_Inr simp del: length_take split: if_splits)
  then obtain bh :: buffer_header where "s1 = stream_seek (fs_position s + unat (bh_buffer_size bh)) ?s" "length prs1 = length prs" by blast
  moreover have "unat (bh_buffer_size bh) < 2 ^ 32" using unsigned_less [of "bh_buffer_size bh", where 'a = nat] by simp
  ultimately show ?thesis using len pos assms(3) by (simp add: stream_seek_def)
qed

lemma collect_buffers_stream:
  assumes "collect_buffers fh canceled n k (s, prs) = Inr (Some (s1, prs1))" "fs_good s" "length (fs_content s) < 2 ^ 62"
  shows "fs_good s1 \<and> fs_content s1 = fs_content s \<and> length prs1 = length prs"
  using assms
proof (induction n arbitrary: k s prs)
  case 0
  then show ?case by simp
next
  case (Suc n)
  obtain s2 prs2 where "collect_buffer fh k (s, prs) = Inr (s2, prs2)" "collect_buffers fh canceled n (Suc k) (s2, prs2) = Inr (Some (s1, prs1))"
    using Suc.prems(1) by (auto simp: bind_result_Inr split: if_splits)
  with collect_buffer_stream [of fh k s prs s2 prs2] Suc.IH [of "Suc k" s2 prs2] Suc.prems(2,3) show ?case by simp
qed

text \<open>The traces of each processor of a file.\<close>

definition file_traces ::
  "(file_buffer_info list \<Rightarrow> file_buffer_info list) \<Rightarrow> etl_header_data \<Rightarrow> fstream \<Rightarrow> error + etl_trace list list" where
  "file_traces sort_buffers fh s =
     bind_result (collect_buffers fh (\<lambda>_. False) (unat (ed_number_of_buffers fh)) 0
       (s, replicate (unat (ed_number_of_processors fh)) new_processor)) (\<lambda>r.
       case r of None \<Rightarrow> Inr []
       | Some (_, prs) \<Rightarrow>
           map_result (\<lambda>pr. stored_traces fh (fs_content s) (rev (sort_buffers (pr_remaining pr)))) prs)"

lemma collect_not_canceled: "collect_buffers fh (\<lambda>_. False) n k st \<noteq> Inr None"
  by (induction n arbitrary: k st) (auto simp: bind_result_Inr)

lemma start_queue_ok:
  assumes "\<forall>ts \<in> set tss. sorted (map stamp ts)" "length tss = m"
  shows "queue_ok stamp (map (\<lambda>j. (stamp (List.hd (tss ! j)), j)) (filter (\<lambda>j. tss ! j \<noteq> []) [0..<m]))
    (map (\<lambda>ts. \<lparr>td_samples = ts, td_next = 0\<rparr>) tss)"
proof -
  have "map snd (map (\<lambda>j. (stamp (List.hd (tss ! j)), j)) xs) = xs" for xs by (induction xs) auto
  then have "distinct (map snd (map (\<lambda>j. (stamp (List.hd (tss ! j)), j)) (filter (\<lambda>j. tss ! j \<noteq> []) [0..<m])))" by simp
  moreover have "i \<in> snd ` set (map (\<lambda>j. (stamp (List.hd (tss ! j)), j)) (filter (\<lambda>j. tss ! j \<noteq> []) [0..<m]))"
    if "i < m" "tss ! i \<noteq> []" for i
    using that by (simp add: image_image)
  ultimately show ?thesis using assms by (auto simp: queue_ok_def pending_def)
qed

lemma processes_all:
  assumes t: "file_traces sort_buffers fh s = Inr tss" and sorted: "\<forall>ts \<in> set tss. sorted (map trace_stamp ts)"
    and s: "fs_good s" "length (fs_content s) < 2 ^ 62" and ob: "on_buffer ob = (\<lambda>_ _ c. Inr c)"
    and specs: "top_spec top_index" "sort_spec sort_buffers"
  shows "\<exists>ys. sorted (map trace_stamp ys) \<and> mset ys = mset (concat tss) \<and>
    process_etl ob sort_buffers top_index (\<lambda>_. False) fh s c = Some (fold_result (on_trace ob fh) ys c)"
proof -
  let ?n = "unat (ed_number_of_buffers fh)" and ?m = "unat (ed_number_of_processors fh)"
  obtain s1 prs where c: "collect_buffers fh (\<lambda>_. False) ?n 0 (s, replicate ?m new_processor) = Inr (Some (s1, prs))"
    and m: "map_result (\<lambda>pr. stored_traces fh (fs_content s) (rev (sort_buffers (pr_remaining pr)))) prs = Inr tss"
  proof -
    obtain r where r: "collect_buffers fh (\<lambda>_. False) ?n 0 (s, replicate ?m new_processor) = Inr r"
      "(case r of None \<Rightarrow> Inr []
       | Some (_, prs) \<Rightarrow>
           map_result (\<lambda>pr. stored_traces fh (fs_content s) (rev (sort_buffers (pr_remaining pr)))) prs) = Inr tss"
      using t by (auto simp: file_traces_def bind_result_Inr)
    moreover have "r \<noteq> None" using r(1) by (metis collect_not_canceled)
    ultimately show ?thesis using that by (cases r) auto
  qed
  have s1: "fs_good s1" "fs_content s1 = fs_content s" "length prs = ?m"
    using collect_buffers_stream [OF c s] by simp_all
  have all: "length tss = ?m" "\<forall>j < ?m. stored_traces fh (fs_content s) (rev (sort_buffers (pr_remaining (prs ! j)))) = Inr (tss ! j)"
    using m s1(3) unfolding map_result_Inr by (simp_all add: list_all2_conv_all_nth)
  let ?w = "\<lparr>rs_stream = s1, rs_temp = []\<rparr>"
  let ?q = "map (\<lambda>j. (trace_stamp (List.hd (tss ! j)), j)) (filter (\<lambda>j. tss ! j \<noteq> []) [0..<?m])"
  let ?data = "map (\<lambda>ts. \<lparr>td_samples = ts, td_next = 0\<rparr>) tss"
  have w: "reads_file (fs_content s) ?w" using s s1 by (simp add: reads_file_def)
  obtain prs1 w1 where st: "start_processors ob sort_buffers fh (\<lambda>_. False) [0..<?m] [] prs ?w c = Inr (Some (?q, prs1, w1), c)"
    "reads_file (fs_content s) w1" "length prs1 = length prs"
    "\<forall>j \<in> set [0..<?m]. tss ! j \<noteq> [] \<longrightarrow> processor_left fh (fs_content s) (prs1 ! j) (tss ! j)"
    using start_processors_left [OF specs(2) ob, of "[0..<?m]" prs fh "fs_content s" tss ?w "[]" c] all s1(3) w by auto
  have ok: "queue_ok trace_stamp ?q ?data" by (rule start_queue_ok [OF sorted all(1)])
  have "waiting_left fh (fs_content s) ?q prs1 ?data"
    using st(3,4) s1(3) all(1) by (auto simp: waiting_left_def pending_def)
  then obtain ys where ys: "merge_threads trace_stamp top_index ?q ?data = Some ys"
    "run_queue ob fh top_index (\<lambda>_. False) 0 ?q prs1 w1 c = Some (fold_result (on_trace ob fh) ys c)"
    using run_queue_merges [OF ok _ st(2) specs(1) ob] by blast
  have "sorted (map trace_stamp ys) \<and> mset ys = mset (concat tss)"
    using merge_threads_ok [OF ok specs(1)] ys(1) by (simp add: pending_def comp_def)
  moreover have "process_etl ob sort_buffers top_index (\<lambda>_. False) fh s c = Some (fold_result (on_trace ob fh) ys c)"
    using c st(1) ys(2) by (simp add: process_etl_def Let_def)
  ultimately show ?thesis by blast
qed

end
