(* ===== verification/EtlRecords.thy ===== *)
theory EtlRecords
  imports EtlTraces
begin

text \<open>
  Events of Event Trace Log files: the views of the records in \<open>snail/etl/parser/records/\<close> that the process
  context is registered for, and their dispatch in \<open>snail/etl/dispatching_event_observer.cpp\<close>. All values that a
  handler may read are read: a record that is too short for values the handler does not come to is \<open>Undefined\<close>
  here.
\<close>

section \<open>Records\<close>

definition dynamic_offset :: "u32 \<Rightarrow> nat \<Rightarrow> nat \<Rightarrow> nat" where
  "dynamic_offset pointer_size bytes_offset pointer_count = bytes_offset + pointer_count * unat pointer_size"

subsection \<open>The system\<close>

definition cpu_view :: "u32 \<Rightarrow> u8 list \<Rightarrow> error + etl_event" where
  "cpu_view p b =
     bind_result (extract_u16string b 20) (\<lambda>computer_name.
     bind_result (u16_at b (dynamic_offset p 800 2)) (\<lambda>architecture. Inr (Cpu_event computer_name architecture)))"

definition physical_disk_view :: "u8 list \<Rightarrow> error + etl_event" where
  "physical_disk_view b =
     bind_result (u32_at b 0) (\<lambda>disk_number.
     bind_result (u32_at b 552) (\<lambda>partition_count. Inr (Physical_disk_event disk_number partition_count)))"

definition logical_disk_view :: "u8 list \<Rightarrow> error + etl_event" where
  "logical_disk_view b =
     bind_result (u32_at b 16) (\<lambda>disk_number.
     bind_result (u32_at b 40) (\<lambda>partition_number.
     bind_result (extract_u16string b 28) (\<lambda>drive_letter.
       Inr (Logical_disk_event disk_number partition_number drive_letter))))"

text \<open>Strings one after another, each with its terminator.\<close>

fun u16strings :: "nat \<Rightarrow> u8 list \<Rightarrow> nat \<Rightarrow> error + u16 list list" where
  "u16strings 0 b off = Inr []"
| "u16strings (Suc n) b off =
     bind_result (extract_u16string b off) (\<lambda>s.
     bind_result (u16strings n b (off + length s * 2 + 2)) (\<lambda>ss. Inr (s # ss)))"

definition pnp_view :: "u8 list \<Rightarrow> error + etl_event" where
  "pnp_view b = bind_result (u16strings 3 b 32) (\<lambda>ss. Inr (Pnp_event (ss ! 1) (ss ! 2)))"

definition build_info_view :: "u8 list \<Rightarrow> error + etl_event" where
  "build_info_view b = bind_result (u16strings 2 b 8) (\<lambda>ss. Inr (Build_info_event (ss ! 1)))"

definition system_paths_view :: "u8 list \<Rightarrow> error + etl_event" where
  "system_paths_view b = bind_result (u16strings 2 b 0) (\<lambda>ss. Inr (System_paths_event (ss ! 1)))"

definition volume_mapping_view :: "u8 list \<Rightarrow> error + etl_event" where
  "volume_mapping_view b = bind_result (u16strings 2 b 0) (\<lambda>ss. Inr (Volume_mapping_event (ss ! 0) (ss ! 1)))"

subsection \<open>Processes and threads\<close>

text \<open>Where the name of the process starts: behind its security identifier, if there is one.\<close>

definition sid_size :: "u8 list \<Rightarrow> nat \<Rightarrow> error + nat" where
  "sid_size b off = bind_result (u8_at b (off + 1)) (\<lambda>sub_authority_count. Inr (8 + unat sub_authority_count * 4))"

definition name_offset :: "u32 \<Rightarrow> u8 list \<Rightarrow> error + nat" where
  "name_offset p b =
     bind_result (u32_at b (dynamic_offset p 20 2)) (\<lambda>sid.
       if sid \<noteq> 0
       then bind_result (sid_size b (dynamic_offset p 20 4)) (\<lambda>n. Inr (dynamic_offset p (20 + n) 4))
       else Inr (dynamic_offset p 24 2))"

definition process_view :: "u32 \<Rightarrow> u8 list \<Rightarrow> error + etl_event" where
  "process_view p b =
     bind_result (u32_at b (dynamic_offset p 0 1)) (\<lambda>process_id.
     bind_result (u32_at b (dynamic_offset p 4 1)) (\<lambda>parent_id.
     bind_result (name_offset p b) (\<lambda>off.
     bind_result (extract_string b off) (\<lambda>image_filename.
     bind_result (extract_u16string b (off + length image_filename + 1)) (\<lambda>command_line.
       Inr (Process_event process_id parent_id image_filename command_line))))))"

definition thread_view :: "u32 \<Rightarrow> u8 list \<Rightarrow> error + etl_event" where
  "thread_view p b =
     bind_result (u32_at b 0) (\<lambda>process_id.
     bind_result (u32_at b 4) (\<lambda>thread_id.
       if length b \<le> dynamic_offset p 16 7 then Inr (Thread_event thread_id process_id None)
       else bind_result (extract_u16string b (dynamic_offset p 16 7)) (\<lambda>n. Inr (Thread_event thread_id process_id (Some n)))))"

definition context_switch_view :: "u64 list option \<Rightarrow> u8 list \<Rightarrow> error + etl_event" where
  "context_switch_view counters b =
     bind_result (u32_at b 0) (\<lambda>new_thread_id.
     bind_result (u32_at b 4) (\<lambda>old_thread_id. Inr (Context_switch_event old_thread_id new_thread_id counters)))"

subsection \<open>Images\<close>

text \<open>The base and the size are read as 64 bits, though their fields have the size of a pointer.\<close>

definition image_view :: "u32 \<Rightarrow> u8 list \<Rightarrow> error + etl_event" where
  "image_view p b =
     bind_result (u64_at b (dynamic_offset p 0 0)) (\<lambda>image_base.
     bind_result (u64_at b (dynamic_offset p 0 1)) (\<lambda>image_size.
     bind_result (u32_at b (dynamic_offset p 0 2)) (\<lambda>process_id.
     bind_result (u32_at b (dynamic_offset p 4 2)) (\<lambda>checksum.
     bind_result (extract_u16string b (dynamic_offset p 32 3)) (\<lambda>file_name.
       Inr (Image_load_event process_id image_base image_size checksum file_name))))))"

definition pdb_info_view :: "u32 \<Rightarrow> u8 list \<Rightarrow> error + etl_event" where
  "pdb_info_view p b =
     bind_result (extract_pointer b 0 p) (\<lambda>image_base.
     bind_result (u32_at b (dynamic_offset p 0 1)) (\<lambda>process_id.
     bind_result (instantiate_guid b (dynamic_offset p 4 1)) (\<lambda>g.
     bind_result (u32_at b (dynamic_offset p 20 1)) (\<lambda>age.
     bind_result (extract_string b (dynamic_offset p 24 1)) (\<lambda>name.
       Inr (Pdb_info_event process_id image_base \<lparr>pdb_name = name, pdb_guid = g, pdb_age = age\<rparr>))))))"

subsection \<open>Samples and counters\<close>

definition sampled_profile_view :: "u32 \<Rightarrow> u8 list \<Rightarrow> error + etl_event" where
  "sampled_profile_view p b =
     bind_result (extract_pointer b 0 p) (\<lambda>ip.
     bind_result (u32_at b (dynamic_offset p 0 1)) (\<lambda>thread_id. Inr (Sampled_profile_event thread_id ip)))"

definition pmc_profile_view :: "u32 \<Rightarrow> u8 list \<Rightarrow> error + etl_event" where
  "pmc_profile_view p b =
     bind_result (extract_pointer b 0 p) (\<lambda>ip.
     bind_result (u32_at b (dynamic_offset p 0 1)) (\<lambda>thread_id.
     bind_result (u16_at b (dynamic_offset p 4 1)) (\<lambda>src. Inr (Pmc_profile_event thread_id src ip))))"

definition pmc_config_view :: "u8 list \<Rightarrow> error + etl_event" where
  "pmc_config_view b =
     bind_result (u32_at b 0) (\<lambda>counter_count.
     bind_result (u16strings (unat counter_count) b 4) (\<lambda>names. Inr (Pmc_config_event names)))"

definition profile_interval_view :: "u8 list \<Rightarrow> error + etl_event" where
  "profile_interval_view b =
     bind_result (u32_at b 0) (\<lambda>src.
     bind_result (extract_u16string b 12) (\<lambda>name. Inr (Profile_interval_event src name)))"

subsection \<open>Stacks\<close>

definition stack_addresses :: "u32 \<Rightarrow> u8 list \<Rightarrow> nat \<Rightarrow> error + u64 list" where
  "stack_addresses p b base =
     (if p = 0 \<or> length b < base then Inl Undefined
      else map_result (\<lambda>k. extract_pointer b (dynamic_offset p base k) p) [0..<(length b - base) div unat p])"

definition stack_view :: "u32 \<Rightarrow> u8 list \<Rightarrow> error + etl_event" where
  "stack_view p b =
     bind_result (u64_at b 0) (\<lambda>event_timestamp.
     bind_result (u32_at b 12) (\<lambda>thread_id.
     bind_result (stack_addresses p b 16) (\<lambda>ips. Inr (Stack_event thread_id event_timestamp ips))))"

definition stack_key_view :: "u32 \<Rightarrow> u8 list \<Rightarrow> error + etl_event" where
  "stack_key_view p b =
     bind_result (u64_at b 0) (\<lambda>event_timestamp.
     bind_result (u32_at b 12) (\<lambda>thread_id.
     bind_result (extract_pointer b 16 p) (\<lambda>key. Inr (Stack_key_event thread_id event_timestamp key))))"

definition stack_definition_view :: "u32 \<Rightarrow> u8 list \<Rightarrow> error + etl_event" where
  "stack_definition_view p b =
     bind_result (extract_pointer b 0 p) (\<lambda>key.
     bind_result (stack_addresses p b (unat p)) (\<lambda>ips. Inr (Stack_definition_event key ips)))"

subsection \<open>Targets\<close>

definition profiling_started_view :: "u8 list \<Rightarrow> error + etl_event" where
  "profiling_started_view b = bind_result (u32_at b 0) (\<lambda>pid. Inr (Profiling_started_event pid))"

definition profile_target_view :: "u8 list \<Rightarrow> error + etl_event" where
  "profile_target_view b = bind_result (u32_at b 0) (\<lambda>pid. Inr (Profile_target_event pid))"

section \<open>Dispatch\<close>

text \<open>The groups of events.\<close>

abbreviation (input) process_group :: u8 where "process_group \<equiv> 3"
abbreviation (input) thread_group :: u8 where "thread_group \<equiv> 5"
abbreviation (input) config_group :: u8 where "config_group \<equiv> 11"
abbreviation (input) perfinfo_group :: u8 where "perfinfo_group \<equiv> 15"
abbreviation (input) image_group :: u8 where "image_group \<equiv> 20"
abbreviation (input) stackwalk_group :: u8 where "stackwalk_group \<equiv> 24"

text \<open>The handlers that \<open>etl_file_process_context\<close> registers, by group, type and version.\<close>

definition group_handler ::
  "u8 \<Rightarrow> u8 \<Rightarrow> u16 \<Rightarrow> (u32 \<Rightarrow> u64 list option \<Rightarrow> u8 list \<Rightarrow> error + etl_event) option" where
  "group_handler g t v =
     (if g = config_group \<and> t = 10 \<and> v = 3 then Some (\<lambda>p _. cpu_view p)
      else if g = config_group \<and> t = 11 \<and> v = 2 then Some (\<lambda>_ _. physical_disk_view)
      else if g = config_group \<and> t = 12 \<and> v = 2 then Some (\<lambda>_ _. logical_disk_view)
      else if g = config_group \<and> t = 22 \<and> v = 5 then Some (\<lambda>_ _. pnp_view)
      else if g = process_group \<and> t \<in> {1, 2, 3, 4, 39} \<and> v = 4 then Some (\<lambda>p _. process_view p)
      else if g = thread_group \<and> t \<in> {1, 2, 3, 4} \<and> v = 3 then Some (\<lambda>p _. thread_view p)
      else if g = thread_group \<and> t = 36 \<and> v = 4 then Some (\<lambda>_. context_switch_view)
      else if (g = process_group \<and> t = 10 \<or> g = image_group \<and> t \<in> {2, 3, 4}) \<and> v = 3 then Some (\<lambda>p _. image_view p)
      else if g = perfinfo_group \<and> t = 46 \<and> v = 2 then Some (\<lambda>p _. sampled_profile_view p)
      else if g = perfinfo_group \<and> t = 47 \<and> v = 2 then Some (\<lambda>p _. pmc_profile_view p)
      else if g = perfinfo_group \<and> t \<in> {73, 74} \<and> v = 3 then Some (\<lambda>_ _. profile_interval_view)
      else if g = perfinfo_group \<and> t = 48 \<and> v = 2 then Some (\<lambda>_ _. pmc_config_view)
      else if g = stackwalk_group \<and> t = 32 \<and> v = 2 then Some (\<lambda>p _. stack_view p)
      else if g = stackwalk_group \<and> t \<in> {37, 38} \<and> v = 2 then Some (\<lambda>p _. stack_key_view p)
      else if g = stackwalk_group \<and> t \<in> {34, 35, 36} \<and> v = 2 then Some (\<lambda>p _. stack_definition_view p)
      else None)"

definition system_config_ex_guid :: guid where
  "system_config_ex_guid = \<lparr>guid_data_1 = 0x9b79ee91, guid_data_2 = 0xb5fd, guid_data_3 = 0x41c0,
     guid_data_4 = [0xa2, 0x43, 0x42, 0x48, 0xe2, 0x66, 0xe9, 0xd0]\<rparr>"

definition image_id_guid :: guid where
  "image_id_guid = \<lparr>guid_data_1 = 0xb3e675d7, guid_data_2 = 0x2554, guid_data_3 = 0x4f18,
     guid_data_4 = [0x83, 0x0b, 0x27, 0x62, 0x73, 0x25, 0x60, 0xde]\<rparr>"

definition vs_diagnostics_hub_guid :: guid where
  "vs_diagnostics_hub_guid = \<lparr>guid_data_1 = 0x9e5f9046, guid_data_2 = 0x43c6, guid_data_3 = 0x4f62,
     guid_data_4 = [0xba, 0x13, 0x7b, 0x19, 0x89, 0x62, 0x53, 0xff]\<rparr>"

definition snail_profiler_guid :: guid where
  "snail_profiler_guid = \<lparr>guid_data_1 = 0x460b83b6, guid_data_2 = 0xfc11, guid_data_3 = 0x481b,
     guid_data_4 = [0xb7, 0xaa, 0x40, 0x38, 0xca, 0x4c, 0x4c, 0x48]\<rparr>"

definition guid_handler :: "guid \<Rightarrow> u16 \<Rightarrow> u16 \<Rightarrow> (u32 \<Rightarrow> u8 list \<Rightarrow> error + etl_event) option" where
  "guid_handler g t v =
     (if g = system_config_ex_guid \<and> t = 32 \<and> v = 0 then Some (\<lambda>_. build_info_view)
      else if g = system_config_ex_guid \<and> t = 33 \<and> v = 0 then Some (\<lambda>_. system_paths_view)
      else if g = system_config_ex_guid \<and> t = 35 \<and> v = 0 then Some (\<lambda>_. volume_mapping_view)
      else if g = image_id_guid \<and> t \<in> {36, 37} \<and> v = 2 then Some pdb_info_view
      else if g = vs_diagnostics_hub_guid \<and> t = 1 \<and> v = 2 then Some (\<lambda>_. profiling_started_view)
      else if g = snail_profiler_guid \<and> t = 1 \<and> v = 0 then Some (\<lambda>_. profile_target_view)
      else None)"

text \<open>Keys: group, type and version; the flags of a \<open>perfinfo_trace_header_view\<close> are no part of its version.\<close>

definition group_key :: "trace_kind \<Rightarrow> u8 list \<Rightarrow> error + u8 \<times> u8 \<times> u16" where
  "group_key k header =
     bind_result (u8_at header 7) (\<lambda>g.
     bind_result (u8_at header 6) (\<lambda>t.
     bind_result (u16_at header 0) (\<lambda>v.
       Inr (g, t, if k = Perfinfo_trace then v AND NOT 0x8700 else v))))"

definition guid_key :: "trace_kind \<Rightarrow> u8 list \<Rightarrow> error + guid \<times> u16 \<times> u16" where
  "guid_key k header =
     (if k = Event_header_trace
      then bind_result (instantiate_guid header 24) (\<lambda>g.
        bind_result (u16_at header 40) (\<lambda>t.
        bind_result (u8_at header 42) (\<lambda>v. Inr (g, t, ucast v))))
      else bind_result (instantiate_guid header 24) (\<lambda>g.
        bind_result (u8_at header 4) (\<lambda>t.
        bind_result (u16_at header 6) (\<lambda>v. Inr (g, ucast t, v)))))"

definition perfinfo_counters :: "trace_kind \<Rightarrow> u8 list \<Rightarrow> error + u64 list option" where
  "perfinfo_counters k header =
     (if k \<noteq> Perfinfo_trace then Inr None
      else bind_result (u16_at header 0) (\<lambda>ext_header.
        map_sum id Some (map_result (\<lambda>i. u64_at header (16 + (if has_ext_pebs ext_header then 8 else 0) + i * 8))
          [0..<ext_pmc_count ext_header])))"

text \<open>What \<open>handle_impl\<close> gives to the handler of a trace, if it has one: the type and time of the common header,
  and the event.\<close>

definition trace_event :: "u32 \<Rightarrow> etl_trace \<Rightarrow> error + (etl_header \<times> etl_event) option" where
  "trace_event p tr =
     (let k = tr_kind tr; header = tr_header tr in
      if k \<in> {System_trace, Compact_trace, Perfinfo_trace}
      then bind_result (group_key k header) (\<lambda>(g, t, v).
        case group_handler g t v of
          None \<Rightarrow> Inr None
        | Some view \<Rightarrow>
            bind_result (perfinfo_counters k header) (\<lambda>counters.
            bind_result (trace_time k header) (\<lambda>time.
            bind_result (view p counters (tr_user_data tr)) (\<lambda>e.
              Inr (Some (\<lparr>eh_type = ucast t, eh_timestamp = time\<rparr>, e))))))
      else bind_result (guid_key k header) (\<lambda>(g, t, v).
        case guid_handler g t v of
          None \<Rightarrow> Inr None
        | Some view \<Rightarrow>
            bind_result (trace_time k header) (\<lambda>time.
            bind_result (view p (tr_user_data tr)) (\<lambda>e.
              Inr (Some (\<lparr>eh_type = t, eh_timestamp = time\<rparr>, e))))))"

end
