(* ===== verification/EtlCodec.thy ===== *)
theory EtlCodec
  imports EtlRecords
begin

text \<open>
  Writing the events of an Event Trace Log file: an encoder that follows the layouts of the records, and what the
  views read from what it writes. Fields that no handler reads are zero.
\<close>

section \<open>Values\<close>

definition le_word :: "'a::len word \<Rightarrow> u8 list" where
  "le_word v = le_bytes (LENGTH('a) div 8) (unat v)"

definition zeros :: "nat \<Rightarrow> u8 list" where "zeros n = replicate n 0"

definition le_pointer :: "u32 \<Rightarrow> u64 \<Rightarrow> u8 list" where
  "le_pointer p v = (if p = 4 then le_word (ucast v :: u32) else le_word v)"

definition put_string0 :: "string \<Rightarrow> u8 list" where
  "put_string0 s = map (\<lambda>ch. of_nat (of_char ch)) s @ [0]"

definition put_u16string :: "u16 list \<Rightarrow> u8 list" where
  "put_u16string ws = concat (map le_word ws) @ [0, 0]"

definition put_guid :: "guid \<Rightarrow> u8 list" where
  "put_guid g = le_word (guid_data_1 g) @ le_word (guid_data_2 g) @ le_word (guid_data_3 g) @ guid_data_4 g"

lemma length_le_word [simp]: "length (le_word (v :: 'a::len word)) = LENGTH('a) div 8"
  by (simp add: le_word_def)

lemma length_zeros [simp]: "length (zeros n) = n"
  by (simp add: zeros_def)

lemma length_put_u16string [simp]: "length (put_u16string ws) = 2 * length ws + 2"
  by (induction ws) (simp_all add: put_u16string_def)

lemma length_put_string0 [simp]: "length (put_string0 s) = Suc (length s)"
  by (simp add: put_string0_def)

lemma extract_skip: "length xs \<le> off \<Longrightarrow> extract_int order (xs @ ys) off = extract_int order ys (off - length xs)"
  by (auto simp: extract_int_def extract_nat_def Let_def)

lemma extract_here:
  assumes "8 * (LENGTH('a::len) div 8) = LENGTH('a)"
  shows "extract_int little_endian (le_word (v :: 'a word) @ ys) 0 = Inr v"
  using extract_encoded [of "[]" 0 "LENGTH('a) div 8" little_endian v ys] assms by (simp add: le_word_def encode_def)

lemma extract_last:
  assumes "8 * (LENGTH('a::len) div 8) = LENGTH('a)"
  shows "extract_int little_endian (le_word (v :: 'a word)) 0 = Inr v"
  using extract_here [OF assms, of v "[]"] by simp

named_theorems read_back

lemmas extract_words [read_back] =
  extract_here [where 'a = 8, simplified] extract_here [where 'a = 16, simplified]
  extract_here [where 'a = 32, simplified] extract_here [where 'a = 64, simplified]
  extract_last [where 'a = 8, simplified] extract_last [where 'a = 16, simplified]
  extract_last [where 'a = 32, simplified] extract_last [where 'a = 64, simplified]
  extract_skip

lemma le_value_word16: "of_nat (le_value (le_word (w :: u16))) = w"
proof -
  have "unat w < 256 ^ 2" using unsigned_less [of w, where 'a = nat] by simp
  then show ?thesis by (simp add: le_word_def le_value_bytes)
qed

lemma take_put_u16string:
  assumes "0 \<notin> set ws"
  shows "take_u16string (put_u16string ws @ ys) = Inr ws"
  using assms
proof (induction ws)
  case Nil
  then show ?case by (simp add: put_u16string_def)
next
  case (Cons w ws)
  obtain a b where ab: "le_word w = [a, b]" by (simp add: le_word_def numeral_2_eq_2)
  then have w: "of_nat (le_value [a, b]) = w" using le_value_word16 [of w] by simp
  have "\<not> (a = 0 \<and> b = 0)"
  proof
    assume "a = 0 \<and> b = 0"
    then have "w = 0" using w by simp
    with Cons.prems show False by simp
  qed
  with Cons w show ?case by (simp add: put_u16string_def ab)
qed

lemma extract_u16string_skip [read_back]:
  "length xs \<le> off \<Longrightarrow> extract_u16string (xs @ ys) off = extract_u16string ys (off - length xs)"
  by (simp add: extract_u16string_def)

lemma extract_u16string_here [read_back]:
  "0 \<notin> set ws \<Longrightarrow> extract_u16string (put_u16string ws @ ys) 0 = Inr ws"
  "0 \<notin> set ws \<Longrightarrow> extract_u16string (put_u16string ws) 0 = Inr ws"
  using take_put_u16string [of ws ys] take_put_u16string [of ws "[]"] by (simp_all add: extract_u16string_def)

lemma byte_of_char: "byte_char (of_nat (of_char ch)) = ch"
proof -
  have "of_char ch < (256 :: nat)" by (metis of_char_mod_256 mod_less_divisor zero_less_numeral)
  then have "unat (of_nat (of_char ch) :: u8) = of_char ch" by (simp add: unat_of_nat)
  then show ?thesis by (simp add: byte_char_def)
qed

lemma extract_string_skip [read_back]:
  "length xs \<le> off \<Longrightarrow> extract_string (xs @ ys) off = extract_string ys (off - length xs)"
  by (simp add: extract_string_def Let_def) linarith

lemma extract_string_here:
  assumes "char_of (0 :: nat) \<notin> set s"
  shows "extract_string (put_string0 s @ ys) 0 = Inr s"
proof -
  have nz: "of_nat (of_char ch) \<noteq> (0 :: u8)" if "ch \<in> set s" for ch
  proof
    assume "of_nat (of_char ch) = (0 :: u8)"
    then have "ch = byte_char 0" using byte_of_char [of ch] by simp
    with that assms show False by (simp add: byte_char_def)
  qed
  have "takeWhile (\<lambda>b. b \<noteq> 0) (put_string0 s @ ys) = map (\<lambda>ch. of_nat (of_char ch)) s"
    unfolding put_string0_def append_assoc by (subst takeWhile_append2) (use nz in auto)
  then show ?thesis by (simp add: extract_string_def byte_of_char comp_def)
qed

lemmas extract_strings [read_back] = extract_string_here extract_string_here [of _ "[]", simplified]

lemma length_le_pointer [simp]: "p = 4 \<or> p = 8 \<Longrightarrow> length (le_pointer p v) = unat p"
  by (auto simp: le_pointer_def)

lemma extract_pointer_skip [read_back]:
  "length xs \<le> off \<Longrightarrow> extract_pointer (xs @ ys) off p = extract_pointer ys (off - length xs) p"
  by (simp add: extract_pointer_def extract_skip)

definition fits_pointer :: "u32 \<Rightarrow> u64 \<Rightarrow> bool" where
  "fits_pointer p v \<longleftrightarrow> p = 8 \<or> p = 4 \<and> unat v < 2 ^ 32"

lemma extract_pointer_at:
  assumes "fits_pointer p v"
  shows "extract_pointer (le_pointer p v @ ys) 0 p = Inr v"
proof (cases "p = 4")
  case True
  with assms have v: "unat v < 2 ^ 32" by (simp add: fits_pointer_def)
  have "(ucast (ucast v :: u32) :: u64) = v"
    by (rule word_unat_eq_iff [THEN iffD2]) (use v in \<open>simp add: unsigned_ucast_eq unsigned_take_bit_eq take_bit_nat_eq_self\<close>)
  with True show ?thesis by (simp add: extract_pointer_def le_pointer_def read_back)
next
  case False
  then show ?thesis by (simp add: extract_pointer_def le_pointer_def read_back)
qed

lemmas extract_pointer_here [read_back] = extract_pointer_at extract_pointer_at [of _ _ "[]", simplified]

lemma instantiate_guid_at:
  assumes "length (guid_data_4 g) = 8" "length xs = off"
  shows "instantiate_guid (xs @ put_guid g @ ys) off = Inr g"
proof -
  have "subspan (off + 8) 8 (xs @ put_guid g @ ys) = Inr (guid_data_4 g)"
    using assms by (simp add: subspan_def put_guid_def)
  then show ?thesis using assms by (simp add: instantiate_guid_def put_guid_def read_back)
qed

section \<open>Records\<close>

text \<open>The bytes of a record. A process is written without a security identifier.\<close>

definition encode_event :: "u32 \<Rightarrow> etl_event \<Rightarrow> u8 list" where
  "encode_event p e =
     (case e of
        Cpu_event name arch \<Rightarrow> zeros 20 @ put_u16string name @ zeros (778 + 2 * unat p - 2 * length name) @ le_word arch
      | Physical_disk_event disk n \<Rightarrow> le_word disk @ zeros 548 @ le_word n
      | Logical_disk_event disk n letter \<Rightarrow>
          zeros 16 @ le_word disk @ zeros 8 @ put_u16string letter @ zeros (10 - 2 * length letter) @ le_word n
      | Pnp_event description name \<Rightarrow> zeros 32 @ put_u16string [] @ put_u16string description @ put_u16string name
      | Build_info_event name \<Rightarrow> zeros 8 @ put_u16string [] @ put_u16string name
      | System_paths_event directory \<Rightarrow> put_u16string [] @ put_u16string directory
      | Volume_mapping_event nt dos \<Rightarrow> put_u16string nt @ put_u16string dos
      | Process_event pid parent name command_line \<Rightarrow>
          zeros (unat p) @ le_word pid @ le_word parent @ zeros (12 + unat p) @ le_word (0 :: u32) @ put_string0 name @ put_u16string command_line
      | Thread_event tid pid name \<Rightarrow>
          le_word pid @ le_word tid @ zeros (8 + 7 * unat p) @ (case name of None \<Rightarrow> [] | Some ws \<Rightarrow> put_u16string ws)
      | Context_switch_event old_tid new_tid _ \<Rightarrow> le_word new_tid @ le_word old_tid
      | Image_load_event pid image_base image_size checksum name \<Rightarrow>
          le_word image_base @ le_word image_size @ le_word pid @ le_word checksum @ zeros 32 @ put_u16string name
      | Pdb_info_event pid image_base info \<Rightarrow>
          le_pointer p image_base @ le_word pid @ put_guid (pdb_guid info) @ le_word (pdb_age info) @ put_string0 (pdb_name info)
      | Sampled_profile_event tid ip \<Rightarrow> le_pointer p ip @ le_word tid @ zeros 4
      | Pmc_profile_event tid src ip \<Rightarrow> le_pointer p ip @ le_word tid @ le_word src @ zeros 2
      | Profile_interval_event src name \<Rightarrow> le_word src @ zeros 8 @ put_u16string name
      | Pmc_config_event names \<Rightarrow> le_word (of_nat (length names) :: u32) @ concat (map put_u16string names)
      | Stack_event tid time ips \<Rightarrow> le_word time @ zeros 4 @ le_word tid @ concat (map (le_pointer p) ips)
      | Stack_key_event tid time key \<Rightarrow> le_word time @ zeros 4 @ le_word tid @ le_pointer p key
      | Stack_definition_event key ips \<Rightarrow> le_pointer p key @ concat (map (le_pointer p) ips)
      | Profiling_started_event pid \<Rightarrow> le_word pid
      | Profile_target_event pid \<Rightarrow> le_word pid)"

text \<open>What the records can hold. The base and the size of an image are read back for pointers of 8 bytes only.\<close>

definition plain_u16 :: "u16 list \<Rightarrow> bool" where "plain_u16 ws \<longleftrightarrow> 0 \<notin> set ws"
definition plain_string :: "string \<Rightarrow> bool" where "plain_string s \<longleftrightarrow> char_of (0 :: nat) \<notin> set s"

definition event_fits :: "u32 \<Rightarrow> etl_event \<Rightarrow> bool" where
  "event_fits p e \<longleftrightarrow> (p = 4 \<or> p = 8) \<and>
     (case e of
        Cpu_event name arch \<Rightarrow> plain_u16 name \<and> length name \<le> 389
      | Logical_disk_event disk n letter \<Rightarrow> plain_u16 letter \<and> length letter \<le> 5
      | Pnp_event description name \<Rightarrow> plain_u16 description \<and> plain_u16 name
      | Build_info_event name \<Rightarrow> plain_u16 name
      | System_paths_event directory \<Rightarrow> plain_u16 directory
      | Volume_mapping_event nt dos \<Rightarrow> plain_u16 nt \<and> plain_u16 dos
      | Process_event pid parent name command_line \<Rightarrow> plain_string name \<and> plain_u16 command_line
      | Thread_event tid pid name \<Rightarrow> (case name of None \<Rightarrow> True | Some ws \<Rightarrow> plain_u16 ws)
      | Image_load_event pid image_base image_size checksum name \<Rightarrow> p = 8 \<and> plain_u16 name
      | Pdb_info_event pid image_base info \<Rightarrow>
          fits_pointer p image_base \<and> plain_string (pdb_name info) \<and> length (guid_data_4 (pdb_guid info)) = 8
      | Sampled_profile_event tid ip \<Rightarrow> fits_pointer p ip
      | Pmc_profile_event tid src ip \<Rightarrow> fits_pointer p ip
      | Profile_interval_event src name \<Rightarrow> plain_u16 name
      | Pmc_config_event names \<Rightarrow> length names < 2 ^ 32 \<and> list_all plain_u16 names
      | Stack_event tid time ips \<Rightarrow> list_all (fits_pointer p) ips
      | Stack_key_event tid time key \<Rightarrow> fits_pointer p key
      | Stack_definition_event key ips \<Rightarrow> fits_pointer p key \<and> list_all (fits_pointer p) ips
      | _ \<Rightarrow> True)"

lemmas encode_simps = encode_event_def event_fits_def plain_u16_def plain_string_def dynamic_offset_def read_back

subsection \<open>The system\<close>

lemma cpu_read_back: "event_fits p (Cpu_event name arch) \<Longrightarrow> cpu_view p (encode_event p (Cpu_event name arch)) = Inr (Cpu_event name arch)"
  by (auto simp: cpu_view_def encode_simps)

lemma disks_read_back:
  "physical_disk_view (encode_event p (Physical_disk_event disk n)) = Inr (Physical_disk_event disk n)"
  "event_fits p (Logical_disk_event disk n letter) \<Longrightarrow>
    logical_disk_view (encode_event p (Logical_disk_event disk n letter)) = Inr (Logical_disk_event disk n letter)"
  by (auto simp: physical_disk_view_def logical_disk_view_def encode_simps)

lemma u16strings_read_back:
  "list_all plain_u16 ss \<Longrightarrow> length xs = off \<Longrightarrow> u16strings (length ss) (xs @ concat (map put_u16string ss)) off = Inr ss"
proof (induction ss arbitrary: xs off)
  case Nil
  then show ?case by simp
next
  case (Cons s ss)
  have "u16strings (length ss) ((xs @ put_u16string s) @ concat (map put_u16string ss)) (off + 2 * length s + 2) = Inr ss"
    by (rule Cons.IH) (use Cons.prems in simp_all)
  then show ?case using Cons.prems by (simp add: read_back plain_u16_def mult.commute)
qed

lemma pnp_read_back:
  assumes "event_fits p (Pnp_event description name)"
  shows "pnp_view (encode_event p (Pnp_event description name)) = Inr (Pnp_event description name)"
proof -
  have "u16strings 3 (encode_event p (Pnp_event description name)) 32 = Inr [[], description, name]"
    using u16strings_read_back [of "[[], description, name]" "zeros 32" 32] assms
    by (simp add: encode_event_def event_fits_def plain_u16_def numeral_3_eq_3 del: u16strings.simps)
  then show ?thesis by (simp add: pnp_view_def del: u16strings.simps)
qed

lemma two_strings_read_back:
  assumes "plain_u16 a" "plain_u16 b" "length xs = off"
  shows "u16strings 2 (xs @ put_u16string a @ put_u16string b) off = Inr [a, b]"
  using u16strings_read_back [of "[a, b]" xs off] assms by (simp add: numeral_2_eq_2 del: u16strings.simps)

lemma strings_read_back:
  "event_fits p (Build_info_event name) \<Longrightarrow> build_info_view (encode_event p (Build_info_event name)) = Inr (Build_info_event name)"
  "event_fits p (System_paths_event name) \<Longrightarrow> system_paths_view (encode_event p (System_paths_event name)) = Inr (System_paths_event name)"
  "event_fits p (Volume_mapping_event nt dos) \<Longrightarrow> volume_mapping_view (encode_event p (Volume_mapping_event nt dos)) = Inr (Volume_mapping_event nt dos)"
  using two_strings_read_back [of "[]" name "zeros 8" 8] two_strings_read_back [of "[]" name "[]" 0]
    two_strings_read_back [of nt dos "[]" 0]
  by (simp_all add: build_info_view_def system_paths_view_def volume_mapping_view_def event_fits_def encode_event_def
      plain_u16_def [of "[]"] del: u16strings.simps)

subsection \<open>Processes, threads and images\<close>

lemma process_read_back:
  assumes "event_fits p (Process_event pid parent name command_line)"
  shows "process_view p (encode_event p (Process_event pid parent name command_line)) = Inr (Process_event pid parent name command_line)"
  using assms by (auto simp: process_view_def name_offset_def encode_simps)

lemma thread_read_back:
  "event_fits p (Thread_event tid pid name) \<Longrightarrow> thread_view p (encode_event p (Thread_event tid pid name)) = Inr (Thread_event tid pid name)"
  by (cases name) (auto simp: thread_view_def encode_simps)

lemma switch_read_back:
  "context_switch_view counters (encode_event p (Context_switch_event a b counters)) = Inr (Context_switch_event a b counters)"
  by (simp add: context_switch_view_def encode_simps)

lemma image_read_back:
  "event_fits p (Image_load_event pid base extent checksum name) \<Longrightarrow>
    image_view p (encode_event p (Image_load_event pid base extent checksum name)) = Inr (Image_load_event pid base extent checksum name)"
  by (simp add: image_view_def encode_simps)

lemma pdb_info_read_back:
  assumes "event_fits p (Pdb_info_event pid base info)"
  shows "pdb_info_view p (encode_event p (Pdb_info_event pid base info)) = Inr (Pdb_info_event pid base info)"
proof -
  have "instantiate_guid (encode_event p (Pdb_info_event pid base info)) (4 + unat p) = Inr (pdb_guid info)"
    using instantiate_guid_at [of "pdb_guid info" "le_pointer p base @ le_word pid" "4 + unat p"
        "le_word (pdb_age info) @ put_string0 (pdb_name info)"] assms
    by (simp add: encode_event_def event_fits_def)
  then show ?thesis using assms by (auto simp: pdb_info_view_def encode_simps put_guid_def)
qed

subsection \<open>Samples and stacks\<close>

lemma samples_read_back:
  "event_fits p (Sampled_profile_event tid ip) \<Longrightarrow>
    sampled_profile_view p (encode_event p (Sampled_profile_event tid ip)) = Inr (Sampled_profile_event tid ip)"
  "event_fits p (Pmc_profile_event tid src ip) \<Longrightarrow>
    pmc_profile_view p (encode_event p (Pmc_profile_event tid src ip)) = Inr (Pmc_profile_event tid src ip)"
  by (auto simp: sampled_profile_view_def pmc_profile_view_def encode_simps)

lemma sources_read_back:
  "event_fits p (Profile_interval_event i name) \<Longrightarrow>
    profile_interval_view (encode_event p (Profile_interval_event i name)) = Inr (Profile_interval_event i name)"
  by (auto simp: profile_interval_view_def encode_simps)

lemma config_read_back:
  assumes "event_fits p (Pmc_config_event names)"
  shows "pmc_config_view (encode_event p (Pmc_config_event names)) = Inr (Pmc_config_event names)"
proof -
  have "unat (of_nat (length names) :: u32) = length names"
    using assms by (simp add: event_fits_def unat_of_nat)
  then show ?thesis
    using u16strings_read_back [of names "le_word (of_nat (length names) :: u32)" 4] assms
    by (simp add: pmc_config_view_def encode_event_def event_fits_def read_back)
qed

lemma addresses_read_back:
  assumes p: "p = 4 \<or> p = 8" and fits: "list_all (fits_pointer p) ips" and base: "length xs = base"
  shows "stack_addresses p (xs @ concat (map (le_pointer p) ips)) base = Inr ips"
proof -
  have len: "length (concat (map (le_pointer p) ys)) = length ys * unat p" for ys using p by (induction ys) auto
  have at: "extract_pointer (xs @ concat (map (le_pointer p) ips)) (base + k * unat p) p = Inr (ips ! k)" if "k < length ips" for k
  proof -
    have "ips = take k ips @ ips ! k # drop (Suc k) ips" using that by (rule id_take_nth_drop)
    then have "concat (map (le_pointer p) ips) =
        concat (map (le_pointer p) (take k ips)) @ le_pointer p (ips ! k) @ concat (map (le_pointer p) (drop (Suc k) ips))"
      by (metis concat.simps(2) concat_append list.simps(9) map_append)
    moreover have "fits_pointer p (ips ! k)" using fits that by (simp add: list_all_length)
    ultimately show ?thesis using base that by (simp add: read_back len min_def)
  qed
  have "(length (concat (map (le_pointer p) ips))) div unat p = length ips" using p unfolding len by auto
  moreover have "map_result (\<lambda>k. extract_pointer (xs @ concat (map (le_pointer p) ips)) (base + k * unat p) p) [0..<length ips] =
      Inr (map (\<lambda>k. ips ! k) [0..<length ips])"
    by (rule map_result_all) (use at in simp)
  ultimately show ?thesis using p base by (auto simp: stack_addresses_def dynamic_offset_def map_nth)
qed

lemma stacks_read_back:
  assumes "event_fits p (Stack_event tid time ips)"
  shows "stack_view p (encode_event p (Stack_event tid time ips)) = Inr (Stack_event tid time ips)"
  using addresses_read_back [of p ips "le_word time @ zeros 4 @ le_word tid" 16] assms
  by (simp add: stack_view_def encode_event_def event_fits_def read_back)

lemma stack_keys_read_back:
  "event_fits p (Stack_key_event tid time key) \<Longrightarrow>
    stack_key_view p (encode_event p (Stack_key_event tid time key)) = Inr (Stack_key_event tid time key)"
  by (auto simp: stack_key_view_def encode_simps)

lemma stack_definitions_read_back:
  assumes "event_fits p (Stack_definition_event key ips)"
  shows "stack_definition_view p (encode_event p (Stack_definition_event key ips)) = Inr (Stack_definition_event key ips)"
  using addresses_read_back [of p ips "le_pointer p key" "unat p"] assms
  by (simp add: stack_definition_view_def encode_event_def event_fits_def read_back)

lemma targets_read_back:
  "profiling_started_view (encode_event p (Profiling_started_event pid)) = Inr (Profiling_started_event pid)"
  "profile_target_view (encode_event p (Profile_target_event pid)) = Inr (Profile_target_event pid)"
  by (simp_all add: profiling_started_view_def profile_target_view_def encode_simps)

section \<open>Traces\<close>

text \<open>The group, type and version of an event, or its provider, and the types it is registered for.\<close>

definition event_key :: "etl_header \<Rightarrow> etl_event \<Rightarrow> (u8 \<times> u8 \<times> u16) + (guid \<times> u16 \<times> u16)" where
  "event_key h e =
     (let t = ucast (eh_type h) in
      case e of
        Cpu_event _ _ \<Rightarrow> Inl (config_group, t, 3)
      | Physical_disk_event _ _ \<Rightarrow> Inl (config_group, t, 2)
      | Logical_disk_event _ _ _ \<Rightarrow> Inl (config_group, t, 2)
      | Pnp_event _ _ \<Rightarrow> Inl (config_group, t, 5)
      | Build_info_event _ \<Rightarrow> Inr (system_config_ex_guid, eh_type h, 0)
      | System_paths_event _ \<Rightarrow> Inr (system_config_ex_guid, eh_type h, 0)
      | Volume_mapping_event _ _ \<Rightarrow> Inr (system_config_ex_guid, eh_type h, 0)
      | Process_event _ _ _ _ \<Rightarrow> Inl (process_group, t, 4)
      | Thread_event _ _ _ \<Rightarrow> Inl (thread_group, t, 3)
      | Context_switch_event _ _ _ \<Rightarrow> Inl (thread_group, t, 4)
      | Image_load_event _ _ _ _ _ \<Rightarrow> Inl (if t = 10 then process_group else image_group, t, 3)
      | Pdb_info_event _ _ _ \<Rightarrow> Inr (image_id_guid, eh_type h, 2)
      | Sampled_profile_event _ _ \<Rightarrow> Inl (perfinfo_group, t, 2)
      | Pmc_profile_event _ _ _ \<Rightarrow> Inl (perfinfo_group, t, 2)
      | Profile_interval_event _ _ \<Rightarrow> Inl (perfinfo_group, t, 3)
      | Pmc_config_event _ \<Rightarrow> Inl (perfinfo_group, t, 2)
      | Stack_event _ _ _ \<Rightarrow> Inl (stackwalk_group, t, 2)
      | Stack_key_event _ _ _ \<Rightarrow> Inl (stackwalk_group, t, 2)
      | Stack_definition_event _ _ \<Rightarrow> Inl (stackwalk_group, t, 2)
      | Profiling_started_event _ \<Rightarrow> Inr (vs_diagnostics_hub_guid, eh_type h, 2)
      | Profile_target_event _ \<Rightarrow> Inr (snail_profiler_guid, eh_type h, 0))"

definition event_types :: "etl_event \<Rightarrow> u16 list" where
  "event_types e =
     (case e of
        Cpu_event _ _ \<Rightarrow> [10] | Physical_disk_event _ _ \<Rightarrow> [11] | Logical_disk_event _ _ _ \<Rightarrow> [12] | Pnp_event _ _ \<Rightarrow> [22]
      | Build_info_event _ \<Rightarrow> [32] | System_paths_event _ \<Rightarrow> [33] | Volume_mapping_event _ _ \<Rightarrow> [35]
      | Process_event _ _ _ _ \<Rightarrow> [1, 2, 3, 4, 39] | Thread_event _ _ _ \<Rightarrow> [1, 2, 3, 4] | Context_switch_event _ _ _ \<Rightarrow> [36]
      | Image_load_event _ _ _ _ _ \<Rightarrow> [10, 2, 3, 4] | Pdb_info_event _ _ _ \<Rightarrow> [36, 37]
      | Sampled_profile_event _ _ \<Rightarrow> [46] | Pmc_profile_event _ _ _ \<Rightarrow> [47] | Profile_interval_event _ _ \<Rightarrow> [73, 74]
      | Pmc_config_event _ \<Rightarrow> [48] | Stack_event _ _ _ \<Rightarrow> [32] | Stack_key_event _ _ _ \<Rightarrow> [37, 38]
      | Stack_definition_event _ _ \<Rightarrow> [34, 35, 36] | Profiling_started_event _ \<Rightarrow> [1] | Profile_target_event _ \<Rightarrow> [1])"

definition counters_match :: "etl_event \<Rightarrow> u64 list option \<Rightarrow> bool" where
  "counters_match e cs = (case e of Context_switch_event _ _ cs' \<Rightarrow> cs = cs' | _ \<Rightarrow> True)"

text \<open>Every event goes to the handler whose view reads it back.\<close>

lemma handlers_read_back:
  assumes "event_fits p e" "eh_type h \<in> set (event_types e)"
  shows "case event_key h e of
      Inl (g, t, v) \<Rightarrow> ucast t = eh_type h \<and> v \<in> {2, 3, 4, 5} \<and>
        (\<exists>view. group_handler g t v = Some view \<and> (\<forall>cs. counters_match e cs \<longrightarrow> view p cs (encode_event p e) = Inr e))
    | Inr (g, t, v) \<Rightarrow> t = eh_type h \<and> v \<in> {0, 2} \<and> length (guid_data_4 g) = 8 \<and> t < 256 \<and>
        (\<exists>view. guid_handler g t v = Some view \<and> view p (encode_event p e) = Inr e)"
proof (cases e)
  case (Context_switch_event a b cs)
  with assms switch_read_back [of cs p a b] show ?thesis
    by (auto simp: event_key_def event_types_def group_handler_def counters_match_def Let_def)
next
  case (Cpu_event name arch)
  with assms cpu_read_back [of p name arch] show ?thesis
    by (auto simp: event_key_def event_types_def group_handler_def Let_def)
next
  case (Physical_disk_event d n)
  with assms disks_read_back(1) [of p d n] show ?thesis
    by (auto simp: event_key_def event_types_def group_handler_def Let_def)
next
  case (Logical_disk_event d n letter)
  with assms disks_read_back(2) [of p d n letter] show ?thesis
    by (auto simp: event_key_def event_types_def group_handler_def Let_def)
next
  case (Pnp_event a b)
  with assms pnp_read_back [of p a b] show ?thesis
    by (auto simp: event_key_def event_types_def group_handler_def Let_def)
next
  case (Build_info_event a)
  with assms strings_read_back(1) [of p a] show ?thesis
    by (auto simp: event_key_def event_types_def guid_handler_def system_config_ex_guid_def Let_def)
next
  case (System_paths_event a)
  with assms strings_read_back(2) [of p a] show ?thesis
    by (auto simp: event_key_def event_types_def guid_handler_def system_config_ex_guid_def Let_def)
next
  case (Volume_mapping_event a b)
  with assms strings_read_back(3) [of p a b] show ?thesis
    by (auto simp: event_key_def event_types_def guid_handler_def system_config_ex_guid_def Let_def)
next
  case (Process_event pid parent name line)
  with assms process_read_back [of p pid parent name line] show ?thesis
    by (auto simp: event_key_def event_types_def group_handler_def Let_def)
next
  case (Thread_event tid pid name)
  with assms thread_read_back [of p tid pid name] show ?thesis
    by (auto simp: event_key_def event_types_def group_handler_def Let_def)
next
  case (Image_load_event pid base extent checksum name)
  with assms image_read_back [of p pid base extent checksum name] show ?thesis
    by (auto simp: event_key_def event_types_def group_handler_def Let_def)
next
  case (Pdb_info_event pid base info)
  with assms pdb_info_read_back [of p pid base info] show ?thesis
    by (auto simp: event_key_def event_types_def guid_handler_def image_id_guid_def system_config_ex_guid_def Let_def)
next
  case (Sampled_profile_event tid ip)
  with assms samples_read_back(1) [of p tid ip] show ?thesis
    by (auto simp: event_key_def event_types_def group_handler_def Let_def)
next
  case (Pmc_profile_event tid src ip)
  with assms samples_read_back(2) [of p tid src ip] show ?thesis
    by (auto simp: event_key_def event_types_def group_handler_def Let_def)
next
  case (Profile_interval_event src name)
  with assms sources_read_back [of p src name] show ?thesis
    by (auto simp: event_key_def event_types_def group_handler_def Let_def)
next
  case (Pmc_config_event names)
  with assms config_read_back [of p names] show ?thesis
    by (auto simp: event_key_def event_types_def group_handler_def Let_def)
next
  case (Stack_event tid time ips)
  with assms stacks_read_back [of p tid time ips] show ?thesis
    by (auto simp: event_key_def event_types_def group_handler_def Let_def)
next
  case (Stack_key_event tid time key)
  with assms stack_keys_read_back [of p tid time key] show ?thesis
    by (auto simp: event_key_def event_types_def group_handler_def Let_def)
next
  case (Stack_definition_event key ips)
  with assms stack_definitions_read_back [of p key ips] show ?thesis
    by (auto simp: event_key_def event_types_def group_handler_def Let_def)
next
  case (Profiling_started_event pid)
  with assms targets_read_back(1) [of p pid] show ?thesis
    by (auto simp: event_key_def event_types_def guid_handler_def vs_diagnostics_hub_guid_def image_id_guid_def
        system_config_ex_guid_def Let_def)
next
  case (Profile_target_event pid)
  with assms targets_read_back(2) [of p pid] show ?thesis
    by (auto simp: event_key_def event_types_def guid_handler_def snail_profiler_guid_def vs_diagnostics_hub_guid_def
        image_id_guid_def system_config_ex_guid_def Let_def)
qed

subsection \<open>Headers\<close>

text \<open>The number of counters is in the version of a \<open>perfinfo_trace_header_view\<close>.\<close>

definition event_counters :: "trace_kind \<Rightarrow> etl_event \<Rightarrow> u64 list" where
  "event_counters k e = (if k \<noteq> Perfinfo_trace then [] else case e of Context_switch_event _ _ (Some cs) \<Rightarrow> cs | _ \<Rightarrow> [])"

definition header_type :: "trace_kind \<Rightarrow> u8" where
  "header_type k =
     (case k of System_trace \<Rightarrow> 2 | Compact_trace \<Rightarrow> 4 | Perfinfo_trace \<Rightarrow> 17 | Full_header_trace \<Rightarrow> 20
      | Instance_trace \<Rightarrow> 21 | Event_header_trace \<Rightarrow> 19)"

definition encode_header :: "trace_kind \<Rightarrow> etl_header \<Rightarrow> etl_event \<Rightarrow> u16 \<Rightarrow> u8 list" where
  "encode_header k h e n =
     (case event_key h e of
        Inl (g, t, v) \<Rightarrow>
          le_word (v + 256 * of_nat (length (event_counters k e))) @ le_word (header_type k) @ le_word (0xC0 :: u8) @
          le_word n @ le_word t @ le_word g @
          (if k = Perfinfo_trace then le_word (eh_timestamp h) @ concat (map le_word (event_counters k e))
           else zeros 8 @ le_word (eh_timestamp h) @ zeros (if k = System_trace then 8 else 0))
      | Inr (g, t, v) \<Rightarrow>
          le_word n @ le_word (header_type k) @ le_word (0xC0 :: u8) @
          (if k = Event_header_trace
           then zeros 12 @ le_word (eh_timestamp h) @ put_guid g @ le_word t @ le_word (ucast v :: u8) @ zeros 37
           else le_word (ucast t :: u8) @ zeros 1 @ le_word v @ zeros 8 @ le_word (eh_timestamp h) @ put_guid g @
             zeros (if k = Full_header_trace then 8 else 32)))"

definition encode_trace :: "u32 \<Rightarrow> trace_kind \<Rightarrow> etl_header \<Rightarrow> etl_event \<Rightarrow> u8 list" where
  "encode_trace p k h e =
     encode_header k h e (of_nat (trace_static_size k + 8 * length (event_counters k e) + length (encode_event p e))) @
     encode_event p e"

text \<open>Which headers an event can have: one of the two families, and the counters only fit in one kind.\<close>

definition trace_fits :: "u32 \<Rightarrow> trace_kind \<Rightarrow> etl_header \<Rightarrow> etl_event \<Rightarrow> bool" where
  "trace_fits p k h e \<longleftrightarrow> event_fits p e \<and> eh_type h \<in> set (event_types e) \<and>
     trace_static_size k + 8 * length (event_counters k e) + length (encode_event p e) < 2 ^ 16 \<and>
     (k \<in> {System_trace, Compact_trace, Perfinfo_trace}) = isl (event_key h e) \<and>
     (case e of Context_switch_event _ _ cs \<Rightarrow> (cs \<noteq> None) = (k = Perfinfo_trace) \<and> length (event_counters k e) \<le> 7
      | _ \<Rightarrow> True)"

lemma counters_few: "trace_fits p k h e \<Longrightarrow> length (event_counters k e) \<le> 7"
  by (cases e) (auto simp: trace_fits_def event_counters_def)

lemma version_bits:
  assumes "v \<in> {2, 3, 4, 5 :: u16}" "n \<le> 7"
  shows "(v + 256 * of_nat n) AND NOT 0x8700 = v" "ext_pmc_count (v + 256 * of_nat n) = n" "\<not> has_ext_pebs (v + 256 * of_nat n)"
proof -
  have "n \<in> {0, 1, 2, 3, 4, 5, 6, 7}" using assms(2) by auto
  with assms(1) show "(v + 256 * of_nat n) AND NOT 0x8700 = v" "ext_pmc_count (v + 256 * of_nat n) = n"
      "\<not> has_ext_pebs (v + 256 * of_nat n)"
    by (auto simp: ext_pmc_count_def has_ext_pebs_def)
qed

lemma length_put_guid: "length (guid_data_4 g) = 8 \<Longrightarrow> length (put_guid g) = 16"
  by (simp add: put_guid_def)

lemma length_le_words: "length (concat (map (le_word :: u64 \<Rightarrow> u8 list) cs)) = 8 * length cs"
  by (induction cs) simp_all

lemma length_encode_header:
  assumes "trace_fits p k h e"
  shows "length (encode_header k h e n) = trace_static_size k + 8 * length (event_counters k e)"
proof -
  have fits: "event_fits p e" "eh_type h \<in> set (event_types e)"
    "(k \<in> {System_trace, Compact_trace, Perfinfo_trace}) = isl (event_key h e)"
    using assms by (simp_all add: trace_fits_def)
  note key = handlers_read_back [OF fits(1,2)]
  show ?thesis
    using fits(3) key by (cases "event_key h e"; cases k)
      (auto simp: encode_header_def trace_static_size_def length_put_guid length_le_words event_counters_def)
qed

lemma next_trace_kind_encoded:
  assumes "trace_fits p k h e"
  shows "next_trace_kind (encode_header k h e n @ ys) = Inr k"
proof -
  have "(k \<in> {System_trace, Compact_trace, Perfinfo_trace}) = isl (event_key h e)" using assms by (simp add: trace_fits_def)
  moreover have "trace_kind_of (header_type k) = Inr k" by (cases k) (simp_all add: trace_kind_of_def header_type_def)
  ultimately show ?thesis
    by (cases "event_key h e") (auto simp: next_trace_kind_def encode_header_def read_back)
qed

lemma header_fields:
  assumes "trace_fits p k h e"
  shows "trace_size k (encode_header k h e n) = Inr (unat n)" (is ?size)
    and "trace_time k (encode_header k h e n) = Inr (eh_timestamp h)" (is ?time)
    and "case event_key h e of Inl key \<Rightarrow> group_key k (encode_header k h e n) = Inr key
      | Inr key \<Rightarrow> guid_key k (encode_header k h e n) = Inr key" (is ?key)
proof -
  have fits: "event_fits p e" "eh_type h \<in> set (event_types e)"
    "(k \<in> {System_trace, Compact_trace, Perfinfo_trace}) = isl (event_key h e)"
    using assms by (simp_all add: trace_fits_def)
  note key = handlers_read_back [OF fits(1,2)]
  show ?size using fits(3)
    by (cases "event_key h e") (auto simp: trace_size_def encode_header_def read_back)
  show ?time using fits(3) key
    by (cases "event_key h e") (auto simp: trace_time_def encode_header_def read_back)
  show ?key
  proof (cases "event_key h e")
    case (Inl a)
    obtain g t v where a: "a = (g, t, v)" by (metis prod_cases3)
    then have v: "v \<in> {2, 3, 4, 5}" using key Inl by simp
    have "k \<noteq> Perfinfo_trace \<Longrightarrow> event_counters k e = []" by (simp add: event_counters_def)
    then show ?thesis using Inl a fits(3) version_bits [OF v counters_few [OF assms]]
      by (auto simp: group_key_def encode_header_def read_back)
  next
    case (Inr a)
    obtain g t v where a: "a = (g, t, v)" by (metis prod_cases3)
    then have g: "length (guid_data_4 g) = 8" "v \<in> {0, 2}" "t = eh_type h" "t < 256" using key Inr by auto
    have k: "k \<in> {Full_header_trace, Instance_trace, Event_header_trace}" using fits(3) Inr by (cases k) auto
    have guid: "instantiate_guid (encode_header k h e n) 24 = Inr g"
    proof (cases "k = Event_header_trace")
      case True
      with instantiate_guid_at [OF g(1), of "le_word n @ le_word (header_type k) @ le_word (0xC0 :: u8) @ zeros 12 @ le_word (eh_timestamp h)" 24
          "le_word t @ le_word (ucast v :: u8) @ zeros 37"]
      show ?thesis using Inr a by (simp add: encode_header_def)
    next
      case False
      with instantiate_guid_at [OF g(1), of "le_word n @ le_word (header_type k) @ le_word (0xC0 :: u8) @ le_word (ucast t :: u8) @
          zeros 1 @ le_word v @ zeros 8 @ le_word (eh_timestamp h)" 24 "zeros (if k = Full_header_trace then 8 else 32)"]
      show ?thesis using Inr a by (simp add: encode_header_def)
    qed
    have byte: "ucast (ucast t :: u8) = t"
    proof -
      have "unat t < 256" using g(4) by (simp add: word_less_nat_alt)
      then show ?thesis
        by (intro word_unat_eq_iff [THEN iffD2]) (simp add: unsigned_ucast_eq unsigned_take_bit_eq take_bit_nat_eq_self)
    qed
    have v: "ucast (ucast v :: u8) = v" using g(2) by auto
    show ?thesis
    proof (cases "k = Event_header_trace")
      case True
      then have "u16_at (encode_header k h e n) 40 = Inr t" "u8_at (encode_header k h e n) 42 = Inr (ucast v)"
        using Inr a g(1) by (simp_all add: encode_header_def read_back length_put_guid)
      with True guid Inr a v show ?thesis by (simp add: guid_key_def)
    next
      case False
      then have "u8_at (encode_header k h e n) 4 = Inr (ucast t)" "u16_at (encode_header k h e n) 6 = Inr v"
        using Inr a by (simp_all add: encode_header_def read_back)
      with False guid Inr a byte show ?thesis by (simp add: guid_key_def)
    qed
  qed
qed

lemma counters_read_back:
  assumes "trace_fits p k h e" "isl (event_key h e)"
  shows "\<exists>cs. perfinfo_counters k (encode_header k h e n) = Inr cs \<and> counters_match e cs"
    and "k = Perfinfo_trace \<Longrightarrow> peak_extended_size (encode_header k h e n @ ys) = Inr (8 * length (event_counters k e))"
proof -
  have fits: "event_fits p e" "eh_type h \<in> set (event_types e)" using assms(1) by (simp_all add: trace_fits_def)
  obtain g t v where key: "event_key h e = Inl (g, t, v)" using assms(2) by (metis isl_def prod_cases3)
  have v: "v \<in> {2, 3, 4, 5}" using handlers_read_back [OF fits] key by simp
  let ?cs = "event_counters k e"
  note bits = version_bits [OF v counters_few [OF assms(1)]]
  have ext: "u16_at (encode_header k h e n @ zs) 0 = Inr (v + 256 * of_nat (length ?cs))" for zs
    using key by (simp add: encode_header_def read_back)
  show "k = Perfinfo_trace \<Longrightarrow> peak_extended_size (encode_header k h e n @ ys) = Inr (8 * length ?cs)"
    using bits(2,3) ext by (simp add: peak_extended_size_def)
  show "\<exists>cs. perfinfo_counters k (encode_header k h e n) = Inr cs \<and> counters_match e cs"
  proof (cases "k = Perfinfo_trace")
    case True
    have at: "u64_at (encode_header k h e n) (16 + i * 8) = Inr (?cs ! i)" if "i < length ?cs" for i
    proof -
      have "?cs = take i ?cs @ ?cs ! i # drop (Suc i) ?cs" using that by (rule id_take_nth_drop)
      then have "concat (map le_word ?cs) = concat (map le_word (take i ?cs)) @ le_word (?cs ! i) @ concat (map le_word (drop (Suc i) ?cs))"
        by (metis concat.simps(2) concat_append list.simps(9) map_append)
      then show ?thesis using key True that by (simp add: encode_header_def read_back length_le_words)
    qed
    have "map_result (\<lambda>i. u64_at (encode_header k h e n) (16 + i * 8)) [0..<length ?cs] = Inr (map (\<lambda>i. ?cs ! i) [0..<length ?cs])"
      by (rule map_result_all) (use at in simp)
    then have "perfinfo_counters k (encode_header k h e n) = Inr (Some ?cs)"
      using True bits(2,3) ext [of "[]"] by (simp add: perfinfo_counters_def map_nth)
    moreover have "counters_match e (Some ?cs)"
      using assms(1) True by (cases e) (auto simp: counters_match_def trace_fits_def event_counters_def)
    ultimately show ?thesis by blast
  next
    case False
    then have "counters_match e None" using assms(1) by (cases e) (auto simp: counters_match_def trace_fits_def)
    with False show ?thesis by (simp add: perfinfo_counters_def)
  qed
qed

definition written_trace :: "u32 \<Rightarrow> trace_kind \<Rightarrow> etl_header \<Rightarrow> etl_event \<Rightarrow> etl_trace" where
  "written_trace p k h e =
     \<lparr>tr_kind = k,
      tr_header = encode_header k h e (of_nat (trace_static_size k + 8 * length (event_counters k e) + length (encode_event p e))),
      tr_user_data = encode_event p e\<rparr>"

lemma written_trace_read:
  assumes "trace_fits p k h e"
  shows "next_trace (encode_trace p k h e @ beyond) = Inr (written_trace p k h e, align8 (length (encode_trace p k h e)))"
    and "trace_event p (written_trace p k h e) = Inr (Some (h, e))"
    and "trace_time (tr_kind (written_trace p k h e)) (tr_header (written_trace p k h e)) = Inr (eh_timestamp h)"
proof -
  let ?cs = "event_counters k e"
  let ?total = "trace_static_size k + 8 * length ?cs + length (encode_event p e)"
  let ?h = "encode_header k h e (of_nat ?total)"
  let ?tr = "\<lparr>tr_kind = k, tr_header = ?h, tr_user_data = encode_event p e\<rparr>"
  have fits: "event_fits p e" "eh_type h \<in> set (event_types e)" "?total < 2 ^ 16"
    "(k \<in> {System_trace, Compact_trace, Perfinfo_trace}) = isl (event_key h e)"
    using assms by (simp_all add: trace_fits_def)
  have len: "length ?h = trace_static_size k + 8 * length ?cs" by (rule length_encode_header [OF assms])
  have total: "unat (of_nat ?total :: u16) = ?total" using fits(3) by (simp only: unat_of_nat) (simp add: take_bit_nat_eq_self)
  have trace: "encode_trace p k h e = ?h @ encode_event p e" by (simp add: encode_trace_def)
  have extended: "(if k = Perfinfo_trace then peak_extended_size (encode_trace p k h e @ beyond) else Inr 0) = Inr (8 * length ?cs)"
    using counters_read_back(2) [OF assms, of "of_nat ?total" "encode_event p e @ beyond"] fits(4) trace
    by (auto simp: event_counters_def)
  have "split_trace k (encode_trace p k h e @ beyond) = Inr (?tr, ?total)"
    using header_fields(1) [OF assms, of "of_nat ?total"] len
    unfolding split_trace_def extended bind_result_simps total by (simp add: trace subspan_def subspan_difference_def)
  moreover have "next_trace_kind (encode_trace p k h e @ beyond) = Inr k"
    using next_trace_kind_encoded [OF assms] trace by simp
  moreover have "length (encode_trace p k h e) = ?total" using len trace by simp
  ultimately have next_tr: "next_trace (encode_trace p k h e @ beyond) = Inr (?tr, align8 (length (encode_trace p k h e)))"
    by (simp add: next_trace_def)
  note reads = handlers_read_back [OF fits(1,2)] header_fields(2,3) [OF assms, of "of_nat ?total"]
  have "trace_event p ?tr = Inr (Some (h, e))"
  proof (cases "event_key h e")
    case (Inl key)
    then have k: "k \<in> {System_trace, Compact_trace, Perfinfo_trace}" using fits(4) by simp
    obtain cs where cs: "perfinfo_counters k ?h = Inr cs" "counters_match e cs"
      using counters_read_back(1) [OF assms, of "of_nat ?total"] Inl by auto
    from k Inl reads cs show ?thesis by (cases key) (auto simp: trace_event_def Let_def)
  next
    case (Inr key)
    then have k: "k \<notin> {System_trace, Compact_trace, Perfinfo_trace}" using fits(4) by simp
    from k Inr reads show ?thesis by (cases key) (auto simp: trace_event_def Let_def)
  qed
  with next_tr reads(2)
  show "next_trace (encode_trace p k h e @ beyond) = Inr (written_trace p k h e, align8 (length (encode_trace p k h e)))"
    "trace_event p (written_trace p k h e) = Inr (Some (h, e))"
    "trace_time (tr_kind (written_trace p k h e)) (tr_header (written_trace p k h e)) = Inr (eh_timestamp h)"
    by (simp_all add: written_trace_def)
qed



end
