(* ===== verification/EtlWritten.thy ===== *)
theory EtlWritten
  imports EtlMerge EtlCodec
begin

text \<open>
  Writing an Event Trace Log file: the header, and buffers of the processors with their events, none of them
  compressed. What \<open>open\<close> and the first pass of \<open>process\<close> read from such a file, and the traces of each of its
  buffers.
\<close>

section \<open>Buffers\<close>

definition encode_buffer :: "nat \<Rightarrow> nat \<Rightarrow> u16 \<Rightarrow> u8 list \<Rightarrow> u8 list" where
  "encode_buffer sequence_number i buffer_type contents =
     le_word (of_nat (buffer_header_size + length contents) :: u32) @ le_word (of_nat (buffer_header_size + length contents) :: u32) @
     zeros 16 @ le_word (of_nat sequence_number :: u64) @ zeros 8 @ le_word (of_nat i :: u16) @ zeros 2 @
     le_word (0 :: u32) @ zeros 4 @ le_word (0 :: u16) @ le_word buffer_type @ zeros 16 @ contents"

definition written_header :: "nat \<Rightarrow> nat \<Rightarrow> u16 \<Rightarrow> u8 list \<Rightarrow> buffer_header" where
  "written_header sequence_number i buffer_type contents =
     \<lparr>bh_buffer_size = of_nat (buffer_header_size + length contents),
      bh_saved_offset = of_nat (buffer_header_size + length contents), bh_sequence_number = int sequence_number,
      bh_processor_index = of_nat i, bh_state = 0, bh_compressed = False, bh_buffer_type = buffer_type\<rparr>"

lemma length_encode_buffer [simp]: "length (encode_buffer k i b contents) = buffer_header_size + length contents"
  by (simp add: encode_buffer_def buffer_header_size_def)

lemma sint_of_nat_small:
  assumes "k < 2 ^ 63"
  shows "sint (of_nat k :: u64) = int k"
proof -
  have "int k < 2 ^ 63" using of_nat_less_iff [of k "2 ^ 63", where 'a = int] assms by simp
  then show ?thesis by (simp add: signed_of_nat signed_take_bit_int_eq_self)
qed

lemma take_prefix: "length xs = n \<Longrightarrow> take n (xs @ ys) = xs"
  by simp

lemma buffer_header_read_back:
  assumes "k < 2 ^ 63"
  shows "buffer_header_view (take buffer_header_size (encode_buffer k i b contents)) = Inr (written_header k i b contents)"
proof -
  let ?size = "of_nat (buffer_header_size + length contents) :: u32"
  let ?h = "le_word ?size @ le_word ?size @ zeros 16 @ le_word (of_nat k :: u64) @ zeros 8 @ le_word (of_nat i :: u16) @ zeros 2 @
     le_word (0 :: u32) @ zeros 4 @ le_word (0 :: u16) @ le_word b @ zeros 16"
  have "take buffer_header_size (?h @ contents) = ?h" by (rule take_prefix) (simp add: buffer_header_size_def)
  then have "take buffer_header_size (encode_buffer k i b contents) = ?h" by (simp only: encode_buffer_def append_assoc)
  then show ?thesis using sint_of_nat_small [OF assms]
    by (simp add: buffer_header_view_def written_header_def read_back del: of_nat_add)
qed

lemma drop_encode_buffer: "drop buffer_header_size (encode_buffer k i b contents) = contents"
  by (simp add: encode_buffer_def buffer_header_size_def zeros_def drop_replicate)

text \<open>Somewhere in a file.\<close>

lemma at_place: "length xs = pos \<Longrightarrow> n \<le> length ys \<Longrightarrow> take n (drop pos (xs @ ys @ zs)) = take n ys"
  by simp

definition buffer_fits :: "etl_header_data \<Rightarrow> nat \<Rightarrow> nat \<Rightarrow> u8 list \<Rightarrow> bool" where
  "buffer_fits fh k i contents \<longleftrightarrow> k \<le> unat (ed_number_of_buffers fh) \<and> i < unat (ed_number_of_processors fh) \<and> i < 2 ^ 16 \<and>
     buffer_header_size + length contents \<le> unat (ed_buffer_size fh)"

lemma written_header_fields:
  assumes "buffer_fits fh k i contents"
  shows "unat (bh_buffer_size (written_header k i b contents)) = buffer_header_size + length contents"
    "unat (bh_saved_offset (written_header k i b contents)) = buffer_header_size + length contents"
    "unat (bh_processor_index (written_header k i b contents)) = i"
proof -
  have "unat (ed_buffer_size fh) < 2 ^ 32" using unsigned_less [of "ed_buffer_size fh", where 'a = nat] by simp
  then have "unat (of_nat (buffer_header_size + length contents) :: u32) = buffer_header_size + length contents"
    using assms by (simp only: unat_of_nat) (simp add: buffer_fits_def take_bit_nat_eq_self)
  then show "unat (bh_buffer_size (written_header k i b contents)) = buffer_header_size + length contents"
    "unat (bh_saved_offset (written_header k i b contents)) = buffer_header_size + length contents"
    by (simp_all add: written_header_def)
  show "unat (bh_processor_index (written_header k i b contents)) = i"
    using assms by (simp add: written_header_def buffer_fits_def unat_of_nat take_bit_nat_eq_self)
qed

lemma written_number:
  assumes "buffer_fits fh k i contents"
  shows "k < 2 ^ 63"
proof -
  have "unat (ed_number_of_buffers fh) < 2 ^ 32" using unsigned_less [of "ed_number_of_buffers fh", where 'a = nat] by simp
  then show ?thesis using assms by (simp add: buffer_fits_def)
qed

lemma stored_payload_written:
  assumes fits: "buffer_fits fh k i contents" and pos: "length pre = pos"
  shows "stored_payload fh (pre @ encode_buffer k i b contents @ post) pos = Inr contents"
proof -
  let ?content = "pre @ encode_buffer k i b contents @ post" and ?n = buffer_header_size
  note h = written_header_fields [OF fits, where b = b]
  have "subspan pos ?n ?content = Inr (take ?n (encode_buffer k i b contents))"
    using pos by (simp add: subspan_def)
  moreover have "drop (pos + ?n) ?content = drop ?n (encode_buffer k i b contents) @ post" using pos by simp
  then have "subspan (pos + ?n) (length contents) ?content = Inr contents"
    using pos by (simp add: subspan_def drop_encode_buffer)
  moreover have "?n + length contents \<le> unat (ed_buffer_size fh)" using fits by (simp add: buffer_fits_def)
  moreover have "\<not> bh_compressed (written_header k i b contents)" by (simp add: written_header_def)
  ultimately show ?thesis
    unfolding stored_payload_def using buffer_header_read_back [OF written_number [OF fits], of i b contents] h by (simp add: subspan_def)
qed

lemma collect_written:
  assumes fits: "buffer_fits fh k i contents" and s: "fs_good s" "fs_content s = pre @ encode_buffer k i b contents @ post"
      "fs_position s = length pre" "length (fs_content s) < 2 ^ 62" and prs: "length prs = unat (ed_number_of_processors fh)"
  shows "collect_buffer fh j (s, prs) = Inr (s\<lparr>fs_position := length (pre @ encode_buffer k i b contents)\<rparr>,
    prs[i := (prs ! i)\<lparr>pr_remaining := pr_remaining (prs ! i) @ [\<lparr>fb_start_pos = length pre, fb_sequence_number = int k\<rparr>]\<rparr>])"
proof -
  let ?h = "take buffer_header_size (encode_buffer k i b contents)"
  note h = written_header_fields [OF fits, where b = b]
  have len: "length ?h = buffer_header_size" by simp
  have r: "stream_read buffer_header_size s = (?h, s\<lparr>fs_position := length pre + buffer_header_size\<rparr>)"
    using s(1-3) by (simp add: stream_read_def Let_def)
  have t: "\<not> tell (s\<lparr>fs_position := length pre + buffer_header_size\<rparr>) - tell s < int buffer_header_size"
    using s(1,3) by (simp add: tell_def)
  have "int k \<le> int (unat (ed_number_of_buffers fh))" using fits by (simp only: of_nat_le_iff buffer_fits_def)
  then have "int k \<le> uint (ed_number_of_buffers fh)" by simp
  then have seq: "\<not> uint (ed_number_of_buffers fh) < bh_sequence_number (written_header k i b contents)"
    by (simp add: written_header_def)
  have size: "\<not> ed_buffer_size fh < bh_buffer_size (written_header k i b contents)"
    using fits h(1) by (simp add: buffer_fits_def word_less_nat_alt)
  have i: "\<not> unat (ed_number_of_processors fh) < i" "\<not> length prs \<le> i" using fits prs by (simp_all add: buffer_fits_def)
  have "bh_sequence_number (written_header k i b contents) = int k" by (simp add: written_header_def)
  then show ?thesis
    unfolding collect_buffer_def prod.case r buffer_header_read_back [OF written_number [OF fits]] bind_result_simps Let_def h(1,3)
    using t seq size i s by (simp add: stream_seek_def)
qed

subsection \<open>All of them\<close>

text \<open>A list of buffers: the processor, the type and the contents of each. The sequence numbers count.\<close>

type_synonym raw_buffer = "nat \<times> u16 \<times> u8 list"

fun encode_buffers :: "nat \<Rightarrow> raw_buffer list \<Rightarrow> u8 list" where
  "encode_buffers k [] = []"
| "encode_buffers k ((i, b, contents) # rs) = encode_buffer k i b contents @ encode_buffers (Suc k) rs"

fun buffer_places :: "nat \<Rightarrow> nat \<Rightarrow> nat \<Rightarrow> raw_buffer list \<Rightarrow> file_buffer_info list" where
  "buffer_places j pos k [] = []"
| "buffer_places j pos k ((i, b, contents) # rs) =
     (if i = j then [\<lparr>fb_start_pos = pos, fb_sequence_number = int k\<rparr>] else []) @
     buffer_places j (pos + buffer_header_size + length contents) (Suc k) rs"

fun buffers_fit :: "etl_header_data \<Rightarrow> nat \<Rightarrow> raw_buffer list \<Rightarrow> bool" where
  "buffers_fit fh k [] = True"
| "buffers_fit fh k ((i, b, contents) # rs) \<longleftrightarrow> buffer_fits fh k i contents \<and> buffers_fit fh (Suc k) rs"

lemma collect_all_written:
  assumes "buffers_fit fh k rs" "fs_good s" "fs_content s = pre @ encode_buffers k rs" "fs_position s = length pre"
    "length (fs_content s) < 2 ^ 62" "length prs = unat (ed_number_of_processors fh)"
  shows "\<exists>s1 prs1. collect_buffers fh (\<lambda>_. False) (length rs) n (s, prs) = Inr (Some (s1, prs1)) \<and> length prs1 = length prs \<and>
    (\<forall>j < length prs. pr_remaining (prs1 ! j) = pr_remaining (prs ! j) @ buffer_places j (length pre) k rs)"
  using assms
proof (induction rs arbitrary: k n s pre prs)
  case Nil
  then show ?case by simp
next
  case (Cons r rs)
  obtain i b contents where r: "r = (i, b, contents)" by (metis prod_cases3)
  have fits: "buffer_fits fh k i contents" "buffers_fit fh (Suc k) rs" using Cons.prems(1) r by simp_all
  let ?s = "s\<lparr>fs_position := length (pre @ encode_buffer k i b contents)\<rparr>"
  let ?prs = "prs[i := (prs ! i)\<lparr>pr_remaining := pr_remaining (prs ! i) @ [\<lparr>fb_start_pos = length pre, fb_sequence_number = int k\<rparr>]\<rparr>]"
  have one: "collect_buffer fh n (s, prs) = Inr (?s, ?prs)"
    by (rule collect_written [OF fits(1) Cons.prems(2) _ Cons.prems(4-6)]) (use Cons.prems(3) r in simp)
  have i: "i < length prs" using fits(1) Cons.prems(6) by (simp add: buffer_fits_def)
  obtain s1 prs1 where c: "collect_buffers fh (\<lambda>_. False) (length rs) (Suc n) (?s, ?prs) = Inr (Some (s1, prs1))" "length prs1 = length ?prs"
    "\<forall>j < length ?prs. pr_remaining (prs1 ! j) =
      pr_remaining (?prs ! j) @ buffer_places j (length (pre @ encode_buffer k i b contents)) (Suc k) rs"
    using Cons.IH [of "Suc k" ?s "pre @ encode_buffer k i b contents" ?prs "Suc n"] Cons.prems(2-6) fits(2) r by auto
  have "pr_remaining (prs1 ! j) = pr_remaining (prs ! j) @ buffer_places j (length pre) k (r # rs)" if "j < length prs" for j
    using c(3) that i r by (cases "j = i") (auto simp: add.assoc)
  then show ?case using one c(1,2) by (intro exI [of _ s1] exI [of _ prs1]) simp
qed

definition contents_of :: "nat \<Rightarrow> raw_buffer list \<Rightarrow> u8 list list" where
  "contents_of j rs = map (\<lambda>(i, b, contents). contents) (filter (\<lambda>(i, b, contents). i = j) rs)"

lemma stored_traces_written:
  assumes "buffers_fit fh k rs" "map_result payload_traces (contents_of j rs) = Inr trss" "content = pre @ encode_buffers k rs"
  shows "stored_traces fh content (buffer_places j (length pre) k rs) = Inr (concat trss)"
  using assms
proof (induction rs arbitrary: k pre trss)
  case Nil
  then show ?case by (simp add: contents_of_def)
next
  case (Cons r rs)
  obtain i b contents where r: "r = (i, b, contents)" by (metis prod_cases3)
  have fits: "buffer_fits fh k i contents" "buffers_fit fh (Suc k) rs" using Cons.prems(1) r by simp_all
  have content: "content = (pre @ encode_buffer k i b contents) @ encode_buffers (Suc k) rs" using Cons.prems(3) r by simp
  have places: "buffer_places j (length pre) k (r # rs) = (if i = j then [\<lparr>fb_start_pos = length pre, fb_sequence_number = int k\<rparr>] else []) @
      buffer_places j (length (pre @ encode_buffer k i b contents)) (Suc k) rs"
    using r by (simp add: add.assoc)
  have here: "stored_payload fh content (length pre) = Inr contents"
    using stored_payload_written [OF fits(1) refl, of pre b "encode_buffers (Suc k) rs"] content by simp
  show ?case
  proof (cases "i = j")
    case True
    then obtain trs yss where t: "payload_traces contents = Inr trs" "map_result payload_traces (contents_of j rs) = Inr yss" "trss = trs # yss"
      using Cons.prems(2) r by (auto simp: contents_of_def bind_result_Inr)
    with True here Cons.IH [OF fits(2) t(2) content] show ?thesis unfolding places by (simp add: stored_traces_Cons)
  next
    case False
    then have "map_result payload_traces (contents_of j rs) = Inr trss" using Cons.prems(2) r by (simp add: contents_of_def)
    with False Cons.IH [OF fits(2) _ content] show ?thesis unfolding places by simp
  qed
qed

lemma buffer_places_sorted: "sorted (map fb_sequence_number (buffer_places j pos k rs)) \<and> distinct (map fb_sequence_number (buffer_places j pos k rs)) \<and>
    (\<forall>x \<in> set (buffer_places j pos k rs). int k \<le> fb_sequence_number x)"
proof (induction rs arbitrary: pos k)
  case (Cons r rs)
  obtain i b contents where r: "r = (i, b, contents)" by (metis prod_cases3)
  let ?tail = "buffer_places j (pos + buffer_header_size + length contents) (Suc k) rs"
  have ih: "sorted (map fb_sequence_number ?tail)" "distinct (map fb_sequence_number ?tail)"
    "\<forall>x \<in> set ?tail. int (Suc k) \<le> fb_sequence_number x"
    using Cons.IH by blast+
  have later: "int k < fb_sequence_number x" if "x \<in> set ?tail" for x using ih(3) that by fastforce
  then have "int k \<notin> fb_sequence_number ` set ?tail" by fastforce
  with ih(1,2) later show ?case unfolding r by (auto intro: less_imp_le)
qed simp

lemma sorted_places:
  assumes "sort_spec sort_buffers"
  shows "rev (sort_buffers (buffer_places j pos k rs)) = buffer_places j pos k rs"
proof -
  let ?b = "buffer_places j pos k rs" and ?r = "rev (sort_buffers (buffer_places j pos k rs))"
  have b: "sorted (map fb_sequence_number ?b)" "distinct (map fb_sequence_number ?b)" using buffer_places_sorted by blast+
  have r: "mset ?r = mset ?b" "sorted (map fb_sequence_number ?r)" using assms by (simp_all add: sort_spec_def rev_map)
  have inj: "inj_on fb_sequence_number (set ?r)" using b(2) r(1) by (metis distinct_map mset_eq_setD)
  have "sort_key fb_sequence_number ?r = ?b" by (rule sort_key_inj_key_eq [OF r(1) inj b(1)])
  moreover have "sort_key fb_sequence_number ?r = ?r" using r(2) by (rule sort_key_id_if_sorted)
  ultimately show ?thesis by simp
qed

lemma file_traces_written:
  assumes fits: "buffers_fit fh 0 rs" and n: "unat (ed_number_of_buffers fh) = length rs" and sort: "sort_spec sort_buffers"
    and trs: "\<forall>j < unat (ed_number_of_processors fh). map_result payload_traces (contents_of j rs) = Inr (trss j)"
    and s: "fs_good s" "fs_content s = encode_buffers 0 rs" "fs_position s = 0" "length (fs_content s) < 2 ^ 62"
  shows "file_traces sort_buffers fh s = Inr (map (\<lambda>j. concat (trss j)) [0..<unat (ed_number_of_processors fh)])"
proof -
  let ?m = "unat (ed_number_of_processors fh)"
  obtain s1 prs where c: "collect_buffers fh (\<lambda>_. False) (length rs) 0 (s, replicate ?m new_processor) = Inr (Some (s1, prs))"
    "length prs = ?m" "\<forall>j < ?m. pr_remaining (prs ! j) = buffer_places j 0 0 rs"
    using collect_all_written [OF fits s(1), of "[]" "replicate ?m new_processor" 0] s by (auto simp: new_processor_def)
  have "stored_traces fh (fs_content s) (rev (sort_buffers (pr_remaining (prs ! j)))) = Inr (concat (trss j))" if "j < ?m" for j
    using stored_traces_written [OF fits, of j "trss j" "fs_content s" "[]"] trs c(3) s(2) that sorted_places [OF sort] by simp
  then have "map_result (\<lambda>pr. stored_traces fh (fs_content s) (rev (sort_buffers (pr_remaining pr)))) prs =
      Inr (map (\<lambda>j. concat (trss j)) [0..<?m])"
    unfolding map_result_Inr by (simp add: list_all2_conv_all_nth c(2))
  then show ?thesis using c(1) n by (simp add: file_traces_def)
qed

section \<open>Traces\<close>

type_synonym written_event = "trace_kind \<times> etl_header \<times> etl_event"

definition pad8 :: "u8 list \<Rightarrow> u8 list" where
  "pad8 bs = bs @ zeros (align8 (length bs) - length bs)"

definition encode_traces :: "u32 \<Rightarrow> written_event list \<Rightarrow> u8 list" where
  "encode_traces p xs = concat (map (\<lambda>(k, h, e). pad8 (encode_trace p k h e)) xs)"

definition written_traces :: "u32 \<Rightarrow> written_event list \<Rightarrow> etl_trace list" where
  "written_traces p xs = map (\<lambda>(k, h, e). written_trace p k h e) xs"

lemma length_pad8: "length (pad8 bs) = align8 (length bs)"
  using align8_ge [of "length bs"] by (simp add: pad8_def)

lemma payload_traces_written:
  assumes "xs \<noteq> []" "\<forall>(k, h, e) \<in> set xs. trace_fits p k h e"
  shows "payload_traces (encode_traces p xs) = Inr (written_traces p xs)"
  using assms
proof (induction xs)
  case Nil
  then show ?case by simp
next
  case (Cons x xs)
  obtain k h e where x: "x = (k, h, e)" by (metis prod_cases3)
  let ?t = "encode_trace p k h e"
  have fits: "trace_fits p k h e" using Cons.prems(2) x by simp
  have bytes: "encode_traces p (x # xs) = ?t @ (zeros (align8 (length ?t) - length ?t) @ encode_traces p xs)"
    using x by (simp add: encode_traces_def pad8_def)
  have whole: "encode_traces p (x # xs) = pad8 ?t @ encode_traces p xs" using x by (simp add: encode_traces_def)
  have one: "next_trace (encode_traces p (x # xs)) = Inr (written_trace p k h e, align8 (length ?t))"
    unfolding bytes by (rule written_trace_read(1) [OF fits])
  show ?case
  proof (cases "xs = []")
    case True
    then have "length (encode_traces p (x # xs)) = align8 (length ?t)" unfolding whole by (simp add: encode_traces_def length_pad8)
    with True x show ?thesis
      unfolding payload_traces.simps [of "encode_traces p (x # xs)"] one by (simp add: written_traces_def)
  next
    case False
    then have t: "payload_traces (encode_traces p xs) = Inr (written_traces p xs)" using Cons.IH Cons.prems(2) by simp
    have "encode_traces p xs \<noteq> []" using payload_traces_time [OF t] by simp
    then have "\<not> length (encode_traces p (x # xs)) \<le> align8 (length ?t)" unfolding whole by (simp add: length_pad8)
    moreover have "drop (align8 (length ?t)) (encode_traces p (x # xs)) = encode_traces p xs"
      unfolding whole by (simp add: length_pad8)
    ultimately show ?thesis
      unfolding payload_traces.simps [of "encode_traces p (x # xs)"] one using t x by (simp add: written_traces_def)
  qed
qed

section \<open>The header\<close>

definition header_time :: "int \<Rightarrow> u64" where
  "header_time t = of_int (t + 116444736000000000)"

definition header_time_fits :: "int \<Rightarrow> bool" where
  "header_time_fits t \<longleftrightarrow> - (2 ^ 63) \<le> t \<and> t + 116444736000000000 < 2 ^ 63"

lemma header_time_read_back: "header_time_fits t \<Longrightarrow> from_nt_timestamp (header_time t) = Inr t"
proof -
  assume fits: "header_time_fits t"
  have "sint (of_int n :: u64) = n" if "- (2 ^ 63) \<le> n" "n < 2 ^ 63" for n :: int
    using that by (simp add: signed_of_int signed_take_bit_int_eq_self)
  from this [of "t + 116444736000000000"] have "sint (header_time t) = t + 116444736000000000"
    unfolding header_time_def using fits by (simp add: header_time_fits_def del: of_int_add)
  with fits show ?thesis by (simp add: header_time_fits_def from_nt_timestamp_def)
qed

definition header_trace_bytes :: "etl_header_data \<Rightarrow> u8 list" where
  "header_trace_bytes fh =
     le_word (2 :: u16) @ le_word (2 :: u8) @ le_word (0xC0 :: u8) @ le_word (of_nat (288 + 2 * unat (ed_pointer_size fh)) :: u16) @
     le_word (0 :: u8) @ le_word (0 :: u8) @ zeros 8 @ le_word (ed_start_time_qpc_ticks fh) @ zeros 8"

definition header_record_bytes :: "etl_header_data \<Rightarrow> u8 list" where
  "header_record_bytes fh =
     le_word (ed_buffer_size fh) @ zeros 8 @ le_word (ed_number_of_processors fh) @ le_word (header_time (ed_end_time fh)) @ zeros 8 @
     le_word (ed_log_file_mode fh) @ le_word (ed_number_of_buffers fh) @ zeros 4 @ le_word (ed_pointer_size fh) @
     zeros (192 + 2 * unat (ed_pointer_size fh)) @ le_word (ed_qpc_frequency fh) @ le_word (header_time (ed_start_time fh))"

definition header_fits :: "etl_header_data \<Rightarrow> bool" where
  "header_fits fh \<longleftrightarrow> (ed_pointer_size fh = 4 \<or> ed_pointer_size fh = 8) \<and> header_time_fits (ed_start_time fh) \<and>
     header_time_fits (ed_end_time fh) \<and> \<not> bit (ed_log_file_mode fh) 26 \<and> ed_compression_format fh = No_compression"

lemma header_lengths [simp]: "length (header_trace_bytes fh) = 32" "length (header_record_bytes fh) = 256 + 2 * unat (ed_pointer_size fh)"
  by (simp_all add: header_trace_bytes_def header_record_bytes_def)

lemma header_event_read_back:
  assumes "header_fits fh"
  shows "header_event_view state (ed_start_time_qpc_ticks fh) (header_record_bytes fh) = Inr fh"
proof -
  have t: "from_nt_timestamp (header_time (ed_start_time fh)) = Inr (ed_start_time fh)"
    "from_nt_timestamp (header_time (ed_end_time fh)) = Inr (ed_end_time fh)"
    using assms header_time_read_back by (simp_all add: header_fits_def)
  show ?thesis using assms t
    by (cases fh) (simp add: header_event_view_def header_record_bytes_def header_fits_def read_back Let_def)
qed

lemma header_record_read_back:
  assumes "header_fits fh"
  shows "read_header_record state (header_trace_bytes fh @ header_record_bytes fh) = Inr fh"
proof -
  have "subspan_from 32 (header_trace_bytes fh @ header_record_bytes fh) = Inr (header_record_bytes fh)"
    by (simp add: subspan_from_def)
  moreover have "u8_at (header_trace_bytes fh @ ys) 3 = Inr 0xC0" "u8_at (header_trace_bytes fh @ ys) 2 = Inr 2"
    "u8_at (header_trace_bytes fh @ ys) 7 = Inr 0" "u8_at (header_trace_bytes fh @ ys) 6 = Inr 0"
    "u16_at (header_trace_bytes fh @ ys) 0 = Inr 2" "u64_at (header_trace_bytes fh @ ys) 16 = Inr (ed_start_time_qpc_ticks fh)" for ys
    by (simp_all add: header_trace_bytes_def read_back)
  moreover have "valid_marker 0xC0" by (simp add: valid_marker_def)
  ultimately show ?thesis using header_event_read_back [OF assms, of state]
    by (simp add: read_header_record_def trace_static_size_def)
qed

definition header_trace :: "etl_header_data \<Rightarrow> etl_trace" where
  "header_trace fh = \<lparr>tr_kind = System_trace, tr_header = header_trace_bytes fh, tr_user_data = header_record_bytes fh\<rparr>"

lemma header_trace_read:
  assumes "header_fits fh"
  shows "payload_traces (header_trace_bytes fh @ header_record_bytes fh) = Inr [header_trace fh]"
    and "trace_event p (header_trace fh) = Inr None" "trace_stamp (header_trace fh) = ed_start_time_qpc_ticks fh"
proof -
  let ?bytes = "header_trace_bytes fh @ header_record_bytes fh" and ?n = "288 + 2 * unat (ed_pointer_size fh)"
  have at: "u8_at (header_trace_bytes fh @ ys) 2 = Inr 2" "u16_at (header_trace_bytes fh @ ys) 4 = Inr (of_nat ?n)"
    "u8_at (header_trace_bytes fh @ ys) 7 = Inr 0" "u8_at (header_trace_bytes fh @ ys) 6 = Inr 0"
    "u16_at (header_trace_bytes fh @ ys) 0 = Inr 2" "u64_at (header_trace_bytes fh @ ys) 16 = Inr (ed_start_time_qpc_ticks fh)" for ys
    by (simp_all add: header_trace_bytes_def read_back)
  have p: "ed_pointer_size fh = 4 \<or> ed_pointer_size fh = 8" using assms by (simp add: header_fits_def)
  have n: "unat (of_nat ?n :: u16) = ?n" "align8 ?n = ?n" using p by (auto simp: align8_def)
  have "next_trace_kind ?bytes = Inr System_trace" using at(1) by (simp add: next_trace_kind_def trace_kind_of_def)
  moreover have "trace_size System_trace (header_trace_bytes fh) = Inr ?n" using at(2) [of "[]"] n(1) by (simp add: trace_size_def)
  then have "split_trace System_trace ?bytes = Inr (header_trace fh, ?n)"
    by (simp add: split_trace_def subspan_def subspan_difference_def trace_static_size_def header_trace_def)
  ultimately have "next_trace ?bytes = Inr (header_trace fh, ?n)" using n(2) by (simp add: next_trace_def)
  then show "payload_traces ?bytes = Inr [header_trace fh]" by (simp add: payload_traces.simps [of ?bytes])
  show "trace_stamp (header_trace fh) = ed_start_time_qpc_ticks fh"
    using at(6) [of "[]"] by (simp add: trace_stamp_def trace_time_def header_trace_def)
  show "trace_event p (header_trace fh) = Inr None"
    using at(3-5) [of "[]"] by (simp add: trace_event_def header_trace_def group_key_def group_handler_def Let_def)
qed

section \<open>Files\<close>

text \<open>The buffers of a file: that with the header first, of the first processor; the processor and the events of the
  others.\<close>

definition file_buffers :: "etl_header_data \<Rightarrow> (nat \<times> written_event list) list \<Rightarrow> raw_buffer list" where
  "file_buffers fh bufs =
     (0, 4, header_trace_bytes fh @ header_record_bytes fh) # map (\<lambda>(i, xs). (i, 0, encode_traces (ed_pointer_size fh) xs)) bufs"

definition encode_file :: "etl_header_data \<Rightarrow> (nat \<times> written_event list) list \<Rightarrow> u8 list" where
  "encode_file fh bufs = encode_buffers 0 (file_buffers fh bufs)"

definition file_fits :: "etl_header_data \<Rightarrow> (nat \<times> written_event list) list \<Rightarrow> bool" where
  "file_fits fh bufs \<longleftrightarrow> header_fits fh \<and> unat (ed_number_of_buffers fh) = Suc (length bufs) \<and>
     0 < unat (ed_number_of_processors fh) \<and> 376 \<le> unat (ed_buffer_size fh) \<and> length (encode_file fh bufs) < 2 ^ 62 \<and>
     list_all (\<lambda>(i, xs). i < unat (ed_number_of_processors fh) \<and> i < 2 ^ 16 \<and> xs \<noteq> [] \<and>
       buffer_header_size + length (encode_traces (ed_pointer_size fh) xs) \<le> unat (ed_buffer_size fh) \<and>
       list_all (\<lambda>(k, h, e). trace_fits (ed_pointer_size fh) k h e) xs) bufs"

definition events_of :: "nat \<Rightarrow> (nat \<times> written_event list) list \<Rightarrow> written_event list" where
  "events_of j bufs = concat (map snd (filter (\<lambda>(i, xs). i = j) bufs))"

lemma buffers_fit_iff: "buffers_fit fh k rs \<longleftrightarrow> (\<forall>n < length rs. case rs ! n of (i, b, contents) \<Rightarrow> buffer_fits fh (k + n) i contents)"
proof (induction rs arbitrary: k)
  case (Cons r rs)
  obtain i b contents where r: "r = (i, b, contents)" by (metis prod_cases3)
  show ?case unfolding r buffers_fit.simps Cons.IH
    by (auto simp: less_Suc_eq_0_disj)
qed simp

lemma file_buffers_fit:
  assumes "file_fits fh bufs"
  shows "buffers_fit fh 0 (file_buffers fh bufs)"
proof -
  let ?rs = "file_buffers fh bufs"
  have first: "buffer_fits fh 0 0 (header_trace_bytes fh @ header_record_bytes fh)"
    using assms by (auto simp: file_fits_def header_fits_def buffer_fits_def buffer_header_size_def)
  have "case ?rs ! n of (i, b, contents) \<Rightarrow> buffer_fits fh n i contents" if "n < length ?rs" for n
  proof (cases n)
    case 0
    then show ?thesis using first by (simp add: file_buffers_def)
  next
    case (Suc m)
    then have m: "m < length bufs" using that by (simp add: file_buffers_def)
    obtain i xs where x: "bufs ! m = (i, xs)" by force
    then have "(i, xs) \<in> set bufs" using m by (metis nth_mem)
    then show ?thesis using assms Suc m x by (auto simp: file_fits_def file_buffers_def buffer_fits_def list_all_iff)
  qed
  then show ?thesis by (simp add: buffers_fit_iff)
qed

lemma open_written:
  assumes "file_fits fh bufs"
  shows "open_etl (Some (encode_file fh bufs)) = Inr (fh, \<lparr>fs_content = encode_file fh bufs, fs_position = 0, fs_good = True\<rparr>)"
proof -
  let ?contents = "header_trace_bytes fh @ header_record_bytes fh"
  let ?b = "encode_buffer 0 0 4 ?contents"
  let ?s = "\<lparr>fs_content = encode_file fh bufs, fs_position = 0, fs_good = True\<rparr>"
  obtain later where content: "encode_file fh bufs = ?b @ later" by (simp add: encode_file_def file_buffers_def)
  have fits: "header_fits fh" "buffer_fits fh 0 0 ?contents"
    using assms file_buffers_fit [OF assms] by (simp_all add: file_fits_def file_buffers_def)
  let ?h = "take buffer_header_size ?b"
  have first: "stream_read buffer_header_size ?s = (?h, ?s\<lparr>fs_position := buffer_header_size\<rparr>)"
    unfolding content by (simp add: stream_read_def Let_def)
  note h = written_header_fields [OF fits(2), where b = 4]
  have "stream_read (length cs) (?s\<lparr>fs_position := buffer_header_size\<rparr>) =
      (cs, ?s\<lparr>fs_position := buffer_header_size + length cs\<rparr>)" if "encode_file fh bufs = encode_buffer 0 0 4 cs @ later" for cs
    using that by (simp add: stream_read_def Let_def drop_encode_buffer)
  note second = this [OF content]
  have "bh_buffer_type (written_header 0 0 4 ?contents) = 4" "\<not> bh_compressed (written_header 0 0 4 ?contents)"
    "min_buffer_size \<le> buffer_header_size + length ?contents"
    by (simp_all add: written_header_def min_buffer_size_def trace_static_size_def)
  then show ?thesis
    using second header_record_read_back [OF fits(1)]
    by (simp add: open_etl_def first buffer_header_read_back h tell_def min_buffer_size_def trace_static_size_def stream_seek_def)
      (use unsigned_greater_eq [of "ed_pointer_size fh", where 'a = int] in linarith)
qed

lemma contents_of_written:
  assumes "file_fits fh bufs"
  shows "map_result payload_traces (contents_of j (file_buffers fh bufs)) =
    Inr ((if j = 0 then [[header_trace fh]] else []) @
      map (\<lambda>(i, xs). written_traces (ed_pointer_size fh) xs) (filter (\<lambda>(i, xs). i = j) bufs))"
proof -
  let ?p = "ed_pointer_size fh"
  have h: "payload_traces (header_trace_bytes fh @ header_record_bytes fh) = Inr [header_trace fh]"
    using assms by (intro header_trace_read(1)) (simp add: file_fits_def)
  have "payload_traces (encode_traces ?p xs) = Inr (written_traces ?p xs)" if "(i, xs) \<in> set bufs" for i xs
    using assms that by (intro payload_traces_written) (auto simp: file_fits_def list_all_iff)
  then have "map_result payload_traces (map (\<lambda>(i, xs). encode_traces ?p xs) (filter (\<lambda>(i, xs). i = j) bufs)) =
      Inr (map (\<lambda>(i, xs). written_traces ?p xs) (filter (\<lambda>(i, xs). i = j) bufs))"
    by (auto simp: map_result_Inr list_all2_conv_all_nth split: prod.split) (metis filter_is_subset nth_mem subsetD)
  moreover have "contents_of j (file_buffers fh bufs) = (if j = 0 then [header_trace_bytes fh @ header_record_bytes fh] else []) @
      map (\<lambda>(i, xs). encode_traces ?p xs) (filter (\<lambda>(i, xs). i = j) bufs)"
    by (simp add: contents_of_def file_buffers_def filter_map comp_def case_prod_unfold)
  ultimately show ?thesis using h by (cases "j = 0") simp_all
qed

text \<open>The traces that each processor has in the file.\<close>

definition processor_traces :: "etl_header_data \<Rightarrow> (nat \<times> written_event list) list \<Rightarrow> nat \<Rightarrow> etl_trace list" where
  "processor_traces fh bufs j =
     (if j = 0 then [header_trace fh] else []) @ written_traces (ed_pointer_size fh) (events_of j bufs)"

lemma file_traces_of_written:
  assumes "file_fits fh bufs" "sort_spec sort_buffers"
  shows "file_traces sort_buffers fh \<lparr>fs_content = encode_file fh bufs, fs_position = 0, fs_good = True\<rparr> =
    Inr (map (processor_traces fh bufs) [0..<unat (ed_number_of_processors fh)])"
proof -
  let ?rs = "file_buffers fh bufs" and ?p = "ed_pointer_size fh"
  let ?trss = "\<lambda>j. (if j = 0 then [[header_trace fh]] else []) @ map (\<lambda>(i, xs). written_traces ?p xs) (filter (\<lambda>(i, xs). i = j) bufs)"
  have "concat (map (\<lambda>(i, xs). written_traces ?p xs) ys) = written_traces ?p (concat (map snd ys))" for ys :: "(nat \<times> written_event list) list"
    by (induction ys) (auto simp: written_traces_def)
  then have eq: "concat (?trss j) = processor_traces fh bufs j" for j
    by (simp add: processor_traces_def events_of_def)
  have n: "unat (ed_number_of_buffers fh) = length ?rs" using assms(1) by (simp add: file_fits_def file_buffers_def)
  have all: "\<forall>j < unat (ed_number_of_processors fh). map_result payload_traces (contents_of j ?rs) = Inr (?trss j)"
    using contents_of_written [OF assms(1)] by blast
  have "file_traces sort_buffers fh \<lparr>fs_content = encode_file fh bufs, fs_position = 0, fs_good = True\<rparr> =
      Inr (map (\<lambda>j. concat (?trss j)) [0..<unat (ed_number_of_processors fh)])"
    by (rule file_traces_written [OF file_buffers_fit [OF assms(1)] n assms(2) all])
      (use assms(1) in \<open>simp_all add: encode_file_def file_fits_def\<close>)
  then show ?thesis unfolding eq .
qed

end
