(* ===== verification/EtlRecording.thy ===== *)
theory EtlRecording
  imports EtlWritten
begin

text \<open>
  A Windows recording from its file to the provider: \<open>etl_data_provider::process\<close>
  (\<open>snail/analysis/etl_data_provider.cpp\<close>) opens the file, gives its traces to the observer of the process
  context, finishes it and derives the session. Shown: a whole file is read as the events that are in it, in the
  order of their times, and the samples of a process come in the order of their times.
\<close>

section \<open>The observer of the process context\<close>

definition context_observer :: "utf_library \<Rightarrow> (u64 \<Rightarrow> u64) \<Rightarrow> etl_context etl_observer" where
  "context_observer utf ip_hash =
     \<lparr>on_buffer = \<lambda>_ _ c. Inr c,
      on_trace = \<lambda>fh tr c.
        bind_result (trace_event (ed_pointer_size fh) tr) (\<lambda>x.
          case x of None \<Rightarrow> Inr c | Some (h, e) \<Rightarrow> handle_etl_event utf ip_hash (ed_pointer_size fh) h e c)\<rparr>"

definition load_etl ::
  "utf_library \<Rightarrow> (u64 \<Rightarrow> u64) \<Rightarrow> (file_buffer_info list \<Rightarrow> file_buffer_info list) \<Rightarrow> (sample_queue \<Rightarrow> nat) \<Rightarrow>
   (nat \<Rightarrow> bool) \<Rightarrow> (etl_context \<Rightarrow> error + etl_context) \<Rightarrow> (etl_context \<Rightarrow> perf_key list) \<Rightarrow> (etl_context \<Rightarrow> u32 list) \<Rightarrow>
   u8 list option \<Rightarrow> (error + etl_provider) option" where
  "load_etl utf ip_hash sort_buffers top_index canceled finish_context process_order id_order disk =
     (case open_etl disk of
        Inl e \<Rightarrow> Some (Inl e)
      | Inr (header, s) \<Rightarrow>
          map_option (\<lambda>r. bind_result r (\<lambda>c. bind_result (finish_context c) (\<lambda>c1.
              process_etl_recording utf header (process_order c1) (id_order c1) c1)))
            (process_etl (context_observer utf ip_hash) sort_buffers top_index canceled header s empty_etl_context))"

definition trace_events :: "u32 \<Rightarrow> etl_trace list \<Rightarrow> (etl_header \<times> etl_event) list" where
  "trace_events p trs = concat (map (\<lambda>tr. case trace_event p tr of Inr (Some x) \<Rightarrow> [x] | _ \<Rightarrow> []) trs)"

lemma trace_events_simps [simp]:
  "trace_events p [] = []"
  "trace_events p (tr # trs) = (case trace_event p tr of Inr (Some x) \<Rightarrow> [x] | _ \<Rightarrow> []) @ trace_events p trs"
  by (simp_all add: trace_events_def)

lemma context_handles_events:
  "fold_result (on_trace (context_observer utf ip_hash) fh) trs c = Inr c1 \<Longrightarrow>
    handle_etl_events utf ip_hash (ed_pointer_size fh) (trace_events (ed_pointer_size fh) trs) c = Inr c1"
proof (induction trs arbitrary: c)
  case Nil
  then show ?case by (simp add: handle_etl_events_def)
next
  case (Cons tr trs)
  then obtain c2 where c2: "on_trace (context_observer utf ip_hash) fh tr c = Inr c2"
    "handle_etl_events utf ip_hash (ed_pointer_size fh) (trace_events (ed_pointer_size fh) trs) c2 = Inr c1"
    by (auto simp: bind_result_Inr)
  obtain x where x: "trace_event (ed_pointer_size fh) tr = Inr x"
    using c2(1) by (auto simp: context_observer_def bind_result_Inr)
  with c2 show ?case
    by (cases x) (auto simp: context_observer_def handle_etl_events_def)
qed

lemma event_time_is_stamp:
  assumes "trace_event p tr = Inr (Some (h, e))"
  shows "eh_timestamp h = trace_stamp tr"
  using assms
  by (auto simp: trace_event_def trace_stamp_def Let_def bind_result_Inr split: if_splits option.splits prod.splits)

lemma trace_events_sorted:
  "sorted (map trace_stamp trs) \<Longrightarrow> sorted (map (\<lambda>x. eh_timestamp (fst x)) (trace_events p trs))"
proof (induction trs)
  case (Cons tr trs)
  have later: "trace_stamp tr \<le> eh_timestamp (fst x)" if x: "x \<in> set (trace_events p trs)" for x
  proof -
    obtain tr1 where "tr1 \<in> set trs" "trace_event p tr1 = Inr (Some x)"
      using x by (auto simp: trace_events_def split: sum.splits option.splits)
    with Cons.prems event_time_is_stamp [of p tr1 "fst x" "snd x"] show ?thesis by auto
  qed
  show ?case
  proof (cases "\<exists>h e. trace_event p tr = Inr (Some (h, e))")
    case True
    then obtain h e where "trace_event p tr = Inr (Some (h, e))" by blast
    with Cons later event_time_is_stamp [OF this] show ?thesis by auto
  next
    case False
    then have "(case trace_event p tr of Inr (Some x) \<Rightarrow> [x] | _ \<Rightarrow> []) = []" by (auto split: sum.split option.split)
    with Cons show ?thesis by simp
  qed
qed simp

lemma sample_times_sorted:
  assumes "sorted (map trace_stamp trs)"
  shows "sorted (etl_sample_times (trace_events p trs))"
proof -
  have "sorted (map f (filter P xs))" if "sorted (map f xs)" for f :: "etl_header \<times> etl_event \<Rightarrow> u64" and P xs
    using that by (rule sorted_filter)
  with trace_events_sorted [OF assms] show ?thesis by (simp add: etl_sample_times_def)
qed

lemma open_etl_stream:
  assumes "open_etl (Some content) = Inr (fh, s)" "length content < 2 ^ 62"
  shows "fs_good s \<and> fs_content s = content \<and> fs_position s = 0"
  using assms
  by (auto simp: open_etl_def bind_result_Inr stream_read_def stream_seek_def tell_def Let_def split: if_splits)

lemma context_handles_decoded:
  "\<forall>tr \<in> set trs. \<exists>x. trace_event (ed_pointer_size fh) tr = Inr x \<Longrightarrow>
    fold_result (on_trace (context_observer utf ip_hash) fh) trs c =
      handle_etl_events utf ip_hash (ed_pointer_size fh) (trace_events (ed_pointer_size fh) trs) c"
proof (induction trs arbitrary: c)
  case Nil
  then show ?case by (simp add: handle_etl_events_def)
next
  case (Cons tr trs)
  then obtain x where x: "trace_event (ed_pointer_size fh) tr = Inr x" by auto
  have "fold_result (on_trace (context_observer utf ip_hash) fh) trs =
      handle_etl_events utf ip_hash (ed_pointer_size fh) (trace_events (ed_pointer_size fh) trs)"
    using Cons.IH Cons.prems by (intro ext) simp
  with x show ?case by (cases x) (auto simp: context_observer_def handle_etl_events_def)
qed

section \<open>Files that were written\<close>

lemma trace_events_concat: "trace_events p (concat tss) = concat (map (trace_events p) tss)"
  by (induction tss) (simp_all add: trace_events_def)

lemma trace_events_mset:
  assumes "mset trs = mset trs'"
  shows "mset (trace_events p trs) = mset (trace_events p trs')"
proof -
  have "mset (trace_events p trs) = sum_mset (image_mset (\<lambda>tr. mset (trace_events p [tr])) (mset trs))" for trs
    by (induction trs) (simp_all add: trace_events_def)
  then show ?thesis using assms by simp
qed

lemma trace_events_written:
  "\<forall>(k, h, e) \<in> set xs. trace_fits p k h e \<Longrightarrow> trace_events p (written_traces p xs) = map snd xs"
  by (induction xs) (auto simp: written_traces_def written_trace_read(2))

lemma mset_pick:
  "distinct js \<Longrightarrow> i \<in> set js \<Longrightarrow>
    mset (concat (map (\<lambda>j. (if i = j then xs else []) @ g j) js)) = mset xs + mset (concat (map g js))"
proof (induction js)
  case (Cons j js)
  have others: "concat (map (\<lambda>j. (if i = j then xs else []) @ g j) js) = concat (map g js)" if "i \<notin> set js"
    using that by (induction js) auto
  show ?case using Cons others by (cases "i = j") (auto simp: ac_simps)
qed simp

lemma events_of_all:
  assumes "list_all (\<lambda>(i, xs). i < m) bufs"
  shows "mset (concat (map (\<lambda>j. map g (events_of j bufs)) [0..<m])) = mset (map g (concat (map snd bufs)))"
  using assms
proof (induction bufs)
  case Nil
  then show ?case by (simp add: events_of_def)
next
  case (Cons b bufs)
  obtain i xs where b: "b = (i, xs)" by force
  have "map g (events_of j (b # bufs)) = (if i = j then map g xs else []) @ map g (events_of j bufs)" for j
    by (simp add: events_of_def b)
  then have "mset (concat (map (\<lambda>j. map g (events_of j (b # bufs))) [0..<m])) =
      mset (map g xs) + mset (concat (map (\<lambda>j. map g (events_of j bufs)) [0..<m]))"
    using mset_pick [of "[0..<m]" i "map g xs" "\<lambda>j. map g (events_of j bufs)"] Cons.prems b by simp
  with Cons b show ?case by simp
qed

definition written_time :: "written_event \<Rightarrow> u64" where
  "written_time x = eh_timestamp (fst (snd x))"

lemma file_fits_events:
  "file_fits fh bufs \<Longrightarrow> \<forall>(k, h, e) \<in> set (events_of j bufs). trace_fits (ed_pointer_size fh) k h e"
  by (fastforce simp: file_fits_def events_of_def list_all_iff)

lemma processor_traces_sorted:
  assumes "file_fits fh bufs" "sorted (map written_time (events_of j bufs))"
    "j = 0 \<longrightarrow> (\<forall>x \<in> set (events_of 0 bufs). ed_start_time_qpc_ticks fh \<le> written_time x)"
  shows "sorted (map trace_stamp (processor_traces fh bufs j))"
proof -
  have "trace_stamp (written_trace (ed_pointer_size fh) k h e) = eh_timestamp h" if "(k, h, e) \<in> set (events_of j bufs)" for k h e
  proof -
    have "trace_fits (ed_pointer_size fh) k h e" using file_fits_events [OF assms(1), of j] that by auto
    from written_trace_read(3) [OF this] show ?thesis by (simp add: trace_stamp_def)
  qed
  then have times: "map trace_stamp (written_traces (ed_pointer_size fh) (events_of j bufs)) = map written_time (events_of j bufs)"
    by (auto simp: written_traces_def written_time_def)
  have "trace_stamp (header_trace fh) = ed_start_time_qpc_ticks fh"
    using assms(1) by (intro header_trace_read(3)) (simp add: file_fits_def)
  moreover have "trace_stamp ` set (written_traces (ed_pointer_size fh) (events_of j bufs)) = written_time ` set (events_of j bufs)"
    using times by (metis set_map)
  ultimately show ?thesis using times assms(2,3) by (cases "j = 0") (simp_all add: processor_traces_def)
qed

lemma written_file_is_read:
  assumes fits: "file_fits fh bufs" and specs: "sort_spec sort_buffers" "top_spec top_index"
    and sorted: "\<forall>j < unat (ed_number_of_processors fh). sorted (map written_time (events_of j bufs))"
      "\<forall>x \<in> set (events_of 0 bufs). ed_start_time_qpc_ticks fh \<le> written_time x"
  shows "\<exists>es s. open_etl (Some (encode_file fh bufs)) = Inr (fh, s) \<and> sorted (map (\<lambda>x. eh_timestamp (fst x)) es) \<and>
    mset es = mset (map snd (concat (map snd bufs))) \<and>
    process_etl (context_observer utf ip_hash) sort_buffers top_index (\<lambda>_. False) fh s c =
      Some (handle_etl_events utf ip_hash (ed_pointer_size fh) es c)"
proof -
  let ?s = "\<lparr>fs_content = encode_file fh bufs, fs_position = 0, fs_good = True\<rparr>" and ?p = "ed_pointer_size fh"
  let ?m = "unat (ed_number_of_processors fh)"
  let ?tss = "map (processor_traces fh bufs) [0..<?m]"
  have tss: "file_traces sort_buffers fh ?s = Inr ?tss" by (rule file_traces_of_written [OF fits specs(1)])
  have "\<forall>ts \<in> set ?tss. sorted (map trace_stamp ts)" using sorted processor_traces_sorted [OF fits] by auto
  moreover have "fs_good ?s" "length (fs_content ?s) < 2 ^ 62" using fits by (simp_all add: file_fits_def)
  moreover have "on_buffer (context_observer utf ip_hash) = (\<lambda>_ _ c. Inr c)" by (simp add: context_observer_def)
  ultimately obtain trs where trs: "sorted (map trace_stamp trs)" "mset trs = mset (concat ?tss)"
    "process_etl (context_observer utf ip_hash) sort_buffers top_index (\<lambda>_. False) fh ?s c =
      Some (fold_result (on_trace (context_observer utf ip_hash) fh) trs c)"
    using processes_all [OF tss _ _ _ _ specs(2,1), of "context_observer utf ip_hash" c] by blast
  have header: "trace_event ?p (header_trace fh) = Inr None"
    using fits by (intro header_trace_read(2)) (simp add: file_fits_def)
  have decoded: "\<exists>x. trace_event ?p tr = Inr x" if "tr \<in> set trs" for tr
  proof -
    have "set trs = set (concat ?tss)" using trs(2) by (rule mset_eq_setD)
    with that obtain j where "tr \<in> set (processor_traces fh bufs j)" by auto
    then show ?thesis using header file_fits_events [OF fits, of j] written_trace_read(2)
      by (fastforce simp: processor_traces_def written_traces_def split: if_splits)
  qed
  have each: "trace_events ?p (processor_traces fh bufs j) = map snd (events_of j bufs)" for j
    using header trace_events_written [OF file_fits_events [OF fits, of j]] by (cases "j = 0") (simp_all add: processor_traces_def)
  have bound: "list_all (\<lambda>(i, xs). i < ?m) bufs" using fits by (auto simp: file_fits_def list_all_iff)
  have "mset (trace_events ?p trs) = mset (trace_events ?p (concat ?tss))" by (rule trace_events_mset [OF trs(2)])
  also have "\<dots> = mset (concat (map (\<lambda>j. map snd (events_of j bufs)) [0..<?m]))"
    unfolding trace_events_concat by (simp add: each comp_def)
  also have "\<dots> = mset (map snd (concat (map snd bufs)))" by (rule events_of_all [OF bound])
  finally have "mset (trace_events ?p trs) = mset (map snd (concat (map snd bufs)))" .
  then show ?thesis
    using open_written [OF fits] trace_events_sorted [OF trs(1), of ?p] trs(3) context_handles_decoded [of trs fh utf ip_hash c] decoded
    by (intro exI [of _ "trace_events ?p trs"] exI [of _ ?s]) simp
qed

section \<open>From the file to the samples\<close>




section \<open>An example\<close>

definition written_header_data :: etl_header_data where
  "written_header_data = \<lparr>ed_start_time = 132000000000000000, ed_end_time = 132000000010000000, ed_start_time_qpc_ticks = 90,
     ed_qpc_frequency = 10000000, ed_pointer_size = 8, ed_number_of_processors = 2, ed_number_of_buffers = 3,
     ed_buffer_size = 4096, ed_log_file_mode = 0, ed_compression_format = No_compression\<rparr>"

definition written_example :: "(nat \<times> written_event list) list" where
  "written_example =
     [(1, [(System_trace, \<lparr>eh_type = 1, eh_timestamp = 100\<rparr>, Process_event 7 1 ''app.exe'' []),
           (Full_header_trace, \<lparr>eh_type = 1, eh_timestamp = 120\<rparr>, Profile_target_event 7),
           (Perfinfo_trace, \<lparr>eh_type = 73, eh_timestamp = 160\<rparr>, Profile_interval_event 0 [84]),
           (Perfinfo_trace, \<lparr>eh_type = 46, eh_timestamp = 210\<rparr>, Sampled_profile_event 8 0x1018)]),
      (0, [(Compact_trace, \<lparr>eh_type = 1, eh_timestamp = 110\<rparr>, Thread_event 8 7 None),
           (System_trace, \<lparr>eh_type = 1, eh_timestamp = 150\<rparr>, Process_event 9 7 ''tool.exe'' []),
           (Perfinfo_trace, \<lparr>eh_type = 46, eh_timestamp = 200\<rparr>, Sampled_profile_event 8 0x1010)])]"

definition read_example :: "(etl_header \<times> etl_event) list" where
  "read_example =
     [(\<lparr>eh_type = 1, eh_timestamp = 100\<rparr>, Process_event 7 1 ''app.exe'' []),
      (\<lparr>eh_type = 1, eh_timestamp = 110\<rparr>, Thread_event 8 7 None),
      (\<lparr>eh_type = 1, eh_timestamp = 120\<rparr>, Profile_target_event 7),
      (\<lparr>eh_type = 1, eh_timestamp = 150\<rparr>, Process_event 9 7 ''tool.exe'' []),
      (\<lparr>eh_type = 73, eh_timestamp = 160\<rparr>, Profile_interval_event 0 [84]),
      (\<lparr>eh_type = 46, eh_timestamp = 200\<rparr>, Sampled_profile_event 8 0x1010),
      (\<lparr>eh_type = 46, eh_timestamp = 210\<rparr>, Sampled_profile_event 8 0x1018)]"

lemma length_encode_trace:
  "trace_fits p k h e \<Longrightarrow>
    length (encode_trace p k h e) = trace_static_size k + 8 * length (event_counters k e) + length (encode_event p e)"
  by (simp add: encode_trace_def length_encode_header)

lemma example_traces_fit: "list_all (\<lambda>(i, xs). list_all (\<lambda>(k, h, e). trace_fits 8 k h e) xs) written_example"
  by (simp add: written_example_def trace_fits_def event_fits_def encode_event_def event_types_def event_counters_def event_key_def
      trace_static_size_def plain_u16_def plain_string_def fits_pointer_def Let_def char_of_def)

lemma written_example_lengths: "list_all (\<lambda>(i, xs). length (encode_traces 8 xs) \<le> 400) written_example"
proof -
  have "length (pad8 (encode_trace 8 k h e)) \<le> 100" if "(i, xs) \<in> set written_example" "(k, h, e) \<in> set xs" for i xs k h e
  proof -
    have "trace_fits 8 k h e" using example_traces_fit that by (auto simp: list_all_iff)
    with that show ?thesis
      by (auto simp: length_pad8 length_encode_trace written_example_def encode_event_def event_counters_def trace_static_size_def align8_def)
  qed
  note each = this
  have "length (encode_traces 8 xs) \<le> 100 * length xs" if "\<forall>(k, h, e) \<in> set xs. length (pad8 (encode_trace 8 k h e)) \<le> 100" for xs :: "written_event list"
    using that by (induction xs) (auto simp: encode_traces_def)
  moreover have "length xs \<le> 4" if "(i, xs) \<in> set written_example" for i xs using that by (auto simp: written_example_def)
  ultimately show ?thesis using each by (fastforce simp: list_all_iff)
qed

lemma written_example_fits: "file_fits written_header_data written_example"
proof -
  have "length (encode_buffers k rs) = (\<Sum>(i, b, contents) \<leftarrow> rs. buffer_header_size + length contents)" for k rs
    by (induction k rs rule: encode_buffers.induct) simp_all
  then have "length (encode_file written_header_data written_example) =
      (\<Sum>(i, b, contents) \<leftarrow> file_buffers written_header_data written_example. buffer_header_size + length contents)"
    by (simp add: encode_file_def)
  also have "\<dots> \<le> 2000"
    using written_example_lengths by (simp add: file_buffers_def written_example_def buffer_header_size_def written_header_data_def)
  finally have "length (encode_file written_header_data written_example) < 2 ^ 62" by simp
  moreover have "list_all (\<lambda>(i, xs). i < 2 \<and> xs \<noteq> []) written_example" by (simp add: written_example_def)
  moreover have "unat (ed_number_of_buffers written_header_data) = Suc (length written_example)"
    by (simp add: written_header_data_def written_example_def)
  ultimately show ?thesis
    using written_example_lengths example_traces_fit
    by (fastforce simp: file_fits_def header_fits_def header_time_fits_def written_header_data_def buffer_header_size_def list_all_iff)
qed

definition sort_descending :: "file_buffer_info list \<Rightarrow> file_buffer_info list" where
  "sort_descending bs = rev (sort_key fb_sequence_number bs)"

lemma sort_descending_spec: "sort_spec sort_descending"
  by (simp add: sort_spec_def sort_descending_def rev_map)

lemma written_example_times:
  "\<forall>j < unat (ed_number_of_processors written_header_data). sorted (map written_time (events_of j written_example))"
  "\<forall>x \<in> set (events_of 0 written_example). ed_start_time_qpc_ticks written_header_data \<le> written_time x"
proof -
  have "sorted (map written_time (events_of j written_example))" for j
    by (cases "j = 0"; cases "j = 1") (simp_all add: events_of_def written_example_def written_time_def)
  then show "\<forall>j < unat (ed_number_of_processors written_header_data). sorted (map written_time (events_of j written_example))"
    by blast
  show "\<forall>x \<in> set (events_of 0 written_example). ed_start_time_qpc_ticks written_header_data \<le> written_time x"
    by (simp add: written_header_data_def events_of_def written_example_def written_time_def)
qed

text \<open>What is read of it is the list of its events by their times, for those are all different.\<close>

lemma example_order:
  assumes "sorted (map (\<lambda>x. eh_timestamp (fst x)) es)" "mset es = mset (map snd (concat (map snd written_example)))"
  shows "es = read_example"
proof -
  let ?time = "\<lambda>x :: etl_header \<times> etl_event. eh_timestamp (fst x)"
  have m: "mset read_example = mset es" unfolding assms(2) by (simp add: read_example_def written_example_def ac_simps)
  have "inj_on ?time (set read_example)" by (simp add: read_example_def)
  from sort_key_inj_key_eq [OF m this assms(1)] have "sort_key ?time read_example = es" .
  moreover have "sort_key ?time read_example = read_example"
    by (rule sort_key_id_if_sorted) (simp add: read_example_def)
  ultimately show ?thesis by simp
qed

lemma read_example_run:
  "handle_etl_events ascii_library (\<lambda>ip. ip) 8 read_example empty_etl_context = Inr sample_example_context"
  by (simp add: handle_etl_events_def read_example_def handle_etl_event_def handle_process_def handle_profile_interval_def
      handle_sampled_profile_def sample_example_context_def etl_example_context_def
      handle_thread_def start_thread_def add_waiting_def is_start_def history_insert_def add_to_set_def bind_result_def
      empty_etl_context_def ascii_library_def example_process_def insort_insert_key_def Let_def)


lemma example_file_traces:
  "file_traces sort_descending written_header_data
      \<lparr>fs_content = encode_file written_header_data written_example, fs_position = 0, fs_good = True\<rparr> =
    Inr (map (processor_traces written_header_data written_example) [0..<2])"
  "\<forall>ts \<in> set (map (processor_traces written_header_data written_example) [0..<2]). sorted (map trace_stamp ts)"
proof -
  show "file_traces sort_descending written_header_data
      \<lparr>fs_content = encode_file written_header_data written_example, fs_position = 0, fs_good = True\<rparr> =
    Inr (map (processor_traces written_header_data written_example) [0..<2])"
    using file_traces_of_written [OF written_example_fits sort_descending_spec] by (simp add: written_header_data_def)
  have "sorted (map trace_stamp (processor_traces written_header_data written_example j))" if "j < 2" for j
    by (rule processor_traces_sorted [OF written_example_fits]) (use written_example_times that in \<open>simp_all add: written_header_data_def\<close>)
  then show "\<forall>ts \<in> set (map (processor_traces written_header_data written_example) [0..<2]). sorted (map trace_stamp ts)"
    by simp
qed

lemma example_small: "length (encode_file written_header_data written_example) < 2 ^ 62"
  using written_example_fits by (simp add: file_fits_def)

lemma context_observer_buffers: "on_buffer (context_observer utf ip_hash) = (\<lambda>_ _ c. Inr c)"
  by (simp add: context_observer_def)


lemma example_processed:
  "process_etl (context_observer ascii_library (\<lambda>ip. ip)) sort_descending earliest_index (\<lambda>_. False) written_header_data
     \<lparr>fs_content = encode_file written_header_data written_example, fs_position = 0, fs_good = True\<rparr> empty_etl_context =
   Some (Inr sample_example_context)"
proof -
  obtain es s where e: "open_etl (Some (encode_file written_header_data written_example)) = Inr (written_header_data, s)"
    "sorted (map (\<lambda>x. eh_timestamp (fst x)) es)" "mset es = mset (map snd (concat (map snd written_example)))"
    "process_etl (context_observer ascii_library (\<lambda>ip. ip)) sort_descending earliest_index (\<lambda>_. False) written_header_data s
      empty_etl_context = Some (handle_etl_events ascii_library (\<lambda>ip. ip) 8 es empty_etl_context)"
    using written_file_is_read [OF written_example_fits sort_descending_spec earliest_index_spec written_example_times, of ascii_library "\<lambda>ip. ip" empty_etl_context]
    by (auto simp: written_header_data_def)
  from e(1,4) show ?thesis
    unfolding example_order [OF e(2,3)] read_example_run by (simp add: open_written [OF written_example_fits])
qed


end
