(* ===== verification/DecompressRoundtrip.thy ===== *)
theory DecompressRoundtrip
  imports Decompress EtlCodec
begin

text \<open>
  Plain LZ77 backwards: an encoder for a list of literals and matches, as the format specification has it, and that
  \<open>Decompress\<close> reads them back. Each word of flags stands in front of the 32 items it tells about, and two long
  matches share a byte that stands with the first of them.
\<close>

section \<open>The encoder\<close>

datatype xpress_item = Literal u8 | Match nat nat

fun expand_items :: "xpress_item list \<Rightarrow> u8 list \<Rightarrow> u8 list" where
  "expand_items [] out = out"
| "expand_items (Literal b # ts) out = expand_items ts (out @ [b])"
| "expand_items (Match off n # ts) out = expand_items ts (copy_match off n out)"

definition is_match :: "xpress_item \<Rightarrow> bool" where
  "is_match t = (case t of Literal _ \<Rightarrow> False | Match _ _ \<Rightarrow> True)"

fun flag_word :: "nat \<Rightarrow> xpress_item list \<Rightarrow> u32" where
  "flag_word 0 ts = 0"
| "flag_word (Suc j) [] = 0"
| "flag_word (Suc j) (t # ts) = (if is_match t then set_bit j (flag_word j ts) else flag_word j ts)"

text \<open>The four bits of a length of 10 or more, and those of the next such length.\<close>

definition length_nibble :: "nat \<Rightarrow> nat" where
  "length_nibble n = min (n - 10) 15"

fun next_nibble :: "xpress_item list \<Rightarrow> nat" where
  "next_nibble [] = 0"
| "next_nibble (Literal b # ts) = next_nibble ts"
| "next_nibble (Match off n # ts) = (if n < 10 then next_nibble ts else length_nibble n)"

definition encode_long :: "nat \<Rightarrow> u8 list" where
  "encode_long n =
     (if n < 25 then []
      else if n - 25 < 255 then le_word (of_nat (n - 25) :: u8)
      else le_word (255 :: u8) @
        (if n - 3 < 2 ^ 16 then le_word (of_nat (n - 3) :: u16) else le_word (0 :: u16) @ le_word (of_nat (n - 3) :: u32)))"

definition encode_match :: "bool \<Rightarrow> nat \<Rightarrow> nat \<Rightarrow> nat \<Rightarrow> u8 list" where
  "encode_match pending off n following =
     le_word (of_nat ((off - 1) * 8 + min (n - 3) 7) :: u16) @
     (if n < 10 then []
      else (if pending then [] else le_word (of_nat (length_nibble n + 16 * following) :: u8)) @ encode_long n)"

fun encode_items :: "nat \<Rightarrow> bool \<Rightarrow> xpress_item list \<Rightarrow> u8 list" where
  "encode_items k pending [] = []"
| "encode_items k pending (Literal b # ts) =
     (if k = 0 then le_word (flag_word 32 (Literal b # ts)) else []) @ [b] @ encode_items (if k = 0 then 31 else k - 1) pending ts"
| "encode_items k pending (Match off n # ts) =
     (if k = 0 then le_word (flag_word 32 (Match off n # ts)) else []) @ encode_match pending off n (next_nibble ts) @
     encode_items (if k = 0 then 31 else k - 1) (if n < 10 then pending else \<not> pending) ts"

text \<open>Matches reach back into what there is, at most 8192 bytes, and have at least three bytes.\<close>

fun items_fit :: "xpress_item list \<Rightarrow> nat \<Rightarrow> bool" where
  "items_fit [] have_bytes = True"
| "items_fit (Literal b # ts) have_bytes = items_fit ts (Suc have_bytes)"
| "items_fit (Match off n # ts) have_bytes \<longleftrightarrow>
     0 < off \<and> off \<le> 8192 \<and> off \<le> have_bytes \<and> 3 \<le> n \<and> n < 2 ^ 32 \<and> items_fit ts (have_bytes + n)"

lemma bit_flag_word: "j \<le> 32 \<Longrightarrow> bit (flag_word j ts) i \<longleftrightarrow> i < j \<and> j - 1 - i < length ts \<and> is_match (ts ! (j - 1 - i))"
proof (induction j ts arbitrary: i rule: flag_word.induct)
  case (3 j t ts)
  show ?case
  proof (cases "i = j")
    case True
    then show ?thesis using 3 by (simp add: bit_set_bit_iff)
  next
    case False
    have "bit (flag_word (Suc j) (t # ts)) i \<longleftrightarrow> bit (flag_word j ts) i" using False by (simp add: bit_set_bit_iff)
    also have "\<dots> \<longleftrightarrow> i < j \<and> j - 1 - i < length ts \<and> is_match (ts ! (j - 1 - i))" using 3 by (cases "is_match t") simp_all
    also have "\<dots> \<longleftrightarrow> i < Suc j \<and> Suc j - 1 - i < length (t # ts) \<and> is_match ((t # ts) ! (Suc j - 1 - i))"
    proof (cases "i < j")
      case True
      then have "Suc j - 1 - i = Suc (j - 1 - i)" by simp
      with True show ?thesis by simp
    next
      case f: False
      with False show ?thesis by simp
    qed
    finally show ?thesis .
  qed
qed simp_all

section \<open>Reading flags and lengths\<close>

lemma extract_at_drop: "off \<le> length input \<Longrightarrow> extract_int order input off = extract_int order (drop off input) 0"
  using extract_skip [of "take off input" off order "drop off input"] by simp

lemma le_word_byte: "le_word (b :: u8) = [b]"
  using unsigned_less [of b, where 'a = nat] by (simp add: le_word_def)

text \<open>What is left of the input: the next bytes are \<open>xs\<close>.\<close>

definition left_at :: "u8 list \<Rightarrow> nat \<Rightarrow> u8 list \<Rightarrow> bool" where
  "left_at input off xs \<longleftrightarrow> off \<le> length input \<and> drop off input = xs"

lemma left_at_move: "left_at input off (xs @ ys) \<Longrightarrow> left_at input (off + length xs) ys"
proof -
  assume l: "left_at input off (xs @ ys)"
  then have d: "drop off input = xs @ ys" "off \<le> length input" by (simp_all add: left_at_def)
  have "drop (off + length xs) input = drop (length xs) (drop off input)" unfolding drop_drop by (simp add: add.commute)
  then have "drop (off + length xs) input = ys" unfolding d(1) by simp
  moreover have "length input - off = length xs + length ys" using arg_cong [OF d(1), of length] by simp
  ultimately show ?thesis using d(2) by (simp add: left_at_def)
qed

lemma left_at_extract:
  assumes "left_at input off (le_word (v :: 'a::len word) @ ys)" "8 * (LENGTH('a) div 8) = LENGTH('a)"
  shows "extract_int little_endian input off = Inr v"
    "extract_move little_endian input off = Inr (v, off + LENGTH('a) div 8)"
proof -
  have "extract_int little_endian input off = (extract_int little_endian (le_word v @ ys) 0 :: error + 'a word)"
    using assms(1) extract_at_drop [of off input little_endian, where 'a = 'a] by (simp add: left_at_def)
  then show "extract_int little_endian input off = Inr v" using extract_here [OF assms(2), of v ys] by simp
  then show "extract_move little_endian input off = Inr (v, off + LENGTH('a) div 8)" by (simp add: extract_move_Inr)
qed

definition flags_tell :: "xpress_state \<Rightarrow> nat \<Rightarrow> xpress_item list \<Rightarrow> bool" where
  "flags_tell st k ts \<longleftrightarrow> xs_flag_count st = k \<and> k < 32 \<and> (\<forall>i. i < k \<and> i < length ts \<longrightarrow> bit (xs_flags st) (k - 1 - i) = is_match (ts ! i))"

lemma next_flag_read:
  assumes f: "flags_tell st k (t # ts)"
    and l: "left_at input (xs_in_offset st) ((if k = 0 then le_word (flag_word 32 (t # ts)) else []) @ body)"
  shows "\<exists>st1. next_flag input st = Inr (is_match t, st1) \<and> flags_tell st1 (if k = 0 then 31 else k - 1) ts \<and>
    left_at input (xs_in_offset st1) body \<and> xs_output st1 = xs_output st \<and>
    xs_last_length_half_offset st1 = xs_last_length_half_offset st"
proof (cases "k = 0")
  case True
  let ?w = "flag_word 32 (t # ts)"
  have e: "extract_move little_endian input (xs_in_offset st) = Inr (?w, xs_in_offset st + 4)"
    using left_at_extract(2) [of input "xs_in_offset st" ?w body] l True by simp
  let ?st = "st\<lparr>xs_flags := ?w, xs_in_offset := xs_in_offset st + 4, xs_flag_count := 31\<rparr>"
  have bits: "bit ?w (31 - i) \<longleftrightarrow> i < Suc (length ts) \<and> is_match ((t # ts) ! i)" if "i \<le> 31" for i
    using that bit_flag_word [of 32 "t # ts" "31 - i"] by auto
  have "next_flag input st = Inr (is_match t, ?st)"
    using f True e bits [of 0] by (simp add: next_flag_def flags_tell_def Let_def)
  moreover have "flags_tell ?st 31 ts"
  proof -
    have "bit ?w (30 - i) = is_match (ts ! i)" if "i < 31" "i < length ts" for i
      using bits [of "Suc i"] that by (simp add: numeral_eq_Suc)
    then show ?thesis by (simp add: flags_tell_def)
  qed
  moreover have "left_at input (xs_in_offset ?st) body" using left_at_move [of input "xs_in_offset st" "le_word ?w" body] l True by simp
  ultimately show ?thesis using True by (intro exI [of _ ?st]) simp
next
  case False
  let ?st = "st\<lparr>xs_flag_count := k - 1\<rparr>"
  have bits: "bit (xs_flags st) (k - 1 - i) = is_match ((t # ts) ! i)" if "i < k" "i < Suc (length ts)" for i
    using f that by (simp add: flags_tell_def)
  have "next_flag input st = Inr (is_match t, ?st)"
    using f False bits [of 0] by (simp add: next_flag_def flags_tell_def Let_def)
  moreover have "flags_tell ?st (k - 1) ts"
  proof -
    have "bit (xs_flags st) (k - 1 - 1 - i) = is_match (ts ! i)" if "i < k - 1" "i < length ts" for i
      using bits [of "Suc i"] that by simp
    moreover have "k < 32" using f by (simp add: flags_tell_def)
    then have "k - 1 < 32" by simp
    ultimately show ?thesis by (simp add: flags_tell_def)
  qed
  ultimately show ?thesis using l False by (intro exI [of _ ?st]) simp
qed

lemma next_nibble_le: "next_nibble ts \<le> 15"
  by (induction ts rule: next_nibble.induct) (simp_all add: length_nibble_def)

definition half_tells :: "u8 list \<Rightarrow> xpress_state \<Rightarrow> bool \<Rightarrow> nat \<Rightarrow> bool" where
  "half_tells input st pending nibble \<longleftrightarrow>
     (if pending then xs_last_length_half_offset st \<noteq> 0 \<and> xs_last_length_half_offset st < length input \<and>
        unat (input ! xs_last_length_half_offset st) div 16 = nibble
      else xs_last_length_half_offset st = 0)"

lemma long_length_read:
  assumes l: "left_at input off (encode_long n @ body)" and n: "25 \<le> n" "n < 2 ^ 32"
  shows "\<exists>off1. long_length input off = Inr (of_nat (n - 25), off1) \<and> left_at input off1 body"
proof (cases "n - 25 < 255")
  case True
  obtain m where m: "n - 25 = m" by blast
  have b: "unat (of_nat m :: u8) = m" using True unfolding m by (simp add: unat_of_nat take_bit_nat_eq_self)
  have nb: "(of_nat m :: u8) \<noteq> 255"
  proof
    assume "(of_nat m :: u8) = 255"
    with b True m show False by simp
  qed
  have "ucast (of_nat m :: u8) = (of_nat m :: u32)"
    by (rule word_unat_eq_iff [THEN iffD2])
      (use b True m in \<open>simp add: unsigned_ucast_eq unat_of_nat take_bit_nat_eq_self\<close>)
  moreover have here: "left_at input off (le_word (of_nat m :: u8) @ body)" using l True n m by (simp add: encode_long_def)
  moreover note left_at_extract(2) [OF here, simplified]
  ultimately have "long_length input off = Inr (of_nat m, off + 1)" using nb by (simp add: long_length_def)
  then show ?thesis using left_at_move [OF here] unfolding m by auto
next
  case False
  have val: "(of_nat (n - 3) :: u32) - (15 + 7) = of_nat (n - 25)" "\<not> (of_nat (n - 3) :: u32) < 15 + 7"
  proof -
    have "n - 3 = (n - 25) + 22" using n by simp
    then show "(of_nat (n - 3) :: u32) - (15 + 7) = of_nat (n - 25)" by (simp only: of_nat_add) simp
    have "unat (of_nat (n - 3) :: u32) = n - 3" using n by (simp only: unat_of_nat) (simp add: take_bit_nat_eq_self)
    then show "\<not> (of_nat (n - 3) :: u32) < 15 + 7" using n by (simp add: word_less_nat_alt)
  qed
  let ?tail = "if n - 3 < 2 ^ 16 then le_word (of_nat (n - 3) :: u16) else le_word (0 :: u16) @ le_word (of_nat (n - 3) :: u32)"
  have here: "left_at input off (le_word (255 :: u8) @ ?tail @ body)" using l False n by (simp add: encode_long_def)
  have first: "extract_move little_endian input off = Inr (255 :: u8, off + 1)" using left_at_extract(2) [OF here, simplified] by simp
  have second: "left_at input (off + 1) (?tail @ body)" using left_at_move [OF here] by simp
  show ?thesis
  proof (cases "n - 3 < 2 ^ 16")
    case True
    then have w: "unat (of_nat (n - 3) :: u16) = n - 3" by (simp only: unat_of_nat) (simp add: take_bit_nat_eq_self)
    have "(of_nat (n - 3) :: u16) \<noteq> 0"
    proof
      assume "(of_nat (n - 3) :: u16) = 0"
      with w n show False by simp
    qed
    moreover have "ucast (of_nat (n - 3) :: u16) = (of_nat (n - 3) :: u32)"
    proof -
      have "ucast (of_nat q :: u16) = (of_nat q :: u32)" if "q < 2 ^ 16" for q :: nat
        by (rule word_unat_eq_iff [THEN iffD2]) (use that in \<open>simp add: unsigned_ucast_eq unat_of_nat take_bit_nat_eq_self\<close>)
      from this [OF True] show ?thesis .
    qed
    moreover have e: "left_at input (off + 1) (le_word (of_nat (n - 3) :: u16) @ body)" using second True by simp
    moreover note left_at_extract(2) [OF e, simplified]
    ultimately have "long_length input off = Inr (of_nat (n - 25), off + 1 + 2)"
      using first val by (simp add: long_length_def del: of_nat_diff)
    then show ?thesis using left_at_move [OF e] by auto
  next
    case big: False
    have e: "left_at input (off + 1) (le_word (0 :: u16) @ le_word (of_nat (n - 3) :: u32) @ body)" using second big by simp
    have e2: "left_at input (off + 1 + 2) (le_word (of_nat (n - 3) :: u32) @ body)" using left_at_move [OF e] by simp
    have "long_length input off = Inr (of_nat (n - 25), off + 1 + 2 + 4)"
      using first val left_at_extract(2) [OF e, simplified] left_at_extract(2) [OF e2, simplified]
      by (simp add: long_length_def del: of_nat_diff)
    then show ?thesis using left_at_move [OF e2] by auto
  qed
qed

lemma half_byte_read:
  assumes h: "half_tells input st pending (length_nibble n)" and following: "following \<le> 15" and off: "xs_in_offset st \<noteq> 0"
    and l: "left_at input (xs_in_offset st)
      ((if pending then [] else le_word (of_nat (length_nibble n + 16 * following) :: u8)) @ body)"
  shows "\<exists>st1. half_byte input st = Inr (of_nat (length_nibble n), st1) \<and> left_at input (xs_in_offset st1) body \<and>
    half_tells input st1 (\<not> pending) following \<and> xs_output st1 = xs_output st \<and> xs_flag_count st1 = xs_flag_count st \<and>
    xs_flags st1 = xs_flags st"
proof -
  have small: "length_nibble n \<le> 15" by (simp add: length_nibble_def)
  show ?thesis
  proof (cases pending)
    case True
    let ?p = "xs_last_length_half_offset st"
    have p: "?p \<noteq> 0" "?p < length input" "unat (input ! ?p) div 16 = length_nibble n" using h True by (simp_all add: half_tells_def)
    have "left_at input ?p (le_word (input ! ?p) @ drop (Suc ?p) input)"
      using p(2) by (simp add: left_at_def le_word_byte Cons_nth_drop_Suc)
    then have e: "extract_int little_endian input ?p = Inr (input ! ?p)" using left_at_extract(1) by fastforce
    have "ucast (input ! ?p) div 16 = (of_nat (length_nibble n) :: u32)"
      by (rule word_unat_eq_iff [THEN iffD2])
        (use p(3) small unsigned_less [of "input ! ?p", where 'a = nat] in
          \<open>simp add: unat_div unsigned_ucast_eq unat_of_nat take_bit_nat_eq_self\<close>)
    then show ?thesis using p e l True by (simp add: half_byte_def half_tells_def)
  next
    case False
    let ?b = "of_nat (length_nibble n + 16 * following) :: u8"
    have b: "unat ?b = length_nibble n + 16 * following"
      using small following by (simp only: unat_of_nat) (simp add: take_bit_nat_eq_self)
    have here: "left_at input (xs_in_offset st) (le_word ?b @ body)" using l False by simp
    have "input ! xs_in_offset st = ?b" "xs_in_offset st < length input"
      using here unfolding left_at_def le_word_byte
      by (metis append_Cons nth_Cons_0 nth_via_drop) (metis append_Cons drop_eq_Nil list.distinct(1) not_le here left_at_def le_word_byte)
    moreover have "ucast ?b mod 16 = (of_nat (length_nibble n) :: u32)"
      by (rule word_unat_eq_iff [THEN iffD2])
        (use b small following in \<open>simp add: unat_mod unsigned_ucast_eq unat_of_nat take_bit_nat_eq_self del: of_nat_add of_nat_mult\<close>)
    moreover have "(length_nibble n + 16 * following) div 16 = following" using small by simp
    moreover have "extract_move little_endian input (xs_in_offset st) = Inr (?b, Suc (xs_in_offset st))"
      using left_at_extract(2) [OF here] by simp
    ultimately show ?thesis
      using left_at_move [OF here] b False h off
      by (auto simp: half_byte_def half_tells_def simp del: of_nat_add of_nat_mult)
  qed
qed

lemma match_length_read:
  assumes h: "half_tells input st pending (if n < 10 then following else length_nibble n)" and following: "following \<le> 15"
    and off: "xs_in_offset st \<noteq> 0" and n: "3 \<le> n" "n < 2 ^ 32"
    and l: "left_at input (xs_in_offset st)
      ((if n < 10 then []
        else (if pending then [] else le_word (of_nat (length_nibble n + 16 * following) :: u8)) @ encode_long n) @ body)"
  shows "\<exists>st1. match_length input (of_nat (min (n - 3) 7)) st = Inr (of_nat n, st1) \<and> left_at input (xs_in_offset st1) body \<and>
    half_tells input st1 (if n < 10 then pending else \<not> pending) following \<and> xs_output st1 = xs_output st \<and>
    xs_flag_count st1 = xs_flag_count st \<and> xs_flags st1 = xs_flags st"
proof (cases "n < 10")
  case True
  then have "n \<in> {3, 4, 5, 6, 7, 8, 9}" using n(1) by auto
  then show ?thesis using True h l by (auto simp: match_length_def)
next
  case False
  have sum: "(of_nat m + 10 :: u32) = of_nat (m + 10)" "(of_nat m + 25 :: u32) = of_nat (m + 25)" for m :: nat by simp_all
  have seven: "(of_nat (min (n - 3) 7) :: u32) = 7"
  proof -
    have "min (n - 3) 7 = 7" using False by simp
    then show ?thesis by (simp only: of_nat_numeral)
  qed
  obtain st1 where st1: "half_byte input st = Inr (of_nat (length_nibble n), st1)" "left_at input (xs_in_offset st1) (encode_long n @ body)"
    "half_tells input st1 (\<not> pending) following" "xs_output st1 = xs_output st" "xs_flag_count st1 = xs_flag_count st" "xs_flags st1 = xs_flags st"
    using half_byte_read [of input st pending n following "encode_long n @ body"] h following off l False by auto
  show ?thesis
  proof (cases "n < 25")
    case True
    then have nib: "length_nibble n = n - 10" "n - 10 < 15" using False by (simp_all add: length_nibble_def)
    have "(of_nat (n - 10) :: u32) \<noteq> 15"
    proof -
      have "unat (of_nat (n - 10) :: u32) = n - 10" using nib(2) by (simp only: unat_of_nat) (simp add: take_bit_nat_eq_self)
      then show ?thesis using nib(2) by auto
    qed
    moreover have "(of_nat (n - 10) + 7 + 3 :: u32) = of_nat n" using sum(1) [of "n - 10"] False by (simp add: add.assoc)
    moreover have "left_at input (xs_in_offset st1) body" using st1(2) True by (simp add: encode_long_def)
    ultimately show ?thesis using st1 False nib(1) seven by (simp add: match_length_def)
  next
    case long: False
    then have nib: "length_nibble n = 15" by (simp add: length_nibble_def)
    obtain off1 where o: "long_length input (xs_in_offset st1) = Inr (of_nat (n - 25), off1)" "left_at input off1 body"
      using long_length_read [OF st1(2)] long n(2) by auto
    have "(of_nat (n - 25) + 15 + 7 + 3 :: u32) = of_nat n" using sum(2) [of "n - 25"] long by (simp add: add.assoc)
    moreover have "half_tells input (st1\<lparr>xs_in_offset := off1\<rparr>) (\<not> pending) following" using st1(3) by (simp add: half_tells_def)
    ultimately show ?thesis using st1 o False nib seven
      by (intro exI [of _ "st1\<lparr>xs_in_offset := off1\<rparr>"]) (simp add: match_length_def)
  qed
qed

section \<open>Reading items\<close>

lemma expand_longer: "length out \<le> length (expand_items ts out)"
  by (induction ts out rule: expand_items.induct) (simp_all add: le_trans [rotated])

lemma match_bytes_read:
  assumes "0 < off" "off \<le> 8192" "m \<le> 7"
  shows "unat ((of_nat ((off - 1) * 8 + m) :: u16) div 8 + 1) = off"
    "ucast (of_nat ((off - 1) * 8 + m) :: u16) mod 8 = (of_nat m :: u32)"
proof -
  let ?v = "of_nat ((off - 1) * 8 + m) :: u16"
  have v: "unat ?v = (off - 1) * 8 + m"
    using assms by (simp only: unat_of_nat) (simp add: take_bit_nat_eq_self)
  then have d: "unat (?v div 8) = off - 1" using assms(3) by (simp add: unat_div del: of_nat_add of_nat_mult)
  have "unat (?v div 8 + 1) = (unat (?v div 8) + unat (1 :: u16)) mod 2 ^ 16" by (simp only: unat_word_ariths word_size) simp
  then show "unat (?v div 8 + 1) = off" unfolding d using assms by simp
  have "((off - 1) * 8 + m) mod 8 = m mod 8" by simp
  then show "ucast ?v mod 8 = (of_nat m :: u32)"
    by (intro word_unat_eq_iff [THEN iffD2])
      (use v assms in \<open>simp add: unat_mod unsigned_ucast_eq unat_of_nat take_bit_nat_eq_self del: of_nat_add of_nat_mult\<close>)
qed

lemma literal_read:
  assumes "left_at input (xs_in_offset st) (b # body)" "length (xs_output st) < room_for"
  shows "literal_round input room_for st = Inr (Some (st\<lparr>xs_output := xs_output st @ [b], xs_in_offset := xs_in_offset st + 1\<rparr>)) \<and>
    left_at input (xs_in_offset st + 1) body"
proof -
  have here: "left_at input (xs_in_offset st) (le_word b @ body)" using assms(1) by (simp add: le_word_byte)
  have "extract_int little_endian input (xs_in_offset st) = Inr b" using left_at_extract(1) [OF here] by simp
  then show ?thesis using assms(2) left_at_move [OF here] by (simp add: literal_round_def)
qed

lemma match_read:
  assumes h: "half_tells input st pending (if n < 10 then following else length_nibble n)" and following: "following \<le> 15"
    and fits: "0 < off" "off \<le> 8192" "off \<le> length (xs_output st)" "3 \<le> n" "n < 2 ^ 32" "length (xs_output st) + n \<le> room_for"
    and l: "left_at input (xs_in_offset st) (encode_match pending off n following @ body)"
  shows "\<exists>st1. match_round input room_for st = Inr (Some st1) \<and> left_at input (xs_in_offset st1) body \<and>
    half_tells input st1 (if n < 10 then pending else \<not> pending) following \<and>
    xs_output st1 = copy_match off n (xs_output st) \<and> xs_flag_count st1 = xs_flag_count st \<and> xs_flags st1 = xs_flags st"
proof -
  let ?v = "of_nat ((off - 1) * 8 + min (n - 3) 7) :: u16"
  let ?more = "(if n < 10 then [] else (if pending then [] else le_word (of_nat (length_nibble n + 16 * following) :: u8)) @ encode_long n) @ body"
  have here: "left_at input (xs_in_offset st) (le_word ?v @ ?more)" using l by (simp add: encode_match_def)
  have e: "extract_move little_endian input (xs_in_offset st) = Inr (?v, xs_in_offset st + 2)"
    using left_at_extract(2) [OF here] by simp
  have l2: "left_at input (xs_in_offset st + 2) ?more" using left_at_move [OF here] by simp
  then have inside: "\<not> length input \<le> xs_in_offset st + 1" by (simp add: left_at_def)
  let ?st = "st\<lparr>xs_in_offset := xs_in_offset st + 2\<rparr>"
  have h2: "half_tells input ?st pending (if n < 10 then following else length_nibble n)" using h by (simp add: half_tells_def)
  have "xs_in_offset ?st \<noteq> 0" "left_at input (xs_in_offset ?st) ?more" using l2 by simp_all
  from match_length_read [OF h2 following this(1) fits(4,5) this(2)]
  obtain st1 where m: "match_length input (of_nat (min (n - 3) 7)) ?st = Inr (of_nat n, st1)"
    "left_at input (xs_in_offset st1) body" "half_tells input st1 (if n < 10 then pending else \<not> pending) following"
    "xs_output st1 = xs_output st" "xs_flag_count st1 = xs_flag_count st" "xs_flags st1 = xs_flags st"
    by auto
  have n: "unat (of_nat n :: u32) = n" using fits(5) by (simp only: unat_of_nat) (simp add: take_bit_nat_eq_self)
  have "min (n - 3) 7 \<le> 7" by simp
  note bytes = match_bytes_read [OF fits(1,2) this]
  have "match_round input room_for st = Inr (Some (st1\<lparr>xs_output := copy_match off n (xs_output st)\<rparr>))"
    using inside fits(3,6) unfolding match_round_def e bind_result_simps prod.case Let_def bytes m(1,4) n by simp
  then show ?thesis using m by (intro exI [of _ "st1\<lparr>xs_output := copy_match off n (xs_output st)\<rparr>"]) (simp add: half_tells_def)
qed

lemma left_at_inside:
  assumes "left_at input n bs" "0 < length bs"
  shows "n < length input"
  using assms by (cases "n < length input") (simp_all add: left_at_def not_less)

lemma xpress_loop_reads:
  assumes "flags_tell st k ts" "left_at input (xs_in_offset st) (encode_items k pending ts)"
    "half_tells input st pending (next_nibble ts)" "items_fit ts (length (xs_output st))"
    "length (expand_items ts (xs_output st)) \<le> room_for"
  shows "xpress_loop input room_for st = Inr (expand_items ts (xs_output st))"
  using assms
proof (induction ts arbitrary: st k pending)
  case Nil
  then show ?case by (simp add: xpress_loop.simps [of _ _ st] left_at_def)
next
  case (Cons t ts)
  let ?k = "if k = 0 then 31 else k - 1"
  let ?flags = "if k = 0 then le_word (flag_word 32 (t # ts)) else []"
  show ?case
  proof (cases t)
    case (Literal b)
    have l: "left_at input (xs_in_offset st) (?flags @ [b] @ encode_items ?k pending ts)"
      using Cons.prems(2) Literal by (cases "k = 0") simp_all
    obtain st1 where s: "next_flag input st = Inr (False, st1)" "flags_tell st1 ?k ts"
      "left_at input (xs_in_offset st1) (b # encode_items ?k pending ts)" "xs_output st1 = xs_output st"
      "xs_last_length_half_offset st1 = xs_last_length_half_offset st"
      using next_flag_read [OF Cons.prems(1) l] Literal by (auto simp: is_match_def)
    let ?st = "st1\<lparr>xs_output := xs_output st1 @ [b], xs_in_offset := xs_in_offset st1 + 1\<rparr>"
    have "length (xs_output st @ [b]) \<le> room_for" using expand_longer [of "xs_output st @ [b]" ts] Cons.prems(5) Literal by simp
    then have r: "literal_round input room_for st1 = Inr (Some ?st)" "left_at input (xs_in_offset ?st) (encode_items ?k pending ts)"
      using literal_read [OF s(3), of room_for] s(4) by simp_all
    have "xs_in_offset st < length input" using l by (auto simp: left_at_def intro: ccontr)
    then have "xpress_loop input room_for st = xpress_loop input room_for ?st"
      using s(1) r(1) by (simp add: xpress_loop.simps [of _ _ st] xpress_round_def)
    also have "\<dots> = Inr (expand_items ts (xs_output ?st))"
      by (rule Cons.IH [OF _ r(2)])
        (use Cons.prems(3-5) s Literal in \<open>simp_all add: flags_tell_def half_tells_def\<close>)
    finally show ?thesis using s(4) Literal by simp
  next
    case (Match off n)
    let ?pending = "if n < 10 then pending else \<not> pending"
    have l: "left_at input (xs_in_offset st) (?flags @ encode_match pending off n (next_nibble ts) @ encode_items ?k ?pending ts)"
      using Cons.prems(2) Match by (cases "k = 0") simp_all
    obtain st1 where s: "next_flag input st = Inr (True, st1)" "flags_tell st1 ?k ts"
      "left_at input (xs_in_offset st1) (encode_match pending off n (next_nibble ts) @ encode_items ?k ?pending ts)"
      "xs_output st1 = xs_output st" "xs_last_length_half_offset st1 = xs_last_length_half_offset st"
      using next_flag_read [OF Cons.prems(1) l] Match by (auto simp: is_match_def)
    have fits: "0 < off" "off \<le> 8192" "off \<le> length (xs_output st1)" "3 \<le> n" "n < 2 ^ 32" "items_fit ts (length (xs_output st) + n)"
      using Cons.prems(4) Match s(4) by simp_all
    have room: "length (xs_output st1) + n \<le> room_for"
      using expand_longer [of "copy_match off n (xs_output st)" ts] Cons.prems(5) Match s(4) by simp
    have half: "half_tells input st1 pending (if n < 10 then next_nibble ts else length_nibble n)"
      using Cons.prems(3) Match s(5) by (simp add: half_tells_def)
    obtain st2 where r: "match_round input room_for st1 = Inr (Some st2)" "left_at input (xs_in_offset st2) (encode_items ?k ?pending ts)"
      "half_tells input st2 ?pending (next_nibble ts)" "xs_output st2 = copy_match off n (xs_output st1)"
      "xs_flag_count st2 = xs_flag_count st1" "xs_flags st2 = xs_flags st1"
      using match_read [OF half next_nibble_le fits(1-5) room s(3)] by blast
    have "0 < length (?flags @ encode_match pending off n (next_nibble ts) @ encode_items ?k ?pending ts)"
      by (simp add: encode_match_def length_le_word)
    then have "xs_in_offset st < length input"
      using left_at_inside [OF l] by simp
    then have "xpress_loop input room_for st = xpress_loop input room_for st2"
      using s(1) r(1) by (simp add: xpress_loop.simps [of _ _ st] xpress_round_def)
    also have "\<dots> = Inr (expand_items ts (xs_output st2))"
      by (rule Cons.IH [OF _ r(2,3)])
        (use Cons.prems(5) s fits r Match in \<open>simp_all add: flags_tell_def\<close>)
    finally show ?thesis using s(4) r(4) Match by simp
  qed
qed

text \<open>C40: Compressed data is read back: whatever literals and matches are written as the format has it, with lengths
  of any size, decompressing gives the bytes they stand for, if the output has room for them.\<close>
theorem xpress_roundtrip:
  assumes "items_fit items 0" "length (expand_items items []) \<le> room_for"
  shows "ms_xca_decompress (encode_items 0 False items) room_for Xpress = Inr (expand_items items [])"
  using xpress_loop_reads [of xpress_start 0 items "encode_items 0 False items" False room_for] assms
  by (simp add: ms_xca_decompress_def decompress_xpress_def xpress_start_def flags_tell_def left_at_def half_tells_def)

theorem xpress_roundtrip_witness:
  "ms_xca_decompress (encode_items 0 False [Literal 1, Literal 2, Match 2 30, Literal 3, Match 1 12, Match 5 4]) 100 Xpress =
    Inr (expand_items [Literal 1, Literal 2, Match 2 30, Literal 3, Match 1 12, Match 5 4] [])"
  by (rule xpress_roundtrip) simp_all

end
