(* ===== verification/Spec2Isabelle.thy ===== *)
theory Spec2Isabelle
  imports ModuleMap History StackCache Scheduler Server PerfProvider PerfRecording EtlRecording DecompressRoundtrip
begin

text \<open>
  Snail is a language server that analyses profiling recordings. A client sends JSON-RPC messages; the
  server reads a recording into a document, analyses the call stacks of a process and answers questions
  about the result. This development models the server from the bytes of a message to the answer, and the
  data structures that map the addresses of a recording to modules, processes and stacks. Paths below are
  relative to \<open>src/snail\<close>.

  How the parts interact: \<open>jsonrpc/transport\<close> reads a message, \<open>jsonrpc/server.cpp\<close> parses it and finds its
  handler, \<open>server/snail_server.cpp\<close> makes a task of it, \<open>server/detail/document_task_scheduler.cpp\<close> decides
  when the task runs, the task calls \<open>server/detail/storage.cpp\<close>, which asks a data provider for samples and
  caches what \<open>analysis/analysis.cpp\<close> computes from them.

  Theories:

  \<^item> \<open>Prelude\<close>: lemmas on lists and words that the others share.
  \<^item> \<open>Timeline\<close>: the interface of a collection of dated entries per key, with its laws as a locale; both
    \<open>ModuleMap\<close> and \<open>History\<close> are instances.
  \<^item> \<open>ModuleMap\<close>: \<open>analysis/detail/module_map.hpp\<close>. The index is the sorted list of address ranges of the
    code, with 64 bit addresses; an insertion splits ranges at both ends and adds the module to the ranges
    inside. Shown: it keeps the ranges disjoint and ascending, what it does to every address, and what a
    lookup returns after it. It does not fill gaps between ranges, which is stated as a property too.
  \<^item> \<open>History\<close>: \<open>analysis/detail/process_history.hpp\<close>, entries per id in ascending order of time.
  \<^item> \<open>Interning\<close>, \<open>StackCache\<close>: a table that gives equal keys equal indices, and
    \<open>analysis/detail/stack_cache.hpp\<close> as an instance for every hash function.
  \<^item> \<open>Analysis\<close>: \<open>analyze_stacks\<close> of \<open>analysis/analysis.cpp\<close>, its tables, its call tree and its loops, with
    cancellation as an oracle that is asked before each sample. \<open>CallTree\<close> and \<open>AnalysisTables\<close> hold the
    invariants of the parts of its state, \<open>AnalysisSpec\<close> the abstract specification (what the counts are, in
    terms of the lists of frames) and the proof that each step adds the effect of one sample to it,
    \<open>AnalysisResults\<close> the properties of the result.
  \<^item> \<open>Scheduler\<close>: \<open>document_task_scheduler.cpp\<close> as a step relation: a task is scheduled, the loop starts a
    task, a task ends, shutdown. Shown: what every reachable state satisfies, and two runs in which the
    scheduler does not keep its promise.
  \<^item> \<open>Strings\<close>, \<open>Options\<close>: \<open>common/wildcard.cpp\<close>, \<open>trim.cpp\<close>, \<open>string_compare.cpp\<close>, \<open>analysis/options.cpp\<close>
    and \<open>path_map.cpp\<close>. A regular expression is parsed and matched as far as the patterns made from
    wildcards need it.
  \<^item> \<open>Provider\<close>, \<open>Storage\<close>: the interface of data providers as a record of its functions, and
    \<open>server/detail/storage.cpp\<close> with all its caches. Shown: dropping all caches after every operation makes
    no difference; what a page of functions holds; that a cancelled analysis is kept.
  \<^item> \<open>Transport\<close>, \<open>Rpc\<close>, \<open>Protocol\<close>: reading and writing messages on a stream, \<open>jsonrpc_v2_protocol.cpp\<close>,
    \<open>jsonrpc/server.cpp\<close>, the unpacking of parameters in \<open>jsonrpc/detail/request.hpp\<close>, and the request types
    of \<open>server/requests/protocol.hpp\<close>.
  \<^item> \<open>Responses\<close>, \<open>Server\<close>: \<open>server/snail_server.cpp\<close>, the JSON of the answers, the handlers, their
    registration, and the tokens of active requests.
  
  \<^item> \<open>Outcome\<close>: exceptions as values, shared by the parts that throw.
  \<^item> \<open>PerfMetadata\<close>, \<open>PerfContext\<close>: what is known of a Linux recording,
    \<open>analysis/detail/perf_data_file_process_context.cpp\<close> with the handlers of the events and \<open>finish\<close>. Shown:
    every sample is filed once; ids round trip; no accessor fails for a sampled process.
  \<^item> \<open>DwarfResolver\<close>: \<open>analysis/detail/dwarf_resolver.cpp\<close> with its two caches. Shown: when they make no
    difference, and when they do.
  \<^item> \<open>SampleMerge\<close>, \<open>PerfProvider\<close>: \<open>analysis/perf_data_data_provider.cpp\<close>. Shown: the merge of the threads
    ends with all samples in the order of time, counts agree with what is given, and what a process without
    mappings does. The interface in \<open>Provider\<close> that \<open>Storage\<close> uses has no exceptions in its samples: it
    stands for providers that do not throw.

  \<^item> \<open>Bytes\<close>, \<open>Chunks\<close>: \<open>common/parser/extract.hpp\<close> and \<open>read.hpp\<close>, \<open>common/chunked_reader.hpp\<close>, and the loop
    over the events of a section. Shown: whole events are read as they are, whatever the chunks cut
    through; a section with some bytes more is read for ever.
  \<^item> \<open>PerfEvents\<close>, \<open>PerfFile\<close>, \<open>PerfRecording\<close>: \<open>perf_data/\<close>, from the bytes of a recording to the events that
    \<open>PerfContext\<close> handles. Shown: headers, descriptions of events and samples are read back as they are
    written, in both byte orders; every event finds its attributes; opening never leaves a file half open;
    a whole recording is processed as the list of its events.

  \<^item> \<open>EtlContext\<close>, \<open>EtlFinish\<close>: what is known of a Windows recording,
    \<open>analysis/detail/etl_file_process_context.cpp\<close>, on the values the handlers read of their events. \<open>EtlReady\<close>:
    a finished context can be asked for all of its processes, and the profiled ones are closed under starting
    processes. \<open>EtlSamples\<close>: samples are filed once, and their stacks are those of the recording.
    \<open>EtlSwitches\<close>: context switches are not counted twice.
  \<^item> \<open>PdbResolver\<close>: \<open>analysis/detail/pdb_resolver.cpp\<close> and \<open>download.cpp\<close>, files as a map from paths. Shown: what the
    search finds was checked, and no unchecked download stays.
  \<^item> \<open>EtlProvider\<close>: \<open>analysis/etl_data_provider.cpp\<close>, with its conversions between ticks and time; \<open>EtlQueries\<close>:
    the samples of a process come in order and as many as are told.
  \<^item> \<open>Decompress\<close>: \<open>common/ms_xca_decompression.cpp\<close>; \<open>DecompressRoundtrip\<close>: an encoder for the format, and that what
    it writes is read back. \<open>EtlTraces\<close>, \<open>EtlRecords\<close>: \<open>etl/parser/\<close> and
    \<open>etl/dispatching_event_observer.cpp\<close>, from the bytes of a trace to the event that \<open>EtlContext\<close> handles;
    \<open>EtlCodec\<close>: an encoder for all these events, and that they are read back. \<open>EtlFile\<close>: \<open>etl/etl_file.cpp\<close>;
    \<open>EtlMerge\<close>: its loops end, and do what \<open>SampleMerge\<close> does with the traces of the processors.
    \<open>EtlWritten\<close>, \<open>EtlRecording\<close>: whole files, from their bytes to the provider and its samples.

  Machine integers: addresses, hashes, page sizes and page indices are 64 bit words, because their
  wrap-around matters. Counts of samples, sizes of vectors and ids are \<open>nat\<close>: they are bounded by memory,
  and where the bound matters (the ids of the roots are \<open>size_t(-1)\<close> or \<open>uint32_t(-1)\<close>) it is a hypothesis.
  Loops that the code does not bound are \<open>partial_function\<close>s, so that not returning is the value \<open>None\<close>.

  Parameters of the model, because their code is not in the repository or not specified: \<open>std::hash\<close>,
  \<open>std::sort\<close> (any function that keeps the promise of the standard), the order of unordered maps, the JSON
  library, the environment, and, for \<open>Storage\<close>, the opening of a recording.

  Not modelled: sessions of Visual Studio (an archive around a Windows recording), views of events that nothing registers for, LLVM and libcurl themselves, pipes and sockets,
  threads, progress reports, and the command line.
\<close>

end
